(* ===== verification/Prelude.thy ===== *)
theory Prelude
  imports Main "HOL-Library.Word" "HOL-Library.Signed_Division"
begin

unbundle bit_operations_syntax

text \<open>
  What every component of the development shares: the C integer types, the collections of
  rewrite rules, and the generic facts about words, functions and lists that the proofs use.

  The C types of the kernel (gcc, i386): \<open>unsigned char\<close> is \<open>u8\<close>, \<open>unsigned short\<close> is \<open>u16\<close>,
  \<open>unsigned long\<close>, \<open>unsigned int\<close> and addresses are \<open>u32\<close>.  Signed \<open>int\<close> and \<open>long\<close> are \<open>int\<close>;
  where the code can leave the 32-bit range the wrap-around is written out with \<open>wrap32\<close>.
\<close>

type_synonym u8 = "8 word"
type_synonym u16 = "16 word"
type_synonym u32 = "32 word"

text \<open>Rewrite rules for running a kernel computation, and weakest-precondition rules.\<close>

named_theorems krun "unfolding rules that run a kernel computation on a state"
named_theorems wpr "weakest-precondition rules, backwards"
named_theorems kconst "numeric values of the kernel's #define constants"

definition wrap32 :: "int \<Rightarrow> int" where
  "wrap32 x = (x + 2147483648) mod 4294967296 - 2147483648"

lemma wrap32_id [simp]: "- 2147483648 \<le> x \<Longrightarrow> x < 2147483648 \<Longrightarrow> wrap32 x = x"
  by (simp add: wrap32_def)

lemma wrap32_range: "- 2147483648 \<le> wrap32 x \<and> wrap32 x < 2147483648"
proof -
  have "0 \<le> (x + 2147483648) mod 4294967296" "(x + 2147483648) mod 4294967296 < 4294967296"
    by simp_all
  then show ?thesis unfolding wrap32_def by linarith
qed

text \<open>The truth value of a C condition as an \<open>int\<close>, and of an \<open>int\<close> as a condition.\<close>

abbreviation c_bool :: "bool \<Rightarrow> int" where
  "c_bool b \<equiv> (if b then 1 else 0)"

text \<open>Storing into an array of bytes at a little-endian 16-bit index.\<close>

definition get16 :: "(nat \<Rightarrow> u8) \<Rightarrow> nat \<Rightarrow> u16" where
  "get16 d a = (ucast (d a) :: u16) OR push_bit 8 (ucast (d (Suc a)))"

definition put16 :: "(nat \<Rightarrow> u8) \<Rightarrow> nat \<Rightarrow> u16 \<Rightarrow> (nat \<Rightarrow> u8)" where
  "put16 d a w = d (a := ucast w, Suc a := ucast (drop_bit 8 w))"

definition get32 :: "(nat \<Rightarrow> u8) \<Rightarrow> nat \<Rightarrow> u32" where
  "get32 d a = (ucast (get16 d a) :: u32) OR push_bit 16 (ucast (get16 d (a + 2)))"

definition put32 :: "(nat \<Rightarrow> u8) \<Rightarrow> nat \<Rightarrow> u32 \<Rightarrow> (nat \<Rightarrow> u8)" where
  "put32 d a w = put16 (put16 d a (ucast w)) (a + 2) (ucast (drop_bit 16 w))"

lemma get16_put16 [simp]: "get16 (put16 d a w) a = w"
  by (rule bit_word_eqI)
    (auto simp: get16_def put16_def bit_simps)

lemma get16_put16_other:
  "b \<noteq> a \<Longrightarrow> b \<noteq> Suc a \<Longrightarrow> Suc b \<noteq> a \<Longrightarrow> get16 (put16 d a w) b = get16 d b"
  by (simp add: get16_def put16_def)

lemma get32_put32 [simp]: "get32 (put32 d a w) a = w"
proof -
  have low: "get16 (put32 d a w) a = ucast w"
    by (simp add: put32_def get16_put16_other)
  have high: "get16 (put32 d a w) (a + 2) = ucast (drop_bit 16 w)"
    by (simp only: put32_def get16_put16)
  show ?thesis
    unfolding get32_def low high
    by (rule bit_word_eqI) (auto simp: bit_simps)
qed

lemma put16_out: "b \<noteq> a \<Longrightarrow> b \<noteq> Suc a \<Longrightarrow> put16 d a w b = d b"
  by (simp add: put16_def)

lemma put32_out: "b \<notin> {a ..< a + 4} \<Longrightarrow> put32 d a w b = d b"
  by (auto simp: put32_def put16_def)

lemma get16_put32_other:
  "b + 1 < a \<or> a + 4 \<le> b \<Longrightarrow> get16 (put32 d a w) b = get16 d b"
  by (auto simp: put32_def get16_def put16_def)

lemma get32_put32_other:
  "b + 4 \<le> a \<or> a + 4 \<le> b \<Longrightarrow> get32 (put32 d a w) b = get32 d b"
  by (auto simp: get32_def get16_put32_other)

text \<open>Bytes in a range, as lists.\<close>

definition bytes_of :: "(nat \<Rightarrow> 'a) \<Rightarrow> nat \<Rightarrow> nat \<Rightarrow> 'a list" where
  "bytes_of d a n = map d [a ..< a + n]"

fun store_bytes :: "(nat \<Rightarrow> 'a) \<Rightarrow> nat \<Rightarrow> 'a list \<Rightarrow> (nat \<Rightarrow> 'a)" where
  "store_bytes d a [] = d"
| "store_bytes d a (x # xs) = store_bytes (d(a := x)) (Suc a) xs"

lemma store_bytes_at:
  "store_bytes d a xs i = (if a \<le> i \<and> i < a + length xs then xs ! (i - a) else d i)"
proof (induction xs arbitrary: d a)
  case Nil
  then show ?case by auto
next
  case (Cons x xs)
  then show ?case
    by (auto simp: nth_Cons' Suc_diff_Suc le_less not_less_eq)
qed

lemma length_bytes_of [simp]: "length (bytes_of d a n) = n"
  by (simp add: bytes_of_def)

lemma bytes_of_store [simp]: "bytes_of (store_bytes d a xs) a (length xs) = xs"
  by (rule nth_equalityI) (simp_all add: bytes_of_def store_bytes_at)

lemma bytes_of_store_disjoint:
  "b + n \<le> a \<or> a + length xs \<le> b \<Longrightarrow> bytes_of (store_bytes d a xs) b n = bytes_of d b n"
  by (rule nth_equalityI) (auto simp: bytes_of_def store_bytes_at)

text \<open>
  Search in an array from a low index up (\<open>first_upto\<close>) or from the top down
  (\<open>last_below\<close>): the shape of the kernel's table scans.
\<close>

fun first_from :: "(nat \<Rightarrow> bool) \<Rightarrow> nat \<Rightarrow> nat \<Rightarrow> nat option" where
  "first_from P i 0 = None"
| "first_from P i (Suc n) = (if P i then Some i else first_from P (Suc i) n)"

definition first_upto :: "(nat \<Rightarrow> bool) \<Rightarrow> nat \<Rightarrow> nat option" where
  "first_upto P n = first_from P 0 n"

fun last_below :: "(nat \<Rightarrow> bool) \<Rightarrow> nat \<Rightarrow> nat option" where
  "last_below P 0 = None"
| "last_below P (Suc n) = (if P n then Some n else last_below P n)"

lemma all_range_Suc:
  "(\<forall>j. i \<le> j \<and> j < i + Suc n \<longrightarrow> Q j) \<longleftrightarrow> Q i \<and> (\<forall>j. Suc i \<le> j \<and> j < Suc i + n \<longrightarrow> Q j)"
  (is "?l \<longleftrightarrow> ?r")
proof
  assume l: ?l
  then show ?r using Suc_leD by (metis add_Suc_right add_Suc_shift less_add_Suc1 order_refl)
next
  assume r: ?r
  show ?l
  proof (intro allI impI)
    fix j assume "i \<le> j \<and> j < i + Suc n"
    then show "Q j" using r by (cases "j = i") auto
  qed
qed

lemma first_from_None: "first_from P i n = None \<longleftrightarrow> (\<forall>j. i \<le> j \<and> j < i + n \<longrightarrow> \<not> P j)"
proof (induction n arbitrary: i)
  case 0
  then show ?case by auto
next
  case (Suc n)
  show ?case unfolding all_range_Suc using Suc by simp
qed

lemma first_from_Some:
  "first_from P i n = Some k \<Longrightarrow> i \<le> k \<and> k < i + n \<and> P k \<and> (\<forall>j. i \<le> j \<and> j < k \<longrightarrow> \<not> P j)"
proof (induction n arbitrary: i)
  case 0
  then show ?case by simp
next
  case (Suc n)
  show ?case
  proof (cases "P i")
    case True
    with Suc.prems show ?thesis by auto
  next
    case False
    with Suc.prems have "first_from P (Suc i) n = Some k" by simp
    from Suc.IH [OF this] have *: "Suc i \<le> k \<and> k < Suc i + n \<and> P k \<and> (\<forall>j. Suc i \<le> j \<and> j < k \<longrightarrow> \<not> P j)" .
    have "\<not> P j" if "i \<le> j" "j < k" for j
      using * False that by (cases "j = i") auto
    with * show ?thesis by auto
  qed
qed

lemma first_upto_Some:
  "first_upto P n = Some k \<Longrightarrow> k < n \<and> P k \<and> (\<forall>j<k. \<not> P j)"
  using first_from_Some [of P 0 n k] by (simp add: first_upto_def)

lemma first_upto_None: "first_upto P n = None \<longleftrightarrow> (\<forall>j<n. \<not> P j)"
  by (simp add: first_upto_def first_from_None)

lemma last_below_Some:
  "last_below P n = Some k \<Longrightarrow> k < n \<and> P k \<and> (\<forall>j. k < j \<and> j < n \<longrightarrow> \<not> P j)"
  by (induction n) (auto simp: less_Suc_eq split: if_splits)

lemma last_below_None: "last_below P n = None \<longleftrightarrow> (\<forall>j<n. \<not> P j)"
  by (induction n) (auto simp: less_Suc_eq)

end
