(* ===== verification/Kmonad.thy ===== *)
theory Kmonad
  imports Prelude
begin

text \<open>
  Kernel computations.  A call of a kernel function by a task is a state transformer that
  either returns (\<open>Ret\<close>) or never returns (\<open>Stop\<close>), with the reason:
    \<^item> \<open>Panicked\<close>: \<open>panic()\<close> was called (kernel/panic.c loops for ever);
    \<^item> \<open>Exited\<close>: the task was ended by \<open>do_exit\<close> from inside the call (the \<open>oom()\<close> of mm/memory.c);
    \<^item> \<open>Dead\<close>: the task is a zombie and is never run again;
    \<^item> \<open>Asleep\<close>: the task sleeps and the script below ends before it is woken;
    \<^item> \<open>Hung\<close>: the task goes round a loop that no other task or interrupt can end;
    \<^item> \<open>Wild\<close>: the C code would follow a pointer outside the object it points to.

  The kernel is not preemptive: between two sleeps a task runs alone, and what other tasks
  and interrupts do while it sleeps is arbitrary.  A computation therefore runs with a
  script: the list of the state changes that the rest of the system makes, one for every
  time this task gives up the processor (\<open>pass\<close>).  A theorem that quantifies over the script
  holds for every interleaving.
\<close>

datatype stop = Panicked string | Exited int | Dead | Asleep | Hung | Wild

datatype ('s, 'a) res = Ret 'a 's "('s \<Rightarrow> 's) list" | Stop stop 's

type_synonym ('s, 'a) kprog = "'s \<Rightarrow> ('s \<Rightarrow> 's) list \<Rightarrow> ('s, 'a) res"

definition ret :: "'a \<Rightarrow> ('s, 'a) kprog" where
  "ret x = (\<lambda>s es. Ret x s es)"

definition bnd :: "('s, 'a) kprog \<Rightarrow> ('a \<Rightarrow> ('s, 'b) kprog) \<Rightarrow> ('s, 'b) kprog" where
  "bnd m f = (\<lambda>s es. case m s es of Ret a s' es' \<Rightarrow> f a s' es' | Stop r s' \<Rightarrow> Stop r s')"

definition seq :: "('s, 'a) kprog \<Rightarrow> ('s, 'b) kprog \<Rightarrow> ('s, 'b) kprog" where
  "seq m n = bnd m (\<lambda>_. n)"

definition gets :: "('s \<Rightarrow> 'a) \<Rightarrow> ('s, 'a) kprog" where
  "gets f = (\<lambda>s es. Ret (f s) s es)"

definition modify :: "('s \<Rightarrow> 's) \<Rightarrow> ('s, unit) kprog" where
  "modify f = (\<lambda>s es. Ret () (f s) es)"

definition stop :: "stop \<Rightarrow> ('s, 'a) kprog" where
  "stop r = (\<lambda>s es. Stop r s)"

abbreviation skip :: "('s, unit) kprog" where
  "skip \<equiv> ret ()"

abbreviation kpanic :: "string \<Rightarrow> ('s, 'a) kprog" where
  "kpanic msg \<equiv> stop (Panicked msg)"

definition guardK :: "bool \<Rightarrow> ('s, unit) kprog \<Rightarrow> ('s, unit) kprog" where
  "guardK c m = (if c then m else skip)"

text \<open>The rest of the system runs until this task is resumed.\<close>

definition pass :: "('s, unit) kprog" where
  "pass = (\<lambda>s es. case es of [] \<Rightarrow> Stop Asleep s | e # es' \<Rightarrow> Ret () (e s) es')"

text \<open>A block of statements, and a \<open>for\<close> loop over the indices of a list.\<close>

fun block :: "('s, unit) kprog list \<Rightarrow> ('s, unit) kprog" where
  "block [] = skip"
| "block (m # ms) = seq m (block ms)"

fun for_each :: "'i list \<Rightarrow> ('i \<Rightarrow> ('s, unit) kprog) \<Rightarrow> ('s, unit) kprog" where
  "for_each [] body = skip"
| "for_each (i # ixs) body = seq (body i) (for_each ixs body)"

text \<open>
  A loop that can only go round by sleeping, with fuel: every round uses up an entry of the
  script, so one round more than the script is long is enough.
\<close>

fun while_fuel :: "nat \<Rightarrow> ('s \<Rightarrow> bool) \<Rightarrow> ('s, unit) kprog \<Rightarrow> ('s, unit) kprog" where
  "while_fuel 0 c body = (\<lambda>s es. if c s then Stop Asleep s else Ret () s es)"
| "while_fuel (Suc n) c body =
     bnd (gets c) (\<lambda>b. if b then seq body (while_fuel n c body) else skip)"

definition with_fuel :: "(nat \<Rightarrow> ('s, 'a) kprog) \<Rightarrow> ('s, 'a) kprog" where
  "with_fuel f = (\<lambda>s es. f (Suc (length es)) s es)"

text \<open>
  A \<open>goto repeat\<close> loop: a round gives \<open>None\<close> to go again and \<open>Some x\<close> to leave.  One round
  more than the script is long is enough when every round that goes again has slept.
\<close>

fun repeat_fuel :: "nat \<Rightarrow> ('s, 'a option) kprog \<Rightarrow> ('s, 'a) kprog" where
  "repeat_fuel 0 body = stop Hung"
| "repeat_fuel (Suc n) body = bnd body (\<lambda>r. case r of None \<Rightarrow> repeat_fuel n body | Some x \<Rightarrow> ret x)"

definition retry :: "('s, 'a option) kprog \<Rightarrow> ('s, 'a) kprog" where
  "retry body = with_fuel (\<lambda>n. repeat_fuel n body)"

text \<open>
  \<open>retry_twice\<close> is for a loop that may also go round once without sleeping between two sleeps;
  \<open>iter_fuel\<close> is a loop that carries a value from round to round.
\<close>

definition retry_twice :: "('s, 'a option) kprog \<Rightarrow> ('s, 'a) kprog" where
  "retry_twice body = with_fuel (\<lambda>n. repeat_fuel (2 * n) body)"

fun iter_fuel :: "nat \<Rightarrow> ('x \<Rightarrow> ('s, 'x + 'a) kprog) \<Rightarrow> 'x \<Rightarrow> ('s, 'a) kprog" where
  "iter_fuel 0 body x = stop Hung"
| "iter_fuel (Suc n) body x =
     bnd (body x) (\<lambda>r. case r of Inl x' \<Rightarrow> iter_fuel n body x' | Inr a \<Rightarrow> ret a)"

definition sleep_while :: "('s \<Rightarrow> bool) \<Rightarrow> ('s, unit) kprog \<Rightarrow> ('s, unit) kprog" where
  "sleep_while c body = with_fuel (\<lambda>n. while_fuel n c body)"

subsection \<open>Running\<close>

lemma ret_run [krun]: "ret x s es = Ret x s es"
  by (simp add: ret_def)

lemma bnd_run [krun]:
  "bnd m f s es = (case m s es of Ret a s' es' \<Rightarrow> f a s' es' | Stop r s' \<Rightarrow> Stop r s')"
  by (simp add: bnd_def)

lemma seq_run [krun]:
  "seq m n s es = (case m s es of Ret a s' es' \<Rightarrow> n s' es' | Stop r s' \<Rightarrow> Stop r s')"
  by (simp add: seq_def bnd_def)

lemma gets_run [krun]: "gets f s es = Ret (f s) s es"
  by (simp add: gets_def)

lemma modify_run [krun]: "modify f s es = Ret () (f s) es"
  by (simp add: modify_def)

lemma stop_run [krun]: "stop r s es = Stop r s"
  by (simp add: stop_def)

lemma guardK_run [krun]: "guardK c m s es = (if c then m s es else Ret () s es)"
  by (simp add: guardK_def ret_def)

lemma pass_run [krun]:
  "pass s es = (case es of [] \<Rightarrow> Stop Asleep s | e # es' \<Rightarrow> Ret () (e s) es')"
  by (simp add: pass_def)

lemma if_run [krun]: "(if c then m else n) s es = (if c then m s es else n s es)"
  by simp

lemma for_each_modify [krun]: "for_each ixs (\<lambda>i. modify (f i)) s es = Ret () (fold f ixs s) es"
  by (induction ixs arbitrary: s) (simp_all add: ret_run seq_run modify_run)

lemma with_fuel_run [krun]: "with_fuel f s es = f (Suc (length es)) s es"
  by (simp add: with_fuel_def)

subsection \<open>Weakest preconditions\<close>

text \<open>
  \<open>wpg F E m Q s\<close>: started in \<open>s\<close> with a script whose entries are all in \<open>E\<close>, the computation
  \<open>m\<close> either returns in a state where \<open>Q\<close> holds (the rest of the script still in \<open>E\<close>), or stops
  for a reason that \<open>F\<close> allows.
\<close>

definition wpg :: "(stop \<Rightarrow> bool) \<Rightarrow> ('s \<Rightarrow> 's) set \<Rightarrow> ('s, 'a) kprog \<Rightarrow> ('a \<Rightarrow> 's \<Rightarrow> bool) \<Rightarrow> 's \<Rightarrow> bool" where
  "wpg F E m Q s \<longleftrightarrow>
     (\<forall>es. set es \<subseteq> E \<longrightarrow>
       (case m s es of Ret a s' es' \<Rightarrow> Q a s' \<and> set es' \<subseteq> E | Stop r s' \<Rightarrow> F r))"

text \<open>The two uses: any stop is allowed, or only an orderly one.\<close>

definition any_stop :: "stop \<Rightarrow> bool" where
  "any_stop r = True"

definition orderly :: "stop \<Rightarrow> bool" where
  "orderly r \<longleftrightarrow> r = Asleep \<or> r = Dead \<or> (\<exists>c. r = Exited c)"

lemma any_stop [simp]: "any_stop r"
  by (simp add: any_stop_def)

lemma orderly_simps [simp]:
  "orderly Asleep" "orderly Dead" "orderly (Exited c)" "\<not> orderly Hung" "\<not> orderly Wild"
  "\<not> orderly (Panicked m)"
  by (simp_all add: orderly_def)

lemma wpg_ret [wpr]: "Q x s \<Longrightarrow> wpg F E (ret x) Q s"
  by (simp add: wpg_def ret_def)

lemma wpg_gets [wpr]: "Q (f s) s \<Longrightarrow> wpg F E (gets f) Q s"
  by (simp add: wpg_def gets_def)

lemma wpg_modify [wpr]: "Q () (f s) \<Longrightarrow> wpg F E (modify f) Q s"
  by (simp add: wpg_def modify_def)

lemma wpg_stop [wpr]: "F r \<Longrightarrow> wpg F E (stop r) Q s"
  by (simp add: wpg_def stop_def)

lemma wpg_bnd: "wpg F E m (\<lambda>a s'. wpg F E (f a) Q s') s \<Longrightarrow> wpg F E (bnd m f) Q s"
proof -
  assume m: "wpg F E m (\<lambda>a s'. wpg F E (f a) Q s') s"
  show "wpg F E (bnd m f) Q s"
    unfolding wpg_def
  proof (intro allI impI)
    fix es assume es: "set es \<subseteq> E"
    show "case bnd m f s es of Ret a s' es' \<Rightarrow> Q a s' \<and> set es' \<subseteq> E | Stop r s' \<Rightarrow> F r"
    proof (cases "m s es")
      case (Ret a s' es')
      then have "wpg F E (f a) Q s'" "set es' \<subseteq> E"
        using m es unfolding wpg_def by force+
      then show ?thesis using Ret unfolding wpg_def bnd_def by simp
    next
      case (Stop r s')
      then have "F r" using m es unfolding wpg_def by force
      then show ?thesis using Stop by (simp add: bnd_def)
    qed
  qed
qed

lemma wpg_seq: "wpg F E m (\<lambda>_ s'. wpg F E n Q s') s \<Longrightarrow> wpg F E (seq m n) Q s"
  unfolding seq_def by (rule wpg_bnd)

lemmas wpg_seqs [wpr] = wpg_bnd wpg_seq

lemma wpg_block [wpr]:
  "Q () s \<Longrightarrow> wpg F E (block []) Q s"
  "wpg F E m (\<lambda>_ s'. wpg F E (block ms) Q s') s \<Longrightarrow> wpg F E (block (m # ms)) Q s"
  by (simp_all add: wpg_ret wpg_seq)

lemma wpg_if [wpr]:
  "(c \<Longrightarrow> wpg F E m Q s) \<Longrightarrow> (\<not> c \<Longrightarrow> wpg F E n Q s) \<Longrightarrow> wpg F E (if c then m else n) Q s"
  by simp

lemma wpg_guardK [wpr]:
  "(c \<Longrightarrow> wpg F E m Q s) \<Longrightarrow> (\<not> c \<Longrightarrow> Q () s) \<Longrightarrow> wpg F E (guardK c m) Q s"
  by (simp add: guardK_def wpg_ret)

lemma wpg_case_option [wpr]:
  "(x = None \<Longrightarrow> wpg F E m Q s) \<Longrightarrow> (\<And>y. x = Some y \<Longrightarrow> wpg F E (n y) Q s) \<Longrightarrow>
   wpg F E (case x of None \<Rightarrow> m | Some y \<Rightarrow> n y) Q s"
  by (cases x) simp_all

lemma wpg_pass [wpr]: "F Asleep \<Longrightarrow> (\<And>e. e \<in> E \<Longrightarrow> Q () (e s)) \<Longrightarrow> wpg F E pass Q s"
  unfolding wpg_def pass_def by (simp split: list.split)

lemma wpg_conseq:
  "wpg F E m Q s \<Longrightarrow> (\<And>a s'. Q a s' \<Longrightarrow> Q' a s') \<Longrightarrow> (\<And>r. F r \<Longrightarrow> F' r) \<Longrightarrow> wpg F' E m Q' s"
  unfolding wpg_def by (force split: res.splits)

lemma wpg_post: "wpg F E m Q s \<Longrightarrow> (\<And>a s'. Q a s' \<Longrightarrow> Q' a s') \<Longrightarrow> wpg F E m Q' s"
  by (erule wpg_conseq)

lemma wpgD_Ret:
  "wpg F E m Q s \<Longrightarrow> m s es = Ret a s' es' \<Longrightarrow> set es \<subseteq> E \<Longrightarrow> Q a s' \<and> set es' \<subseteq> E"
  unfolding wpg_def by force

lemma wpgD_Stop: "wpg F E m Q s \<Longrightarrow> m s es = Stop r s' \<Longrightarrow> set es \<subseteq> E \<Longrightarrow> F r"
  unfolding wpg_def by force

lemma wpg_for_each:
  assumes step: "\<And>i s. i \<in> set ixs \<Longrightarrow> I s \<Longrightarrow> wpg F E (body i) (\<lambda>_. I) s"
    and "I s" and "\<And>s. I s \<Longrightarrow> Q () s"
  shows "wpg F E (for_each ixs body) Q s"
  using assms
proof (induction ixs arbitrary: s)
  case Nil
  then show ?case by (simp add: wpg_ret)
next
  case (Cons i ixs)
  have "wpg F E (body i) (\<lambda>_ s'. wpg F E (for_each ixs body) Q s') s"
  proof (rule wpg_post)
    show "wpg F E (body i) (\<lambda>_. I) s" using Cons.prems by simp
  next
    fix s' assume "I s'"
    then show "wpg F E (for_each ixs body) Q s'" using Cons by simp
  qed
  then show ?case by (simp add: wpg_seq)
qed

lemma wpg_while_fuel:
  assumes step: "\<And>s. I s \<Longrightarrow> c s \<Longrightarrow> wpg F E body (\<lambda>_. I) s"
    and "F Asleep" and "I s" and fin: "\<And>s. I s \<Longrightarrow> \<not> c s \<Longrightarrow> Q () s"
  shows "wpg F E (while_fuel n c body) Q s"
  using \<open>I s\<close>
proof (induction n arbitrary: s)
  case 0
  then show ?case using assms by (simp add: wpg_def)
next
  case (Suc n)
  have "wpg F E body (\<lambda>_ s'. wpg F E (while_fuel n c body) Q s') s" if "c s"
    using step [OF Suc.prems that] by (rule wpg_post) (rule Suc.IH)
  then show ?case
    using Suc.prems fin by (auto intro!: wpr)
qed

lemma wpg_with_fuel: "(\<And>n. wpg F E (f n) Q s) \<Longrightarrow> wpg F E (with_fuel f) Q s"
  unfolding wpg_def with_fuel_def by simp

lemma wpg_sleep_while:
  assumes "\<And>s. I s \<Longrightarrow> c s \<Longrightarrow> wpg F E body (\<lambda>_. I) s"
    and "F Asleep" and "I s" and "\<And>s. I s \<Longrightarrow> \<not> c s \<Longrightarrow> Q () s"
  shows "wpg F E (sleep_while c body) Q s"
  unfolding sleep_while_def
  by (rule wpg_with_fuel) (rule wpg_while_fuel [where I = I], use assms in auto)

text \<open>A loop whose condition is false at once does nothing.\<close>

lemma sleep_while_skip [krun]: "\<not> c s \<Longrightarrow> sleep_while c body s es = Ret () s es"
  by (simp add: sleep_while_def krun)

text \<open>
  Enough fuel: when every round of the body that returns has used up a script entry, more
  fuel than the script is long never changes the outcome.
\<close>

definition consumes :: "('s, 'a) kprog \<Rightarrow> bool" where
  "consumes m \<longleftrightarrow> (\<forall>s es a s' es'. m s es = Ret a s' es' \<longrightarrow> length es' < length es)"

lemma while_fuel_enough:
  assumes "consumes body" and "length es < n" and "length es < m"
  shows "while_fuel n c body s es = while_fuel m c body s es"
  using assms(2,3)
proof (induction n arbitrary: m s es)
  case 0
  then show ?case by simp
next
  case (Suc n)
  then obtain m' where m: "m = Suc m'" by (cases m) auto
  have eq: "while_fuel n c body s' es' = while_fuel m' c body s' es'"
    if "body s es = Ret u s' es'" for u s' es'
  proof (rule Suc.IH)
    have "length es' < length es" using assms(1) that unfolding consumes_def by blast
    then show "length es' < n" "length es' < m'" using Suc.prems m by simp_all
  qed
  show ?case
    by (cases "body s es") (simp_all add: m krun eq)
qed

lemma consumes_pass: "consumes pass"
  unfolding consumes_def pass_def by (simp split: list.split)

lemma consumes_bnd_left:
  assumes "consumes m" and "\<And>a s es b s' es'. f a s es = Ret b s' es' \<Longrightarrow> length es' \<le> length es"
  shows "consumes (bnd m f)"
  unfolding consumes_def
proof (intro allI impI)
  fix s es b s' es'
  assume "bnd m f s es = Ret b s' es'"
  then obtain a s1 es1 where "m s es = Ret a s1 es1" "f a s1 es1 = Ret b s' es'"
    by (auto simp: bnd_def split: res.splits)
  then show "length es' < length es"
    using assms unfolding consumes_def by (meson le_less_trans)
qed


text \<open>Every round that starts in \<open>I\<close> and goes again has used up a script entry.\<close>

definition progress :: "('s \<Rightarrow> 's) set \<Rightarrow> ('s \<Rightarrow> bool) \<Rightarrow> ('s, 'a option) kprog \<Rightarrow> bool" where
  "progress E I body \<longleftrightarrow> (\<forall>s es s' es'. I s \<longrightarrow> set es \<subseteq> E \<longrightarrow> body s es = Ret None s' es' \<longrightarrow>
     length es' < length es)"

lemma wpg_retry:
  assumes step: "\<And>s. I s \<Longrightarrow> wpg F E body (\<lambda>r s'. case r of None \<Rightarrow> I s' | Some x \<Rightarrow> Q x s') s"
    and fuel: "progress E I body \<or> F Hung" and "I s"
  shows "wpg F E (retry body) Q s"
proof -
  have main: "case repeat_fuel n body s es of Ret a s' es' \<Rightarrow> Q a s' \<and> set es' \<subseteq> E | Stop r s' \<Rightarrow> F r"
    if "I s" "set es \<subseteq> E" "length es < n \<or> F Hung" for n s es
    using that
  proof (induction n arbitrary: s es)
    case 0
    then show ?case by (simp add: stop_def)
  next
    case (Suc n)
    show ?case
    proof (cases "body s es")
      case (Ret r s' es')
      note p = wpgD_Ret [OF step [OF Suc.prems(1)] Ret Suc.prems(2)]
      show ?thesis
      proof (cases r)
        case None
        then have "length es' < n \<or> F Hung"
          using Ret fuel Suc.prems unfolding progress_def by fastforce
        then show ?thesis using Suc.IH [of s' es'] p None Ret by (simp add: bnd_def)
      next
        case (Some x)
        then show ?thesis using p Ret by (simp add: bnd_def ret_def)
      qed
    next
      case (Stop r s')
      then show ?thesis using wpgD_Stop [OF step [OF Suc.prems(1)] Stop Suc.prems(2)] by (simp add: bnd_def)
    qed
  qed
  show ?thesis
    unfolding wpg_def retry_def with_fuel_def using main [OF \<open>I s\<close>] lessI by blast
qed

lemma wpg_for_upt:
  assumes step: "\<And>k s. a \<le> k \<Longrightarrow> k < b \<Longrightarrow> I k s \<Longrightarrow> wpg F E (body k) (\<lambda>_. I (Suc k)) s"
    and "I a s" "a \<le> b" and fin: "\<And>s. I b s \<Longrightarrow> Q () s"
  shows "wpg F E (for_each [a..<b] body) Q s"
  using assms(2,3) step
proof (induction "b - a" arbitrary: a s)
  case 0
  then show ?case using fin by (simp add: wpg_ret)
next
  case (Suc n)
  then have ab: "a < b" by simp
  have "wpg F E (body a) (\<lambda>_ s'. wpg F E (for_each [Suc a..<b] body) Q s') s"
  proof (rule wpg_post)
    show "wpg F E (body a) (\<lambda>_. I (Suc a)) s" using Suc.prems ab by simp
  next
    fix u s' assume "I (Suc a) s'"
    then show "wpg F E (for_each [Suc a..<b] body) Q s'"
      using Suc.prems(3) Suc.hyps(2) ab by (intro Suc.hyps(1)) simp_all
  qed
  then show ?case using ab by (simp add: upt_conv_Cons wpg_seq)
qed

end
