(* ===== verification/Kstate.thy ===== *)
theory Kstate
  imports Kmonad
begin

text \<open>
  The data of the kernel: the structures of include/linux/*.h as records with the source's
  field names, and the record \<open>kernel\<close> of its global variables.

  Pointers.  A \<open>struct task_struct *\<close> is the address of the page that holds the structure
  (kernel/fork.c allocates it with \<open>get_free_page\<close>), so \<open>tptr\<close> is an address and \<open>tsk\<close> is the
  store of task structures.  Buffer heads, inodes, files, super blocks and requests live in
  fixed arrays, and a pointer to one is its index (\<open>None\<close> is NULL).  The data block of a
  buffer head is its own array of 1024 bytes (fs/buffer.c gives every head its own block);
  \<open>b_addr\<close> is the address of that block, the value of the C field \<open>b_data\<close>.

  The user space of the running task is the byte map \<open>umem\<close>, as the fs segment shows it;
  the memory of the page tables is \<open>phys\<close>, the 32-bit words at word-aligned physical
  addresses.  Ports are hardware: \<open>hw_inb p n\<close> is the byte that the n-th port read would give
  on port p, \<open>io_reads\<close> counts the reads, and \<open>io_log\<close> lists the bytes written, newest first.
\<close>

type_synonym tptr = u32
type_synonym bptr = nat
type_synonym iptr = nat
type_synonym fptr = nat
type_synonym sptr = nat
type_synonym rptr = nat

subsection \<open>Segment descriptors (include/linux/head.h)\<close>

record desc_struct =
  desc_a :: u32
  desc_b :: u32

subsection \<open>Signals and tasks (include/signal.h, include/linux/sched.h)\<close>

record sigaction =
  sa_handler :: u32
  sa_mask :: u32
  sa_flags :: u32
  sa_restorer :: u32

record tss_struct =
  back_link :: u32
  esp0 :: u32
  ss0 :: u32
  tss_eip :: u32
  tss_eflags :: u32
  tss_eax :: u32
  tss_ecx :: u32
  tss_edx :: u32
  tss_ebx :: u32
  tss_esp :: u32
  tss_ebp :: u32
  tss_esi :: u32
  tss_edi :: u32
  tss_es :: u32
  tss_cs :: u32
  tss_ss :: u32
  tss_ds :: u32
  tss_fs :: u32
  tss_gs :: u32
  tss_ldt :: u32
  trace_bitmap :: u32

record task_struct =
  state :: int
  counter :: int
  priority :: int
  signal :: u32
  sigaction :: "nat \<Rightarrow> sigaction"
  blocked :: u32
  exit_code :: int
  start_code :: u32
  end_code :: u32
  end_data :: u32
  brk :: u32
  start_stack :: u32
  pid :: int
  father :: int
  pgrp :: int
  session :: int
  leader :: int
  uid :: u16
  euid :: u16
  suid :: u16
  gid :: u16
  egid :: u16
  sgid :: u16
  alarm :: int
  utime :: int
  stime :: int
  cutime :: int
  cstime :: int
  start_time :: int
  used_math :: u16
  tty :: int
  umask :: u16
  pwd :: "iptr option"
  root :: "iptr option"
  executable :: "iptr option"
  close_on_exec :: u32
  filp :: "nat \<Rightarrow> fptr option"
  ldt :: "nat \<Rightarrow> desc_struct"
  tss :: tss_struct

datatype timer_fn = Transfer | Floppy_on_interrupt

record timer =
  tm_jiffies :: int
  tm_fn :: "timer_fn option"
  tm_next :: "nat option"

subsection \<open>The file system (include/linux/fs.h)\<close>

record buffer_head =
  b_addr :: u32
  b_data :: "nat \<Rightarrow> u8"
  b_blocknr :: u32
  b_dev :: u16
  b_uptodate :: u8
  b_dirt :: u8
  b_count :: u8
  b_lock :: u8
  b_wait :: "tptr option"
  b_prev :: "bptr option"
  b_next :: "bptr option"
  b_prev_free :: "bptr option"
  b_next_free :: "bptr option"

record m_inode =
  i_mode :: u16
  i_uid :: u16
  i_size :: u32
  i_mtime :: u32
  i_gid :: u8
  i_nlinks :: u8
  i_zone :: "nat \<Rightarrow> u16"
  i_wait :: "tptr option"
  i_atime :: u32
  i_ctime :: u32
  i_dev :: u16
  i_num :: u16
  i_count :: u16
  i_lock :: u8
  i_dirt :: u8
  i_pipe :: u8
  i_mount :: u8
  i_seek :: u8
  i_update :: u8

record file_struct =
  f_mode :: u16
  f_flags :: u16
  f_count :: u16
  f_inode :: "iptr option"
  f_pos :: int

record super_block =
  s_ninodes :: u16
  s_nzones :: u16
  s_imap_blocks :: u16
  s_zmap_blocks :: u16
  s_firstdatazone :: u16
  s_log_zone_size :: u16
  s_max_size :: u32
  s_magic :: u16
  s_imap :: "nat \<Rightarrow> bptr option"
  s_zmap :: "nat \<Rightarrow> bptr option"
  s_dev :: u16
  s_isup :: "iptr option"
  s_imount :: "iptr option"
  s_time :: u32
  s_wait :: "tptr option"
  s_lock :: u8
  s_rd_only :: u8
  s_dirt :: u8

subsection \<open>Block devices (kernel/blk_drv/blk.h, hd.c, floppy.c)\<close>

text \<open>
  The \<open>buffer\<close> of a request points into the data block of a buffer head: the head and the
  offset in its block.
\<close>

record request =
  r_dev :: int
  r_cmd :: int
  r_errors :: int
  r_sector :: u32
  r_nr_sectors :: u32
  r_buffer :: "bptr \<times> nat"
  r_waiting :: "tptr option"
  r_bh :: "bptr option"
  r_next :: "rptr option"

datatype request_fn_t = Do_rd_request | Do_fd_request | Do_hd_request

record blk_dev_struct =
  request_fn :: "request_fn_t option"
  current_request :: "rptr option"

datatype hd_fn = Read_intr | Write_intr | Recal_intr

record hd_i_struct =
  hd_head :: u32
  hd_sect :: u32
  hd_cyl :: u32
  hd_wpcom :: u32
  hd_lzone :: u32
  hd_ctl :: u32

record hd_struct =
  start_sect :: u32
  nr_sects :: u32

datatype fd_fn = Rw_interrupt | Seek_interrupt | Recal_interrupt | Reset_interrupt

subsection \<open>Terminals (include/linux/tty.h)\<close>

record tty_queue =
  q_data :: u32
  q_head :: u32
  q_tail :: u32
  q_proc_list :: "tptr option"
  q_buf :: "nat \<Rightarrow> u8"

record termios =
  c_iflag :: u32
  c_oflag :: u32
  c_cflag :: u32
  c_lflag :: u32
  c_line :: u8
  c_cc :: "nat \<Rightarrow> u8"

datatype tty_write_fn = Con_write | Rs_write

record tty_struct =
  termios :: termios
  tty_pgrp :: int
  tty_stopped :: int
  tty_writer :: tty_write_fn
  read_q :: tty_queue
  write_q :: tty_queue
  secondary :: tty_queue

text \<open>
  The static variables of kernel/chr_drv/console.c.  \<open>vmem\<close> is the video memory: only the console
  uses it, and it is below the memory that the page map manages.
\<close>

record console =
  video_type :: u8
  video_num_columns :: u32
  video_size_row :: u32
  video_num_lines :: u32
  video_mem_start :: u32
  video_mem_end :: u32
  video_port_reg :: u16
  video_port_val :: u16
  video_erase_char :: u16
  con_origin :: u32
  con_scr_end :: u32
  con_pos :: u32
  con_x :: u32
  con_y :: u32
  con_top :: u32
  con_bottom :: u32
  con_state :: nat
  con_npar :: nat
  con_par :: "nat \<Rightarrow> u32"
  con_ques :: bool
  con_attr :: u8
  saved_x :: u32
  saved_y :: u32
  vmem :: "u32 \<Rightarrow> u8"

subsection \<open>The global variables\<close>

record kernel =
  \<comment> \<open>mm/memory.c\<close>
  mem_map :: "nat \<Rightarrow> u8"
  HIGH_MEMORY :: u32
  phys :: "u32 \<Rightarrow> u32"
  umem :: "u32 \<Rightarrow> u8"
  \<comment> \<open>lib/malloc.c\<close>
  bucket_chain :: "nat \<Rightarrow> u32"
  free_bucket_desc :: u32
  \<comment> \<open>kernel/sched.c, kernel/fork.c\<close>
  task :: "nat \<Rightarrow> tptr option"
  tsk :: "tptr \<Rightarrow> task_struct"
  current :: tptr
  init_task :: tptr
  jiffies :: int
  startup_time :: int
  last_task_used_math :: "tptr option"
  last_pid :: int
  wait_motor :: "nat \<Rightarrow> tptr option"
  mon_timer :: "nat \<Rightarrow> int"
  moff_timer :: "nat \<Rightarrow> int"
  current_DOR :: u8
  timer_list :: "nat \<Rightarrow> timer"
  next_timer :: "nat option"
  beepcount :: int
  \<comment> \<open>fs/buffer.c\<close>
  start_buffer :: u32
  bufs :: "bptr \<Rightarrow> buffer_head"
  NR_BUFFERS :: nat
  hash_table :: "nat \<Rightarrow> bptr option"
  free_list :: bptr
  buffer_wait :: "tptr option"
  \<comment> \<open>fs/inode.c, fs/file_table.c, fs/super.c\<close>
  inode_table :: "iptr \<Rightarrow> m_inode"
  last_inode :: iptr
  file_table :: "fptr \<Rightarrow> file_struct"
  super_blocks :: "sptr \<Rightarrow> super_block"
  ROOT_DEV :: u16
  \<comment> \<open>kernel/blk_drv/ll_rw_blk.c, ramdisk.c\<close>
  requests :: "rptr \<Rightarrow> request"
  wait_for_request :: "tptr option"
  blk_dev :: "nat \<Rightarrow> blk_dev_struct"
  rd_start :: u32
  rd_mem :: "nat \<Rightarrow> u8"
  rd_length :: u32
  \<comment> \<open>kernel/blk_drv/hd.c\<close>
  hd_recalibrate :: int
  hd_reset :: int
  hd_info :: "nat \<Rightarrow> hd_i_struct"
  NR_HD :: nat
  hd :: "nat \<Rightarrow> hd_struct"
  do_hd :: "hd_fn option"
  setup_callable :: int
  \<comment> \<open>kernel/blk_drv/floppy.c\<close>
  fd_recalibrate :: int
  fd_reset :: int
  fd_seek :: int
  reply_buffer :: "nat \<Rightarrow> u8"
  cur_spec1 :: int
  cur_rate :: int
  fd_type :: nat
  tmp_floppy_area :: "nat \<Rightarrow> u8"
  current_drive :: u8
  fd_sector :: u8
  fd_head :: u8
  fd_track :: u8
  seek_track :: u8
  current_track :: u8
  fd_command :: u8
  selected :: u8
  wait_on_floppy_select :: "tptr option"
  do_floppy :: "fd_fn option"
  \<comment> \<open>kernel/chr_drv/tty_io.c\<close>
  tty_table :: "nat \<Rightarrow> tty_struct"
  tty_cr_flag :: bool
  con :: console
  \<comment> \<open>hardware\<close>
  hw_inb :: "nat \<Rightarrow> nat \<Rightarrow> u8"
  io_reads :: nat
  io_log :: "(nat \<times> u8) list"

type_synonym 'a K = "(kernel, 'a) kprog"

subsection \<open>Reading and writing through pointers\<close>

definition upd_task :: "tptr \<Rightarrow> (task_struct \<Rightarrow> task_struct) \<Rightarrow> kernel \<Rightarrow> kernel" where
  "upd_task p f s = s\<lparr>tsk := (tsk s)(p := f (tsk s p))\<rparr>"

definition upd_buf :: "bptr \<Rightarrow> (buffer_head \<Rightarrow> buffer_head) \<Rightarrow> kernel \<Rightarrow> kernel" where
  "upd_buf b f s = s\<lparr>bufs := (bufs s)(b := f (bufs s b))\<rparr>"

definition upd_inode :: "iptr \<Rightarrow> (m_inode \<Rightarrow> m_inode) \<Rightarrow> kernel \<Rightarrow> kernel" where
  "upd_inode i f s = s\<lparr>inode_table := (inode_table s)(i := f (inode_table s i))\<rparr>"

definition upd_file :: "fptr \<Rightarrow> (file_struct \<Rightarrow> file_struct) \<Rightarrow> kernel \<Rightarrow> kernel" where
  "upd_file i f s = s\<lparr>file_table := (file_table s)(i := f (file_table s i))\<rparr>"

definition upd_super :: "sptr \<Rightarrow> (super_block \<Rightarrow> super_block) \<Rightarrow> kernel \<Rightarrow> kernel" where
  "upd_super i f s = s\<lparr>super_blocks := (super_blocks s)(i := f (super_blocks s i))\<rparr>"

definition upd_req :: "rptr \<Rightarrow> (request \<Rightarrow> request) \<Rightarrow> kernel \<Rightarrow> kernel" where
  "upd_req i f s = s\<lparr>requests := (requests s)(i := f (requests s i))\<rparr>"

definition upd_timer :: "nat \<Rightarrow> (timer \<Rightarrow> timer) \<Rightarrow> kernel \<Rightarrow> kernel" where
  "upd_timer i f s = s\<lparr>timer_list := (timer_list s)(i := f (timer_list s i))\<rparr>"

abbreviation cur :: "kernel \<Rightarrow> task_struct" where
  "cur s \<equiv> tsk s (current s)"

abbreviation upd_cur :: "(task_struct \<Rightarrow> task_struct) \<Rightarrow> kernel \<Rightarrow> kernel" where
  "upd_cur f s \<equiv> upd_task (current s) f s"

lemmas upd_defs = upd_task_def upd_buf_def upd_inode_def upd_file_def upd_super_def upd_req_def
  upd_timer_def

subsection \<open>Ports (include/asm/io.h)\<close>

definition inb :: "nat \<Rightarrow> u8 K" where
  "inb p = (\<lambda>s es. Ret (hw_inb s p (io_reads s)) (s\<lparr>io_reads := Suc (io_reads s)\<rparr>) es)"

definition outb :: "u8 \<Rightarrow> nat \<Rightarrow> unit K" where
  "outb v p = modify (\<lambda>s. s\<lparr>io_log := (p, v) # io_log s\<rparr>)"

text \<open>\<open>suser()\<close> of include/linux/kernel.h and \<open>CURRENT_TIME\<close> of include/linux/sched.h.\<close>

definition HZ :: int where "HZ = 100"

definition suser :: "kernel \<Rightarrow> bool" where
  "suser s \<longleftrightarrow> euid (cur s) = 0"

definition CURRENT_TIME :: "kernel \<Rightarrow> int" where
  "CURRENT_TIME s = wrap32 (startup_time s + jiffies s sdiv HZ)"

subsection \<open>Constants (include/linux/sched.h, fs.h, errno.h, signal.h, sys/stat.h, fcntl.h)\<close>

definition NR_TASKS :: nat where [kconst]: "NR_TASKS = 64"
definition NR_OPEN :: nat where [kconst]: "NR_OPEN = 20"
definition NR_INODE :: nat where [kconst]: "NR_INODE = 32"
definition NR_FILE :: nat where [kconst]: "NR_FILE = 64"
definition NR_SUPER :: nat where [kconst]: "NR_SUPER = 8"
definition NR_HASH :: nat where [kconst]: "NR_HASH = 307"

definition TASK_RUNNING :: int where [kconst]: "TASK_RUNNING = 0"
definition TASK_INTERRUPTIBLE :: int where [kconst]: "TASK_INTERRUPTIBLE = 1"
definition TASK_UNINTERRUPTIBLE :: int where [kconst]: "TASK_UNINTERRUPTIBLE = 2"
definition TASK_ZOMBIE :: int where [kconst]: "TASK_ZOMBIE = 3"
definition TASK_STOPPED :: int where [kconst]: "TASK_STOPPED = 4"

definition READ :: int where [kconst]: "READ = 0"
definition WRITE :: int where [kconst]: "WRITE = 1"
definition READA :: int where [kconst]: "READA = 2"
definition WRITEA :: int where [kconst]: "WRITEA = 3"

definition MAJOR :: "u16 \<Rightarrow> nat" where "MAJOR d = unat (drop_bit 8 d)"
definition MINOR :: "u16 \<Rightarrow> nat" where "MINOR d = unat (d AND 0xff)"

definition S_IFMT :: u16 where [kconst]: "S_IFMT = 0xF000"
definition S_ISREG :: "u16 \<Rightarrow> bool" where "S_ISREG m \<longleftrightarrow> m AND S_IFMT = 0x8000"
definition S_ISDIR :: "u16 \<Rightarrow> bool" where "S_ISDIR m \<longleftrightarrow> m AND S_IFMT = 0x4000"
definition S_ISCHR :: "u16 \<Rightarrow> bool" where "S_ISCHR m \<longleftrightarrow> m AND S_IFMT = 0x2000"
definition S_ISBLK :: "u16 \<Rightarrow> bool" where "S_ISBLK m \<longleftrightarrow> m AND S_IFMT = 0x6000"

text \<open>Error numbers, as the negative results the code returns.\<close>

definition EPERM :: int where [kconst]: "EPERM = 1"
definition ENOENT :: int where [kconst]: "ENOENT = 2"
definition ESRCH :: int where [kconst]: "ESRCH = 3"
definition EINTR :: int where [kconst]: "EINTR = 4"
definition EIO :: int where [kconst]: "EIO = 5"
definition ENOEXEC :: int where [kconst]: "ENOEXEC = 8"
definition EBADF :: int where [kconst]: "EBADF = 9"
definition ECHILD :: int where [kconst]: "ECHILD = 10"
definition EAGAIN :: int where [kconst]: "EAGAIN = 11"
definition ENOMEM :: int where [kconst]: "ENOMEM = 12"
definition EACCES :: int where [kconst]: "EACCES = 13"
definition ENOTBLK :: int where [kconst]: "ENOTBLK = 15"
definition EBUSY :: int where [kconst]: "EBUSY = 16"
definition EEXIST :: int where [kconst]: "EEXIST = 17"
definition EXDEV :: int where [kconst]: "EXDEV = 18"
definition ENODEV :: int where [kconst]: "ENODEV = 19"
definition ENOTDIR :: int where [kconst]: "ENOTDIR = 20"
definition EISDIR :: int where [kconst]: "EISDIR = 21"
definition EINVAL :: int where [kconst]: "EINVAL = 22"
definition EMFILE :: int where [kconst]: "EMFILE = 24"
definition ENOTTY :: int where [kconst]: "ENOTTY = 25"
definition ENOSPC :: int where [kconst]: "ENOSPC = 28"
definition ESPIPE :: int where [kconst]: "ESPIPE = 29"
definition ENOSYS :: int where [kconst]: "ENOSYS = 38"
definition ENOTEMPTY :: int where [kconst]: "ENOTEMPTY = 39"
definition ERROR :: int where [kconst]: "ERROR = 99"

definition SIGHUP :: nat where [kconst]: "SIGHUP = 1"
definition SIGINT :: nat where [kconst]: "SIGINT = 2"
definition SIGQUIT :: nat where [kconst]: "SIGQUIT = 3"
definition SIGKILL :: nat where [kconst]: "SIGKILL = 9"
definition SIGSEGV :: nat where [kconst]: "SIGSEGV = 11"
definition SIGPIPE :: nat where [kconst]: "SIGPIPE = 13"
definition SIGALRM :: nat where [kconst]: "SIGALRM = 14"
definition SIGCHLD :: nat where [kconst]: "SIGCHLD = 17"
definition SIGSTOP :: nat where [kconst]: "SIGSTOP = 19"

text \<open>\<open>_S(nr)\<close>: the bit of a signal in a signal set (kernel/sched.c).\<close>

definition sigbit :: "nat \<Rightarrow> u32" where
  "sigbit nr = push_bit (nr - 1) 1"

subsection \<open>A kernel with every variable zero\<close>

text \<open>The state that concrete examples start from: the zeroed memory of the loaded kernel.\<close>

definition blank_desc_struct :: desc_struct where
  "blank_desc_struct =
   \<lparr>desc_a = 0, desc_b = 0\<rparr>"

definition blank_sigaction :: sigaction where
  "blank_sigaction =
   \<lparr>sa_handler = 0, sa_mask = 0, sa_flags = 0, sa_restorer = 0\<rparr>"

definition blank_tss_struct :: tss_struct where
  "blank_tss_struct =
   \<lparr>back_link = 0, esp0 = 0, ss0 = 0, tss_eip = 0, tss_eflags = 0, tss_eax = 0,
    tss_ecx = 0, tss_edx = 0, tss_ebx = 0, tss_esp = 0, tss_ebp = 0, tss_esi = 0, tss_edi = 0,
    tss_es = 0, tss_cs = 0, tss_ss = 0, tss_ds = 0, tss_fs = 0, tss_gs = 0, tss_ldt = 0,
    trace_bitmap = 0\<rparr>"

definition blank_task_struct :: task_struct where
  "blank_task_struct =
   \<lparr>state = 0, counter = 0, priority = 0, signal = 0,
    sigaction = (\<lambda>_. blank_sigaction), blocked = 0, exit_code = 0, start_code = 0,
    end_code = 0, end_data = 0, brk = 0, start_stack = 0, pid = 0, father = 0, pgrp = 0,
    session = 0, leader = 0, uid = 0, euid = 0, suid = 0, gid = 0, egid = 0, sgid = 0,
    alarm = 0, utime = 0, stime = 0, cutime = 0, cstime = 0, start_time = 0, used_math = 0,
    tty = 0, umask = 0, pwd = None, root = None, executable = None, close_on_exec = 0,
    filp = (\<lambda>_. None), ldt = (\<lambda>_. blank_desc_struct),
    tss = blank_tss_struct\<rparr>"

definition blank_timer :: timer where
  "blank_timer =
   \<lparr>tm_jiffies = 0, tm_fn = None, tm_next = None\<rparr>"

definition blank_buffer_head :: buffer_head where
  "blank_buffer_head =
   \<lparr>b_addr = 0, b_data = (\<lambda>_. 0), b_blocknr = 0, b_dev = 0, b_uptodate = 0, b_dirt = 0,
    b_count = 0, b_lock = 0, b_wait = None, b_prev = None, b_next = None, b_prev_free = None,
    b_next_free = None\<rparr>"

definition blank_m_inode :: m_inode where
  "blank_m_inode =
   \<lparr>i_mode = 0, i_uid = 0, i_size = 0, i_mtime = 0, i_gid = 0, i_nlinks = 0,
    i_zone = (\<lambda>_. 0), i_wait = None, i_atime = 0, i_ctime = 0, i_dev = 0, i_num = 0,
    i_count = 0, i_lock = 0, i_dirt = 0, i_pipe = 0, i_mount = 0, i_seek = 0,
    i_update = 0\<rparr>"

definition blank_file_struct :: file_struct where
  "blank_file_struct =
   \<lparr>f_mode = 0, f_flags = 0, f_count = 0, f_inode = None, f_pos = 0\<rparr>"

definition blank_super_block :: super_block where
  "blank_super_block =
   \<lparr>s_ninodes = 0, s_nzones = 0, s_imap_blocks = 0, s_zmap_blocks = 0,
    s_firstdatazone = 0, s_log_zone_size = 0, s_max_size = 0, s_magic = 0,
    s_imap = (\<lambda>_. None), s_zmap = (\<lambda>_. None), s_dev = 0, s_isup = None,
    s_imount = None, s_time = 0, s_wait = None, s_lock = 0, s_rd_only = 0, s_dirt = 0\<rparr>"

definition blank_request :: request where
  "blank_request =
   \<lparr>r_dev = 0, r_cmd = 0, r_errors = 0, r_sector = 0, r_nr_sectors = 0,
    r_buffer = (0, 0), r_waiting = None, r_bh = None, r_next = None\<rparr>"

definition blank_blk_dev_struct :: blk_dev_struct where
  "blank_blk_dev_struct =
   \<lparr>request_fn = None, current_request = None\<rparr>"

definition blank_hd_i_struct :: hd_i_struct where
  "blank_hd_i_struct =
   \<lparr>hd_head = 0, hd_sect = 0, hd_cyl = 0, hd_wpcom = 0, hd_lzone = 0, hd_ctl = 0\<rparr>"

definition blank_hd_struct :: hd_struct where
  "blank_hd_struct =
   \<lparr>start_sect = 0, nr_sects = 0\<rparr>"

definition blank_tty_queue :: tty_queue where
  "blank_tty_queue =
   \<lparr>q_data = 0, q_head = 0, q_tail = 0, q_proc_list = None,
    q_buf = (\<lambda>_. 0)\<rparr>"

definition blank_termios :: termios where
  "blank_termios =
   \<lparr>c_iflag = 0, c_oflag = 0, c_cflag = 0, c_lflag = 0, c_line = 0,
    c_cc = (\<lambda>_. 0)\<rparr>"

definition blank_tty_struct :: tty_struct where
  "blank_tty_struct =
   \<lparr>termios = blank_termios, tty_pgrp = 0, tty_stopped = 0, tty_writer = Con_write,
    read_q = blank_tty_queue, write_q = blank_tty_queue, secondary = blank_tty_queue\<rparr>"

definition blank_console :: console where
  "blank_console =
   \<lparr>video_type = 0, video_num_columns = 0, video_size_row = 0, video_num_lines = 0, video_mem_start = 0,
    video_mem_end = 0, video_port_reg = 0, video_port_val = 0, video_erase_char = 0, con_origin = 0,
    con_scr_end = 0, con_pos = 0, con_x = 0, con_y = 0, con_top = 0, con_bottom = 0, con_state = 0,
    con_npar = 0, con_par = (\<lambda>_. 0), con_ques = False, con_attr = 7, saved_x = 0, saved_y = 0,
    vmem = (\<lambda>_. 0)\<rparr>"

definition blank_kernel :: kernel where
  "blank_kernel =
   \<lparr>mem_map = (\<lambda>_. 0), HIGH_MEMORY = 0, phys = (\<lambda>_. 0),
    umem = (\<lambda>_. 0), bucket_chain = (\<lambda>_. 0), free_bucket_desc = 0, task = (\<lambda>_. None), tsk = (\<lambda>_. blank_task_struct),
    current = 0, init_task = 0, jiffies = 0, startup_time = 0, last_task_used_math = None,
    last_pid = 0, wait_motor = (\<lambda>_. None), mon_timer = (\<lambda>_. 0),
    moff_timer = (\<lambda>_. 0), current_DOR = 0, timer_list = (\<lambda>_. blank_timer),
    next_timer = None, beepcount = 0, start_buffer = 0, bufs = (\<lambda>_. blank_buffer_head),
    NR_BUFFERS = 0, hash_table = (\<lambda>_. None), free_list = 0, buffer_wait = None,
    inode_table = (\<lambda>_. blank_m_inode), last_inode = 0,
    file_table = (\<lambda>_. blank_file_struct),
    super_blocks = (\<lambda>_. blank_super_block), ROOT_DEV = 0,
    requests = (\<lambda>_. blank_request), wait_for_request = None,
    blk_dev = (\<lambda>_. blank_blk_dev_struct), rd_start = 0,
    rd_mem = (\<lambda>_. 0), rd_length = 0,
    hd_recalibrate = 0, hd_reset = 0, hd_info = (\<lambda>_. blank_hd_i_struct), NR_HD = 0,
    hd = (\<lambda>_. blank_hd_struct), do_hd = None, setup_callable = 0, fd_recalibrate = 0,
    fd_reset = 0, fd_seek = 0, reply_buffer = (\<lambda>_. 0), cur_spec1 = 0, cur_rate = 0,
    fd_type = 0, tmp_floppy_area = (\<lambda>_. 0), current_drive = 0, fd_sector = 0, fd_head = 0, fd_track = 0, seek_track = 0,
    current_track = 0, fd_command = 0, selected = 0, wait_on_floppy_select = None,
    do_floppy = None, tty_table = (\<lambda>_. blank_tty_struct), tty_cr_flag = False, con = blank_console,
    hw_inb = (\<lambda>_. (\<lambda>_. 0)), io_reads = 0, io_log = []\<rparr>"

end
