(* ===== verification/Memory.thy ===== *)
theory Memory
  imports Kstate
begin

text \<open>
  mm/memory.c: the allocator of physical pages (\<open>mem_map\<close>), the two-level page tables and
  copy-on-write.  The page directory is at physical address 0.  \<open>do_no_page\<close>, which reads the
  executable, is in theory Demand.  \<open>invalidate()\<close> only flushes the processor's page cache and
  \<open>printk\<close> only prints; neither has a counterpart in the model.
\<close>

definition LOW_MEM :: u32 where [kconst]: "LOW_MEM = 0x100000"
definition PAGING_PAGES :: nat where [kconst]: "PAGING_PAGES = 3840"
definition USED :: u8 where [kconst]: "USED = 100"

definition MAP_NR :: "u32 \<Rightarrow> nat" where
  "MAP_NR addr = unat (drop_bit 12 (addr - LOW_MEM))"

definition oom :: "'a K" where
  "oom = stop (Exited (int SIGSEGV))"

text \<open>Words of physical memory, and the counter of a page (an index outside \<open>mem_map\<close> is wild).\<close>

definition set_word :: "u32 \<Rightarrow> u32 \<Rightarrow> kernel \<Rightarrow> kernel" where
  "set_word a v s = s\<lparr>phys := (phys s)(a := v)\<rparr>"

definition set_map :: "nat \<Rightarrow> u8 \<Rightarrow> kernel \<Rightarrow> kernel" where
  "set_map i v s = s\<lparr>mem_map := (mem_map s)(i := v)\<rparr>"

definition mem_map_add :: "nat \<Rightarrow> u8 \<Rightarrow> unit K" where
  "mem_map_add i d =
     (if i < PAGING_PAGES then modify (\<lambda>s. set_map i (mem_map s i + d) s) else stop Wild)"

definition copy_page :: "u32 \<Rightarrow> u32 \<Rightarrow> unit K" where
  "copy_page frm dst =
     for_each [0..<1024] (\<lambda>k. modify (\<lambda>s. set_word (dst + 4 * of_nat k) (phys s (frm + 4 * of_nat k)) s))"

definition get_free_page :: "u32 K" where
  "get_free_page =
     bnd (gets (\<lambda>s. last_below (\<lambda>i. mem_map s i = 0) PAGING_PAGES)) (\<lambda>r. case r of
       None \<Rightarrow> ret 0
     | Some i \<Rightarrow>
         let pg = push_bit 12 (of_nat i) + LOW_MEM in
         seq (block [modify (set_map i 1),
                     for_each (rev [0..<1024]) (\<lambda>k. modify (set_word (pg + 4 * of_nat k) 0))])
             (ret pg))"

definition free_page :: "u32 \<Rightarrow> unit K" where
  "free_page addr =
     (if addr < LOW_MEM then skip
      else bnd (gets HIGH_MEMORY) (\<lambda>hi.
        if addr \<ge> hi then kpanic ''trying to free nonexistent page''
        else if MAP_NR addr \<ge> PAGING_PAGES then stop Wild
        else bnd (gets (\<lambda>s. mem_map s (MAP_NR addr))) (\<lambda>n.
          if n \<noteq> 0 then modify (set_map (MAP_NR addr) (n - 1))
          else seq (modify (set_map (MAP_NR addr) 0)) (kpanic ''trying to free free page''))))"

definition free_table_entry :: "u32 \<Rightarrow> unit K" where
  "free_table_entry pte =
     bnd (gets (\<lambda>s. phys s pte)) (\<lambda>e.
       block [guardK (e AND 1 \<noteq> 0) (free_page (e AND 0xfffff000)), modify (set_word pte 0)])"

definition free_dir_entry :: "u32 \<Rightarrow> unit K" where
  "free_dir_entry dir =
     bnd (gets (\<lambda>s. phys s dir)) (\<lambda>e.
       if e AND 1 = 0 then skip
       else block
         [for_each [0..<1024] (\<lambda>nr. free_table_entry ((e AND 0xfffff000) + 4 * of_nat nr)),
          bnd (gets (\<lambda>s. phys s dir)) (\<lambda>e'. free_page (e' AND 0xfffff000)),
          modify (set_word dir 0)])"

definition free_page_tables :: "u32 \<Rightarrow> u32 \<Rightarrow> int K" where
  "free_page_tables frm sz =
     (if frm AND 0x3fffff \<noteq> 0 then kpanic ''free_page_tables called with wrong alignment''
      else if frm = 0 then kpanic ''Trying to free up swapper memory space''
      else seq (for_each [0..<unat (drop_bit 22 (sz + 0x3fffff))]
                  (\<lambda>k. free_dir_entry ((drop_bit 20 frm AND 0xffc) + 4 * of_nat k)))
               (ret 0))"

definition copy_table_entry :: "u32 \<Rightarrow> u32 \<Rightarrow> unit K" where
  "copy_table_entry fpte tpte =
     bnd (gets (\<lambda>s. phys s fpte)) (\<lambda>e.
       if e AND 1 = 0 then skip
       else let this_page = e AND NOT 2 in
         block
           [modify (set_word tpte this_page),
            guardK (this_page > LOW_MEM)
              (block [modify (set_word fpte this_page), mem_map_add (MAP_NR this_page) 1])])"

fun copy_dir_entries :: "nat \<Rightarrow> nat \<Rightarrow> u32 \<Rightarrow> u32 \<Rightarrow> int K" where
  "copy_dir_entries 0 nr from_dir to_dir = ret 0"
| "copy_dir_entries (Suc n) nr from_dir to_dir =
     bnd (gets (\<lambda>s. phys s to_dir)) (\<lambda>te.
     bnd (gets (\<lambda>s. phys s from_dir)) (\<lambda>fe.
       if te AND 1 \<noteq> 0 then kpanic ''copy_page_tables: already exist''
       else if fe AND 1 = 0 then copy_dir_entries n nr (from_dir + 4) (to_dir + 4)
       else bnd get_free_page (\<lambda>to_page_table.
         if to_page_table = 0 then ret (- 1)
         else seq
           (block
             [modify (set_word to_dir (to_page_table OR 7)),
              for_each [0..<nr] (\<lambda>k. copy_table_entry ((fe AND 0xfffff000) + 4 * of_nat k)
                                                       (to_page_table + 4 * of_nat k))])
           (copy_dir_entries n nr (from_dir + 4) (to_dir + 4)))))"

definition copy_page_tables :: "u32 \<Rightarrow> u32 \<Rightarrow> u32 \<Rightarrow> int K" where
  "copy_page_tables frm dst sz =
     (if frm AND 0x3fffff \<noteq> 0 \<or> dst AND 0x3fffff \<noteq> 0
      then kpanic ''copy_page_tables called with wrong alignment''
      else copy_dir_entries (unat (drop_bit 22 (sz + 0x3fffff))) (if frm = 0 then 0xA0 else 1024)
             (drop_bit 20 frm AND 0xffc) (drop_bit 20 dst AND 0xffc))"

definition put_page :: "u32 \<Rightarrow> u32 \<Rightarrow> u32 K" where
  "put_page page address =
     (let dir = drop_bit 20 address AND 0xffc; ix = drop_bit 12 address AND 0x3ff in
      bnd (gets (\<lambda>s. phys s dir)) (\<lambda>e.
        if e AND 1 \<noteq> 0
        then seq (modify (set_word ((e AND 0xfffff000) + 4 * ix) (page OR 7))) (ret page)
        else bnd get_free_page (\<lambda>tmp.
          if tmp = 0 then ret 0
          else seq (block [modify (set_word dir (tmp OR 7)),
                           modify (set_word (tmp + 4 * ix) (page OR 7))])
                   (ret page))))"

definition un_wp_page :: "u32 \<Rightarrow> unit K" where
  "un_wp_page table_entry =
     bnd (gets (\<lambda>s. phys s table_entry AND 0xfffff000)) (\<lambda>old_page.
     bnd (gets (\<lambda>s. mem_map s (MAP_NR old_page))) (\<lambda>n.
       if old_page \<ge> LOW_MEM \<and> n = 1
       then modify (\<lambda>s. set_word table_entry (phys s table_entry OR 2) s)
       else bnd get_free_page (\<lambda>new_page.
         if new_page = 0 then oom
         else block
           [guardK (old_page \<ge> LOW_MEM) (mem_map_add (MAP_NR old_page) (- 1)),
            modify (set_word table_entry (new_page OR 7)),
            copy_page old_page new_page])))"

definition do_wp_page :: "u32 \<Rightarrow> u32 \<Rightarrow> unit K" where
  "do_wp_page error_code address =
     bnd (gets (\<lambda>s. phys s (drop_bit 20 address AND 0xffc))) (\<lambda>e.
       un_wp_page ((drop_bit 10 address AND 0xffc) + (0xfffff000 AND e)))"

definition write_verify :: "u32 \<Rightarrow> unit K" where
  "write_verify address =
     bnd (gets (\<lambda>s. phys s (drop_bit 20 address AND 0xffc))) (\<lambda>page.
       if page AND 1 = 0 then skip
       else let pte = (page AND 0xfffff000) + (drop_bit 10 address AND 0xffc) in
         bnd (gets (\<lambda>s. phys s pte)) (\<lambda>e.
           guardK (3 AND e = 1) (un_wp_page pte)))"

definition get_empty_page :: "u32 \<Rightarrow> unit K" where
  "get_empty_page address =
     bnd get_free_page (\<lambda>tmp.
       if tmp = 0 then seq (free_page tmp) oom
       else bnd (put_page tmp address) (\<lambda>r.
         if r = 0 then seq (free_page tmp) oom else skip))"

definition try_to_share :: "u32 \<Rightarrow> tptr \<Rightarrow> int K" where
  "try_to_share address p =
     bnd (gets (\<lambda>s. (drop_bit 20 address AND 0xffc) + (drop_bit 20 (start_code (tsk s p)) AND 0xffc)))
       (\<lambda>from_dir.
     bnd (gets (\<lambda>s. (drop_bit 20 address AND 0xffc) + (drop_bit 20 (start_code (cur s)) AND 0xffc)))
       (\<lambda>to_dir.
     bnd (gets (\<lambda>s. phys s from_dir)) (\<lambda>frm.
       if frm AND 1 = 0 then ret 0
       else let from_page = (frm AND 0xfffff000) + (drop_bit 10 address AND 0xffc) in
         bnd (gets (\<lambda>s. phys s from_page)) (\<lambda>pa.
         bnd (gets HIGH_MEMORY) (\<lambda>hi.
           if pa AND 0x41 \<noteq> 0x01 then ret 0
           else let phys_addr = pa AND 0xfffff000 in
             if phys_addr \<ge> hi \<or> phys_addr < LOW_MEM then ret 0
             else
               bnd (bnd (gets (\<lambda>s. phys s to_dir)) (\<lambda>dst.
                      if dst AND 1 \<noteq> 0 then ret dst
                      else bnd get_free_page (\<lambda>pg.
                        if pg = 0 then oom
                        else seq (modify (set_word to_dir (pg OR 7))) (ret pg)))) (\<lambda>dst.
               let to_page = (dst AND 0xfffff000) + (drop_bit 10 address AND 0xffc) in
               bnd (gets (\<lambda>s. phys s to_page)) (\<lambda>te.
                 if te AND 1 \<noteq> 0 then kpanic ''try_to_share: to_page already exists''
                 else seq
                   (block
                     [modify (\<lambda>s. set_word from_page (phys s from_page AND NOT 2) s),
                      modify (\<lambda>s. set_word to_page (phys s from_page) s),
                      mem_map_add (MAP_NR phys_addr) 1])
                   (ret 1))))))))"

fun share_from :: "u32 \<Rightarrow> nat list \<Rightarrow> int K" where
  "share_from address [] = ret 0"
| "share_from address (n # ns) =
     bnd (gets (\<lambda>s. task s n)) (\<lambda>p. case p of
       None \<Rightarrow> share_from address ns
     | Some q \<Rightarrow>
         bnd (gets (\<lambda>s. current s = q \<or> executable (tsk s q) \<noteq> executable (cur s))) (\<lambda>no.
           if no then share_from address ns
           else bnd (try_to_share address q) (\<lambda>r.
             if r \<noteq> 0 then ret 1 else share_from address ns)))"

definition share_page :: "u32 \<Rightarrow> int K" where
  "share_page address =
     bnd (gets (\<lambda>s. executable (cur s))) (\<lambda>ex. case ex of
       None \<Rightarrow> ret 0
     | Some i \<Rightarrow>
         bnd (gets (\<lambda>s. i_count (inode_table s i))) (\<lambda>n.
           if n < 2 then ret 0 else share_from address (rev [1..<NR_TASKS])))"

definition mem_init :: "int \<Rightarrow> int \<Rightarrow> unit K" where
  "mem_init start_mem end_mem = block
     [modify (\<lambda>s. s\<lparr>HIGH_MEMORY := word_of_int end_mem\<rparr>),
      for_each [0..<PAGING_PAGES] (\<lambda>i. modify (set_map i USED)),
      let i = MAP_NR (word_of_int start_mem); n = nat ((end_mem - start_mem) div 4096) in
      for_each [i..<i + n] (\<lambda>i. if i < PAGING_PAGES then modify (set_map i 0) else stop Wild)]"

text \<open>What \<open>calc_mem\<close> prints: the number of free pages, and the pages each directory entry maps.\<close>

definition calc_mem :: "kernel \<Rightarrow> nat \<times> (nat \<times> nat) list" where
  "calc_mem s =
     (length (filter (\<lambda>i. mem_map s i = 0) [0..<PAGING_PAGES]),
      map (\<lambda>i. (i, length (filter (\<lambda>j. phys s ((phys s (4 * of_nat i) AND 0xfffff000) + 4 * of_nat j) AND 1 \<noteq> 0)
                            [0..<1024])))
        (filter (\<lambda>i. phys s (4 * of_nat i) AND 1 \<noteq> 0) [2..<1024]))"

subsection \<open>Pages and words\<close>

text \<open>The number of the page frame that an address lies in, and the words of a page.\<close>

definition frame :: "u32 \<Rightarrow> nat" where
  "frame a = unat a div 4096"

lemma unat_u32_less [simp]: "unat (a :: u32) < 4294967296"
  using unsigned_less [of a, where 'a = nat] by simp

lemma page_mask: "(a :: u32) AND 0xfffff000 = push_bit 12 (drop_bit 12 a)"
proof -
  have eq: "(0xfffff000 :: u32) = push_bit 12 (mask 20)" by (simp add: mask_eq_exp_minus_1 push_bit_eq_mult)
  show ?thesis
    unfolding eq by (rule bit_word_eqI) (auto simp: bit_simps)
qed

lemma div_times_less: "a < 4294967296 \<Longrightarrow> a div 4096 * 4096 < (4294967296::nat)"
  by (rule le_less_trans [OF div_times_less_eq_dividend])

lemma unat_page: "unat (a AND 0xfffff000 :: u32) = frame a * 4096"
proof -
  have "unat a div 4096 < 1048576"
    by (rule less_mult_imp_div_less) simp
  moreover have "unat a div 4096 * 4096 < 4294967296"
    using div_times_less by simp
  ultimately have "unat (push_bit 12 (drop_bit 12 a)) = unat a div 4096 * 4096"
    by (simp add: push_bit_eq_mult drop_bit_eq_div unat_word_ariths unat_div)
  then show ?thesis by (simp add: page_mask frame_def)
qed

lemma unat_in_page:
  assumes "unat (p :: u32) mod 4096 = 0" and "k < 1024"
  shows "unat (p + 4 * of_nat k) = unat p + 4 * k"
proof -
  obtain q where q: "unat p = 4096 * q" using assms(1) by (metis mod_0_imp_dvd dvdE)
  have "unat p < 4294967296" by simp
  then have "q < 1048576" unfolding q by simp
  then have p: "unat p + 4096 \<le> 4294967296" unfolding q by simp
  have k: "unat (4 * of_nat k :: u32) = 4 * k"
    using assms(2) by (simp add: unat_word_ariths unat_of_nat)
  show ?thesis
    using p k assms(2) by (simp add: unat_word_ariths)
qed

lemma word_in_page:
  assumes "unat (p :: u32) mod 4096 = 0" and "k < 1024"
  shows "frame (p + 4 * of_nat k) = frame p" "unat (p + 4 * of_nat k) mod 4096 = 4 * k"
proof -
  obtain q where q: "unat p = 4096 * q" using assms(1) by (metis mod_0_imp_dvd dvdE)
  have k: "4 * k < 4096" using assms(2) by simp
  show "frame (p + 4 * of_nat k) = frame p"
    unfolding frame_def unat_in_page [OF assms] q using k by simp
  show "unat (p + 4 * of_nat k) mod 4096 = 4 * k"
    unfolding unat_in_page [OF assms] q using k by simp
qed

lemma word_in_page_inj:
  assumes "unat (p :: u32) mod 4096 = 0" and "k < 1024" "j < 1024"
  shows "p + 4 * of_nat k = p + 4 * of_nat j \<longleftrightarrow> k = j"
proof
  assume "p + 4 * of_nat k = p + 4 * of_nat j"
  then have "unat p + 4 * k = unat p + 4 * j"
    using unat_in_page [OF assms(1,2)] unat_in_page [OF assms(1,3)] by metis
  then show "k = j" by simp
qed simp

definition page_words :: "u32 \<Rightarrow> u32 set" where
  "page_words p = (\<lambda>k. p + 4 * of_nat k) ` {..<1024}"

lemma page_wordsI [intro]: "k < 1024 \<Longrightarrow> p + 4 * of_nat k \<in> page_words p"
  by (auto simp: page_words_def)

lemma page_words_frame: "unat (p :: u32) mod 4096 = 0 \<Longrightarrow> a \<in> page_words p \<Longrightarrow> frame a = frame p"
  by (auto simp: page_words_def word_in_page)

lemma aligned_frame_eq:
  "unat (p :: u32) mod 4096 = 0 \<Longrightarrow> unat q mod 4096 = 0 \<Longrightarrow> frame p = frame q \<Longrightarrow> p = q"
  by (metis frame_def add.right_neutral div_mult_mod_eq word_unat_eq_iff)

lemma page_words_disjoint:
  "unat (p :: u32) mod 4096 = 0 \<Longrightarrow> unat q mod 4096 = 0 \<Longrightarrow> p \<noteq> q \<Longrightarrow> page_words p \<inter> page_words q = {}"
  by (metis aligned_frame_eq page_words_frame disjoint_iff)

lemma fold_zero_words:
  "fold (\<lambda>k. set_word (p + 4 * of_nat k) 0) ks s =
   s\<lparr>phys := (\<lambda>a. if a \<in> (\<lambda>k. p + 4 * of_nat k) ` set ks then 0 else phys s a)\<rparr>"
  by (induction ks arbitrary: s) (auto simp: set_word_def fun_eq_iff)

definition zero_page :: "u32 \<Rightarrow> kernel \<Rightarrow> kernel" where
  "zero_page p s = s\<lparr>phys := (\<lambda>a. if a \<in> page_words p then 0 else phys s a)\<rparr>"

lemma zero_page_fold: "fold (\<lambda>k. set_word (p + 4 * of_nat k) 0) (rev [0..<1024]) s = zero_page p s"
  by (simp add: fold_zero_words zero_page_def page_words_def atLeast0LessThan del: upt_Suc)

definition copied_page :: "u32 \<Rightarrow> u32 \<Rightarrow> kernel \<Rightarrow> kernel" where
  "copied_page p q s = s\<lparr>phys := (\<lambda>a. if a \<in> page_words q then phys s (p + (a - q)) else phys s a)\<rparr>"

lemma fold_copy_words:
  assumes "unat p mod 4096 = 0" "unat q mod 4096 = 0" "p \<noteq> q" "set ks \<subseteq> {..<1024}"
  shows "fold (\<lambda>k s. set_word (q + 4 * of_nat k) (phys s (p + 4 * of_nat k)) s) ks s =
   s\<lparr>phys := (\<lambda>a. if a \<in> (\<lambda>k. q + 4 * of_nat k) ` set ks then phys s (p + (a - q)) else phys s a)\<rparr>"
  using assms(4)
proof (induction ks arbitrary: s)
  case Nil
  then show ?case by simp
next
  case (Cons k ks)
  have "p + (a - q) \<noteq> q + 4 * of_nat k" if "a \<in> (\<lambda>k. q + 4 * of_nat k) ` set ks" for a
  proof -
    from that Cons.prems obtain j where "a = q + 4 * of_nat j" "j < 1024" by auto
    then have "p + (a - q) \<in> page_words p" by auto
    moreover have "q + 4 * of_nat k \<in> page_words q" using Cons.prems by auto
    ultimately show ?thesis using page_words_disjoint [OF assms(1-3)] by (metis disjoint_iff)
  qed
  with Cons show ?case by (auto simp: set_word_def fun_eq_iff)
qed

lemma copy_page_run:
  assumes "unat p mod 4096 = 0" "unat q mod 4096 = 0" "p \<noteq> q"
  shows "copy_page p q s es = Ret () (copied_page p q s) es"
proof -
  have "set [0..<1024] \<subseteq> {..<1024}" by auto
  then show ?thesis
    unfolding copy_page_def for_each_modify fold_copy_words [OF assms \<open>set [0..<1024] \<subseteq> {..<1024}\<close>] copied_page_def page_words_def
    by (simp add: atLeast0LessThan)
qed

end
