(* ===== verification/Pagetab.thy ===== *)
theory Pagetab
  imports Memory
begin

unbundle bit_operations_syntax

text \<open>
  The page tables of the user tasks as a set of locations (\<open>loc\<close>): the directory entries 16 to
  1023 and, below every present one, the 1024 entries of its table.  \<open>refs s f\<close> is the set of
  locations that refer to page frame \<open>f\<close>.  The invariant \<open>vm_ok\<close> of mm/memory.c:
    \<^item> tables are pages of \<open>mem_map\<close> and their directory entries are writable (\<open>tables_ok\<close>);
    \<^item> a page's counter is at least its number of references, and not far above it (\<open>counts_ok\<close>);
    \<^item> a page with a writable reference has no other reference (\<open>cow_ok\<close>), so no table is
      mapped in user space and no two entries share a writable page;
    \<^item> a shared page sits at the same offset of every task (\<open>slots_ok\<close>), so that the 64 tasks
      cannot overflow its 8-bit counter;
    \<^item> the first 160 entries of the kernel's own table map memory below 1 MB (\<open>low_ok\<close>).
  The lemmas say what the invariant is worth and which single writes keep it.
\<close>

abbreviation present :: "u32 \<Rightarrow> bool" where "present e \<equiv> e AND 1 \<noteq> 0"
abbreviation writable :: "u32 \<Rightarrow> bool" where "writable e \<equiv> e AND 2 \<noteq> 0"
abbreviation table_of :: "u32 \<Rightarrow> u32" where "table_of e \<equiv> e AND 0xfffff000"

datatype loc = Dir nat | Ent nat nat

fun loc_addr :: "kernel \<Rightarrow> loc \<Rightarrow> u32" where
  "loc_addr s (Dir i) = 4 * of_nat i"
| "loc_addr s (Ent i k) = table_of (phys s (4 * of_nat i)) + 4 * of_nat k"

definition entry :: "kernel \<Rightarrow> loc \<Rightarrow> u32" where
  "entry s l = phys s (loc_addr s l)"

definition udirs :: "nat set" where
  "udirs = {16..<1024}"

definition locs :: "kernel \<Rightarrow> loc set" where
  "locs s = Dir ` udirs \<union> {Ent i k | i k. i \<in> udirs \<and> k < 1024 \<and> present (entry s (Dir i))}"

definition refs :: "kernel \<Rightarrow> nat \<Rightarrow> loc set" where
  "refs s f = {l \<in> locs s. present (entry s l) \<and> frame (entry s l) = f}"

definition managed :: "nat \<Rightarrow> bool" where
  "managed f \<longleftrightarrow> 256 \<le> f \<and> f < 4096"

definition page_count :: "kernel \<Rightarrow> nat \<Rightarrow> nat" where
  "page_count s f = unat (mem_map s (f - 256))"

fun same_slot :: "loc \<Rightarrow> loc \<Rightarrow> bool" where
  "same_slot (Ent i k) (Ent j m) \<longleftrightarrow> i mod 16 = j mod 16 \<and> k = m"
| "same_slot _ _ \<longleftrightarrow> True"

definition tables_ok :: "kernel \<Rightarrow> bool" where
  "tables_ok s \<longleftrightarrow> (\<forall>i \<in> udirs. present (entry s (Dir i)) \<longrightarrow>
     managed (frame (entry s (Dir i))) \<and> writable (entry s (Dir i)))"

definition counts_ok :: "kernel \<Rightarrow> bool" where
  "counts_ok s \<longleftrightarrow> (\<forall>f. managed f \<longrightarrow>
     card (refs s f) \<le> page_count s f \<and> page_count s f \<le> card (refs s f) + 100)"

definition cow_ok :: "kernel \<Rightarrow> bool" where
  "cow_ok s \<longleftrightarrow> (\<forall>f l. managed f \<longrightarrow> l \<in> refs s f \<longrightarrow> writable (entry s l) \<longrightarrow> refs s f = {l})"

definition slots_ok :: "kernel \<Rightarrow> bool" where
  "slots_ok s \<longleftrightarrow> (\<forall>f l m. managed f \<longrightarrow> l \<in> refs s f \<longrightarrow> m \<in> refs s f \<longrightarrow> same_slot l m)"

definition low_ok :: "kernel \<Rightarrow> bool" where
  "low_ok s \<longleftrightarrow> 0 < frame (phys s 0) \<and> frame (phys s 0) < 256 \<and>
     (\<forall>k<160. frame (phys s (table_of (phys s 0) + 4 * of_nat k)) < 256)"

definition vm_ok :: "kernel \<Rightarrow> bool" where
  "vm_ok s \<longleftrightarrow> tables_ok s \<and> counts_ok s \<and> cow_ok s \<and> slots_ok s \<and> low_ok s"

lemma table_aligned [simp]: "unat (table_of e) mod 4096 = 0"
  by (simp add: unat_page)

lemma frame_table [simp]: "frame (table_of e) = frame e"
  by (simp add: frame_def unat_page [unfolded frame_def])

lemma unat_dir_addr: "i < 1024 \<Longrightarrow> unat (4 * of_nat i :: u32) = 4 * i"
  by (simp add: unat_word_ariths unat_of_nat)

lemma frame_dir_addr: "i < 1024 \<Longrightarrow> frame (4 * of_nat i) = 0"
  by (simp add: frame_def unat_dir_addr)

lemma dir_addr_inj: "i < 1024 \<Longrightarrow> j < 1024 \<Longrightarrow> (4 * of_nat i :: u32) = 4 * of_nat j \<longleftrightarrow> i = j"
  by (metis unat_dir_addr mult_cancel1 zero_neq_numeral)

lemma frame_ent: "k < 1024 \<Longrightarrow> frame (loc_addr s (Ent i k)) = frame (entry s (Dir i))"
  by (simp add: word_in_page entry_def loc_addr.simps)

declare loc_addr.simps [simp del]

lemma Dir_in_locs [simp]: "Dir i \<in> locs s \<longleftrightarrow> i \<in> udirs"
  by (auto simp: locs_def)

lemma Ent_in_locs: "Ent i k \<in> locs s \<longleftrightarrow> i \<in> udirs \<and> k < 1024 \<and> present (entry s (Dir i))"
  by (auto simp: locs_def)

lemma finite_locs [simp]: "finite (locs s)"
proof -
  have "locs s \<subseteq> Dir ` {..<1024} \<union> (\<lambda>(i, k). Ent i k) ` ({..<1024} \<times> {..<1024})"
    by (auto simp: locs_def udirs_def)
  then show ?thesis by (rule finite_subset) simp
qed

lemma finite_refs [simp]: "finite (refs s f)"
  unfolding refs_def by simp

lemma Dir_in_refs:
  "i \<in> udirs \<Longrightarrow> present (entry s (Dir i)) \<Longrightarrow> frame (entry s (Dir i)) = f \<Longrightarrow> Dir i \<in> refs s f"
  by (auto simp: refs_def locs_def)

definition shape_ok :: "kernel \<Rightarrow> bool" where
  "shape_ok s \<longleftrightarrow> (\<forall>i \<in> udirs. present (entry s (Dir i)) \<longrightarrow>
     managed (frame (entry s (Dir i))) \<and> refs s (frame (entry s (Dir i))) = {Dir i})"

lemma vm_shape: "vm_ok s \<Longrightarrow> shape_ok s"
  unfolding shape_ok_def vm_ok_def tables_ok_def cow_ok_def
  using Dir_in_refs by blast

lemma table_refs:
  assumes "shape_ok s" "i \<in> udirs" "present (entry s (Dir i))"
  shows "managed (frame (entry s (Dir i)))" "refs s (frame (entry s (Dir i))) = {Dir i}"
  using assms by (auto simp: shape_ok_def)

lemma loc_addr_inj:
  assumes "shape_ok s" "l \<in> locs s" "m \<in> locs s" "loc_addr s l = loc_addr s m"
  shows "l = m"
proof -
  have frame_D: "frame (loc_addr s (Dir i)) = 0" if "Dir i \<in> locs s" for i
    using that by (simp add: udirs_def frame_dir_addr loc_addr.simps)
  have ent: "i \<in> udirs" "k < 1024" "present (entry s (Dir i))" if "Ent i k \<in> locs s" for i k
    using that by (auto simp: locs_def)
  have ne: "loc_addr s (Ent i k) \<noteq> loc_addr s (Dir j)" if "Ent i k \<in> locs s" "Dir j \<in> locs s" for i k j
    using frame_D [OF that(2)] ent [OF that(1)] table_refs(1) [OF assms(1)] frame_ent managed_def
    by (metis bot_nat_0.not_eq_extremum less_numeral_extra(3) not_numeral_le_zero)
  show ?thesis
  proof (cases l)
    case (Dir i)
    note l = Dir
    show ?thesis
    proof (cases m)
      case (Dir j)
      then show ?thesis using assms l by (auto simp: udirs_def dir_addr_inj loc_addr.simps)
    next
      case (Ent j n)
      then show ?thesis using assms ne l by metis
    qed
  next
    case (Ent i k)
    note l = Ent
    show ?thesis
    proof (cases m)
      case (Dir j)
      then show ?thesis using assms ne l by metis
    next
      case (Ent j n)
      have "frame (entry s (Dir i)) = frame (entry s (Dir j))"
        using frame_ent ent assms l Ent by metis
      then have "i = j"
        using table_refs(2) [OF assms(1)] ent assms(2,3) l Ent by (metis loc.inject(1) singleton_inject)
      then show ?thesis
        using assms(2-4) l Ent ent word_in_page_inj [OF table_aligned] by (auto simp: loc_addr.simps)
    qed
  qed
qed

subsection \<open>One write\<close>

lemma refs_sub: "refs s f \<subseteq> locs s"
  by (auto simp: refs_def)

lemma entry_set_word:
  assumes "shape_ok s" "l \<in> locs s" "Ent i k \<in> locs s"
  shows "entry (set_word (loc_addr s (Ent i k)) v s) l = (if l = Ent i k then v else entry s l)"
proof -
  have d: "phys (set_word (loc_addr s (Ent i k)) v s) (4 * of_nat j) = phys s (4 * of_nat j)"
    if "j \<in> udirs" for j
  proof -
    have "4 * of_nat j \<noteq> loc_addr s (Ent i k)"
      using loc_addr_inj [OF assms(1) _ assms(3), of "Dir j"] that by (auto simp: loc_addr.simps)
    then show ?thesis by (simp add: set_word_def)
  qed
  have "loc_addr (set_word (loc_addr s (Ent i k)) v s) l = loc_addr s l"
    using d assms(2) by (cases l) (auto simp: Ent_in_locs loc_addr.simps)
  then show ?thesis
    using loc_addr_inj [OF assms]
    by (auto simp: entry_def set_word_def)
qed

lemma locs_set_word:
  assumes "shape_ok s" "Ent i k \<in> locs s"
  shows "locs (set_word (loc_addr s (Ent i k)) v s) = locs s"
proof -
  have "entry (set_word (loc_addr s (Ent i k)) v s) (Dir j) = entry s (Dir j)" if "j \<in> udirs" for j
    using that by (subst entry_set_word [OF assms(1) _ assms(2)]) auto
  then show ?thesis unfolding locs_def by auto
qed

lemma refs_set_word:
  assumes "shape_ok s" "Ent i k \<in> locs s"
  shows "refs (set_word (loc_addr s (Ent i k)) v s) f =
    (if present v \<and> frame v = f then insert (Ent i k) (refs s f) else refs s f - {Ent i k})"
  using assms(2) unfolding refs_def locs_set_word [OF assms]
  by (auto simp: entry_set_word [OF assms(1) _ assms(2)] split: if_splits)

lemma shape_set_word:
  assumes "shape_ok s" "Ent i k \<in> locs s"
    and "present v \<Longrightarrow> \<forall>j. Dir j \<notin> refs s (frame v)"
  shows "shape_ok (set_word (loc_addr s (Ent i k)) v s)"
  unfolding shape_ok_def
proof (intro ballI impI)
  let ?s = "set_word (loc_addr s (Ent i k)) v s"
  fix j assume j: "j \<in> udirs" "present (entry ?s (Dir j))"
  have e: "entry ?s (Dir j) = entry s (Dir j)"
    using j by (subst entry_set_word [OF assms(1) _ assms(2)]) auto
  then have r: "refs s (frame (entry s (Dir j))) = {Dir j}" "managed (frame (entry s (Dir j)))"
    using table_refs [OF assms(1)] j by auto
  then show "managed (frame (entry ?s (Dir j))) \<and> refs ?s (frame (entry ?s (Dir j))) = {Dir j}"
    using assms(3) unfolding e refs_set_word [OF assms(1,2)] by auto
qed


lemma refs_cong:
  assumes "phys s' = phys s"
  shows "entry s' = entry s" "locs s' = locs s" "refs s' = refs s"
proof -
  have "loc_addr s' l = loc_addr s l" for l
    using assms by (cases l) (simp_all add: loc_addr.simps)
  then show e: "entry s' = entry s" using assms by (simp add: entry_def fun_eq_iff)
  show l: "locs s' = locs s" unfolding locs_def e ..
  show "refs s' = refs s" unfolding refs_def e l ..
qed

lemma set_fields [simp]:
  "phys (set_map i v s) = phys s" "mem_map (set_word a w s) = mem_map s"
  "HIGH_MEMORY (set_map i v s) = HIGH_MEMORY s" "HIGH_MEMORY (set_word a w s) = HIGH_MEMORY s"
  "mem_map (zero_page p s) = mem_map s" "mem_map (copied_page p q s) = mem_map s"
  by (simp_all add: set_map_def set_word_def zero_page_def copied_page_def)

lemma phys_set_word: "phys (set_word a w s) b = (if b = a then w else phys s b)"
  by (simp add: set_word_def)

lemma refs_set_map [simp]:
  "entry (set_map i v s) = entry s" "locs (set_map i v s) = locs s" "refs (set_map i v s) = refs s"
  by (rule refs_cong, simp)+

lemma shape_set_map [simp]: "shape_ok (set_map i v s) = shape_ok s"
  by (simp add: shape_ok_def)

lemma refs_off_page:
  assumes "shape_ok s" "unat p mod 4096 = 0" "managed (frame p)" "\<And>i. Dir i \<notin> refs s (frame p)"
    and off: "\<And>a. a \<notin> page_words p \<Longrightarrow> phys s' a = phys s a"
  shows "locs s' = locs s" "l \<in> locs s \<Longrightarrow> entry s' l = entry s l" "refs s' = refs s"
proof -
  have no: "loc_addr s l \<notin> page_words p" if "l \<in> locs s" for l
  proof (cases l)
    case (Dir i)
    then have "frame (loc_addr s l) = 0" using that by (simp add: loc_addr.simps udirs_def frame_dir_addr)
    then show ?thesis using page_words_frame [OF assms(2)] assms(3) by (auto simp: managed_def)
  next
    case (Ent i k)
    then have "frame (loc_addr s l) \<noteq> frame p"
      using that table_refs [OF assms(1)] assms(4) by (metis Ent_in_locs frame_ent insertI1)
    then show ?thesis using page_words_frame [OF assms(2)] by auto
  qed
  have d: "phys s' (4 * of_nat i) = phys s (4 * of_nat i)" if "i \<in> udirs" for i
    using off [OF no [of "Dir i"]] that by (simp add: loc_addr.simps)
  have e: "entry s' l = entry s l" if "l \<in> locs s" for l
  proof -
    have "loc_addr s' l = loc_addr s l"
      using that d by (cases l) (auto simp: loc_addr.simps Ent_in_locs)
    then show ?thesis using off [OF no [OF that]] by (simp add: entry_def)
  qed
  then show "l \<in> locs s \<Longrightarrow> entry s' l = entry s l" .
  show l: "locs s' = locs s"
    unfolding locs_def using e by auto
  show "refs s' = refs s"
    unfolding refs_def l using e by (auto simp: fun_eq_iff)
qed

lemma present_bit: "present e \<longleftrightarrow> bit e 0"
  using and_exp_eq_0_iff_not_bit [of e 0] by simp

lemma writable_bit: "writable e \<longleftrightarrow> bit e 1"
  using and_exp_eq_0_iff_not_bit [of e 1] by simp

lemma seven_mask: "(7 :: u32) = mask 3"
  by (simp add: mask_eq_exp_minus_1)

lemma two_bit: "bit (2 :: u32) n \<longleftrightarrow> n = 1"
  using bit_exp_iff [of 1 n, where 'a = u32] by auto

lemma frame_drop: "frame e = unat (drop_bit 12 e)"
  by (simp add: frame_def drop_bit_eq_div unat_div)

lemma entry_flags [simp]:
  "frame (p OR 7) = frame p" "present (p OR 7)" "writable (p OR 7)"
  "frame (e AND NOT 2) = frame e" "present (e AND NOT 2) \<longleftrightarrow> present e" "\<not> writable (e AND NOT 2)"
  "frame (e OR 2) = frame e" "present (e OR 2) \<longleftrightarrow> present e" "writable (e OR 2)"
proof -
  have "drop_bit 12 (p OR 7) = drop_bit 12 p" "drop_bit 12 (e AND NOT 2) = drop_bit 12 e"
    "drop_bit 12 (e OR 2) = drop_bit 12 e"
    by (rule bit_word_eqI;
        simp only: bit_drop_bit_eq o_def bit_and_iff bit_or_iff bit_not_iff_eq seven_mask
          bit_mask_iff two_bit; auto dest: bit_imp_le_length)+
  then show "frame (p OR 7) = frame p" "frame (e AND NOT 2) = frame e" "frame (e OR 2) = frame e"
    by (simp_all add: frame_drop)
  show "present (p OR 7)" "writable (p OR 7)"
    "present (e AND NOT 2) \<longleftrightarrow> present e" "\<not> writable (e AND NOT 2)"
    "present (e OR 2) \<longleftrightarrow> present e" "writable (e OR 2)"
    unfolding present_bit writable_bit by (auto simp: bit_simps seven_mask two_bit)
qed

lemma NOT_2: "NOT 2 = (- 3 :: u32)"
  by simp

lemmas entry_flags_neg [simp] = entry_flags(4-6) [unfolded NOT_2]

lemma entry_absent [simp]:
  "(e AND - 3) AND 1 = 0 \<longleftrightarrow> e AND 1 = (0 :: u32)" "(e OR 2) AND 1 = 0 \<longleftrightarrow> e AND 1 = (0 :: u32)"
  "(e AND - 3) AND 2 = (0 :: u32)"
  using entry_flags_neg(2,3) [of e] entry_flags(8) [of e] by blast+

lemma table_or_7: "unat p mod 4096 = 0 \<Longrightarrow> table_of (p OR 7) = p"
  by (rule aligned_frame_eq) simp_all

text \<open>Hanging a fresh, zeroed page in the directory, and taking an emptied table out.\<close>

lemma dir_word:
  assumes "shape_ok s" "i \<in> udirs" "l \<in> locs s" "l \<noteq> Dir i" "\<And>k. l \<noteq> Ent i k"
  shows "entry (set_word (loc_addr s (Dir i)) v s) l = entry s l"
proof -
  have ne: "loc_addr s m \<noteq> loc_addr s (Dir i)" if "m \<in> locs s" "m \<noteq> Dir i" for m
    using loc_addr_inj [OF assms(1) that(1), of "Dir i"] that assms(2) by auto
  have "phys (set_word (loc_addr s (Dir i)) v s) (4 * of_nat j) = phys s (4 * of_nat j)"
    if "j \<noteq> i" "j \<in> udirs" for j
    using ne [of "Dir j"] that by (simp add: set_word_def loc_addr.simps)
  note eq = this
  have "loc_addr (set_word (loc_addr s (Dir i)) v s) l = loc_addr s l"
  proof (cases l)
    case (Ent j k)
    then have "j \<noteq> i" "j \<in> udirs" using assms by (auto simp: Ent_in_locs)
    from eq [OF this] show ?thesis by (simp only: Ent loc_addr.simps(2))
  qed (simp add: loc_addr.simps)
  then show ?thesis using ne [OF assms(3,4)] by (simp add: entry_def set_word_def)
qed

lemma entry_dir_word: "entry (set_word (loc_addr s (Dir i)) v s) (Dir i) = v"
  by (simp add: entry_def set_word_def loc_addr.simps)

lemma new_table:
  assumes s: "shape_ok s" "i \<in> udirs" "\<not> present (entry s (Dir i))"
    and p: "unat p mod 4096 = 0" "managed (frame p)" "refs s (frame p) = {}"
    and z: "\<And>a. a \<in> page_words p \<Longrightarrow> phys s a = 0"
  defines "s' \<equiv> set_word (loc_addr s (Dir i)) (p OR 7) s"
  shows "locs s' = locs s \<union> Ent i ` {..<1024}"
    "l \<in> locs s \<Longrightarrow> l \<noteq> Dir i \<Longrightarrow> entry s' l = entry s l"
    "k < 1024 \<Longrightarrow> loc_addr s' (Ent i k) = p + 4 * of_nat k"
    "k < 1024 \<Longrightarrow> entry s' (Ent i k) = 0"
    "refs s' f = (if f = frame p then {Dir i} else refs s f)"
    "shape_ok s'"
proof -
  have e: "entry s' l = entry s l" if "l \<in> locs s" "l \<noteq> Dir i" for l
    unfolding s'_def using s that by (intro dir_word) (auto simp: Ent_in_locs)
  then show "l \<in> locs s \<Longrightarrow> l \<noteq> Dir i \<Longrightarrow> entry s' l = entry s l" .
  have d: "entry s' (Dir i) = p OR 7" by (simp add: s'_def entry_dir_word)
  show l: "locs s' = locs s \<union> Ent i ` {..<1024}"
  proof (rule set_eqI)
    fix l show "l \<in> locs s' \<longleftrightarrow> l \<in> locs s \<union> Ent i ` {..<1024}"
    proof (cases l)
      case (Ent j k)
      then show ?thesis using e [of "Dir j"] d s(2,3) by (cases "j = i") (auto simp: Ent_in_locs)
    qed auto
  qed
  show a: "loc_addr s' (Ent i k) = p + 4 * of_nat k" for k
    using d p(1) by (simp add: loc_addr.simps entry_def table_or_7)
  show z': "entry s' (Ent i k) = 0" if "k < 1024" for k
  proof -
    have "p + 4 * of_nat k \<in> page_words p" using that by auto
    moreover from this have "loc_addr s (Dir i) \<noteq> p + 4 * of_nat k"
      using page_words_frame [OF p(1)] p(2) s(2) frame_dir_addr [of i]
      by (auto simp: managed_def udirs_def loc_addr.simps)
    ultimately show ?thesis using z by (simp add: entry_def a) (simp add: s'_def set_word_def)
  qed
  have rf: "refs s' f = (if f = frame p then {Dir i} else refs s f)" for f
  proof (rule set_eqI)
    fix l
    consider "l = Dir i" | k where "l = Ent i k" "k < 1024" | "l \<in> locs s" "l \<noteq> Dir i"
      | "l \<notin> locs s'" "l \<notin> locs s" using l by auto
    then show "l \<in> refs s' f \<longleftrightarrow> l \<in> (if f = frame p then {Dir i} else refs s f)"
    proof cases
      case 1
      then show ?thesis using d s(2,3) by (auto simp: refs_def)
    next
      case 2
      then have "l \<notin> locs s" using s by (auto simp: Ent_in_locs)
      then show ?thesis using 2 z' by (auto simp: refs_def)
    next
      case 3
      then show ?thesis using e [of l] p(3) l by (auto simp: refs_def)
    next
      case 4
      then show ?thesis using s(2) by (auto simp: refs_def)
    qed
  qed
  then show "refs s' f = (if f = frame p then {Dir i} else refs s f)" .
  show "shape_ok s'"
    unfolding shape_ok_def
  proof (intro ballI impI)
    fix j assume j: "j \<in> udirs" "present (entry s' (Dir j))"
    show "managed (frame (entry s' (Dir j))) \<and> refs s' (frame (entry s' (Dir j))) = {Dir j}"
    proof (cases "j = i")
      case True
      then show ?thesis using d p(2) rf by simp
    next
      case False
      then have "entry s' (Dir j) = entry s (Dir j)" using j e by simp
      then have "refs s (frame (entry s (Dir j))) = {Dir j}" "managed (frame (entry s (Dir j)))"
        using j table_refs [OF s(1)] by auto
      then show ?thesis using \<open>entry s' (Dir j) = _\<close> p(3) by (auto simp: rf)
    qed
  qed
qed


lemma set_map_word: "set_map n v (set_word a w s) = set_word a w (set_map n v s)"
  by (simp add: set_map_def set_word_def)

lemma low_ok_off:
  assumes "low_ok s" "phys s' 0 = phys s 0"
    and "\<And>a. 0 < frame a \<Longrightarrow> frame a < 256 \<Longrightarrow> phys s' a = phys s a"
  shows "low_ok s'"
proof -
  have "phys s' (table_of (phys s 0) + 4 * of_nat k) = phys s (table_of (phys s 0) + 4 * of_nat k)"
    if "k < 160" for k
    using assms(1) that by (intro assms(3)) (simp_all add: word_in_page low_ok_def)
  then show ?thesis using assms(1) by (simp add: low_ok_def assms(2))
qed

lemma frame_zero [simp]: "frame 0 = 0"
  by (simp add: frame_def)

lemma ent_frame_managed:
  "shape_ok s \<Longrightarrow> Ent i k \<in> locs s \<Longrightarrow> managed (frame (loc_addr s (Ent i k)))"
  using table_refs(1) by (auto simp: Ent_in_locs frame_ent)

lemma same_slot_sym: "same_slot l m \<Longrightarrow> same_slot m l"
  by (cases l; cases m) auto

text \<open>
  Writing one page-table entry keeps the invariant when the counters follow the references,
  and the new entry is alone on its page or read-only among read-only entries of the same slot.
\<close>

lemma vm_write:
  assumes s: "vm_ok s" "Ent i k \<in> locs s"
    and s': "phys s' = phys (set_word (loc_addr s (Ent i k)) v s)"
    and counts: "\<And>f. managed f \<Longrightarrow> card (refs s' f) \<le> page_count s' f \<and> page_count s' f \<le> card (refs s' f) + 100"
    and alone: "present v \<Longrightarrow> managed (frame v) \<Longrightarrow> refs s (frame v) - {Ent i k} \<noteq> {} \<Longrightarrow>
      \<not> writable v \<and> (\<forall>m \<in> refs s (frame v) - {Ent i k}. \<not> writable (entry s m) \<and> same_slot (Ent i k) m)"
  shows "vm_ok s'"
proof -
  let ?w = "set_word (loc_addr s (Ent i k)) v s"
  have sh: "shape_ok s" using s by (simp add: vm_shape)
  note eqs = refs_cong [OF s']
  note rf = refs_set_word [OF sh s(2), of v]
  have en: "entry s' l = (if l = Ent i k then v else entry s l)" if "l \<in> locs s" for l
    unfolding eqs using that by (simp add: entry_set_word [OF sh _ s(2)])
  have r: "refs s' f = (if present v \<and> frame v = f then insert (Ent i k) (refs s f) else refs s f - {Ent i k})" for f
    by (simp add: eqs rf)
  have tab: "tables_ok s'"
    using s(1) en unfolding vm_ok_def tables_ok_def by simp
  have cow: "cow_ok s'"
    unfolding cow_ok_def
  proof (intro allI impI)
    fix f l assume f: "managed f" and l: "l \<in> refs s' f" and w: "writable (entry s' l)"
    have ls: "l \<in> locs s" using l refs_sub [of s f] s(2) by (auto simp: r split: if_splits)
    show "refs s' f = {l}"
    proof (cases "present v \<and> frame v = f")
      case True
      show ?thesis
      proof (cases "refs s f - {Ent i k} = {}")
        case True
        then show ?thesis using l \<open>present v \<and> _\<close> by (auto simp: r)
      next
        case False
        then show ?thesis using alone True f l w ls by (auto simp: r en split: if_splits)
      qed
    next
      case False
      then have rn: "refs s' f = refs s f - {Ent i k}" by (simp only: r if_not_P [OF False] if_False)
      then have "l \<in> refs s f" "l \<noteq> Ent i k" using l by simp_all
      then have "refs s f = {l}" using s(1) f w ls en unfolding vm_ok_def cow_ok_def by simp
      then show ?thesis using \<open>l \<noteq> Ent i k\<close> by (simp add: rn)
    qed
  qed
  have slots: "slots_ok s'"
    unfolding slots_ok_def
  proof (intro allI impI)
    fix f l m assume *: "managed f" "l \<in> refs s' f" "m \<in> refs s' f"
    have old: "same_slot l m" if "l \<in> refs s f" "m \<in> refs s f" for l m
      using that s(1) * unfolding vm_ok_def slots_ok_def by blast
    have new: "same_slot (Ent i k) m" if "m \<in> refs s f" "present v" "frame v = f" for m
      using alone * that by (cases "m = Ent i k") auto
    have "l \<in> refs s f \<or> l = Ent i k \<and> present v \<and> frame v = f"
      "m \<in> refs s f \<or> m = Ent i k \<and> present v \<and> frame v = f"
      using * by (auto simp: r split: if_splits)
    then show "same_slot l m"
    proof (elim disjE conjE)
      assume "l \<in> refs s f" "m \<in> refs s f"
      then show ?thesis by (rule old)
    next
      assume l: "l \<in> refs s f" "present v" "frame v = f" and m: "m = Ent i k"
      have "same_slot m l" unfolding m using l by (rule new)
      then show ?thesis by (rule same_slot_sym)
    next
      assume m: "m \<in> refs s f" "present v" "frame v = f" and l: "l = Ent i k"
      show ?thesis unfolding l using m by (rule new)
    qed simp
  qed
  have low: "low_ok s'"
  proof (rule low_ok_off)
    show "low_ok s" using s(1) by (simp add: vm_ok_def)
    have ne: "a \<noteq> loc_addr s (Ent i k)" if "frame a < 256" for a
      using ent_frame_managed [OF sh s(2)] that by (auto simp: managed_def)
    then show "phys s' a = phys s a" if "frame a < 256" for a
      using that by (simp add: s' set_word_def)
    then show "phys s' 0 = phys s 0" by simp
  qed
  show ?thesis
    using tab cow slots low counts by (simp add: vm_ok_def counts_ok_def)
qed

lemma refs_bound:
  assumes "vm_ok s" "managed f" "Ent i k \<in> refs s f"
  shows "card (refs s f) \<le> 64"
proof -
  have sub: "refs s f \<subseteq> (\<lambda>g. Ent (16 * g + i mod 16) k) ` {..<64}"
  proof
    fix m assume m: "m \<in> refs s f"
    have "same_slot (Ent i k) m" using assms m unfolding vm_ok_def slots_ok_def by blast
    moreover have "\<not> (\<exists>j. m = Dir j)"
    proof
      assume "\<exists>j. m = Dir j"
      then obtain j where j: "m = Dir j" ..
      then have "writable (entry s m)" using m assms(1) by (auto simp: refs_def vm_ok_def tables_ok_def)
      then have "refs s f = {m}" using m assms unfolding vm_ok_def cow_ok_def by blast
      then show False using assms(3) j by simp
    qed
    ultimately obtain j where j: "m = Ent j k" "j mod 16 = i mod 16" by (cases m) auto
    then have "Ent j k \<in> locs s" using m refs_sub by blast
    then have "j div 16 < 64" by (intro less_mult_imp_div_less) (simp add: Ent_in_locs udirs_def)
    moreover have "j = 16 * (j div 16) + i mod 16" unfolding j(2) [symmetric] by simp
    ultimately show "m \<in> (\<lambda>g. Ent (16 * g + i mod 16) k) ` {..<64}"
      unfolding j(1) by (intro image_eqI [where x = "j div 16"]) simp_all
  qed
  have "card (refs s f) \<le> card ((\<lambda>g. Ent (16 * g + i mod 16) k) ` {..<64})"
    by (rule card_mono [OF _ sub]) simp
  also have "\<dots> \<le> 64" using card_image_le [of "{..<64}" "\<lambda>g. Ent (16 * g + i mod 16) k"] by simp
  finally show ?thesis .
qed

lemma cowD: "vm_ok s \<Longrightarrow> managed f \<Longrightarrow> l \<in> refs s f \<Longrightarrow> writable (entry s l) \<Longrightarrow> refs s f = {l}"
  by (simp add: vm_ok_def cow_ok_def)

lemma vm_alone:
  assumes "vm_ok s" "managed f" "l \<in> refs s f" "m \<in> refs s f" "l \<noteq> m"
  shows "\<not> writable (entry s l)"
proof
  assume "writable (entry s l)"
  then have "refs s f = {l}" using cowD [OF assms(1-3)] by simp
  then show False using assms(4,5) by simp
qed

definition page_addr :: "nat \<Rightarrow> u32" where
  "page_addr i = push_bit 12 (of_nat i) + LOW_MEM"

lemma unat_page_addr: "i < PAGING_PAGES \<Longrightarrow> unat (page_addr i) = 4096 * (i + 256)"
  by (simp add: page_addr_def push_bit_eq_mult unat_word_ariths unat_of_nat kconst)

lemma page_addr_props:
  assumes "i < PAGING_PAGES"
  shows "unat (page_addr i) mod 4096 = 0" "frame (page_addr i) = i + 256" "managed (i + 256)"
    "page_addr i \<noteq> 0"
proof -
  show "unat (page_addr i) mod 4096 = 0" "frame (page_addr i) = i + 256"
    by (simp_all add: frame_def unat_page_addr [OF assms])
  show "managed (i + 256)" using assms by (simp add: managed_def kconst)
  show "page_addr i \<noteq> 0" using unat_page_addr [OF assms] by auto
qed

text \<open>The state after \<open>get_free_page\<close> took page \<open>i\<close>.\<close>

definition taken :: "nat \<Rightarrow> kernel \<Rightarrow> kernel" where
  "taken i s = zero_page (page_addr i) (set_map i 1 s)"

definition free_pages :: "kernel \<Rightarrow> nat set" where
  "free_pages s = {i. i < PAGING_PAGES \<and> mem_map s i = 0}"

lemma get_free_page_run:
  "get_free_page s es = (case last_below (\<lambda>i. mem_map s i = 0) PAGING_PAGES of
     None \<Rightarrow> Ret 0 s es | Some i \<Rightarrow> Ret (page_addr i) (taken i s) es)"
  by (simp add: get_free_page_def krun page_addr_def taken_def Let_def zero_page_fold
      del: upt_Suc split: option.split)

lemma get_free_page_max:
  "get_free_page s es =
    (if free_pages s = {} then Ret 0 s es
     else Ret (page_addr (Max (free_pages s))) (taken (Max (free_pages s)) s) es)"
proof (cases "last_below (\<lambda>i. mem_map s i = 0) PAGING_PAGES")
  case None
  then have "free_pages s = {}" by (auto simp: free_pages_def last_below_None)
  then show ?thesis by (simp add: get_free_page_run None)
next
  case (Some i)
  note i = last_below_Some [OF Some]
  then have "i \<in> free_pages s" by (simp add: free_pages_def)
  moreover have "Max (free_pages s) = i"
  proof (rule Max_eqI)
    show "finite (free_pages s)" by (simp add: free_pages_def)
    show "i \<in> free_pages s" by fact
    fix j assume "j \<in> free_pages s"
    then show "j \<le> i" using i by (auto simp: free_pages_def intro: leI)
  qed
  ultimately show ?thesis by (auto simp: get_free_page_run Some)
qed

lemma wpg_get_free_page [wpr]:
  assumes "free_pages s = {} \<Longrightarrow> Q 0 s"
    and "\<And>i. i < PAGING_PAGES \<Longrightarrow> mem_map s i = 0 \<Longrightarrow> Q (page_addr i) (taken i s)"
  shows "wpg F E get_free_page Q s"
  unfolding wpg_def
proof (intro allI impI)
  fix es :: "(kernel \<Rightarrow> kernel) list" assume es: "set es \<subseteq> E"
  show "case get_free_page s es of Ret a s' es' \<Rightarrow> Q a s' \<and> set es' \<subseteq> E | Stop r s' \<Rightarrow> F r"
  proof (cases "last_below (\<lambda>i. mem_map s i = 0) PAGING_PAGES")
    case None
    then have "free_pages s = {}" by (auto simp: free_pages_def last_below_None)
    then show ?thesis using assms(1) es by (simp add: get_free_page_run None)
  next
    case (Some i)
    then show ?thesis
      using assms(2) last_below_Some [OF Some] es by (simp add: get_free_page_run Some)
  qed
qed

lemma page_count_set_map:
  "managed f \<Longrightarrow> page_count (set_map i v s) f = (if f = i + 256 then unat v else page_count s f)"
  by (auto simp: page_count_def set_map_def managed_def)

lemma page_count_cong: "mem_map s' = mem_map s \<Longrightarrow> page_count s' f = page_count s f"
  by (simp add: page_count_def)

lemma page_count_same [simp]:
  "page_count (set_word a w s) f = page_count s f" "page_count (zero_page p s) f = page_count s f"
  "page_count (copied_page p q s) f = page_count s f"
  by (rule page_count_cong, simp)+

lemma vm_counts: "vm_ok s \<Longrightarrow> managed f \<Longrightarrow> card (refs s f) \<le> page_count s f \<and> page_count s f \<le> card (refs s f) + 100"
  by (simp add: vm_ok_def counts_ok_def)

lemma vm_free_refs: "vm_ok s \<Longrightarrow> managed f \<Longrightarrow> page_count s f = 0 \<Longrightarrow> refs s f = {}"
  using vm_counts [of s f] by simp

lemma vm_off_page:
  assumes s: "vm_ok s" and p: "unat p mod 4096 = 0" "managed (frame p)" "\<And>i. Dir i \<notin> refs s (frame p)"
    and off: "\<And>a. a \<notin> page_words p \<Longrightarrow> phys s' a = phys s a"
    and counts: "\<And>f. managed f \<Longrightarrow> card (refs s f) \<le> page_count s' f \<and> page_count s' f \<le> card (refs s f) + 100"
  shows "vm_ok s'"
proof -
  note eqs = refs_off_page [OF vm_shape [OF s] p off]
  have tab: "tables_ok s'"
    using s by (simp add: vm_ok_def tables_ok_def eqs(2))
  have cow: "cow_ok s'"
    using s refs_sub eqs(2) by (auto simp: vm_ok_def cow_ok_def eqs(3) subset_iff)
  have slots: "slots_ok s'" using s by (simp add: vm_ok_def slots_ok_def eqs(3))
  have "low_ok s'"
  proof (rule low_ok_off)
    show "low_ok s" using s by (simp add: vm_ok_def)
    have "a \<notin> page_words p" if "frame a < 256" for a
      using page_words_frame [OF p(1)] p(2) that by (auto simp: managed_def)
    then show "phys s' a = phys s a" if "frame a < 256" for a
      using that by (intro off)
    then show "phys s' 0 = phys s 0" by simp
  qed
  with tab cow slots show ?thesis
    using counts by (simp add: vm_ok_def counts_ok_def eqs(3))
qed

lemma vm_set_map:
  assumes "vm_ok s" "managed f" "card (refs s f) \<le> unat v" "unat v \<le> card (refs s f) + 100"
  shows "vm_ok (set_map (f - 256) v s)"
proof -
  have "f = f - 256 + 256" using assms(2) by (simp add: managed_def)
  then have "counts_ok (set_map (f - 256) v s)"
    using assms unfolding counts_ok_def vm_ok_def by (auto simp: page_count_set_map)
  then show ?thesis
    using assms(1) by (simp add: vm_ok_def tables_ok_def cow_ok_def slots_ok_def low_ok_def)
qed

lemma taken_props:
  assumes "vm_ok s" "i < PAGING_PAGES" "mem_map s i = 0"
  shows "vm_ok (taken i s)" "refs s (i + 256) = {}" "refs (taken i s) = refs s" "locs (taken i s) = locs s"
    "\<And>l. l \<in> locs s \<Longrightarrow> entry (taken i s) l = entry s l"
    "\<And>a. a \<in> page_words (page_addr i) \<Longrightarrow> phys (taken i s) a = 0"
    "\<And>a. a \<notin> page_words (page_addr i) \<Longrightarrow> phys (taken i s) a = phys s a"
    "mem_map (taken i s) = (mem_map s)(i := 1)" "page_count (taken i s) (i + 256) = 1"
proof -
  note p = page_addr_props [OF assms(2)]
  show r: "refs s (i + 256) = {}"
    using assms(1,3) p by (intro vm_free_refs) (simp_all add: page_count_def)
  show z: "\<And>a. a \<in> page_words (page_addr i) \<Longrightarrow> phys (taken i s) a = 0"
    by (simp add: taken_def zero_page_def)
  show o: "\<And>a. a \<notin> page_words (page_addr i) \<Longrightarrow> phys (taken i s) a = phys s a"
    by (simp add: taken_def zero_page_def)
  have fp: "managed (frame (page_addr i))" "Dir j \<notin> refs s (frame (page_addr i))" for j
    using r p by simp_all
  note off = refs_off_page [OF vm_shape [OF assms(1)] p(1) fp o]
  show "refs (taken i s) = refs s" "locs (taken i s) = locs s"
    "\<And>l. l \<in> locs s \<Longrightarrow> entry (taken i s) l = entry s l" by (rule off, assumption?)+
  show m: "mem_map (taken i s) = (mem_map s)(i := 1)"
    by (simp add: taken_def zero_page_def set_map_def)
  show c: "page_count (taken i s) (i + 256) = 1" by (simp add: page_count_def m)
  show "vm_ok (taken i s)"
  proof (rule vm_off_page [OF assms(1) p(1) fp o])
    fix f assume f: "managed f"
    show "card (refs s f) \<le> page_count (taken i s) f \<and> page_count (taken i s) f \<le> card (refs s f) + 100"
    proof (cases "f = i + 256")
      case True
      then show ?thesis using c r by simp
    next
      case False
      then have "page_count (taken i s) f = page_count s f"
        using f by (simp add: taken_def page_count_set_map)
      then show ?thesis using vm_counts [OF assms(1) f] by simp
    qed
  qed
qed

lemma low_mem_frame: "addr < LOW_MEM \<longleftrightarrow> frame addr < 256"
proof -
  have "addr < LOW_MEM \<longleftrightarrow> unat addr < 256 * 4096"
    by (simp add: word_less_nat_alt kconst)
  then show ?thesis by (simp add: frame_def less_mult_imp_div_less div_less_iff_less_mult)
qed

lemma MAP_NR_frame:
  assumes "256 \<le> frame addr"
  shows "MAP_NR addr = frame addr - 256"
proof -
  have "LOW_MEM \<le> addr" using assms low_mem_frame [of addr] by auto
  then have u: "unat (addr - LOW_MEM) = unat addr - 1048576"
    by (simp add: unat_sub kconst)
  have "256 * 4096 \<le> unat addr"
    using \<open>LOW_MEM \<le> addr\<close> by (simp add: word_le_nat_alt kconst)
  then obtain v where v: "unat addr = 256 * 4096 + v" using le_Suc_ex by blast
  have "unat (drop_bit 12 (addr - LOW_MEM)) = v div 4096"
    by (simp add: drop_bit_eq_div unat_div u v)
  also have "\<dots> = frame addr - 256"
    by (simp add: frame_def v)
  finally show ?thesis by (simp add: MAP_NR_def)
qed

lemma wpg_free_page:
  assumes "frame a < 256 \<Longrightarrow> Q () s"
    and "managed (frame a) \<Longrightarrow> page_count s (frame a) \<noteq> 0 \<Longrightarrow>
      Q () (set_map (frame a - 256) (mem_map s (frame a - 256) - 1) s)"
    and "256 \<le> frame a \<Longrightarrow> HIGH_MEMORY s \<le> a \<or> \<not> managed (frame a) \<or> page_count s (frame a) = 0 \<Longrightarrow> \<forall>r. F r"
  shows "wpg F E (free_page a) Q s"
proof -
  have m: "managed (frame a)" if "256 \<le> frame a" "\<not> PAGING_PAGES \<le> MAP_NR a"
    using that MAP_NR_frame [OF that(1)] by (simp add: managed_def kconst)
  have nm: "\<not> managed (frame a)" if "256 \<le> frame a" "PAGING_PAGES \<le> MAP_NR a"
    using that MAP_NR_frame [OF that(1)] by (simp add: managed_def kconst)
  have c: "page_count s (frame a) \<noteq> 0 \<longleftrightarrow> mem_map s (frame a - 256) \<noteq> 0"
    by (simp add: page_count_def unat_eq_0)
  show ?thesis
    unfolding free_page_def low_mem_frame
    using assms m nm c by (auto intro!: wpr simp: MAP_NR_frame not_less)
qed

lemma in_refs: "l \<in> locs s \<Longrightarrow> present (entry s l) \<Longrightarrow> l \<in> refs s (frame (entry s l))"
  by (simp add: refs_def)

lemma page_count_pred:
  assumes "managed f" "managed g" "page_count s f \<noteq> 0"
  shows "page_count (set_map (f - 256) (mem_map s (f - 256) - 1) s) g =
    page_count s g - (if g = f then 1 else 0)"
proof (cases "g = f")
  case True
  have "mem_map s (f - 256) \<noteq> 0" using assms(3) by (auto simp: page_count_def)
  then show ?thesis using True by (simp add: page_count_def set_map_def unat_minus_one)
next
  case False
  then have "g - 256 \<noteq> f - 256" using assms by (simp add: managed_def eq_diff_iff)
  then show ?thesis using False by (simp add: page_count_def set_map_def)
qed

lemma loc_addr_Ent: "loc_addr s (Ent i k) = table_of (entry s (Dir i)) + 4 * of_nat k"
  by (simp add: entry_def loc_addr.simps)

text \<open>
  Every present entry maps a page below the end of memory.  \<open>sure F s\<close>: either every stop is
  allowed, or the tables are such that freeing cannot panic.
\<close>

definition high_ok :: "kernel \<Rightarrow> bool" where
  "high_ok s \<longleftrightarrow> (\<forall>l \<in> locs s. present (entry s l) \<longrightarrow>
     frame (entry s l) < 4096 \<and> table_of (entry s l) < HIGH_MEMORY s)"

definition sure :: "(stop \<Rightarrow> bool) \<Rightarrow> kernel \<Rightarrow> bool" where
  "sure F s \<longleftrightarrow> (\<forall>r. F r) \<or> high_ok s"

lemma sure_any [simp]: "sure any_stop s"
  by (simp add: sure_def)

lemma wpg_free_ref:
  assumes s: "vm_ok s" "l \<in> locs s" "present (entry s l)" "sure F s0" "high_ok s0 \<Longrightarrow> high_ok s"
    and Q: "frame (entry s l) < 256 \<Longrightarrow> Q () s"
      "managed (frame (entry s l)) \<Longrightarrow> page_count s (frame (entry s l)) \<noteq> 0 \<Longrightarrow>
        Q () (set_map (frame (entry s l) - 256) (mem_map s (frame (entry s l) - 256) - 1) s)"
  shows "wpg F E (free_page (table_of (entry s l))) Q s"
proof (rule wpg_free_page; unfold frame_table)
  let ?f = "frame (entry s l)"
  assume *: "256 \<le> ?f" "HIGH_MEMORY s \<le> table_of (entry s l) \<or> \<not> managed ?f \<or> page_count s ?f = 0"
  have "l \<in> refs s ?f" using s by (simp add: refs_def)
  then have "card (refs s ?f) \<noteq> 0" by auto
  then have "page_count s ?f \<noteq> 0" if "managed ?f"
    using vm_counts [OF s(1) that] by linarith
  moreover have "\<not> HIGH_MEMORY s \<le> table_of (entry s l)" "?f < 4096" if "high_ok s"
    using that s(2,3) by (auto simp: high_ok_def)
  ultimately show "\<forall>r. F r" using * s(4,5) by (auto simp: sure_def managed_def)
qed (use Q in auto)

text \<open>What clearing the entry \<open>l\<close> (and uncounting its page) leaves.\<close>

definition cleared :: "loc \<Rightarrow> kernel \<Rightarrow> kernel \<Rightarrow> bool" where
  "cleared l s s' \<longleftrightarrow> vm_ok s' \<and> locs s' = locs s \<and>
     (\<forall>m \<in> locs s. entry s' m = (if m = l then 0 else entry s m)) \<and>
     (\<forall>f. refs s' f = refs s f - {l}) \<and> HIGH_MEMORY s' = HIGH_MEMORY s"

lemma cleared_high: "cleared l s s' \<Longrightarrow> high_ok s \<Longrightarrow> high_ok s'"
  by (simp add: cleared_def high_ok_def)

lemma cleared_set_word:
  assumes s: "vm_ok s" "Ent i k \<in> locs s"
    and s': "phys s' = phys (set_word (loc_addr s (Ent i k)) 0 s)" "HIGH_MEMORY s' = HIGH_MEMORY s"
    and counts: "\<And>f. managed f \<Longrightarrow> page_count s' f =
      page_count s f - (if present (entry s (Ent i k)) \<and> f = frame (entry s (Ent i k)) then 1 else 0)"
  shows "cleared (Ent i k) s s'"
proof -
  have sh: "shape_ok s" using s by (simp add: vm_shape)
  note eqs = refs_cong [OF s'(1)]
  have r: "refs s' f = refs s f - {Ent i k}" for f
    by (simp add: eqs refs_set_word [OF sh s(2)])
  have "vm_ok s'"
  proof (rule vm_write [OF s s'(1)])
    fix f assume f: "managed f"
    show "card (refs s' f) \<le> page_count s' f \<and> page_count s' f \<le> card (refs s' f) + 100"
    proof (cases "Ent i k \<in> refs s f")
      case True
      then have "card (refs s' f) = card (refs s f) - 1" "card (refs s f) \<noteq> 0" by (auto simp: r)
      then show ?thesis
        using True vm_counts [OF s(1) f] counts [OF f] by (auto simp: refs_def)
    next
      case False
      then have "refs s' f = refs s f" by (simp add: r)
      moreover have "page_count s' f = page_count s f"
        using False s(2) counts [OF f] by (auto simp: refs_def)
      ultimately show ?thesis using vm_counts [OF s(1) f] by simp
    qed
  qed simp
  then show ?thesis
    using r s'(2) by (simp add: cleared_def eqs(1,2) entry_set_word [OF sh _ s(2)] locs_set_word [OF sh s(2)])
qed

lemma wpg_free_table_entry:
  assumes s: "vm_ok s" "Ent i k \<in> locs s" and F: "sure F s"
  shows "wpg F E (free_table_entry (loc_addr s (Ent i k))) (\<lambda>_. cleared (Ent i k) s) s"
proof -
  let ?a = "loc_addr s (Ent i k)" and ?e = "entry s (Ent i k)"
  have e: "phys s ?a = ?e" by (simp add: entry_def)
  have 1: "cleared (Ent i k) s (set_word ?a 0 s)" if "\<not> present ?e \<or> frame ?e < 256"
    using that by (intro cleared_set_word [OF s]) (auto simp: managed_def)
  have 2: "cleared (Ent i k) s (set_word ?a 0 (set_map (frame ?e - 256) (mem_map s (frame ?e - 256) - 1) s))"
    if "present ?e" "managed (frame ?e)" "page_count s (frame ?e) \<noteq> 0"
  proof (rule cleared_set_word [OF s])
    fix f assume "managed f"
    then show "page_count (set_word ?a 0 (set_map (frame ?e - 256) (mem_map s (frame ?e - 256) - 1) s)) f =
      page_count s f - (if present ?e \<and> f = frame ?e then 1 else 0)"
      using page_count_pred [OF that(2) _ that(3), of f] that by auto
  qed (simp_all add: set_word_def set_map_def)
  show ?thesis
    unfolding free_table_entry_def
    by (intro wpr; (unfold e)?; (rule wpg_free_ref [OF s _ F]; assumption?)?) (use 1 2 in \<open>auto intro!: wpr\<close>)
qed

lemma cleared_fields: "cleared l s s' \<Longrightarrow> i \<in> udirs \<Longrightarrow> Dir i \<noteq> l \<Longrightarrow> loc_addr s' (Ent i k) = loc_addr s (Ent i k)"
  by (auto simp: cleared_def loc_addr_Ent)

text \<open>Taking an emptied table out of the directory.\<close>

lemma drop_table:
  assumes s: "vm_ok s" "i \<in> udirs" "present (entry s (Dir i))"
    and empty: "\<And>k. k < 1024 \<Longrightarrow> entry s (Ent i k) = 0"
    and s': "phys s' = phys (set_word (loc_addr s (Dir i)) 0 s)"
    and counts: "\<And>f. managed f \<Longrightarrow> page_count s' f = page_count s f - (if f = frame (entry s (Dir i)) then 1 else 0)"
  shows "vm_ok s'" "locs s' = locs s - range (Ent i)"
    "\<And>l. l \<in> locs s' \<Longrightarrow> entry s' l = (if l = Dir i then 0 else entry s l)"
    "\<And>f. refs s' f = refs s f - {Dir i}"
proof -
  have sh: "shape_ok s" using s by (simp add: vm_shape)
  note eqs = refs_cong [OF s']
  have e: "entry s' l = (if l = Dir i then 0 else entry s l)" if "l \<in> locs s" "\<And>k. l \<noteq> Ent i k" for l
    unfolding eqs using that dir_word [OF sh s(2)] entry_dir_word by auto
  show l: "locs s' = locs s - range (Ent i)"
  proof (rule set_eqI)
    fix l show "l \<in> locs s' \<longleftrightarrow> l \<in> locs s - range (Ent i)"
      using e [of "Dir j" for j] by (cases l) (auto simp: Ent_in_locs split: if_splits)
  qed
  show e': "\<And>l. l \<in> locs s' \<Longrightarrow> entry s' l = (if l = Dir i then 0 else entry s l)"
    by (rule e) (auto simp: l)
  show r: "\<And>f. refs s' f = refs s f - {Dir i}"
  proof (rule set_eqI)
    fix f l
    show "l \<in> refs s' f \<longleftrightarrow> l \<in> refs s f - {Dir i}"
    proof (cases "l \<in> range (Ent i)")
      case True
      then show ?thesis using empty by (auto simp: refs_def l Ent_in_locs)
    next
      case False
      then show ?thesis using e' [of l] by (auto simp: refs_def l split: if_splits)
    qed
  qed
  have "card (refs s' f) \<le> page_count s' f \<and> page_count s' f \<le> card (refs s' f) + 100" if "managed f" for f
  proof (cases "f = frame (entry s (Dir i))")
    case True
    then have "refs s f = {Dir i}" using table_refs [OF sh s(2,3)] by simp
    then show ?thesis
      using vm_counts [OF s(1) that] counts [OF that] True by (simp add: r le_diff_conv)
  next
    case False
    then have "Dir i \<notin> refs s f" by (auto simp: refs_def)
    then have "refs s' f = refs s f" by (simp add: r)
    then show ?thesis using vm_counts [OF s(1) that] counts [OF that] False by simp
  qed
  moreover have "entry s' (Dir j) = (if j = i then 0 else entry s (Dir j))" if "j \<in> udirs" for j
    using e [of "Dir j"] that by simp
  then have "tables_ok s'"
    using s(1) by (auto simp: vm_ok_def tables_ok_def split: if_splits)
  moreover have "cow_ok s'"
    unfolding cow_ok_def
  proof (intro allI impI)
    fix f l assume *: "managed f" "l \<in> refs s' f" "writable (entry s' l)"
    then have ll: "l \<in> locs s'" "l \<in> refs s f" "l \<noteq> Dir i"
      using refs_sub [of s' f] by (blast, simp_all add: r)
    then have "writable (entry s l)" using * e' [OF ll(1)] by simp
    then have "refs s f = {l}" by (rule cowD [OF s(1) *(1) ll(2)])
    then show "refs s' f = {l}" using ll(3) r [of f] by auto
  qed
  moreover have "slots_ok s'" using s(1) by (auto simp: vm_ok_def slots_ok_def r)
  moreover have "low_ok s'"
  proof (rule low_ok_off)
    show "low_ok s" using s by (simp add: vm_ok_def)
    have i: "i < 1024" "i \<noteq> 0" using s(2) by (simp_all add: udirs_def)
    then show "phys s' 0 = phys s 0"
      using dir_addr_inj [of 0 i] by (simp add: s' set_word_def loc_addr.simps)
    fix a assume "0 < frame a" "frame a < 256"
    then show "phys s' a = phys s a"
      using frame_dir_addr [OF i(1)] by (auto simp: s' set_word_def loc_addr.simps)
  qed
  ultimately show "vm_ok s'" by (simp add: vm_ok_def counts_ok_def)
qed


lemma wpg_free_dir_entry:
  assumes s: "vm_ok s" "i \<in> udirs" and F: "sure F s"
  shows "wpg F E (free_dir_entry (4 * of_nat i))
    (\<lambda>_ s'. vm_ok s' \<and> \<not> present (entry s' (Dir i)) \<and> (\<forall>j \<in> udirs - {i}. entry s' (Dir j) = entry s (Dir j)) \<and>
       (high_ok s \<longrightarrow> high_ok s')) s"
    (is "wpg _ _ _ ?Q s")
proof (cases "present (entry s (Dir i))")
  case False
  then show ?thesis
    using s unfolding free_dir_entry_def
    by (intro wpr) (auto simp: entry_def loc_addr.simps)
next
  case True
  let ?d = "entry s (Dir i)" and ?a = "4 * of_nat i :: u32"
  define I where "I k s' \<longleftrightarrow> vm_ok s' \<and> locs s' = locs s \<and>
    (\<forall>j \<in> udirs. entry s' (Dir j) = entry s (Dir j)) \<and> (\<forall>m<k. entry s' (Ent i m) = 0) \<and> (high_ok s \<longrightarrow> high_ok s')" for k s'
  have a: "loc_addr s' (Dir i) = ?a" for s' by (simp add: loc_addr.simps)
  have step: "wpg F E (free_table_entry (table_of ?d + 4 * of_nat k)) (\<lambda>_. I (Suc k)) s'"
    if I: "I k s'" and k: "k < 1024" for k s'
  proof -
    have l: "Ent i m \<in> locs s'" if "m < 1024" for m using I s True that by (simp add: I_def Ent_in_locs)
    have "loc_addr s' (Ent i k) = table_of ?d + 4 * of_nat k"
      using I s by (simp add: I_def loc_addr_Ent)
    then have "wpg F E (free_table_entry (table_of ?d + 4 * of_nat k)) (\<lambda>_. cleared (Ent i k) s') s'"
      using wpg_free_table_entry [OF _ l [OF k], of F E] I F by (auto simp: I_def sure_def)
    then show ?thesis
    proof (rule wpg_post)
      fix u s'' assume c: "cleared (Ent i k) s' s''"
      have "entry s'' (Ent i m) = 0" if "m < Suc k" for m
        using c I l [of m] that k by (auto simp: cleared_def I_def less_Suc_eq)
      then show "I (Suc k) s''" using c I cleared_high [OF c] by (simp add: cleared_def I_def)
    qed
  qed
  have fin: "wpg F E (block [bnd (gets (\<lambda>s. phys s ?a)) (\<lambda>e'. free_page (table_of e')),
      modify (set_word ?a 0)]) ?Q s'" if I: "I 1024 s'" for s'
  proof -
    have d: "phys s' ?a = ?d" using I s by (simp add: I_def entry_def loc_addr.simps)
    have dd: "entry s' (Dir i) = ?d" using I s by (simp add: I_def)
    have fd: "managed (frame ?d)" using table_refs [OF vm_shape [OF s(1)] s(2) True] by simp
    let ?t = "set_word ?a 0 (set_map (frame ?d - 256) (mem_map s' (frame ?d - 256) - 1) s')"
    have post: "?Q () ?t" if c: "page_count s' (frame ?d) \<noteq> 0"
    proof -
      have "vm_ok s'" using I by (simp add: I_def)
      note drop = drop_table [OF this s(2), unfolded a dd, of ?t]
      have p: "phys ?t = phys (set_word ?a 0 s')" by (simp add: set_word_def)
      have c': "managed f \<Longrightarrow> page_count ?t f = page_count s' f - (if f = frame ?d then 1 else 0)" for f
        using page_count_pred [OF fd _ c, of f] by simp
      have z: "k < 1024 \<Longrightarrow> entry s' (Ent i k) = 0" for k using I by (simp add: I_def)
      note drop = drop [OF True z p c']
      have "entry ?t (Dir j) = (if Dir j = Dir i then 0 else entry s' (Dir j))" if "j \<in> udirs" for j
        using that by (intro drop(3)) (auto simp: drop(2))
      moreover have "high_ok ?t" if "high_ok s'"
        using that drop(2,3) by (auto simp: high_ok_def)
      ultimately show ?thesis using drop(1) I s by (simp add: I_def)
    qed
    show ?thesis
      by (intro wpr; unfold d; rule wpg_free_ref [where s = s' and l = "Dir i" and F = F and ?s0.0 = s, unfolded dd])
        (use post fd s True F I in \<open>auto intro!: wpr simp: managed_def I_def\<close>)
  qed
  have loop: "wpg F E (for_each [0..<1024] (\<lambda>nr. free_table_entry (table_of ?d + 4 * of_nat nr)))
    (\<lambda>_. I 1024) s"
    by (rule wpg_for_upt [where I = I]) (use step s in \<open>auto simp: I_def\<close>)
  have d: "phys s ?a = ?d" by (simp add: entry_def loc_addr.simps)
  show ?thesis
    unfolding free_dir_entry_def
  proof (rule wpg_bnd, rule wpg_gets)
    show "wpg F E (if phys s ?a AND 1 = 0 then skip
      else block [for_each [0..<1024] (\<lambda>nr. free_table_entry (table_of (phys s ?a) + 4 * of_nat nr)),
        bnd (gets (\<lambda>s. phys s ?a)) (\<lambda>e'. free_page (table_of e')), modify (set_word ?a 0)]) ?Q s"
      unfolding d using True
      by (simp only: if_False block.simps(2) [of "for_each _ _"])
        (rule wpg_seq, rule wpg_post [OF loop], rule fin)
  qed
qed

end
