(* ===== verification/Cow.thy ===== *)
theory Cow
  imports Pagetab
begin

unbundle bit_operations_syntax

text \<open>
  The operations of mm/memory.c keep the invariant of theory Pagetab: the write fault
  (\<open>un_wp_page\<close>), mapping a page, sharing (\<open>copy_page_tables\<close> at fork, \<open>try_to_share\<close>) and
  freeing.  \<open>vm_step\<close> is the step relation of the memory system, \<open>vm_reachable\<close> its reachable
  states.
\<close>

lemma vm_new_table:
  assumes s: "vm_ok s" "i \<in> udirs" "\<not> present (entry s (Dir i))"
    and p: "unat p mod 4096 = 0" "managed (frame p)" "refs s (frame p) = {}"
    and z: "\<And>a. a \<in> page_words p \<Longrightarrow> phys s a = 0"
    and c: "page_count s (frame p) = 1"
  shows "vm_ok (set_word (4 * of_nat i) (p OR 7) s)"
proof -
  let ?s = "set_word (4 * of_nat i) (p OR 7) s"
  have a: "loc_addr s (Dir i) = 4 * of_nat i" by (simp add: loc_addr.simps)
  note t = new_table [OF vm_shape [OF s(1)] s(2,3) p z, unfolded a]
  have d: "entry ?s (Dir i) = p OR 7" by (simp add: entry_def set_word_def loc_addr.simps)
  have dd: "entry ?s (Dir j) = (if j = i then p OR 7 else entry s (Dir j))" if "j \<in> udirs" for j
    using t(2) [of "Dir j"] d that by simp
  have "tables_ok ?s"
    using s(1) p(2) by (auto simp: vm_ok_def tables_ok_def dd split: if_splits)
  moreover have "counts_ok ?s"
    using vm_counts [OF s(1)] c by (auto simp: counts_ok_def t(5))
  moreover have "cow_ok ?s"
    unfolding cow_ok_def
  proof (intro allI impI)
    fix f l assume *: "managed f" "l \<in> refs ?s f" "writable (entry ?s l)"
    show "refs ?s f = {l}"
    proof (cases "f = frame p")
      case True
      then show ?thesis using * by (simp add: t(5))
    next
      case False
      then have l: "l \<in> refs s f" using * by (simp add: t(5))
      then have "l \<in> locs s" "l \<noteq> Dir i" using refs_sub s(3) by (blast, auto simp: refs_def)
      then have "entry ?s l = entry s l" by (intro t(2))
      then have "refs s f = {l}" using * l cowD [OF s(1)] by simp
      then show ?thesis using False by (simp add: t(5))
    qed
  qed
  moreover have "slots_ok ?s"
    using s(1) by (simp add: vm_ok_def slots_ok_def t(5))
  moreover have "low_ok ?s"
  proof (rule low_ok_off)
    show "low_ok s" using s by (simp add: vm_ok_def)
    have i: "i < 1024" "i \<noteq> 0" using s(2) by (simp_all add: udirs_def)
    then show "phys ?s 0 = phys s 0"
      using dir_addr_inj [of 0 i] by (simp add: set_word_def)
    fix a assume "0 < frame a" "frame a < 256"
    then show "phys ?s a = phys s a"
      using frame_dir_addr [OF i(1)] by (auto simp: set_word_def)
  qed
  ultimately show ?thesis by (simp add: vm_ok_def)
qed

lemma page_frame_ne: "unat p mod 4096 = 0 \<Longrightarrow> frame a \<noteq> frame p \<Longrightarrow> a \<notin> page_words p"
  using page_words_frame [of p a] by auto

text \<open>The entry's own address is not in the page it maps.\<close>

lemma entry_not_in_page:
  assumes "vm_ok s" "Ent i k \<in> locs s" "present (entry s (Ent i k))"
  shows "frame (loc_addr s (Ent i k)) \<noteq> frame (entry s (Ent i k))"
proof
  assume *: "frame (loc_addr s (Ent i k)) = frame (entry s (Ent i k))"
  have d: "i \<in> udirs" "k < 1024" "present (entry s (Dir i))" using assms(2) by (auto simp: Ent_in_locs)
  have "Ent i k \<in> refs s (frame (entry s (Dir i)))"
    using in_refs [OF assms(2,3)] * frame_ent [OF d(2), of s i] by simp
  then show False using table_refs [OF vm_shape [OF assms(1)] d(1,3)] by simp
qed

text \<open>
  What \<open>un_wp_page\<close> does to the entry \<open>l\<close>: it becomes writable, its page shows the same
  contents, and no other entry changes.
\<close>

definition unprotected :: "loc \<Rightarrow> kernel \<Rightarrow> kernel \<Rightarrow> bool" where
  "unprotected l s s' \<longleftrightarrow>
     locs s' = locs s \<and> (\<forall>m \<in> locs s - {l}. entry s' m = entry s m) \<and>
     present (entry s' l) \<and> writable (entry s' l) \<and>
     (\<forall>k<1024. phys s' (table_of (entry s' l) + 4 * of_nat k) = phys s (table_of (entry s l) + 4 * of_nat k))"

lemma table_or_2 [simp]: "table_of (e OR 2) = table_of e"
  by (rule aligned_frame_eq) simp_all

lemma un_wp_sole:
  assumes s: "vm_ok s" "Ent i k \<in> locs s" "present (entry s (Ent i k))"
    and c: "managed (frame (entry s (Ent i k))) \<Longrightarrow> page_count s (frame (entry s (Ent i k))) = 1"
  defines "s' \<equiv> set_word (loc_addr s (Ent i k)) (entry s (Ent i k) OR 2) s"
  shows "vm_ok s' \<and> unprotected (Ent i k) s s' \<and> frame (entry s' (Ent i k)) = frame (entry s (Ent i k))"
proof (intro conjI)
  let ?l = "Ent i k" and ?e = "entry s (Ent i k)"
  have sh: "shape_ok s" using s by (simp add: vm_shape)
  have r: "refs s' f = refs s f" for f
    using s(2,3) unfolding s'_def refs_set_word [OF sh s(2)] by (auto simp: refs_def)
  have own: "refs s (frame ?e) - {?l} = {}" if "managed (frame ?e)"
  proof -
    have "card (refs s (frame ?e)) \<le> 1" using vm_counts [OF s(1) that] c [OF that] by simp
    then have "refs s (frame ?e) = {?l}"
      using in_refs [OF s(2,3)] by (metis card_le_Suc0_iff_eq finite_refs One_nat_def is_singletonI' is_singleton_def empty_iff singletonD)
    then show ?thesis by simp
  qed
  show "vm_ok s'"
  proof (rule vm_write [OF s(1,2)])
    show "phys s' = phys (set_word (loc_addr s ?l) (?e OR 2) s)" by (simp add: s'_def)
    show "card (refs s' f) \<le> page_count s' f \<and> page_count s' f \<le> card (refs s' f) + 100" if "managed f" for f
      using vm_counts [OF s(1) that] by (simp add: r) (simp add: s'_def)
  qed (use own in auto)
  have "table_of ?e + 4 * of_nat n \<noteq> loc_addr s ?l" if "n < 1024" for n
    using entry_not_in_page [OF s] word_in_page(1) [OF table_aligned that, of ?e] by auto
  then show "unprotected ?l s s'"
    using s(2,3) entry_set_word [OF sh _ s(2)]
    by (auto simp: unprotected_def s'_def locs_set_word [OF sh s(2)] phys_set_word)
  show "frame (entry s' ?l) = frame ?e"
    using s(2) entry_set_word [OF sh s(2) s(2)] by (simp add: s'_def)
qed


lemma taken_ents:
  assumes "vm_ok s" "i < PAGING_PAGES" "mem_map s i = 0" "j \<in> udirs"
  shows "loc_addr (taken i s) (Ent j k) = loc_addr s (Ent j k)"
  using taken_props(5) [OF assms(1-3), of "Dir j"] assms(4) by (simp add: loc_addr_Ent)

lemma un_wp_copy:
  assumes s: "vm_ok s" "Ent i k \<in> locs s" "present (entry s (Ent i k))"
    and j: "j < PAGING_PAGES" "mem_map s j = 0"
    and fr: "frame (entry s (Ent i k)) < 256 \<or> managed (frame (entry s (Ent i k)))"
  defines "e \<equiv> entry s (Ent i k)" and "p \<equiv> page_addr j"
  defines "s1 \<equiv> (if managed (frame e) then set_map (frame e - 256) (mem_map s (frame e - 256) - 1) (taken j s) else taken j s)"
  defines "s' \<equiv> copied_page (table_of e) p (set_word (loc_addr s (Ent i k)) (p OR 7) s1)"
  shows "vm_ok s' \<and> unprotected (Ent i k) s s' \<and> managed (frame (entry s' (Ent i k)))"
proof -
  let ?l = "Ent i k" and ?s0 = "taken j s"
  let ?s2 = "set_word (loc_addr s (Ent i k)) (p OR 7) s1"
  note t = taken_props [OF s(1) j]
  note pp = page_addr_props [OF j(1), folded p_def]
  have sh: "shape_ok ?s0" using t(1) by (simp add: vm_shape)
  have l0: "?l \<in> locs ?s0" "loc_addr s ?l = loc_addr ?s0 ?l" "entry ?s0 ?l = e"
    using s(2) t(4,5) taken_ents [OF s(1) j] by (auto simp: Ent_in_locs e_def)
  have ph1: "phys s1 = phys ?s0" by (simp add: s1_def)
  have ph2: "phys ?s2 = phys (set_word (loc_addr ?s0 ?l) (p OR 7) ?s0)"
    using ph1 by (simp add: fun_eq_iff phys_set_word l0(2))
  note eqs2 = refs_cong [OF ph2]
  have r2: "refs ?s2 f = (if f = frame p then {?l} else refs s f - {?l})" for f
    using t(2) pp(2) by (auto simp: eqs2 refs_set_word [OF sh l0(1)] t(3))
  have le: "?l \<in> refs s f \<longleftrightarrow> frame e = f" for f
    using s(2,3) by (auto simp: refs_def e_def)
  have ne: "frame e \<noteq> frame p" using t(2) le [of "j + 256"] pp(2) by auto
  have vm2: "vm_ok ?s2"
  proof (rule vm_write [OF t(1) l0(1) ph2])
    fix f assume f: "managed f"
    show "card (refs ?s2 f) \<le> page_count ?s2 f \<and> page_count ?s2 f \<le> card (refs ?s2 f) + 100"
    proof -
      consider "f = frame p" | "f = frame e" "f \<noteq> frame p" | "f \<noteq> frame e" "f \<noteq> frame p" by blast
      then show ?thesis
      proof cases
        case 1
        have "page_count s1 f = 1"
          using t(9) ne 1 f pp(2) by (auto simp: s1_def page_count_set_map managed_def)
        then show ?thesis using 1 by (simp add: r2)
      next
        case 2
        have c0: "page_count ?s0 f = page_count s f"
          using 2 pp f by (auto simp: page_count_def t(8) managed_def)
        have nz: "card (refs s f) \<noteq> 0" using le 2 by auto
        have "mem_map ?s0 (f - 256) = mem_map s (f - 256)"
          using 2 pp f by (auto simp: t(8) managed_def)
        moreover have "page_count s f \<noteq> 0" using nz vm_counts [OF s(1) f] by linarith
        ultimately have c1: "page_count s1 f = page_count s f - 1"
          using page_count_pred [OF f f, of ?s0] 2 f c0 by (simp add: s1_def)
        have "card (refs ?s2 f) = card (refs s f) - 1"
          unfolding r2 using le [of f] 2 by simp
        moreover have "page_count ?s2 f = page_count s f - 1" by (simp add: c1)
        ultimately show ?thesis
          using vm_counts [OF s(1) f] nz by linarith
      next
        case 3
        have "page_count s1 f = page_count s f"
          using 3 pp f by (auto simp: s1_def page_count_def t(8) managed_def set_map_def)
        then show ?thesis using vm_counts [OF s(1) f] 3 le by (simp add: r2)
      qed
    qed
  qed (use pp t(2,3) in auto)
  have noD: "Dir d \<notin> refs ?s2 (frame p)" for d by (simp add: r2)
  have off: "phys s' a = phys ?s2 a" if "a \<notin> page_words p" for a
    using that by (simp add: s'_def copied_page_def)
  have p': "managed (frame p)" using pp by simp
  have vm': "vm_ok s'"
    by (rule vm_off_page [OF vm2 pp(1) p' noD off])
      (use vm_counts [OF vm2] in \<open>simp_all add: s'_def\<close>)
  note same = refs_off_page [OF vm_shape [OF vm2] pp(1) p' noD off]
  have ent2: "entry ?s2 m = (if m = ?l then p OR 7 else entry s m)" if "m \<in> locs s" for m
    using that t(4,5) by (simp add: eqs2 entry_set_word [OF sh _ l0(1)])
  have locs2: "locs ?s2 = locs s" by (simp add: eqs2 locs_set_word [OF sh l0(1)] t(4))
  have ent': "entry s' m = (if m = ?l then p OR 7 else entry s m)" if "m \<in> locs s" for m
    using same(2) [of m] ent2 [OF that] locs2 that by simp
  have con: "phys s' (p + 4 * of_nat n) = phys s (table_of e + 4 * of_nat n)" if n: "n < 1024" for n
  proof -
    have fr: "frame (table_of e + 4 * of_nat n) = frame e" by (simp add: word_in_page n)
    have "phys s' (p + 4 * of_nat n) = phys ?s2 (table_of e + 4 * of_nat n)"
      using n by (auto simp: s'_def copied_page_def)
    also have "\<dots> = phys ?s0 (table_of e + 4 * of_nat n)"
      using entry_not_in_page [OF s] fr by (auto simp: phys_set_word ph1 e_def)
    also have "\<dots> = phys s (table_of e + 4 * of_nat n)"
      using page_frame_ne [OF pp(1)] fr ne unfolding p_def by (intro t(7)) auto
    finally show ?thesis .
  qed
  show ?thesis
    using vm' s(2) ent' con pp(1) p'
    by (auto simp: unprotected_def same(1) locs2 table_or_7 e_def)
qed

lemma wpg_oom [wpr]: "F (Exited (int SIGSEGV)) \<Longrightarrow> wpg F E oom Q s"
  unfolding oom_def by (rule wpg_stop)

lemma wpg_mem_map_add:
  "F Wild \<Longrightarrow> (i < PAGING_PAGES \<Longrightarrow> Q () (set_map i (mem_map s i + d) s)) \<Longrightarrow> wpg F E (mem_map_add i d) Q s"
  unfolding mem_map_add_def by (auto intro!: wpr)

lemma wpg_copy_page:
  "unat p mod 4096 = 0 \<Longrightarrow> unat q mod 4096 = 0 \<Longrightarrow> p \<noteq> q \<Longrightarrow> Q () (copied_page p q s) \<Longrightarrow>
   wpg F E (copy_page p q) Q s"
  by (simp add: wpg_def copy_page_run)

lemma MAP_NR_table: "256 \<le> frame e \<Longrightarrow> MAP_NR (table_of e) = frame e - 256"
  using MAP_NR_frame [of "table_of e"] by simp

lemma managed_index: "256 \<le> f \<Longrightarrow> f - 256 < PAGING_PAGES \<longleftrightarrow> managed f"
  by (auto simp: managed_def kconst)

lemma wpg_un_wp_page:
  assumes s: "vm_ok s" "Ent i k \<in> locs s" "present (entry s (Ent i k))"
    and F: "free_pages s = {} \<Longrightarrow> F (Exited (int SIGSEGV))" "4096 \<le> frame (entry s (Ent i k)) \<Longrightarrow> F Wild"
  shows "wpg F E (un_wp_page (loc_addr s (Ent i k))) (\<lambda>_ s'. vm_ok s' \<and> unprotected (Ent i k) s s' \<and>
    (frame (entry s (Ent i k)) < 4096 \<longrightarrow> managed (frame (entry s' (Ent i k))))) s"
proof -
  let ?l = "Ent i k" and ?e = "entry s (Ent i k)"
  have e: "phys s (loc_addr s ?l) = ?e" by (simp add: entry_def)
  have sole: "page_count s (frame ?e) = 1" if "managed (frame ?e)" "mem_map s (MAP_NR (table_of ?e)) = 1"
    using that by (simp add: page_count_def MAP_NR_table managed_def)
  have copied: "wpg F E (block
       [guardK (LOW_MEM \<le> table_of ?e) (mem_map_add (MAP_NR (table_of ?e)) (- 1)),
        modify (set_word (loc_addr s ?l) (page_addr j OR 7)), copy_page (table_of ?e) (page_addr j)])
     (\<lambda>_ s'. vm_ok s' \<and> unprotected ?l s s' \<and>
       (frame ?e < 4096 \<longrightarrow> managed (frame (entry s' ?l)))) (taken j s)"
    if j: "j < PAGING_PAGES" "mem_map s j = 0" for j
  proof -
    have low: "LOW_MEM \<le> table_of ?e \<longleftrightarrow> 256 \<le> frame ?e"
      using low_mem_frame [of "table_of ?e"] by auto
    have ne: "table_of ?e \<noteq> page_addr j"
    proof
      assume *: "table_of ?e = page_addr j"
      then have "frame ?e = j + 256" using page_addr_props(2) [OF j(1)] frame_table [of ?e] by simp
      then show False using in_refs [OF s(2,3)] taken_props(2) [OF s(1) j] by simp
    qed
    have m: "mem_map (taken j s) (frame ?e - 256) = mem_map s (frame ?e - 256)" if "managed (frame ?e)"
    proof -
      have "frame ?e \<noteq> j + 256" using in_refs [OF s(2,3)] taken_props(2) [OF s(1) j] by auto
      then show ?thesis using that by (auto simp: taken_props(8) [OF s(1) j] managed_def)
    qed
    have wild: "F Wild" if "256 \<le> frame ?e" "\<not> managed (frame ?e)"
      using that by (intro F(2)) (simp add: managed_def)
    have fr: "frame ?e < 256 \<or> managed (frame ?e)" if "256 \<le> frame ?e \<longrightarrow> MAP_NR (table_of ?e) < PAGING_PAGES"
      using that by (auto simp: MAP_NR_table managed_index)
    note fin = un_wp_copy [OF s j]
    show ?thesis
      unfolding guardK_def low mem_map_add_def
      by (intro wpr wpg_copy_page)
        (use fin fr m wild page_addr_props(1) [OF j(1)] ne in
          \<open>auto simp: MAP_NR_table managed_index managed_def\<close>)
  qed
  show ?thesis
    unfolding un_wp_page_def
  proof (intro wpg_bnd wpg_gets wpg_if wpg_modify wpg_get_free_page wpg_oom)
    assume *: "LOW_MEM \<le> phys s (loc_addr s ?l) AND 0xfffff000 \<and> mem_map s (MAP_NR (phys s (loc_addr s ?l) AND 0xfffff000)) = 1"
    show "vm_ok (set_word (loc_addr s ?l) (phys s (loc_addr s ?l) OR 2) s) \<and>
      unprotected ?l s (set_word (loc_addr s ?l) (phys s (loc_addr s ?l) OR 2) s) \<and>
      (frame ?e < 4096 \<longrightarrow> managed (frame (entry (set_word (loc_addr s ?l) (phys s (loc_addr s ?l) OR 2) s) ?l)))"
      unfolding e using un_wp_sole [OF s] * sole low_mem_frame [of "table_of ?e"]
      by (auto simp: e managed_def)
  next
    fix j assume j: "j < PAGING_PAGES" "mem_map s j = 0"
    then show "wpg F E (block
       [guardK (LOW_MEM \<le> phys s (loc_addr s ?l) AND 0xfffff000) (mem_map_add (MAP_NR (phys s (loc_addr s ?l) AND 0xfffff000)) (- 1)),
        modify (set_word (loc_addr s ?l) (page_addr j OR 7)), copy_page (phys s (loc_addr s ?l) AND 0xfffff000) (page_addr j)])
     (\<lambda>_ s'. vm_ok s' \<and> unprotected ?l s s' \<and>
       (frame ?e < 4096 \<longrightarrow> managed (frame (entry s' ?l)))) (taken j s)"
      unfolding e by (rule copied)
  qed (simp_all add: page_addr_props F)
qed

definition dirix :: "u32 \<Rightarrow> nat" where "dirix a = unat a div 4194304"
definition entix :: "u32 \<Rightarrow> nat" where "entix a = unat a div 4096 mod 1024"

lemma dirix_less [simp]: "dirix a < 1024"
  unfolding dirix_def by (rule less_mult_imp_div_less) simp

lemma entix_less [simp]: "entix a < 1024"
  by (simp add: entix_def)

lemma dir_addr_of: "drop_bit 20 (a :: u32) AND 0xffc = 4 * of_nat (dirix a)"
proof -
  have m: "(0xffc :: u32) = push_bit 2 (mask 10)" by (simp add: mask_eq_exp_minus_1 push_bit_eq_mult)
  have "drop_bit 20 a AND push_bit 2 (mask 10) = push_bit 2 (drop_bit 22 a)"
    by (rule bit_word_eqI) (auto simp: bit_simps dest: bit_imp_le_length)
  also have "\<dots> = 4 * of_nat (dirix a)"
  proof -
    have "drop_bit 22 a = of_nat (dirix a)"
      by (rule word_unat_eq_iff [THEN iffD2])
        (use dirix_less [of a] in \<open>simp add: drop_bit_eq_div unat_div dirix_def unat_of_nat\<close>)
    then show ?thesis by (simp add: push_bit_eq_mult mult.commute)
  qed
  finally show ?thesis by (simp add: m)
qed

lemma ent_of: "drop_bit 12 (a :: u32) AND 0x3ff = of_nat (entix a)"
proof -
  have m: "(0x3ff :: u32) = mask 10" by (simp add: mask_eq_exp_minus_1)
  have "unat (drop_bit 12 a AND mask 10) = entix a"
    unfolding take_bit_eq_mask [symmetric]
    by (simp add: unsigned_take_bit_eq unsigned_drop_bit_eq take_bit_eq_mod drop_bit_eq_div entix_def unat_mod unat_div)
  then have "drop_bit 12 a AND mask 10 = of_nat (entix a)"
    using less_trans [OF entix_less, of 4294967296 a]
    by (intro word_unat_eq_iff [THEN iffD2]) (simp add: unat_of_nat)
  then show ?thesis by (simp add: m)
qed

lemma ent_addr_of: "drop_bit 10 (a :: u32) AND 0xffc = 4 * of_nat (entix a)"
proof -
  have m: "(0xffc :: u32) = push_bit 2 (mask 10)" "(0x3ff :: u32) = mask 10"
    by (simp_all add: mask_eq_exp_minus_1 push_bit_eq_mult)
  have "drop_bit 10 a AND push_bit 2 (mask 10) = push_bit 2 (drop_bit 12 a AND mask 10)"
    by (rule bit_word_eqI) (auto simp: bit_simps)
  also have "\<dots> = 4 * of_nat (entix a)"
    using ent_of [of a] by (simp add: push_bit_eq_mult m mult.commute)
  finally show ?thesis by (simp add: m)
qed


text \<open>The entry that maps a linear address.\<close>

abbreviation ent_of_addr :: "u32 \<Rightarrow> loc" where
  "ent_of_addr a \<equiv> Ent (dirix a) (entix a)"

text \<open>What \<open>put_page pg a\<close> leaves when it succeeds.\<close>

definition mapped_to :: "u32 \<Rightarrow> u32 \<Rightarrow> kernel \<Rightarrow> kernel \<Rightarrow> bool" where
  "mapped_to a pg s s' \<longleftrightarrow>
     ent_of_addr a \<in> locs s' \<and> entry s' (ent_of_addr a) = pg OR 7 \<and> locs s \<subseteq> locs s' \<and>
     (\<forall>m \<in> locs s - {Dir (dirix a), ent_of_addr a}. entry s' m = entry s m)"

lemma map_fresh:
  assumes s: "vm_ok s" "Ent i k \<in> locs s" "\<not> present (entry s (Ent i k))"
    and p: "unat p mod 4096 = 0" "managed (frame p)" "refs s (frame p) = {}"
    and c: "0 < page_count s (frame p)"
  shows "vm_ok (set_word (loc_addr s (Ent i k)) (p OR 7) s)"
proof (rule vm_write [OF s(1,2)])
  let ?s = "set_word (loc_addr s (Ent i k)) (p OR 7) s"
  fix f assume f: "managed f"
  have "Ent i k \<notin> refs s f" using s(3) by (simp add: refs_def)
  then have "refs ?s f = (if f = frame p then {Ent i k} else refs s f)"
    using p(3) by (auto simp: refs_set_word [OF vm_shape [OF s(1)] s(2)])
  then show "card (refs ?s f) \<le> page_count ?s f \<and> page_count ?s f \<le> card (refs ?s f) + 100"
    using vm_counts [OF s(1) f] c p(3) by auto
next
  assume "refs s (frame (p OR 7)) - {Ent i k} \<noteq> {}"
  then show "\<not> writable (p OR 7) \<and> (\<forall>m \<in> refs s (frame (p OR 7)) - {Ent i k}.
      \<not> writable (entry s m) \<and> same_slot (Ent i k) m)"
    by (simp add: p(3))
qed simp

lemma wpg_put_page:
  assumes s: "vm_ok s" "dirix a \<in> udirs"
    and e: "ent_of_addr a \<in> locs s \<Longrightarrow> \<not> present (entry s (ent_of_addr a))"
    and p: "unat p mod 4096 = 0" "managed (frame p)" "refs s (frame p) = {}" "0 < page_count s (frame p)"
  shows "wpg any_stop E (put_page p a) (\<lambda>r s'. vm_ok s' \<and> (r = 0 \<and> s' = s \<or> r = p \<and> mapped_to a p s s')) s"
proof -
  let ?i = "dirix a" and ?k = "entix a"
  let ?d = "entry s (Dir ?i)"
  have d: "phys s (4 * of_nat ?i) = ?d" by (simp add: entry_def loc_addr.simps)
  have old: "vm_ok (set_word (table_of ?d + 4 * of_nat ?k) (p OR 7) s)
      \<and> mapped_to a p s (set_word (table_of ?d + 4 * of_nat ?k) (p OR 7) s)" if "present ?d"
  proof -
    have l: "ent_of_addr a \<in> locs s" using that s by (simp add: Ent_in_locs)
    have la: "table_of ?d + 4 * of_nat ?k = loc_addr s (ent_of_addr a)" by (simp add: loc_addr_Ent)
    show ?thesis
      unfolding la
      using map_fresh [OF s(1) l e [OF l] p] vm_shape [OF s(1)] l
      by (auto simp: mapped_to_def locs_set_word entry_set_word)
  qed
  have new: "vm_ok (set_word (page_addr j + 4 * of_nat ?k) (p OR 7) (set_word (4 * of_nat ?i) (page_addr j OR 7) (taken j s)))
      \<and> mapped_to a p s (set_word (page_addr j + 4 * of_nat ?k) (p OR 7) (set_word (4 * of_nat ?i) (page_addr j OR 7) (taken j s)))"
    if nd: "\<not> present ?d" and j: "j < PAGING_PAGES" "mem_map s j = 0" for j
  proof -
    note t = taken_props [OF s(1) j] and pp = page_addr_props [OF j(1)]
    let ?s1 = "set_word (4 * of_nat ?i) (page_addr j OR 7) (taken j s)"
    have nd1: "\<not> present (entry (taken j s) (Dir ?i))" using nd t(5) [of "Dir ?i"] s(2) by simp
    have r1: "refs (taken j s) (frame (page_addr j)) = {}" and c1: "page_count (taken j s) (frame (page_addr j)) = 1"
      using t(2,3,9) pp(2) by simp_all
    have m1: "managed (frame (page_addr j))" using pp by simp
    have vm1: "vm_ok ?s1"
      by (rule vm_new_table [OF t(1) s(2) nd1 pp(1) m1 r1 _ c1]) (use t(6) in auto)
    note n = new_table [OF vm_shape [OF t(1)] s(2) nd1 pp(1) m1 r1, unfolded loc_addr.simps(1)]
    have l: "ent_of_addr a \<in> locs ?s1" and la: "loc_addr ?s1 (ent_of_addr a) = page_addr j + 4 * of_nat ?k"
      and e0: "entry ?s1 (ent_of_addr a) = 0"
      using n(1,3,4) t(6) by auto
    have "frame p \<noteq> j + 256"
      using p(2,4) j(2) by (auto simp: page_count_def managed_def)
    then have "refs ?s1 (frame p) = {}" "0 < page_count ?s1 (frame p)"
      using n(5) t(3,6,8) p pp(2) by (auto simp: page_count_def managed_def)
    then have "vm_ok (set_word (loc_addr ?s1 (ent_of_addr a)) (p OR 7) ?s1)"
      using e0 by (intro map_fresh [OF vm1 l _ p(1,2)]) simp_all
    moreover have "mapped_to a p s (set_word (loc_addr ?s1 (ent_of_addr a)) (p OR 7) ?s1)"
      using l n(1,2) t(4,5,6) vm_shape [OF vm1]
      by (auto simp: mapped_to_def locs_set_word entry_set_word)
    ultimately show ?thesis by (simp add: la)
  qed
  show ?thesis
    unfolding put_page_def Let_def dir_addr_of ent_of
    by (intro wpr) (use old new d s page_addr_props(4) in auto)
qed

lemma present_gt_low:
  assumes "present e"
  shows "e > LOW_MEM \<longleftrightarrow> 256 \<le> frame e"
proof -
  have "unat e \<noteq> 1048576"
  proof
    assume "unat e = 1048576"
    then have "e = LOW_MEM" by (simp add: word_unat_eq_iff kconst)
    then show False using assms by (simp add: kconst)
  qed
  moreover have "\<not> e < LOW_MEM \<longleftrightarrow> 256 \<le> frame e" using low_mem_frame [of e] by auto
  ultimately show ?thesis by (auto simp: word_less_nat_alt kconst)
qed

text \<open>
  What sharing the page of entry \<open>f\<close> with the empty entry \<open>t\<close> leaves: both show the page,
  read-only, and nothing else changes.
\<close>

definition shared_with :: "loc \<Rightarrow> loc \<Rightarrow> kernel \<Rightarrow> kernel \<Rightarrow> bool" where
  "shared_with f t s s' \<longleftrightarrow> vm_ok s' \<and> locs s' = locs s \<and>
     (\<forall>m \<in> locs s. entry s' m = (if m = f \<or> m = t then entry s f AND NOT 2 else entry s m))"

lemma share_entries:
  assumes s: "vm_ok s" "Ent i k \<in> locs s" "Ent j k \<in> locs s" "i mod 16 = j mod 16"
    and e: "present (entry s (Ent i k))" "managed (frame (entry s (Ent i k)))"
    and t: "\<not> present (entry s (Ent j k))"
  defines "v \<equiv> entry s (Ent i k) AND NOT 2" and "n \<equiv> frame (entry s (Ent i k)) - 256"
  shows "shared_with (Ent i k) (Ent j k) s (set_map n (mem_map s n + 1)
     (set_word (loc_addr s (Ent i k)) v (set_word (loc_addr s (Ent j k)) v s)))"
    (is "shared_with ?f ?t s ?s'")
proof -
  let ?e = "entry s ?f" let ?g = "frame ?e"
  have sh: "shape_ok s" using s by (simp add: vm_shape)
  have ft: "?f \<noteq> ?t" using e t by auto
  have vf: "present v" "frame v = ?g" "\<not> writable v" using e by (simp_all add: v_def)
  note fr = in_refs [OF s(2) e(1)]
  have tr: "?t \<notin> refs s f" for f using t by (simp add: refs_def)
  \<comment> \<open>first the source entry loses its write bit\<close>
  let ?s1 = "set_word (loc_addr s ?f) v s"
  have r1: "refs ?s1 f = refs s f" for f
  proof -
    have "?f \<in> refs s f \<longleftrightarrow> ?g = f" using s(2) e(1) by (simp add: refs_def)
    then show ?thesis unfolding refs_set_word [OF sh s(2)] using vf by auto
  qed
  have vm1: "vm_ok ?s1"
  proof (rule vm_write [OF s(1,2) refl])
    fix f assume "managed f"
    then show "card (refs ?s1 f) \<le> page_count ?s1 f \<and> page_count ?s1 f \<le> card (refs ?s1 f) + 100"
      using vm_counts [OF s(1)] by (simp add: r1)
  next
    have "\<not> writable (entry s m) \<and> same_slot ?f m" if "m \<in> refs s ?g" "m \<noteq> ?f" for m
      using vm_alone [OF s(1) e(2) that(1) fr] that s(1) fr e(2) unfolding vm_ok_def slots_ok_def by blast
    then show "\<not> writable v \<and> (\<forall>m \<in> refs s (frame v) - {?f}. \<not> writable (entry s m) \<and> same_slot ?f m)"
      using vf by auto
  qed
  have e1: "entry ?s1 m = (if m = ?f then v else entry s m)" if "m \<in> locs s" for m
    using that by (simp add: entry_set_word [OF sh _ s(2)])
  have l1: "locs ?s1 = locs s" by (simp add: locs_set_word [OF sh s(2)])
  have sh1: "shape_ok ?s1" using vm1 by (simp add: vm_shape)
  have t1: "?t \<in> locs ?s1" using s(3) l1 by simp
  have a1: "loc_addr ?s1 ?t = loc_addr s ?t"
    using e1 [of "Dir j"] s(3) by (simp add: loc_addr_Ent Ent_in_locs)
  have na: "loc_addr s ?f \<noteq> loc_addr s ?t" using loc_addr_inj [OF sh s(2,3)] ft by auto
  \<comment> \<open>then the empty entry shows the page\<close>
  let ?s2 = "set_word (loc_addr ?s1 ?t) v ?s1"
  have p2: "phys ?s' = phys ?s2" using na by (simp add: fun_eq_iff phys_set_word a1)
  note eqs = refs_cong [OF p2]
  have r2: "refs ?s' f = (if f = ?g then insert ?t (refs s f) else refs s f)" for f
    unfolding eqs(3) refs_set_word [OF sh1 t1] r1 using vf tr [of f] by auto
  have nn: "n + 256 = ?g" using e(2) by (simp add: n_def managed_def)
  have b: "card (refs s ?g) \<le> 64" by (rule refs_bound [OF s(1) e(2) fr])
  have c2: "page_count ?s' ?g = page_count s ?g + 1"
  proof -
    have "page_count s ?g < 255" using vm_counts [OF s(1) e(2)] b by linarith
    then have "unat (mem_map s n + 1) = unat (mem_map s n) + 1"
      by (simp add: page_count_def n_def unat_word_ariths)
    then show ?thesis by (simp add: page_count_set_map e(2) nn) (simp add: page_count_def n_def)
  qed
  have vm2: "vm_ok ?s'"
  proof (rule vm_write [OF vm1 t1 p2])
    fix f assume f: "managed f"
    show "card (refs ?s' f) \<le> page_count ?s' f \<and> page_count ?s' f \<le> card (refs ?s' f) + 100"
    proof (cases "f = ?g")
      case True
      then have "card (refs ?s' f) = card (refs s ?g) + 1" unfolding r2 using tr [of ?g] by simp
      moreover have "page_count ?s' f = page_count s ?g + 1" unfolding True by (rule c2)
      ultimately show ?thesis using vm_counts [OF s(1) e(2)] by linarith
    next
      case False
      then have "page_count ?s' f = page_count s f" using nn by (simp add: page_count_set_map f)
      moreover have "card (refs ?s' f) = card (refs s f)" unfolding r2 using False by simp
      ultimately show ?thesis using vm_counts [OF s(1) f] by linarith
    qed
  next
    have "\<not> writable (entry ?s1 m) \<and> same_slot ?t m" if m: "m \<in> refs s ?g" for m
    proof -
      have "m \<in> locs s" using m refs_sub by blast
      then have "\<not> writable (entry ?s1 m)"
        using vm_alone [OF s(1) e(2) m fr] e1 [of m] vf by auto
      moreover have "same_slot ?f m" using s(1) fr m e(2) unfolding vm_ok_def slots_ok_def by blast
      then have "same_slot ?t m" using s(4) by (cases m) auto
      ultimately show ?thesis by simp
    qed
    then show "\<not> writable v \<and> (\<forall>m \<in> refs ?s1 (frame v) - {?t}. \<not> writable (entry ?s1 m) \<and> same_slot ?t m)"
      using vf by (auto simp: r1)
  qed
  show ?thesis
    unfolding shared_with_def eqs(1,2) locs_set_word [OF sh1 t1] l1
    using vm2 e1 entry_set_word [OF sh1 _ t1] l1 by (auto simp: v_def)
qed

text \<open>Entry \<open>t\<close> now shows what entry value \<open>e\<close> showed, read-only.\<close>

definition shows_copy :: "u32 \<Rightarrow> u32 \<Rightarrow> bool" where
  "shows_copy e t \<longleftrightarrow> (if present e then t = e AND NOT 2 else \<not> present t)"

definition same_but :: "loc set \<Rightarrow> kernel \<Rightarrow> kernel \<Rightarrow> bool" where
  "same_but L s s' \<longleftrightarrow> locs s' = locs s \<and> (\<forall>m \<in> locs s - L. entry s' m = entry s m)"

lemma low_entry:
  assumes s: "vm_ok s" "Ent j k \<in> locs s" "\<not> present (entry s (Ent j k))" and v: "frame v < 256"
  shows "vm_ok (set_word (loc_addr s (Ent j k)) v s)"
    "same_but {Ent j k} s (set_word (loc_addr s (Ent j k)) v s)"
    "entry (set_word (loc_addr s (Ent j k)) v s) (Ent j k) = v"
proof -
  have sh: "shape_ok s" using s by (simp add: vm_shape)
  let ?s = "set_word (loc_addr s (Ent j k)) v s"
  have r: "refs ?s f = refs s f" if "managed f" for f
    using s(3) v that unfolding refs_set_word [OF sh s(2)] by (auto simp: refs_def managed_def)
  show "vm_ok ?s"
  proof (rule vm_write [OF s(1,2) refl])
    fix f assume "managed f"
    then show "card (refs ?s f) \<le> page_count ?s f \<and> page_count ?s f \<le> card (refs ?s f) + 100"
      using vm_counts [OF s(1)] by (simp add: r)
  qed (use v in \<open>auto simp: managed_def\<close>)
  show "same_but {Ent j k} s ?s" "entry ?s (Ent j k) = v"
    using entry_set_word [OF sh _ s(2)] s(2) by (simp_all add: same_but_def locs_set_word [OF sh s(2)])
qed

lemma wpg_copy_low_entry:
  assumes s: "vm_ok s" "Ent j k \<in> locs s" "\<not> present (entry s (Ent j k))" and v: "frame (phys s a) < 256"
  shows "wpg any_stop E (copy_table_entry a (loc_addr s (Ent j k)))
    (\<lambda>_ s'. vm_ok s' \<and> same_but {Ent j k} s s' \<and> phys s' 0 = phys s 0) s"
proof -
  have "loc_addr s (Ent j k) \<noteq> 0"
    using ent_frame_managed [OF vm_shape [OF s(1)] s(2)] by (auto simp: managed_def)
  then have z: "phys (set_word (loc_addr s (Ent j k)) w s) 0 = phys s 0" for w
    by (simp add: phys_set_word)
  have "\<not> phys s a AND NOT 2 > LOW_MEM" if "present (phys s a)"
    using that v present_gt_low [of "phys s a AND NOT 2"] by simp
  then show ?thesis
    unfolding copy_table_entry_def Let_def
    using low_entry [OF s, of "phys s a AND NOT 2"] v s(1) z
    by (auto intro!: wpr simp: same_but_def)
qed

lemma wpg_copy_table_entry:
  assumes s: "vm_ok s" "Ent i k \<in> locs s" "Ent j k \<in> locs s" "i mod 16 = j mod 16"
    and t: "\<not> present (entry s (Ent j k))" and F: "4096 \<le> frame (entry s (Ent i k)) \<Longrightarrow> F Wild"
  shows "wpg F E (copy_table_entry (loc_addr s (Ent i k)) (loc_addr s (Ent j k)))
    (\<lambda>_ s'. vm_ok s' \<and> same_but {Ent i k, Ent j k} s s' \<and>
       shows_copy (entry s (Ent i k)) (entry s' (Ent j k)) \<and>
       (entry s' (Ent i k) = entry s (Ent i k) \<or> shows_copy (entry s (Ent i k)) (entry s' (Ent i k)))) s"
proof -
  let ?f = "Ent i k" and ?t = "Ent j k" and ?e = "entry s (Ent i k)"
  have e: "phys s (loc_addr s ?f) = ?e" by (simp add: entry_def)
  have gt: "?e AND NOT 2 > LOW_MEM \<longleftrightarrow> 256 \<le> frame ?e" if "present ?e"
    using that present_gt_low [of "?e AND NOT 2"] by simp
  have low: "vm_ok (set_word (loc_addr s ?t) (?e AND NOT 2) s) \<and>
      same_but {?f, ?t} s (set_word (loc_addr s ?t) (?e AND NOT 2) s) \<and>
      entry (set_word (loc_addr s ?t) (?e AND NOT 2) s) ?t = ?e AND NOT 2 \<and>
      entry (set_word (loc_addr s ?t) (?e AND NOT 2) s) ?f = ?e"
    if "frame ?e < 256" "?f \<noteq> ?t"
    using low_entry [OF s(1,3) t, of "?e AND NOT 2"] that s(2) by (auto simp: same_but_def)
  have ft: "?f \<noteq> ?t" if "present ?e" using that t by auto
  have wild: "F Wild" if "256 \<le> frame ?e" "\<not> managed (frame ?e)"
    using that by (intro F) (simp add: managed_def)
  have nr: "MAP_NR (?e AND NOT 2) = frame ?e - 256" if "256 \<le> frame ?e"
    using MAP_NR_frame [of "?e AND NOT 2"] that by simp
  have shr: "vm_ok s' \<and> same_but {?f, ?t} s s' \<and> shows_copy ?e (entry s' ?t) \<and> shows_copy ?e (entry s' ?f)"
    if "present ?e" "managed (frame ?e)"
      "s' = set_map (frame ?e - 256) (mem_map s (frame ?e - 256) + 1)
       (set_word (loc_addr s ?f) (?e AND NOT 2) (set_word (loc_addr s ?t) (?e AND NOT 2) s))" for s'
    using share_entries [OF s that(1,2) t] s(2,3) that
    by (auto simp: shared_with_def same_but_def shows_copy_def)
  show ?thesis
    unfolding copy_table_entry_def mem_map_add_def Let_def e
    by (intro wpr)
      (use low shr gt nr ft s t wild in \<open>auto simp: e same_but_def shows_copy_def managed_index managed_def\<close>)
qed

text \<open>Directory entry \<open>j\<close> is a read-only copy of entry \<open>i\<close>, which lost at most write bits.\<close>

definition dir_copied :: "nat \<Rightarrow> nat \<Rightarrow> kernel \<Rightarrow> kernel \<Rightarrow> bool" where
  "dir_copied i j s s' \<longleftrightarrow> present (entry s' (Dir j)) \<and> locs s' = locs s \<union> Ent j ` {..<1024} \<and>
     (\<forall>k<1024. shows_copy (entry s (Ent i k)) (entry s' (Ent j k)) \<and>
        (entry s' (Ent i k) = entry s (Ent i k) \<or> shows_copy (entry s (Ent i k)) (entry s' (Ent i k)))) \<and>
     (\<forall>m \<in> locs s - {Dir j} - Ent i ` {..<1024} - Ent j ` {..<1024}. entry s' m = entry s m)"

lemma not_in_ents [simp]: "Dir j \<notin> Ent i ` A" "Ent j k \<in> Ent i ` A \<longleftrightarrow> j = i \<and> k \<in> A"
  by auto

lemma hang_table:
  assumes s: "vm_ok s" "j \<in> udirs" "\<not> present (entry s (Dir j))"
    and q: "q < PAGING_PAGES" "mem_map s q = 0"
  defines "s1 \<equiv> set_word (4 * of_nat j) (page_addr q OR 7) (taken q s)"
  shows "vm_ok s1" "locs s1 = locs s \<union> Ent j ` {..<1024}"
    "m \<in> locs s \<Longrightarrow> m \<noteq> Dir j \<Longrightarrow> entry s1 m = entry s m"
    "k < 1024 \<Longrightarrow> entry s1 (Ent j k) = 0"
    "entry s1 (Dir j) = page_addr q OR 7" "table_of (page_addr q OR 7) = page_addr q"
proof -
  note t = taken_props [OF s(1) q] and pp = page_addr_props [OF q(1)]
  have nd1: "\<not> present (entry (taken q s) (Dir j))" using s t(5) [of "Dir j"] by simp
  have r1: "refs (taken q s) (frame (page_addr q)) = {}" and c1: "page_count (taken q s) (frame (page_addr q)) = 1"
    using t(2,3,9) pp(2) by simp_all
  have m1: "managed (frame (page_addr q))" using pp by simp
  show "vm_ok s1"
    unfolding s1_def by (rule vm_new_table [OF t(1) s(2) nd1 pp(1) m1 r1 _ c1]) (use t(6) in auto)
  note n = new_table [OF vm_shape [OF t(1)] s(2) nd1 pp(1) m1 r1 t(6), unfolded loc_addr.simps(1), folded s1_def]
  show "locs s1 = locs s \<union> Ent j ` {..<1024}" using n(1) t(4) by simp
  show "m \<in> locs s \<Longrightarrow> m \<noteq> Dir j \<Longrightarrow> entry s1 m = entry s m" using n(2) [of m] t(4,5) by simp
  show "k < 1024 \<Longrightarrow> entry s1 (Ent j k) = 0" by (rule n(4))
  show "entry s1 (Dir j) = page_addr q OR 7"
    by (simp add: s1_def entry_def loc_addr.simps phys_set_word)
  show "table_of (page_addr q OR 7) = page_addr q" by (rule table_or_7 [OF pp(1)])
qed

lemma wpg_copy_dir:
  assumes s: "vm_ok s" "i \<in> udirs" "j \<in> udirs" "i \<noteq> j" "i mod 16 = j mod 16"
    and d: "present (entry s (Dir i))" "\<not> present (entry s (Dir j))"
    and q: "q < PAGING_PAGES" "mem_map s q = 0"
    and F: "\<And>k. k < 1024 \<Longrightarrow> 4096 \<le> frame (entry s (Ent i k)) \<Longrightarrow> F Wild"
  shows "wpg F E (for_each [0..<1024] (\<lambda>k. copy_table_entry (table_of (entry s (Dir i)) + 4 * of_nat k)
      (page_addr q + 4 * of_nat k))) (\<lambda>_ s'. vm_ok s' \<and> dir_copied i j s s')
    (set_word (4 * of_nat j) (page_addr q OR 7) (taken q s))"
proof -
  note h = hang_table [OF s(1,3) d(2) q]
  let ?s1 = "set_word (4 * of_nat j) (page_addr q OR 7) (taken q s)"
  define I where "I n s' \<longleftrightarrow> vm_ok s' \<and> locs s' = locs ?s1 \<and>
     (\<forall>k<1024. (if k < n then shows_copy (entry s (Ent i k)) (entry s' (Ent j k)) else entry s' (Ent j k) = 0) \<and>
        (entry s' (Ent i k) = entry s (Ent i k) \<or> k < n \<and> shows_copy (entry s (Ent i k)) (entry s' (Ent i k)))) \<and>
     (\<forall>m \<in> locs ?s1 - Ent i ` {..<1024} - Ent j ` {..<1024}. entry s' m = entry ?s1 m)" for n s'
  have dj: "entry s' (Dir j) = page_addr q OR 7" if "I n s'" for n s'
    using that h(2,5) s(3) by (simp add: I_def)
  show ?thesis
  proof (rule wpg_for_upt [where I = I])
    have "Ent i k \<in> locs s" if "k < 1024" for k using that s d by (simp add: Ent_in_locs)
    then show "I 0 ?s1" using h by (auto simp: I_def)
    show "vm_ok s' \<and> dir_copied i j s s'" if "I 1024 s'" for s'
    proof -
      have "entry s' m = entry s m" if "m \<in> locs s - {Dir j} - Ent i ` {..<1024} - Ent j ` {..<1024}" for m
        using that \<open>I 1024 s'\<close> h(2,3) by (simp add: I_def)
      then show ?thesis
        using that dj [OF that] h(2) by (simp add: I_def dir_copied_def)
    qed
  next
    fix k s' assume k: "k < 1024" and I: "I k s'"
    note dj = dj [OF I]
    have di: "entry s' (Dir i) = entry s (Dir i)"
      using I h(2,3) s by (simp add: I_def)
    have l: "Ent i m \<in> locs s'" "Ent j m \<in> locs s'" if "m < 1024" for m
      using that dj di s d by (simp_all add: Ent_in_locs)
    have a: "loc_addr s' (Ent i k) = table_of (entry s (Dir i)) + 4 * of_nat k"
      "loc_addr s' (Ent j k) = page_addr q + 4 * of_nat k"
      using dj di h(6) by (simp_all add: loc_addr_Ent)
    have vm: "vm_ok s'" "\<not> present (entry s' (Ent j k))" and ei: "entry s' (Ent i k) = entry s (Ent i k)"
      using I k by (auto simp: I_def)
    note step = wpg_copy_table_entry [OF vm(1) l [OF k] s(5) vm(2), of F E, unfolded a ei, OF F [OF k]]
    show "wpg F E (copy_table_entry (table_of (entry s (Dir i)) + 4 * of_nat k)
      (page_addr q + 4 * of_nat k)) (\<lambda>_. I (Suc k)) s'"
    proof (rule wpg_post [OF step])
      fix u s'' assume "vm_ok s'' \<and> same_but {Ent i k, Ent j k} s' s'' \<and>
         shows_copy (entry s (Ent i k)) (entry s'' (Ent j k)) \<and>
         (entry s'' (Ent i k) = entry s (Ent i k) \<or> shows_copy (entry s (Ent i k)) (entry s'' (Ent i k)))"
      then have p: "vm_ok s''" "locs s'' = locs s'"
        "\<And>m. m \<in> locs s' \<Longrightarrow> m \<noteq> Ent i k \<Longrightarrow> m \<noteq> Ent j k \<Longrightarrow> entry s'' m = entry s' m"
        "shows_copy (entry s (Ent i k)) (entry s'' (Ent j k))"
        "entry s'' (Ent i k) = entry s (Ent i k) \<or> shows_copy (entry s (Ent i k)) (entry s'' (Ent i k))"
        by (auto simp: same_but_def)
      have "(if m < Suc k then shows_copy (entry s (Ent i m)) (entry s'' (Ent j m)) else entry s'' (Ent j m) = 0) \<and>
        (entry s'' (Ent i m) = entry s (Ent i m) \<or> m < Suc k \<and> shows_copy (entry s (Ent i m)) (entry s'' (Ent i m)))"
        if m: "m < 1024" for m
        using I p(4,5) p(3) [OF l(1) [OF m]] p(3) [OF l(2) [OF m]] m s(4)
        by (cases "m = k") (auto simp: I_def less_Suc_eq)
      moreover have "entry s'' m = entry ?s1 m"
        if m: "m \<in> locs ?s1" "m \<notin> Ent i ` {..<1024}" "m \<notin> Ent j ` {..<1024}" for m
      proof -
        have "m \<noteq> Ent i k" "m \<noteq> Ent j k" using m k by auto
        then have "entry s'' m = entry s' m" using p(3) [of m] m I by (simp add: I_def)
        also have "\<dots> = entry ?s1 m" using I m by (simp add: I_def)
        finally show ?thesis .
      qed
      ultimately show "I (Suc k) s''"
        using I p(1,2) unfolding I_def by simp
    qed
  qed simp
qed

definition touched :: "nat \<Rightarrow> nat \<Rightarrow> nat \<Rightarrow> loc set" where
  "touched n i j = Dir ` {j..<j + n} \<union> {Ent d k | d k. d \<in> {i..<i + n} \<union> {j..<j + n}}"

definition dirs_copied :: "nat \<Rightarrow> nat \<Rightarrow> nat \<Rightarrow> kernel \<Rightarrow> kernel \<Rightarrow> bool" where
  "dirs_copied n i j s s' \<longleftrightarrow>
     (\<forall>d<n. if present (entry s (Dir (i + d)))
        then present (entry s' (Dir (j + d))) \<and>
          (\<forall>k<1024. shows_copy (entry s (Ent (i + d) k)) (entry s' (Ent (j + d) k)) \<and>
            (entry s' (Ent (i + d) k) = entry s (Ent (i + d) k) \<or>
             shows_copy (entry s (Ent (i + d) k)) (entry s' (Ent (i + d) k))))
        else \<not> present (entry s' (Dir (j + d)))) \<and>
     (\<forall>m \<in> locs s - touched n i j. m \<in> locs s' \<and> entry s' m = entry s m)"

lemma loc_addr_Suc: "4 * of_nat i + 4 = (4 * of_nat (Suc i) :: u32)"
  by (simp add: algebra_simps)

lemma dirs_copied_Suc:
  assumes ij: "i + Suc n \<le> j \<or> j + Suc n \<le> i" "{i..<i + Suc n} \<union> {j..<j + Suc n} \<subseteq> udirs"
    and one: "if present (entry s (Dir i)) then dir_copied i j s s1 else \<not> present (entry s (Dir j)) \<and> s1 = s"
    and rest: "dirs_copied n (Suc i) (Suc j) s1 s'"
  shows "dirs_copied (Suc n) i j s s'"
proof -
  have u: "d \<in> udirs" if "i \<le> d \<and> d < i + Suc n \<or> j \<le> d \<and> d < j + Suc n" for d
    using ij(2) that by auto
  have keep: "m \<in> locs s' \<and> entry s' m = entry s1 m" if "m \<in> locs s1" "m \<notin> touched n (Suc i) (Suc j)" for m
    using rest that by (simp add: dirs_copied_def)
  have keep1: "m \<in> locs s1 \<and> entry s1 m = entry s m"
    if "m \<in> locs s" "m \<noteq> Dir j" "\<forall>k. m \<noteq> Ent i k \<and> m \<noteq> Ent j k" for m
    using one that by (auto simp: dir_copied_def split: if_splits)
  have first: "if present (entry s (Dir i))
      then present (entry s' (Dir j)) \<and>
        (\<forall>k<1024. shows_copy (entry s (Ent i k)) (entry s' (Ent j k)) \<and>
          (entry s' (Ent i k) = entry s (Ent i k) \<or> shows_copy (entry s (Ent i k)) (entry s' (Ent i k))))
      else \<not> present (entry s' (Dir j))"
  proof (cases "present (entry s (Dir i))")
    case True
    then have c: "dir_copied i j s s1" using one by simp
    have "Dir j \<in> locs s1" "Dir j \<notin> touched n (Suc i) (Suc j)" using u [of j] by (auto simp: touched_def)
    then have "entry s' (Dir j) = entry s1 (Dir j)" using keep by blast
    moreover have "entry s' (Ent d k) = entry s1 (Ent d k)" if "d = i \<or> d = j" "k < 1024" for d k
    proof -
      have "Ent d k \<in> locs s1" using c that True u [of i] by (auto simp: dir_copied_def Ent_in_locs)
      moreover have "Ent d k \<notin> touched n (Suc i) (Suc j)" using that ij(1) by (auto simp: touched_def)
      ultimately show ?thesis using keep by blast
    qed
    ultimately show ?thesis using c True by (simp add: dir_copied_def)
  next
    case False
    then have "s1 = s" "\<not> present (entry s (Dir j))" using one by simp_all
    moreover have "Dir j \<in> locs s" "Dir j \<notin> touched n (Suc i) (Suc j)" using u [of j] by (auto simp: touched_def)
    ultimately show ?thesis using keep [of "Dir j"] False by simp
  qed
  have later: "entry s1 (Dir (Suc i + d)) = entry s (Dir (Suc i + d)) \<and>
      (present (entry s (Dir (Suc i + d))) \<longrightarrow>
        (\<forall>k<1024. entry s1 (Ent (Suc i + d) k) = entry s (Ent (Suc i + d) k)))" if "d < n" for d
  proof -
    have ne: "Suc i + d \<noteq> j" "Suc i + d \<in> udirs" using that ij(1) u by auto
    then have "entry s1 (Dir (Suc i + d)) = entry s (Dir (Suc i + d))" using keep1 [of "Dir (Suc i + d)"] by simp
    moreover have "entry s1 (Ent (Suc i + d) k) = entry s (Ent (Suc i + d) k)"
      if "present (entry s (Dir (Suc i + d)))" "k < 1024" for k
      using keep1 [of "Ent (Suc i + d) k"] that ne by (simp add: Ent_in_locs)
    ultimately show ?thesis by blast
  qed
  have all: "if present (entry s (Dir (i + d)))
        then present (entry s' (Dir (j + d))) \<and>
          (\<forall>k<1024. shows_copy (entry s (Ent (i + d) k)) (entry s' (Ent (j + d) k)) \<and>
            (entry s' (Ent (i + d) k) = entry s (Ent (i + d) k) \<or>
             shows_copy (entry s (Ent (i + d) k)) (entry s' (Ent (i + d) k))))
        else \<not> present (entry s' (Dir (j + d)))" if d: "d < Suc n" for d
  proof (cases d)
    case 0
    then show ?thesis using first by simp
  next
    case (Suc e)
    then have e: "e < n" using d by simp
    note r = rest [unfolded dirs_copied_def, THEN conjunct1, rule_format, OF e]
    show ?thesis using r later [OF e] Suc by (cases "present (entry s (Dir (Suc i + e)))") simp_all
  qed
  have frame: "m \<in> locs s' \<and> entry s' m = entry s m" if m: "m \<in> locs s" "m \<notin> touched (Suc n) i j" for m
  proof -
    have "m \<in> locs s1 \<and> entry s1 m = entry s m"
      using m by (intro keep1) (auto simp: touched_def)
    moreover have "m \<notin> touched n (Suc i) (Suc j)" using m by (auto simp: touched_def)
    ultimately show ?thesis using keep [of m] by simp
  qed
  show ?thesis
    unfolding dirs_copied_def using all frame by blast
qed


lemma wpg_copy_dirs:
  assumes "vm_ok s" "i + n \<le> j \<or> j + n \<le> i" "{i..<i + n} \<union> {j..<j + n} \<subseteq> udirs" "i mod 16 = j mod 16"
  shows "wpg any_stop E (copy_dir_entries n 1024 (4 * of_nat i) (4 * of_nat j))
    (\<lambda>r s'. vm_ok s' \<and> (r = 0 \<longrightarrow> dirs_copied n i j s s')) s"
  using assms
proof (induction n arbitrary: i j s)
  case 0
  then show ?case by (auto intro!: wpr simp: dirs_copied_def)
next
  case (Suc n)
  have u: "i \<in> udirs" "j \<in> udirs" "i \<noteq> j" using Suc.prems by auto
  have e: "phys s (4 * of_nat i) = entry s (Dir i)" "phys s (4 * of_nat j) = entry s (Dir j)"
    by (simp_all add: entry_def loc_addr.simps)
  have rest: "wpg any_stop E (copy_dir_entries n 1024 (4 * of_nat i + 4) (4 * of_nat j + 4))
      (\<lambda>r s'. vm_ok s' \<and> (r = 0 \<longrightarrow> dirs_copied (Suc n) i j s s')) s1"
    if vm: "vm_ok s1"
      and one: "if present (entry s (Dir i)) then dir_copied i j s s1 else \<not> present (entry s (Dir j)) \<and> s1 = s" for s1
  proof -
    have "wpg any_stop E (copy_dir_entries n 1024 (4 * of_nat (Suc i)) (4 * of_nat (Suc j)))
      (\<lambda>r s'. vm_ok s' \<and> (r = 0 \<longrightarrow> dirs_copied n (Suc i) (Suc j) s1 s')) s1"
    proof (rule Suc.IH [OF vm])
      show "Suc i mod 16 = Suc j mod 16" using Suc.prems(4) by (simp add: mod_Suc)
    qed (use Suc.prems in auto)
    then show ?thesis
      unfolding loc_addr_Suc by (rule wpg_post) (use dirs_copied_Suc [OF Suc.prems(2,3) one] in auto)
  qed
  show ?case
    unfolding copy_dir_entries.simps e
  proof (intro wpg_bnd wpg_gets wpg_if wpg_stop wpg_get_free_page wpg_ret wpg_seq wpg_block wpg_modify any_stop; (unfold e)?)
    assume "\<not> present (entry s (Dir j))" "entry s (Dir i) AND 1 = 0"
    then show "wpg any_stop E (copy_dir_entries n 1024 (4 * of_nat i + 4) (4 * of_nat j + 4))
      (\<lambda>r s'. vm_ok s' \<and> (r = 0 \<longrightarrow> dirs_copied (Suc n) i j s s')) s"
      using Suc.prems(1) by (intro rest) simp_all
  next
    fix q assume d: "\<not> present (entry s (Dir j))" "entry s (Dir i) AND 1 \<noteq> 0"
      and q: "q < PAGING_PAGES" "mem_map s q = 0"
    show "wpg any_stop E (for_each [0..<1024] (\<lambda>k. copy_table_entry (table_of (entry s (Dir i)) + 4 * of_nat k)
        (page_addr q + 4 * of_nat k)))
      (\<lambda>_ s'. wpg any_stop E (block []) (\<lambda>_. wpg any_stop E (copy_dir_entries n 1024 (4 * of_nat i + 4) (4 * of_nat j + 4))
        (\<lambda>r s'. vm_ok s' \<and> (r = 0 \<longrightarrow> dirs_copied (Suc n) i j s s'))) s')
      (set_word (4 * of_nat j) (page_addr q OR 7) (taken q s))"
      by (rule wpg_post [OF wpg_copy_dir [OF Suc.prems(1) u Suc.prems(4) d(2,1) q any_stop]], rule wpg_block(1), rule rest) (use d in auto)
  qed (use Suc.prems(1) page_addr_props(4) in auto)
qed

lemma wpg_copy_low:
  assumes s: "vm_ok s" "j \<in> udirs"
  shows "wpg any_stop E (copy_dir_entries 1 160 0 (4 * of_nat j)) (\<lambda>_. vm_ok) s"
proof -
  have e: "phys s (4 * of_nat j) = entry s (Dir j)" by (simp add: entry_def loc_addr.simps)
  have loop: "wpg any_stop E (for_each [0..<160] (\<lambda>k. copy_table_entry (table_of (phys s 0) + 4 * of_nat k)
      (page_addr q + 4 * of_nat k))) (\<lambda>_. vm_ok)
    (set_word (4 * of_nat j) (page_addr q OR 7) (taken q s))"
    if d: "\<not> present (entry s (Dir j))" and q: "q < PAGING_PAGES" "mem_map s q = 0" for q
  proof -
    note h = hang_table [OF s d q]
    let ?s1 = "set_word (4 * of_nat j) (page_addr q OR 7) (taken q s)"
    define I where "I n s' \<longleftrightarrow> vm_ok s' \<and> locs s' = locs ?s1 \<and> phys s' 0 = phys s 0 \<and>
      entry s' (Dir j) = page_addr q OR 7 \<and> (\<forall>k<1024. n \<le> k \<longrightarrow> entry s' (Ent j k) = 0)" for n s'
    have z: "phys ?s1 0 = phys s 0"
    proof -
      have "0 \<notin> page_words (page_addr q)"
        using page_frame_ne [OF page_addr_props(1) [OF q(1)], of 0] page_addr_props(2,3) [OF q(1)]
        by (simp add: managed_def)
      moreover have "(4 * of_nat j :: u32) \<noteq> 0" using dir_addr_inj [of j 0] s(2) by (simp add: udirs_def)
      ultimately show ?thesis using taken_props(7) [OF s(1) q] by (simp add: phys_set_word)
    qed
    show ?thesis
    proof (rule wpg_for_upt [where I = I])
      show "I 0 ?s1" using h z by (simp add: I_def)
      show "vm_ok s'" if "I 160 s'" for s' using that by (simp add: I_def)
      fix k s' assume k: "k < 160" and I: "I k s'"
      have dj: "entry s' (Dir j) = page_addr q OR 7" using I by (simp add: I_def)
      have l: "Ent j k \<in> locs s'" unfolding Ent_in_locs dj using k s(2) by simp
      have a: "loc_addr s' (Ent j k) = page_addr q + 4 * of_nat k"
        using I h(6) by (simp add: I_def loc_addr_Ent)
      have vm: "vm_ok s'" "\<not> present (entry s' (Ent j k))" using I k by (simp_all add: I_def)
      have "frame (phys s' (table_of (phys s 0) + 4 * of_nat k)) < 256"
        using vm(1) I k by (simp add: vm_ok_def low_ok_def I_def)
      note step = wpg_copy_low_entry [OF vm(1) l vm(2) this, of E, unfolded a]
      show "wpg any_stop E (copy_table_entry (table_of (phys s 0) + 4 * of_nat k) (page_addr q + 4 * of_nat k))
        (\<lambda>_. I (Suc k)) s'"
      proof (rule wpg_post [OF step])
        fix u s'' assume p: "vm_ok s'' \<and> same_but {Ent j k} s' s'' \<and> phys s'' 0 = phys s' 0"
        have "entry s'' (Ent j m) = 0" if "m < 1024" "Suc k \<le> m" for m
        proof -
          have "Ent j m \<in> locs s'" unfolding Ent_in_locs dj using that s(2) by simp
          then show ?thesis using p that I by (simp add: same_but_def I_def)
        qed
        moreover have "entry s'' (Dir j) = page_addr q OR 7" using p I s(2) by (simp add: same_but_def I_def)
        ultimately show "I (Suc k) s''" using p I by (simp add: I_def same_but_def)
      qed
    qed simp
  qed
  show ?thesis
    unfolding One_nat_def copy_dir_entries.simps e
    by (intro wpg_bnd wpg_gets wpg_if wpg_stop wpg_get_free_page wpg_ret wpg_seq wpg_block(2) wpg_modify any_stop
          wpg_post [OF loop [unfolded One_nat_def]] wpg_block(1); (unfold e)?)
      (use s(1) page_addr_props(4) in auto)
qed

text \<open>The base address of the 64 MB that a task number has, and its directory entries.\<close>

definition task_base :: "nat \<Rightarrow> u32" where
  "task_base n = of_nat (n * 0x4000000)"

lemma unat_task_base: "n < 64 \<Longrightarrow> unat (task_base n) = n * 67108864"
  by (simp add: task_base_def unat_word_ariths unat_of_nat)

lemma dirix_task_base: "n < 64 \<Longrightarrow> dirix (task_base n) = 16 * n"
  by (simp add: dirix_def unat_task_base)

lemma mask_22: "(a :: u32) AND 0x3fffff = of_nat (unat a mod 4194304)"
proof -
  have m: "(0x3fffff :: u32) = mask 22" by (simp add: mask_eq_exp_minus_1)
  have "unat (a AND mask 22) = unat a mod 4194304"
    unfolding take_bit_eq_mask [symmetric] by (simp add: unsigned_take_bit_eq take_bit_eq_mod unat_mod)
  moreover have "unat a mod 4194304 < 4294967296"
    by (rule less_trans [of _ 4194304]) simp_all
  ultimately show ?thesis
    unfolding m by (intro word_unat_eq_iff [THEN iffD2]) (simp add: unat_of_nat)
qed

lemma task_base_aligned: "n < 64 \<Longrightarrow> task_base n AND 0x3fffff = 0"
  by (simp add: mask_22 unat_task_base)

lemma dirs_of_size: "unat (drop_bit 22 (sz + 0x3fffff :: u32)) \<le> 16" if "unat sz \<le> 67108864"
  using that by (simp add: drop_bit_eq_div unat_div unat_word_ariths less_mult_imp_div_less [of _ 17] less_Suc_eq_le [symmetric])

lemma dirs_of_small_size: "unat (drop_bit 22 (sz + 0x3fffff :: u32)) \<le> 1" if "unat sz \<le> 4194304"
  using that by (simp add: drop_bit_eq_div unat_div unat_word_ariths less_mult_imp_div_less [of _ 2] less_Suc_eq_le [symmetric])

lemma wpg_copy_page_tables:
  assumes s: "vm_ok s" and p: "p < 64" "c < 64" "0 < c" "p \<noteq> c"
    and sz: "unat sz \<le> 67108864" "p = 0 \<Longrightarrow> unat sz \<le> 4194304"
  shows "wpg any_stop E (copy_page_tables (task_base p) (task_base c) sz)
    (\<lambda>r s'. vm_ok s' \<and> (0 < p \<longrightarrow> r = 0 \<longrightarrow>
       dirs_copied (unat (drop_bit 22 (sz + 0x3fffff))) (16 * p) (16 * c) s s')) s"
proof (cases "p = 0")
  case True
  let ?n = "unat (drop_bit 22 (sz + 0x3fffff))"
  have "?n = 0 \<or> ?n = 1" using dirs_of_small_size [OF sz(2) [OF True]] by auto
  moreover have c: "16 * c \<in> udirs" using p by (simp add: udirs_def)
  ultimately have "wpg any_stop E (copy_dir_entries ?n 160 0 (4 * of_nat (16 * c))) (\<lambda>_. vm_ok) s"
    using wpg_copy_low [OF s c, of E] s by (auto intro!: wpr)
  moreover have "task_base p = 0" using True by (simp add: task_base_def)
  ultimately show ?thesis
    unfolding copy_page_tables_def dir_addr_of
    using True p by (simp add: task_base_aligned dirix_task_base dirix_def [of 0])
next
  case False
  let ?n = "unat (drop_bit 22 (sz + 0x3fffff))"
  have n: "?n \<le> 16" by (rule dirs_of_size [OF sz(1)])
  have "16 * p + ?n \<le> 16 * c \<or> 16 * c + ?n \<le> 16 * p" using n p by linarith
  moreover have "{16 * p..<16 * p + ?n} \<union> {16 * c..<16 * c + ?n} \<subseteq> udirs"
    using n p False by (auto simp: udirs_def)
  ultimately have "wpg any_stop E (copy_dir_entries ?n 1024 (4 * of_nat (16 * p)) (4 * of_nat (16 * c)))
    (\<lambda>r s'. vm_ok s' \<and> (r = 0 \<longrightarrow> dirs_copied ?n (16 * p) (16 * c) s s')) s"
    by (rule wpg_copy_dirs [OF s]) simp
  then have "wpg any_stop E (copy_dir_entries ?n 1024 (4 * of_nat (16 * p)) (4 * of_nat (16 * c)))
    (\<lambda>r s'. vm_ok s' \<and> (0 < p \<longrightarrow> r = 0 \<longrightarrow> dirs_copied ?n (16 * p) (16 * c) s s')) s"
    by (rule wpg_post) simp
  moreover have "task_base p \<noteq> 0" using False unat_task_base [OF p(1)] by auto
  ultimately show ?thesis
    unfolding copy_page_tables_def dir_addr_of
    by (simp add: p task_base_aligned dirix_task_base)
qed

lemma wpg_free_page_tables:
  assumes s: "vm_ok s" and c: "c < 64" "0 < c" and sz: "unat sz \<le> 67108864" and F: "sure F s"
  shows "wpg F E (free_page_tables (task_base c) sz)
    (\<lambda>r s'. vm_ok s' \<and> r = 0 \<and>
      (\<forall>i \<in> udirs. if 16 * c \<le> i \<and> i < 16 * c + unat (drop_bit 22 (sz + 0x3fffff))
        then \<not> present (entry s' (Dir i)) else entry s' (Dir i) = entry s (Dir i))) s"
proof -
  let ?n = "unat (drop_bit 22 (sz + 0x3fffff))"
  have n: "?n \<le> 16" by (rule dirs_of_size [OF sz])
  define I where "I k s' \<longleftrightarrow> vm_ok s' \<and> (\<forall>i \<in> udirs. if 16 * c \<le> i \<and> i < 16 * c + k
     then \<not> present (entry s' (Dir i)) else entry s' (Dir i) = entry s (Dir i)) \<and> (high_ok s \<longrightarrow> high_ok s')" for k s'
  have a: "(4 * of_nat (16 * c) + 4 * of_nat k :: u32) = 4 * of_nat (16 * c + k)" for k
    by (simp add: algebra_simps)
  have "task_base c \<noteq> 0" using c unat_task_base [OF c(1)] by auto
  moreover have "wpg F E (for_each [0..<?n] (\<lambda>k. free_dir_entry (4 * of_nat (16 * c) + 4 * of_nat k)))
      (\<lambda>_ s'. I ?n s') s"
  proof (rule wpg_for_upt [where I = I])
    show "I 0 s" using s by (auto simp: I_def)
    fix k s' assume k: "k < ?n" and I: "I k s'"
    have u: "16 * c + k \<in> udirs" using k n c by (simp add: udirs_def)
    have "vm_ok s'" using I by (simp add: I_def)
    moreover have "sure F s'" using F I by (auto simp: sure_def I_def)
    ultimately have step: "wpg F E (free_dir_entry (4 * of_nat (16 * c + k)))
      (\<lambda>_ s''. vm_ok s'' \<and> \<not> present (entry s'' (Dir (16 * c + k))) \<and>
        (\<forall>j \<in> udirs - {16 * c + k}. entry s'' (Dir j) = entry s' (Dir j)) \<and> (high_ok s' \<longrightarrow> high_ok s'')) s'"
      by (intro wpg_free_dir_entry u)
    show "wpg F E (free_dir_entry (4 * of_nat (16 * c) + 4 * of_nat k)) (\<lambda>_. I (Suc k)) s'"
      unfolding a
    proof (rule wpg_post [OF step])
      fix u s'' assume p: "vm_ok s'' \<and> \<not> present (entry s'' (Dir (16 * c + k))) \<and>
        (\<forall>j \<in> udirs - {16 * c + k}. entry s'' (Dir j) = entry s' (Dir j)) \<and> (high_ok s' \<longrightarrow> high_ok s'')"
      have "if 16 * c \<le> i \<and> i < 16 * c + Suc k then \<not> present (entry s'' (Dir i))
        else entry s'' (Dir i) = entry s (Dir i)" if "i \<in> udirs" for i
        using p I that by (cases "i = 16 * c + k") (auto simp: I_def less_Suc_eq)
      then show "I (Suc k) s''" using p I by (simp add: I_def)
    qed
  qed simp_all
  ultimately show ?thesis
    unfolding free_page_tables_def dir_addr_of
    by (auto intro!: wpg_seq wpg_ret elim!: wpg_post simp: c task_base_aligned dirix_task_base I_def)
qed


lemma wp_bits: "3 AND (e :: u32) = 1 \<longleftrightarrow> present e \<and> \<not> writable e"
proof -
  have "(3 :: u32) = mask 2" by (simp add: mask_eq_exp_minus_1)
  then have "3 AND e = take_bit 2 e" by (simp add: take_bit_eq_mask and.commute)
  also have "\<dots> = of_bool (bit e 0) + 2 * of_bool (bit e 1)"
    by (rule bit_word_eqI) (auto simp: bit_simps numeral_2_eq_2 less_Suc_eq)
  finally show ?thesis by (auto simp: present_bit writable_bit)
qed

lemma wpg_write_verify:
  assumes s: "vm_ok s" and a: "dirix a \<in> udirs"
  shows "wpg any_stop E (write_verify a) (\<lambda>_ s'. vm_ok s' \<and>
    (if ent_of_addr a \<in> locs s \<and> present (entry s (ent_of_addr a))
     then unprotected (ent_of_addr a) s s' else s' = s)) s"
proof -
  let ?l = "ent_of_addr a" and ?d = "entry s (Dir (dirix a))"
  have d: "phys s (4 * of_nat (dirix a)) = ?d" by (simp add: entry_def loc_addr.simps)
  have la: "table_of ?d + 4 * of_nat (entix a) = loc_addr s ?l" by (simp add: loc_addr_Ent)
  have l: "?l \<in> locs s \<longleftrightarrow> present ?d" using a by (simp add: Ent_in_locs)
  have e: "phys s (loc_addr s ?l) = entry s ?l" by (simp add: entry_def)
  have un: "wpg any_stop E (un_wp_page (loc_addr s ?l)) (\<lambda>_ s'. vm_ok s' \<and>
    (if ?l \<in> locs s \<and> present (entry s ?l) then unprotected ?l s s' else s' = s)) s"
    if "present ?d" "present (entry s ?l)"
    using that l by (intro wpg_post [OF wpg_un_wp_page [OF s]]) simp_all
  have id: "unprotected ?l s s" if "present (entry s ?l)" "writable (entry s ?l)"
    using that by (simp add: unprotected_def)
  show ?thesis
    unfolding write_verify_def Let_def dir_addr_of ent_addr_of
    by (intro wpg_bnd wpg_gets wpg_if wpg_ret wpg_guardK; (unfold d la e wp_bits)?)
      (use un id l s in auto)
qed

lemma wpg_do_wp_page:
  assumes s: "vm_ok s" "ent_of_addr a \<in> locs s" "present (entry s (ent_of_addr a))"
    and F: "free_pages s = {} \<Longrightarrow> F (Exited (int SIGSEGV))" "4096 \<le> frame (entry s (ent_of_addr a)) \<Longrightarrow> F Wild"
  shows "wpg F E (do_wp_page err a) (\<lambda>_ s'. vm_ok s' \<and> unprotected (ent_of_addr a) s s' \<and>
    (frame (entry s (ent_of_addr a)) < 4096 \<longrightarrow> managed (frame (entry s' (ent_of_addr a))))) s"
proof -
  let ?l = "ent_of_addr a" and ?d = "entry s (Dir (dirix a))"
  have d: "phys s (4 * of_nat (dirix a)) = ?d" by (simp add: entry_def loc_addr.simps)
  have "4 * of_nat (entix a) + (0xfffff000 AND ?d) = loc_addr s ?l"
    by (simp add: loc_addr_Ent and.commute add.commute)
  then show ?thesis
    unfolding do_wp_page_def dir_addr_of ent_addr_of
    by (intro wpr) (simp add: d wpg_un_wp_page [OF s F])
qed

lemma wpg_get_empty_page:
  assumes s: "vm_ok s" "dirix a \<in> udirs"
    and e: "ent_of_addr a \<in> locs s \<Longrightarrow> \<not> present (entry s (ent_of_addr a))"
  shows "wpg any_stop E (get_empty_page a) (\<lambda>_ s'. vm_ok s' \<and> ent_of_addr a \<in> locs s' \<and>
    writable (entry s' (ent_of_addr a)) \<and> present (entry s' (ent_of_addr a))) s"
proof -
  have put: "wpg any_stop E (put_page (page_addr q) a) (\<lambda>r s'. vm_ok s' \<and>
      (r = 0 \<and> s' = taken q s \<or> r = page_addr q \<and> mapped_to a (page_addr q) (taken q s) s')) (taken q s)"
    if q: "q < PAGING_PAGES" "mem_map s q = 0" for q
  proof -
    note t = taken_props [OF s(1) q] and pp = page_addr_props [OF q(1)]
    show ?thesis
      by (rule wpg_put_page [OF t(1) s(2)]) (use e t pp in auto)
  qed
  show ?thesis
    unfolding get_empty_page_def
    by (intro wpg_bnd wpg_get_free_page wpg_if wpg_seq wpg_free_page wpg_oom any_stop allI wpg_post [OF put] wpg_ret)
      (use page_addr_props(4) s in \<open>auto simp: mapped_to_def managed_def\<close>)
qed

lemma set_word_commute: "a \<noteq> b \<Longrightarrow> set_word a v (set_word b w s) = set_word b w (set_word a v s)"
  by (simp add: set_word_def fun_upd_twist)

lemma clean_present: "e AND 0x41 = 1 \<Longrightarrow> present (e :: u32)"
proof -
  assume "e AND 0x41 = 1"
  then have "(e AND 0x41) AND 1 = 1 AND 1" by simp
  then show ?thesis by (simp add: and.assoc)
qed

lemma share_step:
  assumes s: "vm_ok s" "Ent i k \<in> locs s" "Ent j k \<in> locs s" "i mod 16 = j mod 16"
    and e: "present (entry s (Ent i k))" and t: "\<not> present (entry s (Ent j k))"
    and f: "loc_addr s (Ent i k) = fa" "loc_addr s (Ent j k) = ta" "table_of (entry s (Ent i k)) = pa" "\<not> pa < LOW_MEM"
  shows "wpg any_stop E (seq (block
      [modify (\<lambda>s. set_word fa (phys s fa AND NOT 2) s),
       modify (\<lambda>s. set_word ta (phys s fa) s),
       mem_map_add (MAP_NR pa) 1]) (ret (1 :: int))) (\<lambda>_. vm_ok) s"
proof -
  let ?e = "entry s (Ent i k)"
  have fe: "phys s fa = ?e" using f(1) by (simp add: entry_def)
  have na: "fa \<noteq> ta"
    using loc_addr_inj [OF vm_shape [OF s(1)] s(2,3)] e t f(1,2) by auto
  have low: "256 \<le> frame ?e" using f(3,4) low_mem_frame [of "table_of ?e"] by auto
  have nr: "MAP_NR pa = frame ?e - 256" using low MAP_NR_table f(3) by auto
  have "shared_with (Ent i k) (Ent j k) s (set_map (frame ?e - 256) (mem_map s (frame ?e - 256) + 1)
     (set_word ta (?e AND NOT 2) (set_word fa (?e AND NOT 2) s)))" if "managed (frame ?e)"
    using share_entries [OF s e that t] na by (simp only: f(1,2) set_word_commute [OF na])
  then show ?thesis
    by (intro wpg_seq wpg_block wpg_modify wpg_mem_map_add wpg_ret any_stop)
      (use na low in \<open>auto simp: phys_set_word fe nr managed_index shared_with_def\<close>)
qed

lemma wpg_try_to_share:
  assumes s: "vm_ok s" and n: "start_code (tsk s p) = task_base n" "0 < n" "n < 64"
    and m: "start_code (cur s) = task_base m" "0 < m" "m < 64" "n \<noteq> m"
    and a: "unat address < 67108864"
  shows "wpg any_stop E (try_to_share address p) (\<lambda>_. vm_ok) s"
proof -
  let ?i = "16 * n + dirix address" and ?j = "16 * m + dirix address" and ?k = "entix address"
  have da: "dirix address < 16" using a by (simp add: dirix_def less_mult_imp_div_less)
  then have u: "?i \<in> udirs" "?j \<in> udirs" using n m by (simp_all add: udirs_def)
  have ij: "?i \<noteq> ?j" "?i mod 16 = ?j mod 16" using m da by simp_all
  have ad: "(4 * of_nat (dirix address) + 4 * of_nat (16 * x) :: u32) = 4 * of_nat (16 * x + dirix address)" for x
    by (simp add: algebra_simps)
  have di: "phys s' (4 * of_nat i) = entry s' (Dir i)" for s' i by (simp add: entry_def loc_addr.simps)
  have ea: "table_of (entry s' (Dir i)) + 4 * of_nat ?k = loc_addr s' (Ent i ?k)" for s' i by (simp add: loc_addr_Ent)
  have ee: "phys s' (loc_addr s' l) = entry s' l" for s' l by (simp add: entry_def)
  let ?f = "Ent ?i ?k" and ?t = "Ent ?j ?k"
  have share: "wpg any_stop E (seq (block
      [modify (\<lambda>s. set_word fa (phys s fa AND NOT 2) s),
       modify (\<lambda>s. set_word ta (phys s fa) s),
       mem_map_add (MAP_NR (table_of (entry s ?f))) 1]) (ret (1 :: int))) (\<lambda>_. vm_ok) s'"
    if "vm_ok s'" "?f \<in> locs s'" "?t \<in> locs s'" "entry s' ?f = entry s ?f" "\<not> present (phys s' ta)"
      "entry s ?f AND 0x41 = 1" "\<not> table_of (entry s ?f) < LOW_MEM"
      "loc_addr s' ?f = fa" "loc_addr s' ?t = ta" for s' fa ta
    using that clean_present [of "entry s ?f"]
    by (intro share_step [OF that(1-3) ij(2)]) (auto simp: entry_def)
  have new: "wpg any_stop E (seq (block
      [modify (\<lambda>s. set_word fa (phys s fa AND NOT 2) s),
       modify (\<lambda>s. set_word (table_of (page_addr q) + 4 * of_nat ?k) (phys s fa) s),
       mem_map_add (MAP_NR (table_of (entry s ?f))) 1]) (ret (1 :: int)))
      (\<lambda>_. vm_ok) (set_word (4 * of_nat ?j) (page_addr q OR 7) (taken q s))"
    if "present (entry s (Dir ?i))" "\<not> present (entry s (Dir ?j))" "q < PAGING_PAGES" "mem_map s q = 0"
      "entry s ?f AND 0x41 = 1" "\<not> table_of (entry s ?f) < LOW_MEM" "fa = loc_addr s ?f" for q fa
  proof -
    note h = hang_table [OF s u(2) that(2-4)]
    let ?s1 = "set_word (4 * of_nat ?j) (page_addr q OR 7) (taken q s)"
    have f: "?f \<in> locs s" using that u by (simp add: Ent_in_locs)
    have fs: "?f \<in> locs ?s1" "entry ?s1 ?f = entry s ?f" using h(2,3) f by auto
    have dis: "entry ?s1 (Dir ?i) = entry s (Dir ?i)" using h(3) [of "Dir ?i"] u ij(1) by simp
    have fa: "loc_addr ?s1 ?f = fa" unfolding loc_addr_Ent dis that(7) ..
    have "table_of (page_addr q) = page_addr q"
      by (rule aligned_frame_eq) (use page_addr_props(1) [OF that(3)] in simp_all)
    then have ta: "loc_addr ?s1 ?t = table_of (page_addr q) + 4 * of_nat ?k"
      unfolding loc_addr_Ent h(5,6) by simp
    have t: "?t \<in> locs ?s1" "entry ?s1 ?t = 0" using h(2) h(4) by simp_all
    then have "\<not> present (phys ?s1 (table_of (page_addr q) + 4 * of_nat ?k))"
      using ta by (simp add: entry_def)
    then show ?thesis by (intro share h(1) fs that t(1) fa ta)
  qed
  have f: "?f \<in> locs s" if "present (entry s (Dir ?i))" using that u by (simp add: Ent_in_locs)
  have t: "?t \<in> locs s" if "present (entry s (Dir ?j))" using that u by (simp add: Ent_in_locs)
  show ?thesis
    unfolding try_to_share_def Let_def dir_addr_of ent_addr_of
    by (intro wpg_bnd wpg_gets, unfold n(1) m(1) dirix_task_base [OF n(3)] dirix_task_base [OF m(3)] ad,
      intro wpg_bnd wpg_gets wpg_if wpg_ret wpg_get_free_page wpg_oom wpg_stop any_stop wpg_seq [OF wpg_modify] s;
      (unfold di ea ee)?; (rule new s share)?)
      (use f t s page_addr_props(4) in \<open>auto simp: ee\<close>)
qed

text \<open>The memory system at boot: no user page tables, and the counters of \<open>mem_init\<close>.\<close>

definition vm_boot :: "kernel \<Rightarrow> bool" where
  "vm_boot s \<longleftrightarrow> (\<forall>i \<in> udirs. \<not> present (entry s (Dir i))) \<and> low_ok s \<and>
     (\<forall>i < PAGING_PAGES. mem_map s i = 0 \<or> mem_map s i = USED)"

lemma vm_boot_ok: "vm_boot s \<Longrightarrow> vm_ok s"
proof -
  assume b: "vm_boot s"
  then have "locs s = Dir ` udirs" by (auto simp: locs_def vm_boot_def)
  then have r: "refs s f = {}" for f using b by (auto simp: refs_def vm_boot_def)
  have "page_count s f \<le> 100" if "managed f" for f
    using b that managed_index [of f] unfolding vm_boot_def page_count_def
    by (cases "mem_map s (f - 256) = 0") (auto simp: USED_def managed_def)
  then show ?thesis
    using b by (simp add: vm_ok_def tables_ok_def counts_ok_def cow_ok_def slots_ok_def r vm_boot_def)
qed

text \<open>
  The steps of the memory system: the calls that kernel/fork.c, kernel/exit.c, fs/exec.c and
  the page-fault handlers make, with the arguments they make them with, and a store by a
  user program through a writable entry.
\<close>

inductive vm_step :: "kernel \<Rightarrow> kernel \<Rightarrow> bool" where
  fork: "p < 64 \<Longrightarrow> c < 64 \<Longrightarrow> 0 < c \<Longrightarrow> p \<noteq> c \<Longrightarrow> unat sz \<le> 0x4000000 \<Longrightarrow> (p = 0 \<longrightarrow> unat sz \<le> 0x400000) \<Longrightarrow>
    copy_page_tables (task_base p) (task_base c) sz s es = Ret r s' es' \<Longrightarrow> vm_step s s'"
| exit: "c < 64 \<Longrightarrow> 0 < c \<Longrightarrow> unat sz \<le> 0x4000000 \<Longrightarrow>
    free_page_tables (task_base c) sz s es = Ret r s' es' \<Longrightarrow> vm_step s s'"
| no_page: "dirix a \<in> udirs \<Longrightarrow> ent_of_addr a \<notin> locs s \<or> \<not> present (entry s (ent_of_addr a)) \<Longrightarrow>
    get_empty_page a s es = Ret u s' es' \<Longrightarrow> vm_step s s'"
| map_page: "dirix a \<in> udirs \<Longrightarrow> ent_of_addr a \<notin> locs s \<or> \<not> present (entry s (ent_of_addr a)) \<Longrightarrow>
    unat p mod 4096 = 0 \<Longrightarrow> managed (frame p) \<Longrightarrow> refs s (frame p) = {} \<Longrightarrow> 0 < page_count s (frame p) \<Longrightarrow>
    put_page p a s es = Ret r s' es' \<Longrightarrow> vm_step s s'"
| wp_page: "dirix a \<in> udirs \<Longrightarrow> ent_of_addr a \<in> locs s \<Longrightarrow> present (entry s (ent_of_addr a)) \<Longrightarrow>
    do_wp_page err a s es = Ret u s' es' \<Longrightarrow> vm_step s s'"
| verify: "dirix a \<in> udirs \<Longrightarrow> write_verify a s es = Ret u s' es' \<Longrightarrow> vm_step s s'"
| share: "start_code (tsk s q) = task_base n \<Longrightarrow> 0 < n \<Longrightarrow> n < 64 \<Longrightarrow>
    start_code (cur s) = task_base m \<Longrightarrow> 0 < m \<Longrightarrow> m < 64 \<Longrightarrow> n \<noteq> m \<Longrightarrow> unat a < 0x4000000 \<Longrightarrow>
    try_to_share a q s es = Ret r s' es' \<Longrightarrow> vm_step s s'"
| take: "get_free_page s es = Ret p s' es' \<Longrightarrow> vm_step s s'"
| drop: "refs s (frame p) = {} \<Longrightarrow> free_page p s es = Ret u s' es' \<Longrightarrow> vm_step s s'"
| store: "l \<in> refs s (frame p) \<Longrightarrow> managed (frame p) \<Longrightarrow> writable (entry s l) \<Longrightarrow> \<forall>i. l \<noteq> Dir i \<Longrightarrow>
    a \<in> page_words (table_of p) \<Longrightarrow> vm_step s (set_word a w s)"

inductive vm_reachable :: "kernel \<Rightarrow> bool" where
  boot: "vm_boot s \<Longrightarrow> vm_reachable s"
| step: "vm_reachable s \<Longrightarrow> vm_step s s' \<Longrightarrow> vm_reachable s'"

lemma vm_free_page_ok:
  assumes s: "vm_ok s" and r: "refs s (frame p) = {}"
  shows "wpg any_stop E (free_page p) (\<lambda>_. vm_ok) s"
proof (rule wpg_free_page)
  assume m: "managed (frame p)" and c: "page_count s (frame p) \<noteq> 0"
  have "mem_map s (frame p - 256) \<noteq> 0" using c by (auto simp: page_count_def)
  then have "unat (mem_map s (frame p - 256) - 1) = page_count s (frame p) - 1"
    by (simp add: unat_minus_one page_count_def)
  then show "vm_ok (set_map (frame p - 256) (mem_map s (frame p - 256) - 1) s)"
    using vm_counts [OF s m] r by (intro vm_set_map [OF s m]) (simp_all add: r)
qed (simp_all add: s)

lemma vm_store_ok:
  assumes s: "vm_ok s" and l: "l \<in> refs s (frame p)" "managed (frame p)" "writable (entry s l)" "\<forall>i. l \<noteq> Dir i"
    and a: "a \<in> page_words (table_of p)"
  shows "vm_ok (set_word a w s)"
proof (rule vm_off_page [OF s table_aligned])
  have "refs s (frame p) = {l}" by (rule cowD [OF s l(2,1,3)])
  then show "Dir i \<notin> refs s (frame (table_of p))" for i using l(4) by auto
  show "phys (set_word a w s) b = phys s b" if "b \<notin> page_words (table_of p)" for b
    using a that by (auto simp: phys_set_word)
qed (use l vm_counts [OF s] in simp_all)

lemma vm_step_ok:
  assumes "vm_step s s'" and s: "vm_ok s"
  shows "vm_ok s'"
  using assms(1)
proof cases
  case (fork p c sz es r es')
  then have *: "wpg any_stop UNIV (copy_page_tables (task_base p) (task_base c) sz) (\<lambda>_. vm_ok) s"
    by (intro wpg_post [OF wpg_copy_page_tables [OF s]]) simp_all
  show ?thesis using wpgD_Ret [OF * fork(7)] by simp
next
  case (exit c sz es r es')
  then have *: "wpg any_stop UNIV (free_page_tables (task_base c) sz) (\<lambda>_. vm_ok) s"
    by (intro wpg_post [OF wpg_free_page_tables [OF s]]) simp_all
  show ?thesis using wpgD_Ret [OF * exit(4)] by simp
next
  case (no_page a es u es')
  then have *: "wpg any_stop UNIV (get_empty_page a) (\<lambda>_. vm_ok) s"
    by (intro wpg_post [OF wpg_get_empty_page [OF s]]) auto
  show ?thesis using wpgD_Ret [OF * no_page(3)] by simp
next
  case (map_page a p es r es')
  then have *: "wpg any_stop UNIV (put_page p a) (\<lambda>_. vm_ok) s"
    by (intro wpg_post [OF wpg_put_page [OF s]]) auto
  show ?thesis using wpgD_Ret [OF * map_page(7)] by simp
next
  case (wp_page a err es u es')
  then have *: "wpg any_stop UNIV (do_wp_page err a) (\<lambda>_. vm_ok) s"
    by (intro wpg_post [OF wpg_do_wp_page [OF s]]) auto
  show ?thesis using wpgD_Ret [OF * wp_page(4)] by simp
next
  case (verify a es u es')
  then have *: "wpg any_stop UNIV (write_verify a) (\<lambda>_. vm_ok) s"
    by (intro wpg_post [OF wpg_write_verify [OF s]]) auto
  show ?thesis using wpgD_Ret [OF * verify(2)] by simp
next
  case (share q n m a es r es')
  then have *: "wpg any_stop UNIV (try_to_share a q) (\<lambda>_. vm_ok) s"
    by (intro wpg_try_to_share [OF s]) auto
  show ?thesis using wpgD_Ret [OF * share(9)] by simp
next
  case (take es p es')
  have *: "wpg any_stop UNIV get_free_page (\<lambda>_. vm_ok) s"
    using s taken_props(1) by (intro wpr) simp_all
  show ?thesis using wpgD_Ret [OF * take] by simp
next
  case (drop p es u es')
  show ?thesis using wpgD_Ret [OF vm_free_page_ok [OF s drop(1), of UNIV] drop(2)] by simp
next
  case (store l p a w)
  then show ?thesis using vm_store_ok [OF s] by simp
qed

lemma vm_reachable_ok: "vm_reachable s \<Longrightarrow> vm_ok s"
  by (induction rule: vm_reachable.induct) (simp_all add: vm_boot_ok vm_step_ok)

end
