(* ===== verification/Paging.thy ===== *)
theory Paging
  imports Cow
begin

unbundle bit_operations_syntax

text \<open>
  What mm/memory.c promises: properties of the page allocator, of fork's page-table copy, of
  the write fault and of exit, with a small machine (\<open>vm0\<close>, \<open>vm1\<close>) they are shown on.
\<close>

text \<open>
  C3. In every reachable state of the memory system a page that some user entry can
  write has no other reference, of any task, as a page or as a page table, and its counter is
  not zero: no store of one task is seen by another, and no task can write a page table.
\<close>

lemma cow_isolation:
  assumes "vm_reachable s" "managed f" "l \<in> refs s f" "writable (entry s l)"
  shows "refs s f = {l} \<and> 1 \<le> page_count s f \<and> page_count s f \<le> 101"
proof -
  have s: "vm_ok s" by (rule vm_reachable_ok [OF assms(1)])
  have "refs s f = {l}" by (rule cowD [OF s assms(2-4)])
  then show ?thesis using vm_counts [OF s assms(2)] by simp
qed

text \<open>A small machine: four free pages, the kernel's page table in frame 1.\<close>

definition vm0 :: kernel where
  "vm0 = blank_kernel\<lparr>phys := (\<lambda>a. if a = 0 then 0x1007 else 0),
     mem_map := (\<lambda>i. if i < 3836 then 100 else 0), HIGH_MEMORY := 0x1000000\<rparr>"

lemma vm0_boot: "vm_boot vm0"
proof -
  have e: "entry vm0 (Dir i) = 0" if "i \<in> udirs" for i
    using that dir_addr_inj [of i 0] by (simp add: entry_def loc_addr.simps vm0_def udirs_def)
  have f: "frame 0x1007 = 1" by (simp add: frame_def)
  have "frame (phys vm0 (table_of (phys vm0 0) + 4 * of_nat k)) < 256" for k
    by (simp add: vm0_def f)
  then show ?thesis
    by (simp add: vm_boot_def low_ok_def e) (simp add: vm0_def USED_def f)
qed

lemma last_below_pred: "n \<noteq> 0 \<Longrightarrow> last_below P n = (if P (n - 1) then Some (n - 1) else last_below P (n - 1))"
  by (cases n) auto

lemma mem_map_taken: "mem_map (taken i s) = (mem_map s)(i := 1)"
  by (simp add: taken_def zero_page_def set_map_def)

text \<open>The first task's first page, after a page fault at its base.\<close>

definition vm1 :: kernel where
  "vm1 = set_word (page_addr 3838) (page_addr 3839 OR 7)
    (set_word 64 (page_addr 3838 OR 7) (taken 3838 (taken 3839 vm0)))"

lemma vm1_ret: "get_empty_page (task_base 1) vm0 es = Ret () vm1 es"
proof -
  have d: "dirix (task_base 1) = 16" "entix (task_base 1) = 0"
    by (simp_all add: dirix_def entix_def unat_task_base)
  have g: "get_free_page vm0 es = Ret (page_addr 3839) (taken 3839 vm0) es"
    "get_free_page (taken 3839 vm0) es = Ret (page_addr 3838) (taken 3838 (taken 3839 vm0)) es"
    by (simp_all add: get_free_page_run last_below_pred [of 3840] last_below_pred [of 3839]
        PAGING_PAGES_def mem_map_taken vm0_def)
  have z: "page_addr 3839 \<noteq> 0" "page_addr 3838 \<noteq> 0"
    using page_addr_props(4) [of 3839] page_addr_props(4) [of 3838] by (simp_all add: PAGING_PAGES_def)
  have "64 \<notin> page_words (page_addr 3839)"
    using page_frame_ne [of "page_addr 3839" 64] page_addr_props [of 3839] by (simp add: PAGING_PAGES_def frame_def)
  then have "phys (taken 3839 vm0) 64 = 0" by (simp add: taken_def zero_page_def vm0_def)
  then show ?thesis
    by (simp add: get_empty_page_def put_page_def Let_def dir_addr_of ent_of d krun g z vm1_def del: One_nat_def)
qed

lemma vm1_reachable: "vm_reachable vm1"
proof (rule vm_reachable.step [OF vm_reachable.boot [OF vm0_boot]])
  show "vm_step vm0 vm1"
  proof (rule vm_step.no_page [OF _ _ vm1_ret])
    show "dirix (task_base 1) \<in> udirs" by (simp add: dirix_task_base udirs_def)
    show "ent_of_addr (task_base 1) \<notin> locs vm0 \<or> \<not> present (entry vm0 (ent_of_addr (task_base 1)))"
      using vm0_boot by (simp add: vm_boot_def Ent_in_locs dirix_task_base)
  qed
qed

lemma vm_pages:
  "unat (page_addr 3838) mod 4096 = 0" "frame (page_addr 3838) = 4094"
  "unat (page_addr 3839) mod 4096 = 0" "frame (page_addr 3839) = 4095"
  using page_addr_props [of 3838] page_addr_props [of 3839] by (simp_all add: PAGING_PAGES_def)

lemma vm1_low: "phys vm1 a = (if a = 0 then 0x1007 else if a = 64 then page_addr 3838 OR 7 else 0)" if "frame a = 0" for a
proof -
  have "a \<notin> page_words (page_addr 3839)" "a \<notin> page_words (page_addr 3838)" "a \<noteq> page_addr 3838"
    using that page_frame_ne [OF vm_pages(1), of a] page_frame_ne [OF vm_pages(3), of a] vm_pages by auto
  then show ?thesis by (auto simp: vm1_def phys_set_word taken_def zero_page_def vm0_def)
qed

lemma vm1_dirs: "i \<in> udirs \<Longrightarrow> entry vm1 (Dir i) = (if i = 16 then page_addr 3838 OR 7 else 0)"
  using dir_addr_inj [of i 16] dir_addr_inj [of i 0]
  by (auto simp: entry_def loc_addr.simps vm1_low frame_dir_addr udirs_def)

lemma vm1_ents:
  assumes k: "k < 1024"
  shows "entry vm1 (Ent 16 k) = (if k = 0 then page_addr 3839 OR 7 else 0)"
proof -
  let ?a = "page_addr 3838 + 4 * of_nat k"
  have a: "loc_addr vm1 (Ent 16 k) = ?a"
    by (simp add: loc_addr_Ent vm1_dirs udirs_def table_or_7 vm_pages)
  have "?a \<noteq> page_addr 3838" if "k \<noteq> 0" using word_in_page_inj [OF vm_pages(1) k, of 0] that by simp
  moreover have "?a \<noteq> 64" using word_in_page(1) [OF vm_pages(1) k] vm_pages(2) by (auto simp: frame_def)
  moreover have "?a \<in> page_words (page_addr 3838)" using k by auto
  ultimately show ?thesis
    unfolding entry_def a by (simp add: vm1_def phys_set_word taken_def zero_page_def)
qed

lemma vm1_entry: "Ent 16 0 \<in> refs vm1 4095" "entry vm1 (Ent 16 0) = page_addr 3839 OR 7"
  by (simp_all add: vm1_ents refs_def Ent_in_locs vm1_dirs udirs_def vm_pages)

lemma cow_isolation_witness: "refs vm1 4095 = {Ent 16 0} \<and> page_count vm1 4095 \<le> 101"
  using cow_isolation [OF vm1_reachable _ vm1_entry(1)] vm1_entry(2) by (simp add: managed_def)

lemma shares_pages:
  assumes "vm_ok s" "0 < p" "p < 64" "0 < c" "c < 64" "p \<noteq> c" "unat sz \<le> 0x4000000"
    and "copy_page_tables (task_base p) (task_base c) sz s es = Ret 0 s' es'"
    and "d < unat (drop_bit 22 (sz + 0x3fffff))" "Ent (16 * p + d) k \<in> refs s f" "managed f"
  shows "Ent (16 * p + d) k \<in> refs s' f \<and> Ent (16 * c + d) k \<in> refs s' f \<and>
    \<not> writable (entry s' (Ent (16 * p + d) k)) \<and> \<not> writable (entry s' (Ent (16 * c + d) k))"
proof -
  let ?f = "Ent (16 * p + d) k" and ?t = "Ent (16 * c + d) k"
  have s: "vm_ok s" by (rule assms(1))
  have "wpg any_stop UNIV (copy_page_tables (task_base p) (task_base c) sz)
    (\<lambda>r s'. vm_ok s' \<and> (0 < p \<longrightarrow> r = 0 \<longrightarrow>
       dirs_copied (unat (drop_bit 22 (sz + 0x3fffff))) (16 * p) (16 * c) s s')) s"
    by (rule wpg_copy_page_tables [OF s]) (use assms in auto)
  from wpgD_Ret [OF this assms(8)] have s': "vm_ok s'"
    and cp: "dirs_copied (unat (drop_bit 22 (sz + 0x3fffff))) (16 * p) (16 * c) s s'"
    using assms(2) by simp_all
  have l: "?f \<in> locs s" "present (entry s ?f)" "frame (entry s ?f) = f" using assms(10) by (simp_all add: refs_def)
  then have k: "k < 1024" "present (entry s (Dir (16 * p + d)))" by (simp_all add: Ent_in_locs)
  have d: "d < 16" using assms(9) dirs_of_size [of sz] assms(7) by simp
  have u: "16 * p + d \<in> udirs" "16 * c + d \<in> udirs" using d assms(2-5) by (simp_all add: udirs_def)
  note one = cp [unfolded dirs_copied_def, THEN conjunct1, rule_format, OF assms(9)]
  have t: "present (entry s' (Dir (16 * c + d)))" "shows_copy (entry s ?f) (entry s' ?t)"
    "entry s' ?f = entry s ?f \<or> shows_copy (entry s ?f) (entry s' ?f)"
    using one k by simp_all
  then have te: "?t \<in> refs s' f" using u k l by (simp add: refs_def Ent_in_locs shows_copy_def)
  have fe: "present (entry s' ?f)" "frame (entry s' ?f) = f"
    using t(3) l by (auto simp: shows_copy_def)
  have "16 * p + d \<notin> {16 * c..<16 * c + unat (drop_bit 22 (sz + 0x3fffff))}"
    using d assms(6) dirs_of_size [of sz] assms(7) by auto
  then have "Dir (16 * p + d) \<in> locs s - touched (unat (drop_bit 22 (sz + 0x3fffff))) (16 * p) (16 * c)"
    using u by (auto simp: touched_def)
  then have "entry s' (Dir (16 * p + d)) = entry s (Dir (16 * p + d))"
    using cp by (simp add: dirs_copied_def)
  then have fr: "?f \<in> refs s' f" using fe k u by (simp add: refs_def Ent_in_locs)
  have ne: "?f \<noteq> ?t" using assms(6) by simp
  show ?thesis
    using fr te vm_alone [OF s' assms(11) fr te ne] vm_alone [OF s' assms(11) te fr] ne by simp
qed



text \<open>
  C19. A write fault on a mapped page ends, when a page is free, with the faulting
  address mapped to a page that nothing else refers to, writable, with the contents the
  faulting entry showed, and with every other entry unchanged.
\<close>

lemma write_fault_private_copy:
  assumes "vm_reachable s" "ent_of_addr a \<in> locs s" "present (entry s (ent_of_addr a))"
    and "frame (entry s (ent_of_addr a)) < 4096" "free_pages s \<noteq> {}"
  shows "\<exists>s' es'. do_wp_page err a s es = Ret () s' es' \<and> unprotected (ent_of_addr a) s s' \<and>
    refs s' (frame (entry s' (ent_of_addr a))) = {ent_of_addr a}"
proof -
  have s: "vm_ok s" by (rule vm_reachable_ok [OF assms(1)])
  have "wpg (\<lambda>_. False) UNIV (do_wp_page err a) (\<lambda>_ s'. vm_ok s' \<and> unprotected (ent_of_addr a) s s' \<and>
    (frame (entry s (ent_of_addr a)) < 4096 \<longrightarrow> managed (frame (entry s' (ent_of_addr a))))) s"
    using assms by (intro wpg_do_wp_page s) simp_all
  then obtain s' es' where r: "do_wp_page err a s es = Ret () s' es'" "vm_ok s'" "unprotected (ent_of_addr a) s s'"
      "managed (frame (entry s' (ent_of_addr a)))"
    unfolding wpg_def using assms(4) by (fastforce split: res.splits)
  have "ent_of_addr a \<in> refs s' (frame (entry s' (ent_of_addr a)))"
    using r(3) assms(2) by (simp add: unprotected_def refs_def)
  then have "refs s' (frame (entry s' (ent_of_addr a))) = {ent_of_addr a}"
    using r(3) by (intro cowD [OF r(2,4)]) (simp_all add: unprotected_def)
  then show ?thesis using r by blast
qed

lemma write_fault_private_copy_witness:
  "\<exists>s' es'. do_wp_page 3 (task_base 1) vm1 [] = Ret () s' es' \<and>
     refs s' (frame (entry s' (Ent 16 0))) = {Ent 16 0}"
proof -
  have b: "ent_of_addr (task_base 1) = Ent 16 0" by (simp add: dirix_def entix_def unat_task_base)
  have f: "frame (page_addr 3839) = 4095" using page_addr_props [of 3839] by (simp add: PAGING_PAGES_def)
  have "3837 \<in> free_pages vm1"
    by (simp add: free_pages_def PAGING_PAGES_def vm1_def mem_map_taken) (simp add: vm0_def)
  then show ?thesis
    using write_fault_private_copy [OF vm1_reachable, of "task_base 1" 3 "[]"] vm1_entry f
    unfolding b by (auto simp: refs_def)
qed



text \<open>
  \<open>get_free_page\<close> takes the highest free page, marks it used once and clears it, or
  returns 0 and changes nothing when no page is free.
\<close>

lemma get_free_page_takes_last:
  "get_free_page s es =
    (if free_pages s = {} then Ret 0 s es
     else let i = Max (free_pages s) in Ret (page_addr i) (zero_page (page_addr i) (set_map i 1 s)) es)"
  by (simp add: get_free_page_max taken_def Let_def)

text \<open>
  C26. Freeing the page just taken restores the page map, and freeing it a second time
  panics.
\<close>

lemma alloc_free_roundtrip:
  assumes "free_pages s \<noteq> {}" "\<forall>i \<in> free_pages s. page_addr i < HIGH_MEMORY s"
  shows "\<exists>p s1 s2 s3. get_free_page s es = Ret p s1 es \<and> mem_map s1 \<noteq> mem_map s \<and>
    free_page p s1 es = Ret () s2 es \<and> mem_map s2 = mem_map s \<and>
    free_page p s2 es = Stop (Panicked ''trying to free free page'') s3"
proof -
  let ?i = "Max (free_pages s)"
  have fin: "finite (free_pages s)" by (simp add: free_pages_def)
  have i: "?i \<in> free_pages s" using assms(1) fin by simp
  then have i': "?i < PAGING_PAGES" "mem_map s ?i = 0" by (simp_all add: free_pages_def)
  note p = page_addr_props [OF i'(1)]
  have nr: "MAP_NR (page_addr ?i) = ?i" using MAP_NR_frame [of "page_addr ?i"] p by simp
  have lo: "\<not> page_addr ?i < LOW_MEM" using low_mem_frame [of "page_addr ?i"] p by simp
  have hi: "\<not> HIGH_MEMORY s \<le> page_addr ?i" using assms(2) i by auto
  have high: "HIGH_MEMORY (taken ?i s) = HIGH_MEMORY s"
    by (simp add: taken_def zero_page_def)
  let ?s1 = "taken ?i s"
  let ?s2 = "set_map ?i 0 ?s1"
  have 1: "get_free_page s es = Ret (page_addr ?i) ?s1 es"
    using assms(1) by (simp add: get_free_page_max)
  have 2: "free_page (page_addr ?i) ?s1 es = Ret () ?s2 es"
    using i' lo hi by (simp add: free_page_def krun nr high mem_map_taken not_le)
  have m: "mem_map ?s2 = mem_map s" using i' by (simp add: set_map_def mem_map_taken fun_eq_iff)
  have 3: "\<exists>s3. free_page (page_addr ?i) ?s2 es = Stop (Panicked ''trying to free free page'') s3"
    using i' lo hi by (simp add: free_page_def krun nr high m not_le)
  have "mem_map ?s1 \<noteq> mem_map s" using i' by (auto simp: mem_map_taken fun_eq_iff)
  then show ?thesis using 1 2 3 m by blast
qed

lemma alloc_free_roundtrip_witness:
  "\<exists>p s1 s2 s3. get_free_page vm0 [] = Ret p s1 [] \<and> free_page p s1 [] = Ret () s2 [] \<and>
    free_page p s2 [] = Stop (Panicked ''trying to free free page'') s3"
proof -
  have "free_pages vm0 = {3836..<3840}" by (auto simp: free_pages_def vm0_def PAGING_PAGES_def)
  moreover have "page_addr i < HIGH_MEMORY vm0" if "i \<in> {3836..<3840}" for i
    using that unat_page_addr [of i] by (simp add: word_less_nat_alt vm0_def PAGING_PAGES_def)
  ultimately show ?thesis using alloc_free_roundtrip [of vm0 "[]"] by auto
qed

end
