(* ===== verification/Sched.thy ===== *)
theory Sched
  imports Kstate
begin

unbundle bit_operations_syntax

text \<open>
  kernel/sched.c: the scheduler, sleeping and waking, the floppy motor timers, the timer list
  and the small system calls.  \<open>show_task\<close> and \<open>show_stat\<close> only print; \<open>sched_init\<close> is in
  Setup, and the processor tables it loads are in Traps.
\<close>

subsection \<open>The scheduler\<close>

definition BLOCKABLE :: u32 where
  "BLOCKABLE = NOT (sigbit SIGKILL OR sigbit SIGSTOP)"

definition math_state_restore :: "unit K" where
  "math_state_restore =
     bnd (gets (\<lambda>s. last_task_used_math s = Some (current s))) (\<lambda>same.
       if same then skip
       else block
         [modify (\<lambda>s. s\<lparr>last_task_used_math := Some (current s)\<rparr>),
          modify (\<lambda>s. if used_math (cur s) \<noteq> 0 then s else upd_cur (\<lambda>t. t\<lparr>used_math := 1\<rparr>) s)])"

definition check_signals :: "int \<Rightarrow> task_struct \<Rightarrow> task_struct" where
  "check_signals now t =
     (let t' = (if alarm t \<noteq> 0 \<and> alarm t < now
                then t\<lparr>signal := signal t OR sigbit SIGALRM, alarm := 0\<rparr> else t)
      in if signal t' AND NOT (BLOCKABLE AND blocked t') \<noteq> 0 \<and> state t' = TASK_INTERRUPTIBLE
         then t'\<lparr>state := TASK_RUNNING\<rparr> else t')"

text \<open>A loop over \<open>LAST_TASK\<close> down to \<open>FIRST_TASK + 1\<close> that updates the existing tasks.\<close>

definition each_task :: "(task_struct \<Rightarrow> task_struct) \<Rightarrow> kernel \<Rightarrow> kernel" where
  "each_task f s =
     fold (\<lambda>i s. case task s i of None \<Rightarrow> s | Some p \<Rightarrow> upd_task p f s) (rev [1..<NR_TASKS]) s"

definition pick_step :: "kernel \<Rightarrow> nat \<Rightarrow> int \<times> nat \<Rightarrow> int \<times> nat" where
  "pick_step s i cn = (case task s i of
     None \<Rightarrow> cn
   | Some p \<Rightarrow> if state (tsk s p) = TASK_RUNNING \<and> counter (tsk s p) > fst cn
               then (counter (tsk s p), i) else cn)"

definition pick :: "kernel \<Rightarrow> int \<times> nat" where
  "pick s = fold (pick_step s) (rev [1..<NR_TASKS]) (- 1, 0)"

definition recount :: "task_struct \<Rightarrow> task_struct" where
  "recount t = t\<lparr>counter := wrap32 (counter t div 2 + priority t)\<rparr>"

text \<open>
  The \<open>while (1)\<close> of \<open>schedule\<close>, with fuel: one round too many means that the highest counter
  stays 0 for ever, which needs a task of priority 0.
\<close>

fun choose_task :: "nat \<Rightarrow> nat K" where
  "choose_task 0 = stop Hung"
| "choose_task (Suc n) =
     bnd (gets pick) (\<lambda>cn.
       if fst cn \<noteq> 0 then ret (snd cn)
       else seq (modify (each_task recount)) (choose_task n))"

text \<open>\<open>switch_to\<close>: nothing when the task runs already, else this task waits to be resumed.\<close>

definition switch_to :: "nat \<Rightarrow> unit K" where
  "switch_to n =
     bnd (gets (\<lambda>s. (task s n, current s))) (\<lambda>(q, me). case q of
       None \<Rightarrow> stop Wild
     | Some p \<Rightarrow>
         if p = me then skip
         else block [modify (\<lambda>s. s\<lparr>current := p\<rparr>), pass, modify (\<lambda>s. s\<lparr>current := me\<rparr>)])"

definition schedule :: "unit K" where
  "schedule = seq (modify (\<lambda>s. each_task (check_signals (jiffies s)) s)) (bnd (choose_task 100) switch_to)"

definition set_state :: "int \<Rightarrow> tptr \<Rightarrow> kernel \<Rightarrow> kernel" where
  "set_state st p = upd_task p (\<lambda>t. t\<lparr>state := st\<rparr>)"

definition sys_pause :: "int K" where
  "sys_pause =
     seq (block [modify (\<lambda>s. set_state TASK_INTERRUPTIBLE (current s) s), schedule]) (ret 0)"

subsection \<open>Wait queues\<close>

text \<open>A \<open>struct task_struct **\<close>: the variables and fields that tasks sleep on.\<close>

datatype waitq =
    Q_buf bptr | Q_buffer_wait | Q_inode iptr | Q_super sptr | Q_request | Q_waiting rptr | Q_motor nat
  | Q_floppy_select | Q_read nat | Q_write nat | Q_secondary nat

fun get_q :: "waitq \<Rightarrow> kernel \<Rightarrow> tptr option" where
  "get_q (Q_buf b) s = b_wait (bufs s b)"
| "get_q Q_buffer_wait s = buffer_wait s"
| "get_q (Q_inode i) s = i_wait (inode_table s i)"
| "get_q (Q_super i) s = s_wait (super_blocks s i)"
| "get_q Q_request s = wait_for_request s"
| "get_q (Q_waiting r) s = r_waiting (requests s r)"
| "get_q (Q_motor n) s = wait_motor s n"
| "get_q Q_floppy_select s = wait_on_floppy_select s"
| "get_q (Q_read n) s = q_proc_list (read_q (tty_table s n))"
| "get_q (Q_write n) s = q_proc_list (write_q (tty_table s n))"
| "get_q (Q_secondary n) s = q_proc_list (secondary (tty_table s n))"

definition upd_tty :: "nat \<Rightarrow> (tty_struct \<Rightarrow> tty_struct) \<Rightarrow> kernel \<Rightarrow> kernel" where
  "upd_tty n f s = s\<lparr>tty_table := (tty_table s)(n := f (tty_table s n))\<rparr>"

fun set_q :: "waitq \<Rightarrow> tptr option \<Rightarrow> kernel \<Rightarrow> kernel" where
  "set_q (Q_buf b) p s = upd_buf b (\<lambda>x. x\<lparr>b_wait := p\<rparr>) s"
| "set_q Q_buffer_wait p s = s\<lparr>buffer_wait := p\<rparr>"
| "set_q (Q_inode i) p s = upd_inode i (\<lambda>x. x\<lparr>i_wait := p\<rparr>) s"
| "set_q (Q_super i) p s = upd_super i (\<lambda>x. x\<lparr>s_wait := p\<rparr>) s"
| "set_q Q_request p s = s\<lparr>wait_for_request := p\<rparr>"
| "set_q (Q_waiting r) p s = upd_req r (\<lambda>x. x\<lparr>r_waiting := p\<rparr>) s"
| "set_q (Q_motor n) p s = s\<lparr>wait_motor := (wait_motor s)(n := p)\<rparr>"
| "set_q Q_floppy_select p s = s\<lparr>wait_on_floppy_select := p\<rparr>"
| "set_q (Q_read n) p s = upd_tty n (\<lambda>x. x\<lparr>read_q := (read_q x)\<lparr>q_proc_list := p\<rparr>\<rparr>) s"
| "set_q (Q_write n) p s = upd_tty n (\<lambda>x. x\<lparr>write_q := (write_q x)\<lparr>q_proc_list := p\<rparr>\<rparr>) s"
| "set_q (Q_secondary n) p s = upd_tty n (\<lambda>x. x\<lparr>secondary := (secondary x)\<lparr>q_proc_list := p\<rparr>\<rparr>) s"

definition sleep_on :: "waitq \<Rightarrow> unit K" where
  "sleep_on q =
     bnd (gets (\<lambda>s. current s = init_task s)) (\<lambda>idle.
       if idle then kpanic ''task[0] trying to sleep''
       else bnd (gets (get_q q)) (\<lambda>tmp. block
         [modify (\<lambda>s. set_q q (Some (current s)) s),
          modify (\<lambda>s. set_state TASK_UNINTERRUPTIBLE (current s) s),
          schedule,
          case tmp of None \<Rightarrow> skip | Some p \<Rightarrow> modify (set_state 0 p)]))"

definition interruptible_sleep_on :: "waitq \<Rightarrow> unit K" where
  "interruptible_sleep_on q =
     bnd (gets (\<lambda>s. current s = init_task s)) (\<lambda>idle.
       if idle then kpanic ''task[0] trying to sleep''
       else bnd (gets (get_q q)) (\<lambda>tmp. block
         [modify (\<lambda>s. set_q q (Some (current s)) s),
          retry (seq (block [modify (\<lambda>s. set_state TASK_INTERRUPTIBLE (current s) s), schedule])
            (bnd (gets (\<lambda>s. (get_q q s, current s))) (\<lambda>(p, me). case p of
               None \<Rightarrow> ret (Some ())
             | Some w \<Rightarrow> if w \<noteq> me then seq (modify (set_state 0 w)) (ret None)
                         else ret (Some ())))),
          modify (set_q q None),
          case tmp of None \<Rightarrow> skip | Some p \<Rightarrow> modify (set_state 0 p)]))"

definition wake_up_q :: "waitq \<Rightarrow> kernel \<Rightarrow> kernel" where
  "wake_up_q q s = (case get_q q s of None \<Rightarrow> s | Some p \<Rightarrow> set_q q None (set_state 0 p s))"

definition wake_up :: "waitq \<Rightarrow> unit K" where
  "wake_up q = modify (wake_up_q q)"

subsection \<open>Floppy motors\<close>

definition FD_DOR :: nat where "FD_DOR = 0x3f2"

definition ticks_to_floppy_on :: "nat \<Rightarrow> int K" where
  "ticks_to_floppy_on nr =
     (if nr > 3 then kpanic ''floppy_on: nr>3''
      else bnd (gets current_DOR) (\<lambda>dor.
           bnd (gets selected) (\<lambda>sel.
             let m = push_bit nr 0x10 OR dor;
                 mask = (if sel = 0 then (m AND 0xFC) OR of_nat nr else m) in
             seq (block
               [modify (\<lambda>s. s\<lparr>moff_timer := (moff_timer s)(nr := 10000)\<rparr>),
                guardK (mask \<noteq> dor) (block
                  [outb mask FD_DOR,
                   modify (\<lambda>s.
                     if (mask XOR dor) AND 0xf0 \<noteq> 0
                     then s\<lparr>mon_timer := (mon_timer s)(nr := HZ div 2)\<rparr>
                     else if mon_timer s nr < 2 then s\<lparr>mon_timer := (mon_timer s)(nr := 2)\<rparr> else s),
                   modify (\<lambda>s. s\<lparr>current_DOR := mask\<rparr>)])])
               (gets (\<lambda>s. mon_timer s nr)))))"

definition floppy_on :: "nat \<Rightarrow> unit K" where
  "floppy_on nr =
     retry (bnd (ticks_to_floppy_on nr) (\<lambda>t.
       if t \<noteq> 0 then seq (sleep_on (Q_motor nr)) (ret None) else ret (Some ())))"

definition floppy_off :: "nat \<Rightarrow> unit K" where
  "floppy_off nr = modify (\<lambda>s. s\<lparr>moff_timer := (moff_timer s)(nr := 3 * HZ)\<rparr>)"

definition do_floppy_timer :: "unit K" where
  "do_floppy_timer = for_each [0..<4] (\<lambda>i.
     let mask = push_bit i 0x10 :: u8 in
     bnd (gets (\<lambda>s. (current_DOR s, mon_timer s i, moff_timer s i))) (\<lambda>(dor, mon, moff).
       if mask AND dor = 0 then skip
       else if mon \<noteq> 0
       then seq (modify (\<lambda>s. s\<lparr>mon_timer := (mon_timer s)(i := mon - 1)\<rparr>))
                (guardK (mon - 1 = 0) (wake_up (Q_motor i)))
       else if moff = 0
       then seq (modify (\<lambda>s. s\<lparr>current_DOR := dor AND NOT mask\<rparr>)) (outb (dor AND NOT mask) FD_DOR)
       else modify (\<lambda>s. s\<lparr>moff_timer := (moff_timer s)(i := moff - 1)\<rparr>)))"

subsection \<open>Timers\<close>

definition TIME_REQUESTS :: nat where [kconst]: "TIME_REQUESTS = 64"

text \<open>
  The insertion loop of \<open>add_timer\<close>: the new entry moves down the list while the next one is
  due earlier.  The list has at most 64 entries, so 64 rounds are enough.
\<close>

fun sift_timer :: "nat \<Rightarrow> nat \<Rightarrow> kernel \<Rightarrow> kernel" where
  "sift_timer 0 p s = s"
| "sift_timer (Suc n) p s =
     (case tm_next (timer_list s p) of
        None \<Rightarrow> s
      | Some q \<Rightarrow>
          let tp = timer_list s p; tq = timer_list s q in
          if tm_jiffies tq < tm_jiffies tp
          then sift_timer n q
            (upd_timer q (\<lambda>t. t\<lparr>tm_fn := tm_fn tp, tm_jiffies := tm_jiffies tp - tm_jiffies tq\<rparr>)
              (upd_timer p (\<lambda>t. t\<lparr>tm_fn := tm_fn tq, tm_jiffies := tm_jiffies tq\<rparr>) s))
          else s)"

text \<open>\<open>run\<close> is the call through the function pointer (kernel/blk_drv/floppy.c defines both).\<close>

definition add_timer :: "(timer_fn \<Rightarrow> unit K) \<Rightarrow> int \<Rightarrow> timer_fn option \<Rightarrow> unit K" where
  "add_timer run jiff fn = (case fn of
     None \<Rightarrow> skip
   | Some f \<Rightarrow>
       if jiff \<le> 0 then run f
       else bnd (gets (\<lambda>s. first_upto (\<lambda>i. tm_fn (timer_list s i) = None) TIME_REQUESTS)) (\<lambda>r. case r of
         None \<Rightarrow> kpanic ''No more time requests free''
       | Some p \<Rightarrow> block
           [modify (\<lambda>s. upd_timer p (\<lambda>_. \<lparr>tm_jiffies = jiff, tm_fn = Some f, tm_next = next_timer s\<rparr>) s),
            modify (\<lambda>s. s\<lparr>next_timer := Some p\<rparr>),
            modify (sift_timer TIME_REQUESTS p)]))"

fun run_timers :: "nat \<Rightarrow> (timer_fn \<Rightarrow> unit K) \<Rightarrow> unit K" where
  "run_timers 0 run = stop Hung"
| "run_timers (Suc n) run =
     bnd (gets next_timer) (\<lambda>t. case t of
       None \<Rightarrow> skip
     | Some p \<Rightarrow>
         bnd (gets (\<lambda>s. timer_list s p)) (\<lambda>tm.
           if tm_jiffies tm > 0 then skip
           else block
             [modify (upd_timer p (\<lambda>t. t\<lparr>tm_fn := None\<rparr>)),
              modify (\<lambda>s. s\<lparr>next_timer := tm_next tm\<rparr>),
              case tm_fn tm of None \<Rightarrow> stop Wild | Some f \<Rightarrow> run f,
              run_timers n run]))"

text \<open>\<open>sysbeepstop\<close> of kernel/chr_drv/console.c: disable counter 2.\<close>

definition sysbeepstop :: "unit K" where
  "sysbeepstop = bnd (inb 0x61) (\<lambda>v. outb (v AND 0xFC) 0x61)"

definition do_timer :: "(timer_fn \<Rightarrow> unit K) \<Rightarrow> int \<Rightarrow> unit K" where
  "do_timer run cpl = block
     [bnd (gets beepcount) (\<lambda>b. guardK (b \<noteq> 0)
        (seq (modify (\<lambda>s. s\<lparr>beepcount := b - 1\<rparr>)) (guardK (b - 1 = 0) sysbeepstop))),
      modify (\<lambda>s. upd_cur (if cpl \<noteq> 0 then (\<lambda>t. t\<lparr>utime := wrap32 (utime t + 1)\<rparr>)
                            else (\<lambda>t. t\<lparr>stime := wrap32 (stime t + 1)\<rparr>)) s),
      bnd (gets next_timer) (\<lambda>t. case t of
        None \<Rightarrow> skip
      | Some p \<Rightarrow> seq (modify (upd_timer p (\<lambda>t. t\<lparr>tm_jiffies := tm_jiffies t - 1\<rparr>)))
                      (run_timers (Suc TIME_REQUESTS) run)),
      bnd (gets current_DOR) (\<lambda>dor. guardK (dor AND 0xf0 \<noteq> 0) do_floppy_timer),
      modify (\<lambda>s. upd_cur (\<lambda>t. t\<lparr>counter := counter t - 1\<rparr>) s),
      bnd (gets (\<lambda>s. counter (cur s))) (\<lambda>c.
        if c > 0 then skip
        else seq (modify (\<lambda>s. upd_cur (\<lambda>t. t\<lparr>counter := 0\<rparr>) s))
                 (guardK (cpl \<noteq> 0) schedule))]"

subsection \<open>System calls\<close>

definition sys_alarm :: "int \<Rightarrow> int K" where
  "sys_alarm seconds =
     bnd (gets (\<lambda>s. if alarm (cur s) \<noteq> 0 then (alarm (cur s) - jiffies s) sdiv HZ else 0)) (\<lambda>old.
       seq (modify (\<lambda>s. upd_cur (\<lambda>t. t\<lparr>alarm :=
              if seconds > 0 then wrap32 (jiffies s + HZ * seconds) else 0\<rparr>) s))
           (ret old))"

definition sys_getpid :: "int K" where "sys_getpid = gets (\<lambda>s. pid (cur s))"
definition sys_getppid :: "int K" where "sys_getppid = gets (\<lambda>s. father (cur s))"
definition sys_getuid :: "int K" where "sys_getuid = gets (\<lambda>s. uint (uid (cur s)))"
definition sys_geteuid :: "int K" where "sys_geteuid = gets (\<lambda>s. uint (euid (cur s)))"
definition sys_getgid :: "int K" where "sys_getgid = gets (\<lambda>s. uint (gid (cur s)))"
definition sys_getegid :: "int K" where "sys_getegid = gets (\<lambda>s. uint (egid (cur s)))"

definition sys_nice :: "int \<Rightarrow> int K" where
  "sys_nice increment =
     seq (modify (\<lambda>s.
       if wrap32 (priority (cur s) - increment) > 0
       then upd_cur (\<lambda>t. t\<lparr>priority := wrap32 (priority t - increment)\<rparr>) s else s))
       (ret 0)"

subsection \<open>The choice of the next task\<close>

definition runnable :: "kernel \<Rightarrow> nat \<Rightarrow> bool" where
  "runnable s i \<longleftrightarrow> 1 \<le> i \<and> i < NR_TASKS \<and>
     (case task s i of None \<Rightarrow> False | Some p \<Rightarrow> state (tsk s p) = TASK_RUNNING)"

definition task_counter :: "kernel \<Rightarrow> nat \<Rightarrow> int" where
  "task_counter s i = counter (tsk s (the (task s i)))"

definition task_ok :: "task_struct \<Rightarrow> bool" where
  "task_ok t \<longleftrightarrow> 0 < priority t \<and> priority t < 0x40000000 \<and> 0 \<le> counter t \<and> counter t \<le> 2 * priority t"

definition sched_ok :: "kernel \<Rightarrow> bool" where
  "sched_ok s \<longleftrightarrow> (\<forall>i p. 1 \<le> i \<longrightarrow> i < NR_TASKS \<longrightarrow> task s i = Some p \<longrightarrow> task_ok (tsk s p))"

lemma runnable_iff:
  "runnable s i \<longleftrightarrow> i \<in> {1..<NR_TASKS} \<and> (\<exists>p. task s i = Some p \<and> state (tsk s p) = TASK_RUNNING)"
  by (auto simp: runnable_def split: option.splits)

lemma pick_fold:
  assumes "\<forall>i \<in> set is. runnable s i \<longrightarrow> 0 \<le> task_counter s i"
    and "fst cn = - 1 \<and> snd cn = 0 \<or> runnable s (snd cn) \<and> fst cn = task_counter s (snd cn) \<and> 0 \<le> fst cn"
    and "set is \<subseteq> {1..<NR_TASKS}"
  shows "case fold (pick_step s) is cn of (c, n) \<Rightarrow>
    fst cn \<le> c \<and> (\<forall>i \<in> set is. runnable s i \<longrightarrow> task_counter s i \<le> c) \<and>
    (c = - 1 \<and> n = 0 \<or> runnable s n \<and> c = task_counter s n \<and> 0 \<le> c)"
  using assms
proof (induction "is" arbitrary: cn)
  case Nil
  then show ?case by (cases cn) auto
next
  case (Cons i ixs)
  let ?cn = "pick_step s i cn"
  have i: "1 \<le> i" "i < NR_TASKS" using Cons.prems(3) by auto
  have st: "fst cn \<le> fst ?cn" "runnable s i \<longrightarrow> task_counter s i \<le> fst ?cn"
    "fst ?cn = - 1 \<and> snd ?cn = 0 \<or> runnable s (snd ?cn) \<and> fst ?cn = task_counter s (snd ?cn) \<and> 0 \<le> fst ?cn"
    using Cons.prems(1,2) i
    by (auto simp: pick_step_def runnable_def task_counter_def split: option.splits if_splits)
  have "case fold (pick_step s) ixs ?cn of (c, n) \<Rightarrow>
    fst ?cn \<le> c \<and> (\<forall>i \<in> set ixs. runnable s i \<longrightarrow> task_counter s i \<le> c) \<and>
    (c = - 1 \<and> n = 0 \<or> runnable s n \<and> c = task_counter s n \<and> 0 \<le> c)"
    using Cons.prems by (intro Cons.IH st(3)) auto
  then show ?case using st(1,2) by (auto split: prod.splits)
qed

lemma sched_ok_counter: "sched_ok s \<Longrightarrow> runnable s i \<Longrightarrow> 0 \<le> task_counter s i"
  by (force simp: sched_ok_def runnable_def task_counter_def task_ok_def split: option.splits)

lemma pick_cases:
  assumes "sched_ok s"
  obtains "pick s = (- 1, 0)" "\<forall>i. \<not> runnable s i"
  | n where "pick s = (task_counter s n, n)" "runnable s n" "0 \<le> task_counter s n"
      "\<forall>i. runnable s i \<longrightarrow> task_counter s i \<le> task_counter s n"
proof -
  have set: "set (rev [1..<NR_TASKS]) = {1..<NR_TASKS}" by auto
  have "case pick s of (c, n) \<Rightarrow>
    - 1 \<le> c \<and> (\<forall>i \<in> {1..<NR_TASKS}. runnable s i \<longrightarrow> task_counter s i \<le> c) \<and>
    (c = - 1 \<and> n = 0 \<or> runnable s n \<and> c = task_counter s n \<and> 0 \<le> c)"
    using pick_fold [of "rev [1..<NR_TASKS]" s "(- 1, 0)"] sched_ok_counter [OF assms]
    unfolding pick_def set by simp
  then obtain c n where p: "pick s = (c, n)" and m: "\<forall>i. runnable s i \<longrightarrow> task_counter s i \<le> c"
    and cn: "c = - 1 \<and> n = 0 \<or> runnable s n \<and> c = task_counter s n \<and> 0 \<le> c"
    by (cases "pick s") (auto simp: runnable_iff)
  show ?thesis
  proof (cases "c = - 1")
    case True
    have "\<not> runnable s i" for i using m sched_ok_counter [OF assms, of i] True by fastforce
    moreover have "n = 0" using cn True by auto
    ultimately show ?thesis using that(1) p True by blast
  next
    case False
    then show ?thesis using cn that(2) p m by auto
  qed
qed

text \<open>A loop over the task table that maps tasks in \<open>Q\<close> to tasks in \<open>R\<close>.\<close>

lemma each_task_fields [simp]: "task (each_task f s) = task s" "current (each_task f s) = current s"
    "jiffies (each_task f s) = jiffies s" "init_task (each_task f s) = init_task s"
proof -
  have "task (fold (\<lambda>i s. case task s i of None \<Rightarrow> s | Some p \<Rightarrow> upd_task p f s) xs s) = task s \<and>
    current (fold (\<lambda>i s. case task s i of None \<Rightarrow> s | Some p \<Rightarrow> upd_task p f s) xs s) = current s \<and>
    jiffies (fold (\<lambda>i s. case task s i of None \<Rightarrow> s | Some p \<Rightarrow> upd_task p f s) xs s) = jiffies s \<and>
    init_task (fold (\<lambda>i s. case task s i of None \<Rightarrow> s | Some p \<Rightarrow> upd_task p f s) xs s) = init_task s" for xs
    by (induction xs arbitrary: s) (auto simp: upd_task_def split: option.splits)
  then show "task (each_task f s) = task s" "current (each_task f s) = current s"
    "jiffies (each_task f s) = jiffies s" "init_task (each_task f s) = init_task s"
    by (simp_all add: each_task_def)
qed

lemma each_task_fold:
  assumes f: "\<And>t. Q t \<Longrightarrow> R (f t)" "\<And>t. R t \<Longrightarrow> Q t"
    and q: "\<forall>p \<in> A. Q (tsk s p)" and r: "\<forall>p \<in> B. R (tsk s p)"
    and i: "\<And>i p. i \<in> set xs \<Longrightarrow> task s i = Some p \<Longrightarrow> p \<in> A"
  shows "\<forall>p. p \<in> B \<or> (\<exists>i \<in> set xs. task s i = Some p) \<longrightarrow>
    R (tsk (fold (\<lambda>i s. case task s i of None \<Rightarrow> s | Some p \<Rightarrow> upd_task p f s) xs s) p)"
  using q r i
proof (induction xs arbitrary: s B)
  case Nil
  then show ?case by simp
next
  case (Cons i xs)
  show ?case
  proof (cases "task s i")
    case None
    then show ?thesis using Cons.IH [of s B] Cons.prems by auto
  next
    case (Some p)
    let ?s = "upd_task p f s"
    have t: "task ?s = task s" by (simp add: upd_task_def)
    have pa: "p \<in> A" using Cons.prems(3) [of i p] Some by simp
    have "\<forall>p \<in> A. Q (tsk ?s p)" "\<forall>p \<in> insert p B. R (tsk ?s p)"
      using Cons.prems(1,2) f pa by (auto simp: upd_task_def)
    moreover have "\<And>j q. j \<in> set xs \<Longrightarrow> task ?s j = Some q \<Longrightarrow> q \<in> A"
      using Cons.prems(3) t by (metis list.set_intros(2))
    ultimately show ?thesis
      using Cons.IH [of ?s "insert p B"] Some t by auto
  qed
qed

lemma each_task_all:
  assumes f: "\<And>t. Q t \<Longrightarrow> R (f t)" "\<And>t. R t \<Longrightarrow> Q t"
    and q: "\<And>i p. i \<in> {1..<NR_TASKS} \<Longrightarrow> task s i = Some p \<Longrightarrow> Q (tsk s p)"
    and "i \<in> {1..<NR_TASKS}" "task s i = Some p"
  shows "R (tsk (each_task f s) p)"
proof -
  have set: "set (rev [1..<NR_TASKS]) = {1..<NR_TASKS}" by auto
  have *: "\<forall>p \<in> {p. \<exists>i \<in> {1..<NR_TASKS}. task s i = Some p}. Q (tsk s p)" using q by auto
  show ?thesis
    using each_task_fold [of Q R f, OF f * _, of "{}" "rev [1..<NR_TASKS]"] assms(4,5)
    unfolding each_task_def set by blast
qed


lemma recount_ok:
  assumes "task_ok t"
  shows "task_ok (recount t) \<and> 0 < counter (recount t)"
proof -
  have c: "0 \<le> counter t div 2" "counter t div 2 \<le> priority t"
    using assms unfolding task_ok_def by linarith+
  then have "wrap32 (counter t div 2 + priority t) = counter t div 2 + priority t"
    using assms by (intro wrap32_id) (simp_all add: task_ok_def)
  moreover have "0 < counter t div 2 + priority t" "counter t div 2 + priority t \<le> 2 * priority t"
    using assms c unfolding task_ok_def by linarith+
  ultimately show ?thesis using assms by (simp add: task_ok_def recount_def)
qed

lemma recount_all:
  assumes "sched_ok s" "i \<in> {1..<NR_TASKS}" "task s i = Some p"
  shows "task_ok (tsk (each_task recount s) p) \<and> 0 < counter (tsk (each_task recount s) p)"
  by (rule each_task_all [where Q = task_ok and R = "\<lambda>t. task_ok t \<and> 0 < counter t"])
    (use recount_ok assms in \<open>auto simp: sched_ok_def\<close>)

lemma recount_state:
  assumes "i \<in> {1..<NR_TASKS}" "task s i = Some p"
  shows "state (tsk (each_task recount s) p) = state (tsk s p)"
proof -
  have "state (tsk (fold (\<lambda>i s. case task s i of None \<Rightarrow> s | Some p \<Rightarrow> upd_task p recount s) xs s) p) = state (tsk s p)" for xs
    by (induction xs arbitrary: s) (auto simp: upd_task_def recount_def split: option.splits)
  then show ?thesis by (simp add: each_task_def)
qed

lemma choose_best:
  assumes "sched_ok s"
  shows "\<exists>n s'. choose_task 100 s es = Ret n s' es \<and> sched_ok s' \<and> (s' = s \<or> s' = each_task recount s) \<and>
    (if \<exists>i. runnable s i
     then runnable s' n \<and> 0 < task_counter s' n \<and>
       (\<forall>i. runnable s' i \<longrightarrow> task_counter s' i \<le> task_counter s' n)
     else n = 0 \<and> s' = s)"
proof -
  have round: "choose_task (numeral k) s es = (if fst (pick s) \<noteq> 0 then Ret (snd (pick s)) s es
      else choose_task (pred_numeral k) (each_task recount s) es)" for k s
    unfolding numeral_eq_Suc choose_task.simps by (simp add: krun)
  show ?thesis
  proof (cases rule: pick_cases [OF assms])
    case 1
    then show ?thesis using assms by (simp add: round)
  next
    case (2 n)
    show ?thesis
    proof (cases "task_counter s n = 0")
      case False
      then show ?thesis using 2 assms by (auto simp: round)
    next
      case True
      let ?s = "each_task recount s"
      have ok: "sched_ok ?s"
        using recount_all [OF assms] by (auto simp: sched_ok_def)
      have pos: "0 < task_counter ?s i" if "runnable ?s i" for i
        using that recount_all [OF assms, of i] by (auto simp: runnable_iff task_counter_def)
      have run: "runnable ?s i \<longleftrightarrow> runnable s i" for i
        using recount_state [of i s] by (auto simp: runnable_iff)
      show ?thesis
      proof (cases rule: pick_cases [OF ok])
        case 1
        then show ?thesis using run 2 by blast
      next
        case (2 m)
        then show ?thesis
          using ok pos [of m] True \<open>pick s = _\<close> run \<open>runnable s n\<close>
          by (intro exI [of _ m] exI [of _ ?s]) (auto simp: round)
      qed
    qed
  qed
qed

subsection \<open>Signals that wake a task\<close>

lemma word_nonzero_bit: "w \<noteq> 0 \<longleftrightarrow> (\<exists>n. bit (w :: u32) n)"
  using bit_imp_le_length [of w] by (auto simp: bit_eq_iff)

lemma bit_sigbit: "1 \<le> nr \<Longrightarrow> nr \<le> 32 \<Longrightarrow> bit (sigbit nr) n \<longleftrightarrow> n = nr - 1"
  by (auto simp: sigbit_def bit_simps)

text \<open>The alarm has gone off, and a signal (numbered from 1) that the mask does not hold back.\<close>

definition alarm_due :: "int \<Rightarrow> task_struct \<Rightarrow> bool" where
  "alarm_due now t \<longleftrightarrow> alarm t \<noteq> 0 \<and> alarm t < now"

definition deliverable :: "int \<Rightarrow> task_struct \<Rightarrow> nat \<Rightarrow> bool" where
  "deliverable now t nr \<longleftrightarrow> 1 \<le> nr \<and> nr \<le> 32 \<and>
     (bit (signal t) (nr - 1) \<or> nr = SIGALRM \<and> alarm_due now t) \<and>
     (nr = SIGKILL \<or> nr = SIGSTOP \<or> \<not> bit (blocked t) (nr - 1))"

lemma deliverable_word:
  "signal t AND NOT (BLOCKABLE AND blocked t) \<noteq> 0 \<longleftrightarrow>
   (\<exists>nr. 1 \<le> nr \<and> nr \<le> 32 \<and> bit (signal t) (nr - 1) \<and>
     (nr = SIGKILL \<or> nr = SIGSTOP \<or> \<not> bit (blocked t) (nr - 1)))"
    (is "?l \<longleftrightarrow> ?r")
proof -
  have b: "bit (BLOCKABLE) n \<longleftrightarrow> n < 32 \<and> n \<noteq> 8 \<and> n \<noteq> 18" for n
    unfolding BLOCKABLE_def bit_not_iff bit_or_iff by (auto simp: bit_sigbit kconst)
  have "bit (signal t AND NOT (BLOCKABLE AND blocked t)) n \<longleftrightarrow>
      bit (signal t) n \<and> \<not> (n \<noteq> 8 \<and> n \<noteq> 18 \<and> bit (blocked t) n)" for n
    unfolding bit_and_iff bit_not_iff b by (auto dest: bit_imp_le_length)
  then have "?l \<longleftrightarrow> (\<exists>n. bit (signal t) n \<and> \<not> (n \<noteq> 8 \<and> n \<noteq> 18 \<and> bit (blocked t) n))"
    by (simp only: word_nonzero_bit)
  also have "\<dots> \<longleftrightarrow> ?r"
  proof
    assume "\<exists>n. bit (signal t) n \<and> \<not> (n \<noteq> 8 \<and> n \<noteq> 18 \<and> bit (blocked t) n)"
    then obtain n where n: "bit (signal t) n" "n = 8 \<or> n = 18 \<or> \<not> bit (blocked t) n" by auto
    then have "n < 32" using bit_imp_le_length [OF n(1)] by simp
    then show ?r using n by (intro exI [of _ "Suc n"]) (auto simp: kconst)
  next
    assume ?r
    then show "\<exists>n. bit (signal t) n \<and> \<not> (n \<noteq> 8 \<and> n \<noteq> 18 \<and> bit (blocked t) n)"
      by (auto simp: kconst)
  qed
  finally show ?thesis .
qed

lemma signals_wake:
  "state (check_signals now t) =
     (if state t = TASK_INTERRUPTIBLE \<and> (\<exists>nr. deliverable now t nr) then TASK_RUNNING else state t) \<and>
   (\<forall>n. bit (signal (check_signals now t)) n = (bit (signal t) n \<or> n = SIGALRM - 1 \<and> alarm_due now t)) \<and>
   alarm (check_signals now t) = (if alarm_due now t then 0 else alarm t)"
proof -
  let ?t = "if alarm_due now t then t\<lparr>signal := signal t OR sigbit SIGALRM, alarm := 0\<rparr> else t"
  have f: "state ?t = state t" "blocked ?t = blocked t" by simp_all
  have b: "bit (signal ?t) n = (bit (signal t) n \<or> n = SIGALRM - 1 \<and> alarm_due now t)" for n
    by (auto simp: bit_or_iff bit_sigbit kconst)
  have wake: "signal ?t AND NOT (BLOCKABLE AND blocked ?t) \<noteq> 0 \<longleftrightarrow> (\<exists>nr. deliverable now t nr)"
    by (subst deliverable_word [of ?t], unfold deliverable_def b f(2), rule ex_cong1)
      (auto simp: kconst)
  have "check_signals now t =
    (if signal ?t AND NOT (BLOCKABLE AND blocked ?t) \<noteq> 0 \<and> state ?t = TASK_INTERRUPTIBLE
     then ?t\<lparr>state := TASK_RUNNING\<rparr> else ?t)"
    unfolding check_signals_def alarm_due_def Let_def by (rule refl)
  then have c: "check_signals now t =
    (if (\<exists>nr. deliverable now t nr) \<and> state t = TASK_INTERRUPTIBLE then ?t\<lparr>state := TASK_RUNNING\<rparr> else ?t)"
    unfolding wake f(1) .
  have "signal (check_signals now t) = signal ?t" "alarm (check_signals now t) = alarm ?t"
    "state (check_signals now t) = (if (\<exists>nr. deliverable now t nr) \<and> state t = TASK_INTERRUPTIBLE then TASK_RUNNING else state t)"
    unfolding c by auto
  then show ?thesis using b by auto
qed

subsection \<open>The timer list\<close>

primrec tpath :: "kernel \<Rightarrow> nat option \<Rightarrow> nat list \<Rightarrow> bool" where
  "tpath s p [] \<longleftrightarrow> p = None"
| "tpath s p (n # ns) \<longleftrightarrow> p = Some n \<and> tpath s (tm_next (timer_list s n)) ns"

definition tcontents :: "kernel \<Rightarrow> nat list \<Rightarrow> (timer_fn option \<times> int) list" where
  "tcontents s ns = map (\<lambda>n. (tm_fn (timer_list s n), tm_jiffies (timer_list s n))) ns"

fun insert_timer :: "timer_fn option \<Rightarrow> int \<Rightarrow> (timer_fn option \<times> int) list \<Rightarrow> (timer_fn option \<times> int) list" where
  "insert_timer f t [] = [(f, t)]"
| "insert_timer f t ((g, d) # xs) = (if d < t then (g, d) # insert_timer f (t - d) xs else (f, t) # (g, d) # xs)"

lemma tpath_cong:
  "(\<And>n. n \<in> set ns \<Longrightarrow> tm_next (timer_list s' n) = tm_next (timer_list s n)) \<Longrightarrow> tpath s' p ns = tpath s p ns"
  by (induction ns arbitrary: p) auto

lemma tcontents_cong:
  "(\<And>n. n \<in> set ns \<Longrightarrow> timer_list s' n = timer_list s n) \<Longrightarrow> tcontents s' ns = tcontents s ns"
  by (simp add: tcontents_def)

lemma sift_timer_frame:
  "next_timer (sift_timer n p s) = next_timer s \<and>
   (\<forall>m. tm_next (timer_list (sift_timer n p s) m) = tm_next (timer_list s m))"
proof (induction n arbitrary: p s)
  case 0
  then show ?case by simp
next
  case (Suc n)
  then show ?case
    by (cases "tm_next (timer_list s p)") (auto simp: Let_def upd_timer_def)
qed

lemma sift_timer_refines:
  assumes "tpath s (tm_next (timer_list s p)) ns" "distinct (p # ns)" "length ns < n"
  shows "tcontents (sift_timer n p s) (p # ns) =
      insert_timer (tm_fn (timer_list s p)) (tm_jiffies (timer_list s p)) (tcontents s ns) \<and>
    (\<forall>m. m \<notin> set (p # ns) \<longrightarrow> timer_list (sift_timer n p s) m = timer_list s m)"
  using assms
proof (induction ns arbitrary: p s n)
  case Nil
  then show ?case by (cases n) (simp_all add: tcontents_def)
next
  case (Cons q ns)
  then obtain m where n: "n = Suc m" by (cases n) auto
  let ?tp = "timer_list s p" and ?tq = "timer_list s q"
  have q: "tm_next ?tp = Some q" "tpath s (tm_next ?tq) ns" using Cons.prems(1) by simp_all
  show ?case
  proof (cases "tm_jiffies ?tq < tm_jiffies ?tp")
    case False
    then show ?thesis by (simp add: n q(1) Let_def tcontents_def)
  next
    case True
    let ?s1 = "upd_timer p (\<lambda>t. t\<lparr>tm_fn := tm_fn ?tq, tm_jiffies := tm_jiffies ?tq\<rparr>) s"
    let ?s2 = "upd_timer q (\<lambda>t. t\<lparr>tm_fn := tm_fn ?tp, tm_jiffies := tm_jiffies ?tp - tm_jiffies ?tq\<rparr>) ?s1"
    have run: "sift_timer n p s = sift_timer m q ?s2" using True by (simp add: n q(1) Let_def)
    have pq: "p \<noteq> q" "p \<notin> set ns" "q \<notin> set ns" using Cons.prems(2) by auto
    have t2: "timer_list ?s2 q = ?tq\<lparr>tm_fn := tm_fn ?tp, tm_jiffies := tm_jiffies ?tp - tm_jiffies ?tq\<rparr>"
      "timer_list ?s2 p = ?tp\<lparr>tm_fn := tm_fn ?tq, tm_jiffies := tm_jiffies ?tq\<rparr>"
      "\<And>k. k \<noteq> p \<Longrightarrow> k \<noteq> q \<Longrightarrow> timer_list ?s2 k = timer_list s k"
      using pq(1) by (simp_all add: upd_timer_def)
    have path: "tpath ?s2 (tm_next (timer_list ?s2 q)) ns"
      using q(2) by (subst tpath_cong [of _ _ s]) (auto simp: upd_timer_def)
    note ih = Cons.IH [OF path, of m]
    have same: "tcontents ?s2 ns = tcontents s ns"
      by (rule tcontents_cong, rule t2(3)) (use pq in auto)
    have "tcontents (sift_timer m q ?s2) (q # ns) =
        insert_timer (tm_fn ?tp) (tm_jiffies ?tp - tm_jiffies ?tq) (tcontents s ns)"
      and "\<forall>k. k \<notin> set (q # ns) \<longrightarrow> timer_list (sift_timer m q ?s2) k = timer_list ?s2 k"
      using ih Cons.prems(2,3) n same t2(1) by simp_all
    then show ?thesis
      using run pq t2 True by (simp add: tcontents_def)
  qed
qed

lemma insert_timer_split:
  assumes "0 < t" "\<forall>x \<in> set xs. 0 \<le> snd x"
  shows "\<exists>pre post d. xs = pre @ post \<and> insert_timer f t xs = pre @ (f, d) # post \<and>
    0 < d \<and> (\<Sum>x \<leftarrow> pre. snd x) + d = t"
  using assms
proof (induction xs arbitrary: t)
  case Nil
  then show ?case by auto
next
  case (Cons x xs)
  obtain g e where x: "x = (g, e)" by (cases x)
  show ?case
  proof (cases "e < t")
    case True
    then obtain pre post d where "xs = pre @ post" "insert_timer f (t - e) xs = pre @ (f, d) # post"
        "0 < d" "(\<Sum>x \<leftarrow> pre. snd x) + d = t - e"
      using Cons.IH [of "t - e"] Cons.prems by auto
    then show ?thesis using True x by (intro exI [of _ "x # pre"] exI [of _ post] exI [of _ d]) simp
  next
    case False
    then show ?thesis using x Cons.prems by (intro exI [of _ "[]"] exI [of _ "x # xs"] exI [of _ t]) simp
  qed
qed

text \<open>The list of armed timers: a path of distinct entries, exactly those with a function.\<close>

definition timers_ok :: "kernel \<Rightarrow> nat list \<Rightarrow> bool" where
  "timers_ok s ns \<longleftrightarrow> tpath s (next_timer s) ns \<and> distinct ns \<and>
     (\<forall>i. i \<in> set ns \<longleftrightarrow> i < TIME_REQUESTS \<and> tm_fn (timer_list s i) \<noteq> None)"

lemma add_timer_run:
  assumes ok: "timers_ok s ns" and j: "0 < j"
  shows "if length ns = TIME_REQUESTS
    then add_timer run j (Some f) s es = Stop (Panicked ''No more time requests free'') s
    else \<exists>p s'. add_timer run j (Some f) s es = Ret () s' es \<and> timers_ok s' (p # ns) \<and>
      tcontents s' (p # ns) = insert_timer (Some f) j (tcontents s ns)"
proof -
  have sub: "set ns \<subseteq> {..<TIME_REQUESTS}" "distinct ns" using ok by (auto simp: timers_ok_def)
  then have len: "length ns \<le> TIME_REQUESTS"
    using card_mono [OF finite_lessThan sub(1)] distinct_card [OF sub(2)] by simp
  show ?thesis
  proof (cases "first_upto (\<lambda>i. tm_fn (timer_list s i) = None) TIME_REQUESTS")
    case None
    then have "set ns = {..<TIME_REQUESTS}" using ok by (auto simp: first_upto_None timers_ok_def)
    then have "length ns = TIME_REQUESTS" using distinct_card [OF sub(2)] by simp
    then show ?thesis using None j by (simp add: add_timer_def krun)
  next
    case (Some p)
    note p = first_upto_Some [OF Some]
    have pn: "p \<notin> set ns" using p ok by (auto simp: timers_ok_def)
    have "length ns \<noteq> TIME_REQUESTS"
    proof
      assume "length ns = TIME_REQUESTS"
      then have "set ns = {..<TIME_REQUESTS}"
        using sub by (intro card_subset_eq) (simp_all add: distinct_card)
      then show False using p pn by simp
    qed
    let ?s1 = "(upd_timer p (\<lambda>_. \<lparr>tm_jiffies = j, tm_fn = Some f, tm_next = next_timer s\<rparr>) s)\<lparr>next_timer := Some p\<rparr>"
    let ?s2 = "sift_timer TIME_REQUESTS p ?s1"
    have run: "add_timer run j (Some f) s es = Ret () ?s2 es"
      using Some j by (simp add: add_timer_def krun)
    have t1: "timer_list ?s1 p = \<lparr>tm_jiffies = j, tm_fn = Some f, tm_next = next_timer s\<rparr>"
      "\<And>k. k \<noteq> p \<Longrightarrow> timer_list ?s1 k = timer_list s k" by (simp_all add: upd_timer_def)
    have e: "timer_list ?s1 n = timer_list s n" if "n \<in> set ns" for n
      by (rule t1(2)) (use that pn in auto)
    have "tpath ?s1 (next_timer s) ns = tpath s (next_timer s) ns"
      by (rule tpath_cong) (simp only: e)
    then have path: "tpath ?s1 (tm_next (timer_list ?s1 p)) ns"
      using ok by (simp only: t1(1) timer.simps timers_ok_def)
    have same: "tcontents ?s1 ns = tcontents s ns" by (rule tcontents_cong) (rule e)
    have lt: "length ns < TIME_REQUESTS" using len \<open>length ns \<noteq> _\<close> by simp
    note ref = sift_timer_refines [OF path _ lt]
    have cont: "tcontents ?s2 (p # ns) = insert_timer (Some f) j (tcontents s ns)"
      and frame: "\<forall>m. m \<notin> set (p # ns) \<longrightarrow> timer_list ?s2 m = timer_list ?s1 m"
      using ref pn sub(2) same t1(1) by simp_all
    have path2: "tpath ?s2 (next_timer ?s2) (p # ns)"
      using path sift_timer_frame [of TIME_REQUESTS p ?s1] by (subst tpath_cong [of _ _ ?s1]) auto
    have fns: "\<forall>x \<in> set (insert_timer (Some f) j xs). fst x \<noteq> None" if "\<forall>x \<in> set xs. fst x \<noteq> None" for xs j
      using that by (induction "Some f" j xs rule: insert_timer.induct) auto
    have "\<forall>x \<in> set (tcontents s ns). fst x \<noteq> None" using ok by (auto simp: timers_ok_def tcontents_def)
    then have "\<forall>x \<in> set (tcontents ?s2 (p # ns)). fst x \<noteq> None" unfolding cont by (rule fns)
    then have "\<forall>i \<in> set (p # ns). tm_fn (timer_list ?s2 i) \<noteq> None" by (simp add: tcontents_def)
    moreover have "i \<in> set (p # ns)" if "i < TIME_REQUESTS" "tm_fn (timer_list ?s2 i) \<noteq> None" for i
    proof (rule ccontr)
      assume "i \<notin> set (p # ns)"
      then have "timer_list ?s2 i = timer_list s i" using frame t1(2) by simp
      then show False using that ok \<open>i \<notin> set (p # ns)\<close> by (auto simp: timers_ok_def)
    qed
    ultimately have "timers_ok ?s2 (p # ns)"
      using path2 pn sub p unfolding timers_ok_def by auto
    then show ?thesis using run cont \<open>length ns \<noteq> _\<close> by auto
  qed
qed

subsection \<open>Giving up the processor\<close>

lemma each_task_tsk: "\<exists>t. each_task f s = s\<lparr>tsk := t\<rparr>"
proof -
  have "\<exists>t. fold (\<lambda>i s. case task s i of None \<Rightarrow> s | Some p \<Rightarrow> upd_task p f s) xs s = s\<lparr>tsk := t\<rparr>" for xs
  proof (induction xs arbitrary: s)
    case Nil
    then show ?case by (intro exI [of _ "tsk s"]) simp
  next
    case (Cons i xs)
    show ?case
    proof (cases "task s i")
      case None
      then show ?thesis using Cons by simp
    next
      case (Some p)
      obtain t where "fold (\<lambda>i s. case task s i of None \<Rightarrow> s | Some p \<Rightarrow> upd_task p f s) xs (upd_task p f s)
        = (upd_task p f s)\<lparr>tsk := t\<rparr>" using Cons by blast
      then show ?thesis using Some by (simp add: upd_task_def) blast
    qed
  qed
  then show ?thesis by (simp add: each_task_def)
qed

lemma pick_runnable: "snd (pick s) = 0 \<or> runnable s (snd (pick s))"
proof -
  have "snd (fold (pick_step s) ixs cn) = 0 \<or> runnable s (snd (fold (pick_step s) ixs cn))"
    if "set ixs \<subseteq> {1..<NR_TASKS}" "snd cn = 0 \<or> runnable s (snd cn)" for ixs cn
    using that
  proof (induction ixs arbitrary: cn)
    case Nil
    then show ?case by simp
  next
    case (Cons i ixs)
    have "snd (pick_step s i cn) = 0 \<or> runnable s (snd (pick_step s i cn))"
      using Cons.prems by (auto simp: pick_step_def runnable_iff split: option.splits)
    then show ?case using Cons by simp
  qed
  moreover have "set (rev [1..<NR_TASKS]) = {1..<NR_TASKS}" by auto
  ultimately show ?thesis unfolding pick_def by (metis order_refl snd_conv)
qed

lemma choose_runnable:
  "choose_task k s es = Ret n s' es' \<Longrightarrow>
   es' = es \<and> (n = 0 \<or> runnable s' n) \<and> (\<exists>t. s' = s\<lparr>tsk := t\<rparr>)"
proof (induction k arbitrary: s)
  case 0
  then show ?case by (simp add: krun)
next
  case (Suc k)
  show ?case
  proof (cases "fst (pick s) = 0")
    case True
    then have "choose_task k (each_task recount s) es = Ret n s' es'" using Suc.prems by (simp add: krun)
    then have ih: "es' = es \<and> (n = 0 \<or> runnable s' n) \<and> (\<exists>t. s' = (each_task recount s)\<lparr>tsk := t\<rparr>)"
      by (rule Suc.IH)
    moreover obtain t where "each_task recount s = s\<lparr>tsk := t\<rparr>" using each_task_tsk by blast
    ultimately show ?thesis by auto
  next
    case False
    then show ?thesis using Suc.prems pick_runnable [of s]
      by (auto simp: krun intro: exI [of _ "tsk s"])
  qed
qed

text \<open>
  A scheduling point keeps every property that does not look at the task structures or at
  \<open>current\<close> and that the rest of the system keeps; the task that returns is the same.
\<close>

definition task_blind :: "(kernel \<Rightarrow> bool) \<Rightarrow> bool" where
  "task_blind I \<longleftrightarrow> (\<forall>s t c. I (s\<lparr>tsk := t, current := c\<rparr>) = I s)"

definition env_keeps :: "(kernel \<Rightarrow> kernel) set \<Rightarrow> (kernel \<Rightarrow> bool) \<Rightarrow> bool" where
  "env_keeps E I \<longleftrightarrow> (\<forall>e \<in> E. \<forall>s. I s \<longrightarrow> I (e s))"

lemma task_blindD:
  assumes "task_blind I"
  shows "I (s\<lparr>tsk := t\<rparr>) = I s" "I (s\<lparr>current := c\<rparr>) = I s" "I (upd_task p f s) = I s"
proof -
  have "s\<lparr>tsk := t, current := current s\<rparr> = s\<lparr>tsk := t\<rparr>" for t by (cases s) simp
  then show t: "I (s\<lparr>tsk := t\<rparr>) = I s" for t using assms by (metis task_blind_def)
  have "I (s\<lparr>tsk := tsk s, current := c\<rparr>) = I s" using assms by (simp only: task_blind_def)
  then show "I (s\<lparr>current := c\<rparr>) = I s" by simp
  show "I (upd_task p f s) = I s" by (simp add: upd_task_def t)
qed

lemma wpg_choose:
  assumes "\<And>n t. n = 0 \<or> runnable (s\<lparr>tsk := t\<rparr>) n \<Longrightarrow> Q n (s\<lparr>tsk := t\<rparr>)" and "F Hung"
  shows "wpg F E (choose_task k) Q s"
  unfolding wpg_def
proof (intro allI impI)
  fix es :: "(kernel \<Rightarrow> kernel) list" assume es: "set es \<subseteq> E"
  have hung: "r = Hung" if "choose_task k s es = Stop r s'" for k r s s'
    using that by (induction k arbitrary: s) (auto simp: krun split: if_splits)
  show "case choose_task k s es of Ret a s' es' \<Rightarrow> Q a s' \<and> set es' \<subseteq> E | Stop r s' \<Rightarrow> F r"
  proof (cases "choose_task k s es")
    case (Ret n s' es')
    then show ?thesis using choose_runnable [OF Ret] assms es by auto
  next
    case (Stop r s')
    then show ?thesis using hung [OF Stop] assms by simp
  qed
qed

lemma wpg_schedule:
  assumes I: "I s" "task_blind I" "env_keeps E I" and F: "F Hung" "F Wild" "F Asleep"
  shows "wpg F E schedule (\<lambda>_ s'. I s' \<and> current s' = current s) s"
proof -
  obtain t where t: "each_task (check_signals (jiffies s)) s = s\<lparr>tsk := t\<rparr>" using each_task_tsk by blast
  show ?thesis
    unfolding schedule_def switch_to_def
    by (intro wpg_seq wpg_modify wpg_bnd wpg_choose, unfold t)
      (use assms in \<open>auto intro!: wpr simp: task_blindD env_keeps_def\<close>)
qed

text \<open>A task that is not runnable returns from \<open>schedule\<close> only after the others have run.\<close>

lemma schedule_passes:
  assumes ret: "schedule s es = Ret u s' es'" and zero: "task s 0 = Some (init_task s)"
    and me: "current s \<noteq> init_task s" "state (cur s) \<noteq> TASK_RUNNING" "state (cur s) \<noteq> TASK_INTERRUPTIBLE"
  shows "length es' < length es"
proof -
  let ?s1 = "each_task (check_signals (jiffies s)) s"
  obtain t where t: "?s1 = s\<lparr>tsk := t\<rparr>" using each_task_tsk by blast
  have st: "state (tsk (fold (\<lambda>i s. case task s i of None \<Rightarrow> s | Some p \<Rightarrow> upd_task p (check_signals now) s) xs s) p) = state (tsk s p)"
    if "state (tsk s p) \<noteq> TASK_INTERRUPTIBLE" for xs s p now
    using that
    by (induction xs arbitrary: s) (auto simp: upd_task_def signals_wake split: option.splits)
  obtain n s2 es2 where ch: "choose_task 100 ?s1 es = Ret n s2 es2" and sw: "switch_to n s2 es2 = Ret u s' es'"
    using ret by (auto simp: schedule_def krun split: res.splits)
  from choose_runnable [OF ch] obtain t2 where es2: "es2 = es" and n: "n = 0 \<or> runnable s2 n" and s2: "s2 = ?s1\<lparr>tsk := t2\<rparr>"
    by blast
  have keep: "state (tsk s2 p) = state (tsk ?s1 p)" for p
  proof -
    have rc: "state (tsk (each_task recount s) p) = state (tsk s p)" for s
    proof -
      have "state (tsk (fold (\<lambda>i s. case task s i of None \<Rightarrow> s | Some p \<Rightarrow> upd_task p recount s) xs s) p) = state (tsk s p)" for xs
        by (induction xs arbitrary: s) (auto simp: upd_task_def recount_def split: option.splits)
      then show ?thesis by (simp add: each_task_def)
    qed
    have "choose_task k s es = Ret n s2 es2 \<Longrightarrow> state (tsk s2 p) = state (tsk s p)" for k s
      by (induction k arbitrary: s) (auto simp: krun rc split: if_splits)
    then show ?thesis using ch by blast
  qed
  have mine: "state (tsk s2 (current s)) = state (cur s)"
    using keep st me(3) by (simp add: each_task_def)
  have cur2: "current s2 = current s" "task s2 = task s" by (simp_all add: s2 t)
  have "task s2 n \<noteq> Some (current s2)"
  proof
    assume *: "task s2 n = Some (current s2)"
    then have "n \<noteq> 0" using zero me(1) cur2 by (cases n) auto
    then have "state (tsk s2 (current s2)) = TASK_RUNNING" using n * by (simp add: runnable_iff)
    then show False using mine me(2) cur2 by simp
  qed
  then show ?thesis
    using sw es2 by (auto simp: switch_to_def krun pass_def split: option.splits list.splits)
qed

lemma sleep_on_passes:
  assumes "sleep_on q s es = Ret u s' es'" and "task s 0 = Some (init_task s)"
  shows "length es' < length es"
proof -
  have f: "task (set_q q w s) = task s" "init_task (set_q q w s) = init_task s"
      "current (set_q q w s) = current s" for w s
    by (cases q; simp add: upd_defs upd_tty_def)+
  let ?s = "set_state TASK_UNINTERRUPTIBLE (current s) (set_q q (Some (current s)) s)"
  have me: "current s \<noteq> init_task s" using assms(1) by (auto simp: sleep_on_def krun split: if_splits)
  then obtain v s1 where sch: "schedule ?s es = Ret v s1 es'"
    using assms(1) by (auto simp: sleep_on_def krun f split: res.splits option.splits)
  show ?thesis
    by (rule schedule_passes [OF sch]) (use assms(2) me in \<open>simp_all add: f set_state_def upd_task_def kconst\<close>)
qed

lemma wpg_sleep_on:
  assumes I: "I s" "task_blind I" "env_keeps E I" and q: "\<And>s w. I (set_q q w s) = I s"
    and F: "F Hung" "F Wild" "F Asleep" "F (Panicked ''task[0] trying to sleep'')"
  shows "wpg F E (sleep_on q) (\<lambda>_ s'. I s' \<and> current s' = current s) s"
proof -
  have f: "current (set_q q w s) = current s" "current (set_state a p s) = current s" for w a p s
    by (cases q; simp add: upd_defs upd_tty_def set_state_def)+
  have i: "I (set_state a p s) = I s" for a p s
    using task_blindD(3) [OF I(2)] by (simp add: set_state_def)
  have "I (set_state TASK_UNINTERRUPTIBLE (current s) (set_q q (Some (current s)) s))"
    using I(1) by (simp add: i q)
  note sch = wpg_schedule [OF this I(2,3) F(1-3), unfolded f]
  show ?thesis
    unfolding sleep_on_def
    by (intro wpr; (unfold f)?; (rule wpg_post [OF sch])?)
      (use F i f in \<open>auto intro!: wpr simp: f i\<close>)
qed

subsection \<open>What the scheduler promises\<close>


text \<open>Two tasks and the idle task, all counters used up.\<close>

definition sched0 :: kernel where
  "sched0 = blank_kernel\<lparr>task := (\<lambda>i. if i = 0 then Some 0 else if i = 1 then Some 0x1000 else if i = 2 then Some 0x2000 else None),
     tsk := (\<lambda>p. blank_task_struct\<lparr>priority := 15, counter := 5\<rparr>),
     current := 0x1000, wait_motor := (\<lambda>_. Some 0x2000)\<rparr>"

lemma sched0_loops:
  assumes t: "task s = task sched0"
  shows "each_task f s = upd_task 0x1000 f (upd_task 0x2000 f s)"
    "pick s = pick_step s 1 (pick_step s 2 (- 1, 0))"
proof -
  have up: "rev [1..<NR_TASKS] = rev [3..<NR_TASKS] @ [2, 1]"
  proof -
    have "[1..<NR_TASKS] = 1 # [2..<NR_TASKS]" "[2..<NR_TASKS] = 2 # [3..<NR_TASKS]"
      by (subst upt_conv_Cons; simp add: kconst)+
    then show ?thesis by simp
  qed
  have none: "fold (\<lambda>i s. case task s i of None \<Rightarrow> s | Some p \<Rightarrow> upd_task p f s) ixs s = s \<and> fold (pick_step s) ixs cn = cn"
    if "set ixs \<subseteq> {3..<NR_TASKS}" "task s = task sched0" for ixs f cn s
    using that by (induction ixs) (auto simp: sched0_def pick_step_def)
  have sub: "set (rev [3..<NR_TASKS]) \<subseteq> {3..<NR_TASKS}" by auto
  show "pick s = pick_step s 1 (pick_step s 2 (- 1, 0))"
    unfolding pick_def up using none [OF sub t] by simp
  show "each_task f s = upd_task 0x1000 f (upd_task 0x2000 f s)"
  proof -
    have "task s (Suc 0) = Some 0x1000" "task s 2 = Some 0x2000" using t by (simp_all add: sched0_def)
    then show ?thesis
      unfolding each_task_def up using none [OF sub t] by (simp add: upd_task_def)
  qed
qed





text \<open>
  C24. Adding a timer that is due in \<open>j\<close> ticks puts it where the ticks of the entries before it
  and its own sum to \<open>j\<close>, and leaves the entries before it as they were.  The entries after it
  keep their own ticks too, so each of them becomes due later, by the ticks of the new entry.
\<close>

lemma add_timer_due:
  assumes "timers_ok s ns" "0 < j" "length ns < TIME_REQUESTS" "\<forall>x \<in> set (tcontents s ns). 0 \<le> snd x"
  shows "\<exists>p s' pre post d. add_timer run j (Some f) s es = Ret () s' es \<and> timers_ok s' (p # ns) \<and>
    tcontents s ns = pre @ post \<and> tcontents s' (p # ns) = pre @ (Some f, d) # post \<and>
    0 < d \<and> (\<Sum>x \<leftarrow> pre. snd x) + d = j"
proof -
  obtain p s' where "add_timer run j (Some f) s es = Ret () s' es" "timers_ok s' (p # ns)"
      "tcontents s' (p # ns) = insert_timer (Some f) j (tcontents s ns)"
    using add_timer_run [OF assms(1,2), of run f es] assms(3) by (auto split: if_splits)
  moreover obtain pre post d where "tcontents s ns = pre @ post"
      "insert_timer (Some f) j (tcontents s ns) = pre @ (Some f, d) # post"
      "0 < d" "(\<Sum>x \<leftarrow> pre. snd x) + d = j"
    using insert_timer_split [OF assms(2,4)] by blast
  ultimately show ?thesis by metis
qed

text \<open>One timer is armed, due in 5 ticks.\<close>

definition sched1 :: kernel where
  "sched1 = blank_kernel\<lparr>next_timer := Some 0,
     timer_list := (\<lambda>i. if i = 0 then \<lparr>tm_jiffies = 5, tm_fn = Some Transfer, tm_next = None\<rparr> else blank_timer)\<rparr>"

lemma add_timer_due_witness:
  "\<exists>p s'. add_timer (\<lambda>_. skip) 3 (Some Floppy_on_interrupt) sched1 [] = Ret () s' [] \<and>
    tcontents s' [p, 0] = [(Some Floppy_on_interrupt, 3), (Some Transfer, 5)]"
proof -
  have ok: "timers_ok sched1 [0]" by (simp add: timers_ok_def sched1_def blank_timer_def kconst)
  have c: "tcontents sched1 [0] = [(Some Transfer, 5)]" by (simp add: tcontents_def sched1_def)
  obtain p s' pre post d where r: "add_timer (\<lambda>_. skip) 3 (Some Floppy_on_interrupt) sched1 [] = Ret () s' []"
      "[(Some Transfer, 5)] = pre @ post" "tcontents s' [p, 0] = pre @ (Some Floppy_on_interrupt, d) # post"
      "0 < d" "(\<Sum>x \<leftarrow> pre. snd x) + d = 3"
    using add_timer_due [OF ok, of 3 "\<lambda>_. skip" Floppy_on_interrupt "[]"] by (auto simp: c kconst)
  then have "pre = []" by (cases pre) auto
  then show ?thesis using r by auto
qed

end
