(* ===== verification/Blkdev.thy ===== *)
theory Blkdev
  imports Sched
begin

unbundle bit_operations_syntax

text \<open>
  kernel/blk_drv/blk.h: what every block driver shares.  The requests of a device are linked
  from \<open>current_request\<close>, the one being served; a free request has device \<open>- 1\<close>.
\<close>

definition NR_REQUEST :: nat where [kconst]: "NR_REQUEST = 32"
definition NR_BLK_DEV :: nat where [kconst]: "NR_BLK_DEV = 7"

text \<open>\<open>MAJOR\<close> and \<open>MINOR\<close> of the \<open>int\<close> device number of a request.\<close>

definition req_major :: "int \<Rightarrow> nat" where
  "req_major d = nat ((d mod 4294967296) div 256)"

definition req_minor :: "int \<Rightarrow> nat" where
  "req_minor d = nat (d mod 256)"

text \<open>\<open>CURRENT\<close> of a driver; a driver that follows it when it is NULL leaves the model.\<close>

definition with_current :: "nat \<Rightarrow> (rptr \<Rightarrow> 'a K) \<Rightarrow> 'a K" where
  "with_current major f =
     bnd (gets (\<lambda>s. current_request (blk_dev s major))) (\<lambda>c. case c of None \<Rightarrow> stop Wild | Some r \<Rightarrow> f r)"

definition blk_unlock_buffer :: "bptr \<Rightarrow> unit K" where
  "blk_unlock_buffer b = block [modify (upd_buf b (\<lambda>h. h\<lparr>b_lock := 0\<rparr>)), wake_up (Q_buf b)]"

text \<open>\<open>off\<close> is \<open>DEVICE_OFF\<close>: it switches the floppy motor off, and is empty for the others.\<close>

definition end_request :: "nat \<Rightarrow> (int \<Rightarrow> unit K) \<Rightarrow> u8 \<Rightarrow> unit K" where
  "end_request major off uptodate = with_current major (\<lambda>r. block
     [bnd (gets (\<lambda>s. r_dev (requests s r))) off,
      bnd (gets (\<lambda>s. r_bh (requests s r))) (\<lambda>bh. case bh of
        None \<Rightarrow> skip
      | Some b \<Rightarrow> block [modify (upd_buf b (\<lambda>h. h\<lparr>b_uptodate := uptodate\<rparr>)), blk_unlock_buffer b]),
      wake_up (Q_waiting r),
      wake_up Q_request,
      modify (upd_req r (\<lambda>q. q\<lparr>r_dev := - 1\<rparr>)),
      modify (\<lambda>s. s\<lparr>blk_dev := (blk_dev s)(major :=
        (blk_dev s major)\<lparr>current_request := r_next (requests s r)\<rparr>)\<rparr>)])"

text \<open>\<open>INIT_REQUEST\<close>: \<open>None\<close> is the \<open>return\<close> when no request is left.\<close>

definition INIT_REQUEST :: "nat \<Rightarrow> rptr option K" where
  "INIT_REQUEST major =
     bnd (gets (\<lambda>s. current_request (blk_dev s major))) (\<lambda>c. case c of
       None \<Rightarrow> ret None
     | Some r \<Rightarrow> bnd (gets (\<lambda>s. requests s r)) (\<lambda>q.
         if req_major (r_dev q) \<noteq> major then kpanic ''request list destroyed''
         else case r_bh q of
           None \<Rightarrow> ret (Some r)
         | Some b \<Rightarrow> bnd (gets (\<lambda>s. b_lock (bufs s b))) (\<lambda>l.
             if l = 0 then kpanic ''block not locked'' else ret (Some r))))"

definition no_motor :: "int \<Rightarrow> unit K" where
  "no_motor dev = skip"

definition set_request_fn :: "nat \<Rightarrow> request_fn_t \<Rightarrow> kernel \<Rightarrow> kernel" where
  "set_request_fn major f s =
     s\<lparr>blk_dev := (blk_dev s)(major := (blk_dev s major)\<lparr>request_fn := Some f\<rparr>)\<rparr>"

text \<open>
  \<open>n\<close> bytes of the block that the request buffer \<open>(b, k)\<close> points into, read and written; a copy
  that leaves the block leaves the model.
\<close>

definition buffer_bytes :: "bptr \<times> nat \<Rightarrow> nat \<Rightarrow> u8 list K" where
  "buffer_bytes p n = (if snd p + n > 1024 then stop Wild
     else gets (\<lambda>s. bytes_of (b_data (bufs s (fst p))) (snd p) n))"

definition buffer_store :: "bptr \<times> nat \<Rightarrow> u8 list \<Rightarrow> unit K" where
  "buffer_store p xs = (if snd p + length xs > 1024 then stop Wild
     else modify (upd_buf (fst p) (\<lambda>h. h\<lparr>b_data := store_bytes (b_data h) (snd p) xs\<rparr>)))"

text \<open>Polling a status port, at most \<open>n\<close> times; the last byte read.\<close>

fun poll :: "nat \<Rightarrow> nat \<Rightarrow> (u8 \<Rightarrow> bool) \<Rightarrow> u8 \<Rightarrow> u8 K" where
  "poll 0 p ok v = ret v"
| "poll (Suc n) p ok v = bnd (inb p) (\<lambda>w. if ok w then ret w else poll n p ok w)"

text \<open>A 16-bit string transfer moves the bytes of the port in order (\<open>insw\<close>, \<open>outsw\<close>).\<close>

fun in_bytes :: "nat \<Rightarrow> nat \<Rightarrow> u8 list K" where
  "in_bytes p 0 = ret []"
| "in_bytes p (Suc n) = bnd (inb p) (\<lambda>v. bnd (in_bytes p n) (\<lambda>vs. ret (v # vs)))"

definition out_bytes :: "nat \<Rightarrow> u8 list \<Rightarrow> unit K" where
  "out_bytes p vs = for_each vs (\<lambda>v. outb v p)"

end
