(* ===== verification/Ramdisk.thy ===== *)
theory Ramdisk
  imports Blkdev
begin

unbundle bit_operations_syntax

text \<open>
  kernel/blk_drv/ramdisk.c: the driver that serves its requests from memory.  \<open>rd_mem\<close> is the
  memory of the disk, from \<open>rd_start\<close> on.  An address outside it that passes the driver's test
  (the additions wrap) leaves the model.
\<close>

definition rd_round :: "unit option K" where
  "rd_round = bnd (INIT_REQUEST 1) (\<lambda>c. case c of
     None \<Rightarrow> ret (Some ())
   | Some r \<Rightarrow> bnd (gets (\<lambda>s. requests s r)) (\<lambda>q.
       bnd (gets (\<lambda>s. (rd_start s, rd_length s))) (\<lambda>(st, ln).
       let addr = st + push_bit 9 (r_sector q);
           len = push_bit 9 (r_nr_sectors q);
           at = unat (addr - st)
       in if req_minor (r_dev q) \<noteq> 1 \<or> addr + len > st + ln
          then seq (end_request 1 no_motor 0) (ret None)
          else if at + unat len > unat ln then stop Wild
          else if r_cmd q = WRITE
          then seq (bnd (buffer_bytes (r_buffer q) (unat len)) (\<lambda>xs.
                 modify (\<lambda>s. s\<lparr>rd_mem := store_bytes (rd_mem s) at xs\<rparr>)))
                 (seq (end_request 1 no_motor 1) (ret None))
          else if r_cmd q = READ
          then seq (bnd (gets (\<lambda>s. bytes_of (rd_mem s) at (unat len))) (buffer_store (r_buffer q)))
                 (seq (end_request 1 no_motor 1) (ret None))
          else kpanic ''unknown ramdisk-command'')))"

text \<open>Every round ends a request, and there are \<open>NR_REQUEST\<close> of them.\<close>

definition do_rd_request :: "unit K" where
  "do_rd_request = repeat_fuel (Suc NR_REQUEST) rd_round"

definition rd_init :: "u32 \<Rightarrow> u32 \<Rightarrow> u32 K" where
  "rd_init mem_start len = seq (block
     [modify (set_request_fn 1 Do_rd_request),
      modify (\<lambda>s. s\<lparr>rd_start := mem_start, rd_length := len\<rparr>),
      for_each [0..<unat len] (\<lambda>i. modify (\<lambda>s. s\<lparr>rd_mem := (rd_mem s)(i := 0)\<rparr>))])
     (ret len)"

end
