(* ===== verification/Hd.thy ===== *)
theory Hd
  imports Blkdev
begin

unbundle bit_operations_syntax

text \<open>
  kernel/blk_drv/hd.c: the hard disk driver.  A command is a sequence of bytes written to the
  controller's ports, and the interrupt handler that it leaves in \<open>do_hd\<close> goes on from there.
\<close>

definition HD_DATA :: nat where [kconst]: "HD_DATA = 0x1f0"
definition HD_ERROR :: nat where [kconst]: "HD_ERROR = 0x1f1"
definition HD_STATUS :: nat where [kconst]: "HD_STATUS = 0x1f7"
definition HD_CMD :: nat where [kconst]: "HD_CMD = 0x3f6"
definition ERR_STAT :: u8 where [kconst]: "ERR_STAT = 0x01"
definition DRQ_STAT :: u8 where [kconst]: "DRQ_STAT = 0x08"
definition SEEK_STAT :: u8 where [kconst]: "SEEK_STAT = 0x10"
definition WRERR_STAT :: u8 where [kconst]: "WRERR_STAT = 0x20"
definition READY_STAT :: u8 where [kconst]: "READY_STAT = 0x40"
definition BUSY_STAT :: u8 where [kconst]: "BUSY_STAT = 0x80"
definition WIN_RESTORE :: u32 where [kconst]: "WIN_RESTORE = 0x10"
definition WIN_READ :: u32 where [kconst]: "WIN_READ = 0x20"
definition WIN_WRITE :: u32 where [kconst]: "WIN_WRITE = 0x30"
definition WIN_SPECIFY :: u32 where [kconst]: "WIN_SPECIFY = 0x91"
definition HD_MAX_ERRORS :: int where [kconst]: "HD_MAX_ERRORS = 7"
definition MAX_HD :: nat where [kconst]: "MAX_HD = 2"

text \<open>\<open>while (--retries && ...)\<close>: the retries that are left, 0 when the controller is not ready.\<close>

fun ready_loop :: "nat \<Rightarrow> nat K" where
  "ready_loop 0 = ret 0"
| "ready_loop (Suc n) =
     (if n = 0 then ret 0
      else bnd (inb HD_STATUS) (\<lambda>v. if v AND 0xc0 \<noteq> 0x40 then ready_loop n else ret n))"

definition controller_ready :: "nat K" where
  "controller_ready = ready_loop 10000"

definition win_result :: "bool K" where
  "win_result = bnd (inb HD_STATUS) (\<lambda>i.
     if i AND (BUSY_STAT OR READY_STAT OR WRERR_STAT OR SEEK_STAT OR ERR_STAT) = READY_STAT OR SEEK_STAT
     then ret False
     else if i AND 1 \<noteq> 0 then bnd (inb HD_ERROR) (\<lambda>_. ret True) else ret True)"

definition hd_out :: "u32 \<Rightarrow> u32 \<Rightarrow> u32 \<Rightarrow> u32 \<Rightarrow> u32 \<Rightarrow> u32 \<Rightarrow> hd_fn \<Rightarrow> unit K" where
  "hd_out drive nsect sect head cyl cmd intr_addr =
     (if drive > 1 \<or> head > 15 then kpanic ''Trying to write bad sector''
      else bnd controller_ready (\<lambda>rdy.
        if rdy = 0 then kpanic ''HD controller not ready''
        else block
          [modify (\<lambda>s. s\<lparr>do_hd := Some intr_addr\<rparr>),
           bnd (gets (\<lambda>s. hd_info s (unat drive))) (\<lambda>i. block
             [outb (ucast (hd_ctl i)) HD_CMD,
              outb (ucast (drop_bit 2 (hd_wpcom i))) (HD_DATA + 1),
              outb (ucast nsect) (HD_DATA + 2),
              outb (ucast sect) (HD_DATA + 3),
              outb (ucast cyl) (HD_DATA + 4),
              outb (ucast (drop_bit 8 cyl)) (HD_DATA + 5),
              outb (ucast (0xA0 OR push_bit 4 drive OR head)) (HD_DATA + 6),
              outb (ucast cmd) (HD_DATA + 7)])]))"

definition drive_busy :: "bool K" where
  "drive_busy =
     bnd (poll 10000 HD_STATUS (\<lambda>v. v AND (BUSY_STAT OR READY_STAT) = READY_STAT) 0) (\<lambda>_.
     bnd (inb HD_STATUS) (\<lambda>i.
       ret (i AND (BUSY_STAT OR READY_STAT OR SEEK_STAT) \<noteq> READY_STAT OR SEEK_STAT)))"

definition reset_controller :: "unit K" where
  "reset_controller = block
     [outb 4 HD_CMD,
      bnd (gets (\<lambda>s. hd_ctl (hd_info s 0))) (\<lambda>c. outb (ucast (c AND 0x0f)) HD_CMD),
      bnd drive_busy (\<lambda>_. skip),
      bnd (inb HD_ERROR) (\<lambda>_. skip)]"

definition reset_hd :: "nat \<Rightarrow> unit K" where
  "reset_hd nr = seq reset_controller
     (bnd (gets (\<lambda>s. hd_info s nr)) (\<lambda>i.
       hd_out (of_nat nr) (hd_sect i) (hd_sect i) (hd_head i - 1) (hd_cyl i) WIN_SPECIFY Recal_intr))"

text \<open>
  \<open>bad_rw_intr\<close> reads \<open>CURRENT->errors\<close> again after it may have ended the request: when that was
  the last one, the read goes through a NULL pointer, to the word at address 8.
\<close>

definition current_errors :: "kernel \<Rightarrow> int" where
  "current_errors s = (case current_request (blk_dev s 3) of
     None \<Rightarrow> sint (phys s 8) | Some r \<Rightarrow> r_errors (requests s r))"

definition bad_rw_intr :: "unit K" where
  "bad_rw_intr = block
     [with_current 3 (\<lambda>r. seq (modify (upd_req r (\<lambda>q. q\<lparr>r_errors := r_errors q + 1\<rparr>)))
        (bnd (gets (\<lambda>s. r_errors (requests s r))) (\<lambda>e.
           guardK (e \<ge> HD_MAX_ERRORS) (end_request 3 no_motor 0)))),
      bnd (gets current_errors) (\<lambda>e. guardK (e > HD_MAX_ERRORS div 2) (modify (\<lambda>s. s\<lparr>hd_reset := 1\<rparr>)))]"

text \<open>The cylinder, head and sector of a block on a disk with the given geometry.\<close>

definition chs :: "hd_i_struct \<Rightarrow> u32 \<Rightarrow> u32 \<times> u32 \<times> u32" where
  "chs i blk = (let sec = blk mod hd_sect i; blk' = blk div hd_sect i
     in (blk' div hd_head i, blk' mod hd_head i, sec + 1))"

definition port_read_current :: "unit K" where
  "port_read_current = with_current 3 (\<lambda>r.
     bnd (gets (\<lambda>s. r_buffer (requests s r))) (\<lambda>p. bnd (in_bytes HD_DATA 512) (buffer_store p)))"

definition port_write_current :: "unit K" where
  "port_write_current = with_current 3 (\<lambda>r.
     bnd (gets (\<lambda>s. r_buffer (requests s r))) (\<lambda>p. bnd (buffer_bytes p 512) (out_bytes HD_DATA)))"

definition hd_round :: "unit option K" where
  "hd_round = bnd (INIT_REQUEST 3) (\<lambda>c. case c of
     None \<Rightarrow> ret (Some ())
   | Some r \<Rightarrow> bnd (gets (\<lambda>s. s)) (\<lambda>s.
       let q = requests s r; dev = req_minor (r_dev q); blk = r_sector q in
       if dev \<ge> 5 * NR_HD s \<or> blk + 2 > nr_sects (hd s dev)
       then seq (end_request 3 no_motor 0) (ret None)
       else let drv = dev div 5; i = hd_info s drv in
         if hd_sect i = 0 \<or> hd_head i = 0 then stop Wild
         else case chs i (blk + start_sect (hd s dev)) of (cyl, hd', sec) \<Rightarrow>
           if hd_reset s \<noteq> 0
           then seq (block [modify (\<lambda>s. s\<lparr>hd_reset := 0, hd_recalibrate := 1\<rparr>), reset_hd drv]) (ret (Some ()))
           else if hd_recalibrate s \<noteq> 0
           then seq (block [modify (\<lambda>s. s\<lparr>hd_recalibrate := 0\<rparr>),
                            hd_out (of_nat drv) (hd_sect i) 0 0 0 WIN_RESTORE Recal_intr]) (ret (Some ()))
           else if r_cmd q = WRITE
           then seq (hd_out (of_nat drv) (r_nr_sectors q) sec hd' cyl WIN_WRITE Write_intr)
                  (bnd (poll 3000 HD_STATUS (\<lambda>v. v AND DRQ_STAT \<noteq> 0) 0) (\<lambda>v.
                     if v AND DRQ_STAT = 0 then seq bad_rw_intr (ret None)
                     else seq port_write_current (ret (Some ()))))
           else if r_cmd q = READ
           then seq (hd_out (of_nat drv) (r_nr_sectors q) sec hd' cyl WIN_READ Read_intr) (ret (Some ()))
           else kpanic ''unknown hd-command''))"

text \<open>
  A round that repeats has ended a request or counted one more error of it, and a request is
  ended at its seventh error: 8 rounds for each of the 32 requests are enough.
\<close>

definition do_hd_request :: "unit K" where
  "do_hd_request = repeat_fuel (Suc (8 * NR_REQUEST)) hd_round"

definition read_intr :: "unit K" where
  "read_intr = bnd win_result (\<lambda>bad.
     if bad then block [bad_rw_intr, do_hd_request]
     else seq port_read_current (with_current 3 (\<lambda>r. seq
       (modify (upd_req r (\<lambda>q. q\<lparr>r_errors := 0,
          r_buffer := (fst (r_buffer q), snd (r_buffer q) + 512),
          r_sector := r_sector q + 1, r_nr_sectors := r_nr_sectors q - 1\<rparr>)))
       (bnd (gets (\<lambda>s. r_nr_sectors (requests s r))) (\<lambda>n.
          if n \<noteq> 0 then modify (\<lambda>s. s\<lparr>do_hd := Some Read_intr\<rparr>)
          else block [end_request 3 no_motor 1, do_hd_request])))))"

definition write_intr :: "unit K" where
  "write_intr = bnd win_result (\<lambda>bad.
     if bad then block [bad_rw_intr, do_hd_request]
     else with_current 3 (\<lambda>r. seq
       (modify (upd_req r (\<lambda>q. q\<lparr>r_nr_sectors := r_nr_sectors q - 1\<rparr>)))
       (bnd (gets (\<lambda>s. r_nr_sectors (requests s r))) (\<lambda>n.
          if n \<noteq> 0
          then block
            [modify (upd_req r (\<lambda>q. q\<lparr>r_sector := r_sector q + 1,
               r_buffer := (fst (r_buffer q), snd (r_buffer q) + 512)\<rparr>)),
             modify (\<lambda>s. s\<lparr>do_hd := Some Write_intr\<rparr>),
             port_write_current]
          else block [end_request 3 no_motor 1, do_hd_request]))))"

definition recal_intr :: "unit K" where
  "recal_intr = bnd win_result (\<lambda>bad. block [guardK bad bad_rw_intr, do_hd_request])"

definition unexpected_hd_interrupt :: "unit K" where
  "unexpected_hd_interrupt = skip"

definition hd_interrupt :: "unit K" where
  "hd_interrupt = seq (outb 0x20 0xA0) (bnd (gets do_hd) (\<lambda>f. block
     [modify (\<lambda>s. s\<lparr>do_hd := None\<rparr>),
      outb 0x20 0x20,
      case f of None \<Rightarrow> unexpected_hd_interrupt
      | Some Read_intr \<Rightarrow> read_intr | Some Write_intr \<Rightarrow> write_intr | Some Recal_intr \<Rightarrow> recal_intr]))"

definition hd_init :: "unit K" where
  "hd_init = block
     [modify (set_request_fn 3 Do_hd_request),
      bnd (inb 0x21) (\<lambda>v. outb (v AND 0xfb) 0x21),
      bnd (inb 0xA1) (\<lambda>v. outb (v AND 0xbf) 0xA1)]"

end
