(* ===== verification/Floppy.thy ===== *)
theory Floppy
  imports Blkdev
begin

unbundle bit_operations_syntax

text \<open>
  kernel/blk_drv/floppy.c: the floppy driver.  The transfer itself is the DMA controller's and
  so outside the model; what the driver programs into the ports, and its state machine of seek,
  recalibrate, reset and transfer interrupts, is modelled.  \<open>fd_type\<close> is the index of the
  current type in the table \<open>floppy_type\<close>.
\<close>

definition FD_STATUS :: nat where [kconst]: "FD_STATUS = 0x3f4"
definition FD_DATA :: nat where [kconst]: "FD_DATA = 0x3f5"
definition FD_DIR :: nat where [kconst]: "FD_DIR = 0x3f7"
definition FD_DCR :: nat where [kconst]: "FD_DCR = 0x3f7"
definition STATUS_BUSY :: u8 where [kconst]: "STATUS_BUSY = 0x10"
definition STATUS_DIR :: u8 where [kconst]: "STATUS_DIR = 0x40"
definition STATUS_READY :: u8 where [kconst]: "STATUS_READY = 0x80"
definition FD_RECALIBRATE :: u8 where [kconst]: "FD_RECALIBRATE = 0x07"
definition FD_SEEK :: u8 where [kconst]: "FD_SEEK = 0x0F"
definition FD_READ :: u8 where [kconst]: "FD_READ = 0xE6"
definition FD_WRITE :: u8 where [kconst]: "FD_WRITE = 0xC5"
definition FD_SENSEI :: u8 where [kconst]: "FD_SENSEI = 0x08"
definition FD_SPECIFY :: u8 where [kconst]: "FD_SPECIFY = 0x03"
definition DMA_READ :: u8 where [kconst]: "DMA_READ = 0x46"
definition DMA_WRITE :: u8 where [kconst]: "DMA_WRITE = 0x4A"
definition FD_MAX_ERRORS :: int where [kconst]: "FD_MAX_ERRORS = 8"
definition MAX_REPLIES :: nat where [kconst]: "MAX_REPLIES = 7"

record floppy_struct =
  fl_size :: u32
  fl_sect :: u32
  fl_head :: u32
  fl_track :: u32
  fl_stretch :: nat
  fl_gap :: u8
  fl_rate :: u8
  fl_spec1 :: u8

definition floppy_type :: "floppy_struct list" where
  "floppy_type =
    [\<lparr>fl_size = 0, fl_sect = 0, fl_head = 0, fl_track = 0, fl_stretch = 0,
      fl_gap = 0x00, fl_rate = 0x00, fl_spec1 = 0x00\<rparr>,
     \<lparr>fl_size = 720, fl_sect = 9, fl_head = 2, fl_track = 40, fl_stretch = 0,
      fl_gap = 0x2A, fl_rate = 0x02, fl_spec1 = 0xDF\<rparr>,
     \<lparr>fl_size = 2400, fl_sect = 15, fl_head = 2, fl_track = 80, fl_stretch = 0,
      fl_gap = 0x1B, fl_rate = 0x00, fl_spec1 = 0xDF\<rparr>,
     \<lparr>fl_size = 720, fl_sect = 9, fl_head = 2, fl_track = 40, fl_stretch = 1,
      fl_gap = 0x2A, fl_rate = 0x02, fl_spec1 = 0xDF\<rparr>,
     \<lparr>fl_size = 1440, fl_sect = 9, fl_head = 2, fl_track = 80, fl_stretch = 0,
      fl_gap = 0x2A, fl_rate = 0x02, fl_spec1 = 0xDF\<rparr>,
     \<lparr>fl_size = 720, fl_sect = 9, fl_head = 2, fl_track = 40, fl_stretch = 1,
      fl_gap = 0x23, fl_rate = 0x01, fl_spec1 = 0xDF\<rparr>,
     \<lparr>fl_size = 1440, fl_sect = 9, fl_head = 2, fl_track = 80, fl_stretch = 0,
      fl_gap = 0x23, fl_rate = 0x01, fl_spec1 = 0xDF\<rparr>,
     \<lparr>fl_size = 2880, fl_sect = 18, fl_head = 2, fl_track = 80, fl_stretch = 0,
      fl_gap = 0x1B, fl_rate = 0x00, fl_spec1 = 0xCF\<rparr>]"

text \<open>\<open>*floppy\<close>; past the end of the table it is not a \<open>floppy_struct\<close>.\<close>

definition with_floppy :: "(floppy_struct \<Rightarrow> 'a K) \<Rightarrow> 'a K" where
  "with_floppy f = bnd (gets fd_type) (\<lambda>i.
     if i < length floppy_type then f (floppy_type ! i) else stop Wild)"

definition DEVICE_NR_FD :: "int \<Rightarrow> nat" where
  "DEVICE_NR_FD d = nat (d mod 4)"

definition fd_motor_off :: "int \<Rightarrow> unit K" where
  "fd_motor_off d = floppy_off (DEVICE_NR_FD d)"

definition floppy_deselect :: "nat \<Rightarrow> unit K" where
  "floppy_deselect nr = block [modify (\<lambda>s. s\<lparr>selected := 0\<rparr>), wake_up Q_floppy_select]"

definition floppy_change :: "nat \<Rightarrow> int K" where
  "floppy_change nr = retry (seq (block [floppy_on nr,
      sleep_while (\<lambda>s. unat (current_DOR s AND 3) \<noteq> nr \<and> selected s \<noteq> 0)
        (interruptible_sleep_on Q_floppy_select)])
     (bnd (gets (\<lambda>s. unat (current_DOR s AND 3) \<noteq> nr)) (\<lambda>other.
       if other then ret None
       else bnd (inb FD_DIR) (\<lambda>v.
         if v AND 0x80 \<noteq> 0 then seq (floppy_off nr) (ret (Some 1))
         else seq (floppy_off nr) (ret (Some 0))))))"

text \<open>The address of \<open>tmp_floppy_area\<close> (boot/head.s) and of the buffer of the current request.\<close>

definition TMP_FLOPPY_AREA :: u32 where "TMP_FLOPPY_AREA = 0x5000"

definition buffer_addr :: "kernel \<Rightarrow> rptr \<Rightarrow> u32" where
  "buffer_addr s r = (case r_buffer (requests s r) of (b, k) \<Rightarrow> b_addr (bufs s b) + of_nat k)"

definition setup_DMA :: "unit K" where
  "setup_DMA = with_current 2 (\<lambda>r.
     bnd (gets (\<lambda>s. (buffer_addr s r, fd_command s, r_buffer (requests s r)))) (\<lambda>(a, cmd, p).
       seq (guardK (sint a \<ge> 0x100000 \<and> cmd = FD_WRITE)
              (bnd (buffer_bytes p 1024) (\<lambda>xs.
                 modify (\<lambda>s. s\<lparr>tmp_floppy_area := store_bytes (tmp_floppy_area s) 0 xs\<rparr>))))
         (let addr = (if sint a \<ge> 0x100000 then TMP_FLOPPY_AREA else a);
              dir = (if cmd = FD_READ then DMA_READ else DMA_WRITE)
          in block
            [outb 6 10,
             outb dir 12, outb dir 11,
             outb (ucast addr) 4,
             outb (ucast (drop_bit 8 addr)) 4,
             outb (ucast (drop_bit 16 addr)) 0x81,
             outb 0xff 5, outb 3 5, outb 2 10])))"

definition output_byte :: "u8 \<Rightarrow> unit K" where
  "output_byte b = bnd (gets fd_reset) (\<lambda>r.
     if r \<noteq> 0 then skip
     else bnd (poll 10000 FD_STATUS (\<lambda>v. v AND (STATUS_READY OR STATUS_DIR) = STATUS_READY) 0) (\<lambda>v.
       if v AND (STATUS_READY OR STATUS_DIR) = STATUS_READY then outb b FD_DATA
       else modify (\<lambda>s. s\<lparr>fd_reset := 1\<rparr>)))"

text \<open>The loop of \<open>result\<close>: the counter still to go and the replies so far; \<open>- 1\<close> gives up.\<close>

fun result_loop :: "nat \<Rightarrow> nat \<Rightarrow> int K" where
  "result_loop 0 i = ret (- 1)"
| "result_loop (Suc n) i = bnd (inb FD_STATUS) (\<lambda>v.
     let status = v AND (STATUS_DIR OR STATUS_READY OR STATUS_BUSY) in
     if status = STATUS_READY then ret (int i)
     else if status = STATUS_DIR OR STATUS_READY OR STATUS_BUSY
     then if i \<ge> MAX_REPLIES then ret (- 1)
          else bnd (inb FD_DATA) (\<lambda>w. seq
            (modify (\<lambda>s. s\<lparr>reply_buffer := (reply_buffer s)(i := w)\<rparr>)) (result_loop n (Suc i)))
     else result_loop n i)"

definition fd_result :: "int K" where
  "fd_result = bnd (gets fd_reset) (\<lambda>r.
     if r \<noteq> 0 then ret (- 1)
     else bnd (result_loop 10000 0) (\<lambda>n.
       if n < 0 then seq (modify (\<lambda>s. s\<lparr>fd_reset := 1\<rparr>)) (ret (- 1)) else ret n))"

definition fd_current_errors :: "kernel \<Rightarrow> int" where
  "fd_current_errors s = (case current_request (blk_dev s 2) of
     None \<Rightarrow> sint (phys s 8) | Some r \<Rightarrow> r_errors (requests s r))"

definition bad_flp_intr :: "unit K" where
  "bad_flp_intr = seq
     (with_current 2 (\<lambda>r. seq (modify (upd_req r (\<lambda>q. q\<lparr>r_errors := r_errors q + 1\<rparr>)))
        (bnd (gets (\<lambda>s. (r_errors (requests s r), unat (current_drive s)))) (\<lambda>(e, d).
           guardK (e > FD_MAX_ERRORS) (block [floppy_deselect d, end_request 2 fd_motor_off 0])))))
     (modify (\<lambda>s. if fd_current_errors s > FD_MAX_ERRORS div 2 then s\<lparr>fd_reset := 1\<rparr>
                  else s\<lparr>fd_recalibrate := 1\<rparr>))"

definition head_drive :: "kernel \<Rightarrow> u8" where
  "head_drive s = push_bit 2 (fd_head s) OR current_drive s"

definition out_var :: "(kernel \<Rightarrow> u8) \<Rightarrow> unit K" where
  "out_var f = bnd (gets f) output_byte"

text \<open>
  The functions below call each other in a circle: \<open>again\<close> is the call of \<open>do_fd_request\<close>.
\<close>

definition setup_rw_floppy :: "unit K \<Rightarrow> unit K" where
  "setup_rw_floppy again = block
     [setup_DMA,
      modify (\<lambda>s. s\<lparr>do_floppy := Some Rw_interrupt\<rparr>),
      out_var fd_command, out_var head_drive, out_var fd_track, out_var fd_head, out_var fd_sector,
      output_byte 2,
      with_floppy (\<lambda>f. output_byte (ucast (fl_sect f))),
      with_floppy (\<lambda>f. output_byte (fl_gap f)),
      output_byte 0xFF,
      bnd (gets fd_reset) (\<lambda>r. guardK (r \<noteq> 0) again)]"

definition transfer :: "unit K \<Rightarrow> unit K" where
  "transfer again = with_floppy (\<lambda>f. block
     [bnd (gets cur_spec1) (\<lambda>c. guardK (c \<noteq> uint (fl_spec1 f)) (block
        [modify (\<lambda>s. s\<lparr>cur_spec1 := uint (fl_spec1 f)\<rparr>),
         output_byte FD_SPECIFY, output_byte (fl_spec1 f), output_byte 6])),
      bnd (gets cur_rate) (\<lambda>c. guardK (c \<noteq> uint (fl_rate f)) (block
        [modify (\<lambda>s. s\<lparr>cur_rate := uint (fl_rate f)\<rparr>), outb (fl_rate f) FD_DCR])),
      bnd (gets (\<lambda>s. (fd_reset s, fd_seek s, seek_track s))) (\<lambda>(rs, sk, st).
        if rs \<noteq> 0 then again
        else if sk = 0 then setup_rw_floppy again
        else block
          [modify (\<lambda>s. s\<lparr>do_floppy := Some Seek_interrupt\<rparr>),
           if st \<noteq> 0 then block [output_byte FD_SEEK, out_var head_drive, output_byte st]
           else block [output_byte FD_RECALIBRATE, out_var head_drive],
           bnd (gets fd_reset) (\<lambda>r. guardK (r \<noteq> 0) again)])])"

definition recalibrate_floppy :: "unit K \<Rightarrow> unit K" where
  "recalibrate_floppy again = block
     [modify (\<lambda>s. s\<lparr>fd_recalibrate := 0, current_track := 0, do_floppy := Some Recal_interrupt\<rparr>),
      output_byte FD_RECALIBRATE, out_var head_drive,
      bnd (gets fd_reset) (\<lambda>r. guardK (r \<noteq> 0) again)]"

definition reset_floppy :: "unit K" where
  "reset_floppy = block
     [modify (\<lambda>s. s\<lparr>fd_reset := 0, cur_spec1 := - 1, cur_rate := - 1, fd_recalibrate := 1,
        do_floppy := Some Reset_interrupt\<rparr>),
      bnd (gets current_DOR) (\<lambda>d. outb (d AND NOT 4) FD_DOR),
      bnd (gets current_DOR) (\<lambda>d. outb d FD_DOR)]"

text \<open>A timer that is added with a delay of 2 ticks is never run at once.\<close>

definition floppy_on_interrupt :: "unit K \<Rightarrow> unit K" where
  "floppy_on_interrupt again = seq (modify (\<lambda>s. s\<lparr>selected := 1\<rparr>))
     (bnd (gets (\<lambda>s. (current_drive s, current_DOR s))) (\<lambda>(d, dor).
       if d \<noteq> dor AND 3
       then block
         [modify (\<lambda>s. s\<lparr>current_DOR := (dor AND 0xFC) OR d\<rparr>),
          outb ((dor AND 0xFC) OR d) FD_DOR,
          add_timer (\<lambda>_. stop Wild) 2 (Some Transfer)]
       else transfer again))"

definition run_timer :: "unit K \<Rightarrow> timer_fn \<Rightarrow> unit K" where
  "run_timer again f = (case f of Transfer \<Rightarrow> transfer again | Floppy_on_interrupt \<Rightarrow> floppy_on_interrupt again)"

text \<open>One round of the part of \<open>do_fd_request\<close> after \<open>INIT_REQUEST\<close>.\<close>

definition fd_round :: "unit K \<Rightarrow> unit option K" where
  "fd_round again = bnd (INIT_REQUEST 2) (\<lambda>c. case c of
     None \<Rightarrow> ret (Some ())
   | Some r \<Rightarrow> bnd (gets (\<lambda>s. requests s r)) (\<lambda>q.
       let drv = of_nat (DEVICE_NR_FD (r_dev q)) :: u8; blk = r_sector q in
       seq (block
         [modify (\<lambda>s. s\<lparr>fd_type := req_minor (r_dev q) div 4\<rparr>),
          modify (\<lambda>s. if current_drive s \<noteq> drv then s\<lparr>fd_seek := 1\<rparr> else s),
          modify (\<lambda>s. s\<lparr>current_drive := drv\<rparr>)])
       (with_floppy (\<lambda>f.
          if blk + 2 > fl_size f then seq (end_request 2 fd_motor_off 0) (ret None)
          else if fl_sect f = 0 \<or> fl_head f = 0 then stop Wild
          else let blk' = blk div fl_sect f; trk = blk' div fl_head f :: u32 in
            seq (block
              [modify (\<lambda>s. s\<lparr>fd_sector := ucast (blk mod fl_sect f) + 1,
                 fd_head := ucast (blk' mod fl_head f), fd_track := ucast trk,
                 seek_track := ucast (push_bit (fl_stretch f) (ucast trk :: u8))\<rparr>),
               modify (\<lambda>s. if seek_track s \<noteq> current_track s then s\<lparr>fd_seek := 1\<rparr> else s),
               if r_cmd q = READ then modify (\<lambda>s. s\<lparr>fd_command := FD_READ\<rparr>)
               else if r_cmd q = WRITE then modify (\<lambda>s. s\<lparr>fd_command := FD_WRITE\<rparr>)
               else kpanic ''do_fd_request: unknown command'',
               bnd (ticks_to_floppy_on (unat drv)) (\<lambda>t.
                 add_timer (run_timer again) t (Some Floppy_on_interrupt))])
            (ret (Some ()))))))"

definition fd_request_body :: "unit K \<Rightarrow> unit K" where
  "fd_request_body again = seq (modify (\<lambda>s. s\<lparr>fd_seek := 0\<rparr>))
     (bnd (gets (\<lambda>s. (fd_reset s, fd_recalibrate s))) (\<lambda>(rs, rc).
       if rs \<noteq> 0 then reset_floppy
       else if rc \<noteq> 0 then recalibrate_floppy again
       else repeat_fuel (Suc NR_REQUEST) (fd_round again)))"

text \<open>
  Every call of \<open>do_fd_request\<close> from inside is made when \<open>reset\<close> is set, and then it calls
  nothing: two levels are enough.
\<close>

definition do_fd_request :: "unit K" where
  "do_fd_request = fd_request_body (fd_request_body (stop Hung))"

definition rw_interrupt :: "unit K" where
  "rw_interrupt = bnd fd_result (\<lambda>n. bnd (gets reply_buffer) (\<lambda>st. bnd (gets (\<lambda>s. unat (current_drive s))) (\<lambda>d.
     if n \<noteq> 7 \<or> st 0 AND 0xf8 \<noteq> 0 \<or> st 1 AND 0xbf \<noteq> 0 \<or> st 2 AND 0x73 \<noteq> 0
     then block
       [if st 1 AND 0x02 \<noteq> 0 then block [floppy_deselect d, end_request 2 fd_motor_off 0]
        else bad_flp_intr,
        do_fd_request]
     else block
       [bnd (gets fd_command) (\<lambda>cmd. guardK (cmd = FD_READ) (with_current 2 (\<lambda>r.
          bnd (gets (\<lambda>s. (buffer_addr s r, r_buffer (requests s r)))) (\<lambda>(a, p).
            guardK (a \<ge> 0x100000)
              (bnd (gets (\<lambda>s. bytes_of (tmp_floppy_area s) 0 1024)) (buffer_store p)))))),
        floppy_deselect d,
        end_request 2 fd_motor_off 1,
        do_fd_request])))"

definition seek_interrupt :: "unit K" where
  "seek_interrupt = seq (output_byte FD_SENSEI)
     (bnd fd_result (\<lambda>n. bnd (gets (\<lambda>s. (reply_buffer s, seek_track s))) (\<lambda>(st, sk).
       if n \<noteq> 2 \<or> st 0 AND 0xF8 \<noteq> 0x20 \<or> st 1 \<noteq> sk
       then block [bad_flp_intr, do_fd_request]
       else block [modify (\<lambda>s. s\<lparr>current_track := st 1\<rparr>), setup_rw_floppy do_fd_request])))"

definition recal_interrupt :: "unit K" where
  "recal_interrupt = block
     [output_byte FD_SENSEI,
      bnd fd_result (\<lambda>n. modify (\<lambda>s.
        if n \<noteq> 2 \<or> reply_buffer s 0 AND 0xE0 = 0x60 then s\<lparr>fd_reset := 1\<rparr> else s\<lparr>fd_recalibrate := 0\<rparr>)),
      do_fd_request]"

definition unexpected_floppy_interrupt :: "unit K" where
  "unexpected_floppy_interrupt = block
     [output_byte FD_SENSEI,
      bnd fd_result (\<lambda>n. modify (\<lambda>s.
        if n \<noteq> 2 \<or> reply_buffer s 0 AND 0xE0 = 0x60 then s\<lparr>fd_reset := 1\<rparr> else s\<lparr>fd_recalibrate := 1\<rparr>))]"

definition reset_interrupt :: "unit K" where
  "reset_interrupt = block
     [output_byte FD_SENSEI,
      bnd fd_result (\<lambda>_. skip),
      output_byte FD_SPECIFY,
      out_var (\<lambda>s. word_of_int (cur_spec1 s)),
      output_byte 6,
      do_fd_request]"

definition floppy_interrupt :: "unit K" where
  "floppy_interrupt = seq (outb 0x20 0x20) (bnd (gets do_floppy) (\<lambda>f. seq
     (modify (\<lambda>s. s\<lparr>do_floppy := None\<rparr>))
     (case f of None \<Rightarrow> unexpected_floppy_interrupt
      | Some Rw_interrupt \<Rightarrow> rw_interrupt | Some Seek_interrupt \<Rightarrow> seek_interrupt
      | Some Recal_interrupt \<Rightarrow> recal_interrupt | Some Reset_interrupt \<Rightarrow> reset_interrupt)))"

definition floppy_init :: "unit K" where
  "floppy_init = block
     [modify (set_request_fn 2 Do_fd_request),
      bnd (inb 0x21) (\<lambda>v. outb (v AND NOT 0x40) 0x21)]"

text \<open>The timer interrupt, with the two functions that the timer list can hold.\<close>

definition timer_tick :: "int \<Rightarrow> unit K" where
  "timer_tick cpl = do_timer (run_timer do_fd_request) cpl"

subsection \<open>The recursion\<close>

text \<open>Two ways to go on that agree when \<open>reset\<close> is set.\<close>

definition same_on_reset :: "unit K \<Rightarrow> unit K \<Rightarrow> bool" where
  "same_on_reset a b \<longleftrightarrow> (\<forall>s es. fd_reset s \<noteq> 0 \<longrightarrow> a s es = b s es)"

lemma again_on_reset:
  assumes "same_on_reset a b"
  shows "bnd (gets fd_reset) (\<lambda>r. guardK (r \<noteq> 0) a) = bnd (gets fd_reset) (\<lambda>r. guardK (r \<noteq> 0) b)"
  using assms by (intro ext) (simp add: same_on_reset_def krun)

lemma setup_rw_same: "same_on_reset a b \<Longrightarrow> setup_rw_floppy a = setup_rw_floppy b"
  unfolding setup_rw_floppy_def by (simp add: again_on_reset)

lemma transfer_same: "same_on_reset a b \<Longrightarrow> transfer a = transfer b"
proof -
  assume ab: "same_on_reset a b"
  let ?rest = "\<lambda>a. bnd (gets (\<lambda>s. (fd_reset s, fd_seek s, seek_track s))) (\<lambda>(rs, sk, st).
        if rs \<noteq> 0 then a
        else if sk = 0 then setup_rw_floppy a
        else block
          [modify (\<lambda>s. s\<lparr>do_floppy := Some Seek_interrupt\<rparr>),
           if st \<noteq> 0 then block [output_byte FD_SEEK, out_var head_drive, output_byte st]
           else block [output_byte FD_RECALIBRATE, out_var head_drive],
           bnd (gets fd_reset) (\<lambda>r. guardK (r \<noteq> 0) a)])"
  have "?rest a = ?rest b"
    unfolding setup_rw_same [OF ab] again_on_reset [OF ab]
    using ab by (intro ext) (simp add: same_on_reset_def krun split: prod.split)
  then show "transfer a = transfer b" unfolding transfer_def by simp
qed

lemma recalibrate_same: "same_on_reset a b \<Longrightarrow> recalibrate_floppy a = recalibrate_floppy b"
  unfolding recalibrate_floppy_def by (simp add: again_on_reset)

lemma run_timer_same: "same_on_reset a b \<Longrightarrow> run_timer a = run_timer b"
  unfolding run_timer_def floppy_on_interrupt_def by (simp only: transfer_same)

lemma fd_body_same: "same_on_reset a b \<Longrightarrow> fd_request_body a = fd_request_body b"
  unfolding fd_request_body_def fd_round_def by (simp only: run_timer_same recalibrate_same)

lemma fd_body_reset: "same_on_reset (fd_request_body a) (fd_request_body b)"
  by (simp add: same_on_reset_def fd_request_body_def krun)


end
