(* ===== verification/Ll_rw.thy ===== *)
theory Ll_rw
  imports Ramdisk Hd Floppy
begin

unbundle bit_operations_syntax

text \<open>
  kernel/blk_drv/ll_rw_blk.c: the request queue between the buffer cache and the drivers.
\<close>

text \<open>The call through \<open>request_fn\<close>.\<close>

definition run_request :: "request_fn_t \<Rightarrow> unit K" where
  "run_request f = (case f of
     Do_rd_request \<Rightarrow> do_rd_request | Do_fd_request \<Rightarrow> do_fd_request | Do_hd_request \<Rightarrow> do_hd_request)"

definition lock_buffer :: "bptr \<Rightarrow> unit K" where
  "lock_buffer b = block
     [sleep_while (\<lambda>s. b_lock (bufs s b) \<noteq> 0) (sleep_on (Q_buf b)),
      modify (upd_buf b (\<lambda>h. h\<lparr>b_lock := 1\<rparr>))]"

definition unlock_buffer :: "bptr \<Rightarrow> unit K" where
  "unlock_buffer b = block [modify (upd_buf b (\<lambda>h. h\<lparr>b_lock := 0\<rparr>)), wake_up (Q_buf b)]"

definition IN_ORDER :: "request \<Rightarrow> request \<Rightarrow> bool" where
  "IN_ORDER s1 s2 \<longleftrightarrow> r_cmd s1 < r_cmd s2 \<or> (r_cmd s1 = r_cmd s2 \<and>
     (r_dev s1 < r_dev s2 \<or> (r_dev s1 = r_dev s2 \<and> r_sector s1 < r_sector s2)))"

text \<open>
  The \<open>for\<close> loop of \<open>add_request\<close>: the request to insert after.  A queue holds at most the 32
  requests of the table.
\<close>

fun insert_after :: "nat \<Rightarrow> kernel \<Rightarrow> request \<Rightarrow> rptr \<Rightarrow> rptr option" where
  "insert_after 0 s req tmp = None"
| "insert_after (Suc n) s req tmp =
     (case r_next (requests s tmp) of
        None \<Rightarrow> Some tmp
      | Some nx \<Rightarrow>
          if (IN_ORDER (requests s tmp) req \<or> \<not> IN_ORDER (requests s tmp) (requests s nx)) \<and>
             IN_ORDER req (requests s nx)
          then Some tmp else insert_after n s req nx)"

definition add_request :: "nat \<Rightarrow> rptr \<Rightarrow> unit K" where
  "add_request major req = seq (block
     [modify (upd_req req (\<lambda>q. q\<lparr>r_next := None\<rparr>)),
      bnd (gets (\<lambda>s. r_bh (requests s req))) (\<lambda>bh. case bh of
        None \<Rightarrow> skip | Some b \<Rightarrow> modify (upd_buf b (\<lambda>h. h\<lparr>b_dirt := 0\<rparr>)))])
     (bnd (gets (\<lambda>s. blk_dev s major)) (\<lambda>dev. case current_request dev of
        None \<Rightarrow> seq (modify (\<lambda>s. s\<lparr>blk_dev := (blk_dev s)(major :=
                  (blk_dev s major)\<lparr>current_request := Some req\<rparr>)\<rparr>))
                (case request_fn dev of None \<Rightarrow> stop Wild | Some f \<Rightarrow> run_request f)
      | Some first \<Rightarrow> bnd (gets (\<lambda>s. insert_after NR_REQUEST s (requests s req) first)) (\<lambda>r. case r of
            None \<Rightarrow> stop Hung
          | Some tmp \<Rightarrow> block
              [modify (\<lambda>s. upd_req req (\<lambda>q. q\<lparr>r_next := r_next (requests s tmp)\<rparr>) s),
               modify (upd_req tmp (\<lambda>q. q\<lparr>r_next := Some req\<rparr>))])))"

text \<open>The search for a free request, from the top of the part that the command may use.\<close>

definition request_limit :: "int \<Rightarrow> nat" where
  "request_limit rw = (if rw = READ then NR_REQUEST else NR_REQUEST * 2 div 3)"

definition free_request :: "int \<Rightarrow> kernel \<Rightarrow> rptr option" where
  "free_request rw s = last_below (\<lambda>i. r_dev (requests s i) < 0) (request_limit rw)"

definition fill_request :: "int \<Rightarrow> bptr \<Rightarrow> rptr \<Rightarrow> kernel \<Rightarrow> kernel" where
  "fill_request rw b r s = upd_req r (\<lambda>_.
     \<lparr>r_dev = uint (b_dev (bufs s b)), r_cmd = rw, r_errors = 0,
      r_sector = push_bit 1 (b_blocknr (bufs s b)), r_nr_sectors = 2, r_buffer = (b, 0),
      r_waiting = None, r_bh = Some b, r_next = None\<rparr>) s"

definition make_request :: "nat \<Rightarrow> int \<Rightarrow> bptr \<Rightarrow> unit K" where
  "make_request major rw0 b =
     (let rw_ahead = (rw0 = READA \<or> rw0 = WRITEA);
          rw = (if rw0 = READA then READ else if rw0 = WRITEA then WRITE else rw0)
      in bnd (gets (\<lambda>s. b_lock (bufs s b))) (\<lambda>l.
        if rw_ahead \<and> l \<noteq> 0 then skip
        else if rw \<noteq> READ \<and> rw \<noteq> WRITE then kpanic ''Bad block dev command, must be R/W/RA/WA''
        else seq (lock_buffer b)
          (bnd (gets (\<lambda>s. bufs s b)) (\<lambda>h.
            if rw = WRITE \<and> b_dirt h = 0 \<or> rw = READ \<and> b_uptodate h \<noteq> 0 then unlock_buffer b
            else retry (bnd (gets (free_request rw)) (\<lambda>f. case f of
              None \<Rightarrow> if rw_ahead then seq (unlock_buffer b) (ret (Some ()))
                      else seq (sleep_on Q_request) (ret None)
            | Some r \<Rightarrow> seq (block [modify (fill_request rw b r), add_request major r])
                         (ret (Some ()))))))))"

definition ll_rw_block :: "int \<Rightarrow> bptr \<Rightarrow> unit K" where
  "ll_rw_block rw b = bnd (gets (\<lambda>s. MAJOR (b_dev (bufs s b)))) (\<lambda>major.
     bnd (gets (\<lambda>s. request_fn (blk_dev s major))) (\<lambda>f.
       if major \<ge> NR_BLK_DEV \<or> f = None then skip else make_request major rw b))"

definition blk_dev_init :: "unit K" where
  "blk_dev_init = for_each [0..<NR_REQUEST] (\<lambda>i.
     modify (upd_req i (\<lambda>q. q\<lparr>r_dev := - 1, r_next := None\<rparr>)))"

end
