(* ===== verification/Elevator.thy ===== *)
theory Elevator
  imports Ll_rw
begin

text \<open>
  The order of the request queue (kernel/blk_drv/ll_rw_blk.c, \<open>add_request\<close>): the queue of a
  device is always made of at most two ascending runs, so the head of the disk turns back at
  most once on its way through the queue.
\<close>

subsection \<open>The order of requests\<close>

datatype rkey = Rkey (key_cmd: int) (key_dev: int) (key_sector: u32)

instantiation rkey :: linorder
begin

definition less_rkey :: "rkey \<Rightarrow> rkey \<Rightarrow> bool" where
  "less_rkey a b \<longleftrightarrow> key_cmd a < key_cmd b \<or> (key_cmd a = key_cmd b \<and>
     (key_dev a < key_dev b \<or> (key_dev a = key_dev b \<and> key_sector a < key_sector b)))"

definition less_eq_rkey :: "rkey \<Rightarrow> rkey \<Rightarrow> bool" where
  "less_eq_rkey a b \<longleftrightarrow> a < b \<or> a = (b :: rkey)"

instance
proof
  fix a b c :: rkey
  show "(a < b) = (a \<le> b \<and> \<not> b \<le> a)"
    by (cases a; cases b) (auto simp: less_rkey_def less_eq_rkey_def)
  show "a \<le> a" by (simp add: less_eq_rkey_def)
  show "a \<le> b \<Longrightarrow> b \<le> c \<Longrightarrow> a \<le> c"
    by (cases a; cases b; cases c) (auto simp: less_rkey_def less_eq_rkey_def)
  show "a \<le> b \<Longrightarrow> b \<le> a \<Longrightarrow> a = b"
    by (cases a; cases b) (auto simp: less_rkey_def less_eq_rkey_def)
  show "a \<le> b \<or> b \<le> a"
    by (cases a; cases b) (auto simp: less_rkey_def less_eq_rkey_def)
qed

end

definition request_key :: "request \<Rightarrow> rkey" where
  "request_key q = Rkey (r_cmd q) (r_dev q) (r_sector q)"

lemma IN_ORDER_key: "IN_ORDER a b \<longleftrightarrow> request_key a < request_key b"
  by (simp add: IN_ORDER_def request_key_def less_rkey_def)

subsection \<open>Insertion in a list\<close>

fun elevate :: "('a \<Rightarrow> 'k :: linorder) \<Rightarrow> 'a \<Rightarrow> 'a list \<Rightarrow> 'a list" where
  "elevate k x (t # u # us) =
     (if (k t < k x \<or> \<not> k t < k u) \<and> k x < k u then t # x # u # us else t # elevate k x (u # us))"
| "elevate k x [] = [x]"
| "elevate k x [t] = [t, x]"

fun two_runs :: "'k :: linorder list \<Rightarrow> bool" where
  "two_runs (t # u # us) \<longleftrightarrow> (if t < u then two_runs (u # us) else sorted_wrt (<) (u # us))"
| "two_runs [] \<longleftrightarrow> True"
| "two_runs [t] \<longleftrightarrow> True"

lemma elevate_splits:
  "ts \<noteq> [] \<Longrightarrow> \<exists>xs ys. ts = xs @ ys \<and> xs \<noteq> [] \<and> elevate k x ts = xs @ x # ys"
proof (induction k x ts rule: elevate.induct)
  case (1 k x t u us)
  show ?case
  proof (cases "(k t < k x \<or> \<not> k t < k u) \<and> k x < k u")
    case True
    then show ?thesis by (intro exI [of _ "[t]"] exI [of _ "u # us"]) simp
  next
    case False
    then obtain xs ys where "u # us = xs @ ys" "xs \<noteq> []" "elevate k x (u # us) = xs @ x # ys"
      using 1 by blast
    moreover have "elevate k x (t # u # us) = t # elevate k x (u # us)"
      by (simp only: elevate.simps(1) False if_False)
    ultimately have "t # u # us = (t # xs) @ ys \<and> t # xs \<noteq> [] \<and>
        elevate k x (t # u # us) = (t # xs) @ x # ys" by simp
    then show ?thesis by blast
  qed
next
  case (3 k x v)
  then show ?case by (intro exI [of _ "[v]"] exI [of _ "[]"]) simp
qed simp

lemma sorted_two_runs: "sorted_wrt (<) ts \<Longrightarrow> two_runs ts"
  by (induction ts rule: two_runs.induct) auto

lemma sorted_less_Cons2:
  "sorted_wrt (<) (t # u # us) \<longleftrightarrow> (t :: 'k :: linorder) < u \<and> sorted_wrt (<) (u # us)"
  by auto

lemma elevate_head: "\<exists>vs. elevate k x (t # ts) = t # vs"
  by (cases ts) auto

text \<open>In an ascending list the new element goes to its place, if it is not before the first.\<close>

lemma elevate_sorted:
  assumes "sorted_wrt (<) (map k (t # ts))" "k x \<notin> k ` set (t # ts)"
  shows "if k t < k x then sorted_wrt (<) (map k (elevate k x (t # ts)))
    else elevate k x (t # ts) = t # ts @ [x]"
  using assms
proof (induction ts arbitrary: t)
  case Nil
  then show ?case by auto
next
  case (Cons u us)
  have tu: "k t < k u" and u: "sorted_wrt (<) (map k (u # us))" "k x \<notin> k ` set (u # us)"
    using Cons.prems by auto
  note IH = Cons.IH [OF u]
  show ?case
  proof (cases "k t < k x")
    case True
    show ?thesis
    proof (cases "k x < k u")
      case True
      then show ?thesis using \<open>k t < k x\<close> Cons.prems by auto
    next
      case False
      then have "k u < k x" using u(2) by auto
      then have s: "sorted_wrt (<) (map k (elevate k x (u # us)))" using IH by simp
      obtain vs where "elevate k x (u # us) = u # vs" using elevate_head [of k x u us] by blast
      then have "sorted_wrt (<) (map k (t # elevate k x (u # us)))" using s tu by auto
      then show ?thesis using False \<open>k t < k x\<close> by simp
    qed
  next
    case False
    then have nu: "\<not> k u < k x" using tu by auto
    have "elevate k x (t # u # us) = t # elevate k x (u # us)" using False tu by simp
    then show ?thesis using IH nu False by (simp del: elevate.simps)
  qed
qed

lemma two_runs_snoc: "sorted_wrt (<) ts \<Longrightarrow> two_runs (ts @ [x])"
proof (induction ts rule: two_runs.induct)
  case (1 t u us)
  then show ?case by simp
next
  case (3 t)
  then show ?case by simp
qed simp

lemma elevate_two_runs:
  assumes "two_runs (map k (t # ts))" "distinct (map k (t # ts))" "k x \<notin> k ` set (t # ts)"
  shows "two_runs (map k (elevate k x (t # ts)))"
  using assms
proof (induction ts arbitrary: t)
  case Nil
  then show ?case by simp
next
  case (Cons u us)
  have u: "distinct (map k (u # us))" "k x \<notin> k ` set (u # us)" using Cons.prems by auto
  obtain vs where vs: "elevate k x (u # us) = u # vs" using elevate_head [of k x u us] by blast
  show ?case
  proof (cases "k t < k u")
    case True
    then have run: "two_runs (map k (u # us))" using Cons.prems(1) by simp
    show ?thesis
    proof (cases "k t < k x \<and> k x < k u")
      case True
      then show ?thesis using run by simp
    next
      case False
      then have "elevate k x (t # u # us) = t # elevate k x (u # us)" using True by auto
      then show ?thesis using Cons.IH [OF run u] vs True by simp
    qed
  next
    case turn: False
    then have s: "sorted_wrt (<) (map k (u # us))" using Cons.prems(1) by simp
    show ?thesis
    proof (cases "k x < k u")
      case True
      have "k x \<noteq> k t" using Cons.prems(3) by auto
      then show ?thesis using True turn s by auto
    next
      case False
      then have "k u < k x" using u(2) by auto
      then have "sorted_wrt (<) (map k (elevate k x (u # us)))" using elevate_sorted [OF s u(2)] by simp
      then show ?thesis using False turn vs by simp
    qed
  qed
qed

subsection \<open>The queue in memory\<close>

primrec rpath :: "kernel \<Rightarrow> rptr option \<Rightarrow> rptr list \<Rightarrow> bool" where
  "rpath s p [] \<longleftrightarrow> p = None"
| "rpath s p (r # rs) \<longleftrightarrow> p = Some r \<and> rpath s (r_next (requests s r)) rs"

definition key_of :: "kernel \<Rightarrow> rptr \<Rightarrow> rkey" where
  "key_of s r = request_key (requests s r)"

text \<open>The queue of a device, with no two requests for the same command and sector.\<close>

definition queue_ok :: "kernel \<Rightarrow> nat \<Rightarrow> rptr list \<Rightarrow> bool" where
  "queue_ok s major rs \<longleftrightarrow> rpath s (current_request (blk_dev s major)) rs \<and>
     length rs < NR_REQUEST \<and> distinct (map (key_of s) rs)"

lemma rpath_cong:
  "\<forall>r \<in> set rs. r_next (requests s' r) = r_next (requests s r) \<Longrightarrow> rpath s' p rs = rpath s p rs"
  by (induction rs arbitrary: p) auto

definition linked_after :: "rptr \<Rightarrow> rptr \<Rightarrow> kernel \<Rightarrow> kernel" where
  "linked_after t x s = upd_req t (\<lambda>q. q\<lparr>r_next := Some x\<rparr>)
     (upd_req x (\<lambda>q. q\<lparr>r_next := r_next (requests s t)\<rparr>) s)"

lemma linked_after_next:
  "t \<noteq> x \<Longrightarrow> r_next (requests (linked_after t x s) r) =
     (if r = t then Some x else if r = x then r_next (requests s t) else r_next (requests s r))"
  by (simp add: linked_after_def upd_req_def)

lemma rpath_insert:
  assumes "rpath s p (xs @ ys)" "xs \<noteq> []" "distinct (xs @ ys)" "x \<notin> set (xs @ ys)"
  shows "rpath (linked_after (last xs) x s) p (xs @ x # ys)"
  using assms
proof (induction xs arbitrary: p)
  case Nil
  then show ?case by simp
next
  case (Cons a xs)
  let ?s = "linked_after (last (a # xs)) x s"
  have tx: "last (a # xs) \<noteq> x" using Cons.prems(4) by (metis UnI1 last_in_set list.distinct(1) set_append)
  show ?case
  proof (cases "xs = []")
    case True
    have "rpath ?s (r_next (requests s a)) ys = rpath s (r_next (requests s a)) ys"
      using Cons.prems tx True by (intro rpath_cong) (auto simp: linked_after_next)
    then show ?thesis using Cons.prems tx True by (simp add: linked_after_next)
  next
    case False
    have la: "last xs \<noteq> a" using Cons.prems(3) False by auto
    have "rpath ?s (r_next (requests s a)) (xs @ x # ys)" using Cons False by simp
    then show ?thesis using Cons.prems tx la False by (simp add: linked_after_next)
  qed
qed

text \<open>The search for the place stops where \<open>elevate\<close> puts the new request.\<close>

lemma insert_after_elevate:
  assumes "rpath s (Some t) (t # ts)" "length (t # ts) \<le> n"
  shows "\<exists>xs ys. t # ts = xs @ ys \<and> xs \<noteq> [] \<and>
    insert_after n s (requests s x) t = Some (last xs) \<and>
    elevate (key_of s) x (t # ts) = xs @ x # ys"
  using assms
proof (induction ts arbitrary: n t)
  case Nil
  then show ?case by (intro exI [of _ "[t]"] exI [of _ "[]"]) (cases n; simp)
next
  case (Cons u us)
  obtain m where n: "n = Suc m" using Cons.prems(2) by (cases n) auto
  have nx: "r_next (requests s t) = Some u" and path: "rpath s (Some u) (u # us)"
    using Cons.prems(1) by auto
  let ?here = "(key_of s t < key_of s x \<or> \<not> key_of s t < key_of s u) \<and> key_of s x < key_of s u"
  have ins: "insert_after n s (requests s x) t =
      (if ?here then Some t else insert_after m s (requests s x) u)"
    by (simp add: n nx IN_ORDER_key key_of_def)
  show ?case
  proof (cases ?here)
    case True
    then show ?thesis using ins by (intro exI [of _ "[t]"] exI [of _ "u # us"]) simp
  next
    case False
    obtain xs ys where *: "u # us = xs @ ys" "xs \<noteq> []"
      "insert_after m s (requests s x) u = Some (last xs)"
      "elevate (key_of s) x (u # us) = xs @ x # ys"
      using Cons.IH [OF path, of m] Cons.prems(2) n by auto
    have "elevate (key_of s) x (t # u # us) = t # elevate (key_of s) x (u # us)"
      by (simp only: elevate.simps(1) False if_False)
    then have "t # u # us = (t # xs) @ ys \<and> t # xs \<noteq> [] \<and>
        insert_after n s (requests s x) t = Some (last (t # xs)) \<and>
        elevate (key_of s) x (t # u # us) = (t # xs) @ x # ys"
      using * ins False by simp
    then show ?thesis by blast
  qed
qed

lemma key_of_cong: "request_key (requests s' r) = request_key (requests s r) \<Longrightarrow> key_of s' r = key_of s r"
  by (simp add: key_of_def)

lemma upd_buf_req: "upd_buf b f (upd_req x g s) = upd_req x g (upd_buf b f s)"
  by (simp add: upd_buf_def upd_req_def)

lemma upd_req_twice: "upd_req x f (upd_req x g s) = upd_req x (\<lambda>q. f (g q)) s"
  by (simp add: upd_req_def)

lemma requests_upd [simp]:
  "requests (upd_req x f s) = (requests s)(x := f (requests s x))" "requests (upd_buf b g s) = requests s"
  "blk_dev (upd_req x f s) = blk_dev s" "blk_dev (upd_buf b g s) = blk_dev s"
  by (simp_all add: upd_req_def upd_buf_def)

definition clean_bh :: "bptr option \<Rightarrow> kernel \<Rightarrow> kernel" where
  "clean_bh bh s = (case bh of None \<Rightarrow> s | Some b \<Rightarrow> upd_buf b (\<lambda>h. h\<lparr>b_dirt := 0\<rparr>) s)"

lemma clean_bh_simps [simp]:
  "requests (clean_bh bh s) = requests s" "blk_dev (clean_bh bh s) = blk_dev s"
  "clean_bh bh (upd_req x f s) = upd_req x f (clean_bh bh s)"
  by (simp_all add: clean_bh_def upd_buf_req split: option.split)

lemma clean_bh_run:
  "(case bh of None \<Rightarrow> skip | Some b \<Rightarrow> modify (upd_buf b (\<lambda>h. h\<lparr>b_dirt := 0\<rparr>))) s es = Ret () (clean_bh bh s) es"
  by (simp add: clean_bh_def krun split: option.split)

lemma add_request_elevates:
  assumes q: "queue_ok s major (t # ts)" and x: "x \<notin> set (t # ts)"
  shows "\<exists>xs ys. t # ts = xs @ ys \<and> xs \<noteq> [] \<and> elevate (key_of s) x (t # ts) = xs @ x # ys \<and>
    add_request major x s es = Ret () (linked_after (last xs) x (clean_bh (r_bh (requests s x)) s)) es"
proof -
  let ?c = "clean_bh (r_bh (requests s x)) s"
  let ?s = "upd_req x (\<lambda>q. q\<lparr>r_next := None\<rparr>) ?c"
  have path: "rpath s (Some t) (t # ts)" and cur: "current_request (blk_dev s major) = Some t"
    and len: "length (t # ts) \<le> NR_REQUEST"
    using q by (auto simp: queue_ok_def)
  have "rpath ?s (Some t) (t # ts)"
    using path x by (subst rpath_cong [where s = s]) auto
  from insert_after_elevate [OF this len, of x]
  obtain xs ys where xy: "t # ts = xs @ ys" "xs \<noteq> []"
    "insert_after NR_REQUEST ?s (requests ?s x) t = Some (last xs)"
    "elevate (key_of ?s) x (t # ts) = xs @ x # ys" by blast
  have key: "key_of ?s = key_of s"
    by (rule ext) (simp add: key_of_def request_key_def)
  have tx: "last xs \<noteq> x" using x xy(1,2) by (metis UnI1 last_in_set set_append)
  have run: "add_request major x s es = Ret () (upd_req (last xs) (\<lambda>q. q\<lparr>r_next := Some x\<rparr>)
      (upd_req x (\<lambda>q. q\<lparr>r_next := r_next (requests ?s (last xs))\<rparr>) ?s)) es"
    using cur xy(3) by (simp add: add_request_def krun clean_bh_run del: requests_upd(1)) (simp add: krun)
  also have "upd_req (last xs) (\<lambda>q. q\<lparr>r_next := Some x\<rparr>)
      (upd_req x (\<lambda>q. q\<lparr>r_next := r_next (requests ?s (last xs))\<rparr>) ?s) = linked_after (last xs) x ?c"
    using tx by (simp add: linked_after_def upd_req_twice)
  finally show ?thesis using xy(1,2,4) key by auto
qed

lemma linked_after_simps [simp]:
  "blk_dev (linked_after t x s) = blk_dev s" "bufs (linked_after t x s) = bufs s"
  "t \<noteq> x \<Longrightarrow> requests (linked_after t x s) =
     (requests s)(t := (requests s t)\<lparr>r_next := Some x\<rparr>, x := (requests s x)\<lparr>r_next := r_next (requests s t)\<rparr>)"
  by (auto simp: linked_after_def upd_req_def)

lemma key_linked [simp]: "key_of (linked_after t x s) = key_of s"
  by (rule ext) (simp add: key_of_def request_key_def linked_after_def upd_req_def)

lemma key_clean [simp]: "key_of (clean_bh bh s) = key_of s"
  by (rule ext) (simp add: key_of_def)

lemma add_request_queue:
  assumes q: "queue_ok s major (t # ts)" and x: "x \<notin> set (t # ts)"
  shows "\<exists>xs ys s'. t # ts = xs @ ys \<and> xs \<noteq> [] \<and> elevate (key_of s) x (t # ts) = xs @ x # ys \<and>
    add_request major x s es = Ret () s' es \<and>
    rpath s' (current_request (blk_dev s' major)) (xs @ x # ys) \<and>
    key_of s' = key_of s \<and> blk_dev s' = blk_dev s \<and>
    bufs s' = bufs (clean_bh (r_bh (requests s x)) s) \<and>
    (\<forall>r. requests s' r = (requests s r)\<lparr>r_next := r_next (requests s' r)\<rparr>)"
proof -
  obtain xs ys where xy: "t # ts = xs @ ys" "xs \<noteq> []" "elevate (key_of s) x (t # ts) = xs @ x # ys"
    "add_request major x s es = Ret () (linked_after (last xs) x (clean_bh (r_bh (requests s x)) s)) es"
    using add_request_elevates [OF q x] by blast
  let ?c = "clean_bh (r_bh (requests s x)) s"
  have dist: "distinct (xs @ ys)" and path: "rpath s (current_request (blk_dev s major)) (xs @ ys)"
    using q unfolding queue_ok_def xy(1) by (auto simp: distinct_map)
  have "rpath ?c (current_request (blk_dev s major)) (xs @ ys)"
    using path by (subst rpath_cong [where s = s]) auto
  then have "rpath (linked_after (last xs) x ?c) (current_request (blk_dev s major)) (xs @ x # ys)"
    using xy(1,2) x dist by (intro rpath_insert) auto
  moreover have "last xs \<noteq> x" using x xy(1,2) by (metis UnI1 last_in_set set_append)
  ultimately show ?thesis
    using xy by (intro exI [of _ xs] exI [of _ ys] exI [of _ "linked_after (last xs) x ?c"]) auto
qed


text \<open>A disk with a read of sector 10 in progress, one of sector 4 waiting, and one of sector 7 to add.\<close>

definition disk0 :: kernel where
  "disk0 = blank_kernel\<lparr>
     requests := (\<lambda>r. blank_request\<lparr>r_dev := 0x301, r_sector := (if r = 0 then 10 else if r = 1 then 4 else 7),
       r_next := (if r = 0 then Some 1 else None)\<rparr>),
     blk_dev := (\<lambda>_. \<lparr>request_fn = Some Do_hd_request, current_request = Some 0\<rparr>)\<rparr>"

lemma disk0_queue: "queue_ok disk0 3 [0, 1]" "two_runs (map (key_of disk0) [0, 1])"
    "key_of disk0 2 \<notin> key_of disk0 ` set [0, 1]"
  by (simp_all add: queue_ok_def disk0_def key_of_def request_key_def kconst less_rkey_def)


subsection \<open>A new request\<close>

text \<open>Whether a transfer is needed at all (\<open>make_request\<close> gives up otherwise).\<close>

definition transfer_needed :: "int \<Rightarrow> buffer_head \<Rightarrow> bool" where
  "transfer_needed rw h \<longleftrightarrow> rw = READ \<and> b_uptodate h = 0 \<or> rw = WRITE \<and> b_dirt h \<noteq> 0"

lemma make_request_run:
  assumes "b_lock (bufs s b) = 0" "transfer_needed rw (bufs s b)" "free_request rw s = Some r"
  shows "make_request major rw b s es =
    add_request major r (fill_request rw b r (upd_buf b (\<lambda>h. h\<lparr>b_lock := 1\<rparr>) s)) es"
proof -
  let ?l = "upd_buf b (\<lambda>h. h\<lparr>b_lock := 1\<rparr>) s"
  have rw: "rw = READ \<or> rw = WRITE" "rw \<noteq> READA" "rw \<noteq> WRITEA"
    using assms(2) by (auto simp: transfer_needed_def kconst)
  have lock: "lock_buffer b s es = Ret () ?l es"
    using assms(1) by (simp add: lock_buffer_def krun)
  have h: "bufs ?l b = (bufs s b)\<lparr>b_lock := 1\<rparr>" by (simp add: upd_buf_def)
  have need: "\<not> (rw = WRITE \<and> b_dirt (bufs s b) = 0 \<or> rw = READ \<and> b_uptodate (bufs s b) \<noteq> 0)"
    using assms(2) by (auto simp: transfer_needed_def kconst)
  have free: "free_request rw ?l = Some r"
    using assms(3) by (simp add: free_request_def)
  show ?thesis
    using rw need assms(1)
    by (auto simp: make_request_def krun lock h retry_def free split: res.split)
qed

lemma free_request_Some:
  "free_request rw s = Some r \<Longrightarrow> r < request_limit rw \<and> r_dev (requests s r) < 0 \<and>
     (\<forall>j. r < j \<and> j < request_limit rw \<longrightarrow> 0 \<le> r_dev (requests s j))"
  unfolding free_request_def by (drule last_below_Some) auto

text \<open>
  C23. \<open>make_request\<close> for an unlocked buffer that needs the transfer, on a busy device with a free
  request: it locks the buffer and marks it clean, takes the highest free request that the
  command may use (the last third of the table is kept for reads), fills it in for the block
  of the buffer and puts it in the queue behind the request being served.
\<close>

lemma request_queued:
  assumes "b_lock (bufs s b) = 0" "transfer_needed rw (bufs s b)" "free_request rw s = Some r"
    and "queue_ok s major (t # ts)" "\<forall>q \<in> set (t # ts). 0 \<le> r_dev (requests s q)"
  shows "\<exists>xs ys s'. t # ts = xs @ ys \<and> xs \<noteq> [] \<and> make_request major rw b s es = Ret () s' es \<and>
    rpath s' (current_request (blk_dev s' major)) (xs @ r # ys) \<and>
    r < (if rw = READ then 32 else 21) \<and>
    (\<forall>j. r < j \<and> j < (if rw = READ then 32 else 21) \<longrightarrow> 0 \<le> r_dev (requests s j)) \<and>
    requests s' r = \<lparr>r_dev = uint (b_dev (bufs s b)), r_cmd = rw, r_errors = 0,
      r_sector = push_bit 1 (b_blocknr (bufs s b)), r_nr_sectors = 2, r_buffer = (b, 0),
      r_waiting = None, r_bh = Some b, r_next = r_next (requests s' r)\<rparr> \<and>
    bufs s' = (bufs s)(b := (bufs s b)\<lparr>b_lock := 1, b_dirt := 0\<rparr>)"
proof -
  let ?f = "fill_request rw b r (upd_buf b (\<lambda>h. h\<lparr>b_lock := 1\<rparr>) s)"
  have lim: "request_limit rw = (if rw = READ then 32 else 21)"
    by (simp add: request_limit_def kconst)
  have free: "r_dev (requests s r) < 0" using free_request_Some [OF assms(3)] by simp
  then have r: "r \<notin> set (t # ts)" using assms(5) by force
  have req: "requests ?f q = requests s q" if "q \<noteq> r" for q
    using that by (simp add: fill_request_def)
  have blk: "blk_dev ?f = blk_dev s" by (simp add: fill_request_def)
  have "rpath ?f (current_request (blk_dev s major)) (t # ts) =
      rpath s (current_request (blk_dev s major)) (t # ts)"
    using r req by (intro rpath_cong) metis
  moreover have "map (key_of ?f) (t # ts) = map (key_of s) (t # ts)"
  proof (rule map_cong)
    fix q assume "q \<in> set (t # ts)"
    then have "q \<noteq> r" using r by metis
    then show "key_of ?f q = key_of s q" using req by (simp add: key_of_def)
  qed simp
  ultimately have "queue_ok ?f major (t # ts)" using assms(4) unfolding queue_ok_def blk by metis
  from add_request_queue [OF this r, of es] obtain xs ys s' where
    *: "t # ts = xs @ ys" "xs \<noteq> []" "add_request major r ?f es = Ret () s' es"
      "rpath s' (current_request (blk_dev s' major)) (xs @ r # ys)"
      "bufs s' = bufs (clean_bh (r_bh (requests ?f r)) ?f)"
      "\<forall>q. requests s' q = (requests ?f q)\<lparr>r_next := r_next (requests s' q)\<rparr>"
    by blast
  have "requests s' r = (requests ?f r)\<lparr>r_next := r_next (requests s' r)\<rparr>" using *(6) by blast
  moreover have "requests ?f r = \<lparr>r_dev = uint (b_dev (bufs s b)), r_cmd = rw, r_errors = 0,
      r_sector = push_bit 1 (b_blocknr (bufs s b)), r_nr_sectors = 2, r_buffer = (b, 0),
      r_waiting = None, r_bh = Some b, r_next = None\<rparr>"
    by (simp add: fill_request_def upd_buf_def)
  moreover have "bufs (clean_bh (Some b) ?f) = (bufs s)(b := (bufs s b)\<lparr>b_lock := 1, b_dirt := 0\<rparr>)"
    by (simp add: clean_bh_def fill_request_def upd_buf_def upd_req_def)
  moreover have "make_request major rw b s es = Ret () s' es"
    using make_request_run [OF assms(1-3), of major es] *(3) by simp
  ultimately show ?thesis
    using *(1,2,4,5) free_request_Some [OF assms(3)] lim by (intro exI [of _ xs] exI [of _ ys] exI [of _ s']) simp
qed

text \<open>The same disk, with the requests from number 2 on free and a dirty buffer for block 3.\<close>

definition disk1 :: kernel where
  "disk1 = disk0\<lparr>
     requests := (\<lambda>r. if r < 2 then requests disk0 r else blank_request\<lparr>r_dev := - 1\<rparr>),
     bufs := (\<lambda>_. blank_buffer_head\<lparr>b_dev := 0x301, b_blocknr := 3, b_dirt := 1\<rparr>)\<rparr>"

lemma disk1_ready:
  "b_lock (bufs disk1 0) = 0" "transfer_needed WRITE (bufs disk1 0)" "free_request WRITE disk1 = Some 20"
  "queue_ok disk1 3 [0, 1]" "\<forall>q \<in> set [0, 1]. 0 \<le> r_dev (requests disk1 q)"
  by (simp_all add: disk1_def disk0_def transfer_needed_def kconst blank_buffer_head_def blank_request_def
      free_request_def request_limit_def last_below.simps(2) [of _ 20, simplified] queue_ok_def
      key_of_def request_key_def)

lemma request_queued_witness:
  "free_request WRITE disk1 = Some 20 \<and>
   (\<exists>xs ys s'. [0, 1] = xs @ ys \<and> xs \<noteq> [] \<and> make_request 3 WRITE 0 disk1 [] = Ret () s' [] \<and>
    rpath s' (current_request (blk_dev s' 3)) (xs @ 20 # ys) \<and> r_sector (requests s' 20) = 6)"
proof
  show "free_request WRITE disk1 = Some 20" by (rule disk1_ready(3))
next
  obtain xs ys s' where "[0, 1] = xs @ ys" "xs \<noteq> []" "make_request 3 WRITE 0 disk1 [] = Ret () s' []"
    "rpath s' (current_request (blk_dev s' 3)) (xs @ 20 # ys)"
    "r_sector (requests s' 20) = push_bit 1 (b_blocknr (bufs disk1 0))"
    using request_queued [OF disk1_ready, of "[]"] by (metis request.select_convs(4))
  moreover have "push_bit 1 (b_blocknr (bufs disk1 0)) = 6" by (simp add: disk1_def blank_buffer_head_def)
  ultimately show "\<exists>xs ys s'. [0, 1] = xs @ ys \<and> xs \<noteq> [] \<and> make_request 3 WRITE 0 disk1 [] = Ret () s' [] \<and>
    rpath s' (current_request (blk_dev s' 3)) (xs @ 20 # ys) \<and> r_sector (requests s' 20) = 6" by auto
qed

end
