(* ===== verification/Rdisk.thy ===== *)
theory Rdisk
  imports Elevator
begin

unbundle bit_operations_syntax

text \<open>
  The ram disk behind the request queue: ending a request, and a write followed by a read.
\<close>

subsection \<open>Ending a request\<close>

lemma wake_up_bufs [simp]:
  "bufs (wake_up_q (Q_buf b) s) = (bufs s)(b := (bufs s b)\<lparr>b_wait := None\<rparr>)"
  "bufs (wake_up_q (Q_waiting r) s) = bufs s" "bufs (wake_up_q Q_request s) = bufs s"
proof -
  show "bufs (wake_up_q (Q_buf b) s) = (bufs s)(b := (bufs s b)\<lparr>b_wait := None\<rparr>)"
    by (cases "b_wait (bufs s b)") (auto simp: wake_up_q_def upd_buf_def set_state_def upd_task_def)
qed (auto simp: wake_up_q_def upd_req_def set_state_def upd_task_def split: option.split)

lemma wake_up_requests [simp]:
  "requests (wake_up_q (Q_buf b) s) = requests s" "requests (wake_up_q Q_request s) = requests s"
  "requests (wake_up_q (Q_waiting r) s) = (requests s)(r := (requests s r)\<lparr>r_waiting := None\<rparr>)"
proof -
  show "requests (wake_up_q (Q_waiting r) s) = (requests s)(r := (requests s r)\<lparr>r_waiting := None\<rparr>)"
    by (cases "r_waiting (requests s r)") (auto simp: wake_up_q_def upd_req_def set_state_def upd_task_def)
qed (auto simp: wake_up_q_def upd_buf_def set_state_def upd_task_def split: option.split)

lemma wake_up_blk [simp]:
  "q \<in> {Q_buf b, Q_waiting r, Q_request} \<Longrightarrow> blk_dev (wake_up_q q s) = blk_dev s"
  "q \<in> {Q_buf b, Q_waiting r, Q_request} \<Longrightarrow> rd_mem (wake_up_q q s) = rd_mem s"
  "q \<in> {Q_buf b, Q_waiting r, Q_request} \<Longrightarrow> rd_start (wake_up_q q s) = rd_start s"
  "q \<in> {Q_buf b, Q_waiting r, Q_request} \<Longrightarrow> rd_length (wake_up_q q s) = rd_length s"
  by (auto simp: wake_up_q_def upd_buf_def upd_req_def set_state_def upd_task_def split: option.split)

definition ended :: "nat \<Rightarrow> rptr \<Rightarrow> bptr \<Rightarrow> u8 \<Rightarrow> kernel \<Rightarrow> kernel" where
  "ended major r b u s =
     (let s1 = upd_buf b (\<lambda>h. h\<lparr>b_lock := 0\<rparr>) (upd_buf b (\<lambda>h. h\<lparr>b_uptodate := u\<rparr>) s);
          s2 = wake_up_q Q_request (wake_up_q (Q_waiting r) (wake_up_q (Q_buf b) s1));
          s3 = upd_req r (\<lambda>q. q\<lparr>r_dev := - 1\<rparr>) s2
      in s3\<lparr>blk_dev := (blk_dev s3)(major := (blk_dev s3 major)\<lparr>current_request := r_next (requests s3 r)\<rparr>)\<rparr>)"

lemma end_request_run:
  assumes "current_request (blk_dev s major) = Some r" "r_bh (requests s r) = Some b"
  shows "end_request major no_motor u s es = Ret () (ended major r b u s) es"
  using assms
  by (simp add: end_request_def with_current_def krun no_motor_def blk_unlock_buffer_def wake_up_def
      ended_def Let_def)

lemma ended_fields [simp]:
  "bufs (ended major r b u s) = (bufs s)(b := (bufs s b)\<lparr>b_uptodate := u, b_lock := 0, b_wait := None\<rparr>)"
  "requests (ended major r b u s) = (requests s)(r := (requests s r)\<lparr>r_waiting := None, r_dev := - 1\<rparr>)"
  "blk_dev (ended major r b u s) =
     (blk_dev s)(major := (blk_dev s major)\<lparr>current_request := r_next (requests s r)\<rparr>)"
  "rd_mem (ended major r b u s) = rd_mem s"
  "rd_start (ended major r b u s) = rd_start s" "rd_length (ended major r b u s) = rd_length s"
  by (simp_all add: ended_def Let_def upd_buf_def upd_req_def)

subsection \<open>Reading and writing the ram disk\<close>

text \<open>
  The ram disk is idle, block \<open>w\<close> lies inside it, and the buffer \<open>b\<close> stands for that block.
\<close>

definition rd_ready :: "kernel \<Rightarrow> bptr \<Rightarrow> u32 \<Rightarrow> bool" where
  "rd_ready s b w \<longleftrightarrow> blk_dev s 1 = \<lparr>request_fn = Some Do_rd_request, current_request = None\<rparr> \<and>
     b_dev (bufs s b) = 0x101 \<and> b_blocknr (bufs s b) = w \<and> b_lock (bufs s b) = 0 \<and>
     1024 * unat w + 1024 \<le> unat (rd_length s) \<and> unat (rd_start s) + unat (rd_length s) < 4294967296"

definition block_bytes :: "kernel \<Rightarrow> bptr \<Rightarrow> u8 list" where
  "block_bytes s b = bytes_of (b_data (bufs s b)) 0 1024"

definition disk_bytes :: "kernel \<Rightarrow> u32 \<Rightarrow> u8 list" where
  "disk_bytes s w = bytes_of (rd_mem s) (1024 * unat w) 1024"

lemma rd_address:
  fixes w st ln :: u32
  assumes "1024 * unat w + 1024 \<le> unat ln" "unat st + unat ln < 4294967296"
  shows "unat (st + push_bit 9 (push_bit 1 w) - st) = 1024 * unat w"
    and "\<not> st + ln < st + push_bit 9 (push_bit 1 w) + push_bit 9 2"
    and "unat (push_bit 9 (2 :: u32)) = 1024"
proof -
  have p: "push_bit 9 (push_bit 1 w) = w * 1024" by (simp add: push_bit_eq_mult)
  have u: "unat (w * 1024) = unat w * 1024"
    using assms by (simp add: unat_word_ariths)
  show "unat (st + push_bit 9 (push_bit 1 w) - st) = 1024 * unat w"
    unfolding p using u by simp
  show l: "unat (push_bit 9 (2 :: u32)) = 1024" by (simp add: push_bit_eq_mult)
  have "unat (st + w * 1024 + push_bit 9 2) = unat st + unat w * 1024 + 1024"
    using assms u l by (simp add: unat_word_ariths(1))
  moreover have "unat (st + ln) = unat st + unat ln" using assms by (simp add: unat_word_ariths)
  ultimately show "\<not> st + ln < st + push_bit 9 (push_bit 1 w) + push_bit 9 2"
    unfolding p word_less_nat_alt using assms by simp
qed

text \<open>The state in which the driver is called, and the transfer itself.\<close>

definition rd_queued :: "int \<Rightarrow> bptr \<Rightarrow> rptr \<Rightarrow> kernel \<Rightarrow> kernel" where
  "rd_queued rw b r s =
     (let s1 = fill_request rw b r (upd_buf b (\<lambda>h. h\<lparr>b_lock := 1\<rparr>) s);
          s2 = upd_buf b (\<lambda>h. h\<lparr>b_dirt := 0\<rparr>) (upd_req r (\<lambda>q. q\<lparr>r_next := None\<rparr>) s1)
      in s2\<lparr>blk_dev := (blk_dev s2)(1 := (blk_dev s2 1)\<lparr>current_request := Some r\<rparr>)\<rparr>)"

definition rd_moved :: "int \<Rightarrow> bptr \<Rightarrow> u32 \<Rightarrow> kernel \<Rightarrow> kernel" where
  "rd_moved rw b w s = (if rw = WRITE
     then s\<lparr>rd_mem := store_bytes (rd_mem s) (1024 * unat w) (block_bytes s b)\<rparr>
     else upd_buf b (\<lambda>h. h\<lparr>b_data := store_bytes (b_data h) 0 (disk_bytes s w)\<rparr>) s)"

lemma rd_queued_fields [simp]:
  "bufs (rd_queued rw b r s) = (bufs s)(b := (bufs s b)\<lparr>b_lock := 1, b_dirt := 0\<rparr>)"
  "requests (rd_queued rw b r s) = (requests s)(r :=
     \<lparr>r_dev = uint (b_dev (bufs s b)), r_cmd = rw, r_errors = 0,
      r_sector = push_bit 1 (b_blocknr (bufs s b)), r_nr_sectors = 2, r_buffer = (b, 0),
      r_waiting = None, r_bh = Some b, r_next = None\<rparr>)"
  "blk_dev (rd_queued rw b r s) = (blk_dev s)(1 := (blk_dev s 1)\<lparr>current_request := Some r\<rparr>)"
  "rd_mem (rd_queued rw b r s) = rd_mem s" "rd_start (rd_queued rw b r s) = rd_start s"
  "rd_length (rd_queued rw b r s) = rd_length s"
  by (simp_all add: rd_queued_def fill_request_def upd_buf_def upd_req_def Let_def)

lemma rd_moved_fields [simp]:
  "requests (rd_moved rw b w s) = requests s" "blk_dev (rd_moved rw b w s) = blk_dev s"
  "rd_start (rd_moved rw b w s) = rd_start s" "rd_length (rd_moved rw b w s) = rd_length s"
  by (simp_all add: rd_moved_def upd_buf_def)

lemma rd_request_run:
  assumes "rd_ready s b w" "rw = READ \<or> rw = WRITE"
  shows "do_rd_request (rd_queued rw b r s) es =
    Ret () (ended 1 r b 1 (rd_moved rw b w (rd_queued rw b r s))) es"
proof -
  let ?q = "rd_queued rw b r s" and ?m = "rd_moved rw b w (rd_queued rw b r s)"
  have rdy: "b_dev (bufs s b) = 0x101" "b_blocknr (bufs s b) = w"
    "1024 * unat w + 1024 \<le> unat (rd_length s)" "unat (rd_start s) + unat (rd_length s) < 4294967296"
    using assms(1) by (auto simp: rd_ready_def)
  note a = rd_address [OF rdy(3,4)]
  have init: "INIT_REQUEST 1 ?q es = Ret (Some r) ?q es"
    by (simp add: INIT_REQUEST_def krun rdy req_major_def)
  have fin: "end_request 1 no_motor 1 ?m es = Ret () (ended 1 r b 1 ?m) es"
    by (rule end_request_run) simp_all
  have round: "rd_round ?q es = Ret None (ended 1 r b 1 ?m) es"
  proof (cases "rw = WRITE")
    case True
    then show ?thesis
      using rdy a fin unfolding rd_round_def
      by (simp add: krun init [unfolded True] req_minor_def Let_def buffer_bytes_def rd_moved_def block_bytes_def del: One_nat_def)
  next
    case False
    then have rd: "rw = READ" using assms(2) by simp
    have "READ \<noteq> WRITE" by (simp add: kconst)
    then show ?thesis
      using rdy a fin rd unfolding rd_round_def
      by (simp add: krun init [unfolded rd] req_minor_def Let_def buffer_store_def rd_moved_def disk_bytes_def del: One_nat_def)
  qed
  have idle: "rd_round (ended 1 r b 1 ?m) es = Ret (Some ()) (ended 1 r b 1 ?m) es"
    by (simp add: rd_round_def INIT_REQUEST_def krun)
  show ?thesis
    by (simp add: do_rd_request_def kconst numeral_eq_Suc krun round idle [unfolded One_nat_def] round [unfolded One_nat_def])
qed

lemma rd_block_run:
  assumes "rd_ready s b w" "transfer_needed rw (bufs s b)" "free_request rw s = Some r"
  shows "ll_rw_block rw b s es = Ret () (ended 1 r b 1 (rd_moved rw b w (rd_queued rw b r s))) es"
proof -
  have rw: "rw = READ \<or> rw = WRITE" using assms(2) by (auto simp: transfer_needed_def)
  have rdy: "b_dev (bufs s b) = 0x101" "b_lock (bufs s b) = 0"
    "blk_dev s 1 = \<lparr>request_fn = Some Do_rd_request, current_request = None\<rparr>"
    using assms(1) by (auto simp: rd_ready_def)
  let ?f = "fill_request rw b r (upd_buf b (\<lambda>h. h\<lparr>b_lock := 1\<rparr>) s)"
  have "add_request 1 r ?f es = do_rd_request (rd_queued rw b r s) es"
    using rdy(3)
    by (simp add: add_request_def krun rd_queued_def Let_def fill_request_def run_request_def)
  then show ?thesis
    using make_request_run [OF rdy(2) assms(2,3), of 1 es] rd_request_run [OF assms(1) rw, of r es] rdy
    by (simp add: ll_rw_block_def krun MAJOR_def kconst)
qed

lemma disk_bytes_other:
  assumes "v \<noteq> w" "length xs = 1024"
  shows "bytes_of (store_bytes d (1024 * unat w) xs) (1024 * unat v) 1024 = bytes_of d (1024 * unat (v :: u32)) 1024"
proof (rule bytes_of_store_disjoint)
  have "unat v \<noteq> unat w" using assms(1) by (simp add: word_unat_eq_iff)
  then show "1024 * unat v + 1024 \<le> 1024 * unat w \<or> 1024 * unat w + length xs \<le> 1024 * unat v"
    unfolding assms(2) by linarith
qed

lemma rd_free_again:
  assumes "free_request WRITE s = Some r"
  shows "\<exists>q. free_request READ (ended 1 r b 1 s') = Some q"
proof -
  have "r < request_limit READ" using free_request_Some [OF assms] by (simp add: request_limit_def kconst)
  then have "free_request READ (ended 1 r b 1 s') \<noteq> None"
    unfolding free_request_def last_below_None by (auto intro!: exI [of _ r])
  then show ?thesis by auto
qed

text \<open>
  C16. A dirty buffer written to the ram disk, and the same block then read into another buffer:
  both calls return at once with the device idle again, the second buffer is valid and holds
  the bytes of the first, and the other blocks of the disk are unchanged.
\<close>

lemma ramdisk_roundtrip:
  assumes "rd_ready s b w" "b_dirt (bufs s b) \<noteq> 0" "free_request WRITE s = Some r"
    and "rd_ready s c w" "b_uptodate (bufs s c) = 0" "c \<noteq> b"
  shows "\<exists>s1 s2. ll_rw_block WRITE b s es = Ret () s1 es \<and> ll_rw_block READ c s1 es = Ret () s2 es \<and>
    disk_bytes s2 w = block_bytes s b \<and> block_bytes s2 c = block_bytes s b \<and>
    b_uptodate (bufs s2 c) = 1 \<and> b_lock (bufs s2 c) = 0 \<and> b_dirt (bufs s2 b) = 0 \<and>
    current_request (blk_dev s2 1) = None \<and>
    (\<forall>v. v \<noteq> w \<longrightarrow> disk_bytes s2 v = disk_bytes s v)"
proof -
  let ?m = "rd_moved WRITE b w (rd_queued WRITE b r s)"
  let ?s1 = "ended 1 r b 1 ?m"
  have ne: "READ \<noteq> WRITE" by (simp add: kconst)
  have w: "ll_rw_block WRITE b s es = Ret () ?s1 es"
    using assms(1-3) by (intro rd_block_run) (auto simp: transfer_needed_def)
  have bb: "block_bytes (rd_queued WRITE b r s) b = block_bytes s b" by (simp add: block_bytes_def)
  have mem: "rd_mem ?s1 = store_bytes (rd_mem s) (1024 * unat w) (block_bytes s b)"
    by (simp add: rd_moved_def bb)
  have bufs1: "bufs ?s1 = (bufs s)(b := (bufs s b)\<lparr>b_dirt := 0, b_uptodate := 1, b_lock := 0, b_wait := None\<rparr>)"
    by (simp add: rd_moved_def)
  have rdy: "rd_ready ?s1 c w"
    using assms(1,4,6) by (simp add: rd_ready_def bufs1 del: ended_fields(1) One_nat_def)
  obtain q where q: "free_request READ ?s1 = Some q" using rd_free_again [OF assms(3)] by blast
  let ?m2 = "rd_moved READ c w (rd_queued READ c q ?s1)"
  let ?s2 = "ended 1 q c 1 ?m2"
  have r: "ll_rw_block READ c ?s1 es = Ret () ?s2 es"
    using rdy q assms(5,6) by (intro rd_block_run) (auto simp: transfer_needed_def bufs1 simp del: ended_fields(1) One_nat_def)
  have mem2: "rd_mem ?s2 = rd_mem ?s1" using ne by (simp add: rd_moved_def upd_buf_def)
  have len: "length (block_bytes s b) = 1024" by (simp add: block_bytes_def)
  have d1: "bytes_of (rd_mem ?s1) (1024 * unat w) 1024 = block_bytes s b"
    using bytes_of_store [of "rd_mem s" "1024 * unat w" "block_bytes s b"] unfolding mem len .
  have data: "b_data (bufs ?s2 c) = store_bytes (b_data (bufs ?s1 c)) 0 (block_bytes s b)"
    using ne d1 by (simp add: rd_moved_def upd_buf_def disk_bytes_def)
  have "block_bytes ?s2 c = block_bytes s b"
    using bytes_of_store [of "b_data (bufs ?s1 c)" 0 "block_bytes s b"]
    unfolding block_bytes_def [of ?s2] data len .
  moreover have "disk_bytes ?s2 w = block_bytes s b" unfolding disk_bytes_def mem2 by (rule d1)
  moreover have "disk_bytes ?s2 v = disk_bytes s v" if "v \<noteq> w" for v
    unfolding disk_bytes_def mem2 mem by (rule disk_bytes_other [OF that len])
  moreover have "bufs ?s2 c = (bufs ?m2 c)\<lparr>b_uptodate := 1, b_lock := 0, b_wait := None\<rparr>" by simp
  moreover have "b_dirt (bufs ?s2 b) = 0" using assms(6) ne by (simp add: rd_moved_def upd_buf_def)
  moreover have "current_request (blk_dev ?s2 1) = None" by simp
  ultimately show ?thesis using w r by (intro exI [of _ ?s1] exI [of _ ?s2]) simp
qed

text \<open>A ram disk of 4 blocks, two buffers for its block 2, and a free request.\<close>

definition rd0 :: kernel where
  "rd0 = blank_kernel\<lparr>
     requests := (\<lambda>_. blank_request\<lparr>r_dev := - 1\<rparr>),
     blk_dev := (\<lambda>_. \<lparr>request_fn = Some Do_rd_request, current_request = None\<rparr>),
     bufs := (\<lambda>b. blank_buffer_head\<lparr>b_dev := 0x101, b_blocknr := 2, b_dirt := (if b = 0 then 1 else 0),
       b_data := (\<lambda>_. if b = 0 then 7 else 0)\<rparr>),
     rd_start := 0x100000, rd_length := 4096\<rparr>"

lemma rd0_ready:
  "rd_ready rd0 0 2" "b_dirt (bufs rd0 0) \<noteq> 0" "free_request WRITE rd0 = Some 20"
  "rd_ready rd0 1 2" "b_uptodate (bufs rd0 1) = 0" "(1 :: nat) \<noteq> 0"
  by (simp_all add: rd_ready_def rd0_def blank_buffer_head_def free_request_def request_limit_def kconst
      last_below.simps(2) [of _ 20, simplified])

lemma ramdisk_roundtrip_witness:
  "rd_ready rd0 0 2 \<and> (\<exists>s1 s2. ll_rw_block WRITE 0 rd0 [] = Ret () s1 [] \<and>
    ll_rw_block READ 1 s1 [] = Ret () s2 [] \<and> block_bytes s2 1 = block_bytes rd0 0)"
  using ramdisk_roundtrip [OF rd0_ready, of "[]"] rd0_ready(1) by blast

end
