(* ===== verification/Chs.thy ===== *)
theory Chs
  imports Hd
begin

unbundle bit_operations_syntax

text \<open>
  The command that the hard disk driver sends for a block (kernel/blk_drv/hd.c): the registers
  of the controller name the cylinder, head and sector of exactly that block.
\<close>

subsection \<open>Cylinder, head and sector\<close>

lemma chs_block:
  assumes "hd_sect i \<noteq> 0" "hd_head i \<noteq> 0" "chs i blk = (cyl, hd', sec)" "unat (hd_sect i) \<le> 255"
  shows "(unat cyl * unat (hd_head i) + unat hd') * unat (hd_sect i) + (unat sec - 1) = unat blk"
    and "1 \<le> unat sec" "unat sec \<le> unat (hd_sect i)" "unat hd' < unat (hd_head i)"
proof -
  let ?S = "unat (hd_sect i)" and ?H = "unat (hd_head i)" and ?B = "unat blk"
  have pos: "0 < ?S" "0 < ?H" using assms(1,2) by (simp_all add: unat_gt_0)
  have c: "unat cyl = ?B div ?S div ?H" "unat hd' = ?B div ?S mod ?H"
    using assms(3) by (auto simp: chs_def Let_def unat_div_distrib unat_mod_distrib)
  have m: "?B mod ?S < ?S" using pos by simp
  have s0: "sec = blk mod hd_sect i + 1" using assms(3) by (auto simp: chs_def Let_def)
  have s: "unat sec = ?B mod ?S + 1"
    using m assms(4) unfolding s0 by (simp add: unat_word_ariths(1) unat_mod_distrib)
  have "(unat cyl * ?H + unat hd') * ?S + (unat sec - 1) = ?B div ?S * ?S + ?B mod ?S"
    unfolding c s by simp
  then show "(unat cyl * ?H + unat hd') * ?S + (unat sec - 1) = ?B" by simp
  show "1 \<le> unat sec" "unat sec \<le> ?S" "unat hd' < ?H" using s m c(2) pos by (auto simp: Suc_le_eq)
qed

text \<open>The bytes that reach the registers keep all of it.\<close>

lemma byte_of_small: "unat (w :: u32) \<le> 255 \<Longrightarrow> unat (ucast w :: u8) = unat w"
  by (simp add: unsigned_ucast_eq take_bit_nat_eq_self_iff)

lemma cyl_bytes:
  assumes "unat (cyl :: u32) < 65536"
  shows "unat (ucast cyl :: u8) + 256 * unat (ucast (drop_bit 8 cyl) :: u8) = unat cyl"
proof -
  have d: "unat (drop_bit 8 cyl) = unat cyl div 256"
    by (simp add: drop_bit_eq_div unat_div_distrib)
  then have "unat (ucast (drop_bit 8 cyl) :: u8) = unat cyl div 256"
    using assms by (subst byte_of_small) auto
  moreover have "unat (ucast cyl :: u8) = unat cyl mod 256"
    by (simp add: unsigned_ucast_eq take_bit_eq_mod)
  ultimately show ?thesis by simp
qed

lemma head_byte:
  assumes "unat (h :: u32) < 16"
  shows "unat ((ucast (0xA0 OR push_bit 4 d OR h) :: u8) AND 15) = unat h"
proof -
  have "h mod 16 = h" using assms by (simp add: word_unat_eq_iff unat_mod_distrib)
  then have h: "take_bit 4 h = h" by (simp add: take_bit_eq_mod)
  have "bit (15 :: u8) n \<longleftrightarrow> n < 4" for n
    using bit_mask_iff [of 4 n, where 'a = u8] by (auto simp: mask_eq_exp_minus_1)
  moreover have "\<not> bit (0xA0 :: u32) n" if "n < 4" for n
  proof -
    have "0xA0 = push_bit 4 (10 :: u32)" by simp
    then show ?thesis using that by (simp only: bit_push_bit_iff) simp
  qed
  moreover have "bit h n \<Longrightarrow> n < 4" for n using bit_take_bit_iff [of 4 h n] unfolding h by simp
  ultimately have "(ucast (0xA0 OR push_bit 4 d OR h) :: u8) AND 15 = ucast h"
    by (intro bit_word_eqI) (auto simp: bit_simps dest: leD)
  then show ?thesis using assms by (simp add: byte_of_small)
qed

subsection \<open>The command on the ports\<close>

text \<open>The byte written last to a port.\<close>

definition port_out :: "kernel \<Rightarrow> nat \<Rightarrow> u8 option" where
  "port_out s p = map_of (io_log s) p"

text \<open>
  Request \<open>r\<close> is the next one of the hard disk: its buffer is locked, it lies in its partition,
  the geometry of the drive fits the controller, and the controller says it is ready.
\<close>

definition hd_ready :: "kernel \<Rightarrow> rptr \<Rightarrow> bool" where
  "hd_ready s r \<longleftrightarrow>
     (let q = requests s r; dev = req_minor (r_dev q); i = hd_info s (dev div 5) in
      current_request (blk_dev s 3) = Some r \<and> req_major (r_dev q) = 3 \<and>
      (\<exists>b. r_bh q = Some b \<and> b_lock (bufs s b) \<noteq> 0) \<and>
      dev < 5 * NR_HD s \<and> NR_HD s \<le> 2 \<and> r_sector q + 2 \<le> nr_sects (hd s dev) \<and>
      hd_sect i \<noteq> 0 \<and> unat (hd_sect i) \<le> 255 \<and> hd_head i \<noteq> 0 \<and> unat (hd_head i) \<le> 16 \<and>
      hd_reset s = 0 \<and> hd_recalibrate s = 0 \<and> hw_inb s HD_STATUS (io_reads s) AND 0xc0 = 0x40)"

lemma controller_ready_run:
  "hw_inb s HD_STATUS (io_reads s) AND 0xc0 = 0x40 \<Longrightarrow>
   controller_ready s es = Ret 9999 (s\<lparr>io_reads := Suc (io_reads s)\<rparr>) es"
  using ready_loop.simps(2) [of 9999] by (simp add: controller_ready_def krun inb_def)

lemma outb_run [krun]: "outb v p s es = Ret () (s\<lparr>io_log := (p, v) # io_log s\<rparr>) es"
  by (simp add: outb_def krun)

lemma hd_out_run:
  assumes "drive \<le> 1" "head \<le> 15" "hw_inb s HD_STATUS (io_reads s) AND 0xc0 = 0x40"
  shows "hd_out drive n sec head cyl cmd f s es =
    Ret () (s\<lparr>io_reads := Suc (io_reads s), do_hd := Some f, io_log :=
      [(HD_DATA + 7, ucast cmd), (HD_DATA + 6, ucast (0xA0 OR push_bit 4 drive OR head)),
       (HD_DATA + 5, ucast (drop_bit 8 cyl)), (HD_DATA + 4, ucast cyl), (HD_DATA + 3, ucast sec),
       (HD_DATA + 2, ucast n), (HD_DATA + 1, ucast (drop_bit 2 (hd_wpcom (hd_info s (unat drive))))),
       (HD_CMD, ucast (hd_ctl (hd_info s (unat drive))))] @ io_log s\<rparr>) es"
  using assms by (simp add: hd_out_def krun controller_ready_run not_less)


text \<open>A drive with 4 heads and 17 sectors, and a read of sector 100 of a partition that starts at 17.\<close>

definition hd0 :: kernel where
  "hd0 = blank_kernel\<lparr>
     requests := (\<lambda>_. blank_request\<lparr>r_dev := 0x301, r_sector := 100, r_nr_sectors := 2, r_bh := Some 0\<rparr>),
     blk_dev := (\<lambda>_. \<lparr>request_fn = Some Do_hd_request, current_request = Some 0\<rparr>),
     bufs := (\<lambda>_. blank_buffer_head\<lparr>b_lock := 1\<rparr>), NR_HD := 1,
     hd_info := (\<lambda>_. blank_hd_i_struct\<lparr>hd_head := 4, hd_sect := 17, hd_cyl := 615\<rparr>),
     kernel.hd := (\<lambda>_. \<lparr>start_sect = 17, nr_sects = 4000\<rparr>), hw_inb := (\<lambda>_ _. 0x50)\<rparr>"

lemma hd0_ready: "hd_ready hd0 0" "r_cmd (requests hd0 0) = READ"
    "unat (r_sector (requests hd0 0) + start_sect (kernel.hd hd0 (req_minor (r_dev (requests hd0 0))))) <
      65536 * unat (hd_head (hd_info hd0 (req_minor (r_dev (requests hd0 0)) div 5))) *
        unat (hd_sect (hd_info hd0 (req_minor (r_dev (requests hd0 0)) div 5)))"
  by (simp_all add: hd_ready_def hd0_def blank_kernel_def blank_request_def blank_buffer_head_def
      blank_hd_i_struct_def req_major_def req_minor_def kconst)


end
