(* ===== verification/Cache.thy ===== *)
theory Cache
  imports Ll_rw
begin

unbundle bit_operations_syntax

text \<open>
  fs/buffer.c and the parts of fs/inode.c and fs/super.c that it calls: finding a free buffer
  may write out the device of a dirty one, which writes out the inodes, which reads their
  blocks, which needs a buffer again.

  Device numbers are \<open>u16\<close>: every caller passes an \<open>unsigned short\<close>.  A walk along a linked list
  of buffers is bounded by their number; a longer walk would go round for ever.
\<close>

subsection \<open>Waiting for buffers, inodes and super blocks\<close>

definition wait_on_buffer :: "bptr \<Rightarrow> unit K" where
  "wait_on_buffer b = sleep_while (\<lambda>s. b_lock (bufs s b) \<noteq> 0) (sleep_on (Q_buf b))"

definition wait_on_inode :: "iptr \<Rightarrow> unit K" where
  "wait_on_inode i = sleep_while (\<lambda>s. i_lock (inode_table s i) \<noteq> 0) (sleep_on (Q_inode i))"

definition lock_inode :: "iptr \<Rightarrow> unit K" where
  "lock_inode i = block
     [sleep_while (\<lambda>s. i_lock (inode_table s i) \<noteq> 0) (sleep_on (Q_inode i)),
      modify (upd_inode i (\<lambda>x. x\<lparr>i_lock := 1\<rparr>))]"

definition unlock_inode :: "iptr \<Rightarrow> unit K" where
  "unlock_inode i = block [modify (upd_inode i (\<lambda>x. x\<lparr>i_lock := 0\<rparr>)), wake_up (Q_inode i)]"

definition lock_super :: "sptr \<Rightarrow> unit K" where
  "lock_super i = block
     [sleep_while (\<lambda>s. s_lock (super_blocks s i) \<noteq> 0) (sleep_on (Q_super i)),
      modify (upd_super i (\<lambda>x. x\<lparr>s_lock := 1\<rparr>))]"

definition free_super :: "sptr \<Rightarrow> unit K" where
  "free_super i = block [modify (upd_super i (\<lambda>x. x\<lparr>s_lock := 0\<rparr>)), wake_up (Q_super i)]"

definition wait_on_super :: "sptr \<Rightarrow> unit K" where
  "wait_on_super i = sleep_while (\<lambda>s. s_lock (super_blocks s i) \<noteq> 0) (sleep_on (Q_super i))"

definition get_super :: "u16 \<Rightarrow> sptr option K" where
  "get_super dev =
     (if dev = 0 then ret None
      else retry (bnd (gets (\<lambda>s. first_upto (\<lambda>i. s_dev (super_blocks s i) = dev) NR_SUPER)) (\<lambda>r. case r of
        None \<Rightarrow> ret (Some None)
      | Some i \<Rightarrow> seq (wait_on_super i)
          (bnd (gets (\<lambda>s. s_dev (super_blocks s i) = dev)) (\<lambda>same.
             ret (if same then Some (Some i) else None))))))"

subsection \<open>The hash table and the free list\<close>

definition hashfn :: "u16 \<Rightarrow> u32 \<Rightarrow> nat" where
  "hashfn dev blk = unat (ucast dev XOR blk) mod NR_HASH"

text \<open>\<open>None\<close> when the chain is longer than the number of buffers.\<close>

fun find_chain :: "nat \<Rightarrow> kernel \<Rightarrow> u16 \<Rightarrow> u32 \<Rightarrow> bptr option \<Rightarrow> bptr option option" where
  "find_chain n s dev blk None = Some None"
| "find_chain 0 s dev blk (Some b) = None"
| "find_chain (Suc n) s dev blk (Some b) =
     (if b_dev (bufs s b) = dev \<and> b_blocknr (bufs s b) = blk then Some (Some b)
      else find_chain n s dev blk (b_next (bufs s b)))"

definition find_buffer :: "u16 \<Rightarrow> u32 \<Rightarrow> bptr option K" where
  "find_buffer dev blk =
     bnd (gets (\<lambda>s. find_chain (NR_BUFFERS s) s dev blk (hash_table s (hashfn dev blk)))) (\<lambda>r.
       case r of None \<Rightarrow> stop Hung | Some x \<Rightarrow> ret x)"

definition remove_from_queues :: "bptr \<Rightarrow> unit K" where
  "remove_from_queues b = bnd (gets (\<lambda>s. bufs s b)) (\<lambda>h.
     let n = hashfn (b_dev h) (b_blocknr h) in
     seq (block
       [case b_next h of None \<Rightarrow> skip | Some nx \<Rightarrow> modify (upd_buf nx (\<lambda>x. x\<lparr>b_prev := b_prev h\<rparr>)),
        case b_prev h of None \<Rightarrow> skip | Some pv \<Rightarrow> modify (upd_buf pv (\<lambda>x. x\<lparr>b_next := b_next h\<rparr>)),
        modify (\<lambda>s. if hash_table s n = Some b
          then s\<lparr>hash_table := (hash_table s)(n := b_next h)\<rparr> else s)])
     (case (b_prev_free h, b_next_free h) of
        (Some pf, Some nf) \<Rightarrow> block
          [modify (upd_buf pf (\<lambda>x. x\<lparr>b_next_free := Some nf\<rparr>)),
           modify (upd_buf nf (\<lambda>x. x\<lparr>b_prev_free := Some pf\<rparr>)),
           modify (\<lambda>s. if free_list s = b then s\<lparr>free_list := nf\<rparr> else s)]
      | _ \<Rightarrow> kpanic ''Free block list corrupted''))"

text \<open>
  \<open>bh->b_next->b_prev = bh\<close> is executed without a test: when the chain was empty, \<open>b_next\<close> is
  NULL and the address of the buffer head (36 bytes each) goes to address 20, where the field
  \<open>b_prev\<close> of a buffer head at address 0 would be.
\<close>

definition insert_into_queues :: "bptr \<Rightarrow> unit K" where
  "insert_into_queues b = bnd (gets (\<lambda>s. (free_list s, b_prev_free (bufs s (free_list s))))) (\<lambda>(fl, pf).
     case pf of None \<Rightarrow> stop Wild | Some p \<Rightarrow> seq (block
       [modify (upd_buf b (\<lambda>x. x\<lparr>b_next_free := Some fl, b_prev_free := Some p\<rparr>)),
        modify (upd_buf p (\<lambda>x. x\<lparr>b_next_free := Some b\<rparr>)),
        modify (upd_buf fl (\<lambda>x. x\<lparr>b_prev_free := Some b\<rparr>)),
        modify (upd_buf b (\<lambda>x. x\<lparr>b_prev := None, b_next := None\<rparr>))])
     (bnd (gets (\<lambda>s. bufs s b)) (\<lambda>h.
       if b_dev h = 0 then skip
       else let n = hashfn (b_dev h) (b_blocknr h) in
         bnd (gets (\<lambda>s. hash_table s n)) (\<lambda>old. block
           [modify (upd_buf b (\<lambda>x. x\<lparr>b_next := old\<rparr>)),
            modify (\<lambda>s. s\<lparr>hash_table := (hash_table s)(n := Some b)\<rparr>),
            case old of
              None \<Rightarrow> modify (\<lambda>s. s\<lparr>phys := (phys s)(20 := start_buffer s + of_nat (36 * b))\<rparr>)
            | Some nx \<Rightarrow> modify (upd_buf nx (\<lambda>x. x\<lparr>b_prev := Some b\<rparr>))]))))"

definition get_hash_table :: "u16 \<Rightarrow> u32 \<Rightarrow> bptr option K" where
  "get_hash_table dev blk = retry (bnd (find_buffer dev blk) (\<lambda>r. case r of
     None \<Rightarrow> ret (Some None)
   | Some b \<Rightarrow> seq (block
       [modify (upd_buf b (\<lambda>h. h\<lparr>b_count := b_count h + 1\<rparr>)), wait_on_buffer b])
       (bnd (gets (\<lambda>s. bufs s b)) (\<lambda>h.
         if b_dev h = dev \<and> b_blocknr h = blk then ret (Some (Some b))
         else seq (modify (upd_buf b (\<lambda>h. h\<lparr>b_count := b_count h - 1\<rparr>))) (ret None)))))"

definition brelse :: "bptr option \<Rightarrow> unit K" where
  "brelse bh = (case bh of None \<Rightarrow> skip
   | Some b \<Rightarrow> seq (wait_on_buffer b)
       (bnd (gets (\<lambda>s. b_count (bufs s b))) (\<lambda>c. block
         [modify (upd_buf b (\<lambda>h. h\<lparr>b_count := c - 1\<rparr>)),
          if c = 0 then kpanic ''Trying to free free buffer'' else wake_up Q_buffer_wait])))"

subsection \<open>Reading a block, writing inodes and devices, with a way to get a buffer\<close>

type_synonym getter = "u16 \<Rightarrow> u32 \<Rightarrow> bptr K"

definition bread_with :: "getter \<Rightarrow> u16 \<Rightarrow> u32 \<Rightarrow> bptr option K" where
  "bread_with gb dev blk = bnd (gb dev blk) (\<lambda>b.
     bnd (gets (\<lambda>s. b_uptodate (bufs s b))) (\<lambda>u.
       if u \<noteq> 0 then ret (Some b)
       else seq (block [ll_rw_block READ b, wait_on_buffer b])
         (bnd (gets (\<lambda>s. b_uptodate (bufs s b))) (\<lambda>u.
           if u \<noteq> 0 then ret (Some b) else seq (brelse (Some b)) (ret None)))))"

text \<open>The disk inode (\<open>struct d_inode\<close>) at offset \<open>a\<close> of a block.\<close>

definition store_d_inode :: "nat \<Rightarrow> m_inode \<Rightarrow> (nat \<Rightarrow> u8) \<Rightarrow> (nat \<Rightarrow> u8)" where
  "store_d_inode a x d =
     fold (\<lambda>k d. put16 d (a + 14 + 2 * k) (i_zone x k)) [0..<9]
       ((put32 (put32 (put16 (put16 d a (i_mode x)) (a + 2) (i_uid x)) (a + 4) (i_size x))
          (a + 8) (i_mtime x))(a + 12 := i_gid x, a + 13 := i_nlinks x))"

definition load_d_inode :: "nat \<Rightarrow> (nat \<Rightarrow> u8) \<Rightarrow> m_inode \<Rightarrow> m_inode" where
  "load_d_inode a d x = x\<lparr>i_mode := get16 d a, i_uid := get16 d (a + 2), i_size := get32 d (a + 4),
     i_mtime := get32 d (a + 8), i_gid := d (a + 12), i_nlinks := d (a + 13),
     i_zone := (\<lambda>k. if k < 9 then get16 d (a + 14 + 2 * k) else i_zone x k)\<rparr>"

text \<open>The block that holds an inode and the offset of the inode in it.\<close>

definition INODES_PER_BLOCK :: u32 where [kconst]: "INODES_PER_BLOCK = 32"

definition inode_block :: "super_block \<Rightarrow> u16 \<Rightarrow> u32" where
  "inode_block sb num = 2 + ucast (s_imap_blocks sb) + ucast (s_zmap_blocks sb) +
     (ucast num - 1) div INODES_PER_BLOCK"

definition inode_offset :: "u16 \<Rightarrow> nat" where
  "inode_offset num = 32 * unat ((ucast num - 1 :: u32) mod INODES_PER_BLOCK)"

definition write_inode_with :: "getter \<Rightarrow> iptr \<Rightarrow> unit K" where
  "write_inode_with gb i = seq (lock_inode i)
     (bnd (gets (\<lambda>s. inode_table s i)) (\<lambda>x.
       if i_dirt x = 0 \<or> i_dev x = 0 then unlock_inode i
       else bnd (get_super (i_dev x)) (\<lambda>r. case r of
           None \<Rightarrow> kpanic ''trying to write inode without device''
         | Some sp \<Rightarrow> bnd (gets (\<lambda>s. inode_block (super_blocks s sp) (i_num (inode_table s i)))) (\<lambda>blk.
           bnd (gets (\<lambda>s. i_dev (inode_table s i))) (\<lambda>dev.
           bnd (bread_with gb dev blk) (\<lambda>r. case r of
             None \<Rightarrow> kpanic ''unable to read i-node block''
           | Some b \<Rightarrow> block
               [modify (\<lambda>s. upd_buf b (\<lambda>h. h\<lparr>b_data := store_d_inode
                  (inode_offset (i_num (inode_table s i))) (inode_table s i) (b_data h)\<rparr>) s),
                modify (upd_buf b (\<lambda>h. h\<lparr>b_dirt := 1\<rparr>)),
                modify (upd_inode i (\<lambda>x. x\<lparr>i_dirt := 0\<rparr>)),
                brelse (Some b),
                unlock_inode i]))))))"

definition sync_inodes_with :: "getter \<Rightarrow> unit K" where
  "sync_inodes_with gb = for_each [0..<NR_INODE] (\<lambda>i. seq (wait_on_inode i)
     (bnd (gets (\<lambda>s. inode_table s i)) (\<lambda>x.
       guardK (i_dirt x \<noteq> 0 \<and> i_pipe x = 0) (write_inode_with gb i))))"

definition sync_buffer :: "u16 \<Rightarrow> bptr \<Rightarrow> unit K" where
  "sync_buffer dev b = bnd (gets (\<lambda>s. b_dev (bufs s b))) (\<lambda>d.
     if d \<noteq> dev then skip
     else seq (wait_on_buffer b) (bnd (gets (\<lambda>s. bufs s b)) (\<lambda>h.
       guardK (b_dev h = dev \<and> b_dirt h \<noteq> 0) (ll_rw_block WRITE b))))"

definition each_buffer :: "(bptr \<Rightarrow> unit K) \<Rightarrow> unit K" where
  "each_buffer f = bnd (gets NR_BUFFERS) (\<lambda>n. for_each [0..<n] f)"

definition sync_dev_with :: "getter \<Rightarrow> u16 \<Rightarrow> int K" where
  "sync_dev_with gb dev = seq (block
     [each_buffer (sync_buffer dev), sync_inodes_with gb, each_buffer (sync_buffer dev)]) (ret 0)"

subsection \<open>getblk\<close>

definition BADNESS :: "buffer_head \<Rightarrow> nat" where
  "BADNESS h = 2 * unat (b_dirt h) + unat (b_lock h)"

text \<open>
  The scan of the free list: \<open>tmp\<close> is the buffer looked at, \<open>best\<close> the one chosen so far.
  \<open>None\<close> when the list does not come back to its head.
\<close>

fun scan_free :: "nat \<Rightarrow> kernel \<Rightarrow> bptr \<Rightarrow> bptr option \<Rightarrow> bptr option option" where
  "scan_free 0 s tmp best = None"
| "scan_free (Suc n) s tmp best =
     (let h = bufs s tmp;
          better = (case best of None \<Rightarrow> True | Some b \<Rightarrow> BADNESS h < BADNESS (bufs s b));
          best' = (if b_count h = 0 \<and> better then Some tmp else best)
      in if b_count h = 0 \<and> better \<and> BADNESS h = 0 then Some best'
         else case b_next_free h of
           None \<Rightarrow> None
         | Some nx \<Rightarrow> if nx = free_list s then Some best' else scan_free n s nx best')"

definition pick_buffer :: "bptr option K" where
  "pick_buffer = bnd (gets (\<lambda>s. scan_free (NR_BUFFERS s) s (free_list s) None)) (\<lambda>r.
     case r of None \<Rightarrow> stop Hung | Some x \<Rightarrow> ret x)"

text \<open>\<open>while (bh->b_dirt)\<close>; the result is whether somebody else took the buffer.\<close>

definition clean_buffer :: "getter \<Rightarrow> bptr \<Rightarrow> bool K" where
  "clean_buffer gb b = retry_twice (bnd (gets (\<lambda>s. bufs s b)) (\<lambda>h.
     if b_dirt h = 0 then ret (Some False)
     else seq (bnd (sync_dev_with gb (b_dev h)) (\<lambda>_. wait_on_buffer b))
       (bnd (gets (\<lambda>s. b_count (bufs s b))) (\<lambda>c. ret (if c \<noteq> 0 then Some True else None)))))"

definition take_buffer :: "u16 \<Rightarrow> u32 \<Rightarrow> bptr \<Rightarrow> unit K" where
  "take_buffer dev blk b = block
     [modify (upd_buf b (\<lambda>h. h\<lparr>b_count := 1, b_dirt := 0, b_uptodate := 0\<rparr>)),
      remove_from_queues b,
      modify (upd_buf b (\<lambda>h. h\<lparr>b_dev := dev, b_blocknr := blk\<rparr>)),
      insert_into_queues b]"

definition getblk_round :: "getter \<Rightarrow> u16 \<Rightarrow> u32 \<Rightarrow> bptr option K" where
  "getblk_round gb dev blk = bnd (get_hash_table dev blk) (\<lambda>r. case r of
     Some b \<Rightarrow> ret (Some b)
   | None \<Rightarrow> bnd pick_buffer (\<lambda>p. case p of
       None \<Rightarrow> seq (sleep_on Q_buffer_wait) (ret None)
     | Some b \<Rightarrow> seq (wait_on_buffer b)
         (bnd (gets (\<lambda>s. b_count (bufs s b))) (\<lambda>c.
           if c \<noteq> 0 then ret None
           else bnd (clean_buffer gb b) (\<lambda>taken.
             if taken then ret None
             else bnd (find_buffer dev blk) (\<lambda>f.
               if f \<noteq> None then ret None
               else seq (take_buffer dev blk b) (ret (Some b))))))))"

text \<open>
  A nested \<open>getblk\<close> comes from a \<open>write_inode\<close> that holds the lock of its inode, and waits for
  ever on an inode that is locked already: it is never nested deeper than there are inodes.
\<close>

fun getblk_nested :: "nat \<Rightarrow> getter" where
  "getblk_nested 0 dev blk = stop Hung"
| "getblk_nested (Suc n) dev blk = retry_twice (getblk_round (getblk_nested n) dev blk)"

definition getblk :: "u16 \<Rightarrow> u32 \<Rightarrow> bptr K" where
  "getblk = getblk_nested (NR_INODE + 2)"

definition bread :: "u16 \<Rightarrow> u32 \<Rightarrow> bptr option K" where
  "bread = bread_with getblk"

definition write_inode :: "iptr \<Rightarrow> unit K" where
  "write_inode = write_inode_with getblk"

definition sync_inodes :: "unit K" where
  "sync_inodes = sync_inodes_with getblk"

definition sync_dev :: "u16 \<Rightarrow> int K" where
  "sync_dev = sync_dev_with getblk"

subsection \<open>The rest of fs/buffer.c\<close>

definition sys_sync :: "int K" where
  "sys_sync = seq (block
     [sync_inodes,
      each_buffer (\<lambda>b. seq (wait_on_buffer b)
        (bnd (gets (\<lambda>s. b_dirt (bufs s b))) (\<lambda>d. guardK (d \<noteq> 0) (ll_rw_block WRITE b))))])
     (ret 0)"

definition invalidate_buffers :: "u16 \<Rightarrow> unit K" where
  "invalidate_buffers dev = each_buffer (\<lambda>b. bnd (gets (\<lambda>s. b_dev (bufs s b))) (\<lambda>d.
     if d \<noteq> dev then skip
     else seq (wait_on_buffer b) (modify (\<lambda>s.
       if b_dev (bufs s b) = dev then upd_buf b (\<lambda>h. h\<lparr>b_uptodate := 0, b_dirt := 0\<rparr>) s else s))))"

text \<open>\<open>COPYBLK\<close> to a physical address: 256 words.\<close>

definition COPYBLK :: "bptr \<Rightarrow> u32 \<Rightarrow> unit K" where
  "COPYBLK b addr = for_each [0..<256] (\<lambda>i. modify (\<lambda>s.
     s\<lparr>phys := (phys s)(addr + of_nat (4 * i) := get32 (b_data (bufs s b)) (4 * i))\<rparr>))"

definition bread_page_get :: "u16 \<Rightarrow> u32 \<Rightarrow> bptr option K" where
  "bread_page_get dev blk =
     (if blk = 0 then ret None
      else bnd (getblk dev blk) (\<lambda>b. bnd (gets (\<lambda>s. b_uptodate (bufs s b))) (\<lambda>u.
        seq (guardK (u = 0) (ll_rw_block READ b)) (ret (Some b)))))"

definition bread_page_copy :: "u32 \<Rightarrow> bptr option \<Rightarrow> unit K" where
  "bread_page_copy addr bh = (case bh of None \<Rightarrow> skip
   | Some b \<Rightarrow> seq (wait_on_buffer b) (bnd (gets (\<lambda>s. b_uptodate (bufs s b))) (\<lambda>u. block
       [guardK (u \<noteq> 0) (COPYBLK b addr), brelse (Some b)])))"

definition bread_page :: "u32 \<Rightarrow> u16 \<Rightarrow> (nat \<Rightarrow> u32) \<Rightarrow> unit K" where
  "bread_page address dev b =
     bnd (bread_page_get dev (b 0)) (\<lambda>b0. bnd (bread_page_get dev (b 1)) (\<lambda>b1.
     bnd (bread_page_get dev (b 2)) (\<lambda>b2. bnd (bread_page_get dev (b 3)) (\<lambda>b3. block
       [bread_page_copy address b0, bread_page_copy (address + 1024) b1,
        bread_page_copy (address + 2048) b2, bread_page_copy (address + 3072) b3]))))"

text \<open>The read-ahead of \<open>breada\<close> is asked for \<open>bh\<close>, not for the block \<open>tmp\<close> just found.\<close>

definition breada :: "u16 \<Rightarrow> u32 \<Rightarrow> u32 list \<Rightarrow> bptr option K" where
  "breada dev first ahead = bnd (getblk dev first) (\<lambda>b. seq (block
     [bnd (gets (\<lambda>s. b_uptodate (bufs s b))) (\<lambda>u. guardK (u = 0) (ll_rw_block READ b)),
      for_each ahead (\<lambda>n. bnd (getblk dev n) (\<lambda>t. block
        [bnd (gets (\<lambda>s. b_uptodate (bufs s t))) (\<lambda>u. guardK (u = 0) (ll_rw_block READA b)),
         modify (upd_buf t (\<lambda>h. h\<lparr>b_count := b_count h - 1\<rparr>))])),
      wait_on_buffer b])
     (bnd (gets (\<lambda>s. b_uptodate (bufs s b))) (\<lambda>u.
       if u \<noteq> 0 then ret (Some b) else seq (brelse (Some b)) (ret None))))"

text \<open>
  \<open>buffer_init\<close>: the data blocks go down from the end of the buffer memory while the heads (36
  bytes each) go up; the addresses of the blocks, in the order of the heads.
\<close>

fun init_blocks :: "nat \<Rightarrow> nat \<Rightarrow> nat \<Rightarrow> nat \<Rightarrow> nat list" where
  "init_blocks 0 start h b = []"
| "init_blocks (Suc n) start h b =
     (if start + 36 * (h + 1) \<le> b - 1024 \<and> 1024 \<le> b
      then (b - 1024) # init_blocks n start (h + 1) (if b - 1024 = 0x100000 then 0xA0000 else b - 1024)
      else [])"

definition buffer_init :: "u32 \<Rightarrow> unit K" where
  "buffer_init buffer_end = bnd (gets (\<lambda>s. unat (start_buffer s))) (\<lambda>st.
     let e = (if buffer_end = 0x100000 then 0xA0000 else unat buffer_end);
         addrs = init_blocks (e div 1024) st 0 e; n = length addrs
     in if n = 0 then stop Wild
        else block
         [for_each [0..<n] (\<lambda>i. modify (upd_buf i (\<lambda>h. h\<lparr>b_dev := 0, b_dirt := 0, b_count := 0,
            b_lock := 0, b_uptodate := 0, b_wait := None, b_next := None, b_prev := None,
            b_addr := of_nat (addrs ! i),
            b_prev_free := Some (if i = 0 then n - 1 else i - 1),
            b_next_free := Some (if i = n - 1 then 0 else i + 1)\<rparr>))),
          modify (\<lambda>s. s\<lparr>NR_BUFFERS := NR_BUFFERS s + n, free_list := 0, hash_table := (\<lambda>_. None)\<rparr>)])"

end
