(* ===== verification/Links.thy ===== *)
theory Links
  imports Prelude
begin

text \<open>
  Doubly linked lists, as the buffer cache keeps them: a ring (the free list) and chains that
  end in NULL (the hash queues).  \<open>nx\<close> and \<open>pv\<close> are the two pointer fields as functions.
\<close>

subsection \<open>Rings\<close>

fun links :: "('a \<Rightarrow> 'a option) \<Rightarrow> ('a \<Rightarrow> 'a option) \<Rightarrow> 'a list \<Rightarrow> bool" where
  "links nx pv (x # y # ys) \<longleftrightarrow> nx x = Some y \<and> pv y = Some x \<and> links nx pv (y # ys)"
| "links nx pv [] \<longleftrightarrow> True"
| "links nx pv [x] \<longleftrightarrow> True"

definition ring :: "('a \<Rightarrow> 'a option) \<Rightarrow> ('a \<Rightarrow> 'a option) \<Rightarrow> 'a list \<Rightarrow> bool" where
  "ring nx pv xs \<longleftrightarrow> xs \<noteq> [] \<and> links nx pv (xs @ [hd xs])"

lemma links_append:
  "links nx pv (xs @ y # zs) \<longleftrightarrow> links nx pv (xs @ [y]) \<and> links nx pv (y # zs)"
proof (induction nx pv xs rule: links.induct)
  case (3 nx pv v)
  then show ?case by (cases zs) simp_all
qed simp_all

lemma links_cong:
  assumes "\<forall>x \<in> set (butlast xs). nx' x = nx x" "\<forall>x \<in> set (tl xs). pv' x = pv x"
  shows "links nx' pv' xs = links nx pv xs"
  using assms by (induction nx pv xs rule: links.induct) auto

lemma ring_rotate: "ring nx pv (xs @ ys) \<Longrightarrow> xs \<noteq> [] \<Longrightarrow> ys \<noteq> [] \<Longrightarrow> ring nx pv (ys @ xs)"
proof -
  assume r: "ring nx pv (xs @ ys)" and ne: "xs \<noteq> []" "ys \<noteq> []"
  obtain x xs' y ys' where x: "xs = x # xs'" and y: "ys = y # ys'" using ne by (cases xs; cases ys) auto
  have "links nx pv (xs @ y # ys' @ [x])" using r x y by (simp add: ring_def)
  then have "links nx pv (xs @ [y])" "links nx pv (y # ys' @ [x])"
    using links_append [of nx pv xs y "ys' @ [x]"] by simp_all
  then show "ring nx pv (ys @ xs)"
    using links_append [of nx pv "y # ys'" x "xs' @ [y]"] x y by (simp add: ring_def)
qed

lemma ring_swap: "ring nx pv (xs @ ys) \<Longrightarrow> ring nx pv (ys @ xs)"
  using ring_rotate [of nx pv xs ys] by (cases "xs = []"; cases "ys = []") auto

lemma ring_remove_last:
  assumes r: "ring nx pv (ys @ [b])" and d: "distinct (ys @ [b])" and ne: "ys \<noteq> []"
  shows "nx b = Some (hd ys)" "pv b = Some (last ys)"
    "ring (nx(last ys := Some (hd ys))) (pv(hd ys := Some (last ys))) ys"
proof -
  obtain zs a where z: "ys = zs @ [a]" using ne by (metis append_butlast_last_id)
  have "hd (ys @ [b]) = hd ys" using ne by simp
  then have l: "links nx pv (zs @ a # b # [hd ys])" using r unfolding ring_def by (simp add: z)
  then have za: "links nx pv (zs @ [a])" and ab: "nx a = Some b" "pv b = Some a" "nx b = Some (hd ys)"
    using links_append [of nx pv zs a "[b, hd ys]"] by auto
  show "nx b = Some (hd ys)" "pv b = Some (last ys)" using ab z by simp_all
  have "links (nx(a := Some (hd ys))) (pv(hd ys := Some a)) (zs @ [a]) = links nx pv (zs @ [a])"
    using d unfolding z by (intro links_cong; cases zs) auto
  then have "links (nx(a := Some (hd ys))) (pv(hd ys := Some a)) (zs @ a # [hd ys])"
    using za links_append [of "nx(a := Some (hd ys))" "pv(hd ys := Some a)" zs a "[hd ys]"] by simp
  then show "ring (nx(last ys := Some (hd ys))) (pv(hd ys := Some (last ys))) ys"
    using z by (simp add: ring_def)
qed

text \<open>Taking an element out of a ring, wherever it stands.\<close>

lemma ring_remove:
  assumes r: "ring nx pv (us @ b # vs)" and d: "distinct (us @ b # vs)" and ne: "us @ vs \<noteq> []"
  shows "\<exists>p n. pv b = Some p \<and> nx b = Some n \<and> p \<noteq> b \<and> n \<noteq> b \<and> {p, n} \<subseteq> set (us @ vs) \<and>
    ring (nx(p := Some n)) (pv(n := Some p)) (us @ vs) \<and> (us = [] \<longrightarrow> n = hd vs)"
proof -
  have rot: "ring nx pv ((vs @ us) @ [b])"
    using ring_swap [of nx pv "us @ [b]" vs] r by simp
  have d': "distinct ((vs @ us) @ [b])" and ne': "vs @ us \<noteq> []" using d ne by auto
  note rm = ring_remove_last [OF rot d' ne']
  let ?p = "last (vs @ us)" and ?n = "hd (vs @ us)"
  have mem: "?p \<in> set (vs @ us)" "?n \<in> set (vs @ us)" using ne' last_in_set hd_in_set by blast+
  moreover have "?p \<noteq> b" "?n \<noteq> b" using mem d' by auto
  ultimately show ?thesis using rm ring_swap [OF rm(3)] by (intro exI [of _ ?p] exI [of _ ?n]) auto
qed

lemma ring_insert_last:
  assumes r: "ring nx pv ys" and b: "b \<notin> set ys" and d: "distinct ys"
  shows "pv (hd ys) = Some (last ys)"
    "ring (nx(b := Some (hd ys), last ys := Some b)) (pv(b := Some (last ys), hd ys := Some b)) (ys @ [b])"
proof -
  have ne: "ys \<noteq> []" using r by (simp add: ring_def)
  then obtain zs a where z: "ys = zs @ [a]" by (metis append_butlast_last_id)
  have l: "links nx pv (zs @ a # [hd ys])" using r z by (simp add: ring_def)
  then have za: "links nx pv (zs @ [a])" and pa: "pv (hd ys) = Some a"
    using links_append [of nx pv zs a "[hd ys]"] by auto
  show "pv (hd ys) = Some (last ys)" using pa z by simp
  let ?n = "nx(b := Some (hd ys), a := Some b)" and ?p = "pv(b := Some a, hd ys := Some b)"
  have ab: "a \<noteq> b" "hd ys \<noteq> b" using b z hd_in_set [OF ne] by auto
  have "links ?n ?p (zs @ [a]) = links nx pv (zs @ [a])"
    using d b unfolding z by (intro links_cong; cases zs) auto
  then have "links ?n ?p (zs @ a # [b, hd ys])"
    using za ab links_append [of ?n ?p zs a "[b, hd ys]"] by simp
  moreover have "hd (ys @ [b]) = hd ys" using ne by simp
  moreover have "last ys = a" using z by simp
  ultimately show "ring (nx(b := Some (hd ys), last ys := Some b)) (pv(b := Some (last ys), hd ys := Some b)) (ys @ [b])"
    unfolding ring_def by (simp add: z)
qed

subsection \<open>Chains\<close>

primrec chain :: "('a \<Rightarrow> 'a option) \<Rightarrow> ('a \<Rightarrow> 'a option) \<Rightarrow> 'a option \<Rightarrow> 'a option \<Rightarrow> 'a list \<Rightarrow> bool" where
  "chain nx pv h p [] \<longleftrightarrow> h = None"
| "chain nx pv h p (x # xs) \<longleftrightarrow> h = Some x \<and> pv x = p \<and> chain nx pv (nx x) (Some x) xs"

lemma chain_cong:
  assumes "\<forall>x \<in> set xs. nx' x = nx x \<and> pv' x = pv x"
  shows "chain nx' pv' h p xs = chain nx pv h p xs"
  using assms by (induction xs arbitrary: h p) auto

lemma chain_insert:
  assumes "chain nx pv h None xs" "b \<notin> set xs" "distinct xs"
    and "nx' b = h" "pv' b = None" "\<forall>x. x \<noteq> b \<longrightarrow> nx' x = nx x"
    and "\<forall>x. x \<noteq> b \<longrightarrow> pv' x = (if h = Some x then Some b else pv x)"
  shows "chain nx' pv' (Some b) None (b # xs)"
proof (cases xs)
  case Nil
  then show ?thesis using assms by simp
next
  case (Cons y ys)
  have h: "h = Some y" and ys: "chain nx pv (nx y) (Some y) ys" "y \<noteq> b" "b \<notin> set ys" "y \<notin> set ys"
    using assms(1-3) Cons by auto
  have eq: "nx' x = nx x" "pv' x = pv x" if "x \<in> set ys" for x
    using assms(6,7) ys that h by (metis option.inject)+
  have "chain nx' pv' (nx y) (Some y) ys = chain nx pv (nx y) (Some y) ys"
    using eq by (intro chain_cong) simp
  moreover have "nx' y = nx y" "pv' y = Some b" using assms(6,7) ys(2) h by simp_all
  ultimately show ?thesis using assms(4,5) Cons h ys(1) by simp
qed

text \<open>The chain after \<open>remove_from_queues\<close> has mended the pointers around \<open>b\<close>.\<close>

definition mend_next :: "('a \<Rightarrow> 'a option) \<Rightarrow> ('a \<Rightarrow> 'a option) \<Rightarrow> 'a \<Rightarrow> ('a \<Rightarrow> 'a option)" where
  "mend_next nx pv b = (case pv b of None \<Rightarrow> nx | Some p \<Rightarrow> nx(p := nx b))"

definition mend_prev :: "('a \<Rightarrow> 'a option) \<Rightarrow> ('a \<Rightarrow> 'a option) \<Rightarrow> 'a \<Rightarrow> ('a \<Rightarrow> 'a option)" where
  "mend_prev nx pv b = (case nx b of None \<Rightarrow> pv | Some n \<Rightarrow> pv(n := pv b))"

lemma chain_prev: "chain nx pv h p (us @ b # vs) \<Longrightarrow> pv b = (if us = [] then p else Some (last us))"
  by (induction us arbitrary: h p) auto

lemma chain_next: "chain nx pv h p (us @ b # vs) \<Longrightarrow> nx b = (case vs of [] \<Rightarrow> None | v # _ \<Rightarrow> Some v)"
  by (induction us arbitrary: h p) (auto split: list.split)

lemma chain_remove:
  assumes "chain nx pv h p (us @ b # vs)" "distinct (us @ b # vs)"
    and "p = None \<or> (\<exists>q. p = Some q \<and> q \<notin> set (us @ b # vs))"
  shows "chain (mend_next nx pv b) (mend_prev nx pv b) (if h = Some b then nx b else h) p (us @ vs)"
  using assms
proof (induction us arbitrary: h p)
  case Nil
  then have h: "h = Some b" "pv b = p" and v: "chain nx pv (nx b) (Some b) vs" by auto
  show ?case
  proof (cases vs)
    case Nil
    then show ?thesis using v h by simp
  next
    case (Cons n ns)
    have nb: "nx b = Some n" and ns: "chain nx pv (nx n) (Some n) ns" using v Cons by auto
    have nxt: "mend_next nx pv b x = nx x" if "x \<in> set vs" for x
      using Nil.prems(3) h(2) that by (auto simp: mend_next_def)
    have prv: "mend_prev nx pv b x = (if x = n then p else pv x)" for x
      using h(2) nb by (simp add: mend_prev_def)
    have "chain (mend_next nx pv b) (mend_prev nx pv b) (nx n) (Some n) ns = chain nx pv (nx n) (Some n) ns"
      using Nil.prems(2) Cons nxt prv by (intro chain_cong) auto
    moreover have "mend_next nx pv b n = nx n" "mend_prev nx pv b n = p" using Cons nxt prv by simp_all
    ultimately show ?thesis using Cons h nb ns by simp
  qed
next
  case (Cons u us)
  have u: "h = Some u" "pv u = p" "chain nx pv (nx u) (Some u) (us @ b # vs)" "u \<noteq> b"
    using Cons.prems by auto
  have IH: "chain (mend_next nx pv b) (mend_prev nx pv b) (if nx u = Some b then nx b else nx u) (Some u) (us @ vs)"
    using Cons.prems(2) u(3) by (intro Cons.IH) auto
  have pb: "pv b = Some (last (u # us))" using chain_prev [OF u(3)] by simp
  have nb: "nx b \<noteq> Some u" using chain_next [OF u(3)] Cons.prems(2) by (cases vs) auto
  have "mend_prev nx pv b u = p" using nb u(2) by (auto simp: mend_prev_def split: option.split)
  moreover have "mend_next nx pv b u = (if nx u = Some b then nx b else nx u)"
  proof (cases us)
    case Nil
    then show ?thesis using pb u(3) by (simp add: mend_next_def)
  next
    case (Cons v ws)
    have "last (v # ws) \<in> set (v # ws)" by (rule last_in_set) simp
    then have "last us \<noteq> u" "nx u = Some v" "v \<noteq> b" using Cons.prems(2) u(3) Cons by auto
    then show ?thesis using pb Cons by (auto simp: mend_next_def)
  qed
  ultimately show ?case using u IH by simp
qed

end
