(* ===== verification/Bufcache.thy ===== *)
theory Bufcache
  imports Cache Links
begin

unbundle bit_operations_syntax

text \<open>
  The buffer cache as a data structure (fs/buffer.c): every buffer is on the circular free list,
  every buffer that stands for a block is on the hash queue of that block, and no two buffers
  stand for the same block.
\<close>

subsection \<open>The invariant\<close>

abbreviation nextb :: "kernel \<Rightarrow> bptr \<Rightarrow> bptr option" where "nextb s \<equiv> \<lambda>b. b_next (bufs s b)"
abbreviation prevb :: "kernel \<Rightarrow> bptr \<Rightarrow> bptr option" where "prevb s \<equiv> \<lambda>b. b_prev (bufs s b)"
abbreviation nextf :: "kernel \<Rightarrow> bptr \<Rightarrow> bptr option" where "nextf s \<equiv> \<lambda>b. b_next_free (bufs s b)"
abbreviation prevf :: "kernel \<Rightarrow> bptr \<Rightarrow> bptr option" where "prevf s \<equiv> \<lambda>b. b_prev_free (bufs s b)"

definition bkey :: "kernel \<Rightarrow> bptr \<Rightarrow> u16 \<times> u32" where
  "bkey s b = (b_dev (bufs s b), b_blocknr (bufs s b))"

definition bhash :: "kernel \<Rightarrow> bptr \<Rightarrow> nat" where
  "bhash s b = hashfn (b_dev (bufs s b)) (b_blocknr (bufs s b))"

definition hashed :: "kernel \<Rightarrow> bptr set \<Rightarrow> nat \<Rightarrow> bptr set" where
  "hashed s A h = {b \<in> A. b_dev (bufs s b) \<noteq> 0 \<and> bhash s b = h}"

text \<open>The cache restricted to a set \<open>A\<close> of buffers (all of them, or all but one on its way).\<close>

definition free_ok :: "kernel \<Rightarrow> bptr set \<Rightarrow> bool" where
  "free_ok s A \<longleftrightarrow> (\<exists>fl. ring (nextf s) (prevf s) fl \<and> distinct fl \<and> set fl = A \<and> List.hd fl = free_list s)"

definition hash_ok :: "kernel \<Rightarrow> bptr set \<Rightarrow> bool" where
  "hash_ok s A \<longleftrightarrow> (\<forall>h<NR_HASH. \<exists>xs. chain (nextb s) (prevb s) (hash_table s h) None xs \<and> distinct xs \<and>
     set xs = hashed s A h)"

definition idle_ok :: "kernel \<Rightarrow> bptr set \<Rightarrow> bool" where
  "idle_ok s A \<longleftrightarrow> (\<forall>b \<in> A. b_dev (bufs s b) = 0 \<longrightarrow> nextb s b = None \<and> prevb s b = None)"

definition unique_ok :: "kernel \<Rightarrow> bptr set \<Rightarrow> bool" where
  "unique_ok s A \<longleftrightarrow> (\<forall>b \<in> A. \<forall>c \<in> A. bkey s b = bkey s c \<longrightarrow> b_dev (bufs s b) \<noteq> 0 \<longrightarrow> b = c)"

definition cache_at :: "kernel \<Rightarrow> bptr set \<Rightarrow> bool" where
  "cache_at s A \<longleftrightarrow> free_ok s A \<and> hash_ok s A \<and> idle_ok s A \<and> unique_ok s A"

definition cache_ok :: "kernel \<Rightarrow> bool" where
  "cache_ok s \<longleftrightarrow> 2 \<le> NR_BUFFERS s \<and> cache_at s {0..<NR_BUFFERS s}"

lemma hashfn_less: "hashfn dev blk < NR_HASH"
  by (simp add: hashfn_def kconst)

subsection \<open>Taking a buffer off its queues\<close>

definition removed :: "bptr \<Rightarrow> bptr \<Rightarrow> bptr \<Rightarrow> kernel \<Rightarrow> kernel" where
  "removed p n b s = s\<lparr>
     bufs := (\<lambda>c. (bufs s c)\<lparr>b_prev := mend_prev (nextb s) (prevb s) b c,
        b_next := mend_next (nextb s) (prevb s) b c,
        b_prev_free := ((prevf s)(n := Some p)) c, b_next_free := ((nextf s)(p := Some n)) c\<rparr>),
     hash_table := (if hash_table s (bhash s b) = Some b
        then (hash_table s)(bhash s b := nextb s b) else hash_table s),
     free_list := (if free_list s = b then n else free_list s)\<rparr>"

lemma remove_run:
  assumes "prevf s b = Some p" "nextf s b = Some n"
  shows "remove_from_queues b s es = Ret () (removed p n b s) es"
  using assms by (cases "nextb s b"; cases "prevb s b")
    (simp_all add: remove_from_queues_def krun Let_def removed_def bhash_def mend_next_def mend_prev_def
      upd_buf_def fun_eq_iff)

lemma removed_fields [simp]:
  "bkey (removed p n b s) = bkey s" "bhash (removed p n b s) = bhash s"
  "b_dev (bufs (removed p n b s) c) = b_dev (bufs s c)"
  "hashed (removed p n b s) = hashed s" "NR_BUFFERS (removed p n b s) = NR_BUFFERS s"
  by (simp_all add: removed_def bkey_def bhash_def hashed_def fun_eq_iff)

lemma removed_links [simp]:
  "nextb (removed p n b s) = mend_next (nextb s) (prevb s) b"
  "prevb (removed p n b s) = mend_prev (nextb s) (prevb s) b"
  "nextf (removed p n b s) = (nextf s)(p := Some n)" "prevf (removed p n b s) = (prevf s)(n := Some p)"
  by (simp_all add: removed_def fun_eq_iff)

lemma removed_at [simp]:
  "b_next (bufs (removed p n b s) c) = mend_next (nextb s) (prevb s) b c"
  "b_prev (bufs (removed p n b s) c) = mend_prev (nextb s) (prevb s) b c"
  by (simp_all add: removed_def)

lemma free_removed:
  assumes "free_ok s A" "b \<in> A" "A \<noteq> {b}"
  shows "\<exists>p n. prevf s b = Some p \<and> nextf s b = Some n \<and> free_ok (removed p n b s) (A - {b})"
proof -
  obtain fl where fl: "ring (nextf s) (prevf s) fl" "distinct fl" "set fl = A" "List.hd fl = free_list s"
    using assms(1) unfolding free_ok_def by blast
  obtain us vs where uv: "fl = us @ b # vs" using assms(2) fl(3) split_list by fastforce
  have ne: "us @ vs \<noteq> []" using assms(3) fl(3) uv by auto
  from ring_remove [OF fl(1,2) [unfolded uv] ne] obtain p n where
    pn: "prevf s b = Some p" "nextf s b = Some n"
    "ring ((nextf s)(p := Some n)) ((prevf s)(n := Some p)) (us @ vs)" "us = [] \<longrightarrow> n = List.hd vs"
    by blast
  have "distinct (us @ vs)" "set (us @ vs) = A - {b}" using fl(2,3) uv by auto
  moreover have "List.hd (us @ vs) = free_list (removed p n b s)"
    using fl(2,4) pn(4) uv by (cases us) (auto simp: removed_def)
  ultimately have "free_ok (removed p n b s) (A - {b})"
    unfolding free_ok_def removed_links using pn(3) by blast
  then show ?thesis using pn(1,2) by blast
qed

text \<open>A buffer that is hashed is on the queue of its block, with its neighbours.\<close>

lemma chain_neighbours:
  assumes "chain nx pv h None xs" "b \<in> set xs"
  shows "\<forall>c. nx b = Some c \<longrightarrow> c \<in> set xs" "\<forall>c. pv b = Some c \<longrightarrow> c \<in> set xs"
proof -
  obtain us vs where uv: "xs = us @ b # vs" using assms(2) split_list by fastforce
  have c: "chain nx pv h None (us @ b # vs)" using assms(1) uv by simp
  show "\<forall>c. nx b = Some c \<longrightarrow> c \<in> set xs" using chain_next [OF c] uv by (cases vs) auto
  show "\<forall>c. pv b = Some c \<longrightarrow> c \<in> set xs" using chain_prev [OF c] uv by (cases "us = []") auto
qed

lemma neighbours_hashed:
  assumes "hash_ok s A" "idle_ok s A" "b \<in> A" "nextb s b = Some c \<or> prevb s b = Some c"
  shows "c \<in> hashed s A (bhash s b)" "b_dev (bufs s b) \<noteq> 0"
proof -
  show b0: "b_dev (bufs s b) \<noteq> 0" using assms(2-4) by (auto simp: idle_ok_def)
  obtain xs where xs: "chain (nextb s) (prevb s) (hash_table s (bhash s b)) None xs"
    "set xs = hashed s A (bhash s b)"
    using assms(1) hashfn_less unfolding hash_ok_def bhash_def by blast
  have "b \<in> set xs" using xs(2) assms(3) b0 by (simp add: hashed_def)
  from chain_neighbours [OF xs(1) this] show "c \<in> hashed s A (bhash s b)" using xs(2) assms(4) by auto
qed

lemma mend_other:
  assumes "nx b \<noteq> Some c" "pv b \<noteq> Some c"
  shows "mend_next nx pv b c = nx c" "mend_prev nx pv b c = pv c"
  using assms by (auto simp: mend_next_def mend_prev_def split: option.split)

lemma hash_removed:
  assumes ok: "hash_ok s A" "idle_ok s A" and b: "b \<in> A"
  shows "hash_ok (removed p n b s) (A - {b})"
  unfolding hash_ok_def
proof (intro allI impI)
  fix h assume h: "h < NR_HASH"
  let ?s = "removed p n b s"
  obtain xs where xs: "chain (nextb s) (prevb s) (hash_table s h) None xs" "distinct xs"
    "set xs = hashed s A h"
    using ok(1) h unfolding hash_ok_def by blast
  have set: "hashed s (A - {b}) h = set xs - {b}" using xs(3) by (auto simp: hashed_def)
  show "\<exists>xs. chain (nextb ?s) (prevb ?s) (hash_table ?s h) None xs \<and> distinct xs \<and> set xs = hashed ?s (A - {b}) h"
  proof (cases "b \<in> set xs")
    case True
    then have hb: "bhash s b = h" using xs(3) by (simp add: hashed_def)
    obtain us vs where uv: "xs = us @ b # vs" using True split_list by fastforce
    have "chain (nextb ?s) (prevb ?s) (hash_table ?s h) None (us @ vs)"
      using chain_remove [OF xs(1,2) [unfolded uv]] hb unfolding removed_links
      by (simp add: removed_def split: if_splits)
    moreover have "distinct (us @ vs)" "set (us @ vs) = hashed ?s (A - {b}) h"
      using xs(2) set uv by auto
    ultimately show ?thesis by blast
  next
    case False
    have far: "nextb s b \<noteq> Some c \<and> prevb s b \<noteq> Some c" if "c \<in> set xs" for c
    proof -
      have "bhash s b \<noteq> h \<or> b_dev (bufs s b) = 0" using False b xs(3) by (auto simp: hashed_def)
      moreover have "bhash s c = h" using that xs(3) by (simp add: hashed_def)
      ultimately show ?thesis using neighbours_hashed [OF ok b, of c] by (auto simp: hashed_def)
    qed
    have "chain (nextb ?s) (prevb ?s) (hash_table s h) None xs =
        chain (nextb s) (prevb s) (hash_table s h) None xs"
      unfolding removed_links
    proof (rule chain_cong, rule ballI)
      fix c assume "c \<in> set xs"
      then have "nextb s b \<noteq> Some c" "prevb s b \<noteq> Some c" using far by blast+
      from mend_other [of "nextb s" b c "prevb s", OF this]
      show "mend_next (nextb s) (prevb s) b c = nextb s c \<and> mend_prev (nextb s) (prevb s) b c = prevb s c"
        by simp
    qed
    moreover have "hash_table ?s h = hash_table s h"
      using False xs(1) by (cases xs) (auto simp: removed_def)
    ultimately show ?thesis using xs set False by auto
  qed
qed

lemma cache_removed:
  assumes "cache_at s A" "b \<in> A" "A \<noteq> {b}"
  shows "\<exists>p n. prevf s b = Some p \<and> nextf s b = Some n \<and> cache_at (removed p n b s) (A - {b})"
proof -
  obtain p n where pn: "prevf s b = Some p" "nextf s b = Some n" "free_ok (removed p n b s) (A - {b})"
    using free_removed assms unfolding cache_at_def by blast
  have "idle_ok (removed p n b s) (A - {b})"
    unfolding idle_ok_def removed_at removed_fields
  proof (intro ballI impI)
    fix c assume c: "c \<in> A - {b}" and d: "b_dev (bufs s c) = 0"
    have far: "nextb s b \<noteq> Some c" "prevb s b \<noteq> Some c"
      using neighbours_hashed [of s A b c] assms(1,2) d by (auto simp: cache_at_def hashed_def)
    show "mend_next (nextb s) (prevb s) b c = None \<and> mend_prev (nextb s) (prevb s) b c = None"
      using mend_other [of "nextb s" b c "prevb s", OF far] assms(1) c d
      by (simp add: cache_at_def idle_ok_def)
  qed
  moreover have "unique_ok (removed p n b s) (A - {b})"
    using assms(1) by (auto simp: cache_at_def unique_ok_def)
  moreover have "hash_ok (removed p n b s) (A - {b})"
    using hash_removed assms(1,2) by (simp add: cache_at_def)
  ultimately show ?thesis using pn unfolding cache_at_def by blast
qed

subsection \<open>What the invariant depends on\<close>

definition skeleton :: "buffer_head \<Rightarrow> u16 \<times> u32 \<times> bptr option \<times> bptr option \<times> bptr option \<times> bptr option" where
  "skeleton h = (b_dev h, b_blocknr h, b_next h, b_prev h, b_next_free h, b_prev_free h)"

lemma ring_cong:
  assumes "\<forall>x \<in> set xs. nx' x = nx x \<and> pv' x = pv x"
  shows "ring nx' pv' xs = ring nx pv xs"
proof (cases "xs = []")
  case False
  have "links nx' pv' (xs @ [List.hd xs]) = links nx pv (xs @ [List.hd xs])"
    using assms False by (intro links_cong) (cases xs; auto)+
  then show ?thesis by (simp add: ring_def)
qed (simp add: ring_def)

lemma cache_at_cong:
  assumes same: "\<And>c. c \<in> A \<Longrightarrow> skeleton (bufs s' c) = skeleton (bufs s c)"
    and "hash_table s' = hash_table s" "free_list s' = free_list s" and ok: "cache_at s A"
  shows "cache_at s' A"
proof -
  have eq: "b_dev (bufs s' c) = b_dev (bufs s c)" "bkey s' c = bkey s c" "bhash s' c = bhash s c"
    "nextb s' c = nextb s c" "prevb s' c = prevb s c" "nextf s' c = nextf s c" "prevf s' c = prevf s c"
    if "c \<in> A" for c
    using same [OF that] by (simp_all add: skeleton_def bkey_def bhash_def)
  have h: "hashed s' A = hashed s A" using eq by (auto simp: hashed_def fun_eq_iff)
  have "ring (nextf s') (prevf s') fl = ring (nextf s) (prevf s) fl" if "set fl = A" for fl
    using that eq by (intro ring_cong) simp
  then have "free_ok s' A" using ok assms(3) unfolding cache_at_def free_ok_def by metis
  moreover have "chain (nextb s') (prevb s') k p xs = chain (nextb s) (prevb s) k p xs" if "set xs \<subseteq> A" for xs k p
    using that eq by (intro chain_cong) auto
  then have "hash_ok s' A"
    using ok assms(2) h unfolding cache_at_def hash_ok_def hashed_def by (metis (no_types, lifting) mem_Collect_eq subsetI)
  moreover have "idle_ok s' A" "unique_ok s' A"
    using ok eq unfolding cache_at_def idle_ok_def unique_ok_def by auto
  ultimately show ?thesis by (simp add: cache_at_def)
qed

subsection \<open>Putting a buffer on its queues\<close>

definition freed :: "bptr \<Rightarrow> bptr \<Rightarrow> kernel \<Rightarrow> kernel" where
  "freed p b s = upd_buf b (\<lambda>x. x\<lparr>b_prev := None, b_next := None\<rparr>)
     (upd_buf (free_list s) (\<lambda>x. x\<lparr>b_prev_free := Some b\<rparr>)
     (upd_buf p (\<lambda>x. x\<lparr>b_next_free := Some b\<rparr>)
     (upd_buf b (\<lambda>x. x\<lparr>b_next_free := Some (free_list s), b_prev_free := Some p\<rparr>) s)))"

definition queued :: "bptr \<Rightarrow> kernel \<Rightarrow> kernel" where
  "queued b s = (let h = bhash s b; s1 = upd_buf b (\<lambda>x. x\<lparr>b_next := hash_table s h\<rparr>) s;
      s2 = s1\<lparr>hash_table := (hash_table s1)(h := Some b)\<rparr>
    in case hash_table s h of
      None \<Rightarrow> s2\<lparr>phys := (phys s2)(20 := start_buffer s2 + of_nat (36 * b))\<rparr>
    | Some nx \<Rightarrow> upd_buf nx (\<lambda>x. x\<lparr>b_prev := Some b\<rparr>) s2)"

definition inserted :: "bptr \<Rightarrow> bptr \<Rightarrow> kernel \<Rightarrow> kernel" where
  "inserted p b s = (if b_dev (bufs s b) = 0 then freed p b s else queued b (freed p b s))"

lemma upd_buf_keeps [simp]:
  "hash_table (upd_buf b f s) = hash_table s" "free_list (upd_buf b f s) = free_list s"
  "NR_BUFFERS (upd_buf b f s) = NR_BUFFERS s"
  by (simp_all add: upd_buf_def)

lemma bufs_upd_buf: "bufs (upd_buf b f s) c = (if c = b then f (bufs s b) else bufs s c)"
  by (simp add: upd_buf_def)

lemma freed_fields [simp]:
  "b_dev (bufs (freed p b s) c) = b_dev (bufs s c)" "b_blocknr (bufs (freed p b s) c) = b_blocknr (bufs s c)"
  "hash_table (freed p b s) = hash_table s" "free_list (freed p b s) = free_list s"
  "NR_BUFFERS (freed p b s) = NR_BUFFERS s"
  by (simp_all add: freed_def bufs_upd_buf)

lemma freed_links [simp]:
  "nextb (freed p b s) = (nextb s)(b := None)" "prevb (freed p b s) = (prevb s)(b := None)"
  "nextf (freed p b s) = (nextf s)(b := Some (free_list s), p := Some b)"
  "prevf (freed p b s) = (prevf s)(b := Some p, free_list s := Some b)"
  by (rule ext, simp add: freed_def bufs_upd_buf)+

lemma freed_at [simp]:
  "b_next (bufs (freed p b s) c) = (if c = b then None else nextb s c)"
  "b_prev (bufs (freed p b s) c) = (if c = b then None else prevb s c)"
  by (simp_all add: freed_def bufs_upd_buf)

lemma queued_fields [simp]:
  "b_dev (bufs (queued b s) c) = b_dev (bufs s c)" "b_blocknr (bufs (queued b s) c) = b_blocknr (bufs s c)"
  "hash_table (queued b s) = (hash_table s)(bhash s b := Some b)" "free_list (queued b s) = free_list s"
  "NR_BUFFERS (queued b s) = NR_BUFFERS s" "nextf (queued b s) = nextf s" "prevf (queued b s) = prevf s"
  by (simp_all add: queued_def Let_def bufs_upd_buf fun_eq_iff split: option.split)

lemma queued_links:
  assumes "hash_table s (bhash s b) \<noteq> Some b"
  shows "nextb (queued b s) c = (if c = b then hash_table s (bhash s b) else nextb s c)"
    "prevb (queued b s) c = (if c \<noteq> b \<and> hash_table s (bhash s b) = Some c then Some b else prevb s c)"
  using assms by (auto simp: queued_def Let_def bufs_upd_buf split: option.split)

lemma insert_run:
  assumes "prevf s (free_list s) = Some p"
  shows "insert_into_queues b s es = Ret () (inserted p b s) es"
proof -
  have f: "b_dev (bufs (freed p b s) b) = b_dev (bufs s b)" by simp
  show ?thesis using assms f
    by (simp add: insert_into_queues_def krun inserted_def freed_def [symmetric])
      (simp add: krun Let_def queued_def bhash_def split: option.split)
qed


lemma free_freed:
  assumes "free_ok s A" "b \<notin> A"
  shows "\<exists>p. prevf s (free_list s) = Some p \<and> free_ok (freed p b s) (insert b A)"
proof -
  obtain fl where fl: "ring (nextf s) (prevf s) fl" "distinct fl" "set fl = A" "List.hd fl = free_list s"
    using assms(1) unfolding free_ok_def by blast
  have b: "b \<notin> set fl" using assms(2) fl(3) by simp
  note ins = ring_insert_last [OF fl(1) b fl(2)]
  have ne: "fl \<noteq> []" using fl(1) by (simp add: ring_def)
  have "ring (nextf (freed (last fl) b s)) (prevf (freed (last fl) b s)) (fl @ [b])"
    unfolding freed_links using ins(2) fl(4) by simp
  moreover have "distinct (fl @ [b])" "set (fl @ [b]) = insert b A" "List.hd (fl @ [b]) = free_list s"
    using fl b ne by simp_all
  ultimately have "free_ok (freed (last fl) b s) (insert b A)"
    unfolding free_ok_def freed_fields by blast
  then show ?thesis using ins(1) fl(4) by auto
qed

lemma hash_freed:
  assumes "hash_ok s A" "b \<notin> A"
  shows "hash_ok (freed p b s) A"
  unfolding hash_ok_def
proof (intro allI impI)
  fix h assume "h < NR_HASH"
  then obtain xs where xs: "chain (nextb s) (prevb s) (hash_table s h) None xs" "distinct xs"
    "set xs = hashed s A h"
    using assms(1) unfolding hash_ok_def by blast
  have "b \<notin> set xs" using xs(3) assms(2) by (simp add: hashed_def)
  then have "chain ((nextb s)(b := None)) ((prevb s)(b := None)) (hash_table s h) None xs =
      chain (nextb s) (prevb s) (hash_table s h) None xs"
    by (intro chain_cong) auto
  moreover have "hashed (freed p b s) A h = hashed s A h" by (simp add: hashed_def bhash_def)
  ultimately show "\<exists>xs. chain (nextb (freed p b s)) (prevb (freed p b s)) (hash_table (freed p b s) h) None xs \<and>
      distinct xs \<and> set xs = hashed (freed p b s) A h"
    unfolding freed_links freed_fields using xs by metis
qed

lemma hash_queued:
  assumes ok: "hash_ok s A" and b: "b \<notin> A" "b_dev (bufs s b) \<noteq> 0" "prevb s b = None"
  shows "hash_ok (queued b s) (insert b A)"
  unfolding hash_ok_def
proof (intro allI impI)
  fix h assume "h < NR_HASH"
  then obtain xs where xs: "chain (nextb s) (prevb s) (hash_table s h) None xs" "distinct xs"
    "set xs = hashed s A h"
    using ok unfolding hash_ok_def by blast
  have nb: "b \<notin> set xs" using xs(3) b(1) by (simp add: hashed_def)
  obtain ys where ys: "chain (nextb s) (prevb s) (hash_table s (bhash s b)) None ys"
    "set ys = hashed s A (bhash s b)"
    using ok hashfn_less unfolding hash_ok_def bhash_def by blast
  have ob: "hash_table s (bhash s b) \<noteq> Some b"
    using ys b(1) by (cases ys) (auto simp: hashed_def)
  note lk = queued_links [OF ob]
  have hs: "hashed (queued b s) (insert b A) h = (if h = bhash s b then insert b (set xs) else set xs)"
    using xs(3) b(1,2) by (auto simp: hashed_def bhash_def)
  show "\<exists>zs. chain (nextb (queued b s)) (prevb (queued b s)) (hash_table (queued b s) h) None zs \<and>
      distinct zs \<and> set zs = hashed (queued b s) (insert b A) h"
  proof (cases "h = bhash s b")
    case True
    have "chain (nextb (queued b s)) (prevb (queued b s)) (Some b) None (b # xs)"
      using xs(1) nb xs(2) by (rule chain_insert) (use True lk b(3) in auto)
    then show ?thesis using True hs xs(2) nb by (intro exI [of _ "b # xs"]) simp
  next
    case False
    have "hash_table s (bhash s b) \<noteq> Some c" if "c \<in> set xs" for c
      using that ys xs(3) False by (cases ys) (auto simp: hashed_def)
    then have "chain (nextb (queued b s)) (prevb (queued b s)) (hash_table s h) None xs =
        chain (nextb s) (prevb s) (hash_table s h) None xs"
      using lk nb by (intro chain_cong) auto
    then show ?thesis using False hs xs by (intro exI [of _ xs]) simp
  qed
qed

lemma cache_inserted:
  assumes ok: "cache_at s A" and b: "b \<notin> A" and new: "\<forall>c \<in> A. bkey s c = bkey s b \<longrightarrow> b_dev (bufs s b) = 0"
  shows "\<exists>p. prevf s (free_list s) = Some p \<and> cache_at (inserted p b s) (insert b A)"
proof -
  obtain p where p: "prevf s (free_list s) = Some p" "free_ok (freed p b s) (insert b A)"
    using free_freed ok b unfolding cache_at_def by blast
  let ?f = "freed p b s" and ?t = "inserted p b s"
  have key: "bkey ?t = bkey s" "\<And>c. b_dev (bufs ?t c) = b_dev (bufs s c)"
    by (simp_all add: inserted_def bkey_def fun_eq_iff)
  have h: "hash_ok ?f A" using hash_freed ok b unfolding cache_at_def by blast
  have bh: "bhash ?f b = bhash s b" by (simp add: bhash_def)
  have pb: "prevb ?f b = None" by simp
  have f: "free_ok ?t (insert b A)"
    using p(2) unfolding free_ok_def inserted_def by (simp only: queued_fields split: if_split) simp
  have hash: "hash_ok ?t (insert b A)"
  proof (cases "b_dev (bufs s b) = 0")
    case True
    then have "hashed ?f (insert b A) = hashed ?f A" by (auto simp: hashed_def fun_eq_iff)
    then show ?thesis using h True by (simp add: inserted_def hash_ok_def)
  next
    case False
    then show ?thesis using hash_queued [OF h b _ pb] by (simp add: inserted_def)
  qed
  have idle: "idle_ok ?t (insert b A)"
    unfolding idle_ok_def
  proof (intro ballI impI)
    fix c assume c: "c \<in> insert b A" and "b_dev (bufs ?t c) = 0"
    then have d: "b_dev (bufs s c) = 0" using key(2) by simp
    have fc: "nextb ?f c = None \<and> prevb ?f c = None"
      using c d ok by (auto simp: cache_at_def idle_ok_def)
    show "nextb ?t c = None \<and> prevb ?t c = None"
    proof (cases "b_dev (bufs s b) = 0")
      case True
      then show ?thesis using fc by (simp add: inserted_def)
    next
      case False
      then have cb: "c \<noteq> b" using d by auto
      obtain ys where ys: "chain (nextb s) (prevb s) (hash_table s (bhash s b)) None ys"
        "set ys = hashed s A (bhash s b)"
        using ok hashfn_less unfolding cache_at_def hash_ok_def bhash_def by blast
      have o: "hash_table s (bhash s b) \<noteq> Some b" "hash_table s (bhash s b) \<noteq> Some c"
        using ys b d by (cases ys; auto simp: hashed_def)+
      show ?thesis using queued_links [of ?f b c] fc False cb o bh by (simp add: inserted_def)
    qed
  qed
  have "unique_ok ?t (insert b A)"
    using ok new b unfolding unique_ok_def cache_at_def key by (auto simp: bkey_def)
  then show ?thesis using p(1) f hash idle unfolding cache_at_def by blast
qed


subsection \<open>Looking a block up\<close>

lemma find_chain_run:
  assumes "chain (nextb s) pv h p xs" "length xs \<le> n"
  shows "find_chain n s dev blk h = Some (find (\<lambda>b. bkey s b = (dev, blk)) xs)"
  using assms
proof (induction xs arbitrary: n h p)
  case (Cons x xs)
  then obtain m where "n = Suc m" by (cases n) auto
  then show ?case using Cons by (auto simp: bkey_def)
qed simp

lemma find_buffer_run:
  assumes "cache_ok s"
  shows "\<exists>r. find_buffer dev blk s es = Ret r s es \<and> (case r of
    None \<Rightarrow> dev = 0 \<or> (\<forall>c<NR_BUFFERS s. bkey s c \<noteq> (dev, blk))
  | Some b \<Rightarrow> b < NR_BUFFERS s \<and> bkey s b = (dev, blk) \<and> dev \<noteq> 0)"
proof -
  let ?A = "{0..<NR_BUFFERS s}"
  obtain xs where xs: "chain (nextb s) (prevb s) (hash_table s (hashfn dev blk)) None xs" "distinct xs"
    "set xs = hashed s ?A (hashfn dev blk)"
    using assms hashfn_less unfolding cache_ok_def cache_at_def hash_ok_def by blast
  have "set xs \<subseteq> ?A" unfolding xs(3) hashed_def by blast
  then have "card (set xs) \<le> card ?A" by (rule card_mono [rotated]) simp
  then have len: "length xs \<le> NR_BUFFERS s" using distinct_card [OF xs(2)] by simp
  let ?r = "find (\<lambda>b. bkey s b = (dev, blk)) xs"
  have "find_buffer dev blk s es = Ret ?r s es"
    using find_chain_run [OF xs(1) len] by (simp add: find_buffer_def krun)
  moreover have "case ?r of None \<Rightarrow> dev = 0 \<or> (\<forall>c<NR_BUFFERS s. bkey s c \<noteq> (dev, blk))
    | Some b \<Rightarrow> b < NR_BUFFERS s \<and> bkey s b = (dev, blk) \<and> dev \<noteq> 0"
  proof (cases ?r)
    case None
    then have "\<forall>c \<in> set xs. bkey s c \<noteq> (dev, blk)" by (auto simp: find_None_iff)
    then show ?thesis using None xs(3) by (auto simp: hashed_def bkey_def bhash_def)
  next
    case (Some b)
    then have "b \<in> set xs" "bkey s b = (dev, blk)" by (auto simp: find_Some_iff)
    then show ?thesis using Some xs(3) by (auto simp: hashed_def bkey_def)
  qed
  ultimately show ?thesis by blast
qed

subsection \<open>Giving a buffer to another block\<close>

lemma bufs_removed_others:
  "b_count (bufs (removed p n b s) c) = b_count (bufs s c)" "b_dirt (bufs (removed p n b s) c) = b_dirt (bufs s c)"
  "b_uptodate (bufs (removed p n b s) c) = b_uptodate (bufs s c)"
  "b_blocknr (bufs (removed p n b s) c) = b_blocknr (bufs s c)"
  "b_lock (bufs (removed p n b s) c) = b_lock (bufs s c)"
  by (simp_all add: removed_def)

lemma bufs_inserted_others:
  "b_count (bufs (inserted p b s) c) = b_count (bufs s c)" "b_dirt (bufs (inserted p b s) c) = b_dirt (bufs s c)"
  "b_uptodate (bufs (inserted p b s) c) = b_uptodate (bufs s c)" "b_lock (bufs (inserted p b s) c) = b_lock (bufs s c)" "bkey (inserted p b s) c = bkey s c"
  "NR_BUFFERS (inserted p b s) = NR_BUFFERS s"
proof -
  have f: "b_count (bufs (freed p b s) c) = b_count (bufs s c)" "b_dirt (bufs (freed p b s) c) = b_dirt (bufs s c)"
    "b_uptodate (bufs (freed p b s) c) = b_uptodate (bufs s c)" "b_lock (bufs (freed p b s) c) = b_lock (bufs s c)"
    by (simp_all add: freed_def bufs_upd_buf)
  have q: "b_count (bufs (queued b t) c) = b_count (bufs t c)" "b_dirt (bufs (queued b t) c) = b_dirt (bufs t c)"
    "b_uptodate (bufs (queued b t) c) = b_uptodate (bufs t c)" "b_lock (bufs (queued b t) c) = b_lock (bufs t c)" for t
    by (simp_all add: queued_def bufs_upd_buf Let_def split: option.split)
  show "b_count (bufs (inserted p b s) c) = b_count (bufs s c)" "b_dirt (bufs (inserted p b s) c) = b_dirt (bufs s c)"
    "b_uptodate (bufs (inserted p b s) c) = b_uptodate (bufs s c)" "b_lock (bufs (inserted p b s) c) = b_lock (bufs s c)" "bkey (inserted p b s) c = bkey s c"
    "NR_BUFFERS (inserted p b s) = NR_BUFFERS s"
    using f q by (simp_all add: inserted_def bkey_def)
qed

text \<open>What moving a buffer between the queues leaves alone: the contents of the buffers, and the rest of the kernel.\<close>

definition payload :: "buffer_head \<Rightarrow> u32 \<times> (nat \<Rightarrow> u8) \<times> u8 \<times> u8 \<times> u8 \<times> u8 \<times> tptr option" where
  "payload h = (b_addr h, b_data h, b_uptodate h, b_dirt h, b_count h, b_lock h, b_wait h)"

definition elsewhere :: "kernel \<Rightarrow> kernel \<Rightarrow> bool" where
  "elsewhere s' s \<longleftrightarrow> s' = s\<lparr>bufs := bufs s', hash_table := hash_table s', free_list := free_list s', phys := phys s'\<rparr>"

lemma elsewhere_refl: "elsewhere s s"
  by (simp add: elsewhere_def)

lemma elsewhere_trans:
  assumes "elsewhere s2 s1" "elsewhere s1 s"
  shows "elsewhere s2 s"
proof -
  obtain bf ht fl ph where s1: "s1 = s\<lparr>bufs := bf, hash_table := ht, free_list := fl, phys := ph\<rparr>"
    using assms(2) unfolding elsewhere_def by blast
  obtain bf' ht' fl' ph' where "s2 = s1\<lparr>bufs := bf', hash_table := ht', free_list := fl', phys := ph'\<rparr>"
    using assms(1) unfolding elsewhere_def by blast
  then show ?thesis by (simp add: s1 elsewhere_def)
qed

lemma elsewhere_moves:
  "elsewhere (upd_buf b f s) s" "elsewhere (removed p n b s) s" "elsewhere (queued b s) s"
  by (simp_all add: elsewhere_def removed_def queued_def Let_def upd_buf_def split: option.split)

lemma elsewhere_inserted: "elsewhere (inserted p b s) s"
proof -
  have "elsewhere (freed p b s) s"
    unfolding freed_def by (intro elsewhere_trans [OF elsewhere_moves(1)] elsewhere_moves(1))
  then show ?thesis by (auto simp: inserted_def intro: elsewhere_trans [OF elsewhere_moves(3)])
qed

lemma payload_moved [simp]:
  "payload (bufs (removed p n b s) c) = payload (bufs s c)" "payload (bufs (inserted p b s) c) = payload (bufs s c)"
proof -
  show "payload (bufs (removed p n b s) c) = payload (bufs s c)" by (simp add: removed_def payload_def)
  have "payload (bufs (freed p b s) c) = payload (bufs s c)" by (simp add: freed_def bufs_upd_buf payload_def)
  moreover have "payload (bufs (queued b t) c) = payload (bufs t c)" for t
    by (simp add: queued_def Let_def bufs_upd_buf payload_def split: option.split)
  ultimately show "payload (bufs (inserted p b s) c) = payload (bufs s c)" by (simp add: inserted_def)
qed

lemma take_run:
  assumes ok: "cache_ok s" and b: "b < NR_BUFFERS s"
    and new: "dev = 0 \<or> (\<forall>c<NR_BUFFERS s. bkey s c \<noteq> (dev, blk))"
  shows "\<exists>s'. take_buffer dev blk b s es = Ret () s' es \<and> cache_ok s' \<and> NR_BUFFERS s' = NR_BUFFERS s \<and>
    bkey s' b = (dev, blk) \<and> b_count (bufs s' b) = 1 \<and> b_dirt (bufs s' b) = 0 \<and> b_uptodate (bufs s' b) = 0 \<and>
    b_lock (bufs s' b) = b_lock (bufs s b) \<and> elsewhere s' s \<and>
    (\<forall>c. c \<noteq> b \<longrightarrow> payload (bufs s' c) = payload (bufs s c) \<and> bkey s' c = bkey s c)"
proof -
  let ?A = "{0..<NR_BUFFERS s}"
  define s1 where "s1 = upd_buf b (\<lambda>h. h\<lparr>b_count := 1, b_dirt := 0, b_uptodate := 0\<rparr>) s"
  have s1: "NR_BUFFERS s1 = NR_BUFFERS s" "\<And>c. bkey s1 c = bkey s c" "b_count (bufs s1 b) = 1"
    "b_dirt (bufs s1 b) = 0" "b_uptodate (bufs s1 b) = 0" "b_lock (bufs s1 b) = b_lock (bufs s b)"
    by (simp_all add: s1_def bufs_upd_buf bkey_def)
  have c1: "cache_at s1 ?A"
    by (rule cache_at_cong [of ?A s1 s]) (use ok in \<open>auto simp: s1_def bufs_upd_buf skeleton_def cache_ok_def\<close>)
  have ne: "?A \<noteq> {b}"
  proof
    assume "?A = {b}"
    then have "card ?A = 1" by simp
    then show False using ok by (simp add: cache_ok_def)
  qed
  have "b \<in> ?A" using b by simp
  from cache_removed [OF c1 this ne] obtain p n where
    rm: "prevf s1 b = Some p" "nextf s1 b = Some n" "cache_at (removed p n b s1) (?A - {b})" by blast
  define s2 where "s2 = upd_buf b (\<lambda>h. h\<lparr>b_dev := dev, b_blocknr := blk\<rparr>) (removed p n b s1)"
  have s2: "\<And>c. bkey s2 c = (if c = b then (dev, blk) else bkey s c)" "NR_BUFFERS s2 = NR_BUFFERS s"
    "b_count (bufs s2 b) = 1" "b_dirt (bufs s2 b) = 0" "b_uptodate (bufs s2 b) = 0" "b_dev (bufs s2 b) = dev"
    "b_lock (bufs s2 b) = b_lock (bufs s b)"
    using s1 by (auto simp: s2_def bufs_upd_buf bufs_removed_others bkey_def)
  have "cache_at s2 (?A - {b})"
    using rm(3) by (rule cache_at_cong [rotated 3]) (auto simp: s2_def bufs_upd_buf)
  moreover have "\<forall>c \<in> ?A - {b}. bkey s2 c = bkey s2 b \<longrightarrow> b_dev (bufs s2 b) = 0"
    using new s2 by auto
  ultimately obtain q where q: "prevf s2 (free_list s2) = Some q" "cache_at (inserted q b s2) (insert b (?A - {b}))"
    using cache_inserted [of s2 "?A - {b}" b] by auto
  have "take_buffer dev blk b s es = Ret () (inserted q b s2) es"
    using remove_run [OF rm(1,2)] insert_run [OF q(1)]
    by (simp add: take_buffer_def krun s1_def [symmetric] s2_def [symmetric])
  moreover have "insert b (?A - {b}) = ?A" using b by auto
  moreover have "elsewhere (inserted q b s2) s"
    unfolding s2_def s1_def by (intro elsewhere_trans [OF elsewhere_inserted] elsewhere_trans [OF elsewhere_moves(1)]
      elsewhere_trans [OF elsewhere_moves(2)] elsewhere_moves(1))
  moreover have "payload (bufs s2 c) = payload (bufs s c)" if "c \<noteq> b" for c
    using that by (simp add: s2_def bufs_upd_buf) (simp add: s1_def bufs_upd_buf)
  ultimately show ?thesis
    using q(2) s2 ok by (auto simp: bufs_inserted_others cache_ok_def)
qed

end
