(* ===== verification/Keep.thy ===== *)
theory Keep
  imports Kmonad
begin

text \<open>
  Invariants of kernel computations.  \<open>keeps E I m\<close>: whatever the rest of the system does, as
  long as its steps are in \<open>E\<close>, the computation \<open>m\<close> started where \<open>I\<close> holds returns only where
  \<open>I\<close> holds.  The rules follow the shape of the code, so that a proof about a function is one
  application of the collection \<open>keepr\<close>.
\<close>

named_theorems keepr "rules that show that a computation keeps an invariant"

definition keeps :: "('s \<Rightarrow> 's) set \<Rightarrow> ('s \<Rightarrow> bool) \<Rightarrow> ('s, 'a) kprog \<Rightarrow> bool" where
  "keeps E I m \<longleftrightarrow> (\<forall>s. I s \<longrightarrow> wpg any_stop E m (\<lambda>_. I) s)"

lemma keepsD: "keeps E I m \<Longrightarrow> I s \<Longrightarrow> wpg any_stop E m (\<lambda>_. I) s"
  by (simp add: keeps_def)

lemma keepsI: "(\<And>s. I s \<Longrightarrow> wpg any_stop E m (\<lambda>_. I) s) \<Longrightarrow> keeps E I m"
  by (simp add: keeps_def)

lemma keeps_ret [keepr]: "keeps E I (ret x)"
  by (intro keepsI wpr)

lemma keeps_gets [keepr]: "keeps E I (gets f)"
  by (intro keepsI wpr)

lemma keeps_stop [keepr]: "keeps E I (stop r)"
  by (intro keepsI wpr) simp

lemma keeps_modify: "(\<And>s. I s \<Longrightarrow> I (f s)) \<Longrightarrow> keeps E I (modify f)"
  by (intro keepsI wpr)

lemma keeps_bnd [keepr]: "keeps E I m \<Longrightarrow> (\<And>a. keeps E I (f a)) \<Longrightarrow> keeps E I (bnd m f)"
  by (rule keepsI, rule wpg_bnd, rule wpg_post, erule (1) keepsD) (rule keepsD)

lemma keeps_seq [keepr]: "keeps E I m \<Longrightarrow> keeps E I n \<Longrightarrow> keeps E I (seq m n)"
  unfolding seq_def by (rule keeps_bnd)

lemma keeps_block [keepr]:
  "keeps E I (block [])" "keeps E I m \<Longrightarrow> keeps E I (block ms) \<Longrightarrow> keeps E I (block (m # ms))"
  by (simp_all add: keeps_ret keeps_seq)

lemma keeps_if [keepr]:
  "(c \<Longrightarrow> keeps E I m) \<Longrightarrow> (\<not> c \<Longrightarrow> keeps E I n) \<Longrightarrow> keeps E I (if c then m else n)"
  by simp

lemma keeps_guardK [keepr]: "(c \<Longrightarrow> keeps E I m) \<Longrightarrow> keeps E I (guardK c m)"
  by (simp add: guardK_def keeps_ret)

lemma keeps_case_option [keepr]:
  "(x = None \<Longrightarrow> keeps E I m) \<Longrightarrow> (\<And>y. x = Some y \<Longrightarrow> keeps E I (n y)) \<Longrightarrow>
   keeps E I (case x of None \<Rightarrow> m | Some y \<Rightarrow> n y)"
  by (cases x) simp_all

lemma keeps_case_prod [keepr]: "(\<And>x y. keeps E I (f x y)) \<Longrightarrow> keeps E I (case p of (x, y) \<Rightarrow> f x y)"
  by (cases p) simp

lemma keeps_let [keepr]: "(\<And>y. y = x \<Longrightarrow> keeps E I (f y)) \<Longrightarrow> keeps E I (Let x f)"
  by simp

lemma keeps_for_each [keepr]: "(\<And>i. i \<in> set ixs \<Longrightarrow> keeps E I (f i)) \<Longrightarrow> keeps E I (for_each ixs f)"
  by (induction ixs) (auto intro!: keepr)

lemma keeps_with_fuel [keepr]: "(\<And>n. keeps E I (f n)) \<Longrightarrow> keeps E I (with_fuel f)"
  unfolding keeps_def by (auto intro!: wpg_with_fuel)

lemma keeps_repeat_fuel [keepr]: "keeps E I m \<Longrightarrow> keeps E I (repeat_fuel n m)"
  by (induction n) (auto intro!: keepr)

lemma keeps_retry [keepr]: "keeps E I m \<Longrightarrow> keeps E I (retry m)"
  unfolding retry_def by (intro keepr)

lemma keeps_retry_twice [keepr]: "keeps E I m \<Longrightarrow> keeps E I (retry_twice m)"
  unfolding retry_twice_def by (intro keepr)

lemma keeps_while_fuel [keepr]: "keeps E I m \<Longrightarrow> keeps E I (while_fuel n c m)"
proof (induction n)
  case 0
  then show ?case by (simp add: keeps_def wpg_def)
next
  case (Suc n)
  then show ?case by (auto intro!: keepr)
qed

lemma keeps_sleep_while [keepr]: "keeps E I m \<Longrightarrow> keeps E I (sleep_while c m)"
  unfolding sleep_while_def by (intro keepr)

lemma keeps_pass: "(\<And>e s. e \<in> E \<Longrightarrow> I s \<Longrightarrow> I (e s)) \<Longrightarrow> keeps E I pass"
  by (intro keepsI wpr) simp_all

text \<open>A computation that keeps \<open>I\<close>, followed by one whose rule is known.\<close>

lemma wpg_keeps_bnd:
  "keeps E I m \<Longrightarrow> I s \<Longrightarrow> (\<And>a s'. I s' \<Longrightarrow> wpg any_stop E (f a) Q s') \<Longrightarrow> wpg any_stop E (bnd m f) Q s"
  by (rule wpg_bnd, rule wpg_post, rule keepsD)

lemma wpg_keeps_seq:
  "keeps E I m \<Longrightarrow> I s \<Longrightarrow> (\<And>s'. I s' \<Longrightarrow> wpg any_stop E n Q s') \<Longrightarrow> wpg any_stop E (seq m n) Q s"
  unfolding seq_def by (rule wpg_keeps_bnd)

lemma wpg_repeat_keeps:
  assumes "\<And>s. I s \<Longrightarrow> wpg any_stop E m (\<lambda>r s'. I s' \<and> (\<forall>x. r = Some x \<longrightarrow> Q x s')) s" "I s"
  shows "wpg any_stop E (repeat_fuel n m) (\<lambda>x s'. I s' \<and> Q x s') s"
  using assms(2)
proof (induction n arbitrary: s)
  case 0
  then show ?case by (simp add: wpg_stop)
next
  case (Suc n)
  have "wpg any_stop E m (\<lambda>r s'. wpg any_stop E (case r of None \<Rightarrow> repeat_fuel n m | Some x \<Rightarrow> ret x)
      (\<lambda>x s'. I s' \<and> Q x s') s') s"
    using assms(1) [OF Suc.prems] by (rule wpg_post) (auto intro!: wpr Suc.IH)
  then show ?case unfolding repeat_fuel.simps by (rule wpg_bnd)
qed

end
