(* ===== verification/Cacheframe.thy ===== *)
theory Cacheframe
  imports Bufcache Keep
begin

text \<open>
  The interface between the buffer cache and everything below it: the scheduler, the request
  queue and the drivers change the lock, the data and the flags of buffers, but never the
  skeleton of the cache (the queues and the block that a buffer stands for).  The locale states
  it for any invariant of the skeleton; the lemmas inside say it of each function, and the
  interpretation is at \<open>cache_ok\<close>.
\<close>

definition cache_skeleton :: "kernel \<Rightarrow>
    (bptr \<Rightarrow> u16 \<times> u32 \<times> bptr option \<times> bptr option \<times> bptr option \<times> bptr option) \<times>
    (nat \<Rightarrow> bptr option) \<times> bptr \<times> nat" where
  "cache_skeleton s = (\<lambda>b. skeleton (bufs s b), hash_table s, free_list s, NR_BUFFERS s)"

subsection \<open>State changes that leave the skeleton alone\<close>

lemma skeleton_upd_buf [simp]:
  "(\<And>h. skeleton (f h) = skeleton h) \<Longrightarrow> cache_skeleton (upd_buf b f s) = cache_skeleton s"
  by (auto simp: cache_skeleton_def upd_buf_def fun_eq_iff)

lemma skeleton_fields [simp]:
  "skeleton (h\<lparr>b_data := d\<rparr>) = skeleton h" "skeleton (h\<lparr>b_lock := l\<rparr>) = skeleton h"
  "skeleton (h\<lparr>b_uptodate := l\<rparr>) = skeleton h" "skeleton (h\<lparr>b_dirt := l\<rparr>) = skeleton h"
  "skeleton (h\<lparr>b_count := l\<rparr>) = skeleton h" "skeleton (h\<lparr>b_wait := w\<rparr>) = skeleton h"
  by (simp_all add: skeleton_def)

lemma skeleton_upds [simp]:
  "cache_skeleton (upd_task p tf s) = cache_skeleton s" "cache_skeleton (upd_inode i jf s) = cache_skeleton s"
  "cache_skeleton (upd_super i sf s) = cache_skeleton s" "cache_skeleton (upd_req r rf s) = cache_skeleton s"
  "cache_skeleton (upd_timer n mf s) = cache_skeleton s" "cache_skeleton (upd_tty n yf s) = cache_skeleton s"
  "cache_skeleton (upd_file n ff s) = cache_skeleton s"
  by (simp_all add: upd_defs upd_tty_def cache_skeleton_def)

text \<open>Every variable of the kernel outside the cache.\<close>

lemma skeleton_kernel [simp]:
  "cache_skeleton (s\<lparr>mem_map := x0\<rparr>) = cache_skeleton s" "cache_skeleton (s\<lparr>HIGH_MEMORY := x1\<rparr>) = cache_skeleton s"
  "cache_skeleton (s\<lparr>phys := x2\<rparr>) = cache_skeleton s" "cache_skeleton (s\<lparr>umem := x3\<rparr>) = cache_skeleton s"
  "cache_skeleton (s\<lparr>task := x4\<rparr>) = cache_skeleton s" "cache_skeleton (s\<lparr>tsk := x5\<rparr>) = cache_skeleton s"
  "cache_skeleton (s\<lparr>current := x6\<rparr>) = cache_skeleton s" "cache_skeleton (s\<lparr>init_task := x7\<rparr>) = cache_skeleton s"
  "cache_skeleton (s\<lparr>jiffies := x8\<rparr>) = cache_skeleton s" "cache_skeleton (s\<lparr>startup_time := x9\<rparr>) = cache_skeleton s"
  "cache_skeleton (s\<lparr>last_task_used_math := x10\<rparr>) = cache_skeleton s" "cache_skeleton (s\<lparr>last_pid := x11\<rparr>) = cache_skeleton s"
  "cache_skeleton (s\<lparr>wait_motor := x12\<rparr>) = cache_skeleton s" "cache_skeleton (s\<lparr>mon_timer := x13\<rparr>) = cache_skeleton s"
  "cache_skeleton (s\<lparr>moff_timer := x14\<rparr>) = cache_skeleton s" "cache_skeleton (s\<lparr>current_DOR := x15\<rparr>) = cache_skeleton s"
  "cache_skeleton (s\<lparr>timer_list := x16\<rparr>) = cache_skeleton s" "cache_skeleton (s\<lparr>next_timer := x17\<rparr>) = cache_skeleton s"
  "cache_skeleton (s\<lparr>beepcount := x18\<rparr>) = cache_skeleton s" "cache_skeleton (s\<lparr>start_buffer := x19\<rparr>) = cache_skeleton s"
  "cache_skeleton (s\<lparr>buffer_wait := x20\<rparr>) = cache_skeleton s" "cache_skeleton (s\<lparr>inode_table := x21\<rparr>) = cache_skeleton s"
  "cache_skeleton (s\<lparr>last_inode := x22\<rparr>) = cache_skeleton s" "cache_skeleton (s\<lparr>file_table := x23\<rparr>) = cache_skeleton s"
  "cache_skeleton (s\<lparr>super_blocks := x24\<rparr>) = cache_skeleton s" "cache_skeleton (s\<lparr>ROOT_DEV := x25\<rparr>) = cache_skeleton s"
  "cache_skeleton (s\<lparr>requests := x26\<rparr>) = cache_skeleton s" "cache_skeleton (s\<lparr>wait_for_request := x27\<rparr>) = cache_skeleton s"
  "cache_skeleton (s\<lparr>blk_dev := x28\<rparr>) = cache_skeleton s" "cache_skeleton (s\<lparr>rd_start := x29\<rparr>) = cache_skeleton s"
  "cache_skeleton (s\<lparr>rd_mem := x30\<rparr>) = cache_skeleton s" "cache_skeleton (s\<lparr>rd_length := x31\<rparr>) = cache_skeleton s"
  "cache_skeleton (s\<lparr>hd_recalibrate := x32\<rparr>) = cache_skeleton s" "cache_skeleton (s\<lparr>hd_reset := x33\<rparr>) = cache_skeleton s"
  "cache_skeleton (s\<lparr>hd_info := x34\<rparr>) = cache_skeleton s" "cache_skeleton (s\<lparr>NR_HD := x35\<rparr>) = cache_skeleton s"
  "cache_skeleton (s\<lparr>hd := x36\<rparr>) = cache_skeleton s" "cache_skeleton (s\<lparr>do_hd := x37\<rparr>) = cache_skeleton s"
  "cache_skeleton (s\<lparr>setup_callable := x38\<rparr>) = cache_skeleton s" "cache_skeleton (s\<lparr>fd_recalibrate := x39\<rparr>) = cache_skeleton s"
  "cache_skeleton (s\<lparr>fd_reset := x40\<rparr>) = cache_skeleton s" "cache_skeleton (s\<lparr>fd_seek := x41\<rparr>) = cache_skeleton s"
  "cache_skeleton (s\<lparr>reply_buffer := x42\<rparr>) = cache_skeleton s" "cache_skeleton (s\<lparr>cur_spec1 := x43\<rparr>) = cache_skeleton s"
  "cache_skeleton (s\<lparr>cur_rate := x44\<rparr>) = cache_skeleton s" "cache_skeleton (s\<lparr>fd_type := x45\<rparr>) = cache_skeleton s"
  "cache_skeleton (s\<lparr>tmp_floppy_area := x46\<rparr>) = cache_skeleton s" "cache_skeleton (s\<lparr>current_drive := x47\<rparr>) = cache_skeleton s"
  "cache_skeleton (s\<lparr>fd_sector := x48\<rparr>) = cache_skeleton s" "cache_skeleton (s\<lparr>fd_head := x49\<rparr>) = cache_skeleton s"
  "cache_skeleton (s\<lparr>fd_track := x50\<rparr>) = cache_skeleton s" "cache_skeleton (s\<lparr>seek_track := x51\<rparr>) = cache_skeleton s"
  "cache_skeleton (s\<lparr>current_track := x52\<rparr>) = cache_skeleton s" "cache_skeleton (s\<lparr>fd_command := x53\<rparr>) = cache_skeleton s"
  "cache_skeleton (s\<lparr>selected := x54\<rparr>) = cache_skeleton s" "cache_skeleton (s\<lparr>wait_on_floppy_select := x55\<rparr>) = cache_skeleton s"
  "cache_skeleton (s\<lparr>do_floppy := x56\<rparr>) = cache_skeleton s" "cache_skeleton (s\<lparr>tty_table := x57\<rparr>) = cache_skeleton s"
  "cache_skeleton (s\<lparr>hw_inb := x58\<rparr>) = cache_skeleton s" "cache_skeleton (s\<lparr>io_reads := x59\<rparr>) = cache_skeleton s"
  "cache_skeleton (s\<lparr>io_log := x60\<rparr>) = cache_skeleton s"
  "cache_skeleton (s\<lparr>tty_cr_flag := x98\<rparr>) = cache_skeleton s" "cache_skeleton (s\<lparr>con := x99\<rparr>) = cache_skeleton s"
  by (simp_all add: cache_skeleton_def)

lemma skeleton_set_state [simp]: "cache_skeleton (set_state st p s) = cache_skeleton s"
  by (simp add: set_state_def)

lemma skeleton_set_q [simp]: "cache_skeleton (set_q q w s) = cache_skeleton s"
  by (cases q) simp_all

lemma skeleton_wake_up [simp]: "cache_skeleton (wake_up_q q s) = cache_skeleton s"
  by (simp add: wake_up_q_def split: option.split)

lemma skeleton_each_task [simp]: "cache_skeleton (each_task f s) = cache_skeleton s"
proof -
  have "cache_skeleton (fold (\<lambda>i s. case task s i of None \<Rightarrow> s | Some p \<Rightarrow> upd_task p f s) xs s) = cache_skeleton s" for xs
    by (induction xs arbitrary: s) (simp_all split: option.split)
  then show ?thesis by (simp add: each_task_def)
qed

lemma skeleton_sift_timer [simp]: "cache_skeleton (sift_timer n p s) = cache_skeleton s"
  by (induction n p s rule: sift_timer.induct) (auto simp: Let_def split: option.split)

subsection \<open>The interface\<close>

locale cache_frame =
  fixes E :: "(kernel \<Rightarrow> kernel) set" and I :: "kernel \<Rightarrow> bool"
  assumes env: "e \<in> E \<Longrightarrow> I s \<Longrightarrow> I (e s)"
    and frame: "cache_skeleton s' = cache_skeleton s \<Longrightarrow> I s \<Longrightarrow> I s'"
begin

lemma modify [keepr]: "(\<And>s. cache_skeleton (f s) = cache_skeleton s) \<Longrightarrow> keeps E I (modify f)"
  by (rule keeps_modify) (rule frame)

lemma pass [keepr]: "keeps E I pass"
  by (rule keeps_pass) (rule env)

lemma inb [keepr]: "keeps E I (inb p)"
proof (rule keepsI)
  fix s assume "I s"
  moreover have "cache_skeleton (s\<lparr>io_reads := Suc (io_reads s)\<rparr>) = cache_skeleton s" by simp
  ultimately show "wpg any_stop E (inb p) (\<lambda>_. I) s" using frame by (auto simp: wpg_def inb_def)
qed

lemma outb [keepr]: "keeps E I (outb v p)"
  unfolding outb_def by (intro keepr) simp

text \<open>The scheduler.\<close>

lemma choose_task [keepr]: "keeps E I (choose_task n)"
  by (induction n) (auto intro!: keepr)

lemma switch_to [keepr]: "keeps E I (switch_to n)"
  unfolding switch_to_def by (intro keepr) simp_all

lemma schedule [keepr]: "keeps E I schedule"
  unfolding schedule_def by (intro keepr) simp

lemma sleep_on [keepr]: "keeps E I (sleep_on q)"
  unfolding sleep_on_def by (intro keepr) simp_all

lemma interruptible_sleep_on [keepr]: "keeps E I (interruptible_sleep_on q)"
  unfolding interruptible_sleep_on_def by (intro keepr) simp_all

lemma wake_up [keepr]: "keeps E I (wake_up q)"
  unfolding wake_up_def by (intro keepr) simp

text \<open>The drivers.\<close>

lemma drivers_shared [keepr]:
  "(\<And>r. keeps E I (f r)) \<Longrightarrow> keeps E I (with_current major f)"
  "keeps E I (blk_unlock_buffer b)" "keeps E I (INIT_REQUEST major)" "keeps E I (no_motor dev)"
  "keeps E I (buffer_bytes p n)" "keeps E I (buffer_store p xs)" "keeps E I (out_bytes port xs)"
  unfolding with_current_def blk_unlock_buffer_def INIT_REQUEST_def no_motor_def buffer_bytes_def
    buffer_store_def out_bytes_def
  by (intro keepr; simp)+

lemma end_request [keepr]: "(\<And>d. keeps E I (off d)) \<Longrightarrow> keeps E I (end_request major off u)"
  unfolding end_request_def by (intro keepr) simp_all

lemma poll [keepr]: "keeps E I (poll n p ok v)"
  by (induction n arbitrary: v) (auto intro!: keepr)

lemma in_bytes [keepr]: "keeps E I (in_bytes p n)"
  by (induction n) (auto intro!: keepr)

lemma do_rd_request [keepr]: "keeps E I do_rd_request"
  unfolding do_rd_request_def rd_round_def by (intro keepr) simp_all

lemma ready_loop [keepr]: "keeps E I (ready_loop n)"
  by (induction n) (auto intro!: keepr)

lemma hd_out [keepr]: "keeps E I (hd_out drive nsect sect head cyl cmd f)"
  unfolding hd_out_def controller_ready_def by (intro keepr) simp

lemma reset_hd [keepr]: "keeps E I (reset_hd nr)"
  unfolding reset_hd_def reset_controller_def drive_busy_def by (intro keepr)

lemma bad_rw_intr [keepr]: "keeps E I bad_rw_intr"
  unfolding bad_rw_intr_def by (intro keepr) simp_all

lemma do_hd_request [keepr]: "keeps E I do_hd_request"
  unfolding do_hd_request_def hd_round_def port_write_current_def
  by (intro keepr) simp_all

lemma floppy_motor [keepr]:
  "keeps E I (floppy_off n)" "keeps E I (fd_motor_off d)" "keeps E I (ticks_to_floppy_on n)"
  unfolding fd_motor_off_def floppy_off_def ticks_to_floppy_on_def
  by (intro keepr; simp)+

lemma output_byte [keepr]: "keeps E I (output_byte v)"
  unfolding output_byte_def by (intro keepr) simp

lemma out_var [keepr]: "keeps E I (out_var f)"
  unfolding out_var_def by (intro keepr)

lemma with_floppy [keepr]: "(\<And>f. keeps E I (g f)) \<Longrightarrow> keeps E I (with_floppy g)"
  unfolding with_floppy_def by (intro keepr)

lemma setup_rw_floppy [keepr]: "keeps E I again \<Longrightarrow> keeps E I (setup_rw_floppy again)"
  unfolding setup_rw_floppy_def setup_DMA_def by (intro keepr) simp_all

lemma transfer [keepr]: "keeps E I again \<Longrightarrow> keeps E I (transfer again)"
  unfolding transfer_def by (intro keepr) simp_all

lemma add_timer [keepr]: "(\<And>f. keeps E I (run f)) \<Longrightarrow> keeps E I (add_timer run j fn)"
  unfolding add_timer_def by (intro keepr) simp_all

lemma run_timer [keepr]: "keeps E I again \<Longrightarrow> keeps E I (run_timer again f)"
  unfolding run_timer_def floppy_on_interrupt_def
  by (cases f; simp; intro keepr) simp_all

lemma fd_round [keepr]: "keeps E I again \<Longrightarrow> keeps E I (fd_round again)"
  unfolding fd_round_def by (intro keepr) simp_all

lemma do_fd_request [keepr]: "keeps E I do_fd_request"
  unfolding do_fd_request_def fd_request_body_def recalibrate_floppy_def reset_floppy_def
  by (intro keepr) simp_all

lemma run_request [keepr]: "keeps E I (run_request f)"
  unfolding run_request_def by (cases f) (simp_all add: do_rd_request do_fd_request do_hd_request)

lemma add_request [keepr]: "keeps E I (add_request major r)"
  unfolding add_request_def by (intro keepr) simp_all

lemma make_request [keepr]: "keeps E I (make_request major rw b)"
  unfolding make_request_def lock_buffer_def unlock_buffer_def
  by (intro keepr) (simp_all add: fill_request_def)

lemma ll_rw_block [keepr]: "keeps E I (ll_rw_block rw b)"
  unfolding ll_rw_block_def by (intro keepr)

text \<open>The cache itself, apart from what changes its queues.\<close>

lemma wait_on [keepr]:
  "keeps E I (wait_on_buffer b)" "keeps E I (wait_on_inode i)" "keeps E I (wait_on_super k)"
  "keeps E I (lock_inode i)" "keeps E I (unlock_inode i)"
  unfolding wait_on_buffer_def wait_on_inode_def wait_on_super_def lock_inode_def unlock_inode_def
  by (intro keepr; simp)+

lemma get_super [keepr]: "keeps E I (get_super dev)"
  unfolding get_super_def by (intro keepr)

lemma find_buffer [keepr]: "keeps E I (find_buffer dev blk)"
  unfolding find_buffer_def by (intro keepr)

lemma get_hash_table [keepr]: "keeps E I (get_hash_table dev blk)"
  unfolding get_hash_table_def by (intro keepr) simp_all

lemma brelse [keepr]: "keeps E I (brelse bh)"
  unfolding brelse_def by (intro keepr) simp_all

lemma bread_with [keepr]: "(\<And>d n. keeps E I (gb d n)) \<Longrightarrow> keeps E I (bread_with gb dev blk)"
  unfolding bread_with_def by (intro keepr)

lemma write_inode_with [keepr]: "(\<And>d n. keeps E I (gb d n)) \<Longrightarrow> keeps E I (write_inode_with gb i)"
  unfolding write_inode_with_def by (intro keepr) simp_all

lemma sync_inodes_with [keepr]: "(\<And>d n. keeps E I (gb d n)) \<Longrightarrow> keeps E I (sync_inodes_with gb)"
  unfolding sync_inodes_with_def by (intro keepr)

lemma sync_dev_with [keepr]: "(\<And>d n. keeps E I (gb d n)) \<Longrightarrow> keeps E I (sync_dev_with gb dev)"
  unfolding sync_dev_with_def each_buffer_def sync_buffer_def by (intro keepr)

lemma clean_buffer [keepr]: "(\<And>d n. keeps E I (gb d n)) \<Longrightarrow> keeps E I (clean_buffer gb b)"
  unfolding clean_buffer_def by (intro keepr)

lemma pick_buffer [keepr]: "keeps E I pick_buffer"
  unfolding pick_buffer_def by (intro keepr)

end


subsection \<open>The interpretation\<close>

text \<open>
  The other tasks and the interrupts: whatever they do, they keep the cache in order and have
  no more and no fewer buffers.
\<close>

definition cache_of :: "nat \<Rightarrow> kernel \<Rightarrow> bool" where
  "cache_of n s \<longleftrightarrow> cache_ok s \<and> NR_BUFFERS s = n"

definition orderly_env :: "nat \<Rightarrow> (kernel \<Rightarrow> kernel) set" where
  "orderly_env n = {e. \<forall>s. cache_of n s \<longrightarrow> cache_of n (e s)}"

lemma cache_of_frame: "cache_skeleton s' = cache_skeleton s \<Longrightarrow> cache_of n s \<Longrightarrow> cache_of n s'"
  unfolding cache_ok_def cache_skeleton_def cache_of_def
  by (auto simp: fun_eq_iff intro: cache_at_cong)

interpretation bc: cache_frame "orderly_env n" "cache_of n" for n
  by unfold_locales (auto simp: orderly_env_def intro: cache_of_frame)

lemmas bc_keep = bc.wait_on bc.clean_buffer bc.sleep_on bc.get_hash_table

subsection \<open>The replacement choice\<close>

definition least_bad :: "kernel \<Rightarrow> bptr set \<Rightarrow> bptr option \<Rightarrow> bool" where
  "least_bad s A r \<longleftrightarrow> (case r of
     None \<Rightarrow> \<forall>c \<in> A. b_count (bufs s c) \<noteq> 0
   | Some b \<Rightarrow> b \<in> A \<and> b_count (bufs s b) = 0 \<and>
       (\<forall>c \<in> A. b_count (bufs s c) = 0 \<longrightarrow> BADNESS (bufs s b) \<le> BADNESS (bufs s c)))"

lemma scan_free_best:
  assumes "links (nextf s) pv (t # vs @ [free_list s])" "free_list s \<notin> set vs" "length vs < n"
    and "least_bad s A best"
  shows "\<exists>r. scan_free n s t best = Some r \<and> least_bad s (A \<union> set (t # vs)) r"
  using assms
proof (induction n arbitrary: t vs best A)
  case (Suc n)
  let ?h = "bufs s t"
  let ?better = "case best of None \<Rightarrow> True | Some b \<Rightarrow> BADNESS ?h < BADNESS (bufs s b)"
  define best' where "best' = (if b_count ?h = 0 \<and> ?better then Some t else best)"
  have b': "least_bad s (insert t A) best'"
    using Suc.prems(4) unfolding best'_def least_bad_def by (auto split: option.splits)
  show ?case
  proof (cases "b_count ?h = 0 \<and> ?better \<and> BADNESS ?h = 0")
    case True
    then have "scan_free (Suc n) s t best = Some (Some t)" by (simp add: Let_def)
    moreover have "least_bad s (A \<union> set (t # vs)) (Some t)" using True by (simp add: least_bad_def)
    ultimately show ?thesis by blast
  next
    case False
    then have eq: "scan_free (Suc n) s t best = (case nextf s t of None \<Rightarrow> None
        | Some nx \<Rightarrow> if nx = free_list s then Some best' else scan_free n s nx best')"
      unfolding best'_def scan_free.simps Let_def by auto
    show ?thesis
    proof (cases vs)
      case Nil
      then show ?thesis using Suc.prems(1) eq b' by auto
    next
      case (Cons v ws)
      then have "nextf s t = Some v" "v \<noteq> free_list s" using Suc.prems(1,2) by auto
      moreover have "\<exists>r. scan_free n s v best' = Some r \<and> least_bad s (insert t A \<union> set (v # ws)) r"
        using Suc.prems(1-3) Cons b' by (intro Suc.IH) auto
      moreover have "insert t A \<union> set (v # ws) = A \<union> set (t # vs)" using Cons by auto
      ultimately show ?thesis using eq by simp
    qed
  qed
qed simp

lemma pick_buffer_run:
  assumes "cache_ok s"
  shows "\<exists>r. pick_buffer s es = Ret r s es \<and> least_bad s {0..<NR_BUFFERS s} r"
proof -
  obtain fl where fl: "ring (nextf s) (prevf s) fl" "distinct fl" "set fl = {0..<NR_BUFFERS s}"
    "List.hd fl = free_list s"
    using assms unfolding cache_ok_def cache_at_def free_ok_def by blast
  obtain vs where vs: "fl = free_list s # vs" using fl(1,4) by (cases fl) (auto simp: ring_def)
  have "length fl = NR_BUFFERS s" using fl(2,3) distinct_card by fastforce
  then have "\<exists>r. scan_free (NR_BUFFERS s) s (free_list s) None = Some r \<and>
      least_bad s ({} \<union> set (free_list s # vs)) r"
    using fl(1,2) vs by (intro scan_free_best [where pv = "prevf s"]) (auto simp: ring_def least_bad_def)
  then show ?thesis using fl(3) vs by (auto simp: pick_buffer_def krun)
qed


subsection \<open>getblk under every interleaving\<close>

lemma find_buffer_wp:
  assumes "cache_of n s" and "\<And>r. (case r of
    None \<Rightarrow> dev = 0 \<or> (\<forall>c<n. bkey s c \<noteq> (dev, blk)) | Some b \<Rightarrow> b < n \<and> bkey s b = (dev, blk)) \<Longrightarrow> Q r s"
  shows "wpg F E (find_buffer dev blk) Q s"
  unfolding wpg_def
proof (intro allI impI)
  fix es assume "set es \<subseteq> E"
  moreover obtain r where "find_buffer dev blk s es = Ret r s es" "case r of
      None \<Rightarrow> dev = 0 \<or> (\<forall>c<n. bkey s c \<noteq> (dev, blk)) | Some b \<Rightarrow> b < n \<and> bkey s b = (dev, blk)"
    using find_buffer_run [of s dev blk es] assms(1) by (auto simp: cache_of_def split: option.splits)
  ultimately show "case find_buffer dev blk s es of Ret a s' es' \<Rightarrow> Q a s' \<and> set es' \<subseteq> E | Stop r s' \<Rightarrow> F r"
    using assms(2) by simp
qed

lemma pick_buffer_wp:
  assumes "cache_of n t"
  shows "wpg F E pick_buffer (\<lambda>p s'. s' = t \<and> least_bad t {0..<n} p) t"
  unfolding wpg_def
proof (intro allI impI)
  fix es assume "set es \<subseteq> E"
  moreover obtain r where "pick_buffer t es = Ret r t es" "least_bad t {0..<n} r"
    using pick_buffer_run [of t es] assms by (auto simp: cache_of_def)
  ultimately show "case pick_buffer t es of
      Ret a s' es' \<Rightarrow> (s' = t \<and> least_bad t {0..<n} a) \<and> set es' \<subseteq> E | Stop r s' \<Rightarrow> F r"
    by simp
qed

definition holds :: "nat \<Rightarrow> u16 \<Rightarrow> u32 \<Rightarrow> bptr \<Rightarrow> kernel \<Rightarrow> bool" where
  "holds n dev blk b s \<longleftrightarrow> b < n \<and> bkey s b = (dev, blk)"

lemma get_hash_table_wp:
  assumes "cache_of n s"
  shows "wpg any_stop (orderly_env n) (get_hash_table dev blk)
    (\<lambda>r s'. cache_of n s' \<and> (\<forall>b. r = Some b \<longrightarrow> holds n dev blk b s')) s"
  unfolding get_hash_table_def retry_def
proof (rule wpg_with_fuel, rule wpg_repeat_keeps [where I = "cache_of n", OF _ assms])
  fix s assume ok: "cache_of n s"
  let ?body = "bnd (find_buffer dev blk) (\<lambda>r. case r of
     None \<Rightarrow> ret (Some None)
   | Some b \<Rightarrow> seq (block
       [modify (upd_buf b (\<lambda>h. h\<lparr>b_count := b_count h + 1\<rparr>)), wait_on_buffer b])
       (bnd (gets (\<lambda>s. bufs s b)) (\<lambda>h.
         if b_dev h = dev \<and> b_blocknr h = blk then ret (Some (Some b))
         else seq (modify (upd_buf b (\<lambda>h. h\<lparr>b_count := b_count h - 1\<rparr>))) (ret None))))"
  show "wpg any_stop (orderly_env n) ?body (\<lambda>r s'. cache_of n s' \<and>
      (\<forall>x. r = Some x \<longrightarrow> (\<forall>b. x = Some b \<longrightarrow> holds n dev blk b s'))) s"
  proof (rule wpg_bnd, rule find_buffer_wp [OF ok])
    fix r assume r: "case r of None \<Rightarrow> dev = 0 \<or> (\<forall>c<n. bkey s c \<noteq> (dev, blk))
      | Some b \<Rightarrow> b < n \<and> bkey s b = (dev, blk)"
    have upd: "cache_of n (upd_buf b (\<lambda>h. h\<lparr>b_count := f h\<rparr>) t)" if "cache_of n t" for b f t
      using that by (rule cache_of_frame [rotated]) simp
    show "wpg any_stop (orderly_env n) (case r of
     None \<Rightarrow> ret (Some None)
   | Some b \<Rightarrow> seq (block
       [modify (upd_buf b (\<lambda>h. h\<lparr>b_count := b_count h + 1\<rparr>)), wait_on_buffer b])
       (bnd (gets (\<lambda>s. bufs s b)) (\<lambda>h.
         if b_dev h = dev \<and> b_blocknr h = blk then ret (Some (Some b))
         else seq (modify (upd_buf b (\<lambda>h. h\<lparr>b_count := b_count h - 1\<rparr>))) (ret None))))
      (\<lambda>r s'. cache_of n s' \<and> (\<forall>x. r = Some x \<longrightarrow> (\<forall>b. x = Some b \<longrightarrow> holds n dev blk b s'))) s"
    proof (cases r)
      case None
      then show ?thesis using ok by (auto intro: wpr)
    next
      case (Some b)
      have "keeps (orderly_env n) (cache_of n) (block
          [modify (upd_buf b (\<lambda>h. h\<lparr>b_count := b_count h + 1\<rparr>)), wait_on_buffer b])"
        by (intro keepr bc.modify bc.wait_on) simp
      then show ?thesis unfolding Some option.case using ok
        by (rule wpg_keeps_seq) (use Some r upd in \<open>auto intro!: wpr simp: holds_def bkey_def\<close>)
    qed
  qed
qed

lemma take_wp:
  assumes t: "cache_of n t" and b: "b < n"
  shows "wpg any_stop (orderly_env n) (bnd (find_buffer dev blk) (\<lambda>f.
      if f \<noteq> None then ret None else seq (take_buffer dev blk b) (ret (Some b))))
    (\<lambda>r s'. cache_of n s' \<and> (\<forall>b. r = Some b \<longrightarrow> holds n dev blk b s')) t" (is "wpg _ _ _ ?Q t")
proof (rule wpg_bnd, rule find_buffer_wp [OF t])
  fix r assume r: "case r of None \<Rightarrow> dev = 0 \<or> (\<forall>c<n. bkey t c \<noteq> (dev, blk))
    | Some b \<Rightarrow> b < n \<and> bkey t b = (dev, blk)"
  show "wpg any_stop (orderly_env n) (if r \<noteq> None then ret None else seq (take_buffer dev blk b) (ret (Some b))) ?Q t"
  proof (cases r)
    case None
    have pre: "cache_ok t" "b < NR_BUFFERS t" "dev = 0 \<or> (\<forall>c<NR_BUFFERS t. bkey t c \<noteq> (dev, blk))"
      using t b r None by (auto simp: cache_of_def)
    have "wpg any_stop (orderly_env n) (seq (take_buffer dev blk b) (ret (Some b))) ?Q t"
      unfolding wpg_def
    proof (intro allI impI)
      fix es assume es: "set es \<subseteq> orderly_env n"
      from take_run [OF pre] obtain s' where
        "take_buffer dev blk b t es = Ret () s' es" "cache_ok s'" "NR_BUFFERS s' = NR_BUFFERS t" "bkey s' b = (dev, blk)"
        by blast
      then show "case seq (take_buffer dev blk b) (ret (Some b)) t es of
          Ret a s' es' \<Rightarrow> ?Q a s' \<and> set es' \<subseteq> orderly_env n | Stop r s' \<Rightarrow> any_stop r"
        using es t b by (simp add: krun cache_of_def holds_def)
    qed
    then show ?thesis using None by simp
  next
    case (Some c)
    then show ?thesis using t by (auto intro!: wpr)
  qed
qed

lemma getblk_round_wp:
  assumes gb: "\<And>d k. keeps (orderly_env n) (cache_of n) (gb d k)" and ok: "cache_of n s"
  shows "wpg any_stop (orderly_env n) (getblk_round gb dev blk)
    (\<lambda>r s'. cache_of n s' \<and> (\<forall>b. r = Some b \<longrightarrow> holds n dev blk b s')) s"
    (is "wpg _ _ _ ?Q s")
proof -
  have clean: "wpg any_stop (orderly_env n) (seq (wait_on_buffer b)
      (bnd (gets (\<lambda>s. b_count (bufs s b))) (\<lambda>c. if c \<noteq> 0 then ret None
        else bnd (clean_buffer gb b) (\<lambda>taken. if taken then ret None
          else bnd (find_buffer dev blk) (\<lambda>f. if f \<noteq> None then ret None
            else seq (take_buffer dev blk b) (ret (Some b))))))) ?Q t" if "cache_of n t" "b < n" for b t
    using that(1)
    by (intro wpg_keeps_seq [where I = "cache_of n"] bc.wait_on wpg_bnd wpg_gets wpg_if
        wpg_keeps_bnd [where I = "cache_of n", OF bc.clean_buffer, OF gb] take_wp that(2) wpg_ret) auto
  show ?thesis
    unfolding getblk_round_def
  proof (rule wpg_bnd, rule wpg_post [OF get_hash_table_wp [OF ok]])
    fix r t assume r: "cache_of n t \<and> (\<forall>b. r = Some b \<longrightarrow> holds n dev blk b t)"
    have pick: "wpg any_stop (orderly_env n) pick_buffer (\<lambda>p s'. s' = t \<and> least_bad t {0..<n} p) t"
      using pick_buffer_wp r by blast
    show "wpg any_stop (orderly_env n) (case r of None \<Rightarrow> bnd pick_buffer (\<lambda>p. case p of
       None \<Rightarrow> seq (sleep_on Q_buffer_wait) (ret None)
     | Some b \<Rightarrow> seq (wait_on_buffer b)
         (bnd (gets (\<lambda>s. b_count (bufs s b))) (\<lambda>c. if c \<noteq> 0 then ret None
           else bnd (clean_buffer gb b) (\<lambda>taken. if taken then ret None
             else bnd (find_buffer dev blk) (\<lambda>f. if f \<noteq> None then ret None
               else seq (take_buffer dev blk b) (ret (Some b)))))))
      | Some b \<Rightarrow> ret (Some b)) ?Q t"
    proof (cases r)
      case None
      have sl: "wpg any_stop (orderly_env n) (seq (sleep_on Q_buffer_wait) (ret None)) ?Q t"
        using bc.sleep_on conjunct1 [OF r] by (rule wpg_keeps_seq) (auto intro: wpr)
      show ?thesis unfolding None option.case
        by (rule wpg_bnd, rule wpg_post [OF pick], rule wpg_case_option)
          (use sl clean r in \<open>auto simp: least_bad_def\<close>)
    next
      case (Some b)
      then show ?thesis using r by (auto intro: wpr)
    qed
  qed
qed


lemma getblk_nested_wp:
  "cache_of n s \<Longrightarrow> wpg any_stop (orderly_env n) (getblk_nested k dev blk)
    (\<lambda>b s'. cache_of n s' \<and> holds n dev blk b s') s"
proof (induction k arbitrary: s dev blk)
  case 0
  then show ?case by (simp add: wpg_stop)
next
  case (Suc k)
  have gb: "keeps (orderly_env n) (cache_of n) (getblk_nested k d j)" for d j
    by (rule keepsI, rule wpg_post [OF Suc.IH]) auto
  show ?case
    unfolding getblk_nested.simps retry_twice_def
    by (intro wpg_with_fuel wpg_repeat_keeps [where I = "cache_of n"] getblk_round_wp gb Suc.prems)
qed

lemma getblk_free:
  assumes "cache_ok s" "\<forall>c<NR_BUFFERS s. \<not> (b_dev (bufs s c) = dev \<and> b_blocknr (bufs s c) = blk)"
    and "f < NR_BUFFERS s" "b_count (bufs s f) = 0" "b_dirt (bufs s f) = 0" "b_lock (bufs s f) = 0"
  shows "\<exists>b s'. getblk dev blk s es = Ret b s' es \<and> cache_ok s' \<and>
    b < NR_BUFFERS s \<and> b_count (bufs s b) = 0 \<and> b_dirt (bufs s b) = 0 \<and> b_lock (bufs s b) = 0 \<and>
    b_dev (bufs s' b) = dev \<and> b_blocknr (bufs s' b) = blk \<and> b_count (bufs s' b) = 1 \<and>
    b_uptodate (bufs s' b) = 0 \<and> b_lock (bufs s' b) = 0 \<and> elsewhere s' s \<and>
    (\<forall>c. c \<noteq> b \<longrightarrow> payload (bufs s' c) = payload (bufs s c) \<and> bkey s' c = bkey s c)"
proof -
  have new: "dev = 0 \<or> (\<forall>c<NR_BUFFERS s. bkey s c \<noteq> (dev, blk))" using assms(2) by (auto simp: bkey_def)
  obtain r where r: "find_buffer dev blk s es = Ret r s es" "case r of
      None \<Rightarrow> dev = 0 \<or> (\<forall>c<NR_BUFFERS s. bkey s c \<noteq> (dev, blk))
    | Some b \<Rightarrow> b < NR_BUFFERS s \<and> bkey s b = (dev, blk) \<and> dev \<noteq> 0"
    using find_buffer_run [OF assms(1)] by blast
  have none: "find_buffer dev blk s es = Ret None s es"
    using r assms(2) by (auto simp: bkey_def split: option.splits)
  obtain p where p: "pick_buffer s es = Ret p s es" "least_bad s {0..<NR_BUFFERS s} p"
    using pick_buffer_run [OF assms(1)] by blast
  obtain b where b: "p = Some b" "b < NR_BUFFERS s" "b_count (bufs s b) = 0" "BADNESS (bufs s b) \<le> BADNESS (bufs s f)"
    using p(2) assms(3,4) by (auto simp: least_bad_def split: option.splits)
  have clean: "b_dirt (bufs s b) = 0" "b_lock (bufs s b) = 0"
    using b(4) assms(5,6) by (auto simp: BADNESS_def unat_eq_0)
  obtain s' where t: "take_buffer dev blk b s es = Ret () s' es" "cache_ok s'" "bkey s' b = (dev, blk)"
    "b_count (bufs s' b) = 1" "b_uptodate (bufs s' b) = 0"
    "b_lock (bufs s' b) = b_lock (bufs s b)" "elsewhere s' s"
    "\<forall>c. c \<noteq> b \<longrightarrow> payload (bufs s' c) = payload (bufs s c) \<and> bkey s' c = bkey s c"
    using take_run [OF assms(1) b(2) new] by blast
  have "get_hash_table dev blk s es = Ret None s es"
    using none by (simp add: get_hash_table_def retry_def krun)
  moreover have "clean_buffer gb b s es = Ret False s es" for gb
    using clean(1) by (simp add: clean_buffer_def retry_twice_def krun)
  ultimately have "getblk dev blk s es = Ret b s' es"
    using none p(1) b clean t(1)
    by (simp add: getblk_def getblk_round_def retry_twice_def krun wait_on_buffer_def)
  then show ?thesis using t b clean by (auto simp: bkey_def)
qed

subsection \<open>Initialisation\<close>

lemma init_blocks_layout:
  "i < length (init_blocks n st h b) \<Longrightarrow>
     st + 36 * (h + length (init_blocks n st h b)) \<le> init_blocks n st h b ! i \<and>
     init_blocks n st h b ! i + 1024 \<le> b \<and>
     (\<forall>j<i. init_blocks n st h b ! i + 1024 \<le> init_blocks n st h b ! j)"
proof (induction n st h b arbitrary: i rule: init_blocks.induct)
  case (2 n st h b)
  let ?b = "if b - 1024 = 0x100000 then 0xA0000 else b - 1024"
  let ?xs = "init_blocks n st (h + 1) ?b"
  have c: "st + 36 * (h + 1) \<le> b - 1024 \<and> 1024 \<le> b" using 2(2) by (auto split: if_splits)
  then have eq: "init_blocks (Suc n) st h b = (b - 1024) # ?xs" by simp
  note IH = 2(1) [OF c]
  have low: "st + 36 * (h + 1 + length ?xs) \<le> b - 1024"
  proof (cases "?xs = []")
    case False
    then show ?thesis using IH [of 0] by (auto split: if_splits)
  qed (use c in simp)
  show ?case
  proof (cases i)
    case 0
    then show ?thesis unfolding eq using low c by simp
  next
    case (Suc k)
    then have k: "k < length ?xs" using 2(2) unfolding eq by simp
    have "?xs ! k + 1024 \<le> b - 1024" using IH [OF k] by (auto split: if_splits)
    then show ?thesis unfolding eq Suc using IH [OF k] by (auto simp: nth_Cons' less_Suc_eq_0_disj)
  qed
qed simp


lemma init_blocks_two: "0xA0000 \<le> b \<Longrightarrow> st \<le> 0x90000 \<Longrightarrow> 2 \<le> length (init_blocks (Suc (Suc m)) st 0 b)"
  by auto

lemma init_blocks_hole:
  "b mod 1024 = 0 \<Longrightarrow> b \<le> 0xA0000 \<or> 0x100000 < b \<Longrightarrow> a \<in> set (init_blocks n st h b) \<Longrightarrow>
     a + 1024 \<le> 0xA0000 \<or> 0x100000 \<le> a"
proof (induction n st h b rule: init_blocks.induct)
  case (2 n st h b)
  let ?b = "if b - 1024 = 0x100000 then 0xA0000 else b - 1024"
  have c: "st + 36 * (h + 1) \<le> b - 1024 \<and> 1024 \<le> b" using 2(4) by (auto split: if_splits)
  obtain k where k: "b = 1024 * k" using 2(2) by (metis dvd_def mod_0_imp_dvd)
  have far: "b \<le> 0xA0000 \<or> 0x100400 \<le> b" using 2(3) k by presburger
  have "(1024 * k - 1024) mod 1024 = 0" by (metis diff_mult_distrib2 mod_mult_self1_is_0 mult.right_neutral)
  then have m: "?b mod 1024 = 0" "?b \<le> 0xA0000 \<or> 0x100000 < ?b" using far c k by auto
  show ?case using 2(1) [OF c m] 2(4) c far by (auto split: if_splits)
qed simp

lemma fold_upd_buf: "fold (\<lambda>i. upd_buf i (f i)) ixs s = s\<lparr>bufs := fold (\<lambda>i b. b(i := f i (b i))) ixs (bufs s)\<rparr>"
  by (induction ixs arbitrary: s) (simp_all add: upd_buf_def)

lemma bufs_fold:
  "bufs (fold (\<lambda>i. upd_buf i (f i)) [0..<n] s) c = (if c < n then f c (bufs s c) else bufs s c)"
  "NR_BUFFERS (fold (\<lambda>i. upd_buf i (f i)) [0..<n] s) = NR_BUFFERS s"
  by (induction n) (auto simp: bufs_upd_buf)

lemma links_upt: "\<forall>i. Suc i < n \<longrightarrow> nx i = Some (Suc i) \<and> pv (Suc i) = Some i \<Longrightarrow> links nx pv [k..<n]"
proof (induction "n - k" arbitrary: k)
  case (Suc m)
  then have k: "[k..<n] = k # [Suc k..<n]" by (simp add: upt_conv_Cons)
  have IH: "links nx pv [Suc k..<n]" using Suc by simp
  show ?case
  proof (cases "Suc k < n")
    case True
    then have "[Suc k..<n] = Suc k # [Suc (Suc k)..<n]" by (simp add: upt_conv_Cons)
    then show ?thesis using IH Suc.prems True k by simp
  next
    case False
    then show ?thesis using k by simp
  qed
qed simp

lemma cache_ok_init:
  assumes n: "NR_BUFFERS s = n" "2 \<le> n" "free_list s = 0" "hash_table s = (\<lambda>_. None)"
    and b: "\<forall>i<n. b_dev (bufs s i) = 0 \<and> b_next (bufs s i) = None \<and> b_prev (bufs s i) = None \<and>
      b_prev_free (bufs s i) = Some (if i = 0 then n - 1 else i - 1) \<and>
      b_next_free (bufs s i) = Some (if i = n - 1 then 0 else i + 1)"
  shows "cache_ok s"
proof -
  have "links (nextf s) (prevf s) [0..<n]" using b by (intro links_upt) auto
  moreover have sp: "[0..<n] = [0..<n - 1] @ [n - 1]" using n(2) upt_Suc_append [of 0 "n - 1"] by simp
  moreover have "nextf s (n - 1) = Some 0" "prevf s 0 = Some (n - 1)" using b n(2) by auto
  ultimately have "links (nextf s) (prevf s) ([0..<n - 1] @ (n - 1) # [0])"
    using links_append [of "nextf s" "prevf s" "[0..<n - 1]" "n - 1" "[0]"] by simp
  then have "ring (nextf s) (prevf s) [0..<n]" using n(2) sp by (simp add: ring_def)
  then have "free_ok s {0..<n}" using n(2,3) unfolding free_ok_def by (intro exI [of _ "[0..<n]"]) simp
  moreover have "hashed s {0..<n} h = {}" for h using b by (auto simp: hashed_def)
  then have "hash_ok s {0..<n}" using n(4) by (auto simp: hash_ok_def intro!: exI [of _ "[]"])
  moreover have "idle_ok s {0..<n}" "unique_ok s {0..<n}" using b by (auto simp: idle_ok_def unique_ok_def)
  ultimately show ?thesis using n by (simp add: cache_ok_def cache_at_def)
qed

text \<open>A kernel with two buffers, both free and on no queue.\<close>

definition cache0 :: kernel where
  "cache0 = blank_kernel\<lparr>NR_BUFFERS := 2, bufs := (\<lambda>i. blank_buffer_head\<lparr>
     b_prev_free := Some (if i = 0 then 1 else i - 1), b_next_free := Some (if i = 1 then 0 else i + 1)\<rparr>)\<rparr>"

lemma cache0_ok: "cache_ok cache0" "NR_BUFFERS cache0 = 2"
  by (rule cache_ok_init [where n = 2]) (auto simp: cache0_def blank_kernel_def blank_buffer_head_def)

lemma cache0_bufs: "b_dev (bufs cache0 c) = 0" "b_count (bufs cache0 c) = 0" "b_dirt (bufs cache0 c) = 0"
  "b_lock (bufs cache0 c) = 0"
  by (simp_all add: cache0_def blank_kernel_def blank_buffer_head_def)

lemma elsewhere_wait: "elsewhere s' s \<Longrightarrow> buffer_wait s' = buffer_wait s"
  unfolding elsewhere_def by (drule arg_cong [where f = buffer_wait]) simp

lemma cache0_wait: "buffer_wait cache0 = None"
  by (simp add: cache0_def blank_kernel_def)

lemma cache0_getblk:
  "\<exists>b s. getblk 0x301 7 cache0 [] = Ret b s [] \<and> cache_of 2 s \<and> b < 2 \<and> b_dev (bufs s b) = 0x301 \<and>
    b_blocknr (bufs s b) = 7 \<and> b_lock (bufs s b) = 0 \<and> buffer_wait s = None \<and> (\<forall>c. b_count (bufs s c) \<noteq> 255) \<and>
    b_count (bufs s b) = 1 \<and>
    (\<forall>c. c \<noteq> b \<longrightarrow> b_count (bufs s c) = 0 \<and> b_dirt (bufs s c) = 0 \<and> b_lock (bufs s c) = 0 \<and> b_dev (bufs s c) = 0)"
proof -
  obtain b s where *: "getblk 0x301 7 cache0 [] = Ret b s []" "b < NR_BUFFERS cache0" "b_dev (bufs s b) = 0x301"
    "b_blocknr (bufs s b) = 7" "b_lock (bufs s b) = 0" "elsewhere s cache0" "b_count (bufs s b) = 1"
    "\<forall>c. c \<noteq> b \<longrightarrow> payload (bufs s c) = payload (bufs cache0 c) \<and> bkey s c = bkey cache0 c"
    using getblk_free [OF cache0_ok(1), of "0x301" 7 0 "[]"] by (auto simp: cache0_bufs cache0_ok(2))
  have "cache_of 2 s"
    using wpgD_Ret [OF getblk_nested_wp [of 2 cache0], of "NR_INODE + 2" "0x301" 7 "[]" b s "[]"] *(1)
    unfolding getblk_def by (simp add: cache_of_def cache0_ok)
  moreover have "buffer_wait s = None" by (simp add: elsewhere_wait [OF *(6)] cache0_wait)
  moreover have "b_count (bufs s c) \<noteq> 255" for c
    using *(7,8) by (cases "c = b") (auto simp: payload_def cache0_bufs)
  moreover have "b_count (bufs s c) = 0 \<and> b_dirt (bufs s c) = 0 \<and> b_lock (bufs s c) = 0 \<and> b_dev (bufs s c) = 0" if "c \<noteq> b" for c
    using *(8) that by (auto simp: payload_def bkey_def cache0_bufs)
  ultimately show ?thesis using * by (auto simp: cache0_ok(2))
qed

subsection \<open>Properties\<close>

text \<open>
  C2. The buffer cache is never corrupted by \<open>getblk\<close>: whatever other tasks and interrupts do
  while it sleeps, as long as they keep the cache in order, \<open>getblk\<close> returns with the cache in
  order (free ring, hash queues, one buffer for a block) and the buffer that it returns is the
  one and only buffer that stands for the block asked for.
\<close>

lemma getblk_unique_buffer:
  assumes "cache_of n s" "set es \<subseteq> orderly_env n" "getblk dev blk s es = Ret b s' es'"
  shows "cache_of n s' \<and> b < n \<and> b_dev (bufs s' b) = dev \<and> b_blocknr (bufs s' b) = blk \<and>
    (dev \<noteq> 0 \<longrightarrow> (\<forall>c<n. b_dev (bufs s' c) = dev \<and> b_blocknr (bufs s' c) = blk \<longrightarrow> c = b))"
proof -
  have *: "cache_of n s' \<and> holds n dev blk b s'"
    using wpgD_Ret [OF getblk_nested_wp [OF assms(1)]] assms(2,3) unfolding getblk_def by blast
  then have "unique_ok s' {0..<n}" by (auto simp: cache_of_def cache_ok_def cache_at_def)
  then show ?thesis using * by (auto simp: holds_def bkey_def unique_ok_def)
qed

lemma getblk_unique_buffer_witness:
  "\<exists>b s. getblk 0x301 7 cache0 [] = Ret b s [] \<and> cache_of 2 s \<and> b < 2 \<and> b_dev (bufs s b) = 0x301 \<and>
    (\<forall>c<2. b_dev (bufs s c) = 0x301 \<and> b_blocknr (bufs s c) = 7 \<longrightarrow> c = b)"
proof -
  obtain b s where *: "getblk 0x301 7 cache0 [] = Ret b s []" using cache0_getblk by blast
  have "cache_of 2 cache0" by (simp add: cache_of_def cache0_ok)
  from getblk_unique_buffer [OF this _ *] * show ?thesis by auto
qed

lemma get_hash_cached:
  assumes "cache_ok s" "b < NR_BUFFERS s" "b_dev (bufs s b) \<noteq> 0" "b_lock (bufs s b) = 0"
  shows "get_hash_table (b_dev (bufs s b)) (b_blocknr (bufs s b)) s es =
    Ret (Some b) (upd_buf b (\<lambda>h. h\<lparr>b_count := b_count h + 1\<rparr>) s) es"
proof -
  let ?dev = "b_dev (bufs s b)" and ?blk = "b_blocknr (bufs s b)"
  obtain r where r: "find_buffer ?dev ?blk s es = Ret r s es" "case r of
      None \<Rightarrow> ?dev = 0 \<or> (\<forall>c<NR_BUFFERS s. bkey s c \<noteq> (?dev, ?blk))
    | Some b \<Rightarrow> b < NR_BUFFERS s \<and> bkey s b = (?dev, ?blk) \<and> ?dev \<noteq> 0"
    using find_buffer_run [OF assms(1)] by blast
  have "r = Some b"
    using r(2) assms unfolding cache_ok_def cache_at_def unique_ok_def by (auto simp: bkey_def split: option.splits)
  then show ?thesis
    using r(1) assms(4) by (simp add: get_hash_table_def retry_def krun wait_on_buffer_def bufs_upd_buf)
qed

lemma getblk_cached:
  assumes "cache_ok s" "b < NR_BUFFERS s" "b_dev (bufs s b) \<noteq> 0" "b_lock (bufs s b) = 0"
  shows "getblk (b_dev (bufs s b)) (b_blocknr (bufs s b)) s es =
    Ret b (upd_buf b (\<lambda>h. h\<lparr>b_count := b_count h + 1\<rparr>) s) es"
  by (simp add: getblk_def getblk_round_def retry_twice_def krun get_hash_cached [OF assms])

text \<open>
  A block that is in the cache and not locked is found there: \<open>getblk\<close> returns its buffer
  at once, without sleeping, and all that changes is the reference count.
\<close>

lemma getblk_hit:
  assumes "cache_ok s" "b < NR_BUFFERS s" "b_dev (bufs s b) \<noteq> 0" "b_lock (bufs s b) = 0"
  shows "getblk (b_dev (bufs s b)) (b_blocknr (bufs s b)) s es =
    Ret b (upd_buf b (\<lambda>h. h\<lparr>b_count := b_count h + 1\<rparr>) s) es"
  by (rule getblk_cached [OF assms])


lemma getblk_hit_witness:
  "\<exists>b s. cache_ok s \<and> b_dev (bufs s b) = 0x301 \<and>
    getblk 0x301 7 s [] = Ret b (upd_buf b (\<lambda>h. h\<lparr>b_count := b_count h + 1\<rparr>) s) []"
proof -
  obtain b s where *: "cache_of 2 s" "b < 2" "b_dev (bufs s b) = 0x301" "b_blocknr (bufs s b) = 7" "b_lock (bufs s b) = 0"
    using cache0_getblk by blast
  then have "getblk (b_dev (bufs s b)) (b_blocknr (bufs s b)) s [] =
      Ret b (upd_buf b (\<lambda>h. h\<lparr>b_count := b_count h + 1\<rparr>) s) []"
    by (intro getblk_hit) (auto simp: cache_of_def)
  then show ?thesis using * by (auto simp: cache_of_def)
qed

text \<open>
  C22. A block that is not in the cache, while some buffer is free, clean and unlocked: \<open>getblk\<close>
  gives such a buffer to the block without sleeping, with one reference and no valid data, and
  the cache stays in order.
\<close>

lemma getblk_miss:
  assumes "cache_ok s" "\<forall>c<NR_BUFFERS s. \<not> (b_dev (bufs s c) = dev \<and> b_blocknr (bufs s c) = blk)"
    and "f < NR_BUFFERS s" "b_count (bufs s f) = 0" "b_dirt (bufs s f) = 0" "b_lock (bufs s f) = 0"
  shows "\<exists>b s'. getblk dev blk s es = Ret b s' es \<and> cache_ok s' \<and>
    b < NR_BUFFERS s \<and> b_count (bufs s b) = 0 \<and> b_dirt (bufs s b) = 0 \<and> b_lock (bufs s b) = 0 \<and>
    b_dev (bufs s' b) = dev \<and> b_blocknr (bufs s' b) = blk \<and> b_count (bufs s' b) = 1 \<and>
    b_uptodate (bufs s' b) = 0"
  using getblk_free [OF assms] by blast

lemma getblk_miss_witness:
  "\<exists>b s'. getblk 0x301 7 cache0 [] = Ret b s' [] \<and> b_dev (bufs s' b) = 0x301 \<and> b_count (bufs s' b) = 1"
  using getblk_miss [OF cache0_ok(1), of "0x301" 7 0 "[]"] by (auto simp: cache0_bufs cache0_ok(2))

lemma buffer_init_run:
  assumes "NR_BUFFERS s = 0" "unat (start_buffer s) \<le> 0x90000" "0x100000 \<le> buffer_end" "unat buffer_end mod 1024 = 0"
  shows "\<exists>s'. buffer_init buffer_end s es = Ret () s' es \<and> cache_ok s' \<and>
    (\<exists>b n h. s' = s\<lparr>bufs := b, NR_BUFFERS := n, free_list := 0, hash_table := h\<rparr>) \<and>
    (\<forall>i<NR_BUFFERS s'. b_count (bufs s' i) = 0 \<and> b_dev (bufs s' i) = 0 \<and>
       unat (start_buffer s) + 36 * NR_BUFFERS s' \<le> unat (b_addr (bufs s' i)) \<and>
       unat (b_addr (bufs s' i)) + 1024 \<le> unat buffer_end \<and>
       (unat (b_addr (bufs s' i)) + 1024 \<le> 0xA0000 \<or> 0x100000 \<le> unat (b_addr (bufs s' i))) \<and>
       (\<forall>j<i. unat (b_addr (bufs s' i)) + 1024 \<le> unat (b_addr (bufs s' j))))"
proof -
  let ?e = "if buffer_end = 0x100000 then 0xA0000 else unat buffer_end"
  define as where "as = init_blocks (?e div 1024) (unat (start_buffer s)) 0 ?e"
  have big: "0x100000 \<le> unat buffer_end" using assms(3) by (simp add: word_le_nat_alt)
  have ne: "0x100000 < unat buffer_end" if "buffer_end \<noteq> 0x100000"
  proof -
    have "unat buffer_end \<noteq> 0x100000" using that by (metis of_nat_numeral unat_of_nat word_nat_cases unsigned_of_nat of_nat_unat ucast_id)
    then show ?thesis using big by simp
  qed
  have e: "0xA0000 \<le> ?e" "?e \<le> unat buffer_end" "?e mod 1024 = 0" "?e \<le> 0xA0000 \<or> 0x100000 < ?e"
    using ne assms(4) big by auto
  define m where "m = ?e div 1024 - 2"
  have "640 \<le> k div 1024" if "0xA0000 \<le> k" for k :: nat using that by (simp add: less_eq_div_iff_mult_less_eq)
  then have "640 \<le> ?e div 1024" using e(1) .
  then have m: "?e div 1024 = Suc (Suc m)" by (simp add: m_def)
  have two: "2 \<le> length as"
    unfolding as_def m using e(1) assms(2) by (rule init_blocks_two)
  define n where "n = length as"
  define f where "f = (\<lambda>i (h :: buffer_head). h\<lparr>b_dev := 0, b_dirt := 0, b_count := 0,
            b_lock := 0, b_uptodate := 0, b_wait := None, b_next := None, b_prev := None,
            b_addr := of_nat (as ! i),
            b_prev_free := Some (if i = 0 then n - 1 else i - 1),
            b_next_free := Some (if i = n - 1 then 0 else i + 1)\<rparr>)"
  define s' where "s' = (fold (\<lambda>i. upd_buf i (f i)) [0..<n] s)\<lparr>NR_BUFFERS := n, free_list := 0, hash_table := (\<lambda>_. None)\<rparr>"
  have run: "buffer_init buffer_end s es = Ret () s' es"
    unfolding buffer_init_def Let_def bnd_run gets_run res.case as_def [symmetric] n_def [symmetric]
      if_run
    using two [folded n_def] assms(1) by (simp add: krun f_def s'_def bufs_fold)
  have bufs: "bufs s' i = f i (bufs s i)" if "i < n" for i
    using that by (simp add: s'_def bufs_fold)
  have ok: "cache_ok s'"
    by (rule cache_ok_init [where n = n]) (use two bufs in \<open>auto simp: s'_def n_def [symmetric] f_def\<close>)
  have lay: "unat (start_buffer s) + 36 * n \<le> as ! i" "as ! i + 1024 \<le> ?e" "\<forall>j<i. as ! i + 1024 \<le> as ! j"
    if "i < n" for i
    using init_blocks_layout [of i "?e div 1024" "unat (start_buffer s)" 0 ?e,
        unfolded as_def [symmetric] n_def [symmetric] add_0, OF that] by blast+
  have hole: "as ! i + 1024 \<le> 0xA0000 \<or> 0x100000 \<le> as ! i" if "i < n" for i
    by (rule init_blocks_hole [OF e(3,4), of _ "?e div 1024" "unat (start_buffer s)" 0, unfolded as_def [symmetric]])
      (use that in \<open>simp add: n_def\<close>)
  have addr: "unat (b_addr (bufs s' i)) = as ! i" if "i < n" for i
  proof -
    have "as ! i < 2 ^ 32" using lay(2) [OF that] e(2) unsigned_less [of buffer_end, where ?'a = nat] by simp
    then show ?thesis using bufs [OF that] by (simp add: f_def unat_of_nat)
  qed
  have N: "NR_BUFFERS s' = n" by (simp add: s'_def)
  have fr: "b_count (bufs s' i) = 0" "b_dev (bufs s' i) = 0" if "i < n" for i
    using bufs [OF that] by (simp_all add: f_def)
  have "b_count (bufs s' i) = 0 \<and> b_dev (bufs s' i) = 0 \<and>
       unat (start_buffer s) + 36 * n \<le> unat (b_addr (bufs s' i)) \<and>
       unat (b_addr (bufs s' i)) + 1024 \<le> unat buffer_end \<and>
       (unat (b_addr (bufs s' i)) + 1024 \<le> 0xA0000 \<or> 0x100000 \<le> unat (b_addr (bufs s' i))) \<and>
       (\<forall>j<i. unat (b_addr (bufs s' i)) + 1024 \<le> unat (b_addr (bufs s' j)))" if "i < n" for i
    using lay [OF that] hole [OF that] that e(2) by (auto simp: fr addr)
  moreover have "\<exists>b n h. s' = s\<lparr>bufs := b, NR_BUFFERS := n, free_list := 0, hash_table := h\<rparr>"
    by (auto simp: s'_def fold_upd_buf)
  ultimately show ?thesis using run ok N by auto
qed

text \<open>
  C27. \<open>buffer_init\<close> on a machine with buffer memory up to 1 MB or more sets up at least two
  buffers with the cache in order and every one of them free.  Their blocks lie between the
  buffer heads and the end of the buffer memory, do not overlap one another, and stay out of the
  video memory and the ROM between 640 KB and 1 MB.
\<close>

lemma buffer_init_layout:
  assumes "NR_BUFFERS s = 0" "unat (start_buffer s) \<le> 0x90000" "0x100000 \<le> buffer_end" "unat buffer_end mod 1024 = 0"
  shows "\<exists>s'. buffer_init buffer_end s es = Ret () s' es \<and> cache_ok s' \<and>
    (\<forall>i<NR_BUFFERS s'. b_count (bufs s' i) = 0 \<and> b_dev (bufs s' i) = 0 \<and>
       unat (start_buffer s) + 36 * NR_BUFFERS s' \<le> unat (b_addr (bufs s' i)) \<and>
       unat (b_addr (bufs s' i)) + 1024 \<le> unat buffer_end \<and>
       (unat (b_addr (bufs s' i)) + 1024 \<le> 0xA0000 \<or> 0x100000 \<le> unat (b_addr (bufs s' i))) \<and>
       (\<forall>j<i. unat (b_addr (bufs s' i)) + 1024 \<le> unat (b_addr (bufs s' j))))"
  using buffer_init_run [OF assms] by blast

lemma buffer_init_layout_witness:
  "\<exists>s'. buffer_init 0x400000 blank_kernel [] = Ret () s' [] \<and> cache_ok s'"
  using buffer_init_layout [of blank_kernel "0x400000" "[]"] by (auto simp: blank_kernel_def)

end
