(* ===== verification/Bitmap.thy ===== *)
theory Bitmap
  imports Cache
begin

unbundle bit_operations_syntax

text \<open>
  fs/bitmap.c (without \<open>new_inode\<close>, which follows in Inode) and fs/truncate.c: the zone and inode
  bitmaps of a file system, in the data of the buffers that the super block holds.
\<close>

text \<open>Bit \<open>nr\<close> of a bitmap, as \<open>bts\<close> and \<open>btr\<close> find it in memory.\<close>

definition bit_at :: "(nat \<Rightarrow> u8) \<Rightarrow> nat \<Rightarrow> bool" where
  "bit_at d nr \<longleftrightarrow> bit (d (nr div 8)) (nr mod 8)"

definition put_bit :: "bool \<Rightarrow> nat \<Rightarrow> (nat \<Rightarrow> u8) \<Rightarrow> (nat \<Rightarrow> u8)" where
  "put_bit v nr d = d (nr div 8 :=
     (if v then set_bit (nr mod 8) (d (nr div 8)) else unset_bit (nr mod 8) (d (nr div 8))))"

text \<open>
  \<open>find_first_zero\<close>: the loop over the 256 words of the block, \<open>c\<close> bits done; the lowest set bit
  of the complement of a word is what \<open>bsfl\<close> finds.
\<close>

fun zero_loop :: "nat \<Rightarrow> nat \<Rightarrow> (nat \<Rightarrow> u8) \<Rightarrow> nat" where
  "zero_loop 0 c d = c"
| "zero_loop (Suc n) c d =
     (case first_upto (bit (NOT (get32 d (c div 8)))) 32 of
        None \<Rightarrow> zero_loop n (c + 32) d
      | Some k \<Rightarrow> c + k)"

definition find_first_zero :: "(nat \<Rightarrow> u8) \<Rightarrow> nat" where
  "find_first_zero d = zero_loop 256 0 d"

definition free_block :: "u16 \<Rightarrow> nat \<Rightarrow> unit K" where
  "free_block dev blk = bnd (get_super dev) (\<lambda>r. case r of
     None \<Rightarrow> kpanic ''trying to free block on nonexistent device''
   | Some sp \<Rightarrow> bnd (gets (\<lambda>s. super_blocks s sp)) (\<lambda>sb.
       if blk < unat (s_firstdatazone sb) \<or> blk \<ge> unat (s_nzones sb)
       then kpanic ''trying to free block not in datazone''
       else bnd (get_hash_table dev (of_nat blk)) (\<lambda>bh.
         bnd (gets (\<lambda>s. case bh of None \<Rightarrow> False | Some b \<Rightarrow> b_count (bufs s b) \<noteq> 1)) (\<lambda>busy.
         if busy then skip
         else seq (case bh of None \<Rightarrow> skip | Some b \<Rightarrow> block
             [modify (upd_buf b (\<lambda>h. h\<lparr>b_dirt := 0, b_uptodate := 0\<rparr>)), brelse (Some b)])
           (bnd (gets (\<lambda>s. super_blocks s sp)) (\<lambda>sb.
             let z = blk + 1 - unat (s_firstdatazone sb); nr = z mod 8192 in
             case s_zmap sb (z div 8192) of
               None \<Rightarrow> stop Wild
             | Some zb \<Rightarrow> bnd (gets (\<lambda>s. bit_at (b_data (bufs s zb)) nr)) (\<lambda>was. block
                 [modify (upd_buf zb (\<lambda>h. h\<lparr>b_data := put_bit False nr (b_data h)\<rparr>)),
                  guardK (\<not> was) (kpanic ''free_block: bit already cleared''),
                  modify (upd_buf zb (\<lambda>h. h\<lparr>b_dirt := 1\<rparr>))])))))))"

text \<open>
  The loop over the bitmap blocks of \<open>new_block\<close> and \<open>new_inode\<close>: the first slot whose block has
  a zero bit, and the number of the bit.
\<close>

fun find_map :: "kernel \<Rightarrow> (nat \<Rightarrow> bptr option) \<Rightarrow> nat \<Rightarrow> nat \<Rightarrow> (nat \<times> bptr \<times> nat) option" where
  "find_map s m i 0 = None"
| "find_map s m i (Suc n) =
     (case m i of
        None \<Rightarrow> find_map s m (Suc i) n
      | Some b \<Rightarrow> let j = find_first_zero (b_data (bufs s b)) in
          if j < 8192 then Some (i, b, j) else find_map s m (Suc i) n)"

definition clear_block :: "buffer_head \<Rightarrow> buffer_head" where
  "clear_block h = h\<lparr>b_data := (\<lambda>i. if i < 1024 then 0 else b_data h i)\<rparr>"

definition new_block :: "u16 \<Rightarrow> nat K" where
  "new_block dev = bnd (get_super dev) (\<lambda>r. case r of
     None \<Rightarrow> kpanic ''trying to get new block from nonexistant device''
   | Some sp \<Rightarrow> bnd (gets (\<lambda>s. find_map s (s_zmap (super_blocks s sp)) 0 8)) (\<lambda>f. case f of
       None \<Rightarrow> ret 0
     | Some (i, b, j) \<Rightarrow> seq (block
         [modify (upd_buf b (\<lambda>h. h\<lparr>b_data := put_bit True j (b_data h)\<rparr>)),
          modify (upd_buf b (\<lambda>h. h\<lparr>b_dirt := 1\<rparr>))])
         (bnd (gets (\<lambda>s. super_blocks s sp)) (\<lambda>sb.
           let z = int j + int i * 8192 + uint (s_firstdatazone sb) - 1 in
           if z \<ge> uint (s_nzones sb) then ret 0
           else bnd (getblk dev (word_of_int z)) (\<lambda>nb.
             bnd (gets (\<lambda>s. b_count (bufs s nb))) (\<lambda>c.
               if c \<noteq> 1 then kpanic ''new block: count is != 1''
               else seq (block
                 [modify (upd_buf nb clear_block),
                  modify (upd_buf nb (\<lambda>h. h\<lparr>b_uptodate := 1, b_dirt := 1\<rparr>)),
                  brelse (Some nb)])
                 (ret (nat z))))))))"

text \<open>\<open>memset(inode,0,sizeof(*inode))\<close>\<close>

definition clear_inode :: "iptr \<Rightarrow> unit K" where
  "clear_inode i = modify (upd_inode i (\<lambda>_. blank_m_inode))"

definition free_inode :: "iptr \<Rightarrow> unit K" where
  "free_inode i = bnd (gets (\<lambda>s. inode_table s i)) (\<lambda>x.
     if i_dev x = 0 then clear_inode i
     else if i_count x > 1 then kpanic ''free_inode''
     else if i_nlinks x \<noteq> 0 then kpanic ''trying to free inode with links''
     else bnd (get_super (i_dev x)) (\<lambda>r. case r of
       None \<Rightarrow> kpanic ''trying to free inode on nonexistent device''
     | Some sp \<Rightarrow> bnd (gets (\<lambda>s. (super_blocks s sp, unat (i_num (inode_table s i))))) (\<lambda>(sb, num).
         if num < 1 \<or> num > unat (s_ninodes sb) then kpanic ''trying to free inode 0 or nonexistant inode''
         else case s_imap sb (num div 8192) of
           None \<Rightarrow> kpanic ''nonexistent imap in superblock''
         | Some b \<Rightarrow> block
             [modify (upd_buf b (\<lambda>h. h\<lparr>b_data := put_bit False (num mod 8192) (b_data h)\<rparr>)),
              modify (upd_buf b (\<lambda>h. h\<lparr>b_dirt := 1\<rparr>)),
              clear_inode i])))"

subsection \<open>fs/truncate.c\<close>

text \<open>The loop over the 512 zone numbers of an index block: the block is read again each time.\<close>

definition each_zone :: "bptr \<Rightarrow> (nat \<Rightarrow> unit K) \<Rightarrow> unit K" where
  "each_zone b f = for_each [0..<512] (\<lambda>k.
     bnd (gets (\<lambda>s. unat (get16 (b_data (bufs s b)) (2 * k)))) (\<lambda>z. guardK (z \<noteq> 0) (f z)))"

definition free_index :: "(nat \<Rightarrow> unit K) \<Rightarrow> u16 \<Rightarrow> nat \<Rightarrow> unit K" where
  "free_index f dev blk =
     (if blk = 0 then skip
      else seq (bnd (bread dev (of_nat blk)) (\<lambda>r. case r of
          None \<Rightarrow> skip
        | Some b \<Rightarrow> block [each_zone b f, brelse (Some b)]))
        (free_block dev blk))"

definition free_ind :: "u16 \<Rightarrow> nat \<Rightarrow> unit K" where
  "free_ind dev blk = free_index (free_block dev) dev blk"

definition free_dind :: "u16 \<Rightarrow> nat \<Rightarrow> unit K" where
  "free_dind dev blk = free_index (free_ind dev) dev blk"

definition now32 :: "kernel \<Rightarrow> u32" where
  "now32 s = word_of_int (CURRENT_TIME s)"

definition truncate :: "iptr \<Rightarrow> unit K" where
  "truncate i = bnd (gets (\<lambda>s. i_mode (inode_table s i))) (\<lambda>m.
     if \<not> (S_ISREG m \<or> S_ISDIR m) then skip
     else block
       [for_each [0..<7] (\<lambda>k. bnd (gets (\<lambda>s. inode_table s i)) (\<lambda>x.
          guardK (i_zone x k \<noteq> 0) (block
            [free_block (i_dev x) (unat (i_zone x k)),
             modify (upd_inode i (\<lambda>x. x\<lparr>i_zone := (i_zone x)(k := 0)\<rparr>))]))),
        bnd (gets (\<lambda>s. inode_table s i)) (\<lambda>x. free_ind (i_dev x) (unat (i_zone x 7))),
        bnd (gets (\<lambda>s. inode_table s i)) (\<lambda>x. free_dind (i_dev x) (unat (i_zone x 8))),
        modify (\<lambda>s. upd_inode i (\<lambda>x. x\<lparr>i_zone := (i_zone x)(8 := 0, 7 := 0), i_size := 0,
          i_dirt := 1, i_ctime := now32 s, i_mtime := now32 s\<rparr>) s)])"

end
