(* ===== verification/Inode.thy ===== *)
theory Inode
  imports Bitmap Memory
begin

unbundle bit_operations_syntax

text \<open>
  fs/inode.c, and \<open>new_inode\<close> of fs/bitmap.c: the table of inodes in memory, and the zones of a
  file.
\<close>

definition ROOT_INO :: u16 where [kconst]: "ROOT_INO = 1"

definition invalidate_inodes :: "u16 \<Rightarrow> unit K" where
  "invalidate_inodes dev = for_each [0..<NR_INODE] (\<lambda>i. seq (wait_on_inode i)
     (modify (\<lambda>s. if i_dev (inode_table s i) = dev
        then upd_inode i (\<lambda>x. x\<lparr>i_dev := 0, i_dirt := 0\<rparr>) s else s)))"

subsection \<open>The zones of a file\<close>

text \<open>\<open>if (create && !z) if ((z = new_block(dev)))\<close> for a zone number in the inode.\<close>

definition inode_zone :: "bool \<Rightarrow> iptr \<Rightarrow> nat \<Rightarrow> nat K" where
  "inode_zone create i k = seq
     (bnd (gets (\<lambda>s. inode_table s i)) (\<lambda>x. guardK (create \<and> i_zone x k = 0)
       (bnd (new_block (i_dev x)) (\<lambda>z. block
         [modify (upd_inode i (\<lambda>x. x\<lparr>i_zone := (i_zone x)(k := of_nat z)\<rparr>)),
          guardK (z \<noteq> 0) (modify (\<lambda>s. upd_inode i (\<lambda>x. x\<lparr>i_ctime := now32 s, i_dirt := 1\<rparr>) s))]))))
     (gets (\<lambda>s. unat (i_zone (inode_table s i) k)))"

text \<open>The same for entry \<open>k\<close> of an index block, which is released afterwards.\<close>

definition index_zone :: "bool \<Rightarrow> iptr \<Rightarrow> nat \<Rightarrow> nat \<Rightarrow> nat K" where
  "index_zone create i blk k =
     (if blk = 0 then ret 0
      else bnd (gets (\<lambda>s. i_dev (inode_table s i))) (\<lambda>dev.
        bnd (bread dev (of_nat blk)) (\<lambda>r. case r of
          None \<Rightarrow> ret 0
        | Some b \<Rightarrow> bnd (gets (\<lambda>s. unat (get16 (b_data (bufs s b)) (2 * k)))) (\<lambda>z.
            bnd (if create \<and> z = 0
                 then bnd (gets (\<lambda>s. i_dev (inode_table s i))) (\<lambda>dev. bnd (new_block dev) (\<lambda>n. seq
                   (guardK (n \<noteq> 0) (block
                     [modify (upd_buf b (\<lambda>h. h\<lparr>b_data := put16 (b_data h) (2 * k) (of_nat n)\<rparr>)),
                      modify (upd_buf b (\<lambda>h. h\<lparr>b_dirt := 1\<rparr>))]))
                   (ret n)))
                 else ret z) (\<lambda>n. seq (brelse (Some b)) (ret n))))))"

definition bmap_gen :: "iptr \<Rightarrow> int \<Rightarrow> bool \<Rightarrow> nat K" where
  "bmap_gen i blk create =
     (if blk < 0 then kpanic ''_bmap: block<0''
      else if blk \<ge> 7 + 512 + 512 * 512 then kpanic ''_bmap: block>big''
      else if blk < 7 then inode_zone create i (nat blk)
      else if blk - 7 < 512
      then bnd (inode_zone create i 7) (\<lambda>z. index_zone create i z (nat (blk - 7)))
      else bnd (inode_zone create i 8) (\<lambda>z.
           bnd (index_zone create i z (nat (blk - 519) div 512)) (\<lambda>y.
             index_zone create i y (nat (blk - 519) mod 512))))"

definition bmap :: "iptr \<Rightarrow> int \<Rightarrow> nat K" where
  "bmap i blk = bmap_gen i blk False"

definition create_block :: "iptr \<Rightarrow> int \<Rightarrow> nat K" where
  "create_block i blk = bmap_gen i blk True"

subsection \<open>Releasing and getting inodes\<close>

text \<open>
  The part of \<open>iput\<close> from \<open>repeat\<close> on.  It goes round when it has written the inode, which clears
  the flag that made it, so one round without sleeping follows another only once.
\<close>

definition iput_round :: "iptr \<Rightarrow> unit option K" where
  "iput_round i = bnd (gets (\<lambda>s. inode_table s i)) (\<lambda>x.
     if i_count x > 1
     then seq (modify (upd_inode i (\<lambda>x. x\<lparr>i_count := i_count x - 1\<rparr>))) (ret (Some ()))
     else if i_nlinks x = 0
     then seq (block [truncate i, free_inode i]) (ret (Some ()))
     else if i_dirt x \<noteq> 0
     then seq (block [write_inode i, wait_on_inode i]) (ret None)
     else seq (modify (upd_inode i (\<lambda>x. x\<lparr>i_count := i_count x - 1\<rparr>))) (ret (Some ())))"

definition iput :: "iptr option \<Rightarrow> unit K" where
  "iput p = (case p of None \<Rightarrow> skip
   | Some i \<Rightarrow> seq (wait_on_inode i) (bnd (gets (\<lambda>s. inode_table s i)) (\<lambda>x.
       if i_count x = 0 then kpanic ''iput: trying to free free inode''
       else if i_pipe x \<noteq> 0
       then block
         [wake_up (Q_inode i),
          modify (upd_inode i (\<lambda>x. x\<lparr>i_count := i_count x - 1\<rparr>)),
          bnd (gets (\<lambda>s. inode_table s i)) (\<lambda>x.
            if i_count x \<noteq> 0 then skip
            else block
              [free_page (i_size x),
               modify (upd_inode i (\<lambda>x. x\<lparr>i_count := 0, i_dirt := 0, i_pipe := 0\<rparr>))])]
       else if i_dev x = 0
       then modify (upd_inode i (\<lambda>x. x\<lparr>i_count := i_count x - 1\<rparr>))
       else seq
         (if S_ISBLK (i_mode x) then bnd (sync_dev (i_zone x 0)) (\<lambda>_. wait_on_inode i) else skip)
         (retry_twice (iput_round i)))))"

text \<open>
  The scan of \<open>get_empty_inode\<close>: \<open>n\<close> entries to go from \<open>last_inode\<close>, \<open>found\<close> the unused one seen
  last; it stops early at an unused inode that is clean and not locked.
\<close>

fun scan_inodes :: "nat \<Rightarrow> kernel \<Rightarrow> iptr \<Rightarrow> iptr option \<Rightarrow> iptr \<times> iptr option" where
  "scan_inodes 0 s l found = (l, found)"
| "scan_inodes (Suc n) s l found =
     (let l' = (if Suc l \<ge> NR_INODE then 0 else Suc l); x = inode_table s l' in
      if i_count x = 0
      then if i_dirt x = 0 \<and> i_lock x = 0 then (l', Some l') else scan_inodes n s l' (Some l')
      else scan_inodes n s l' found)"

definition flush_inode :: "iptr \<Rightarrow> unit K" where
  "flush_inode i = retry_twice (bnd (gets (\<lambda>s. i_dirt (inode_table s i))) (\<lambda>d.
     if d = 0 then ret (Some ()) else seq (block [write_inode i, wait_on_inode i]) (ret None)))"

definition get_empty_inode :: "iptr K" where
  "get_empty_inode = bnd (retry_twice
     (bnd (gets (\<lambda>s. scan_inodes NR_INODE s (last_inode s) None)) (\<lambda>(l, r). seq
       (modify (\<lambda>s. s\<lparr>last_inode := l\<rparr>))
       (case r of
          None \<Rightarrow> kpanic ''No free inodes in mem''
        | Some i \<Rightarrow> seq (block [wait_on_inode i, flush_inode i])
            (bnd (gets (\<lambda>s. i_count (inode_table s i))) (\<lambda>c.
              ret (if c \<noteq> 0 then None else Some i)))))))
     (\<lambda>i. seq (block [clear_inode i, modify (upd_inode i (\<lambda>x. x\<lparr>i_count := 1\<rparr>))]) (ret i))"

definition get_pipe_inode :: "iptr option K" where
  "get_pipe_inode = bnd get_empty_inode (\<lambda>i. bnd get_free_page (\<lambda>p. seq
     (modify (upd_inode i (\<lambda>x. x\<lparr>i_size := p\<rparr>)))
     (if p = 0 then seq (modify (upd_inode i (\<lambda>x. x\<lparr>i_count := 0\<rparr>))) (ret None)
      else seq (modify (upd_inode i (\<lambda>x. x\<lparr>i_count := 2, i_zone := (i_zone x)(0 := 0, 1 := 0),
             i_pipe := 1\<rparr>))) (ret (Some i)))))"

definition read_inode :: "iptr \<Rightarrow> unit K" where
  "read_inode i = seq (lock_inode i)
     (bnd (gets (\<lambda>s. i_dev (inode_table s i))) (\<lambda>dev. bnd (get_super dev) (\<lambda>r. case r of
       None \<Rightarrow> kpanic ''trying to read inode without dev''
     | Some sp \<Rightarrow> bnd (gets (\<lambda>s. inode_block (super_blocks s sp) (i_num (inode_table s i)))) (\<lambda>blk.
       bnd (gets (\<lambda>s. i_dev (inode_table s i))) (\<lambda>dev.
       bnd (bread dev blk) (\<lambda>r. case r of
         None \<Rightarrow> kpanic ''unable to read i-node block''
       | Some b \<Rightarrow> block
           [modify (\<lambda>s. upd_inode i (load_d_inode (inode_offset (i_num (inode_table s i)))
              (b_data (bufs s b))) s),
            brelse (Some b),
            unlock_inode i]))))))"

text \<open>
  One pass of \<open>iget\<close> over the table for the device and number it looks for: it starts again for
  the same pair when the inode changed while it waited, and for the root of the mounted file
  system at a mount point.
\<close>

definition iget_round :: "iptr \<Rightarrow> u16 \<times> u16 \<Rightarrow> (u16 \<times> u16 + iptr) K" where
  "iget_round fresh dn = (case dn of (dev, nr) \<Rightarrow>
     bnd (gets (\<lambda>s. first_upto (\<lambda>i. i_dev (inode_table s i) = dev \<and> i_num (inode_table s i) = nr) NR_INODE))
       (\<lambda>r. case r of
         None \<Rightarrow> seq (block
           [modify (upd_inode fresh (\<lambda>x. x\<lparr>i_dev := dev, i_num := nr\<rparr>)), read_inode fresh])
           (ret (Inr fresh))
       | Some i \<Rightarrow> seq (wait_on_inode i) (bnd (gets (\<lambda>s. inode_table s i)) (\<lambda>x.
           if i_dev x \<noteq> dev \<or> i_num x \<noteq> nr then ret (Inl (dev, nr))
           else seq (modify (upd_inode i (\<lambda>x. x\<lparr>i_count := i_count x + 1\<rparr>)))
             (if i_mount x \<noteq> 0
              then bnd (gets (\<lambda>s. first_upto (\<lambda>k. s_imount (super_blocks s k) = Some i) NR_SUPER)) (\<lambda>m.
                case m of
                  None \<Rightarrow> seq (iput (Some fresh)) (ret (Inr i))
                | Some k \<Rightarrow> seq (iput (Some i))
                    (bnd (gets (\<lambda>s. s_dev (super_blocks s k))) (\<lambda>d. ret (Inl (d, ROOT_INO)))))
              else seq (iput (Some fresh)) (ret (Inr i)))))))"

definition iget :: "u16 \<Rightarrow> u16 \<Rightarrow> iptr K" where
  "iget dev nr =
     (if dev = 0 then kpanic ''iget with dev==0''
      else bnd get_empty_inode (\<lambda>fresh.
        with_fuel (\<lambda>n. iter_fuel (n + NR_SUPER + 1) (iget_round fresh) (dev, nr))))"

definition new_inode :: "u16 \<Rightarrow> iptr option K" where
  "new_inode dev = bnd get_empty_inode (\<lambda>i. bnd (get_super dev) (\<lambda>r. case r of
     None \<Rightarrow> kpanic ''new_inode with unknown device''
   | Some sp \<Rightarrow> bnd (gets (\<lambda>s. (find_map s (s_imap (super_blocks s sp)) 0 8, s_ninodes (super_blocks s sp))))
       (\<lambda>(f, n). case f of
         None \<Rightarrow> seq (iput (Some i)) (ret None)
       | Some (k, b, j) \<Rightarrow>
           if j + k * 8192 > unat n then seq (iput (Some i)) (ret None)
           else seq (block
             [modify (upd_buf b (\<lambda>h. h\<lparr>b_data := put_bit True j (b_data h)\<rparr>)),
              modify (upd_buf b (\<lambda>h. h\<lparr>b_dirt := 1\<rparr>)),
              modify (\<lambda>s. upd_inode i (\<lambda>x. x\<lparr>i_count := 1, i_nlinks := 1, i_dev := dev,
                i_uid := euid (cur s), i_gid := ucast (egid (cur s)), i_dirt := 1,
                i_num := of_nat (j + k * 8192), i_mtime := now32 s, i_atime := now32 s,
                i_ctime := now32 s\<rparr>) s)])
             (ret (Some i)))))"

end
