(* ===== verification/Super.thy ===== *)
theory Super
  imports Inode
begin

unbundle bit_operations_syntax

text \<open>
  fs/super.c without the two system calls (they follow in Namei, after the path names), and
  \<open>check_disk_change\<close> of fs/buffer.c.
\<close>

definition SUPER_MAGIC :: u16 where [kconst]: "SUPER_MAGIC = 0x137F"
definition I_MAP_SLOTS :: nat where [kconst]: "I_MAP_SLOTS = 8"
definition Z_MAP_SLOTS :: nat where [kconst]: "Z_MAP_SLOTS = 8"

definition put_super :: "u16 \<Rightarrow> unit K" where
  "put_super dev = bnd (gets (\<lambda>s. dev = ROOT_DEV s)) (\<lambda>isroot.
     if isroot then skip
     else bnd (get_super dev) (\<lambda>r. case r of
       None \<Rightarrow> skip
     | Some i \<Rightarrow> bnd (gets (\<lambda>s. s_imount (super_blocks s i))) (\<lambda>m.
         if m \<noteq> None then skip
         else block
           [lock_super i,
            modify (upd_super i (\<lambda>x. x\<lparr>s_dev := 0\<rparr>)),
            for_each [0..<I_MAP_SLOTS] (\<lambda>k. bnd (gets (\<lambda>s. s_imap (super_blocks s i) k)) brelse),
            for_each [0..<Z_MAP_SLOTS] (\<lambda>k. bnd (gets (\<lambda>s. s_zmap (super_blocks s i) k)) brelse),
            free_super i])))"

definition check_disk_change :: "u16 \<Rightarrow> unit K" where
  "check_disk_change dev =
     (if MAJOR dev \<noteq> 2 then skip
      else bnd (floppy_change (unat (dev AND 3))) (\<lambda>changed.
        if changed = 0 then skip
        else block
          [for_each [0..<NR_SUPER] (\<lambda>i. bnd (gets (\<lambda>s. s_dev (super_blocks s i))) (\<lambda>d.
             guardK (d = dev) (put_super d))),
           invalidate_inodes dev,
           invalidate_buffers dev]))"

text \<open>The fields of \<open>struct d_super_block\<close> in the first bytes of block 1.\<close>

definition load_d_super :: "(nat \<Rightarrow> u8) \<Rightarrow> super_block \<Rightarrow> super_block" where
  "load_d_super d x = x\<lparr>s_ninodes := get16 d 0, s_nzones := get16 d 2, s_imap_blocks := get16 d 4,
     s_zmap_blocks := get16 d 6, s_firstdatazone := get16 d 8, s_log_zone_size := get16 d 10,
     s_max_size := get32 d 12, s_magic := get16 d 16\<rparr>"

text \<open>
  Reading the bitmap blocks into the slots: \<open>put\<close> stores a pointer in a slot, \<open>n\<close> blocks are to be
  read, starting with \<open>blk\<close>; the result is the number of the next block.  The code does not
  check that \<open>n\<close> is at most 8: a ninth block goes past the array.
\<close>

fun read_maps :: "(nat \<Rightarrow> bptr option \<Rightarrow> kernel \<Rightarrow> kernel) \<Rightarrow> u16 \<Rightarrow> nat \<Rightarrow> nat \<Rightarrow> nat \<Rightarrow> nat K" where
  "read_maps put dev k 0 blk = ret blk"
| "read_maps put dev k (Suc n) blk =
     (if k \<ge> 8 then stop Wild
      else bnd (bread dev (of_nat blk)) (\<lambda>r. seq (modify (put k r))
        (case r of None \<Rightarrow> ret blk | Some b \<Rightarrow> read_maps put dev (Suc k) n (Suc blk))))"

definition put_imap :: "sptr \<Rightarrow> nat \<Rightarrow> bptr option \<Rightarrow> kernel \<Rightarrow> kernel" where
  "put_imap i k b = upd_super i (\<lambda>x. x\<lparr>s_imap := (s_imap x)(k := b)\<rparr>)"

definition put_zmap :: "sptr \<Rightarrow> nat \<Rightarrow> bptr option \<Rightarrow> kernel \<Rightarrow> kernel" where
  "put_zmap i k b = upd_super i (\<lambda>x. x\<lparr>s_zmap := (s_zmap x)(k := b)\<rparr>)"

definition abandon_super :: "sptr \<Rightarrow> sptr option K" where
  "abandon_super i = seq (block [modify (upd_super i (\<lambda>x. x\<lparr>s_dev := 0\<rparr>)), free_super i]) (ret None)"

definition mark_first :: "bptr option \<Rightarrow> unit K" where
  "mark_first p = (case p of None \<Rightarrow> stop Wild
   | Some b \<Rightarrow> modify (upd_buf b (\<lambda>h. h\<lparr>b_data := (b_data h)(0 := b_data h 0 OR 1)\<rparr>)))"

definition fill_super :: "u16 \<Rightarrow> sptr \<Rightarrow> sptr option K" where
  "fill_super dev i = seq (block
     [modify (upd_super i (\<lambda>x. x\<lparr>s_dev := dev, s_isup := None, s_imount := None, s_time := 0,
        s_rd_only := 0, s_dirt := 0\<rparr>)),
      lock_super i])
     (bnd (bread dev 1) (\<lambda>r. case r of
       None \<Rightarrow> abandon_super i
     | Some b \<Rightarrow> seq (block
         [modify (\<lambda>s. upd_super i (load_d_super (b_data (bufs s b))) s), brelse (Some b)])
         (bnd (gets (\<lambda>s. super_blocks s i)) (\<lambda>x.
           if s_magic x \<noteq> SUPER_MAGIC then abandon_super i
           else seq (modify (upd_super i (\<lambda>x. x\<lparr>
                  s_imap := (\<lambda>k. if k < I_MAP_SLOTS then None else s_imap x k),
                  s_zmap := (\<lambda>k. if k < Z_MAP_SLOTS then None else s_zmap x k)\<rparr>)))
             (bnd (gets (\<lambda>s. super_blocks s i)) (\<lambda>x.
              bnd (read_maps (put_imap i) dev 0 (unat (s_imap_blocks x)) 2) (\<lambda>b1.
              bnd (read_maps (put_zmap i) dev 0 (unat (s_zmap_blocks x)) b1) (\<lambda>b2.
                if b2 \<noteq> 2 + unat (s_imap_blocks x) + unat (s_zmap_blocks x)
                then seq (block
                  [for_each [0..<I_MAP_SLOTS] (\<lambda>k. bnd (gets (\<lambda>s. s_imap (super_blocks s i) k)) brelse),
                   for_each [0..<Z_MAP_SLOTS] (\<lambda>k. bnd (gets (\<lambda>s. s_zmap (super_blocks s i) k)) brelse)])
                  (abandon_super i)
                else seq (block
                  [bnd (gets (\<lambda>s. s_imap (super_blocks s i) 0)) mark_first,
                   bnd (gets (\<lambda>s. s_zmap (super_blocks s i) 0)) mark_first,
                   free_super i])
                  (ret (Some i))))))))))"

definition read_super :: "u16 \<Rightarrow> sptr option K" where
  "read_super dev =
     (if dev = 0 then ret None
      else seq (check_disk_change dev) (bnd (get_super dev) (\<lambda>r. case r of
        Some i \<Rightarrow> ret (Some i)
      | None \<Rightarrow> bnd (gets (\<lambda>s. first_upto (\<lambda>i. s_dev (super_blocks s i) = 0) NR_SUPER)) (\<lambda>f. case f of
          None \<Rightarrow> ret None
        | Some i \<Rightarrow> fill_super dev i))))"

text \<open>
  \<open>mount_root\<close> (the counts of free blocks and inodes that it prints at the end change nothing;
  \<open>wait_for_keypress\<close> reads the keyboard and is left out).
\<close>

definition mount_root :: "unit K" where
  "mount_root = seq (block
     [for_each [0..<NR_FILE] (\<lambda>k. modify (upd_file k (\<lambda>f. f\<lparr>f_count := 0\<rparr>))),
      for_each [0..<NR_SUPER] (\<lambda>k. modify (upd_super k (\<lambda>x. x\<lparr>s_dev := 0, s_lock := 0, s_wait := None\<rparr>)))])
     (bnd (gets ROOT_DEV) (\<lambda>dev. bnd (read_super dev) (\<lambda>r. case r of
       None \<Rightarrow> kpanic ''Unable to mount root''
     | Some p \<Rightarrow> bnd (gets ROOT_DEV) (\<lambda>dev. bnd (iget dev ROOT_INO) (\<lambda>mi. block
         [modify (upd_inode mi (\<lambda>x. x\<lparr>i_count := i_count x + 3\<rparr>)),
          modify (upd_super p (\<lambda>x. x\<lparr>s_isup := Some mi, s_imount := Some mi\<rparr>)),
          modify (\<lambda>s. upd_cur (\<lambda>t. t\<lparr>pwd := Some mi, root := Some mi\<rparr>) s)])))))"

end
