(* ===== verification/Namei.thy ===== *)
theory Namei
  imports Super
begin

unbundle bit_operations_syntax

text \<open>
  fs/namei.c: permissions, directories and path names.  A path name is an address in the user
  space of the running task, and it is read a byte at a time as the code does.
\<close>

definition NAME_LEN :: nat where [kconst]: "NAME_LEN = 14"
definition MAY_EXEC :: u32 where [kconst]: "MAY_EXEC = 1"
definition MAY_WRITE :: u32 where [kconst]: "MAY_WRITE = 2"
definition MAY_READ :: u32 where [kconst]: "MAY_READ = 4"
definition I_DIRECTORY :: u16 where [kconst]: "I_DIRECTORY = 0x4000"
definition I_REGULAR :: u16 where [kconst]: "I_REGULAR = 0x8000"
definition S_ISVTX :: u16 where [kconst]: "S_ISVTX = 0x200"
definition O_ACCMODE :: u32 where [kconst]: "O_ACCMODE = 3"
definition O_WRONLY :: u32 where [kconst]: "O_WRONLY = 1"
definition O_CREAT :: u32 where [kconst]: "O_CREAT = 0x40"
definition O_EXCL :: u32 where [kconst]: "O_EXCL = 0x80"
definition O_TRUNC :: u32 where [kconst]: "O_TRUNC = 0x200"

text \<open>\<open>"\004\002\006\377"[flag & 3]\<close>; the last character is \<open>- 1\<close>.\<close>

definition ACC_MODE :: "u32 \<Rightarrow> u32" where
  "ACC_MODE flag = [4, 2, 6, - 1] ! unat (flag AND O_ACCMODE)"

definition get_fs_byte :: "kernel \<Rightarrow> u32 \<Rightarrow> u8" where
  "get_fs_byte s a = umem s a"

subsection \<open>Permissions\<close>

definition permission :: "kernel \<Rightarrow> iptr \<Rightarrow> u32 \<Rightarrow> bool" where
  "permission s i msk =
     (let x = inode_table s i; m = ucast (i_mode x) :: u32;
          mode = (if euid (cur s) = i_uid x then drop_bit 6 m
                  else if egid (cur s) = ucast (i_gid x) then drop_bit 3 m else m)
      in if i_dev x \<noteq> 0 \<and> i_nlinks x = 0 then False
         else mode AND msk AND 7 = msk \<or> suser s)"

subsection \<open>Directory entries\<close>

text \<open>
  A directory entry is 16 bytes at offset \<open>a\<close> of a block: the inode number and 14 bytes of name.
\<close>

definition de_inode :: "(nat \<Rightarrow> u8) \<Rightarrow> nat \<Rightarrow> u16" where
  "de_inode d a = get16 d a"

definition match :: "kernel \<Rightarrow> nat \<Rightarrow> u32 \<Rightarrow> (nat \<Rightarrow> u8) \<Rightarrow> nat \<Rightarrow> bool" where
  "match s len name d a =
     (if de_inode d a = 0 \<or> len > NAME_LEN then False
      else if len < NAME_LEN \<and> d (a + 2 + len) \<noteq> 0 then False
      else list_all (\<lambda>k. get_fs_byte s (name + of_nat k) = d (a + 2 + k)) [0..<len])"

text \<open>
  \<open>'..'\<close> in the root of the task stays there, and in the root of a mounted file system it goes to
  the directory it is mounted on.
\<close>

definition dotdot :: "iptr \<Rightarrow> u32 \<Rightarrow> nat \<Rightarrow> (iptr \<times> nat) K" where
  "dotdot dir name len = bnd (gets (\<lambda>s. len = 2 \<and> get_fs_byte s name = 0x2E \<and> get_fs_byte s (name + 1) = 0x2E))
     (\<lambda>dd. if \<not> dd then ret (dir, len)
       else bnd (gets (\<lambda>s. (root (cur s) = Some dir, inode_table s dir))) (\<lambda>(isroot, x).
         if isroot then ret (dir, 1)
         else if i_num x = ROOT_INO
         then bnd (get_super (i_dev x)) (\<lambda>r. case r of
             None \<Rightarrow> stop Wild
           | Some sp \<Rightarrow> bnd (gets (\<lambda>s. s_imount (super_blocks s sp))) (\<lambda>m.
               if m = None then ret (dir, len)
               else seq (iput (Some dir)) (bnd (gets (\<lambda>s. s_imount (super_blocks s sp))) (\<lambda>m. case m of
                 None \<Rightarrow> stop Wild
               | Some d \<Rightarrow> seq (modify (upd_inode d (\<lambda>x. x\<lparr>i_count := i_count x + 1\<rparr>))) (ret (d, len))))))
         else ret (dir, len)))"

text \<open>
  The loop of \<open>find_entry\<close>: the number \<open>i\<close> of the entry and its place, a buffer and an offset.
  After a block that cannot be read the place is \<open>None\<close>: \<open>de\<close> still points past the last block,
  which the next round takes as the end of a block again.
\<close>

definition next_dir_block :: "iptr \<Rightarrow> nat \<Rightarrow> (bptr \<times> nat) option K" where
  "next_dir_block dir i = bnd (bmap dir (int (i div 64))) (\<lambda>z.
     if z = 0 then ret None
     else bnd (gets (\<lambda>s. i_dev (inode_table s dir))) (\<lambda>dev. bnd (bread dev (of_nat z)) (\<lambda>r.
       ret (case r of None \<Rightarrow> None | Some b \<Rightarrow> Some (b, 0)))))"

definition find_round :: "iptr \<Rightarrow> u32 \<Rightarrow> nat \<Rightarrow> nat \<Rightarrow> nat \<times> (bptr \<times> nat) option \<Rightarrow>
    (nat \<times> (bptr \<times> nat) option + (bptr \<times> nat) option) K" where
  "find_round dir name len entries st = (case st of (i, place) \<Rightarrow>
     if i \<ge> entries then seq (brelse (map_option fst place)) (ret (Inr None))
     else bnd (case place of
         None \<Rightarrow> next_dir_block dir i
       | Some (b, off) \<Rightarrow>
           if off \<ge> 1024 then seq (brelse (Some b)) (next_dir_block dir i) else ret (Some (b, off)))
       (\<lambda>place. case place of
         None \<Rightarrow> ret (Inl (i + 64, None))
       | Some (b, off) \<Rightarrow> bnd (gets (\<lambda>s. match s len name (b_data (bufs s b)) off)) (\<lambda>m.
           ret (if m then Inr (Some (b, off)) else Inl (i + 1, Some (b, off + 16))))))"

text \<open>The directory (it may have changed at a mount point) and the place of the entry.\<close>

definition find_entry :: "iptr \<Rightarrow> u32 \<Rightarrow> nat \<Rightarrow> (iptr \<times> (bptr \<times> nat) option) K" where
  "find_entry dir name namelen =
     (let len = (if namelen > NAME_LEN then NAME_LEN else namelen) in
      bnd (gets (\<lambda>s. unat (i_size (inode_table s dir)) div 16)) (\<lambda>entries.
        if len = 0 then ret (dir, None)
        else bnd (dotdot dir name len) (\<lambda>(dir, len).
          bnd (gets (\<lambda>s. inode_table s dir)) (\<lambda>x.
            if i_zone x 0 = 0 then ret (dir, None)
            else bnd (bread (i_dev x) (ucast (i_zone x 0))) (\<lambda>r. case r of
              None \<Rightarrow> ret (dir, None)
            | Some b \<Rightarrow> bnd (iter_fuel (Suc entries) (find_round dir name len entries) (0, Some (b, 0)))
                (\<lambda>e. ret (dir, e)))))))"

definition copy_name :: "kernel \<Rightarrow> u32 \<Rightarrow> nat \<Rightarrow> nat \<Rightarrow> (nat \<Rightarrow> u8) \<Rightarrow> (nat \<Rightarrow> u8)" where
  "copy_name s name len a d = (\<lambda>k.
     if a + 2 \<le> k \<and> k < a + 2 + NAME_LEN
     then if k - (a + 2) < len then get_fs_byte s (name + of_nat (k - (a + 2))) else 0
     else d k)"

definition add_round :: "iptr \<Rightarrow> u32 \<Rightarrow> nat \<Rightarrow> nat \<times> (bptr \<times> nat) option \<Rightarrow>
    (nat \<times> (bptr \<times> nat) option + (bptr \<times> nat) option) K" where
  "add_round dir name len st = (case st of (i, place) \<Rightarrow>
     bnd (case place of
         Some (b, off) \<Rightarrow> if off < 1024 then ret (Inl (Some (b, off)))
           else seq (brelse (Some b)) (ret (Inr ()))
       | None \<Rightarrow> ret (Inr ())) (\<lambda>end_of_block.
     bnd (case end_of_block of
         Inl p \<Rightarrow> ret (Some p)
       | Inr _ \<Rightarrow> bnd (create_block dir (int (i div 64))) (\<lambda>z.
           if z = 0 then ret None
           else bnd (gets (\<lambda>s. i_dev (inode_table s dir))) (\<lambda>dev. bnd (bread dev (of_nat z)) (\<lambda>r.
             ret (Some (case r of None \<Rightarrow> None | Some b \<Rightarrow> Some (b, 0))))))) (\<lambda>p. case p of
       None \<Rightarrow> ret (Inr None)
     | Some None \<Rightarrow> ret (Inl (i + 64, None))
     | Some (Some (b, off)) \<Rightarrow> seq
         (modify (\<lambda>s. if i * 16 \<ge> unat (i_size (inode_table s dir))
            then upd_inode dir (\<lambda>x. x\<lparr>i_size := of_nat ((i + 1) * 16), i_dirt := 1, i_ctime := now32 s\<rparr>)
                   (upd_buf b (\<lambda>h. h\<lparr>b_data := put16 (b_data h) off 0\<rparr>) s)
            else s))
         (bnd (gets (\<lambda>s. de_inode (b_data (bufs s b)) off)) (\<lambda>ino.
           if ino \<noteq> 0 then ret (Inl (i + 1, Some (b, off + 16)))
           else seq (block
             [modify (\<lambda>s. upd_inode dir (\<lambda>x. x\<lparr>i_mtime := now32 s\<rparr>) s),
              modify (\<lambda>s. upd_buf b (\<lambda>h. h\<lparr>b_data := copy_name s name len off (b_data h), b_dirt := 1\<rparr>) s)])
             (ret (Inr (Some (b, off)))))))))"

text \<open>
  \<open>create_block\<close> panics past block 262663, so the loop ends after at most 64 entries of each.
\<close>

definition add_entry :: "iptr \<Rightarrow> u32 \<Rightarrow> nat \<Rightarrow> (bptr \<times> nat) option K" where
  "add_entry dir name namelen =
     (let len = (if namelen > NAME_LEN then NAME_LEN else namelen) in
      if len = 0 then ret None
      else bnd (gets (\<lambda>s. inode_table s dir)) (\<lambda>x.
        if i_zone x 0 = 0 then ret None
        else bnd (bread (i_dev x) (ucast (i_zone x 0))) (\<lambda>r. case r of
          None \<Rightarrow> ret None
        | Some b \<Rightarrow> iter_fuel (64 * 262665) (add_round dir name len) (0, Some (b, 0)))))"

subsection \<open>Path names\<close>

text \<open>
  The number of bytes from \<open>p\<close> to the first one that ends a loop over a user string; the
  addresses wrap around, so after \<open>2 ^ 32\<close> bytes without one the loop never ends.
\<close>

fun scan_until :: "nat \<Rightarrow> (u32 \<Rightarrow> u8) \<Rightarrow> (u8 \<Rightarrow> bool) \<Rightarrow> u32 \<Rightarrow> nat option" where
  "scan_until 0 m P p = None"
| "scan_until (Suc n) m P p = (if P (m p) then Some 0 else map_option Suc (scan_until n m P (p + 1)))"

definition user_scan :: "(u8 \<Rightarrow> bool) \<Rightarrow> u32 \<Rightarrow> nat K" where
  "user_scan P p = bnd (gets (\<lambda>s. scan_until 4294967296 (umem s) P p)) (\<lambda>r.
     case r of None \<Rightarrow> stop Hung | Some n \<Rightarrow> ret n)"

definition get_dir_round :: "iptr \<times> u32 \<Rightarrow> (iptr \<times> u32 + iptr option) K" where
  "get_dir_round st = (case st of (i, path) \<Rightarrow>
     bnd (gets (\<lambda>s. \<not> S_ISDIR (i_mode (inode_table s i)) \<or> \<not> permission s i MAY_EXEC)) (\<lambda>bad.
       if bad then seq (iput (Some i)) (ret (Inr None))
       else bnd (user_scan (\<lambda>c. c = 0 \<or> c = 0x2F) path) (\<lambda>len.
         bnd (gets (\<lambda>s. get_fs_byte s (path + of_nat len))) (\<lambda>c.
           if c = 0 then ret (Inr (Some i))
           else bnd (find_entry i path len) (\<lambda>(i, e). case e of
             None \<Rightarrow> seq (iput (Some i)) (ret (Inr None))
           | Some (b, off) \<Rightarrow> bnd (gets (\<lambda>s. (de_inode (b_data (bufs s b)) off, i_dev (inode_table s i))))
               (\<lambda>(inr, idev). seq (block [brelse (Some b), iput (Some i)])
                 (bnd (iget idev inr) (\<lambda>j. ret (Inl (j, path + of_nat len + 1))))))))))"

definition get_dir :: "u32 \<Rightarrow> iptr option K" where
  "get_dir pathname =
     bnd (gets (\<lambda>s. case root (cur s) of None \<Rightarrow> True | Some i \<Rightarrow> i_count (inode_table s i) = 0)) (\<lambda>noroot.
     bnd (gets (\<lambda>s. case pwd (cur s) of None \<Rightarrow> True | Some i \<Rightarrow> i_count (inode_table s i) = 0)) (\<lambda>nopwd.
     if noroot then kpanic ''No root inode''
     else if nopwd then kpanic ''No cwd inode''
     else bnd (gets (\<lambda>s. (get_fs_byte s pathname, root (cur s), pwd (cur s)))) (\<lambda>(c, rt, wd).
       if c = 0 then ret None
       else let start = the (if c = 0x2F then rt else wd);
                path = (if c = 0x2F then pathname + 1 else pathname)
         in seq (modify (upd_inode start (\<lambda>x. x\<lparr>i_count := i_count x + 1\<rparr>)))
              (iter_fuel 4294967296 get_dir_round (start, path)))))"

definition dir_namei :: "u32 \<Rightarrow> (iptr \<times> nat \<times> u32) option K" where
  "dir_namei pathname = bnd (get_dir pathname) (\<lambda>r. case r of
     None \<Rightarrow> ret None
   | Some dir \<Rightarrow> bnd (user_scan (\<lambda>c. c = 0) pathname) (\<lambda>n.
       bnd (gets (\<lambda>s. last_below (\<lambda>k. get_fs_byte s (pathname + of_nat k) = 0x2F) n)) (\<lambda>sl.
         let base = (case sl of None \<Rightarrow> 0 | Some k \<Rightarrow> Suc k) in
         ret (Some (dir, n - base, pathname + of_nat base)))))"

definition namei :: "u32 \<Rightarrow> iptr option K" where
  "namei pathname = bnd (dir_namei pathname) (\<lambda>r. case r of
     None \<Rightarrow> ret None
   | Some (dir, namelen, basename) \<Rightarrow>
       if namelen = 0 then ret (Some dir)
       else bnd (find_entry dir basename namelen) (\<lambda>(dir, e). case e of
         None \<Rightarrow> seq (iput (Some dir)) (ret None)
       | Some (b, off) \<Rightarrow> bnd (gets (\<lambda>s. (de_inode (b_data (bufs s b)) off, i_dev (inode_table s dir))))
           (\<lambda>(inr, dev). seq (block [brelse (Some b), iput (Some dir)])
             (bnd (iget dev inr) (\<lambda>i. seq
               (modify (\<lambda>s. upd_inode i (\<lambda>x. x\<lparr>i_atime := now32 s, i_dirt := 1\<rparr>) s))
               (ret (Some i)))))))"

subsection \<open>Opening and making files\<close>

definition set_entry :: "bptr \<Rightarrow> nat \<Rightarrow> u16 \<Rightarrow> unit K" where
  "set_entry b off ino = modify (upd_buf b (\<lambda>h. h\<lparr>b_data := put16 (b_data h) off ino, b_dirt := 1\<rparr>))"

definition put_both :: "iptr \<Rightarrow> iptr \<Rightarrow> int \<Rightarrow> int K" where
  "put_both i j e = seq (block [iput (Some i), iput (Some j)]) (ret e)"

definition new_mode :: "kernel \<Rightarrow> u32 \<Rightarrow> u16" where
  "new_mode s mode = ucast (mode AND 0x1FF) AND NOT (umask (cur s))"

text \<open>The branch of \<open>open_namei\<close> for a file that does not exist yet.\<close>

definition open_create :: "u32 \<Rightarrow> u16 \<Rightarrow> iptr \<Rightarrow> u32 \<Rightarrow> nat \<Rightarrow> (int + iptr) K" where
  "open_create flag mode dir basename namelen =
     (if flag AND O_CREAT = 0 then seq (iput (Some dir)) (ret (Inl (- ENOENT)))
      else bnd (gets (\<lambda>s. permission s dir MAY_WRITE)) (\<lambda>ok.
        if \<not> ok then seq (iput (Some dir)) (ret (Inl (- EACCES)))
        else bnd (gets (\<lambda>s. i_dev (inode_table s dir))) (\<lambda>dev. bnd (new_inode dev) (\<lambda>r. case r of
          None \<Rightarrow> seq (iput (Some dir)) (ret (Inl (- ENOSPC)))
        | Some i \<Rightarrow> seq (modify (\<lambda>s. upd_inode i (\<lambda>x. x\<lparr>i_uid := euid (cur s), i_mode := mode, i_dirt := 1\<rparr>) s))
            (bnd (add_entry dir basename namelen) (\<lambda>e. case e of
              None \<Rightarrow> seq (block
                [modify (upd_inode i (\<lambda>x. x\<lparr>i_nlinks := i_nlinks x - 1\<rparr>)),
                 iput (Some i), iput (Some dir)]) (ret (Inl (- ENOSPC)))
            | Some (b, off) \<Rightarrow> bnd (gets (\<lambda>s. i_num (inode_table s i))) (\<lambda>num. seq (block
                [set_entry b off num, brelse (Some b), iput (Some dir)])
                (ret (Inr i)))))))))"

definition open_namei :: "u32 \<Rightarrow> u32 \<Rightarrow> u32 \<Rightarrow> (int + iptr) K" where
  "open_namei pathname flag0 mode0 =
     (let flag = (if flag0 AND O_TRUNC \<noteq> 0 \<and> flag0 AND O_ACCMODE = 0 then flag0 OR O_WRONLY else flag0) in
      bnd (gets (\<lambda>s. new_mode s mode0 OR I_REGULAR)) (\<lambda>mode.
      bnd (dir_namei pathname) (\<lambda>r. case r of
        None \<Rightarrow> ret (Inl (- ENOENT))
      | Some (dir, namelen, basename) \<Rightarrow>
          if namelen = 0
          then if flag AND (O_ACCMODE OR O_CREAT OR O_TRUNC) = 0 then ret (Inr dir)
               else seq (iput (Some dir)) (ret (Inl (- EISDIR)))
          else bnd (find_entry dir basename namelen) (\<lambda>(dir, e). case e of
            None \<Rightarrow> open_create flag mode dir basename namelen
          | Some (b, off) \<Rightarrow> bnd (gets (\<lambda>s. (de_inode (b_data (bufs s b)) off, i_dev (inode_table s dir))))
              (\<lambda>(inr, dev). seq (block [brelse (Some b), iput (Some dir)])
                (if flag AND O_EXCL \<noteq> 0 then ret (Inl (- EEXIST))
                 else bnd (iget dev inr) (\<lambda>i.
                   bnd (gets (\<lambda>s. S_ISDIR (i_mode (inode_table s i)) \<and> flag AND O_ACCMODE \<noteq> 0 \<or>
                                  \<not> permission s i (ACC_MODE flag))) (\<lambda>bad.
                     if bad then seq (iput (Some i)) (ret (Inl (- EPERM)))
                     else seq (block
                       [modify (\<lambda>s. upd_inode i (\<lambda>x. x\<lparr>i_atime := now32 s\<rparr>) s),
                        guardK (flag AND O_TRUNC \<noteq> 0) (truncate i)])
                       (ret (Inr i))))))))))"

text \<open>What \<open>sys_mknod\<close>, \<open>sys_mkdir\<close>, \<open>sys_rmdir\<close> and \<open>sys_unlink\<close> do first.\<close>

definition writable_dir :: "u32 \<Rightarrow> (int + iptr \<times> nat \<times> u32) K" where
  "writable_dir path = bnd (dir_namei path) (\<lambda>r. case r of
     None \<Rightarrow> ret (Inl (- ENOENT))
   | Some (dir, namelen, basename) \<Rightarrow>
       if namelen = 0 then seq (iput (Some dir)) (ret (Inl (- ENOENT)))
       else bnd (gets (\<lambda>s. permission s dir MAY_WRITE)) (\<lambda>ok.
         if ok then ret (Inr (dir, namelen, basename))
         else seq (iput (Some dir)) (ret (Inl (- EPERM)))))"

text \<open>The part of \<open>sys_mknod\<close> and \<open>sys_mkdir\<close> up to the new inode.\<close>

definition fresh_inode :: "u32 \<Rightarrow> (int + iptr \<times> nat \<times> u32 \<times> iptr) K" where
  "fresh_inode path = bnd (gets suser) (\<lambda>su.
     if \<not> su then ret (Inl (- EPERM))
     else bnd (writable_dir path) (\<lambda>w. case w of
       Inl e \<Rightarrow> ret (Inl e)
     | Inr (dir, namelen, basename) \<Rightarrow> bnd (find_entry dir basename namelen) (\<lambda>(dir, e). case e of
         Some (b, off) \<Rightarrow> seq (block [brelse (Some b), iput (Some dir)]) (ret (Inl (- EEXIST)))
       | None \<Rightarrow> bnd (gets (\<lambda>s. i_dev (inode_table s dir))) (\<lambda>dev. bnd (new_inode dev) (\<lambda>r. case r of
           None \<Rightarrow> seq (iput (Some dir)) (ret (Inl (- ENOSPC)))
         | Some i \<Rightarrow> ret (Inr (dir, namelen, basename, i)))))))"

definition sys_mknod :: "u32 \<Rightarrow> u16 \<Rightarrow> u16 \<Rightarrow> int K" where
  "sys_mknod filename mode dev = bnd (fresh_inode filename) (\<lambda>w. case w of
     Inl e \<Rightarrow> ret e
   | Inr (dir, namelen, basename, i) \<Rightarrow> seq (block
       [modify (upd_inode i (\<lambda>x. x\<lparr>i_mode := mode\<rparr>)),
        guardK (S_ISBLK mode \<or> S_ISCHR mode) (modify (upd_inode i (\<lambda>x. x\<lparr>i_zone := (i_zone x)(0 := dev)\<rparr>))),
        modify (\<lambda>s. upd_inode i (\<lambda>x. x\<lparr>i_mtime := now32 s, i_atime := now32 s, i_dirt := 1\<rparr>) s)])
       (bnd (add_entry dir basename namelen) (\<lambda>e. case e of
         None \<Rightarrow> seq (block
           [iput (Some dir), modify (upd_inode i (\<lambda>x. x\<lparr>i_nlinks := 0\<rparr>)), iput (Some i)]) (ret (- ENOSPC))
       | Some (b, off) \<Rightarrow> bnd (gets (\<lambda>s. i_num (inode_table s i))) (\<lambda>num. seq (block
           [set_entry b off num, iput (Some dir), iput (Some i), brelse (Some b)]) (ret 0)))))"

text \<open>The first two entries of a new directory.\<close>

definition dot_entries :: "u16 \<Rightarrow> u16 \<Rightarrow> (nat \<Rightarrow> u8) \<Rightarrow> (nat \<Rightarrow> u8)" where
  "dot_entries self parent d =
     (put16 ((put16 d 0 self)(2 := 0x2E, 3 := 0)) 16 parent)(18 := 0x2E, 19 := 0x2E, 20 := 0)"

definition sys_mkdir :: "u32 \<Rightarrow> u32 \<Rightarrow> int K" where
  "sys_mkdir pathname mode = bnd (fresh_inode pathname) (\<lambda>w. case w of
     Inl e \<Rightarrow> ret e
   | Inr (dir, namelen, basename, i) \<Rightarrow> seq
       (modify (\<lambda>s. upd_inode i (\<lambda>x. x\<lparr>i_size := 32, i_dirt := 1, i_mtime := now32 s, i_atime := now32 s\<rparr>) s))
       (bnd (gets (\<lambda>s. i_dev (inode_table s i))) (\<lambda>dev. bnd (new_block dev) (\<lambda>z. seq
         (modify (upd_inode i (\<lambda>x. x\<lparr>i_zone := (i_zone x)(0 := of_nat z)\<rparr>)))
         (if z = 0
          then seq (block
            [iput (Some dir), modify (upd_inode i (\<lambda>x. x\<lparr>i_nlinks := i_nlinks x - 1\<rparr>)), iput (Some i)])
            (ret (- ENOSPC))
          else seq (modify (upd_inode i (\<lambda>x. x\<lparr>i_dirt := 1\<rparr>)))
            (bnd (gets (\<lambda>s. inode_table s i)) (\<lambda>x. bnd (bread (i_dev x) (ucast (i_zone x 0))) (\<lambda>r. case r of
              None \<Rightarrow> seq (block
                [iput (Some dir),
                 bnd (gets (\<lambda>s. inode_table s i)) (\<lambda>x. free_block (i_dev x) (unat (i_zone x 0))),
                 modify (upd_inode i (\<lambda>x. x\<lparr>i_nlinks := i_nlinks x - 1\<rparr>)),
                 iput (Some i)]) (ret (- ERROR))
            | Some db \<Rightarrow> seq (block
                [modify (\<lambda>s. upd_buf db (\<lambda>h. h\<lparr>b_data := dot_entries (i_num (inode_table s i))
                   (i_num (inode_table s dir)) (b_data h)\<rparr>) s),
                 modify (upd_inode i (\<lambda>x. x\<lparr>i_nlinks := 2\<rparr>)),
                 modify (upd_buf db (\<lambda>h. h\<lparr>b_dirt := 1\<rparr>)),
                 brelse (Some db),
                 modify (\<lambda>s. upd_inode i (\<lambda>x. x\<lparr>i_mode := I_DIRECTORY OR new_mode s mode, i_dirt := 1\<rparr>) s)])
                (bnd (add_entry dir basename namelen) (\<lambda>e. case e of
                  None \<Rightarrow> seq (block
                    [iput (Some dir),
                     bnd (gets (\<lambda>s. inode_table s i)) (\<lambda>x. free_block (i_dev x) (unat (i_zone x 0))),
                     modify (upd_inode i (\<lambda>x. x\<lparr>i_nlinks := 0\<rparr>)),
                     iput (Some i)]) (ret (- ENOSPC))
                | Some (b, off) \<Rightarrow> bnd (gets (\<lambda>s. i_num (inode_table s i))) (\<lambda>num. seq (block
                    [set_entry b off num,
                     modify (upd_inode dir (\<lambda>x. x\<lparr>i_nlinks := i_nlinks x + 1, i_dirt := 1\<rparr>)),
                     iput (Some dir), iput (Some i), brelse (Some b)]) (ret 0))))))))))))"

subsection \<open>Removing and linking\<close>

text \<open>
  The loop of \<open>empty_dir\<close>: when a block of the directory has no zone, the next round releases
  the previous buffer once more.
\<close>

definition empty_round :: "iptr \<Rightarrow> nat \<Rightarrow> nat \<times> bptr \<times> nat \<Rightarrow> (nat \<times> bptr \<times> nat + bool) K" where
  "empty_round i len st = (case st of (nr, b, off) \<Rightarrow>
     if nr \<ge> len then seq (brelse (Some b)) (ret (Inr True))
     else bnd (if off < 1024 then ret (Inl (b, off))
        else seq (brelse (Some b)) (bnd (bmap i (int (nr div 64))) (\<lambda>z.
          if z = 0 then ret (Inr (Inl (nr + 64, b, off)))
          else bnd (gets (\<lambda>s. i_dev (inode_table s i))) (\<lambda>dev. bnd (bread dev (of_nat z)) (\<lambda>r.
            ret (case r of None \<Rightarrow> Inr (Inr False) | Some b' \<Rightarrow> Inl (b', 0))))))) (\<lambda>p. case p of
       Inr out \<Rightarrow> ret out
     | Inl (b, off) \<Rightarrow> bnd (gets (\<lambda>s. de_inode (b_data (bufs s b)) off)) (\<lambda>ino.
         if ino \<noteq> 0 then seq (brelse (Some b)) (ret (Inr False))
         else ret (Inl (nr + 1, b, off + 16)))))"

definition empty_dir :: "iptr \<Rightarrow> bool K" where
  "empty_dir i = bnd (gets (\<lambda>s. inode_table s i)) (\<lambda>x.
     let len = unat (i_size x) div 16 in
     if len < 2 \<or> i_zone x 0 = 0 then ret False
     else bnd (bread (i_dev x) (ucast (i_zone x 0))) (\<lambda>r. case r of
       None \<Rightarrow> ret False
     | Some b \<Rightarrow> bnd (gets (\<lambda>s. (b_data (bufs s b), i_num (inode_table s i)))) (\<lambda>(d, num).
         if de_inode d 0 \<noteq> num \<or> de_inode d 16 = 0 \<or> \<not> (d 2 = 0x2E \<and> d 3 = 0) \<or>
            \<not> (d 18 = 0x2E \<and> d 19 = 0x2E \<and> d 20 = 0)
         then ret False
         else iter_fuel (Suc len) (empty_round i len) (2, b, 32))))"

text \<open>The entry to remove and its inode: the common start of \<open>sys_rmdir\<close> and \<open>sys_unlink\<close>.\<close>

definition target_entry :: "u32 \<Rightarrow> (int + iptr \<times> bptr \<times> nat \<times> iptr) K" where
  "target_entry path = bnd (writable_dir path) (\<lambda>w. case w of
     Inl e \<Rightarrow> ret (Inl e)
   | Inr (dir, namelen, basename) \<Rightarrow> bnd (find_entry dir basename namelen) (\<lambda>(dir, e). case e of
       None \<Rightarrow> seq (iput (Some dir)) (ret (Inl (- ENOENT)))
     | Some (b, off) \<Rightarrow> bnd (gets (\<lambda>s. (i_dev (inode_table s dir), de_inode (b_data (bufs s b)) off)))
         (\<lambda>(dev, ino). bnd (iget dev ino) (\<lambda>i. ret (Inr (dir, b, off, i))))))"

definition drop_three :: "iptr \<Rightarrow> iptr \<Rightarrow> bptr \<Rightarrow> int \<Rightarrow> int K" where
  "drop_three i j b e = seq (block [iput (Some i), iput (Some j), brelse (Some b)]) (ret e)"

definition sys_rmdir :: "u32 \<Rightarrow> int K" where
  "sys_rmdir name = bnd (gets suser) (\<lambda>su.
     if \<not> su then ret (- EPERM)
     else bnd (target_entry name) (\<lambda>w. case w of
       Inl e \<Rightarrow> ret e
     | Inr (dir, b, off, i) \<Rightarrow> bnd (gets (\<lambda>s. s)) (\<lambda>s.
         let x = inode_table s i; d = inode_table s dir in
         if i_mode d AND S_ISVTX \<noteq> 0 \<and> euid (cur s) \<noteq> 0 \<and> i_uid x \<noteq> euid (cur s)
         then drop_three dir i b (- EPERM)
         else if i_dev x \<noteq> i_dev d \<or> i_count x > 1 then drop_three dir i b (- EPERM)
         else if i = dir then drop_three i dir b (- EPERM)
         else if \<not> S_ISDIR (i_mode x) then drop_three i dir b (- ENOTDIR)
         else bnd (empty_dir i) (\<lambda>em.
           if \<not> em then drop_three i dir b (- ENOTEMPTY)
           else seq (block
             [set_entry b off 0, brelse (Some b),
              modify (upd_inode i (\<lambda>x. x\<lparr>i_nlinks := 0, i_dirt := 1\<rparr>)),
              modify (\<lambda>s. upd_inode dir (\<lambda>x. x\<lparr>i_nlinks := i_nlinks x - 1, i_ctime := now32 s,
                i_mtime := now32 s, i_dirt := 1\<rparr>) s),
              iput (Some dir), iput (Some i)]) (ret 0)))))"

definition sys_unlink :: "u32 \<Rightarrow> int K" where
  "sys_unlink name = bnd (target_entry name) (\<lambda>w. case w of
     Inl e \<Rightarrow> ret e
   | Inr (dir, b, off, i) \<Rightarrow> bnd (gets (\<lambda>s. s)) (\<lambda>s.
       let x = inode_table s i; d = inode_table s dir in
       if i_mode d AND S_ISVTX \<noteq> 0 \<and> \<not> suser s \<and> euid (cur s) \<noteq> i_uid x \<and> euid (cur s) \<noteq> i_uid d
       then drop_three dir i b (- EPERM)
       else if S_ISDIR (i_mode x) then drop_three i dir b (- EPERM)
       else seq (block
         [guardK (i_nlinks x = 0) (modify (upd_inode i (\<lambda>x. x\<lparr>i_nlinks := 1\<rparr>))),
          set_entry b off 0, brelse (Some b),
          modify (\<lambda>s. upd_inode i (\<lambda>x. x\<lparr>i_nlinks := i_nlinks x - 1, i_dirt := 1, i_ctime := now32 s\<rparr>) s),
          iput (Some i), iput (Some dir)]) (ret 0)))"

definition sys_link :: "u32 \<Rightarrow> u32 \<Rightarrow> int K" where
  "sys_link oldname newname = bnd (namei oldname) (\<lambda>r. case r of
     None \<Rightarrow> ret (- ENOENT)
   | Some old \<Rightarrow> bnd (gets (\<lambda>s. S_ISDIR (i_mode (inode_table s old)))) (\<lambda>isdir.
       if isdir then seq (iput (Some old)) (ret (- EPERM))
       else bnd (dir_namei newname) (\<lambda>r. case r of
         None \<Rightarrow> seq (iput (Some old)) (ret (- EACCES))
       | Some (dir, namelen, basename) \<Rightarrow>
           if namelen = 0 then put_both old dir (- EPERM)
           else bnd (gets (\<lambda>s. i_dev (inode_table s dir) \<noteq> i_dev (inode_table s old))) (\<lambda>xdev.
             if xdev then put_both dir old (- EXDEV)
             else bnd (gets (\<lambda>s. permission s dir MAY_WRITE)) (\<lambda>ok.
               if \<not> ok then put_both dir old (- EACCES)
               else bnd (find_entry dir basename namelen) (\<lambda>(dir, e). case e of
                 Some (b, off) \<Rightarrow> seq (brelse (Some b)) (put_both dir old (- EEXIST))
               | None \<Rightarrow> bnd (add_entry dir basename namelen) (\<lambda>e. case e of
                   None \<Rightarrow> put_both dir old (- ENOSPC)
                 | Some (b, off) \<Rightarrow> bnd (gets (\<lambda>s. i_num (inode_table s old))) (\<lambda>num. seq (block
                     [set_entry b off num, brelse (Some b), iput (Some dir),
                      modify (\<lambda>s. upd_inode old (\<lambda>x. x\<lparr>i_nlinks := i_nlinks x + 1, i_ctime := now32 s,
                        i_dirt := 1\<rparr>) s),
                      iput (Some old)]) (ret 0)))))))))"

subsection \<open>Mounting (fs/super.c)\<close>

definition sys_umount :: "u32 \<Rightarrow> int K" where
  "sys_umount dev_name = bnd (namei dev_name) (\<lambda>r. case r of
     None \<Rightarrow> ret (- ENOENT)
   | Some i \<Rightarrow> bnd (gets (\<lambda>s. inode_table s i)) (\<lambda>x. let dev = i_zone x 0 in
       if \<not> S_ISBLK (i_mode x) then seq (iput (Some i)) (ret (- ENOTBLK))
       else seq (iput (Some i)) (bnd (gets ROOT_DEV) (\<lambda>rd.
         if dev = rd then ret (- EBUSY)
         else bnd (get_super dev) (\<lambda>r. case r of
           None \<Rightarrow> ret (- ENOENT)
         | Some sp \<Rightarrow> bnd (gets (\<lambda>s. s_imount (super_blocks s sp))) (\<lambda>m. case m of
             None \<Rightarrow> ret (- ENOENT)
           | Some mi \<Rightarrow> bnd (gets (\<lambda>s. first_upto (\<lambda>k. i_dev (inode_table s k) = dev \<and> i_count (inode_table s k) \<noteq> 0) NR_INODE \<noteq> None))
               (\<lambda>busy. if busy then ret (- EBUSY)
                 else seq (block
                   [modify (upd_inode mi (\<lambda>x. x\<lparr>i_mount := 0\<rparr>)),
                    iput (Some mi),
                    modify (upd_super sp (\<lambda>x. x\<lparr>s_imount := None\<rparr>)),
                    bnd (gets (\<lambda>s. s_isup (super_blocks s sp))) iput,
                    modify (upd_super sp (\<lambda>x. x\<lparr>s_isup := None\<rparr>)),
                    put_super dev,
                    bnd (sync_dev dev) (\<lambda>_. skip)]) (ret 0))))))))"

definition sys_mount :: "u32 \<Rightarrow> u32 \<Rightarrow> int \<Rightarrow> int K" where
  "sys_mount dev_name dir_name rw_flag = bnd (namei dev_name) (\<lambda>r. case r of
     None \<Rightarrow> ret (- ENOENT)
   | Some di \<Rightarrow> bnd (gets (\<lambda>s. inode_table s di)) (\<lambda>x. let dev = i_zone x 0 in
       if \<not> S_ISBLK (i_mode x) then seq (iput (Some di)) (ret (- EPERM))
       else seq (iput (Some di)) (bnd (namei dir_name) (\<lambda>r. case r of
         None \<Rightarrow> ret (- ENOENT)
       | Some dir \<Rightarrow> bnd (gets (\<lambda>s. inode_table s dir)) (\<lambda>x.
           if i_count x \<noteq> 1 \<or> i_num x = ROOT_INO then seq (iput (Some dir)) (ret (- EBUSY))
           else if \<not> S_ISDIR (i_mode x) then seq (iput (Some dir)) (ret (- EPERM))
           else bnd (read_super dev) (\<lambda>r. case r of
             None \<Rightarrow> seq (iput (Some dir)) (ret (- EBUSY))
           | Some sp \<Rightarrow> bnd (gets (\<lambda>s. (s_imount (super_blocks s sp), i_mount (inode_table s dir)))) (\<lambda>(m, im).
               if m \<noteq> None then seq (iput (Some dir)) (ret (- EBUSY))
               else if im \<noteq> 0 then seq (iput (Some dir)) (ret (- EPERM))
               else seq (block
                 [modify (upd_super sp (\<lambda>x. x\<lparr>s_imount := Some dir\<rparr>)),
                  modify (upd_inode dir (\<lambda>x. x\<lparr>i_mount := 1, i_dirt := 1\<rparr>))]) (ret 0))))))))"

end
