(* ===== verification/Usermem.thy ===== *)
theory Usermem
  imports Memory
begin

unbundle bit_operations_syntax

text \<open>
  Access to memory a byte at a time: the physical memory, and the user space of the running task
  through the fs segment (include/asm/segment.h); and \<open>verify_area\<close> of kernel/fork.c, which makes
  the pages of a user buffer writable before the kernel writes there.
\<close>

subsection \<open>Bytes of physical memory and of the user space\<close>

text \<open>\<open>phys\<close> holds the words at the addresses that are multiples of 4.\<close>

definition get_byte :: "kernel \<Rightarrow> u32 \<Rightarrow> u8" where
  "get_byte s a = ucast (drop_bit (8 * unat (a AND 3)) (phys s (a AND NOT 3)))"

definition put_byte :: "u32 \<Rightarrow> u8 \<Rightarrow> kernel \<Rightarrow> kernel" where
  "put_byte a v s = (let w = phys s (a AND NOT 3); k = 8 * unat (a AND 3)
     in s\<lparr>phys := (phys s)(a AND NOT 3 := (w AND NOT (push_bit k 0xff)) OR push_bit k (ucast v))\<rparr>)"

definition put_fs_byte :: "u8 \<Rightarrow> u32 \<Rightarrow> kernel \<Rightarrow> kernel" where
  "put_fs_byte v a s = s\<lparr>umem := (umem s)(a := v)\<rparr>"

definition put_fs_long :: "u32 \<Rightarrow> u32 \<Rightarrow> kernel \<Rightarrow> kernel" where
  "put_fs_long v a s = s\<lparr>umem := (umem s)(a := ucast v, a + 1 := ucast (drop_bit 8 v),
     a + 2 := ucast (drop_bit 16 v), a + 3 := ucast (drop_bit 24 v))\<rparr>"

definition get_fs_word :: "kernel \<Rightarrow> u32 \<Rightarrow> u16" where
  "get_fs_word s a = ucast (umem s a) OR push_bit 8 (ucast (umem s (a + 1)))"

definition get_fs_long :: "kernel \<Rightarrow> u32 \<Rightarrow> u32" where
  "get_fs_long s a = ucast (umem s a) OR push_bit 8 (ucast (umem s (a + 1))) OR
     push_bit 16 (ucast (umem s (a + 2))) OR push_bit 24 (ucast (umem s (a + 3)))"

text \<open>The base address in a segment descriptor (include/linux/sched.h).\<close>

definition get_base :: "desc_struct \<Rightarrow> u32" where
  "get_base d = drop_bit 16 (desc_a d) OR push_bit 16 (desc_b d AND 0xff) OR (desc_b d AND 0xff000000)"

text \<open>The pages of an area, one round of the loop for each.\<close>

definition verify_area :: "u32 \<Rightarrow> int \<Rightarrow> unit K" where
  "verify_area addr sz = bnd (gets (\<lambda>s. get_base (ldt (cur s) 2))) (\<lambda>base.
     let total = sz + uint (addr AND 0xfff); start = (addr AND 0xfffff000) + base in
     for_each [0..<nat ((total + 4095) div 4096)] (\<lambda>k. write_verify (start + of_nat (4096 * k))))"

subsection \<open>Bytes in words\<close>

lemma word_parts: "(a :: u32) = (a AND NOT 3) OR (a AND 3)"
  by (rule bit_word_eqI) (auto simp: bit_simps)

lemma byte_in_word:
  fixes w :: u32 and v :: u8
  assumes "k < 4" "j < 4"
  shows "ucast (drop_bit (8 * j) ((w AND NOT (push_bit (8 * k) 0xff)) OR push_bit (8 * k) (ucast v))) =
    (if j = k then v else (ucast (drop_bit (8 * j) w) :: u8))"
proof -
  have jk: "j \<in> {0, 1, 2, 3}" "k \<in> {0, 1, 2, 3}" using assms by auto
  have m: "bit (0xff :: int) n \<longleftrightarrow> n < 8" for n
    using bit_mask_iff [of 8 n, where 'a = int] by (auto simp: mask_eq_exp_minus_1)
  have v: "\<not> bit v n" if "8 \<le> n" for n using bit_imp_le_length [of v n] that by auto
  show ?thesis
    using jk by (intro bit_word_eqI) (auto simp: bit_simps m v)
qed

lemma get_put_byte: "get_byte (put_byte a v s) b = (if a = b then v else get_byte s b)"
proof (cases "a AND NOT 3 = b AND NOT 3")
  case True
  let ?k = "unat (a AND 3)" and ?j = "unat (b AND 3)"
  have lt: "unat (x AND 3) < 4" for x :: u32
    using word_and_le1 [of x 3] by (simp add: word_le_nat_alt)
  have "a = b \<longleftrightarrow> ?j = ?k" using word_parts [of a] word_parts [of b] True by (metis word_unat_eq_iff)
  then show ?thesis
    using byte_in_word [OF lt lt, of b "phys s (b AND NOT 3)" a v] True
    by (simp add: get_byte_def put_byte_def Let_def)
next
  case False
  then show ?thesis by (auto simp: get_byte_def put_byte_def Let_def)
qed

lemma get_put_fs_long: "get_fs_long (put_fs_long v a s) a = v"
proof -
  have d: "a + 1 \<noteq> a" "a + 2 \<noteq> a" "a + 3 \<noteq> a" "a + 1 \<noteq> a + 2" "a + 1 \<noteq> a + 3" "a + 2 \<noteq> a + 3"
    by simp_all
  show ?thesis
  proof (rule bit_word_eqI)
    fix n assume "n < LENGTH(32)"
    then show "bit (get_fs_long (put_fs_long v a s) a) n = bit v n"
      by (cases "n < 8"; cases "n < 16"; cases "n < 24") (auto simp: get_fs_long_def put_fs_long_def bit_simps d d [symmetric])
  qed
qed

end
