(* ===== verification/Ringbuf.thy ===== *)
theory Ringbuf
  imports Prelude
begin

text \<open>
  First-in first-out queues in a ring of \<open>N\<close> slots with a head and a tail index, as pipes and
  terminals keep their characters, and the interface that their users rely on.
\<close>

subsection \<open>Contents of a ring\<close>

definition ring_size :: "nat \<Rightarrow> nat \<Rightarrow> nat \<Rightarrow> nat" where
  "ring_size N h t = (h + N - t) mod N"

definition ring_contents :: "nat \<Rightarrow> (nat \<Rightarrow> 'c) \<Rightarrow> nat \<Rightarrow> nat \<Rightarrow> 'c list" where
  "ring_contents N d h t = map (\<lambda>k. d ((t + k) mod N)) [0..<ring_size N h t]"

lemma length_ring_contents [simp]: "length (ring_contents N d h t) = ring_size N h t"
  by (simp add: ring_contents_def)

lemma ring_size_less: "0 < N \<Longrightarrow> ring_size N h t < N"
  by (simp add: ring_size_def)

lemma ring_size_cases:
  assumes "h < N" "t < N"
  shows "ring_size N h t = (if t \<le> h then h - t else h + N - t)"
proof (cases "t \<le> h")
  case True
  then have e: "h + N - t = (h - t) + N" by simp
  have "h - t < N" using assms(1) by simp
  then show ?thesis unfolding ring_size_def e mod_add_self2 using True by simp
qed (use assms in \<open>simp add: ring_size_def\<close>)

lemma ring_head: "h < N \<Longrightarrow> t < N \<Longrightarrow> (t + ring_size N h t) mod N = h"
  by (auto simp: ring_size_cases)

lemma ring_step: "(h :: nat) < N \<Longrightarrow> n < N \<Longrightarrow> (h + n) mod N = (if h + n < N then h + n else h + n - N)"
  by (simp add: le_mod_geq)

lemma ring_size_put:
  assumes "h < N" "t < N" "ring_size N h t + n < N"
  shows "ring_size N ((h + n) mod N) t = ring_size N h t + n"
proof -
  have n: "n < N" using assms(3) by simp
  show ?thesis
    using assms n by (cases "h + n < N") (auto simp: ring_step ring_size_cases split: if_splits)
qed

lemma ring_size_drop:
  assumes "h < N" "t < N" "n \<le> ring_size N h t"
  shows "ring_size N h ((t + n) mod N) = ring_size N h t - n"
proof -
  have n: "n < N" using assms ring_size_less [of N h t] by linarith
  show ?thesis
    using assms n by (cases "t + n < N") (auto simp: ring_step ring_size_cases split: if_splits)
qed

lemma ring_put:
  assumes "h < N" "t < N" "ring_size N h t + length xs < N"
    and new: "\<And>k. k < length xs \<Longrightarrow> d' ((h + k) mod N) = xs ! k"
    and old: "\<And>k. k < ring_size N h t \<Longrightarrow> d' ((t + k) mod N) = d ((t + k) mod N)"
  shows "ring_contents N d' ((h + length xs) mod N) t = ring_contents N d h t @ xs"
proof (rule nth_equalityI)
  show "length (ring_contents N d' ((h + length xs) mod N) t) = length (ring_contents N d h t @ xs)"
    using ring_size_put [OF assms(1-3)] by simp
next
  fix i assume "i < length (ring_contents N d' ((h + length xs) mod N) t)"
  then have i: "i < ring_size N h t + length xs" using ring_size_put [OF assms(1-3)] by simp
  show "ring_contents N d' ((h + length xs) mod N) t ! i = (ring_contents N d h t @ xs) ! i"
  proof (cases "i < ring_size N h t")
    case True
    then show ?thesis using i old ring_size_put [OF assms(1-3)]
      by (simp add: ring_contents_def nth_append)
  next
    case False
    then obtain k where k: "i = ring_size N h t + k" "k < length xs" using i by (metis add_less_cancel_left le_iff_add not_less)
    have "(t + i) mod N = ((t + ring_size N h t) mod N + k) mod N" using k by (simp add: mod_simps add.assoc)
    also have "\<dots> = (h + k) mod N" using ring_head [OF assms(1,2)] by simp
    finally show ?thesis using k new i ring_size_put [OF assms(1-3)]
      by (simp add: ring_contents_def nth_append)
  qed
qed

lemma ring_drop:
  assumes "h < N" "t < N" "n \<le> ring_size N h t"
  shows "ring_contents N d h ((t + n) mod N) = drop n (ring_contents N d h t)"
  using ring_size_drop [OF assms]
  by (intro nth_equalityI) (simp_all add: ring_contents_def mod_simps less_diff_conv add_ac)

text \<open>The slots of one put that does not wrap around differ from all slots in use.\<close>

lemma ring_slot_free:
  assumes "h < N" "t < N" "ring_size N h t + n < N" "j < n" "k < ring_size N h t"
  shows "(h + j) mod N \<noteq> (t + k) mod N"
proof -
  have "j < N" "k < N" using assms by simp_all
  then show ?thesis using assms unfolding ring_size_cases [OF assms(1,2)]
    by (auto simp: ring_step split: if_splits)
qed

subsection \<open>The interface\<close>

datatype 'c qop = Put "'c list" | Take nat

locale byte_queue =
  fixes cap :: nat
    and valid :: "'s \<Rightarrow> bool"
    and queue :: "'s \<Rightarrow> 'c list"
    and put :: "'c list \<Rightarrow> 's \<Rightarrow> 's"
    and drop_n :: "nat \<Rightarrow> 's \<Rightarrow> 's"
  assumes queue_put: "valid s \<Longrightarrow> length (queue s) + length xs < cap \<Longrightarrow>
      valid (put xs s) \<and> queue (put xs s) = queue s @ xs"
    and queue_drop: "valid s \<Longrightarrow> n \<le> length (queue s) \<Longrightarrow>
      valid (drop_n n s) \<and> queue (drop_n n s) = drop n (queue s)"
    and queue_bound: "valid s \<Longrightarrow> length (queue s) < cap"
begin

text \<open>A run of puts and takes: \<open>None\<close> when one of them does not fit, else the bytes taken.\<close>

fun run :: "'c qop list \<Rightarrow> 's \<Rightarrow> ('c list \<times> 's) option" where
  "run [] s = Some ([], s)"
| "run (Put xs # ops) s =
     (if length (queue s) + length xs < cap then run ops (put xs s) else None)"
| "run (Take n # ops) s =
     (if n \<le> length (queue s)
      then map_option (\<lambda>(ys, s'). (take n (queue s) @ ys, s')) (run ops (drop_n n s)) else None)"

fun puts :: "'c qop list \<Rightarrow> 'c list" where
  "puts [] = []"
| "puts (Put xs # ops) = xs @ puts ops"
| "puts (Take n # ops) = puts ops"

lemma run_fifo:
  "run ops s = Some (ys, s') \<Longrightarrow> valid s \<Longrightarrow> valid s' \<and> ys @ queue s' = queue s @ puts ops"
proof (induction ops s arbitrary: ys rule: run.induct)
  case (2 xs ops s)
  then show ?case using queue_put by (auto split: if_splits)
next
  case (3 n ops s)
  then have n: "n \<le> length (queue s)" by (auto split: if_splits)
  then obtain zs where zs: "run ops (drop_n n s) = Some (zs, s')" "ys = take n (queue s) @ zs"
    using 3(2) by auto
  have "valid s' \<and> zs @ queue s' = drop n (queue s) @ puts ops"
    using 3(1) [OF n zs(1)] queue_drop [OF 3(3) n] by simp
  then show ?case using zs(2) by (simp flip: append_assoc) (metis append_assoc append_take_drop_id)
qed simp

end

end
