(* ===== verification/Pipe.thy ===== *)
theory Pipe
  imports Namei Usermem Ringbuf
begin

unbundle bit_operations_syntax

text \<open>
  fs/pipe.c: a pipe is a ring of 4096 bytes in a page of its own; the inode keeps the address of
  the page in \<open>i_size\<close>, the head in \<open>i_zone[0]\<close> and the tail in \<open>i_zone[1]\<close>.
\<close>

definition PAGE_SIZE :: nat where [kconst]: "PAGE_SIZE = 4096"

definition PIPE_HEAD :: "m_inode \<Rightarrow> u16" where "PIPE_HEAD x = i_zone x 0"
definition PIPE_TAIL :: "m_inode \<Rightarrow> u16" where "PIPE_TAIL x = i_zone x 1"

text \<open>Promoted to \<open>int\<close>, subtracted and masked with 4095.\<close>

definition PIPE_SIZE :: "m_inode \<Rightarrow> nat" where
  "PIPE_SIZE x = nat ((uint (PIPE_HEAD x) - uint (PIPE_TAIL x)) mod int PAGE_SIZE)"

subsection \<open>Reading and writing\<close>

text \<open>
  The inner \<open>while\<close>: sleep until \<open>avail\<close> is not 0.  The result is \<open>None\<close> when the other end of
  the pipe is closed.
\<close>

definition pipe_wait :: "(m_inode \<Rightarrow> nat) \<Rightarrow> iptr \<Rightarrow> nat option K" where
  "pipe_wait avail i = retry (bnd (gets (\<lambda>s. avail (inode_table s i))) (\<lambda>n.
     if n \<noteq> 0 then ret (Some (Some n))
     else seq (wake_up (Q_inode i)) (bnd (gets (\<lambda>s. i_count (inode_table s i))) (\<lambda>c.
       if c \<noteq> 2 then ret (Some None) else seq (sleep_on (Q_inode i)) (ret None)))))"

definition pipe_room :: "m_inode \<Rightarrow> nat" where
  "pipe_room x = PAGE_SIZE - 1 - PIPE_SIZE x"

text \<open>The number of bytes moved in one round: up to the end of the page.\<close>

definition pipe_chars :: "u16 \<Rightarrow> nat \<Rightarrow> nat \<Rightarrow> nat" where
  "pipe_chars pos count sz = min (min (PAGE_SIZE - unat pos) count) sz"

definition pipe_step :: "u16 \<Rightarrow> nat \<Rightarrow> u16" where
  "pipe_step pos n = (pos + of_nat n) AND 0xfff"

text \<open>
  The loop of \<open>read_pipe\<close> on what is left to read, the address it goes to and what has been read;
  every round that goes on has moved at least one byte.
\<close>

definition read_pipe_round :: "iptr \<Rightarrow> nat \<times> u32 \<times> nat \<Rightarrow> (nat \<times> u32 \<times> nat + int) K" where
  "read_pipe_round i st = (case st of (count, buf, rd) \<Rightarrow>
     if count = 0 then seq (wake_up (Q_inode i)) (ret (Inr (int rd)))
     else bnd (pipe_wait PIPE_SIZE i) (\<lambda>w. case w of
       None \<Rightarrow> ret (Inr (int rd))
     | Some sz \<Rightarrow> bnd (gets (\<lambda>s. inode_table s i)) (\<lambda>x.
         let tl = PIPE_TAIL x; chars = pipe_chars tl count sz in seq (block
           [modify (upd_inode i (\<lambda>x. x\<lparr>i_zone := (i_zone x)(1 := pipe_step tl chars)\<rparr>)),
            for_each [0..<chars] (\<lambda>k. modify (\<lambda>s. put_fs_byte
              (get_byte s (i_size x + ucast tl + of_nat k)) (buf + of_nat k) s))])
           (ret (Inl (count - chars, buf + of_nat chars, rd + chars))))))"

definition read_pipe :: "iptr \<Rightarrow> u32 \<Rightarrow> int \<Rightarrow> int K" where
  "read_pipe i buf count = iter_fuel (Suc (nat count)) (read_pipe_round i) (nat count, buf, 0)"

definition write_pipe_round :: "iptr \<Rightarrow> nat \<times> u32 \<times> nat \<Rightarrow> (nat \<times> u32 \<times> nat + int) K" where
  "write_pipe_round i st = (case st of (count, buf, wr) \<Rightarrow>
     if count = 0 then seq (wake_up (Q_inode i)) (ret (Inr (int wr)))
     else bnd (pipe_wait pipe_room i) (\<lambda>w. case w of
       None \<Rightarrow> seq (modify (\<lambda>s. upd_cur (\<lambda>t. t\<lparr>signal := signal t OR sigbit SIGPIPE\<rparr>) s))
                (ret (Inr (if wr \<noteq> 0 then int wr else - 1)))
     | Some sz \<Rightarrow> bnd (gets (\<lambda>s. inode_table s i)) (\<lambda>x.
         let hd = PIPE_HEAD x; chars = pipe_chars hd count sz in seq (block
           [modify (upd_inode i (\<lambda>x. x\<lparr>i_zone := (i_zone x)(0 := pipe_step hd chars)\<rparr>)),
            for_each [0..<chars] (\<lambda>k. modify (\<lambda>s. put_byte (i_size x + ucast hd + of_nat k)
              (get_fs_byte s (buf + of_nat k)) s))])
           (ret (Inl (count - chars, buf + of_nat chars, wr + chars))))))"

definition write_pipe :: "iptr \<Rightarrow> u32 \<Rightarrow> int \<Rightarrow> int K" where
  "write_pipe i buf count = iter_fuel (Suc (nat count)) (write_pipe_round i) (nat count, buf, 0)"

subsection \<open>sys_pipe\<close>

text \<open>The first two indices below \<open>n\<close> that satisfy \<open>P\<close>, or as many as there are.\<close>

definition first_two :: "(nat \<Rightarrow> bool) \<Rightarrow> nat \<Rightarrow> nat list" where
  "first_two P n = take 2 (filter P [0..<n])"

definition sys_pipe :: "u32 \<Rightarrow> int K" where
  "sys_pipe fildes = bnd (gets (\<lambda>s. first_two (\<lambda>i. f_count (file_table s i) = 0) NR_FILE)) (\<lambda>fs. case fs of
     [f0, f1] \<Rightarrow> seq (block
       [modify (upd_file f0 (\<lambda>f. f\<lparr>f_count := f_count f + 1\<rparr>)),
        modify (upd_file f1 (\<lambda>f. f\<lparr>f_count := f_count f + 1\<rparr>))])
       (bnd (gets (\<lambda>s. first_two (\<lambda>k. filp (cur s) k = None) NR_OPEN)) (\<lambda>fds. case fds of
         [d0, d1] \<Rightarrow> seq (modify (\<lambda>s. upd_cur (\<lambda>t. t\<lparr>filp := (filp t)(d0 := Some f0, d1 := Some f1)\<rparr>) s))
           (bnd get_pipe_inode (\<lambda>r. case r of
             None \<Rightarrow> seq (block
               [modify (\<lambda>s. upd_cur (\<lambda>t. t\<lparr>filp := (filp t)(d1 := None, d0 := None)\<rparr>) s),
                modify (upd_file f1 (\<lambda>f. f\<lparr>f_count := 0\<rparr>)), modify (upd_file f0 (\<lambda>f. f\<lparr>f_count := 0\<rparr>))])
               (ret (- 1))
           | Some i \<Rightarrow> seq (block
               [modify (upd_file f0 (\<lambda>f. f\<lparr>f_inode := Some i, f_pos := 0, f_mode := 1\<rparr>)),
                modify (upd_file f1 (\<lambda>f. f\<lparr>f_inode := Some i, f_pos := 0, f_mode := 2\<rparr>)),
                modify (put_fs_long (of_nat d0) fildes),
                modify (put_fs_long (of_nat d1) (fildes + 4))])
               (ret 0)))
       | _ \<Rightarrow> seq (block
           [modify (upd_file f1 (\<lambda>f. f\<lparr>f_count := 0\<rparr>)), modify (upd_file f0 (\<lambda>f. f\<lparr>f_count := 0\<rparr>))])
           (ret (- 1))))
   | _ \<Rightarrow> ret (- 1))"

subsection \<open>The pipe as a queue\<close>

definition pipe_ok :: "iptr \<Rightarrow> kernel \<Rightarrow> bool" where
  "pipe_ok i s \<longleftrightarrow> unat (PIPE_HEAD (inode_table s i)) < 4096 \<and> unat (PIPE_TAIL (inode_table s i)) < 4096"

definition pipe_queue :: "iptr \<Rightarrow> kernel \<Rightarrow> u8 list" where
  "pipe_queue i s = (let x = inode_table s i in
     ring_contents 4096 (\<lambda>k. get_byte s (i_size x + of_nat k)) (unat (PIPE_HEAD x)) (unat (PIPE_TAIL x)))"

definition pipe_push :: "iptr \<Rightarrow> u8 \<Rightarrow> kernel \<Rightarrow> kernel" where
  "pipe_push i c s = (let x = inode_table s i in
     put_byte (i_size x + ucast (PIPE_HEAD x)) c
       (upd_inode i (\<lambda>x. x\<lparr>i_zone := (i_zone x)(0 := pipe_step (PIPE_HEAD x) 1)\<rparr>) s))"

definition pipe_put :: "iptr \<Rightarrow> u8 list \<Rightarrow> kernel \<Rightarrow> kernel" where
  "pipe_put i xs s = fold (pipe_push i) xs s"

definition pipe_drop :: "iptr \<Rightarrow> nat \<Rightarrow> kernel \<Rightarrow> kernel" where
  "pipe_drop i n s = upd_inode i (\<lambda>x. x\<lparr>i_zone := (i_zone x)(1 := pipe_step (PIPE_TAIL x) n)\<rparr>) s"

lemma PIPE_SIZE_ring: "unat (PIPE_HEAD x) < 4096 \<Longrightarrow> unat (PIPE_TAIL x) < 4096 \<Longrightarrow>
    PIPE_SIZE x = ring_size 4096 (unat (PIPE_HEAD x)) (unat (PIPE_TAIL x))"
proof -
  assume h: "unat (PIPE_HEAD x) < 4096" and t: "unat (PIPE_TAIL x) < 4096"
  let ?h = "unat (PIPE_HEAD x)" and ?t = "unat (PIPE_TAIL x)"
  have "?t \<le> ?h + 4096" using t by linarith
  then have e: "int (?h + 4096 - ?t) = (int ?h - int ?t) + 4096" by (simp only: of_nat_diff of_nat_add of_nat_numeral)
  have "(int ?h - int ?t) mod 4096 = int ((?h + 4096 - ?t) mod 4096)"
    unfolding zmod_int e of_nat_numeral mod_add_self2 ..
  then show ?thesis unfolding PIPE_SIZE_def ring_size_def PAGE_SIZE_def uint_nat of_nat_numeral
    by (simp only: nat_int)
qed

lemma unat_pipe_step: "unat (pipe_step p n) = (unat p + n) mod 4096"
proof -
  have "pipe_step p n = take_bit 12 (p + of_nat n)"
    unfolding pipe_step_def take_bit_eq_mask by (simp add: mask_eq_exp_minus_1)
  then have "unat (pipe_step p n) = unat (p + of_nat n) mod 4096" by (simp add: unsigned_take_bit_eq take_bit_nat_def)
  also have "\<dots> = (unat p + n) mod 4096"
    by (simp add: unat_word_ariths(1) unat_of_nat mod_mod_cancel mod_simps)
  finally show ?thesis .
qed

lemma slot_eq: "k < 4096 \<Longrightarrow> unat h < 4096 \<Longrightarrow> (b :: u32) + ucast (h :: u16) = b + of_nat k \<longleftrightarrow> k = unat h"
  unfolding add_left_cancel
  by (auto simp: word_unat_eq_iff unat_of_nat unsigned_ucast_eq take_bit_nat_def)

lemma pipe_push_queue:
  assumes ok: "pipe_ok i s" and room: "length (pipe_queue i s) + 1 < 4096"
  shows "pipe_ok i (pipe_push i c s) \<and> pipe_queue i (pipe_push i c s) = pipe_queue i s @ [c]"
proof -
  let ?x = "inode_table s i"
  let ?h = "unat (PIPE_HEAD ?x)" and ?t = "unat (PIPE_TAIL ?x)"
  let ?d = "\<lambda>k. get_byte s (i_size ?x + of_nat k)"
  let ?d' = "\<lambda>k. get_byte (pipe_push i c s) (i_size ?x + of_nat k)"
  have ht: "?h < 4096" "?t < 4096" using ok by (simp_all add: pipe_ok_def)
  have x': "inode_table (pipe_push i c s) i = ?x\<lparr>i_zone := (i_zone ?x)(0 := pipe_step (PIPE_HEAD ?x) 1)\<rparr>"
    by (simp add: pipe_push_def put_byte_def upd_inode_def Let_def)
  have hd': "unat (PIPE_HEAD (inode_table (pipe_push i c s) i)) = (?h + 1) mod 4096"
    "PIPE_TAIL (inode_table (pipe_push i c s) i) = PIPE_TAIL ?x" "i_size (inode_table (pipe_push i c s) i) = i_size ?x"
    unfolding x' by (simp_all add: PIPE_HEAD_def PIPE_TAIL_def unat_pipe_step)
  have slot: "?d' k = (if k = ?h then c else ?d k)" if "k < 4096" for k
    using slot_eq [OF that ht(1)] by (simp add: pipe_push_def Let_def get_put_byte) (simp add: get_byte_def upd_inode_def)
  have size: "ring_size 4096 ?h ?t + 1 < 4096" using room by (simp add: pipe_queue_def Let_def)
  have "ring_contents 4096 ?d' ((?h + length [c]) mod 4096) ?t = ring_contents 4096 ?d ?h ?t @ [c]"
  proof (rule ring_put)
    fix k assume "k < ring_size 4096 ?h ?t"
    then have "(?h + 0) mod 4096 \<noteq> (?t + k) mod 4096" by (intro ring_slot_free [OF ht size]) simp_all
    then show "?d' ((?t + k) mod 4096) = ?d ((?t + k) mod 4096)"
      using slot [of "(?t + k) mod 4096"] ht(1) by simp
  qed (use ht size slot [of ?h] in simp_all)
  then show ?thesis using hd' ht by (simp add: pipe_queue_def Let_def pipe_ok_def)
qed

lemma pipe_put_queue:
  "pipe_ok i s \<Longrightarrow> length (pipe_queue i s) + length xs < 4096 \<Longrightarrow>
     pipe_ok i (pipe_put i xs s) \<and> pipe_queue i (pipe_put i xs s) = pipe_queue i s @ xs"
proof (induction xs arbitrary: s)
  case (Cons x xs)
  then show ?case using pipe_push_queue [of i s x] by (simp add: pipe_put_def)
qed (simp add: pipe_put_def)

lemma pipe_drop_queue:
  assumes "pipe_ok i s" "n \<le> length (pipe_queue i s)"
  shows "pipe_ok i (pipe_drop i n s) \<and> pipe_queue i (pipe_drop i n s) = drop n (pipe_queue i s)"
proof -
  let ?x = "inode_table s i"
  have "PIPE_HEAD (inode_table (pipe_drop i n s) i) = PIPE_HEAD ?x"
    "unat (PIPE_TAIL (inode_table (pipe_drop i n s) i)) = (unat (PIPE_TAIL ?x) + n) mod 4096"
    "i_size (inode_table (pipe_drop i n s) i) = i_size ?x" "\<And>a. get_byte (pipe_drop i n s) a = get_byte s a"
    by (simp_all add: pipe_drop_def upd_inode_def PIPE_HEAD_def PIPE_TAIL_def unat_pipe_step get_byte_def)
  then show ?thesis using assms by (auto simp: pipe_ok_def pipe_queue_def Let_def ring_drop)
qed

interpretation pq: byte_queue 4096 "pipe_ok i" "pipe_queue i" "pipe_put i" "pipe_drop i" for i
proof
  fix s assume "pipe_ok i s"
  then show "length (pipe_queue i s) < 4096"
    using ring_size_less [of 4096] by (simp add: pipe_queue_def Let_def)
qed (rule pipe_put_queue pipe_drop_queue; assumption)+


subsection \<open>What the loops do\<close>

definition set_zone :: "iptr \<Rightarrow> nat \<Rightarrow> u16 \<Rightarrow> kernel \<Rightarrow> kernel" where
  "set_zone i k v s = upd_inode i (\<lambda>x. x\<lparr>i_zone := (i_zone x)(k := v)\<rparr>) s"

lemma set_zone_simps:
  "set_zone i k v (set_zone i k u s) = set_zone i k v s" "i_zone (inode_table s i) k = v \<Longrightarrow> set_zone i k v s = s"
  "put_byte a c (set_zone i k v s) = set_zone i k v (put_byte a c s)"
  "inode_table (put_byte a c s) = inode_table s" "umem (put_byte a c s) = umem s" "umem (set_zone i k v s) = umem s"
  by (auto simp: set_zone_def upd_inode_def put_byte_def Let_def fun_upd_idem)

lemma fold_set_zone: "fold (\<lambda>k. put_byte (a k) (f k)) ks (set_zone i j v s) = set_zone i j v (fold (\<lambda>k. put_byte (a k) (f k)) ks s)"
  by (induction ks arbitrary: s) (simp_all add: set_zone_simps)

lemma fold_put_byte: "inode_table (fold (\<lambda>k. put_byte (a k) (f k)) ks s) = inode_table s"
  by (induction ks arbitrary: s) (simp_all add: set_zone_simps)

lemma pipe_push_alt:
  "pipe_push i c s = put_byte (i_size (inode_table s i) + ucast (PIPE_HEAD (inode_table s i))) c
     (set_zone i 0 (pipe_step (PIPE_HEAD (inode_table s i)) 1) s)"
  by (simp add: pipe_push_def set_zone_def Let_def upd_inode_def)

lemma pipe_step_simps:
  "unat p + n < 4096 \<Longrightarrow> (ucast (pipe_step p n) :: u32) = ucast p + of_nat n"
  "pipe_step (pipe_step p n) m = pipe_step p (n + m)" "unat p < 4096 \<Longrightarrow> pipe_step p 0 = p"
proof -
  show "(ucast (pipe_step p n) :: u32) = ucast p + of_nat n" if "unat p + n < 4096"
    using that by (simp add: word_unat_eq_iff unat_word_ariths(1) unat_of_nat unsigned_ucast_eq take_bit_nat_def unat_pipe_step)
qed (simp_all add: word_unat_eq_iff unat_pipe_step mod_simps add.assoc)

lemma pipe_chunk:
  assumes "x = inode_table s i" "unat (PIPE_HEAD x) + n \<le> 4096" "unat (PIPE_HEAD x) < 4096"
  shows "fold (\<lambda>k. put_byte (i_size x + ucast (PIPE_HEAD x) + of_nat k) (f k)) [0..<n]
      (set_zone i 0 (pipe_step (PIPE_HEAD x) n) s) = pipe_put i (map f [0..<n]) s"
  using assms(2)
proof (induction n)
  case 0
  then show ?case using assms(1,3) by (simp add: pipe_step_simps pipe_put_def set_zone_simps PIPE_HEAD_def)
next
  case (Suc n)
  let ?a = "\<lambda>k. i_size x + ucast (PIPE_HEAD x) + of_nat k"
  let ?F = "fold (\<lambda>k. put_byte (?a k) (f k)) [0..<n] s"
  have "pipe_put i (map f [0..<n]) s = set_zone i 0 (pipe_step (PIPE_HEAD x) n) ?F"
    using Suc by (simp add: fold_set_zone)
  then have "pipe_put i (map f [0..<Suc n]) s = pipe_push i (f n) (set_zone i 0 (pipe_step (PIPE_HEAD x) n) ?F)"
    by (simp add: pipe_put_def)
  also have "\<dots> = put_byte (?a n) (f n) (set_zone i 0 (pipe_step (PIPE_HEAD x) (Suc n)) ?F)"
  proof -
    let ?G = "set_zone i 0 (pipe_step (PIPE_HEAD x) n) ?F"
    have h: "PIPE_HEAD (inode_table ?G i) = pipe_step (PIPE_HEAD x) n" "i_size (inode_table ?G i) = i_size x"
      using fold_put_byte [of ?a f "[0..<n]" s] assms(1) by (simp_all add: set_zone_def upd_inode_def PIPE_HEAD_def)
    show ?thesis
      unfolding pipe_push_alt h set_zone_simps(1) pipe_step_simps(2) using Suc.prems
      by (simp add: pipe_step_simps(1) add.assoc)
  qed
  finally show ?case by (simp add: fold_set_zone set_zone_simps)
qed

definition user_bytes :: "kernel \<Rightarrow> u32 \<Rightarrow> nat \<Rightarrow> u8 list" where
  "user_bytes s a n = map (\<lambda>k. umem s (a + of_nat k)) [0..<n]"

lemma user_bytes_add: "user_bytes s a (m + n) = user_bytes s a m @ user_bytes s (a + of_nat m) n"
  by (rule nth_equalityI) (auto simp: user_bytes_def nth_append add.assoc)

lemma pipe_put_umem [simp]: "umem (pipe_put i xs s) = umem s"
  unfolding pipe_put_def by (induction xs arbitrary: s) (simp_all add: pipe_push_alt set_zone_simps)

lemma fold_user_bytes:
  "fold (\<lambda>k s. put_byte (a k) (get_fs_byte s (b k)) s) ks s = fold (\<lambda>k. put_byte (a k) (umem s (b k))) ks s"
  by (induction ks arbitrary: s) (simp_all add: get_fs_byte_def set_zone_simps)

lemma pipe_wait_run: "avail (inode_table s i) \<noteq> 0 \<Longrightarrow>
    pipe_wait avail i s es = Ret (Some (avail (inode_table s i))) s es"
  by (simp add: pipe_wait_def retry_def krun)

lemma write_round_run:
  assumes ok: "pipe_ok i s" and c: "count \<noteq> 0" "length (pipe_queue i s) + count < 4096"
  shows "\<exists>n. 0 < n \<and> n \<le> count \<and> write_pipe_round i (count, buf, wr) s es =
    Ret (Inl (count - n, buf + of_nat n, wr + n)) (pipe_put i (user_bytes s buf n) s) es"
proof -
  let ?x = "inode_table s i"
  have ht: "unat (PIPE_HEAD ?x) < 4096" "unat (PIPE_TAIL ?x) < 4096" using ok by (simp_all add: pipe_ok_def)
  have q: "length (pipe_queue i s) = PIPE_SIZE ?x" by (simp add: pipe_queue_def Let_def PIPE_SIZE_ring [OF ht])
  have room: "count \<le> pipe_room ?x" "pipe_room ?x \<noteq> 0" using c q by (auto simp: pipe_room_def PAGE_SIZE_def)
  define n where "n = pipe_chars (PIPE_HEAD ?x) count (pipe_room ?x)"
  have n: "0 < n" "n \<le> count" "unat (PIPE_HEAD ?x) + n \<le> 4096"
    using room c(1) ht by (auto simp: n_def pipe_chars_def PAGE_SIZE_def)
  have "write_pipe_round i (count, buf, wr) s es = Ret (Inl (count - n, buf + of_nat n, wr + n))
      (fold (\<lambda>k. put_byte (i_size ?x + ucast (PIPE_HEAD ?x) + of_nat k) (umem s (buf + of_nat k))) [0..<n]
        (set_zone i 0 (pipe_step (PIPE_HEAD ?x) n) s)) es"
    using c(1) pipe_wait_run [of pipe_room, OF room(2)]
    by (simp add: write_pipe_round_def krun Let_def fold_user_bytes n_def [symmetric] set_zone_def [symmetric]
        set_zone_simps)
  then show ?thesis using n pipe_chunk [OF refl n(3) ht(1)] by (auto simp: user_bytes_def)
qed


lemma write_rounds:
  "pipe_ok i s \<Longrightarrow> length (pipe_queue i s) + count < 4096 \<Longrightarrow> count < fuel \<Longrightarrow>
   iter_fuel fuel (write_pipe_round i) (count, buf, wr) s es =
     Ret (int (wr + count)) (wake_up_q (Q_inode i) (pipe_put i (user_bytes s buf count) s)) es"
proof (induction fuel arbitrary: count buf wr s)
  case (Suc fuel)
  show ?case
  proof (cases "count = 0")
    case True
    then show ?thesis by (simp add: write_pipe_round_def krun wake_up_def user_bytes_def pipe_put_def)
  next
    case False
    obtain n where n: "0 < n" "n \<le> count" "write_pipe_round i (count, buf, wr) s es =
        Ret (Inl (count - n, buf + of_nat n, wr + n)) (pipe_put i (user_bytes s buf n) s) es"
      using write_round_run [OF Suc.prems(1) False Suc.prems(2)] by blast
    let ?t = "pipe_put i (user_bytes s buf n) s"
    have len: "length (user_bytes s buf n) = n" by (simp add: user_bytes_def)
    have t: "pipe_ok i ?t" "length (pipe_queue i ?t) = length (pipe_queue i s) + n"
      using pipe_put_queue [OF Suc.prems(1), of "user_bytes s buf n"] Suc.prems(2) n(2) len by simp_all
    have "user_bytes ?t (buf + of_nat n) (count - n) = user_bytes s (buf + of_nat n) (count - n)"
      by (simp add: user_bytes_def)
    then have "pipe_put i (user_bytes ?t (buf + of_nat n) (count - n)) ?t = pipe_put i (user_bytes s buf count) s"
      using user_bytes_add [of s buf n "count - n"] n(2) by (simp add: pipe_put_def)
    then show ?thesis
      using Suc.IH [of ?t "count - n" "buf + of_nat n" "wr + n"] t Suc.prems n by (simp add: krun)
  qed
qed simp

text \<open>Bytes of the user space from an address on, overwritten.\<close>

definition user_store :: "u32 \<Rightarrow> u8 list \<Rightarrow> kernel \<Rightarrow> kernel" where
  "user_store a xs s = fold (\<lambda>k. put_fs_byte (xs ! k) (a + of_nat k)) [0..<length xs] s"

lemma user_bytes_store_all:
  assumes "length xs \<le> 4294967296"
  shows "user_bytes (user_store a xs s) a (length xs) = xs"
proof -
  have neq: "a + of_nat n \<noteq> a + of_nat k" if "k < n" "n < 4294967296" for k n :: nat
    unfolding add_left_cancel using that by (auto simp: word_unat_eq_iff unat_of_nat)
  have "n \<le> length xs \<Longrightarrow> k < n \<Longrightarrow>
      umem (fold (\<lambda>k. put_fs_byte (xs ! k) (a + of_nat k)) [0..<n] s) (a + of_nat k) = xs ! k" for n k
  proof (induction n)
    case (Suc n)
    then show ?case using neq [of k n] assms by (cases "k = n") (auto simp: put_fs_byte_def)
  qed simp
  then show ?thesis by (intro nth_equalityI) (simp_all add: user_bytes_def user_store_def)
qed

lemma user_bytes_store: "length xs \<le> 4096 \<Longrightarrow> user_bytes (user_store a xs s) a (length xs) = xs"
  by (rule user_bytes_store_all) simp

lemma user_store_frame:
  "inode_table (user_store a xs s) = inode_table s" "phys (user_store a xs s) = phys s"
proof -
  have "inode_table (fold (\<lambda>k. put_fs_byte (f k) (b k)) ks s) = inode_table s \<and>
      phys (fold (\<lambda>k. put_fs_byte (f k) (b k)) ks s) = phys s" for f b and ks :: "nat list"
    by (induction ks arbitrary: s) (simp_all add: put_fs_byte_def)
  then show "inode_table (user_store a xs s) = inode_table s" "phys (user_store a xs s) = phys s"
    by (simp_all add: user_store_def)
qed

lemma pipe_queue_user_store: "pipe_queue i (user_store a xs s) = pipe_queue i s" "pipe_ok i (user_store a xs s) = pipe_ok i s"
  by (simp_all add: pipe_queue_def pipe_ok_def user_store_frame get_byte_def)


lemma user_store_append: "user_store a (xs @ ys) s = user_store (a + of_nat (length xs)) ys (user_store a xs s)"
proof -
  let ?f = "\<lambda>k. put_fs_byte ((xs @ ys) ! k) (a + of_nat k)"
  have "fold ?f [0..<length xs] s = user_store a xs s"
    unfolding user_store_def by (rule fold_cong) (auto simp: nth_append)
  moreover have "fold ?f (map (\<lambda>k. k + length xs) [0..<length ys]) t = user_store (a + of_nat (length xs)) ys t" for t
    unfolding user_store_def fold_map by (rule fold_cong) (auto simp: nth_append add_ac)
  moreover have "[0..<length xs + length ys] = [0..<length xs] @ map (\<lambda>k. k + length xs) [0..<length ys]"
    using upt_add_eq_append [of 0 "length xs" "length ys"] map_add_upt [of "length xs" "length ys"] by (simp add: add.commute)
  ultimately show ?thesis unfolding user_store_def [of a "xs @ ys"] by simp
qed

lemma pipe_drop_simps:
  "pipe_drop i m (pipe_drop i n s) = pipe_drop i (n + m) s"
  "user_store a xs (pipe_drop i n s) = pipe_drop i n (user_store a xs s)"
proof -
  show "pipe_drop i m (pipe_drop i n s) = pipe_drop i (n + m) s"
    by (simp add: pipe_drop_def upd_inode_def PIPE_TAIL_def pipe_step_simps)
  have "put_fs_byte v b (pipe_drop i n s) = pipe_drop i n (put_fs_byte v b s)" for v b s
    by (simp add: put_fs_byte_def pipe_drop_def upd_inode_def)
  then have "fold (\<lambda>k. put_fs_byte (f k) (b k)) ks (pipe_drop i n s) = pipe_drop i n (fold (\<lambda>k. put_fs_byte (f k) (b k)) ks s)"
    for f b and ks :: "nat list"
    by (induction ks arbitrary: s) simp_all
  then show "user_store a xs (pipe_drop i n s) = pipe_drop i n (user_store a xs s)" by (simp add: user_store_def)
qed

lemma fold_read_bytes:
  "fold (\<lambda>k s. put_fs_byte (get_byte s (a k)) (b k) s) ks s = fold (\<lambda>k. put_fs_byte (get_byte s (a k)) (b k)) ks s"
proof (induction ks arbitrary: s)
  case (Cons k ks)
  have "get_byte (put_fs_byte v c s) = get_byte s" for v c by (simp add: get_byte_def put_fs_byte_def fun_eq_iff)
  then show ?case using Cons by simp
qed simp

lemma read_round_run:
  assumes ok: "pipe_ok i s" and c: "count \<noteq> 0" "count \<le> length (pipe_queue i s)"
  shows "\<exists>n. 0 < n \<and> n \<le> count \<and> read_pipe_round i (count, buf, rd) s es =
    Ret (Inl (count - n, buf + of_nat n, rd + n)) (user_store buf (take n (pipe_queue i s)) (pipe_drop i n s)) es"
proof -
  let ?x = "inode_table s i"
  have ht: "unat (PIPE_HEAD ?x) < 4096" "unat (PIPE_TAIL ?x) < 4096" using ok by (simp_all add: pipe_ok_def)
  have q: "length (pipe_queue i s) = PIPE_SIZE ?x" by (simp add: pipe_queue_def Let_def PIPE_SIZE_ring [OF ht])
  have sz: "count \<le> PIPE_SIZE ?x" "PIPE_SIZE ?x \<noteq> 0" using c q by auto
  define n where "n = pipe_chars (PIPE_TAIL ?x) count (PIPE_SIZE ?x)"
  have n: "0 < n" "n \<le> count" "unat (PIPE_TAIL ?x) + n \<le> 4096"
    using sz c(1) ht by (auto simp: n_def pipe_chars_def PAGE_SIZE_def)
  let ?a = "\<lambda>k. i_size ?x + ucast (PIPE_TAIL ?x) + of_nat k" and ?xs = "take n (pipe_queue i s)"
  have len: "length ?xs = n" using n(2) c(2) by simp
  have nth: "?xs ! k = get_byte (pipe_drop i n s) (?a k)" if "k < n" for k
  proof -
    have "(unat (PIPE_TAIL ?x) + k) mod 4096 = unat (PIPE_TAIL ?x) + k" using n(3) that by simp
    moreover have "k < ring_size 4096 (unat (PIPE_HEAD ?x)) (unat (PIPE_TAIL ?x))"
      using that n(2) sz(1) PIPE_SIZE_ring [OF ht] by simp
    ultimately show ?thesis using that
      by (simp add: pipe_queue_def Let_def ring_contents_def get_byte_def pipe_drop_def upd_inode_def add.assoc)
  qed
  have "read_pipe_round i (count, buf, rd) s es = Ret (Inl (count - n, buf + of_nat n, rd + n))
      (fold (\<lambda>k. put_fs_byte (get_byte (pipe_drop i n s) (?a k)) (buf + of_nat k)) [0..<n] (pipe_drop i n s)) es"
    using c(1) pipe_wait_run [of PIPE_SIZE, OF sz(2)]
    by (simp add: read_pipe_round_def krun Let_def fold_read_bytes n_def [symmetric] pipe_drop_def upd_inode_def)
  moreover have "fold (\<lambda>k. put_fs_byte (get_byte (pipe_drop i n s) (?a k)) (buf + of_nat k)) [0..<n] (pipe_drop i n s) =
      user_store buf ?xs (pipe_drop i n s)"
    unfolding user_store_def len by (rule fold_cong) (use nth in simp_all)
  ultimately show ?thesis using n by auto
qed

lemma read_rounds:
  "pipe_ok i s \<Longrightarrow> count \<le> length (pipe_queue i s) \<Longrightarrow> count < fuel \<Longrightarrow>
   iter_fuel fuel (read_pipe_round i) (count, buf, rd) s es =
     Ret (int (rd + count)) (wake_up_q (Q_inode i)
       (user_store buf (take count (pipe_queue i s)) (pipe_drop i count s))) es"
proof (induction fuel arbitrary: count buf rd s)
  case (Suc fuel)
  show ?case
  proof (cases "count = 0")
    case True
    have "pipe_drop i 0 s = s"
      using Suc.prems(1) by (simp add: pipe_drop_def upd_inode_def pipe_ok_def pipe_step_simps PIPE_TAIL_def)
    then show ?thesis using True by (simp add: read_pipe_round_def krun wake_up_def user_store_def)
  next
    case False
    obtain n where n: "0 < n" "n \<le> count" "read_pipe_round i (count, buf, rd) s es =
        Ret (Inl (count - n, buf + of_nat n, rd + n)) (user_store buf (take n (pipe_queue i s)) (pipe_drop i n s)) es"
      using read_round_run [OF Suc.prems(1) False Suc.prems(2)] by blast
    let ?t = "user_store buf (take n (pipe_queue i s)) (pipe_drop i n s)"
    have t: "pipe_ok i ?t" "pipe_queue i ?t = drop n (pipe_queue i s)"
      using pipe_drop_queue [OF Suc.prems(1), of n] Suc.prems(2) n(2) by (simp_all add: pipe_queue_user_store)
    have "take count (pipe_queue i s) = take n (pipe_queue i s) @ take (count - n) (drop n (pipe_queue i s))"
      using n(2) by (metis le_add_diff_inverse take_add)
    moreover have "length (take n (pipe_queue i s)) = n" using Suc.prems(2) n(2) by simp
    ultimately have "user_store (buf + of_nat n) (take (count - n) (pipe_queue i ?t)) (pipe_drop i (count - n) ?t) =
        user_store buf (take count (pipe_queue i s)) (pipe_drop i count s)"
      using n(2) unfolding t(2) by (simp add: pipe_drop_simps user_store_append)
    then show ?thesis
      using Suc.IH [of ?t "count - n" "buf + of_nat n" "rd + n"] t Suc.prems n by (simp add: krun)
  qed
qed simp


text \<open>\<open>wake_up\<close> on the pipe changes neither its bytes nor the user space.\<close>

lemma pipe_wake [simp]:
  "pipe_queue i (wake_up_q (Q_inode j) s) = pipe_queue i s" "pipe_ok i (wake_up_q (Q_inode j) s) = pipe_ok i s"
  "user_bytes (wake_up_q (Q_inode j) s) a n = user_bytes s a n"
  by (auto simp: wake_up_q_def pipe_queue_def pipe_ok_def user_bytes_def get_byte_def set_state_def upd_task_def
      upd_inode_def PIPE_HEAD_def PIPE_TAIL_def Let_def split: option.split)

subsection \<open>Calls that fit\<close>

lemma write_pipe_run:
  assumes "pipe_ok i s" "length (pipe_queue i s) + n < 4096"
  shows "\<exists>s'. write_pipe i buf (int n) s es = Ret (int n) s' es \<and> pipe_ok i s' \<and>
    pipe_queue i s' = pipe_queue i s @ user_bytes s buf n"
proof -
  have "length (user_bytes s buf n) = n" by (simp add: user_bytes_def)
  then show ?thesis
    using write_rounds [OF assms, of "Suc n" buf 0 es] pipe_put_queue [OF assms(1), of "user_bytes s buf n"] assms(2)
    by (simp add: write_pipe_def)
qed

lemma read_pipe_run:
  assumes "pipe_ok i s" "n \<le> length (pipe_queue i s)"
  shows "\<exists>s'. read_pipe i buf (int n) s es = Ret (int n) s' es \<and> pipe_ok i s' \<and>
    pipe_queue i s' = drop n (pipe_queue i s) \<and> user_bytes s' buf n = take n (pipe_queue i s)"
proof -
  let ?q = "pipe_queue i s"
  have len: "length (take n ?q) = n" "length (take n ?q) \<le> 4096"
    using assms pq.queue_bound [OF assms(1)] by simp_all
  have "user_bytes (user_store buf (take n ?q) (pipe_drop i n s)) buf n = take n ?q"
    using user_bytes_store [OF len(2)] len(1) by simp
  then show ?thesis
    using read_rounds [OF assms, of "Suc n" buf 0 es] pipe_drop_queue [OF assms]
    by (simp add: read_pipe_def pipe_queue_user_store)
qed

subsection \<open>Runs of a pipe\<close>

text \<open>
  A run: calls of \<open>write_pipe\<close> and \<open>read_pipe\<close> that fit, and steps that leave the pipe alone.
  \<open>ws\<close> are the bytes written and \<open>rs\<close> the bytes that arrived in the buffers of the readers.
\<close>

inductive pipe_trace :: "iptr \<Rightarrow> kernel \<Rightarrow> u8 list \<Rightarrow> u8 list \<Rightarrow> kernel \<Rightarrow> bool" for i s where
  start: "pipe_trace i s [] [] s"
| put: "pipe_trace i s ws rs t \<Longrightarrow> length (pipe_queue i t) + n < 4096 \<Longrightarrow>
    write_pipe i buf (int n) t es = Ret r t' es' \<Longrightarrow> pipe_trace i s (ws @ user_bytes t buf n) rs t'"
| take: "pipe_trace i s ws rs t \<Longrightarrow> n \<le> length (pipe_queue i t) \<Longrightarrow>
    read_pipe i buf (int n) t es = Ret r t' es' \<Longrightarrow> pipe_trace i s ws (rs @ user_bytes t' buf n) t'"
| other: "pipe_trace i s ws rs t \<Longrightarrow> pipe_queue i t' = pipe_queue i t \<Longrightarrow> pipe_ok i t' = pipe_ok i t \<Longrightarrow>
    pipe_trace i s ws rs t'"

inductive_cases pipe_traceE: "pipe_trace i s ws rs t"

lemma pipe_trace_step:
  assumes "pipe_trace i s ws rs t" "pipe_ok i s"
  shows "pipe_ok i t \<and> rs @ pipe_queue i t = pipe_queue i s @ ws"
  using assms
proof (induction rule: pipe_trace.induct)
  case (put ws rs t n buf es r t' es')
  then show ?case using write_pipe_run [of i t n buf es] by auto
next
  case (take ws rs t n buf es r t' es')
  obtain s' where s': "read_pipe i buf (int n) t es = Ret (int n) s' es" "pipe_ok i s'"
    "pipe_queue i s' = drop n (pipe_queue i t)" "user_bytes s' buf n = take n (pipe_queue i t)"
    using read_pipe_run [of i t n buf es] take by blast
  then have "t' = s'" using take.hyps by simp
  then show ?case using s' take by simp
qed auto

lemma pipe0: "pipe_ok 0 blank_kernel" "pipe_queue 0 blank_kernel = []"
  by (simp_all add: pipe_ok_def pipe_queue_def PIPE_HEAD_def PIPE_TAIL_def blank_kernel_def blank_m_inode_def
      ring_contents_def ring_size_def Let_def)

subsection \<open>Properties\<close>

text \<open>
  Writing \<open>n\<close> bytes to a pipe with room for them: \<open>write_pipe\<close> returns \<open>n\<close> without sleeping
  and the queue is extended by the bytes of the user buffer, in order, even when the ring wraps.
\<close>

lemma write_pipe_appends:
  assumes "pipe_ok i s" "length (pipe_queue i s) + n < 4096"
  shows "\<exists>s'. write_pipe i buf (int n) s es = Ret (int n) s' es \<and> pipe_ok i s' \<and>
    pipe_queue i s' = pipe_queue i s @ user_bytes s buf n"
  using assms by (rule write_pipe_run)

lemma write_pipe_appends_witness:
  "\<exists>s'. write_pipe 0 0x100 (int 4095) blank_kernel [] = Ret (int 4095) s' [] \<and> length (pipe_queue 0 s') = 4095"
  using write_pipe_appends [OF pipe0(1), of 4095 "0x100" "[]"] pipe0(2) by (auto simp: user_bytes_def)

text \<open>
  Reading \<open>n\<close> bytes from a pipe that holds them: \<open>read_pipe\<close> returns \<open>n\<close> without sleeping, the
  user buffer holds the first \<open>n\<close> bytes of the queue, and the rest stays in the queue.
\<close>

lemma read_pipe_takes:
  assumes "pipe_ok i s" "n \<le> length (pipe_queue i s)"
  shows "\<exists>s'. read_pipe i buf (int n) s es = Ret (int n) s' es \<and> pipe_ok i s' \<and>
    pipe_queue i s' = drop n (pipe_queue i s) \<and> user_bytes s' buf n = take n (pipe_queue i s)"
  using assms by (rule read_pipe_run)

lemma read_pipe_takes_witness:
  "\<exists>s s'. pipe_queue 0 s = user_bytes blank_kernel 0x100 3 \<and> read_pipe 0 0x200 (int 2) s [] = Ret (int 2) s' [] \<and>
    user_bytes s' 0x200 2 = user_bytes blank_kernel 0x100 2"
proof -
  obtain s where s: "pipe_ok 0 s" "pipe_queue 0 s = user_bytes blank_kernel 0x100 3"
    using write_pipe_run [OF pipe0(1), of 3 "0x100" "[]"] pipe0(2) by auto
  have "take 2 (user_bytes blank_kernel 0x100 3) = user_bytes blank_kernel 0x100 2"
    by (simp add: user_bytes_def take_map numeral_eq_Suc)
  then show ?thesis using read_pipe_takes [OF s(1), of 2 "0x200" "[]"] s by (auto simp: user_bytes_def)
qed

text \<open>
  C13. The pipe refines a first-in first-out queue: in every run of writes and reads that fit,
  whatever the tasks do in between that does not touch the pipe, the bytes read so far followed
  by the bytes still in the pipe are the bytes that were in the pipe at the start followed by
  the bytes written.
\<close>

lemma pipe_fifo:
  assumes "pipe_trace i s ws rs t" "pipe_ok i s"
  shows "rs @ pipe_queue i t = pipe_queue i s @ ws"
  using pipe_trace_step [OF assms] by simp

lemma pipe_fifo_witness:
  "\<exists>t. pipe_trace 0 blank_kernel (user_bytes blank_kernel 0x100 2) [] t \<and>
    pipe_queue 0 t = user_bytes blank_kernel 0x100 2"
proof -
  obtain t where t: "write_pipe 0 0x100 (int 2) blank_kernel [] = Ret (int 2) t []"
    using write_rounds [OF pipe0(1), of 2 3 "0x100" 0 "[]"] pipe0(2) by (simp add: write_pipe_def)
  have "length (pipe_queue 0 blank_kernel) + 2 < 4096" using pipe0(2) by simp
  from pipe_trace.put [OF pipe_trace.start this t]
  have tr: "pipe_trace 0 blank_kernel (user_bytes blank_kernel 0x100 2) [] t" by simp
  from pipe_fifo [OF tr pipe0(1)] tr show ?thesis using pipe0(2) by auto
qed

text \<open>
  C30. A reader of an empty pipe whose other end is closed gets 0 (end of file), and a writer to a
  full pipe whose other end is closed gets \<open>- 1\<close> and the signal SIGPIPE; neither sleeps.
\<close>

lemma pipe_closed:
  assumes "pipe_ok i s" "i_count (inode_table s i) \<noteq> 2" "0 < n"
  shows "(pipe_queue i s = [] \<longrightarrow> read_pipe i buf n s es = Ret 0 (wake_up_q (Q_inode i) s) es) \<and>
    (length (pipe_queue i s) = 4095 \<longrightarrow> write_pipe i buf n s es = Ret (- 1)
      (upd_cur (\<lambda>t. t\<lparr>signal := signal t OR sigbit SIGPIPE\<rparr>) (wake_up_q (Q_inode i) s)) es)"
proof -
  have ht: "unat (PIPE_HEAD (inode_table s i)) < 4096" "unat (PIPE_TAIL (inode_table s i)) < 4096"
    using assms(1) by (simp_all add: pipe_ok_def)
  have q: "length (pipe_queue i s) = PIPE_SIZE (inode_table s i)"
    by (simp add: pipe_queue_def Let_def PIPE_SIZE_ring [OF ht])
  have c: "i_count (inode_table (wake_up_q (Q_inode i) s) i) \<noteq> 2"
    using assms(2) by (simp add: wake_up_q_def set_state_def upd_task_def upd_inode_def split: option.split)
  have w: "pipe_wait avail i s es = Ret None (wake_up_q (Q_inode i) s) es" if "avail (inode_table s i) = 0" for avail
    using that c by (simp add: pipe_wait_def retry_def krun wake_up_def)
  have "read_pipe i buf n s es = Ret 0 (wake_up_q (Q_inode i) s) es" if "pipe_queue i s = []"
    using that assms(3) w [of PIPE_SIZE] q by (simp add: read_pipe_def read_pipe_round_def krun)
  moreover have "write_pipe i buf n s es = Ret (- 1)
      (upd_cur (\<lambda>t. t\<lparr>signal := signal t OR sigbit SIGPIPE\<rparr>) (wake_up_q (Q_inode i) s)) es"
    if "length (pipe_queue i s) = 4095"
    using that assms(3) w [of pipe_room] q
    by (simp add: write_pipe_def write_pipe_round_def krun pipe_room_def PAGE_SIZE_def)
  ultimately show ?thesis by blast
qed

lemma pipe_closed_witness:
  "read_pipe 0 0x100 10 blank_kernel [] = Ret 0 (wake_up_q (Q_inode 0) blank_kernel) []"
  using pipe_closed [OF pipe0(1), of 10 "0x100" "[]"] pipe0(2) by (simp add: blank_kernel_def blank_m_inode_def)

end
