(* ===== verification/Ctype.thy ===== *)
theory Ctype
  imports Prelude
begin

unbundle bit_operations_syntax

text \<open>
  lib/ctype.c and include/ctype.h: the table of character classes.  It is indexed by a signed
  character plus one, so only the characters \<open>- 1\<close> to 255 are in it; \<open>None\<close> is an access outside.
\<close>

definition ctype_U :: u8 where [kconst]: "ctype_U = 0x01"
definition ctype_L :: u8 where [kconst]: "ctype_L = 0x02"
definition ctype_D :: u8 where [kconst]: "ctype_D = 0x04"
definition ctype_C :: u8 where [kconst]: "ctype_C = 0x08"
definition ctype_P :: u8 where [kconst]: "ctype_P = 0x10"
definition ctype_S :: u8 where [kconst]: "ctype_S = 0x20"
definition ctype_X :: u8 where [kconst]: "ctype_X = 0x40"
definition ctype_SP :: u8 where [kconst]: "ctype_SP = 0x80"

definition ctype_table :: "u8 list" where
  "ctype_table = [0] @
     replicate 9 ctype_C @ replicate 5 (ctype_C OR ctype_S) @ replicate 18 ctype_C @
     [ctype_S OR ctype_SP] @ replicate 15 ctype_P @ replicate 10 ctype_D @ replicate 7 ctype_P @
     replicate 6 (ctype_U OR ctype_X) @ replicate 20 ctype_U @ replicate 6 ctype_P @
     replicate 6 (ctype_L OR ctype_X) @ replicate 20 ctype_L @ replicate 4 ctype_P @ [ctype_C] @
     replicate 128 0"

definition ctype_test :: "u8 \<Rightarrow> int \<Rightarrow> bool option" where
  "ctype_test cls c = (if c < - 1 \<or> c > 255 then None
     else Some (ctype_table ! nat (c + 1) AND cls \<noteq> 0))"

definition isalnum :: "int \<Rightarrow> bool option" where
  "isalnum = ctype_test (ctype_U OR ctype_L OR ctype_D)"
definition isalpha :: "int \<Rightarrow> bool option" where "isalpha = ctype_test (ctype_U OR ctype_L)"
definition iscntrl :: "int \<Rightarrow> bool option" where "iscntrl = ctype_test ctype_C"
definition isdigit :: "int \<Rightarrow> bool option" where "isdigit = ctype_test ctype_D"
definition isgraph :: "int \<Rightarrow> bool option" where
  "isgraph = ctype_test (ctype_P OR ctype_U OR ctype_L OR ctype_D)"
definition islower :: "int \<Rightarrow> bool option" where "islower = ctype_test ctype_L"
definition isprint :: "int \<Rightarrow> bool option" where
  "isprint = ctype_test (ctype_P OR ctype_U OR ctype_L OR ctype_D OR ctype_SP)"
definition ispunct :: "int \<Rightarrow> bool option" where "ispunct = ctype_test ctype_P"
definition isspace :: "int \<Rightarrow> bool option" where "isspace = ctype_test ctype_S"
definition isupper :: "int \<Rightarrow> bool option" where "isupper = ctype_test ctype_U"
definition isxdigit :: "int \<Rightarrow> bool option" where "isxdigit = ctype_test (ctype_D OR ctype_X)"

definition isascii :: "int \<Rightarrow> bool" where "isascii c \<longleftrightarrow> c mod 4294967296 \<le> 0x7f"
definition toascii :: "int \<Rightarrow> int" where "toascii c = c mod 128"

text \<open>\<open>'A' - 'a'\<close> is \<open>- 32\<close>.\<close>

definition tolower :: "int \<Rightarrow> int option" where
  "tolower c = map_option (\<lambda>u. if u then c + 32 else c) (isupper c)"

definition toupper :: "int \<Rightarrow> int option" where
  "toupper c = map_option (\<lambda>l. if l then c - 32 else c) (islower c)"

subsection \<open>Properties\<close>

text \<open>What the classes mean for ASCII.\<close>

definition ascii_class :: "int \<Rightarrow> bool \<times> bool \<times> bool \<times> bool \<times> bool \<times> bool" where
  "ascii_class c = (65 \<le> c \<and> c \<le> 90, 97 \<le> c \<and> c \<le> 122, 48 \<le> c \<and> c \<le> 57,
     c < 32 \<or> c = 127, c = 32 \<or> (9 \<le> c \<and> c \<le> 13),
     48 \<le> c \<and> c \<le> 57 \<or> 65 \<le> c \<and> c \<le> 70 \<or> 97 \<le> c \<and> c \<le> 102)"

definition table_class :: "int \<Rightarrow> (bool \<times> bool \<times> bool \<times> bool \<times> bool \<times> bool) option" where
  "table_class c = (case (isupper c, islower c, isdigit c, iscntrl c, isspace c, isxdigit c) of
     (Some u, Some l, Some d, Some k, Some s, Some x) \<Rightarrow> Some (u, l, d, k, s, x) | _ \<Rightarrow> None)"

lemma table_class_all: "list_all (\<lambda>c. table_class c = Some (ascii_class c)) [0..127]"
  by code_simp

lemma case_all: "list_all (\<lambda>c. (65 \<le> c \<and> c \<le> 90 \<longrightarrow> tolower c = Some (c + 32) \<and> toupper (c + 32) = Some c) \<and>
    (\<not> (65 \<le> c \<and> c \<le> 90) \<longrightarrow> tolower c = Some c)) [0..127]"
  by code_simp

text \<open>
  The table of character classes agrees with the ASCII definition of upper case, lower case,
  digit, control, space and hexadecimal digit on every ASCII character.
\<close>

lemma ctype_table_ascii: "0 \<le> c \<Longrightarrow> c < 128 \<Longrightarrow> table_class c = Some (ascii_class c)"
  using table_class_all by (simp add: list_all_iff)

lemma ctype_table_ascii_witness: "table_class 70 = Some (True, False, False, False, False, True)"
  using ctype_table_ascii [of 70] by (simp add: ascii_class_def)

text \<open>
  Converting case: \<open>tolower\<close> moves exactly the upper case letters, to the letter that
  \<open>toupper\<close> moves back, and leaves every other ASCII character as it is.
\<close>

lemma case_roundtrip:
  assumes "0 \<le> c" "c < 128"
  shows "tolower c = Some (if 65 \<le> c \<and> c \<le> 90 then c + 32 else c) \<and>
    (65 \<le> c \<and> c \<le> 90 \<longrightarrow> toupper (c + 32) = Some c)"
  using case_all assms by (auto simp: list_all_iff)

lemma case_roundtrip_witness: "tolower 65 = Some 97 \<and> toupper (65 + 32) = Some 65"
  using case_roundtrip [of 65] by simp

end
