(* ===== verification/Tty.thy ===== *)
theory Tty
  imports Namei Usermem Ringbuf Ctype
begin

unbundle bit_operations_syntax

text \<open>
  kernel/chr_drv/tty_io.c, serial.c and console.c: terminals.  A terminal is its index in
  \<open>tty_table\<close> (0 is the console, 1 and 2 are serial lines).  Characters are bytes; where the code
  compares them as \<open>signed char\<close>, the value is the signed integer.
\<close>

subsection \<open>Queues (include/linux/tty.h)\<close>

definition TTY_BUF_SIZE :: nat where [kconst]: "TTY_BUF_SIZE = 1024"

definition EMPTY :: "tty_queue \<Rightarrow> bool" where "EMPTY q \<longleftrightarrow> q_head q = q_tail q"
definition LEFT :: "tty_queue \<Rightarrow> u32" where "LEFT q = (q_tail q - q_head q - 1) AND 0x3ff"
definition LAST :: "tty_queue \<Rightarrow> u8" where "LAST q = q_buf q (unat ((q_head q - 1) AND 0x3ff))"
definition FULL :: "tty_queue \<Rightarrow> bool" where "FULL q \<longleftrightarrow> LEFT q = 0"
definition CHARS :: "tty_queue \<Rightarrow> nat" where "CHARS q = unat ((q_head q - q_tail q) AND 0x3ff)"

definition INC :: "u32 \<Rightarrow> u32" where "INC a = (a + 1) AND 0x3ff"
definition DEC :: "u32 \<Rightarrow> u32" where "DEC a = (a - 1) AND 0x3ff"

definition GETCH :: "tty_queue \<Rightarrow> tty_queue" where "GETCH q = q\<lparr>q_tail := INC (q_tail q)\<rparr>"

definition PUTCH :: "u8 \<Rightarrow> tty_queue \<Rightarrow> tty_queue" where
  "PUTCH c q = q\<lparr>q_buf := (q_buf q)(unat (q_head q) := c), q_head := INC (q_head q)\<rparr>"

definition next_char :: "tty_queue \<Rightarrow> u8" where "next_char q = q_buf q (unat (q_tail q))"

definition upd_read :: "nat \<Rightarrow> (tty_queue \<Rightarrow> tty_queue) \<Rightarrow> kernel \<Rightarrow> kernel" where
  "upd_read ch f = upd_tty ch (\<lambda>t. t\<lparr>read_q := f (read_q t)\<rparr>)"

definition upd_write :: "nat \<Rightarrow> (tty_queue \<Rightarrow> tty_queue) \<Rightarrow> kernel \<Rightarrow> kernel" where
  "upd_write ch f = upd_tty ch (\<lambda>t. t\<lparr>write_q := f (write_q t)\<rparr>)"

definition upd_secondary :: "nat \<Rightarrow> (tty_queue \<Rightarrow> tty_queue) \<Rightarrow> kernel \<Rightarrow> kernel" where
  "upd_secondary ch f = upd_tty ch (\<lambda>t. t\<lparr>secondary := f (secondary t)\<rparr>)"

text \<open>Control characters and flags (include/termios.h); \<open>cc\<close> and \<open>flag\<close> read the terminal.\<close>

definition cc :: "nat \<Rightarrow> tty_struct \<Rightarrow> int" where "cc k t = uint (c_cc (termios t) k)"

definition INTR_CHAR :: "tty_struct \<Rightarrow> int" where "INTR_CHAR = cc 0"
definition QUIT_CHAR :: "tty_struct \<Rightarrow> int" where "QUIT_CHAR = cc 1"
definition ERASE_CHAR :: "tty_struct \<Rightarrow> int" where "ERASE_CHAR = cc 2"
definition KILL_CHAR :: "tty_struct \<Rightarrow> int" where "KILL_CHAR = cc 3"
definition EOF_CHAR :: "tty_struct \<Rightarrow> int" where "EOF_CHAR = cc 4"
definition START_CHAR :: "tty_struct \<Rightarrow> int" where "START_CHAR = cc 8"
definition STOP_CHAR :: "tty_struct \<Rightarrow> int" where "STOP_CHAR = cc 9"

definition L_FLAG :: "tty_struct \<Rightarrow> u32 \<Rightarrow> bool" where "L_FLAG t f \<longleftrightarrow> c_lflag (termios t) AND f \<noteq> 0"
definition I_FLAG :: "tty_struct \<Rightarrow> u32 \<Rightarrow> bool" where "I_FLAG t f \<longleftrightarrow> c_iflag (termios t) AND f \<noteq> 0"
definition O_FLAG :: "tty_struct \<Rightarrow> u32 \<Rightarrow> bool" where "O_FLAG t f \<longleftrightarrow> c_oflag (termios t) AND f \<noteq> 0"

definition L_CANON :: "tty_struct \<Rightarrow> bool" where "L_CANON t = L_FLAG t 0x2"
definition L_ISIG :: "tty_struct \<Rightarrow> bool" where "L_ISIG t = L_FLAG t 0x1"
definition L_ECHO :: "tty_struct \<Rightarrow> bool" where "L_ECHO t = L_FLAG t 0x8"
definition L_ECHOCTL :: "tty_struct \<Rightarrow> bool" where "L_ECHOCTL t = L_FLAG t 0x200"
definition I_UCLC :: "tty_struct \<Rightarrow> bool" where "I_UCLC t = I_FLAG t 0x200"
definition I_NLCR :: "tty_struct \<Rightarrow> bool" where "I_NLCR t = I_FLAG t 0x40"
definition I_CRNL :: "tty_struct \<Rightarrow> bool" where "I_CRNL t = I_FLAG t 0x100"
definition I_NOCR :: "tty_struct \<Rightarrow> bool" where "I_NOCR t = I_FLAG t 0x80"
definition O_POST :: "tty_struct \<Rightarrow> bool" where "O_POST t = O_FLAG t 0x1"
definition O_NLCR :: "tty_struct \<Rightarrow> bool" where "O_NLCR t = O_FLAG t 0x4"
definition O_CRNL :: "tty_struct \<Rightarrow> bool" where "O_CRNL t = O_FLAG t 0x8"
definition O_NLRET :: "tty_struct \<Rightarrow> bool" where "O_NLRET t = O_FLAG t 0x20"
definition O_LCUC :: "tty_struct \<Rightarrow> bool" where "O_LCUC t = O_FLAG t 0x2"

definition INTMASK :: u32 where "INTMASK = sigbit SIGINT"
definition QUITMASK :: u32 where "QUITMASK = sigbit SIGQUIT"
definition ALRMMASK :: u32 where "ALRMMASK = sigbit SIGALRM"

subsection \<open>Signals and sleeping\<close>

definition tty_intr :: "nat \<Rightarrow> u32 \<Rightarrow> kernel \<Rightarrow> kernel" where
  "tty_intr ch m s = (let pg = tty_pgrp (tty_table s ch) in
     if pg \<le> 0 then s
     else fold (\<lambda>i s. case task s i of
         None \<Rightarrow> s
       | Some p \<Rightarrow> if pgrp (tsk s p) = pg then upd_task p (\<lambda>t. t\<lparr>signal := signal t OR m\<rparr>) s else s)
       [0..<NR_TASKS] s)"

definition sleep_if_empty :: "nat \<Rightarrow> unit K" where
  "sleep_if_empty ch = sleep_while (\<lambda>s. signal (cur s) = 0 \<and> EMPTY (secondary (tty_table s ch)))
     (interruptible_sleep_on (Q_secondary ch))"

definition sleep_if_full :: "nat \<Rightarrow> unit K" where
  "sleep_if_full ch = bnd (gets (\<lambda>s. FULL (write_q (tty_table s ch)))) (\<lambda>full. guardK full
     (sleep_while (\<lambda>s. signal (cur s) = 0 \<and> LEFT (write_q (tty_table s ch)) < 128)
       (interruptible_sleep_on (Q_write ch))))"

definition wait_for_keypress :: "unit K" where
  "wait_for_keypress = sleep_if_empty 0"

subsection \<open>copy_to_cooked\<close>

text \<open>
  \<open>w\<close> is the call through \<open>tty->write\<close>.  \<open>echo_rubout\<close> erases the last character on the screen:
  two characters wide when it was echoed as \<open>^X\<close>.
\<close>

definition echo_rubout :: "(nat \<Rightarrow> unit K) \<Rightarrow> nat \<Rightarrow> int \<Rightarrow> unit K" where
  "echo_rubout w ch c = bnd (gets (\<lambda>s. L_ECHO (tty_table s ch))) (\<lambda>e. guardK e (block
     [guardK (c < 32) (modify (upd_write ch (PUTCH 127))),
      modify (upd_write ch (PUTCH 127)),
      w ch]))"

definition line_end :: "nat \<Rightarrow> kernel \<Rightarrow> bool" where
  "line_end ch s = (let t = tty_table s ch; c = sint (LAST (secondary t))
     in EMPTY (secondary t) \<or> c = 10 \<or> c = EOF_CHAR t)"

text \<open>\<open>KILL_CHAR\<close>: rub out the line; the queue has 1024 slots.\<close>

fun kill_line :: "nat \<Rightarrow> (nat \<Rightarrow> unit K) \<Rightarrow> nat \<Rightarrow> unit K" where
  "kill_line 0 w ch = stop Hung"
| "kill_line (Suc n) w ch = bnd (gets (line_end ch)) (\<lambda>e.
     if e then skip
     else seq (bnd (gets (\<lambda>s. sint (LAST (secondary (tty_table s ch))))) (echo_rubout w ch))
       (seq (modify (upd_secondary ch (\<lambda>q. q\<lparr>q_head := DEC (q_head q)\<rparr>))) (kill_line n w ch)))"

definition erase_char :: "(nat \<Rightarrow> unit K) \<Rightarrow> nat \<Rightarrow> unit K" where
  "erase_char w ch = bnd (gets (line_end ch)) (\<lambda>e.
     if e then skip
     else block
       [bnd (gets (\<lambda>s. sint (LAST (secondary (tty_table s ch))))) (echo_rubout w ch),
        modify (upd_secondary ch (\<lambda>q. q\<lparr>q_head := DEC (q_head q)\<rparr>))])"

text \<open>The input translation: \<open>None\<close> drops the character.\<close>

definition map_input :: "tty_struct \<Rightarrow> int \<Rightarrow> int option" where
  "map_input t c =
     (if c = 13 then if I_CRNL t then Some 10 else if I_NOCR t then None else Some c
      else if c = 10 \<and> I_NLCR t then Some 13 else Some c)"

definition echo_char :: "(nat \<Rightarrow> unit K) \<Rightarrow> nat \<Rightarrow> int \<Rightarrow> unit K" where
  "echo_char w ch c = bnd (gets (\<lambda>s. tty_table s ch)) (\<lambda>t. guardK (L_ECHO t) (block
     [if c = 10 then modify (upd_write ch (PUTCH 13 \<circ> PUTCH 10))
      else if c < 32
      then guardK (L_ECHOCTL t) (modify (upd_write ch (PUTCH (word_of_int (c + 64)) \<circ> PUTCH 0x5E)))
      else modify (upd_write ch (PUTCH (word_of_int c))),
      w ch]))"

definition cook_char :: "(nat \<Rightarrow> unit K) \<Rightarrow> nat \<Rightarrow> int \<Rightarrow> unit K" where
  "cook_char w ch c = bnd (gets (\<lambda>s. tty_table s ch)) (\<lambda>t.
     if L_CANON t \<and> c = KILL_CHAR t then kill_line TTY_BUF_SIZE w ch
     else if L_CANON t \<and> c = ERASE_CHAR t then erase_char w ch
     else if L_CANON t \<and> c = STOP_CHAR t then modify (upd_tty ch (\<lambda>t. t\<lparr>tty_stopped := 1\<rparr>))
     else if L_CANON t \<and> c = START_CHAR t then modify (upd_tty ch (\<lambda>t. t\<lparr>tty_stopped := 0\<rparr>))
     else if L_ISIG t \<and> c = INTR_CHAR t then modify (tty_intr ch INTMASK)
     else if L_ISIG t \<and> c = QUIT_CHAR t then modify (tty_intr ch QUITMASK)
     else block
       [guardK (c = 10 \<or> c = EOF_CHAR t) (modify (upd_secondary ch (\<lambda>q. q\<lparr>q_data := q_data q + 1\<rparr>))),
        echo_char w ch c,
        modify (upd_secondary ch (PUTCH (word_of_int c)))])"

text \<open>
  The main loop.  Every round takes a character from the read queue; only the answers of the
  console to an inquiry in its write queue add some, and an echo never contains one.
\<close>

fun cook_loop :: "nat \<Rightarrow> (nat \<Rightarrow> unit K) \<Rightarrow> nat \<Rightarrow> unit K" where
  "cook_loop 0 w ch = stop Hung"
| "cook_loop (Suc n) w ch = bnd (gets (\<lambda>s. tty_table s ch)) (\<lambda>t.
     if EMPTY (read_q t) \<or> FULL (secondary t) then skip
     else seq (modify (upd_read ch GETCH))
       (seq (case map_input t (sint (next_char (read_q t))) of
           None \<Rightarrow> skip
         | Some c \<Rightarrow> (case (if I_UCLC t then tolower c else Some c) of
             None \<Rightarrow> stop Wild
           | Some c \<Rightarrow> cook_char w ch c))
         (cook_loop n w ch)))"

definition cook :: "(nat \<Rightarrow> unit K) \<Rightarrow> nat \<Rightarrow> unit K" where
  "cook w ch = block [cook_loop 16384 w ch, wake_up (Q_secondary ch)]"

subsection \<open>Serial lines\<close>

definition rs_write :: "nat \<Rightarrow> unit K" where
  "rs_write ch = bnd (gets (\<lambda>s. write_q (tty_table s ch))) (\<lambda>q. guardK (\<not> EMPTY q)
     (bnd (inb (unat (q_data q) + 1)) (\<lambda>v. outb (v OR 0x02) (unat (q_data q) + 1))))"

definition rs_init_port :: "nat \<Rightarrow> unit K" where
  "rs_init_port port = block
     [outb 0x80 (port + 3), outb 0x30 port, outb 0x00 (port + 1), outb 0x03 (port + 3),
      outb 0x0b (port + 4), outb 0x0d (port + 1), bnd (inb port) (\<lambda>_. skip)]"

definition rs_init :: "unit K" where
  "rs_init = block
     [bnd (gets (\<lambda>s. unat (q_data (read_q (tty_table s 1))))) rs_init_port,
      bnd (gets (\<lambda>s. unat (q_data (read_q (tty_table s 2))))) rs_init_port,
      bnd (inb 0x21) (\<lambda>v. outb (v AND 0xE7) 0x21)]"

end
