(* ===== verification/Console.thy ===== *)
theory Console
  imports Tty
begin

unbundle bit_operations_syntax

text \<open>
  kernel/chr_drv/console.c: the screen.  What only moves the cursor or changes cells is a function
  on the \<open>console\<close> record; what also writes to the ports of the video controller is a computation.
\<close>

definition VIDEO_TYPE_MDA :: u8 where [kconst]: "VIDEO_TYPE_MDA = 0x10"
definition VIDEO_TYPE_CGA :: u8 where [kconst]: "VIDEO_TYPE_CGA = 0x11"
definition VIDEO_TYPE_EGAM :: u8 where [kconst]: "VIDEO_TYPE_EGAM = 0x20"
definition VIDEO_TYPE_EGAC :: u8 where [kconst]: "VIDEO_TYPE_EGAC = 0x21"
definition NPAR :: nat where [kconst]: "NPAR = 16"

definition upd_con :: "(console \<Rightarrow> console) \<Rightarrow> kernel \<Rightarrow> kernel" where
  "upd_con f s = s\<lparr>con := f (con s)\<rparr>"

subsection \<open>Video memory: the string instructions\<close>

definition vget :: "(u32 \<Rightarrow> u8) \<Rightarrow> u32 \<Rightarrow> u16" where
  "vget m a = ucast (m a) OR push_bit 8 (ucast (m (a + 1)))"

definition vput :: "u16 \<Rightarrow> u32 \<Rightarrow> (u32 \<Rightarrow> u8) \<Rightarrow> (u32 \<Rightarrow> u8)" where
  "vput v a m = m(a := ucast v, a + 1 := ucast (drop_bit 8 v))"

definition vcopy4 :: "u32 \<Rightarrow> u32 \<Rightarrow> (u32 \<Rightarrow> u8) \<Rightarrow> (u32 \<Rightarrow> u8)" where
  "vcopy4 d a m = m(d := m a, d + 1 := m (a + 1), d + 2 := m (a + 2), d + 3 := m (a + 3))"

text \<open>\<open>rep stosw\<close> and \<open>rep movsl\<close>, upwards (\<open>cld\<close>) and downwards (\<open>std\<close>).\<close>

definition stosw_up :: "u16 \<Rightarrow> u32 \<Rightarrow> nat \<Rightarrow> (u32 \<Rightarrow> u8) \<Rightarrow> (u32 \<Rightarrow> u8)" where
  "stosw_up v d n m = fold (\<lambda>k. vput v (d + of_nat (2 * k))) [0..<n] m"

definition stosw_down :: "u16 \<Rightarrow> u32 \<Rightarrow> nat \<Rightarrow> (u32 \<Rightarrow> u8) \<Rightarrow> (u32 \<Rightarrow> u8)" where
  "stosw_down v d n m = fold (\<lambda>k. vput v (d - of_nat (2 * k))) [0..<n] m"

definition movsl_up :: "u32 \<Rightarrow> u32 \<Rightarrow> nat \<Rightarrow> (u32 \<Rightarrow> u8) \<Rightarrow> (u32 \<Rightarrow> u8)" where
  "movsl_up d a n m = fold (\<lambda>k. vcopy4 (d + of_nat (4 * k)) (a + of_nat (4 * k))) [0..<n] m"

definition movsl_down :: "u32 \<Rightarrow> u32 \<Rightarrow> nat \<Rightarrow> (u32 \<Rightarrow> u8) \<Rightarrow> (u32 \<Rightarrow> u8)" where
  "movsl_down d a n m = fold (\<lambda>k. vcopy4 (d - of_nat (4 * k)) (a - of_nat (4 * k))) [0..<n] m"

subsection \<open>Cursor and scrolling\<close>

definition gotoxy :: "u32 \<Rightarrow> u32 \<Rightarrow> console \<Rightarrow> console" where
  "gotoxy new_x new_y c =
     (if new_x > video_num_columns c \<or> new_y \<ge> video_num_lines c then c
      else c\<lparr>con_x := new_x, con_y := new_y,
        con_pos := con_origin c + new_y * video_size_row c + push_bit 1 new_x\<rparr>)"

definition out_address :: "u8 \<Rightarrow> (console \<Rightarrow> u32) \<Rightarrow> unit K" where
  "out_address reg f = bnd (gets con) (\<lambda>c. let a = f c - video_mem_start c in block
     [outb reg (unat (video_port_reg c)),
      outb (ucast (drop_bit 9 a)) (unat (video_port_val c)),
      outb (reg + 1) (unat (video_port_reg c)),
      outb (ucast (drop_bit 1 a)) (unat (video_port_val c))])"

definition set_origin :: "unit K" where "set_origin = out_address 12 con_origin"
definition set_cursor :: "unit K" where "set_cursor = out_address 14 con_pos"

definition is_ega :: "console \<Rightarrow> bool" where
  "is_ega c \<longleftrightarrow> video_type c = VIDEO_TYPE_EGAC \<or> video_type c = VIDEO_TYPE_EGAM"

text \<open>Moving the lines between \<open>top\<close> and \<open>bottom\<close> up or down by one.\<close>

definition region_longs :: "console \<Rightarrow> nat" where
  "region_longs c = unat (drop_bit 1 ((con_bottom c - con_top c - 1) * video_num_columns c))"

definition region_up :: "console \<Rightarrow> console" where
  "region_up c = (let d = con_origin c + video_size_row c * con_top c; n = region_longs c in
     c\<lparr>vmem := stosw_up (video_erase_char c) (d + of_nat (4 * n)) (unat (video_num_columns c))
       (movsl_up d (con_origin c + video_size_row c * (con_top c + 1)) n (vmem c))\<rparr>)"

definition region_down :: "console \<Rightarrow> console" where
  "region_down c = (let d = con_origin c + video_size_row c * con_bottom c - 4; n = region_longs c in
     c\<lparr>vmem := stosw_down (video_erase_char c) (d - of_nat (4 * n) + 2) (unat (video_num_columns c))
       (movsl_down d (con_origin c + video_size_row c * (con_bottom c - 1) - 4) n (vmem c))\<rparr>)"

text \<open>The fast scroll of EGA and VGA: the window moves down the video memory.\<close>

definition window_up :: "console \<Rightarrow> console" where
  "window_up c = (let row = video_size_row c;
       c1 = c\<lparr>con_origin := con_origin c + row, con_pos := con_pos c + row, con_scr_end := con_scr_end c + row\<rparr>
     in if con_scr_end c1 > video_mem_end c1
        then let n = unat (drop_bit 1 ((video_num_lines c - 1) * video_num_columns c));
                 st = video_mem_start c; off = con_origin c1 - st
             in c1\<lparr>vmem := stosw_up (video_erase_char c) (st + of_nat (4 * n)) (unat (video_num_columns c))
                     (movsl_up st (con_origin c1) n (vmem c)),
                   con_scr_end := con_scr_end c1 - off, con_pos := con_pos c1 - off, con_origin := st\<rparr>
        else c1\<lparr>vmem := stosw_up (video_erase_char c) (con_scr_end c1 - row) (unat (video_num_columns c)) (vmem c)\<rparr>)"

definition full_screen :: "console \<Rightarrow> bool" where
  "full_screen c \<longleftrightarrow> con_top c = 0 \<and> con_bottom c = video_num_lines c"

definition scrup :: "unit K" where
  "scrup = bnd (gets con) (\<lambda>c.
     if is_ega c \<and> full_screen c then block [modify (upd_con window_up), set_origin]
     else modify (upd_con region_up))"

definition scrdown :: "console \<Rightarrow> console" where
  "scrdown c = region_down c"

definition lf :: "unit K" where
  "lf = bnd (gets con) (\<lambda>c.
     if con_y c + 1 < con_bottom c
     then modify (upd_con (\<lambda>c. c\<lparr>con_y := con_y c + 1, con_pos := con_pos c + video_size_row c\<rparr>))
     else scrup)"

definition ri :: "console \<Rightarrow> console" where
  "ri c = (if con_y c > con_top c then c\<lparr>con_y := con_y c - 1, con_pos := con_pos c - video_size_row c\<rparr>
           else scrdown c)"

definition cr :: "console \<Rightarrow> console" where
  "cr c = c\<lparr>con_pos := con_pos c - push_bit 1 (con_x c), con_x := 0\<rparr>"

definition del_char :: "console \<Rightarrow> console" where
  "del_char c = (if con_x c = 0 then c
     else c\<lparr>con_pos := con_pos c - 2, con_x := con_x c - 1,
       vmem := vput (video_erase_char c) (con_pos c - 2) (vmem c)\<rparr>)"

subsection \<open>Erasing, inserting and deleting\<close>

definition erase_cells :: "u32 \<Rightarrow> u32 \<Rightarrow> console \<Rightarrow> console" where
  "erase_cells start n c = c\<lparr>vmem := stosw_up (video_erase_char c) start (unat n) (vmem c)\<rparr>"

definition csi_J :: "u32 \<Rightarrow> console \<Rightarrow> console" where
  "csi_J p c =
     (if p = 0 then erase_cells (con_pos c) (drop_bit 1 (con_scr_end c - con_pos c)) c
      else if p = 1 then erase_cells (con_origin c) (drop_bit 1 (con_pos c - con_origin c)) c
      else if p = 2 then erase_cells (con_origin c) (video_num_columns c * video_num_lines c) c
      else c)"

definition csi_K :: "u32 \<Rightarrow> console \<Rightarrow> console" where
  "csi_K p c = (let bol = con_pos c - push_bit 1 (con_x c) in
     if p = 0 then if con_x c \<ge> video_num_columns c then c
                   else erase_cells (con_pos c) (video_num_columns c - con_x c) c
     else if p = 1 then erase_cells bol (if con_x c < video_num_columns c then con_x c else video_num_columns c) c
     else if p = 2 then erase_cells bol (video_num_columns c) c
     else c)"

definition sgr :: "u32 \<Rightarrow> u8 \<Rightarrow> u8" where
  "sgr p a = (if p = 0 \<or> p = 27 then 0x07 else if p = 1 \<or> p = 4 then 0x0f else if p = 7 then 0x70 else a)"

definition csi_m :: "console \<Rightarrow> console" where
  "csi_m c = c\<lparr>con_attr := fold (\<lambda>i. sgr (con_par c i)) [0..<Suc (con_npar c)] (con_attr c)\<rparr>"

fun shift_right :: "nat \<Rightarrow> u32 \<Rightarrow> u16 \<Rightarrow> (u32 \<Rightarrow> u8) \<Rightarrow> (u32 \<Rightarrow> u8)" where
  "shift_right 0 p old m = m"
| "shift_right (Suc n) p old m = shift_right n (p + 2) (vget m p) (vput old p m)"

definition insert_char :: "console \<Rightarrow> console" where
  "insert_char c = c\<lparr>vmem := shift_right (unat (video_num_columns c) - unat (con_x c)) (con_pos c)
     (video_erase_char c) (vmem c)\<rparr>"

fun shift_left :: "nat \<Rightarrow> u32 \<Rightarrow> u16 \<Rightarrow> (u32 \<Rightarrow> u8) \<Rightarrow> (u32 \<Rightarrow> u8)" where
  "shift_left 0 p v m = vput v p m"
| "shift_left (Suc n) p v m = shift_left n (p + 2) v (vput (vget m (p + 2)) p m)"

definition delete_char :: "console \<Rightarrow> console" where
  "delete_char c = (if con_x c \<ge> video_num_columns c then c
     else c\<lparr>vmem := shift_left (unat (video_num_columns c) - unat (con_x c) - 1) (con_pos c)
       (video_erase_char c) (vmem c)\<rparr>)"

text \<open>\<open>insert_line\<close> and \<open>delete_line\<close> scroll the region from the cursor to the last line.\<close>

definition insert_line :: "console \<Rightarrow> console" where
  "insert_line c = (scrdown (c\<lparr>con_top := con_y c, con_bottom := video_num_lines c\<rparr>))
     \<lparr>con_top := con_top c, con_bottom := con_bottom c\<rparr>"

definition delete_line :: "unit K" where
  "delete_line = bnd (gets con) (\<lambda>c. block
     [modify (upd_con (\<lambda>c. c\<lparr>con_top := con_y c, con_bottom := video_num_lines c\<rparr>)),
      scrup,
      modify (upd_con (\<lambda>d. d\<lparr>con_top := con_top c, con_bottom := con_bottom c\<rparr>))])"

text \<open>The count of a CSI sequence: 0 is 1, and it is cut to the width or height of the screen.\<close>

definition csi_count :: "u32 \<Rightarrow> u32 \<Rightarrow> nat" where
  "csi_count nr most = (if nr > most then unat most else if nr = 0 then 1 else unat nr)"

definition csi_at :: "u32 \<Rightarrow> console \<Rightarrow> console" where
  "csi_at nr c = (insert_char ^^ csi_count nr (video_num_columns c)) c"

definition csi_L :: "u32 \<Rightarrow> console \<Rightarrow> console" where
  "csi_L nr c = (insert_line ^^ csi_count nr (video_num_lines c)) c"

definition csi_P :: "u32 \<Rightarrow> console \<Rightarrow> console" where
  "csi_P nr c = (delete_char ^^ csi_count nr (video_num_columns c)) c"

definition csi_M :: "u32 \<Rightarrow> unit K" where
  "csi_M nr = bnd (gets (\<lambda>s. csi_count nr (video_num_lines (con s)))) (\<lambda>n.
     for_each [0..<n] (\<lambda>_. delete_line))"

definition save_cur :: "console \<Rightarrow> console" where
  "save_cur c = c\<lparr>saved_x := con_x c, saved_y := con_y c\<rparr>"

definition restore_cur :: "console \<Rightarrow> console" where
  "restore_cur c = gotoxy (saved_x c) (saved_y c) c"

definition sysbeep :: "unit K" where
  "sysbeep = block
     [bnd (inb 0x61) (\<lambda>v. outb (v OR 3) 0x61),
      outb 0xB6 0x43, outb 0x37 0x42, outb 0x06 0x42,
      modify (\<lambda>s. s\<lparr>beepcount := HZ div 8\<rparr>)]"

subsection \<open>con_write\<close>

text \<open>The answer to an inquiry: \<open>ESC [ ? 1 ; 2 c\<close> goes to the read queue.\<close>

definition RESPONSE :: "u8 list" where
  "RESPONSE = [27, 0x5B, 0x3F, 0x31, 0x3B, 0x32, 0x63]"

definition respond :: "(nat \<Rightarrow> unit K) \<Rightarrow> nat \<Rightarrow> unit K" where
  "respond w ch = block
     [for_each RESPONSE (\<lambda>v. modify (upd_read ch (PUTCH v))), cook w ch]"

definition wrap_line :: "console \<Rightarrow> console" where
  "wrap_line c = c\<lparr>con_x := con_x c - video_num_columns c, con_pos := con_pos c - video_size_row c\<rparr>"

definition put_char :: "u8 \<Rightarrow> console \<Rightarrow> console" where
  "put_char v c = c\<lparr>vmem := vput (ucast v OR push_bit 8 (ucast (con_attr c))) (con_pos c) (vmem c),
     con_pos := con_pos c + 2, con_x := con_x c + 1\<rparr>"

text \<open>State 0: plain characters and control characters.\<close>

definition con_plain :: "nat \<Rightarrow> u8 \<Rightarrow> unit K" where
  "con_plain ch v = (let c = sint v in
     if c > 31 \<and> c < 127
     then block
       [bnd (gets (\<lambda>s. con_x (con s) \<ge> video_num_columns (con s))) (\<lambda>full.
          guardK full (block [modify (upd_con wrap_line), lf])),
        modify (upd_con (put_char v))]
     else if c = 27 then modify (upd_con (\<lambda>c. c\<lparr>con_state := 1\<rparr>))
     else if c = 10 \<or> c = 11 \<or> c = 12 then lf
     else if c = 13 then modify (upd_con cr)
     else bnd (gets (\<lambda>s. ERASE_CHAR (tty_table s ch))) (\<lambda>er.
       if c = er then modify (upd_con del_char)
       else if c = 8 then modify (upd_con (\<lambda>c. if con_x c = 0 then c
              else c\<lparr>con_x := con_x c - 1, con_pos := con_pos c - 2\<rparr>))
       else if c = 9 then block
         [modify (upd_con (\<lambda>c. let n = 8 - (con_x c AND 7) in
            c\<lparr>con_x := con_x c + n, con_pos := con_pos c + push_bit 1 n\<rparr>)),
          bnd (gets (\<lambda>s. con_x (con s) > video_num_columns (con s))) (\<lambda>past.
            guardK past (block [modify (upd_con wrap_line), lf]))]
       else if c = 7 then sysbeep
       else skip))"

text \<open>State 1: after ESC.  The last two tests are of \<open>x\<close>, the column, not of the character.\<close>

definition con_escape :: "(nat \<Rightarrow> unit K) \<Rightarrow> nat \<Rightarrow> u8 \<Rightarrow> unit K" where
  "con_escape w ch v = seq (modify (upd_con (\<lambda>c. c\<lparr>con_state := 0\<rparr>)))
     (if v = 0x5B then modify (upd_con (\<lambda>c. c\<lparr>con_state := 2\<rparr>))
      else if v = 0x45 then modify (upd_con (\<lambda>c. gotoxy 0 (con_y c + 1) c))
      else if v = 0x4D then modify (upd_con ri)
      else if v = 0x44 then lf
      else if v = 0x5A then respond w ch
      else modify (upd_con (\<lambda>c. if con_x c = 0x37 then save_cur c
        else if con_x c = 0x38 then restore_cur c else c)))"

definition set_par :: "nat \<Rightarrow> (u32 \<Rightarrow> u32) \<Rightarrow> console \<Rightarrow> console" where
  "set_par i f c = c\<lparr>con_par := (con_par c)(i := f (con_par c i))\<rparr>"

definition down1 :: "u32 \<Rightarrow> u32" where "down1 p = (if p \<noteq> 0 then p - 1 else p)"
definition up1 :: "u32 \<Rightarrow> u32" where "up1 p = (if p = 0 then p + 1 else p)"

text \<open>State 4: the command of a CSI sequence.\<close>

definition goto_par :: "(u32 \<Rightarrow> u32) \<Rightarrow> (console \<Rightarrow> u32 \<Rightarrow> u32 \<times> u32) \<Rightarrow> console \<Rightarrow> console" where
  "goto_par f xy c = (let c1 = set_par 0 f c in
     case xy c1 (con_par c1 0) of (nx, ny) \<Rightarrow> gotoxy nx ny c1)"

definition con_csi :: "u8 \<Rightarrow> unit K" where
  "con_csi v =
     (if v = 0x47 \<or> v = 0x60 then modify (upd_con (goto_par down1 (\<lambda>c p. (p, con_y c))))
      else if v = 0x41 then modify (upd_con (goto_par up1 (\<lambda>c p. (con_x c, con_y c - p))))
      else if v = 0x42 \<or> v = 0x65 then modify (upd_con (goto_par up1 (\<lambda>c p. (con_x c, con_y c + p))))
      else if v = 0x43 \<or> v = 0x61 then modify (upd_con (goto_par up1 (\<lambda>c p. (con_x c + p, con_y c))))
      else if v = 0x44 then modify (upd_con (goto_par up1 (\<lambda>c p. (con_x c - p, con_y c))))
      else if v = 0x45 then modify (upd_con (goto_par up1 (\<lambda>c p. (0, con_y c + p))))
      else if v = 0x46 then modify (upd_con (goto_par up1 (\<lambda>c p. (0, con_y c - p))))
      else if v = 0x64 then modify (upd_con (goto_par down1 (\<lambda>c p. (con_x c, p))))
      else if v = 0x48 \<or> v = 0x66
      then modify (upd_con (goto_par down1 (\<lambda>c p. (con_par c 1, p)) \<circ> set_par 1 down1))
      else if v = 0x4A then modify (upd_con (\<lambda>c. csi_J (con_par c 0) c))
      else if v = 0x4B then modify (upd_con (\<lambda>c. csi_K (con_par c 0) c))
      else if v = 0x4C then modify (upd_con (\<lambda>c. csi_L (con_par c 0) c))
      else if v = 0x4D then bnd (gets (\<lambda>s. con_par (con s) 0)) csi_M
      else if v = 0x50 then modify (upd_con (\<lambda>c. csi_P (con_par c 0) c))
      else if v = 0x40 then modify (upd_con (\<lambda>c. csi_at (con_par c 0) c))
      else if v = 0x6D then modify (upd_con csi_m)
      else if v = 0x72 then modify (upd_con (\<lambda>c.
        let c1 = set_par 1 (\<lambda>p. if p = 0 then video_num_lines c else p) (set_par 0 down1 c)
        in if con_par c1 0 < con_par c1 1 \<and> con_par c1 1 \<le> video_num_lines c1
           then c1\<lparr>con_top := con_par c1 0, con_bottom := con_par c1 1\<rparr> else c1))
      else if v = 0x73 then modify (upd_con save_cur)
      else if v = 0x75 then modify (upd_con restore_cur)
      else skip)"

text \<open>States 2 and 3: the parameters; every other character is the command.\<close>

definition con_params :: "u8 \<Rightarrow> unit K" where
  "con_params v = bnd (gets con) (\<lambda>c.
     if v = 0x3B \<and> con_npar c < NPAR - 1 then modify (upd_con (\<lambda>c. c\<lparr>con_npar := con_npar c + 1\<rparr>))
     else if 0x30 \<le> v \<and> v \<le> 0x39
     then modify (upd_con (\<lambda>c. set_par (con_npar c) (\<lambda>p. 10 * p + ucast v - 0x30) c))
     else block [modify (upd_con (\<lambda>c. c\<lparr>con_state := 0\<rparr>)), con_csi v])"

definition con_char :: "(nat \<Rightarrow> unit K) \<Rightarrow> nat \<Rightarrow> u8 \<Rightarrow> unit K" where
  "con_char w ch v = bnd (gets (\<lambda>s. con_state (con s))) (\<lambda>st.
     if st = 0 then con_plain ch v
     else if st = 1 then con_escape w ch v
     else if st = 2 then seq
       (modify (upd_con (\<lambda>c. c\<lparr>con_par := (\<lambda>i. if i < NPAR then 0 else con_par c i),
          con_npar := 0, con_state := 3, con_ques := (v = 0x3F)\<rparr>)))
       (if v = 0x3F then skip else con_params v)
     else if st = 3 then con_params v
     else block [modify (upd_con (\<lambda>c. c\<lparr>con_state := 0\<rparr>)), con_csi v])"

definition con_write_with :: "(nat \<Rightarrow> unit K) \<Rightarrow> nat \<Rightarrow> unit K" where
  "con_write_with w ch = bnd (gets (\<lambda>s. CHARS (write_q (tty_table s ch)))) (\<lambda>n. block
     [for_each [0..<n] (\<lambda>_. bnd (gets (\<lambda>s. next_char (write_q (tty_table s ch)))) (\<lambda>v. block
        [modify (upd_write ch GETCH), con_char w ch v])),
      set_cursor])"

text \<open>
  An inquiry in the output makes the console answer itself, and the echo of the answer calls
  \<open>con_write\<close> again.  Every such call has taken an ESC from the write queue, and an echo puts none
  there, so it is never nested deeper than the queue is long.
\<close>

fun tty_write_nested :: "nat \<Rightarrow> nat \<Rightarrow> unit K" where
  "tty_write_nested 0 ch = stop Hung"
| "tty_write_nested (Suc n) ch = bnd (gets (\<lambda>s. tty_writer (tty_table s ch))) (\<lambda>f. case f of
     Con_write \<Rightarrow> con_write_with (tty_write_nested n) ch | Rs_write \<Rightarrow> rs_write ch)"

definition call_write :: "nat \<Rightarrow> unit K" where
  "call_write = tty_write_nested (TTY_BUF_SIZE + 2)"

definition con_write :: "nat \<Rightarrow> unit K" where
  "con_write = con_write_with call_write"

definition copy_to_cooked :: "nat \<Rightarrow> unit K" where
  "copy_to_cooked = cook call_write"

definition do_tty_interrupt :: "nat \<Rightarrow> unit K" where
  "do_tty_interrupt ch = copy_to_cooked ch"

end
