(* ===== verification/Ttyio.thy ===== *)
theory Ttyio
  imports Console
begin

unbundle bit_operations_syntax

text \<open>
  Reading and writing terminals (\<open>tty_read\<close>, \<open>tty_write\<close> of kernel/chr_drv/tty_io.c), their
  initialisation, and kernel/chr_drv/tty_ioctl.c.
\<close>

subsection \<open>Initialisation\<close>

definition setup_byte :: "kernel \<Rightarrow> u32 \<Rightarrow> u8" where "setup_byte s a = get_byte s (0x90000 + a)"

definition ORIG_X :: "kernel \<Rightarrow> u32" where "ORIG_X s = ucast (setup_byte s 0)"
definition ORIG_Y :: "kernel \<Rightarrow> u32" where "ORIG_Y s = ucast (setup_byte s 1)"
definition ORIG_VIDEO_MODE :: "kernel \<Rightarrow> u8" where "ORIG_VIDEO_MODE s = setup_byte s 6"
definition ORIG_VIDEO_COLS :: "kernel \<Rightarrow> u32" where "ORIG_VIDEO_COLS s = ucast (setup_byte s 7)"
definition ORIG_VIDEO_LINES :: u32 where [kconst]: "ORIG_VIDEO_LINES = 25"
definition ORIG_VIDEO_EGA_BX :: "kernel \<Rightarrow> u8" where "ORIG_VIDEO_EGA_BX s = setup_byte s 10"

text \<open>The display: start and end of its memory, its ports, its type and the name that is shown.\<close>

definition display :: "kernel \<Rightarrow> u32 \<times> u32 \<times> u16 \<times> u8 \<times> u8 list" where
  "display s = (let ega = ORIG_VIDEO_EGA_BX s \<noteq> 0x10 in
     if ORIG_VIDEO_MODE s = 7
     then if ega then (0xb0000, 0xb8000, 0x3b4, VIDEO_TYPE_EGAM, [0x45, 0x47, 0x41, 0x6D])
          else (0xb0000, 0xb2000, 0x3b4, VIDEO_TYPE_MDA, [0x2A, 0x4D, 0x44, 0x41])
     else if ega then (0xb8000, 0xbc000, 0x3d4, VIDEO_TYPE_EGAC, [0x45, 0x47, 0x41, 0x63])
     else (0xb8000, 0xba000, 0x3d4, VIDEO_TYPE_CGA, [0x2A, 0x43, 0x47, 0x41]))"

definition show_name :: "u32 \<Rightarrow> u8 list \<Rightarrow> (u32 \<Rightarrow> u8) \<Rightarrow> (u32 \<Rightarrow> u8)" where
  "show_name a name m = fold (\<lambda>k m. m(a + of_nat (2 * k) := name ! k)) [0..<length name] m"

definition con_setup :: "kernel \<Rightarrow> console \<Rightarrow> console" where
  "con_setup s c = (case display s of (st, en, port, ty, name) \<Rightarrow>
     let cols = ORIG_VIDEO_COLS s; row = cols * 2; lines = ORIG_VIDEO_LINES in
     gotoxy (ORIG_X s) (ORIG_Y s)
       (c\<lparr>video_num_columns := cols, video_size_row := row, video_num_lines := lines,
          video_erase_char := 0x0720, video_mem_start := st, video_mem_end := en,
          video_port_reg := port, video_port_val := port + 1, video_type := ty,
          vmem := show_name (st + row - 8) name (vmem c),
          con_origin := st, con_scr_end := st + lines * row, con_top := 0, con_bottom := lines\<rparr>))"

definition con_init :: "unit K" where
  "con_init = block
     [modify (\<lambda>s. upd_con (con_setup s) s),
      bnd (inb 0x21) (\<lambda>v. outb (v AND 0xfd) 0x21),
      bnd (inb 0x61) (\<lambda>a. block [outb (a OR 0x80) 0x61, outb a 0x61])]"

definition tty_init :: "unit K" where
  "tty_init = block [rs_init, con_init]"

text \<open>The initial \<open>tty_table\<close>: a console in canonical mode and two raw serial lines at 2400 baud.\<close>

definition INIT_C_CC :: "u8 list" where
  "INIT_C_CC = [3, 28, 127, 21, 4, 0, 1, 0, 17, 19, 26, 0, 18, 15, 23, 22, 0]"

definition init_queue :: "u32 \<Rightarrow> tty_queue" where
  "init_queue d = \<lparr>q_data = d, q_head = 0, q_tail = 0, q_proc_list = None, q_buf = (\<lambda>_. 0)\<rparr>"

definition init_termios :: "u32 \<Rightarrow> u32 \<Rightarrow> u32 \<Rightarrow> u32 \<Rightarrow> termios" where
  "init_termios i out c l = \<lparr>c_iflag = i, c_oflag = out, c_cflag = c, c_lflag = l, c_line = 0,
     c_cc = (\<lambda>k. if k < length INIT_C_CC then INIT_C_CC ! k else 0)\<rparr>"

definition init_tty_table :: "nat \<Rightarrow> tty_struct" where
  "init_tty_table ch =
     (if ch = 0
      then \<lparr>termios = init_termios 0x100 0x5 0 0xA0B, tty_pgrp = 0, tty_stopped = 0, tty_writer = Con_write,
             read_q = init_queue 0, write_q = init_queue 0, secondary = init_queue 0\<rparr>
      else let port = (if ch = 1 then 0x3f8 else 0x2f8)
        in \<lparr>termios = init_termios 0 0 0x3B 0, tty_pgrp = 0, tty_stopped = 0, tty_writer = Rs_write,
             read_q = init_queue port, write_q = init_queue port, secondary = init_queue 0\<rparr>)"

subsection \<open>tty_read\<close>

text \<open>The \<open>do\<close> loop: the number of characters copied so far, and whether an end of file came.\<close>

fun read_chars :: "nat \<Rightarrow> nat \<Rightarrow> u32 \<Rightarrow> nat \<Rightarrow> (nat \<times> bool) K" where
  "read_chars 0 ch buf n = ret (n, False)"
| "read_chars (Suc m) ch buf n = bnd (gets (\<lambda>s. tty_table s ch)) (\<lambda>t.
     let v = next_char (secondary t); eof = (sint v = EOF_CHAR t) in
     seq (block
       [modify (upd_secondary ch GETCH),
        guardK (eof \<or> v = 10) (modify (upd_secondary ch (\<lambda>q. q\<lparr>q_data := q_data q - 1\<rparr>)))])
     (if eof \<and> L_CANON t then ret (n, True)
      else seq (modify (put_fs_byte v (buf + of_nat n)))
        (bnd (gets (\<lambda>s. EMPTY (secondary (tty_table s ch)))) (\<lambda>em.
          if m = 0 \<or> em then ret (Suc n, False) else read_chars m ch buf (Suc n)))))"

definition set_alarm :: "int \<Rightarrow> unit K" where
  "set_alarm a = modify (\<lambda>s. upd_cur (\<lambda>t. t\<lparr>alarm := a\<rparr>) s)"

definition read_timer :: "int \<Rightarrow> int \<Rightarrow> kernel \<Rightarrow> bool" where
  "read_timer time oldalarm s \<longleftrightarrow> oldalarm = 0 \<or> wrap32 (time + jiffies s) < oldalarm"

text \<open>
  A line that is not complete yet: the code goes round without sleeping until an interrupt
  brings the rest, which is one step of the rest of the system here.
\<close>

definition tty_read_round :: "nat \<Rightarrow> u32 \<Rightarrow> int \<Rightarrow> int \<Rightarrow> int \<Rightarrow> nat \<times> nat \<times> bool \<Rightarrow> (nat \<times> nat \<times> bool + nat + int) K" where
  "tty_read_round ch buf time minimum oldalarm st = (case st of (nr, n, flg) \<Rightarrow>
     if nr = 0 then ret (Inr (Inl n))
     else bnd (gets (\<lambda>s. (signal (cur s), tty_table s ch))) (\<lambda>(sg, t).
       if flg \<and> sg AND ALRMMASK \<noteq> 0
       then seq (modify (\<lambda>s. upd_cur (\<lambda>t. t\<lparr>signal := signal t AND NOT ALRMMASK\<rparr>) s)) (ret (Inr (Inl n)))
       else if sg \<noteq> 0 then ret (Inr (Inl n))
       else if EMPTY (secondary t) then seq (sleep_if_empty ch) (ret (Inl st))
       else if L_CANON t \<and> q_data (secondary t) = 0 \<and> LEFT (secondary t) > 20 then seq pass (ret (Inl st))
       else bnd (read_chars nr ch buf n) (\<lambda>(n', eof).
         if eof then ret (Inr (Inr (int n')))
         else bnd (gets (\<lambda>s. (read_timer time oldalarm s, jiffies s))) (\<lambda>(tm, now).
           let rearm = (time \<noteq> 0 \<and> \<not> L_CANON t); flg' = (if rearm then tm else flg) in
           seq (guardK rearm (set_alarm (if tm then wrap32 (time + now) else oldalarm)))
           (if (if L_CANON t then n' \<noteq> 0 else int n' \<ge> minimum) then ret (Inr (Inl n'))
            else ret (Inl (nr - (n' - n), n', flg')))))))"

definition tty_read :: "nat \<Rightarrow> u32 \<Rightarrow> int \<Rightarrow> int K" where
  "tty_read channel buf nr =
     (if channel > 2 \<or> nr < 0 then ret (- 1)
      else bnd (gets (\<lambda>s. (tty_table s channel, alarm (cur s), jiffies s))) (\<lambda>(t, oldalarm, now).
        let time = 10 * cc 5 t; vmin = cc 6 t in
        bnd (gets (read_timer time oldalarm)) (\<lambda>tm.
          let once = (time \<noteq> 0 \<and> vmin = 0); flg = (once \<and> tm);
              minimum = min (if once then 1 else vmin) nr in
          seq (guardK flg (set_alarm (wrap32 (time + now))))
          (bnd (with_fuel (\<lambda>k. iter_fuel (k + nat nr + 1)
              (tty_read_round channel buf time minimum oldalarm) (nat nr, 0, flg))) (\<lambda>r. case r of
            Inr n \<Rightarrow> ret n
          | Inl n \<Rightarrow> seq (set_alarm oldalarm) (bnd (gets (\<lambda>s. signal (cur s))) (\<lambda>sg.
              ret (if sg \<noteq> 0 \<and> n = 0 then - EINTR else int n))))))))"

subsection \<open>tty_write\<close>

text \<open>The output translation of one character: a carriage return first, or the character.\<close>

definition map_output :: "tty_struct \<Rightarrow> bool \<Rightarrow> u8 \<Rightarrow> (bool \<times> u8) option" where
  "map_output t crf v =
     (if \<not> O_POST t then Some (False, v)
      else let c = (if v = 13 \<and> O_CRNL t then 10 else if v = 10 \<and> O_NLRET t then 13 else v)
        in if c = 10 \<and> \<not> crf \<and> O_NLCR t then Some (True, 13)
           else if O_LCUC t then map_option (\<lambda>u. (False, word_of_int u)) (toupper (sint c))
           else Some (False, c))"

text \<open>The inner loop; every round puts a character, and there is room for at most 1023.\<close>

fun fill_queue :: "nat \<Rightarrow> nat \<Rightarrow> u32 \<Rightarrow> nat \<Rightarrow> nat \<Rightarrow> (nat \<times> nat) K" where
  "fill_queue 0 ch buf nr k = stop Hung"
| "fill_queue (Suc f) ch buf nr k = bnd (gets (\<lambda>s. tty_table s ch)) (\<lambda>t.
     if nr = 0 \<or> FULL (write_q t) then ret (nr, k)
     else bnd (gets (\<lambda>s. map_output t (tty_cr_flag s) (get_fs_byte s (buf + of_nat k)))) (\<lambda>m. case m of
       None \<Rightarrow> stop Wild
     | Some (extra, v) \<Rightarrow> seq (block
         [modify (\<lambda>s. s\<lparr>tty_cr_flag := extra\<rparr>), modify (upd_write ch (PUTCH v))])
         (if extra then fill_queue f ch buf nr k else fill_queue f ch buf (nr - 1) (k + 1))))"

definition tty_write_round :: "nat \<Rightarrow> u32 \<Rightarrow> nat \<times> nat \<Rightarrow> (nat \<times> nat + int) K" where
  "tty_write_round ch buf st = (case st of (nr, k) \<Rightarrow>
     if nr = 0 then ret (Inr (int k))
     else seq (sleep_if_full ch) (bnd (gets (\<lambda>s. signal (cur s))) (\<lambda>sg.
       if sg \<noteq> 0 then ret (Inr (int k))
       else bnd (fill_queue (TTY_BUF_SIZE + 1) ch buf nr k) (\<lambda>(nr', k'). seq (block
         [call_write ch, guardK (nr' > 0) schedule])
         (ret (Inl (nr', k')))))))"

text \<open>
  Two rounds write at least one character of the buffer (the first may only have room for a
  carriage return), and a round that cannot has slept.
\<close>

definition tty_write :: "nat \<Rightarrow> u32 \<Rightarrow> int \<Rightarrow> int K" where
  "tty_write channel buf nr =
     (if channel > 2 \<or> nr < 0 then ret (- 1)
      else with_fuel (\<lambda>n. iter_fuel (n + 2 * nat nr + 2) (tty_write_round channel buf) (nat nr, 0)))"

subsection \<open>tty_ioctl\<close>

definition quotient :: "nat list" where
  "quotient = [0, 2304, 1536, 1047, 857, 768, 576, 384, 192, 96, 64, 48, 24, 12, 6, 3]"

definition change_speed :: "nat \<Rightarrow> unit K" where
  "change_speed ch = bnd (gets (\<lambda>s. tty_table s ch)) (\<lambda>t.
     let port = unat (ucast (q_data (read_q t)) :: u16);
         quot = quotient ! unat (c_cflag (termios t) AND 0xf)
     in guardK (port \<noteq> 0) (block
       [outb 0x80 (port + 3), outb (of_nat quot) port, outb (of_nat (quot div 256)) (port + 1),
        outb 0x03 (port + 3)]))"

definition flush :: "tty_queue \<Rightarrow> tty_queue" where
  "flush q = q\<lparr>q_head := q_tail q\<rparr>"

text \<open>
  The bytes of a \<open>struct termios\<close>: 36, of which the last two are padding behind \<open>c_cc\<close> (the
  elements 17 and 18 here).  A \<open>struct termio\<close> has 18; its last byte is padding on the kernel's
  stack, which \<open>get_termio\<close> copies out uninitialised (\<open>junk\<close>).
\<close>

definition byte_of :: "u32 \<Rightarrow> nat \<Rightarrow> u8" where
  "byte_of v k = ucast (drop_bit (8 * k) v)"

definition termios_byte :: "termios \<Rightarrow> nat \<Rightarrow> u8" where
  "termios_byte t i =
     (if i < 16 then byte_of ([c_iflag t, c_oflag t, c_cflag t, c_lflag t] ! (i div 4)) (i mod 4)
      else if i = 16 then c_line t else c_cc t (i - 17))"

definition get_termios :: "nat \<Rightarrow> u32 \<Rightarrow> int K" where
  "get_termios ch a = seq (block
     [verify_area a 36,
      for_each [0..<36] (\<lambda>i. modify (\<lambda>s. put_fs_byte (termios_byte (termios (tty_table s ch)) i) (a + of_nat i) s))])
     (ret 0)"

definition load_termios :: "kernel \<Rightarrow> u32 \<Rightarrow> termios \<Rightarrow> termios" where
  "load_termios s a t = t\<lparr>c_iflag := get_fs_long s a, c_oflag := get_fs_long s (a + 4),
     c_cflag := get_fs_long s (a + 8), c_lflag := get_fs_long s (a + 12), c_line := get_fs_byte s (a + 16),
     c_cc := (\<lambda>k. if k < 19 then get_fs_byte s (a + 17 + of_nat k) else c_cc t k)\<rparr>"

definition set_termios :: "nat \<Rightarrow> u32 \<Rightarrow> int K" where
  "set_termios ch a = seq (block
     [modify (\<lambda>s. upd_tty ch (\<lambda>t. t\<lparr>termios := load_termios s a (termios t)\<rparr>) s),
      change_speed ch]) (ret 0)"

definition termio_byte :: "u8 \<Rightarrow> termios \<Rightarrow> nat \<Rightarrow> u8" where
  "termio_byte junk t i =
     (if i < 8 then byte_of ([c_iflag t, c_oflag t, c_cflag t, c_lflag t] ! (i div 2)) (i mod 2)
      else if i = 8 then c_line t else if i < 17 then c_cc t (i - 9) else junk)"

definition get_termio :: "u8 \<Rightarrow> nat \<Rightarrow> u32 \<Rightarrow> int K" where
  "get_termio junk ch a = seq (block
     [verify_area a 18,
      for_each [0..<18] (\<lambda>i. modify (\<lambda>s. put_fs_byte (termio_byte junk (termios (tty_table s ch)) i) (a + of_nat i) s))])
     (ret 0)"

text \<open>Only the low half of a flag word is set.\<close>

definition low_half :: "u16 \<Rightarrow> u32 \<Rightarrow> u32" where
  "low_half v w = (w AND 0xffff0000) OR ucast v"

definition load_termio :: "kernel \<Rightarrow> u32 \<Rightarrow> termios \<Rightarrow> termios" where
  "load_termio s a t = t\<lparr>c_iflag := low_half (get_fs_word s a) (c_iflag t),
     c_oflag := low_half (get_fs_word s (a + 2)) (c_oflag t),
     c_cflag := low_half (get_fs_word s (a + 4)) (c_cflag t),
     c_lflag := low_half (get_fs_word s (a + 6)) (c_lflag t),
     c_line := get_fs_byte s (a + 8),
     c_cc := (\<lambda>k. if k < 8 then get_fs_byte s (a + 9 + of_nat k) else c_cc t k)\<rparr>"

definition set_termio :: "nat \<Rightarrow> u32 \<Rightarrow> int K" where
  "set_termio ch a = seq (block
     [modify (\<lambda>s. upd_tty ch (\<lambda>t. t\<lparr>termios := load_termio s a (termios t)\<rparr>) s),
      change_speed ch]) (ret 0)"

definition put_result :: "u32 \<Rightarrow> (kernel \<Rightarrow> u32) \<Rightarrow> int K" where
  "put_result a f = seq (block [verify_area a 4, modify (\<lambda>s. put_fs_long (f s) a s)]) (ret 0)"

definition tty_command :: "u8 \<Rightarrow> nat \<Rightarrow> u32 \<Rightarrow> u32 \<Rightarrow> int K" where
  "tty_command junk ch cmd arg =
     (if cmd = 0x5401 then get_termios ch arg
      else if cmd = 0x5404 then seq (modify (upd_read ch flush)) (set_termios ch arg)
      else if cmd = 0x5403 \<or> cmd = 0x5402 then set_termios ch arg
      else if cmd = 0x5405 then get_termio junk ch arg
      else if cmd = 0x5408 then seq (modify (upd_read ch flush)) (set_termio ch arg)
      else if cmd = 0x5407 \<or> cmd = 0x5406 then set_termio ch arg
      else if cmd = 0x5409 then ret 0
      else if cmd = 0x540B then
        if arg = 0 then seq (modify (upd_read ch flush)) (ret 0)
        else if arg = 1 then seq (modify (upd_write ch flush)) (ret 0)
        else if arg = 2 then seq (modify (upd_write ch flush \<circ> upd_read ch flush)) (ret 0)
        else ret (- EINVAL)
      else if cmd = 0x540F then put_result arg (\<lambda>s. word_of_int (tty_pgrp (tty_table s ch)))
      else if cmd = 0x5410
      then seq (modify (\<lambda>s. upd_tty ch (\<lambda>t. t\<lparr>tty_pgrp := sint (get_fs_long s arg)\<rparr>) s)) (ret 0)
      else if cmd = 0x5411 then put_result arg (\<lambda>s. of_nat (CHARS (write_q (tty_table s ch))))
      else if cmd = 0x541B then put_result arg (\<lambda>s. of_nat (CHARS (secondary (tty_table s ch))))
      else ret (- EINVAL))"

definition tty_ioctl :: "u8 \<Rightarrow> u16 \<Rightarrow> u32 \<Rightarrow> u32 \<Rightarrow> int K" where
  "tty_ioctl junk dev cmd arg =
     (if MAJOR dev = 5
      then bnd (gets (\<lambda>s. tty (cur s))) (\<lambda>t.
        if t < 0 then kpanic ''tty_ioctl: dev<0'' else if t > 2 then stop Wild
        else tty_command junk (nat t) cmd arg)
      else if MINOR dev > 2 then stop Wild
      else tty_command junk (MINOR dev) cmd arg)"

end
