(* ===== verification/Files.thy ===== *)
theory Files
  imports Pipe Ttyio
begin

unbundle bit_operations_syntax

text \<open>
  Open files: fs/char_dev.c, block_dev.c, file_dev.c, read_write.c, open.c, fcntl.c, stat.c and
  ioctl.c.  A file descriptor is an \<open>unsigned int\<close>, a \<open>struct file *\<close> an index of \<open>file_table\<close>.
\<close>

definition O_APPEND :: u16 where [kconst]: "O_APPEND = 0x400"
definition O_NONBLOCK :: u16 where [kconst]: "O_NONBLOCK = 0x800"

definition IS_SEEKABLE :: "nat \<Rightarrow> bool" where "IS_SEEKABLE x \<longleftrightarrow> 1 \<le> x \<and> x \<le> 3"

text \<open>The open file of a descriptor, and its inode; a file without an inode is followed as NULL.\<close>

definition fd_file :: "u32 \<Rightarrow> kernel \<Rightarrow> fptr option" where
  "fd_file fd s = (if fd \<ge> of_nat NR_OPEN then None else filp (cur s) (unat fd))"

definition with_inode :: "fptr \<Rightarrow> (iptr \<Rightarrow> 'a K) \<Rightarrow> 'a K" where
  "with_inode f k = bnd (gets (\<lambda>s. f_inode (file_table s f))) (\<lambda>i. case i of
     None \<Rightarrow> stop Wild | Some i \<Rightarrow> k i)"

definition move_pos :: "fptr \<Rightarrow> int \<Rightarrow> unit K" where
  "move_pos f n = modify (upd_file f (\<lambda>x. x\<lparr>f_pos := wrap32 (f_pos x + n)\<rparr>))"

subsection \<open>Character devices\<close>

definition rw_ttyx :: "int \<Rightarrow> nat \<Rightarrow> u32 \<Rightarrow> int \<Rightarrow> int K" where
  "rw_ttyx rw minor buf count = (if rw = READ then tty_read minor buf count else tty_write minor buf count)"

definition rw_tty :: "int \<Rightarrow> u32 \<Rightarrow> int \<Rightarrow> int K" where
  "rw_tty rw buf count = bnd (gets (\<lambda>s. tty (cur s))) (\<lambda>t.
     if t < 0 then ret (- EPERM) else rw_ttyx rw (nat t) buf count)"

text \<open>\<open>rw_port\<close>: the ports from the file position on, up to the last one.\<close>

definition rw_port :: "int \<Rightarrow> u32 \<Rightarrow> int \<Rightarrow> fptr \<Rightarrow> int K" where
  "rw_port rw buf count f = bnd (gets (\<lambda>s. f_pos (file_table s f))) (\<lambda>p.
     let n = nat (min count (65536 - p)) in
     seq (block
       [for_each [0..<n] (\<lambda>k. let port = nat ((p + int k) mod 65536) in
          if rw = READ then bnd (inb port) (\<lambda>v. modify (put_fs_byte v (buf + of_nat k)))
          else bnd (gets (\<lambda>s. get_fs_byte s (buf + of_nat k))) (\<lambda>v. outb v port)),
        move_pos f (int n)])
     (ret (int n)))"

definition rw_memory :: "int \<Rightarrow> nat \<Rightarrow> u32 \<Rightarrow> int \<Rightarrow> fptr \<Rightarrow> int K" where
  "rw_memory rw minor buf count f =
     (if minor = 3 then ret (if rw = READ then 0 else count)
      else if minor = 4 then rw_port rw buf count f
      else ret (- EIO))"

definition rw_char :: "int \<Rightarrow> u16 \<Rightarrow> u32 \<Rightarrow> int \<Rightarrow> fptr \<Rightarrow> int K" where
  "rw_char rw dev buf count f =
     (if MAJOR dev = 1 then rw_memory rw (MINOR dev) buf count f
      else if MAJOR dev = 4 then rw_ttyx rw (MINOR dev) buf count
      else if MAJOR dev = 5 then rw_tty rw buf count
      else ret (- ENODEV))"

subsection \<open>Block devices\<close>

text \<open>
  The loops on what is left, the address in the user space, the block and the offset in it, and
  what has been moved; every round moves at least one byte.
\<close>

definition block_write_round :: "u16 \<Rightarrow> fptr \<Rightarrow> nat \<times> u32 \<times> u32 \<times> nat \<times> nat \<Rightarrow>
    (nat \<times> u32 \<times> u32 \<times> nat \<times> nat + int) K" where
  "block_write_round dev f st = (case st of (count, buf, blk, off, wr) \<Rightarrow>
     if count = 0 then ret (Inr (int wr))
     else let chars = min (1024 - off) count in
       bnd (if chars = 1024 then bnd (getblk dev blk) (\<lambda>b. ret (Some b))
            else breada dev blk [blk + 1, blk + 2]) (\<lambda>r. case r of
         None \<Rightarrow> ret (Inr (if wr \<noteq> 0 then int wr else - EIO))
       | Some b \<Rightarrow> seq (block
           [move_pos f (int chars),
            modify (\<lambda>s. upd_buf b (\<lambda>h. h\<lparr>b_data := store_bytes (b_data h) off (user_bytes s buf chars)\<rparr>) s),
            modify (upd_buf b (\<lambda>h. h\<lparr>b_dirt := 1\<rparr>)),
            brelse (Some b)])
           (ret (Inl (count - chars, buf + of_nat chars, blk + 1, 0, wr + chars)))))"

definition block_write :: "u16 \<Rightarrow> fptr \<Rightarrow> u32 \<Rightarrow> int \<Rightarrow> int K" where
  "block_write dev f buf count = bnd (gets (\<lambda>s. f_pos (file_table s f))) (\<lambda>p.
     iter_fuel (Suc (nat count)) (block_write_round dev f)
       (nat count, buf, word_of_int (p div 1024), nat (p mod 1024), 0))"

definition block_read_round :: "u16 \<Rightarrow> fptr \<Rightarrow> nat \<times> u32 \<times> u32 \<times> nat \<times> nat \<Rightarrow>
    (nat \<times> u32 \<times> u32 \<times> nat \<times> nat + int) K" where
  "block_read_round dev f st = (case st of (count, buf, blk, off, rd) \<Rightarrow>
     if count = 0 then ret (Inr (int rd))
     else let chars = min (1024 - off) count in
       bnd (breada dev blk [blk + 1, blk + 2]) (\<lambda>r. case r of
         None \<Rightarrow> ret (Inr (if rd \<noteq> 0 then int rd else - EIO))
       | Some b \<Rightarrow> seq (block
           [move_pos f (int chars),
            modify (\<lambda>s. user_store buf (bytes_of (b_data (bufs s b)) off chars) s),
            brelse (Some b)])
           (ret (Inl (count - chars, buf + of_nat chars, blk + 1, 0, rd + chars)))))"

definition block_read :: "u16 \<Rightarrow> fptr \<Rightarrow> u32 \<Rightarrow> int \<Rightarrow> int K" where
  "block_read dev f buf count = bnd (gets (\<lambda>s. word_of_int (f_pos (file_table s f)) :: u32)) (\<lambda>p.
     iter_fuel (Suc (nat count)) (block_read_round dev f)
       (nat count, buf, drop_bit 10 p, unat (p AND 1023), 0))"

subsection \<open>Regular files\<close>

definition file_read_round :: "iptr \<Rightarrow> fptr \<Rightarrow> nat \<times> u32 \<Rightarrow> (nat \<times> u32 + nat) K" where
  "file_read_round i f st = (case st of (left, buf) \<Rightarrow>
     if left = 0 then ret (Inr 0)
     else bnd (gets (\<lambda>s. f_pos (file_table s f) sdiv 1024)) (\<lambda>n. bnd (bmap i n) (\<lambda>z.
       bnd (if z = 0 then ret (Some None)
            else bnd (gets (\<lambda>s. i_dev (inode_table s i))) (\<lambda>dev. bnd (bread dev (of_nat z)) (\<lambda>r.
              ret (case r of None \<Rightarrow> None | Some b \<Rightarrow> Some (Some b))))) (\<lambda>r. case r of
         None \<Rightarrow> ret (Inr left)
       | Some bh \<Rightarrow> bnd (gets (\<lambda>s. f_pos (file_table s f) smod 1024)) (\<lambda>nr.
           let chars = nat (min (1024 - nr) (int left)) in seq (block
             [move_pos f (int chars),
              case bh of
                Some b \<Rightarrow> block
                  [modify (\<lambda>s. user_store buf (bytes_of (b_data (bufs s b)) (nat nr) chars) s), brelse (Some b)]
              | None \<Rightarrow> modify (user_store buf (replicate chars 0))])
             (ret (Inl (left - chars, buf + of_nat chars))))))))"

definition file_read :: "iptr \<Rightarrow> fptr \<Rightarrow> u32 \<Rightarrow> int \<Rightarrow> int K" where
  "file_read i f buf count =
     (if count \<le> 0 then ret 0
      else bnd (iter_fuel (Suc (nat count)) (file_read_round i f) (nat count, buf)) (\<lambda>left. seq
        (modify (\<lambda>s. upd_inode i (\<lambda>x. x\<lparr>i_atime := now32 s\<rparr>) s))
        (ret (if count - int left \<noteq> 0 then count - int left else - ERROR))))"

definition file_write_round :: "iptr \<Rightarrow> int \<Rightarrow> u32 \<Rightarrow> int \<times> int \<Rightarrow> (int \<times> int + int \<times> int) K" where
  "file_write_round i count buf st = (case st of (k, p) \<Rightarrow>
     if k \<ge> count then ret (Inr st)
     else bnd (create_block i (p sdiv 1024)) (\<lambda>z.
       if z = 0 then ret (Inr st)
       else bnd (gets (\<lambda>s. i_dev (inode_table s i))) (\<lambda>dev. bnd (bread dev (of_nat z)) (\<lambda>r. case r of
         None \<Rightarrow> ret (Inr st)
       | Some b \<Rightarrow> let off = p smod 1024; c = min (1024 - off) (count - k); p' = wrap32 (p + c) in seq (block
           [modify (upd_buf b (\<lambda>h. h\<lparr>b_dirt := 1\<rparr>)),
            modify (\<lambda>s. if word_of_int p' > i_size (inode_table s i)
              then upd_inode i (\<lambda>x. x\<lparr>i_size := word_of_int p', i_dirt := 1\<rparr>) s else s),
            modify (\<lambda>s. upd_buf b (\<lambda>h. h\<lparr>b_data := store_bytes (b_data h) (nat off)
              (user_bytes s (buf + word_of_int k) (nat c))\<rparr>) s),
            brelse (Some b)])
           (ret (Inl (k + c, p')))))))"

definition file_write :: "iptr \<Rightarrow> fptr \<Rightarrow> u32 \<Rightarrow> int \<Rightarrow> int K" where
  "file_write i f buf count =
     bnd (gets (\<lambda>s. (f_flags (file_table s f) AND O_APPEND \<noteq> 0, i_size (inode_table s i), f_pos (file_table s f))))
     (\<lambda>(app, isz, fp).
       bnd (iter_fuel (Suc (nat count)) (file_write_round i count buf) (0, if app then sint isz else fp))
       (\<lambda>(k, p). seq (block
         [modify (\<lambda>s. upd_inode i (\<lambda>x. x\<lparr>i_mtime := now32 s\<rparr>) s),
          bnd (gets (\<lambda>s. f_flags (file_table s f) AND O_APPEND = 0)) (\<lambda>pl. guardK pl (block
            [modify (upd_file f (\<lambda>x. x\<lparr>f_pos := p\<rparr>)),
             modify (\<lambda>s. upd_inode i (\<lambda>x. x\<lparr>i_ctime := now32 s\<rparr>) s)]))])
         (ret (if k \<noteq> 0 then k else - 1))))"

subsection \<open>lseek, read and write\<close>

definition sys_lseek :: "u32 \<Rightarrow> int \<Rightarrow> int \<Rightarrow> int K" where
  "sys_lseek fd offset orig = bnd (gets (fd_file fd)) (\<lambda>r. case r of
     None \<Rightarrow> ret (- EBADF)
   | Some f \<Rightarrow> bnd (gets (\<lambda>s. (file_table s f, map_option (inode_table s) (f_inode (file_table s f))))) (\<lambda>(fl, ix).
       case ix of None \<Rightarrow> ret (- EBADF)
       | Some x \<Rightarrow>
         if \<not> IS_SEEKABLE (MAJOR (i_dev x)) then ret (- EBADF)
         else if i_pipe x \<noteq> 0 then ret (- ESPIPE)
         else let base = (if orig = 0 then Some 0 else if orig = 1 then Some (f_pos fl)
                          else if orig = 2 then Some (uint (i_size x)) else None)
           in case base of None \<Rightarrow> ret (- EINVAL)
              | Some b \<Rightarrow> let p = wrap32 (b + offset) in
                  if p < 0 then ret (- EINVAL)
                  else seq (modify (upd_file f (\<lambda>x. x\<lparr>f_pos := p\<rparr>))) (ret p)))"

definition sys_read :: "u32 \<Rightarrow> u32 \<Rightarrow> int \<Rightarrow> int K" where
  "sys_read fd buf count = bnd (gets (fd_file fd)) (\<lambda>r. case r of
     None \<Rightarrow> ret (- EINVAL)
   | Some f \<Rightarrow>
       if count < 0 then ret (- EINVAL)
       else if count = 0 then ret 0
       else seq (verify_area buf count) (with_inode f (\<lambda>i.
         bnd (gets (\<lambda>s. (inode_table s i, file_table s f))) (\<lambda>(x, fl).
           if i_pipe x \<noteq> 0 then if f_mode fl AND 1 \<noteq> 0 then read_pipe i buf count else ret (- EIO)
           else if S_ISCHR (i_mode x) then rw_char READ (i_zone x 0) buf count f
           else if S_ISBLK (i_mode x) then block_read (i_zone x 0) f buf count
           else if S_ISDIR (i_mode x) \<or> S_ISREG (i_mode x)
           then let n = (if word_of_int (count + f_pos fl) > i_size x
                         then sint (i_size x - word_of_int (f_pos fl)) else count)
                in if n \<le> 0 then ret 0 else file_read i f buf n
           else ret (- EINVAL)))))"

definition sys_write :: "u32 \<Rightarrow> u32 \<Rightarrow> int \<Rightarrow> int K" where
  "sys_write fd buf count = bnd (gets (fd_file fd)) (\<lambda>r. case r of
     None \<Rightarrow> ret (- EINVAL)
   | Some f \<Rightarrow>
       if count < 0 then ret (- EINVAL)
       else if count = 0 then ret 0
       else with_inode f (\<lambda>i.
         bnd (gets (\<lambda>s. (inode_table s i, file_table s f))) (\<lambda>(x, fl).
           if i_pipe x \<noteq> 0 then if f_mode fl AND 2 \<noteq> 0 then write_pipe i buf count else ret (- EIO)
           else if S_ISCHR (i_mode x) then rw_char WRITE (i_zone x 0) buf count f
           else if S_ISBLK (i_mode x) then block_write (i_zone x 0) f buf count
           else if S_ISREG (i_mode x) then file_write i f buf count
           else ret (- EINVAL))))"

subsection \<open>fs/open.c\<close>

definition sys_ustat :: "int \<Rightarrow> u32 \<Rightarrow> int K" where
  "sys_ustat dev ubuf = ret (- ENOSYS)"

definition sys_utime :: "u32 \<Rightarrow> u32 \<Rightarrow> int K" where
  "sys_utime filename tms = bnd (namei filename) (\<lambda>r. case r of
     None \<Rightarrow> ret (- ENOENT)
   | Some i \<Rightarrow> bnd (gets (\<lambda>s. if tms \<noteq> 0 then (get_fs_long s tms, get_fs_long s (tms + 4))
                            else (now32 s, now32 s))) (\<lambda>(act, md). seq (block
       [modify (upd_inode i (\<lambda>x. x\<lparr>i_atime := act, i_mtime := md, i_dirt := 1\<rparr>)), iput (Some i)])
       (ret 0)))"

text \<open>
  \<open>sys_access\<close> shifts the mode by 6 for the group too, where the group bits would need 3, and
  looks at the owner of the inode after it has put the inode back.
\<close>

definition access_bits :: "kernel \<Rightarrow> iptr \<Rightarrow> u16 \<Rightarrow> u16" where
  "access_bits s i m = (let x = inode_table s i in
     if uid (cur s) = i_uid x then drop_bit 6 m
     else if gid (cur s) = ucast (i_gid x) then drop_bit 6 m else m)"

definition sys_access :: "u32 \<Rightarrow> u16 \<Rightarrow> int K" where
  "sys_access filename mode0 = (let mode = mode0 AND 7 in
     bnd (namei filename) (\<lambda>r. case r of
       None \<Rightarrow> ret (- EACCES)
     | Some i \<Rightarrow> bnd (gets (\<lambda>s. i_mode (inode_table s i) AND 0x1FF)) (\<lambda>m. seq (iput (Some i))
         (bnd (gets (\<lambda>s. (access_bits s i m, uid (cur s)))) (\<lambda>(res, u).
           if res AND 7 AND mode = mode then ret 0
           else if u = 0 \<and> (mode AND 1 = 0 \<or> m AND 0x49 \<noteq> 0) then ret 0
           else ret (- EACCES))))))"

text \<open>\<open>sys_chdir\<close> and \<open>sys_chroot\<close>: \<open>old\<close> and \<open>set\<close> are the field of the task.\<close>

definition change_dir :: "(task_struct \<Rightarrow> iptr option) \<Rightarrow> (iptr \<Rightarrow> task_struct \<Rightarrow> task_struct) \<Rightarrow> u32 \<Rightarrow> int K" where
  "change_dir old setf filename = bnd (namei filename) (\<lambda>r. case r of
     None \<Rightarrow> ret (- ENOENT)
   | Some i \<Rightarrow> bnd (gets (\<lambda>s. S_ISDIR (i_mode (inode_table s i)))) (\<lambda>d.
       if \<not> d then seq (iput (Some i)) (ret (- ENOTDIR))
       else seq (block
         [bnd (gets (\<lambda>s. old (cur s))) iput,
          modify (\<lambda>s. upd_cur (setf i) s)]) (ret 0)))"

definition sys_chdir :: "u32 \<Rightarrow> int K" where
  "sys_chdir = change_dir pwd (\<lambda>i t. t\<lparr>pwd := Some i\<rparr>)"

definition sys_chroot :: "u32 \<Rightarrow> int K" where
  "sys_chroot = change_dir root (\<lambda>i t. t\<lparr>root := Some i\<rparr>)"

definition sys_chmod :: "u32 \<Rightarrow> u16 \<Rightarrow> int K" where
  "sys_chmod filename mode = bnd (namei filename) (\<lambda>r. case r of
     None \<Rightarrow> ret (- ENOENT)
   | Some i \<Rightarrow> bnd (gets (\<lambda>s. euid (cur s) \<noteq> i_uid (inode_table s i) \<and> \<not> suser s)) (\<lambda>no.
       if no then seq (iput (Some i)) (ret (- EACCES))
       else seq (block
         [modify (upd_inode i (\<lambda>x. x\<lparr>i_mode := (mode AND 0xFFF) OR (i_mode x AND NOT 0xFFF), i_dirt := 1\<rparr>)),
          iput (Some i)]) (ret 0)))"

definition sys_chown :: "u32 \<Rightarrow> u32 \<Rightarrow> u32 \<Rightarrow> int K" where
  "sys_chown filename u g = bnd (namei filename) (\<lambda>r. case r of
     None \<Rightarrow> ret (- ENOENT)
   | Some i \<Rightarrow> bnd (gets suser) (\<lambda>su.
       if \<not> su then seq (iput (Some i)) (ret (- EACCES))
       else seq (block
         [modify (upd_inode i (\<lambda>x. x\<lparr>i_uid := ucast u, i_gid := ucast g, i_dirt := 1\<rparr>)), iput (Some i)]) (ret 0)))"

definition drop_file :: "nat \<Rightarrow> fptr \<Rightarrow> int \<Rightarrow> int K" where
  "drop_file fd f e = seq (block
     [modify (\<lambda>s. upd_cur (\<lambda>t. t\<lparr>filp := (filp t)(fd := None)\<rparr>) s),
      modify (upd_file f (\<lambda>x. x\<lparr>f_count := 0\<rparr>))]) (ret e)"

text \<open>Opening a terminal: \<open>False\<close> when \<open>/dev/tty\<close> is opened by a task that has none.\<close>

definition open_tty :: "iptr \<Rightarrow> bool K" where
  "open_tty i = bnd (gets (\<lambda>s. (inode_table s i, cur s))) (\<lambda>(x, t).
     if \<not> S_ISCHR (i_mode x) then ret True
     else if MAJOR (i_zone x 0) = 4
     then let n = MINOR (i_zone x 0) in
       if leader t \<noteq> 0 \<and> tty t < 0
       then if n > 2 then stop Wild
         else seq (block
           [modify (\<lambda>s. upd_cur (\<lambda>t. t\<lparr>tty := int n\<rparr>) s),
            modify (upd_tty n (\<lambda>y. y\<lparr>tty_pgrp := pgrp t\<rparr>))]) (ret True)
       else ret True
     else ret (\<not> (MAJOR (i_zone x 0) = 5 \<and> tty t < 0)))"

definition clear_cloexec :: "nat \<Rightarrow> kernel \<Rightarrow> kernel" where
  "clear_cloexec fd s = upd_cur (\<lambda>t. t\<lparr>close_on_exec := close_on_exec t AND NOT (push_bit fd 1)\<rparr>) s"

definition sys_open :: "u32 \<Rightarrow> u32 \<Rightarrow> u32 \<Rightarrow> int K" where
  "sys_open filename flag mode0 = bnd (gets (\<lambda>s. mode0 AND 0x1FF AND NOT (ucast (umask (cur s))))) (\<lambda>mode.
     bnd (gets (\<lambda>s. first_upto (\<lambda>k. filp (cur s) k = None) NR_OPEN)) (\<lambda>r. case r of
       None \<Rightarrow> ret (- EINVAL)
     | Some fd \<Rightarrow> seq (modify (clear_cloexec fd))
         (bnd (gets (\<lambda>s. first_upto (\<lambda>k. f_count (file_table s k) = 0) NR_FILE)) (\<lambda>r. case r of
           None \<Rightarrow> ret (- EINVAL)
         | Some f \<Rightarrow> seq (block
             [modify (\<lambda>s. upd_cur (\<lambda>t. t\<lparr>filp := (filp t)(fd := Some f)\<rparr>) s),
              modify (upd_file f (\<lambda>x. x\<lparr>f_count := f_count x + 1\<rparr>))])
             (bnd (open_namei filename flag mode) (\<lambda>r. case r of
               Inl e \<Rightarrow> drop_file fd f e
             | Inr i \<Rightarrow> bnd (open_tty i) (\<lambda>ok.
                 if \<not> ok then seq (iput (Some i)) (drop_file fd f (- EPERM))
                 else seq (block
                   [bnd (gets (\<lambda>s. inode_table s i)) (\<lambda>x.
                      guardK (S_ISBLK (i_mode x)) (check_disk_change (i_zone x 0))),
                    modify (\<lambda>s. upd_file f (\<lambda>x. x\<lparr>f_mode := i_mode (inode_table s i), f_flags := ucast flag,
                      f_count := 1, f_inode := Some i, f_pos := 0\<rparr>) s)])
                   (ret (int fd)))))))))"

definition sys_creat :: "u32 \<Rightarrow> u32 \<Rightarrow> int K" where
  "sys_creat pathname mode = sys_open pathname (O_CREAT OR O_TRUNC) mode"

definition sys_close :: "u32 \<Rightarrow> int K" where
  "sys_close fd =
     (if fd \<ge> of_nat NR_OPEN then ret (- EINVAL)
      else seq (modify (clear_cloexec (unat fd))) (bnd (gets (\<lambda>s. filp (cur s) (unat fd))) (\<lambda>r. case r of
        None \<Rightarrow> ret (- EINVAL)
      | Some f \<Rightarrow> seq (modify (\<lambda>s. upd_cur (\<lambda>t. t\<lparr>filp := (filp t)(unat fd := None)\<rparr>) s))
          (bnd (gets (\<lambda>s. f_count (file_table s f))) (\<lambda>c.
            if c = 0 then kpanic ''Close: file count is 0''
            else seq (modify (upd_file f (\<lambda>x. x\<lparr>f_count := c - 1\<rparr>)))
              (if c - 1 \<noteq> 0 then ret 0
               else seq (bnd (gets (\<lambda>s. f_inode (file_table s f))) iput) (ret 0)))))))"

subsection \<open>fs/fcntl.c\<close>

definition dupfd :: "u32 \<Rightarrow> u32 \<Rightarrow> int K" where
  "dupfd fd arg = bnd (gets (fd_file fd)) (\<lambda>r. case r of
     None \<Rightarrow> ret (- EBADF)
   | Some f \<Rightarrow>
       if arg \<ge> of_nat NR_OPEN then ret (- EINVAL)
       else bnd (gets (\<lambda>s. first_from (\<lambda>k. filp (cur s) k = None) (unat arg) (NR_OPEN - unat arg))) (\<lambda>r. case r of
         None \<Rightarrow> ret (- EMFILE)
       | Some n \<Rightarrow> seq (block
           [modify (clear_cloexec n),
            modify (\<lambda>s. upd_cur (\<lambda>t. t\<lparr>filp := (filp t)(n := Some f)\<rparr>) s),
            modify (upd_file f (\<lambda>x. x\<lparr>f_count := f_count x + 1\<rparr>))]) (ret (int n))))"

definition sys_dup2 :: "u32 \<Rightarrow> u32 \<Rightarrow> int K" where
  "sys_dup2 oldfd newfd = bnd (sys_close newfd) (\<lambda>_. dupfd oldfd newfd)"

definition sys_dup :: "u32 \<Rightarrow> int K" where
  "sys_dup fildes = dupfd fildes 0"

definition sys_fcntl :: "u32 \<Rightarrow> u32 \<Rightarrow> u32 \<Rightarrow> int K" where
  "sys_fcntl fd cmd arg = bnd (gets (fd_file fd)) (\<lambda>r. case r of
     None \<Rightarrow> ret (- EBADF)
   | Some f \<Rightarrow>
       if cmd = 0 then dupfd fd arg
       else if cmd = 1 then gets (\<lambda>s. uint (drop_bit (unat fd) (close_on_exec (cur s)) AND 1))
       else if cmd = 2 then seq (modify (\<lambda>s.
           if arg AND 1 \<noteq> 0
           then upd_cur (\<lambda>t. t\<lparr>close_on_exec := close_on_exec t OR push_bit (unat fd) 1\<rparr>) s
           else clear_cloexec (unat fd) s)) (ret 0)
       else if cmd = 3 then gets (\<lambda>s. uint (f_flags (file_table s f)))
       else if cmd = 4 then seq (modify (upd_file f (\<lambda>x. x\<lparr>f_flags :=
           (f_flags x AND NOT (O_APPEND OR O_NONBLOCK)) OR (ucast arg AND (O_APPEND OR O_NONBLOCK))\<rparr>))) (ret 0)
       else ret (- 1))"

subsection \<open>fs/stat.c\<close>

text \<open>
  The bytes of a \<open>struct stat\<close>: the four padding bytes come from the kernel's stack (\<open>junk\<close>).
\<close>

definition stat_bytes :: "(nat \<Rightarrow> u8) \<Rightarrow> m_inode \<Rightarrow> u8 list" where
  "stat_bytes junk x = (let w = (\<lambda>v :: u16. [ucast v, ucast (drop_bit 8 v)]);
       l = (\<lambda>v :: u32. map (byte_of v) [0..<4])
     in w (i_dev x) @ w (i_num x) @ w (i_mode x) @ [i_nlinks x, junk 0] @ w (i_uid x) @ [i_gid x, junk 1] @
        w (i_zone x 0) @ [junk 2, junk 3] @ l (i_size x) @ l (i_atime x) @ l (i_mtime x) @ l (i_ctime x))"

definition cp_stat :: "(nat \<Rightarrow> u8) \<Rightarrow> iptr \<Rightarrow> u32 \<Rightarrow> unit K" where
  "cp_stat junk i statbuf = seq (verify_area statbuf 32)
     (bnd (gets (\<lambda>s. stat_bytes junk (inode_table s i))) (\<lambda>bs. modify (user_store statbuf bs)))"

definition sys_stat :: "(nat \<Rightarrow> u8) \<Rightarrow> u32 \<Rightarrow> u32 \<Rightarrow> int K" where
  "sys_stat junk filename statbuf = bnd (namei filename) (\<lambda>r. case r of
     None \<Rightarrow> ret (- ENOENT)
   | Some i \<Rightarrow> seq (block [cp_stat junk i statbuf, iput (Some i)]) (ret 0))"

definition sys_fstat :: "(nat \<Rightarrow> u8) \<Rightarrow> u32 \<Rightarrow> u32 \<Rightarrow> int K" where
  "sys_fstat junk fd statbuf = bnd (gets (fd_file fd)) (\<lambda>r. case r of
     None \<Rightarrow> ret (- EBADF)
   | Some f \<Rightarrow> bnd (gets (\<lambda>s. f_inode (file_table s f))) (\<lambda>r. case r of
       None \<Rightarrow> ret (- EBADF)
     | Some i \<Rightarrow> seq (cp_stat junk i statbuf) (ret 0)))"

subsection \<open>fs/ioctl.c\<close>

definition sys_ioctl :: "u8 \<Rightarrow> u32 \<Rightarrow> u32 \<Rightarrow> u32 \<Rightarrow> int K" where
  "sys_ioctl junk fd cmd arg = bnd (gets (fd_file fd)) (\<lambda>r. case r of
     None \<Rightarrow> ret (- EBADF)
   | Some f \<Rightarrow> with_inode f (\<lambda>i. bnd (gets (\<lambda>s. inode_table s i)) (\<lambda>x.
       if \<not> S_ISCHR (i_mode x) \<and> \<not> S_ISBLK (i_mode x) then ret (- EINVAL)
       else let dev = i_zone x 0 in
         if MAJOR dev \<ge> 8 then ret (- ENODEV)
         else if MAJOR dev = 4 \<or> MAJOR dev = 5 then tty_ioctl junk dev cmd arg
         else ret (- ENOTTY))))"

end
