(* ===== verification/Mktime.thy ===== *)
theory Mktime
  imports Kstate
begin

unbundle bit_operations_syntax

text \<open>
  The clock: \<open>kernel_mktime\<close> of kernel/mktime.c turns a broken-down time into seconds since 1970,
  and \<open>time_init\<close> of init/main.c reads the time from the CMOS clock at boot.  The reference is the
  Gregorian calendar, counted day by day.
\<close>

record tm =
  tm_sec :: int
  tm_min :: int
  tm_hour :: int
  tm_mday :: int
  tm_mon :: int
  tm_year :: int

definition MINUTE :: int where [kconst]: "MINUTE = 60"
definition HOUR :: int where [kconst]: "HOUR = 60 * MINUTE"
definition DAY :: int where [kconst]: "DAY = 24 * HOUR"
definition YEAR :: int where [kconst]: "YEAR = 365 * DAY"

definition month :: "int list" where
  "month = [0, DAY * 31, DAY * (31 + 29), DAY * (31 + 29 + 31), DAY * (31 + 29 + 31 + 30),
     DAY * (31 + 29 + 31 + 30 + 31), DAY * (31 + 29 + 31 + 30 + 31 + 30),
     DAY * (31 + 29 + 31 + 30 + 31 + 30 + 31), DAY * (31 + 29 + 31 + 30 + 31 + 30 + 31 + 31),
     DAY * (31 + 29 + 31 + 30 + 31 + 30 + 31 + 31 + 30),
     DAY * (31 + 29 + 31 + 30 + 31 + 30 + 31 + 31 + 30 + 31),
     DAY * (31 + 29 + 31 + 30 + 31 + 30 + 31 + 31 + 30 + 31 + 30)]"

text \<open>
  \<open>None\<close> when the month is outside the table.  All the sums are \<open>long\<close>, so one wrap-around at the
  end stands for the wrap-around of every step.
\<close>

definition kernel_mktime :: "tm \<Rightarrow> int option" where
  "kernel_mktime t = (let year = tm_year t - 70 in
     if tm_mon t < 0 \<or> tm_mon t \<ge> 12 then None
     else Some (wrap32 (YEAR * year + DAY * ((year + 1) sdiv 4) + month ! nat (tm_mon t)
       - (if tm_mon t > 1 \<and> (year + 2) smod 4 \<noteq> 0 then DAY else 0)
       + DAY * (tm_mday t - 1) + HOUR * tm_hour t + MINUTE * tm_min t + tm_sec t)))"

subsection \<open>Reading the clock\<close>

definition CMOS_READ :: "u8 \<Rightarrow> int K" where
  "CMOS_READ addr = seq (outb (0x80 OR addr) 0x70) (bnd (inb 0x71) (\<lambda>v. ret (uint v)))"

definition BCD_TO_BIN :: "int \<Rightarrow> int" where
  "BCD_TO_BIN v = (v AND 15) + drop_bit 4 v * 10"

text \<open>A round of the loop: all registers, and the seconds once more.\<close>

definition read_clock :: "tm option K" where
  "read_clock =
     bnd (CMOS_READ 0) (\<lambda>sec. bnd (CMOS_READ 2) (\<lambda>mn. bnd (CMOS_READ 4) (\<lambda>hour.
     bnd (CMOS_READ 7) (\<lambda>mday. bnd (CMOS_READ 8) (\<lambda>mon. bnd (CMOS_READ 9) (\<lambda>year.
     bnd (CMOS_READ 0) (\<lambda>again.
       ret (if sec \<noteq> again then None
            else Some \<lparr>tm_sec = sec, tm_min = mn, tm_hour = hour, tm_mday = mday, tm_mon = mon,
              tm_year = year\<rparr>))))))))"

definition from_bcd :: "tm \<Rightarrow> tm" where
  "from_bcd t = \<lparr>tm_sec = BCD_TO_BIN (tm_sec t), tm_min = BCD_TO_BIN (tm_min t),
     tm_hour = BCD_TO_BIN (tm_hour t), tm_mday = BCD_TO_BIN (tm_mday t),
     tm_mon = BCD_TO_BIN (tm_mon t) - 1, tm_year = BCD_TO_BIN (tm_year t)\<rparr>"

text \<open>The clock may never stand still for a round: \<open>n\<close> bounds the rounds.\<close>

definition time_init :: "nat \<Rightarrow> unit K" where
  "time_init n = bnd (repeat_fuel n read_clock) (\<lambda>t. case kernel_mktime (from_bcd t) of
     None \<Rightarrow> stop Wild
   | Some v \<Rightarrow> modify (\<lambda>s. s\<lparr>startup_time := v\<rparr>))"

subsection \<open>The calendar\<close>

definition leap :: "int \<Rightarrow> bool" where
  "leap y \<longleftrightarrow> 4 dvd y \<and> (\<not> 100 dvd y \<or> 400 dvd y)"

definition year_days :: "int \<Rightarrow> int" where
  "year_days y = (if leap y then 366 else 365)"

definition month_days :: "int \<Rightarrow> int \<Rightarrow> int" where
  "month_days y m = (if m = 1 then if leap y then 29 else 28
     else if m \<in> {3, 5, 8, 10} then 30 else 31)"

text \<open>The days since 1 January 1970, and the seconds.\<close>

definition days_since :: "int \<Rightarrow> int \<Rightarrow> int \<Rightarrow> int" where
  "days_since y m d = sum_list (map year_days [1970..y - 1]) + sum_list (map (month_days y) [0..m - 1]) + (d - 1)"

definition epoch_seconds :: "tm \<Rightarrow> int" where
  "epoch_seconds t = ((days_since (1900 + tm_year t) (tm_mon t) (tm_mday t) * 24 + tm_hour t) * 60 + tm_min t) * 60
     + tm_sec t"

definition valid_tm :: "tm \<Rightarrow> bool" where
  "valid_tm t \<longleftrightarrow> 0 \<le> tm_sec t \<and> tm_sec t < 60 \<and> 0 \<le> tm_min t \<and> tm_min t < 60 \<and>
     0 \<le> tm_hour t \<and> tm_hour t < 24 \<and> 0 \<le> tm_mon t \<and> tm_mon t < 12 \<and>
     1 \<le> tm_mday t \<and> tm_mday t \<le> month_days (1900 + tm_year t) (tm_mon t)"

definition month_start :: "int \<Rightarrow> int \<Rightarrow> int" where
  "month_start y m = (let year = y - 1970 in
     365 * year + (year + 1) sdiv 4 + month ! nat m div 86400 - (if m > 1 \<and> (year + 2) smod 4 \<noteq> 0 then 1 else 0))"

lemma list_all_upto: "list_all P [a..b] \<Longrightarrow> a \<le> x \<Longrightarrow> x \<le> b \<Longrightarrow> P x"
  by (simp add: list_all_iff)

lemma month_starts: "list_all (\<lambda>y. list_all (\<lambda>m. month_start y m = days_since y m 1) [0..11]) [1970..2037]"
  by code_simp

lemma month_dvd: "list_all (\<lambda>m. month ! nat m = 86400 * (month ! nat m div 86400)) [0..11]"
  by code_simp

lemma month_start_bounds: "list_all (\<lambda>y. list_all (\<lambda>m. 0 \<le> month_start y m \<and> month_start y m < 24807) [0..11]) [1970..2037]"
  by code_simp

lemma month_startI: "1970 \<le> y \<Longrightarrow> y \<le> 2037 \<Longrightarrow> 0 \<le> m \<Longrightarrow> m < 12 \<Longrightarrow> month_start y m = days_since y m 1"
  by (rule list_all_upto [OF list_all_upto [OF month_starts]]) auto

lemma month_start_less: "1970 \<le> y \<Longrightarrow> y \<le> 2037 \<Longrightarrow> 0 \<le> m \<Longrightarrow> m < 12 \<Longrightarrow>
    0 \<le> month_start y m \<and> month_start y m < 24807"
  by (rule list_all_upto [OF list_all_upto [OF month_start_bounds]]) auto

lemma days_since_day: "days_since y m d = days_since y m 1 + (d - 1)"
  by (simp add: days_since_def)

lemma kernel_mktime_days:
  assumes "1970 \<le> y" "y \<le> 2037" "0 \<le> m" "m < 12" "y = 1900 + tm_year t" "m = tm_mon t"
  shows "kernel_mktime t = Some (wrap32 (DAY * (days_since y m 1 + (tm_mday t - 1)) + HOUR * tm_hour t +
    MINUTE * tm_min t + tm_sec t))"
proof -
  have ms: "month_start y m = days_since y m 1" by (rule month_startI) (use assms in auto)
  have md: "month ! nat m = 86400 * (month ! nat m div 86400)"
    by (rule list_all_upto [OF month_dvd]) (use assms in auto)
  have e: "YEAR * (y - 1970) + DAY * ((y - 1970 + 1) sdiv 4) + month ! nat m -
    (if m > 1 \<and> (y - 1970 + 2) smod 4 \<noteq> 0 then DAY else 0) = DAY * days_since y m 1"
    unfolding ms [symmetric] month_start_def Let_def by (subst md) (simp add: kconst)
  have yr: "tm_year t - 70 = y - 1970" using assms by simp
  have "kernel_mktime t = Some (wrap32 (YEAR * (y - 1970) + DAY * ((y - 1970 + 1) sdiv 4) + month ! nat m -
    (if m > 1 \<and> (y - 1970 + 2) smod 4 \<noteq> 0 then DAY else 0) +
    DAY * (tm_mday t - 1) + HOUR * tm_hour t + MINUTE * tm_min t + tm_sec t))"
    using assms(3,4) unfolding kernel_mktime_def Let_def yr assms(6) [symmetric] by simp
  then show ?thesis unfolding e by (simp add: distrib_left)
qed

lemma epoch_in_range:
  assumes "valid_tm t" "70 \<le> tm_year t" "tm_year t \<le> 137"
  shows "0 \<le> epoch_seconds t \<and> epoch_seconds t < 2147483648"
proof -
  let ?y = "1900 + tm_year t"
  have "month_start ?y (tm_mon t) = days_since ?y (tm_mon t) 1"
    "0 \<le> month_start ?y (tm_mon t) \<and> month_start ?y (tm_mon t) < 24807"
    using month_startI month_start_less assms by (simp_all add: valid_tm_def)
  moreover have "month_days ?y (tm_mon t) \<le> 31" by (simp add: month_days_def)
  ultimately show ?thesis
    using assms days_since_day [of ?y "tm_mon t" "tm_mday t"] unfolding valid_tm_def epoch_seconds_def
    by auto
qed

lemma mktime_calendar:
  assumes "valid_tm t" "70 \<le> tm_year t" "tm_year t \<le> 137"
  shows "kernel_mktime t = Some (epoch_seconds t)"
proof -
  have "DAY * (days_since (1900 + tm_year t) (tm_mon t) 1 + (tm_mday t - 1)) + HOUR * tm_hour t +
      MINUTE * tm_min t + tm_sec t = epoch_seconds t"
    unfolding days_since_day [symmetric] epoch_seconds_def by (simp add: kconst)
  then have "kernel_mktime t = Some (wrap32 (epoch_seconds t))"
    using assms kernel_mktime_days [of "1900 + tm_year t" "tm_mon t" t] by (simp add: valid_tm_def)
  then show ?thesis using epoch_in_range [OF assms] by simp
qed

text \<open>
  C34. For every valid date of the years 1970 to 2037, \<open>kernel_mktime\<close> gives exactly the number of
  seconds since 1 January 1970 that counting the days of the Gregorian calendar gives, a
  non-negative \<open>long\<close>.
\<close>

lemma kernel_mktime_calendar:
  assumes "valid_tm t" "70 \<le> tm_year t" "tm_year t \<le> 137"
  shows "kernel_mktime t = Some (epoch_seconds t) \<and> 0 \<le> epoch_seconds t \<and> epoch_seconds t < 2 ^ 31"
  using mktime_calendar [OF assms] epoch_in_range [OF assms] by simp

definition tm0 :: tm where
  "tm0 = \<lparr>tm_sec = 5, tm_min = 4, tm_hour = 3, tm_mday = 29, tm_mon = 1, tm_year = 92\<rparr>"

lemma kernel_mktime_calendar_witness: "kernel_mktime tm0 = Some 699332645 \<and> valid_tm tm0"
proof -
  have v: "valid_tm tm0" by code_simp
  have "kernel_mktime tm0 = Some (epoch_seconds tm0)"
    using kernel_mktime_calendar [OF v] by (simp add: tm0_def)
  moreover have "epoch_seconds tm0 = 699332645" by code_simp
  ultimately show ?thesis using v by simp
qed

subsection \<open>The time at boot\<close>

text \<open>A clock that stands still while it is read, and shows the binary coded decimal of a date.\<close>

definition bcd :: "int \<Rightarrow> u8" where
  "bcd v = word_of_int (16 * (v div 10) + v mod 10)"

text \<open>
  The port 0x71 answers for the register selected by the last write to 0x70.  A clock that shows
  \<open>t\<close>: reading the registers in the order of \<open>read_clock\<close> gives the digits of \<open>t\<close>.
\<close>

definition clock_shows :: "tm \<Rightarrow> kernel \<Rightarrow> bool" where
  "clock_shows t s \<longleftrightarrow> map (\<lambda>k. hw_inb s 0x71 (io_reads s + k)) [0..<7] =
     map bcd [tm_sec t, tm_min t, tm_hour t, tm_mday t, tm_mon t + 1, tm_year t, tm_sec t]"

lemma bcd_all: "list_all (\<lambda>v. BCD_TO_BIN (uint (bcd v)) = v) [0..99]"
  by code_simp

lemma bcd_roundtrip: "0 \<le> v \<Longrightarrow> v \<le> 99 \<Longrightarrow> BCD_TO_BIN (uint (bcd v)) = v"
  by (rule list_all_upto [OF bcd_all])

lemma CMOS_READ_run:
  "CMOS_READ r s es = Ret (uint (hw_inb s 0x71 (io_reads s)))
     (s\<lparr>io_log := (0x70, 0x80 OR r) # io_log s, io_reads := Suc (io_reads s)\<rparr>) es"
  by (simp add: CMOS_READ_def krun inb_def outb_def)

lemma read_clock_run:
  assumes "clock_shows t s"
  shows "\<exists>s'. s' = s\<lparr>io_log := map (\<lambda>r. (0x70, 0x80 OR r)) [0, 9, 8, 7, 4, 2, 0] @ io_log s, io_reads := io_reads s + 7\<rparr> \<and>
    read_clock s es = Ret (Some \<lparr>tm_sec = uint (bcd (tm_sec t)), tm_min = uint (bcd (tm_min t)),
    tm_hour = uint (bcd (tm_hour t)), tm_mday = uint (bcd (tm_mday t)), tm_mon = uint (bcd (tm_mon t + 1)),
    tm_year = uint (bcd (tm_year t))\<rparr>) s' es"
  using assms by (simp add: clock_shows_def read_clock_def krun CMOS_READ_run upt_rec numeral_nat)

lemma time_init_run:
  assumes "clock_shows t s" "valid_tm t" "70 \<le> tm_year t" "tm_year t \<le> 99" "0 < n"
  shows "time_init n s es = Ret () (s\<lparr>io_log := map (\<lambda>r. (0x70, 0x80 OR r)) [0, 9, 8, 7, 4, 2, 0] @ io_log s,
    io_reads := io_reads s + 7, startup_time := epoch_seconds t\<rparr>) es"
proof -
  obtain k where n: "n = Suc k" using assms(5) by (cases n) auto
  obtain s' where s': "read_clock s es = Ret (Some \<lparr>tm_sec = uint (bcd (tm_sec t)), tm_min = uint (bcd (tm_min t)),
      tm_hour = uint (bcd (tm_hour t)), tm_mday = uint (bcd (tm_mday t)), tm_mon = uint (bcd (tm_mon t + 1)),
      tm_year = uint (bcd (tm_year t))\<rparr>) s' es"
    and log: "s' = s\<lparr>io_log := map (\<lambda>r. (0x70, 0x80 OR r)) [0, 9, 8, 7, 4, 2, 0] @ io_log s, io_reads := io_reads s + 7\<rparr>"
    using read_clock_run [OF assms(1)] by blast
  have "month_days (1900 + tm_year t) (tm_mon t) \<le> 31" by (simp add: month_days_def)
  then have "from_bcd \<lparr>tm_sec = uint (bcd (tm_sec t)), tm_min = uint (bcd (tm_min t)),
      tm_hour = uint (bcd (tm_hour t)), tm_mday = uint (bcd (tm_mday t)), tm_mon = uint (bcd (tm_mon t + 1)),
      tm_year = uint (bcd (tm_year t))\<rparr> = t"
    using assms(2-4) by (simp add: from_bcd_def valid_tm_def bcd_roundtrip)
  moreover have "kernel_mktime t = Some (epoch_seconds t)"
    by (rule mktime_calendar) (use assms in auto)
  ultimately show ?thesis
    using log by (simp add: n time_init_def krun s')
qed

text \<open>
  C35. When the clock shows a valid date of the years 1970 to 1999 and
  stands still for one round, \<open>time_init\<close> selects the registers 0, 2, 4, 7, 8, 9 and 0 (the log has
  the last one first), needs a single round and sets \<open>startup_time\<close> to the seconds since 1970.
\<close>

lemma time_init_sets_clock:
  assumes "clock_shows t s" "valid_tm t" "70 \<le> tm_year t" "tm_year t \<le> 99" "0 < n"
  shows "\<exists>s'. time_init n s es = Ret () s' es \<and> startup_time s' = epoch_seconds t \<and>
    io_log s' = map (\<lambda>r. (0x70, 0x80 OR r)) [0, 9, 8, 7, 4, 2, 0] @ io_log s"
  using time_init_run [OF assms] by simp

definition clock0 :: kernel where
  "clock0 = blank_kernel\<lparr>hw_inb := (\<lambda>_ k. [0x05, 0x04, 0x03, 0x29, 0x02, 0x92, 0x05] ! k)\<rparr>"

lemma time_init_sets_clock_witness:
  "\<exists>s'. time_init 1 clock0 [] = Ret () s' [] \<and> startup_time s' = 699332645"
proof -
  have "clock_shows tm0 clock0" by code_simp
  moreover have "valid_tm tm0" by code_simp
  moreover have "epoch_seconds tm0 = 699332645" by code_simp
  ultimately show ?thesis using time_init_sets_clock [of tm0 clock0 1 "[]"] by (auto simp: tm0_def)
qed

end
