(* ===== verification/Sys.thy ===== *)
theory Sys
  imports Usermem
begin

unbundle bit_operations_syntax

text \<open>
  kernel/sys.c: user and group ids, the clock, the break, process groups and sessions.  Ids are
  \<open>unsigned short\<close> in the task and \<open>int\<close> in the calls, so storing one cuts it to 16 bits.
\<close>

definition sys_ftime :: "int K" where "sys_ftime = ret (- ENOSYS)"
definition sys_break :: "int K" where "sys_break = ret (- ENOSYS)"
definition sys_ptrace :: "int K" where "sys_ptrace = ret (- ENOSYS)"
definition sys_stty :: "int K" where "sys_stty = ret (- ENOSYS)"
definition sys_gtty :: "int K" where "sys_gtty = ret (- ENOSYS)"
definition sys_rename :: "int K" where "sys_rename = ret (- ENOSYS)"
definition sys_prof :: "int K" where "sys_prof = ret (- ENOSYS)"

definition sys_setregid :: "int \<Rightarrow> int \<Rightarrow> int K" where
  "sys_setregid rg eg = bnd (gets cur) (\<lambda>t. bnd (gets suser) (\<lambda>su.
     if rg > 0 \<and> \<not> (uint (gid t) = rg \<or> su) then ret (- EPERM)
     else let g = (if rg > 0 then word_of_int rg else gid t) in seq
       (modify (\<lambda>s. upd_cur (\<lambda>t. t\<lparr>gid := g\<rparr>) s))
       (if eg > 0 \<and> \<not> (uint g = eg \<or> uint (egid t) = eg \<or> uint (sgid t) = eg \<or> su) then ret (- EPERM)
        else seq (modify (\<lambda>s. upd_cur (\<lambda>t. t\<lparr>egid := (if eg > 0 then word_of_int eg else egid t)\<rparr>) s))
          (ret 0))))"

definition sys_setgid :: "int \<Rightarrow> int K" where
  "sys_setgid g = sys_setregid g g"

definition sys_acct :: "int K" where "sys_acct = ret (- ENOSYS)"
definition sys_phys :: "int K" where "sys_phys = ret (- ENOSYS)"
definition sys_lock :: "int K" where "sys_lock = ret (- ENOSYS)"
definition sys_mpx :: "int K" where "sys_mpx = ret (- ENOSYS)"
definition sys_ulimit :: "int K" where "sys_ulimit = ret (- ENOSYS)"

definition sys_time :: "u32 \<Rightarrow> int K" where
  "sys_time tloc = bnd (gets CURRENT_TIME) (\<lambda>i. seq
     (guardK (tloc \<noteq> 0) (block [verify_area tloc 4, modify (put_fs_long (word_of_int i) tloc)]))
     (ret i))"

definition sys_setreuid :: "int \<Rightarrow> int \<Rightarrow> int K" where
  "sys_setreuid ru eu = bnd (gets cur) (\<lambda>t. bnd (gets suser) (\<lambda>su. let old_ruid = uid t in
     if ru > 0 \<and> \<not> (uint (euid t) = ru \<or> uint old_ruid = ru \<or> su) then ret (- EPERM)
     else seq
       (modify (\<lambda>s. upd_cur (\<lambda>t. t\<lparr>uid := (if ru > 0 then word_of_int ru else uid t)\<rparr>) s))
       (if eu > 0 \<and> \<not> (uint old_ruid = eu \<or> uint (euid t) = eu \<or> su)
        then seq (modify (\<lambda>s. upd_cur (\<lambda>t. t\<lparr>uid := old_ruid\<rparr>) s)) (ret (- EPERM))
        else seq (modify (\<lambda>s. upd_cur (\<lambda>t. t\<lparr>euid := (if eu > 0 then word_of_int eu else euid t)\<rparr>) s))
          (ret 0))))"

definition sys_setuid :: "int \<Rightarrow> int K" where
  "sys_setuid u = sys_setreuid u u"

definition sys_stime :: "u32 \<Rightarrow> int K" where
  "sys_stime p = bnd (gets suser) (\<lambda>su. if \<not> su then ret (- EPERM)
     else seq (modify (\<lambda>s. s\<lparr>startup_time := wrap32 (uint (get_fs_long s p) - jiffies s sdiv HZ)\<rparr>)) (ret 0))"

definition sys_times :: "u32 \<Rightarrow> int K" where
  "sys_times tbuf = seq
     (guardK (tbuf \<noteq> 0) (block
       [verify_area tbuf 16,
        modify (\<lambda>s. put_fs_long (word_of_int (utime (cur s))) tbuf s),
        modify (\<lambda>s. put_fs_long (word_of_int (stime (cur s))) (tbuf + 4) s),
        modify (\<lambda>s. put_fs_long (word_of_int (cutime (cur s))) (tbuf + 8) s),
        modify (\<lambda>s. put_fs_long (word_of_int (cstime (cur s))) (tbuf + 12) s)]))
     (gets jiffies)"

definition sys_brk :: "u32 \<Rightarrow> u32 K" where
  "sys_brk end_data_seg = seq
     (modify (\<lambda>s. if end_data_seg \<ge> end_code (cur s) \<and> end_data_seg < start_stack (cur s) - 16384
       then upd_cur (\<lambda>t. t\<lparr>brk := end_data_seg\<rparr>) s else s))
     (gets (\<lambda>s. brk (cur s)))"

definition find_pid :: "kernel \<Rightarrow> int \<Rightarrow> tptr option" where
  "find_pid s p = (case first_upto (\<lambda>i. case task s i of None \<Rightarrow> False | Some q \<Rightarrow> pid (tsk s q) = p) NR_TASKS of
     None \<Rightarrow> None | Some i \<Rightarrow> task s i)"

definition sys_setpgid :: "int \<Rightarrow> int \<Rightarrow> int K" where
  "sys_setpgid p g = bnd (gets cur) (\<lambda>t. let p' = (if p = 0 then pid t else p); g' = (if g = 0 then pid t else g) in
     bnd (gets (\<lambda>s. find_pid s p')) (\<lambda>r. case r of
       None \<Rightarrow> ret (- ESRCH)
     | Some q \<Rightarrow> bnd (gets (\<lambda>s. tsk s q)) (\<lambda>x.
         if leader x \<noteq> 0 then ret (- EPERM)
         else if session x \<noteq> session t then ret (- EPERM)
         else seq (modify (upd_task q (\<lambda>y. y\<lparr>pgrp := g'\<rparr>))) (ret 0))))"

definition sys_getpgrp :: "int K" where
  "sys_getpgrp = gets (\<lambda>s. pgrp (cur s))"

definition sys_setsid :: "int K" where
  "sys_setsid = bnd (gets (\<lambda>s. leader (cur s) \<noteq> 0 \<and> \<not> suser s)) (\<lambda>no.
     if no then ret (- EPERM)
     else seq (modify (\<lambda>s. upd_cur (\<lambda>t. t\<lparr>leader := 1, session := pid t, pgrp := pid t, tty := - 1\<rparr>) s))
       (gets (\<lambda>s. pgrp (cur s))))"

text \<open>The 45 bytes of \<open>thisname\<close>: five strings of eight characters with their zero bytes.\<close>

definition thisname :: "u8 list" where
  "thisname = map (\<lambda>c. of_nat (of_char c)) (''linux .0'' @ [CHR 0x00] @ ''nodename'' @ [CHR 0x00] @
     ''release '' @ [CHR 0x00] @ ''version '' @ [CHR 0x00] @ ''machine '' @ [CHR 0x00])"

definition sys_uname :: "u32 \<Rightarrow> int K" where
  "sys_uname name = (if name = 0 then ret (- ERROR)
     else seq (block [verify_area name 45,
       for_each [0..<45] (\<lambda>i. modify (put_fs_byte (thisname ! i) (name + of_nat i)))]) (ret 0))"

definition sys_umask :: "u16 \<Rightarrow> int K" where
  "sys_umask m = bnd (gets (\<lambda>s. umask (cur s))) (\<lambda>old. seq
     (modify (\<lambda>s. upd_cur (\<lambda>t. t\<lparr>umask := m AND 0x1FF\<rparr>) s)) (ret (uint old)))"

subsection \<open>User ids\<close>

definition may_become :: "task_struct \<Rightarrow> int \<Rightarrow> bool" where
  "may_become t v \<longleftrightarrow> v \<le> 0 \<or> v = uint (uid t) \<or> v = uint (euid t)"

lemma upd_cur_id: "upd_cur (\<lambda>t. t\<lparr>uid := uid (cur s)\<rparr>) s = s"
  by (simp add: upd_task_def fun_upd_idem)

lemma upd_task_twice: "upd_task p f (upd_task p g s) = upd_task p (f \<circ> g) s"
  by (simp add: upd_task_def)

lemma upd_task_current: "current (upd_task p f s) = current s"
  by (simp add: upd_task_def)

lemma upd_task_tsk: "tsk (upd_task p f s) q = (if q = p then f (tsk s p) else tsk s q)"
  by (simp add: upd_task_def)

lemma upd_task_cong: "f (tsk s p) = g (tsk s p) \<Longrightarrow> upd_task p f s = upd_task p g s"
  by (simp add: upd_task_def)

lemmas upd_task_lemmas = upd_task_twice upd_task_current upd_task_tsk

text \<open>
  C33. Changing the user ids of a task that is not the superuser: \<open>sys_setreuid\<close> succeeds exactly when
  each requested id is one of the real and the effective id it has; then the ids become the
  requested ones (kept where the request is not positive) and nothing else changes, so the task never
  gains an id it did not have and never the superuser's effective id.  When it fails it gives EPERM and
  the state is as before, the real id included.
\<close>

lemma setreuid_safe:
  assumes "euid (cur s) \<noteq> 0"
  shows "if may_become (cur s) ru \<and> may_become (cur s) eu
    then \<exists>u e. sys_setreuid ru eu s es = Ret 0 (upd_cur (\<lambda>t. t\<lparr>uid := u, euid := e\<rparr>) s) es \<and>
      {u, e} \<subseteq> {uid (cur s), euid (cur s)} \<and> e \<noteq> 0 \<and>
      (ru > 0 \<longrightarrow> uint u = ru) \<and> (eu > 0 \<longrightarrow> uint e = eu)
    else sys_setreuid ru eu s es = Ret (- EPERM) s es"
proof -
  have su: "\<not> suser s" using assms by (simp add: suser_def)
  have c: "(ru > 0 \<and> \<not> (uint (euid (cur s)) = ru \<or> uint (uid (cur s)) = ru \<or> suser s)) = (\<not> may_become (cur s) ru)"
    "(eu > 0 \<and> \<not> (uint (uid (cur s)) = eu \<or> uint (euid (cur s)) = eu \<or> suser s)) = (\<not> may_become (cur s) eu)"
    using su by (auto simp: may_become_def)
  let ?set = "\<lambda>s. upd_cur (\<lambda>t. t\<lparr>uid := (if ru > 0 then word_of_int ru else uid t)\<rparr>) s"
  have run: "sys_setreuid ru eu s es =
     (if \<not> may_become (cur s) ru then Ret (- EPERM) s es
      else if \<not> may_become (cur s) eu then Ret (- EPERM) (upd_cur (\<lambda>t. t\<lparr>uid := uid (cur s)\<rparr>) (?set s)) es
      else Ret 0 (upd_cur (\<lambda>t. t\<lparr>euid := (if eu > 0 then word_of_int eu else euid t)\<rparr>) (?set s)) es)"
    by (simp only: sys_setreuid_def Let_def bnd_run gets_run seq_run if_run modify_run ret_run res.case c
        split: if_split)
  show ?thesis
proof (cases "may_become (cur s) ru \<and> may_become (cur s) eu")
  case True
  let ?u = "if ru > 0 then word_of_int ru else uid (cur s)"
  let ?e = "if eu > 0 then word_of_int eu else euid (cur s)"
  have "sys_setreuid ru eu s es = Ret 0 (upd_cur (\<lambda>t. t\<lparr>uid := ?u, euid := ?e\<rparr>) s) es"
    using True unfolding run by (auto simp: upd_task_lemmas intro!: upd_task_cong)
  moreover have "{?u, ?e} \<subseteq> {uid (cur s), euid (cur s)} \<and> (ru > 0 \<longrightarrow> uint ?u = ru) \<and> (eu > 0 \<longrightarrow> uint ?e = eu)"
    using True by (auto simp: may_become_def)
  moreover have "?e \<noteq> 0" using assms True by (auto simp: may_become_def)
  ultimately have "\<exists>u e. sys_setreuid ru eu s es = Ret 0 (upd_cur (\<lambda>t. t\<lparr>uid := u, euid := e\<rparr>) s) es \<and>
      {u, e} \<subseteq> {uid (cur s), euid (cur s)} \<and> e \<noteq> 0 \<and>
      (ru > 0 \<longrightarrow> uint u = ru) \<and> (eu > 0 \<longrightarrow> uint e = eu)" by blast
  then show ?thesis using True by simp
next
  case False
  have "upd_cur (\<lambda>t. t\<lparr>uid := uid (cur s)\<rparr>) (?set s) = s"
    using upd_cur_id [of s] by (simp add: upd_task_lemmas comp_def)
  then show ?thesis using False unfolding run by auto
qed
qed

definition sys0 :: kernel where
  "sys0 = blank_kernel\<lparr>tsk := (\<lambda>_. blank_task_struct\<lparr>uid := 7, euid := 9\<rparr>)\<rparr>"

lemma setreuid_safe_witness:
  "sys_setreuid 9 7 sys0 [] = Ret 0 (upd_cur (\<lambda>t. t\<lparr>uid := 9, euid := 7\<rparr>) sys0) [] \<and>
   sys_setreuid 9 1 sys0 [] = Ret (- EPERM) sys0 []"
proof -
  have ids: "euid (cur sys0) = 9" "uid (cur sys0) = 7" by (simp_all add: sys0_def)
  have "\<exists>u e. sys_setreuid 9 7 sys0 [] = Ret 0 (upd_cur (\<lambda>t. t\<lparr>uid := u, euid := e\<rparr>) sys0) [] \<and> uint u = 9 \<and> uint e = 7"
    using setreuid_safe [of sys0 9 7 "[]"] by (auto simp: ids may_become_def)
  moreover have "uint u = 9 \<Longrightarrow> u = 9" "uint e = 7 \<Longrightarrow> e = 7" for u e :: u16
    by (simp_all add: word_uint_eq_iff)
  moreover have "sys_setreuid 9 1 sys0 [] = Ret (- EPERM) sys0 []"
    using setreuid_safe [of sys0 9 1 "[]"] by (simp add: ids may_become_def)
  ultimately show ?thesis by auto
qed

end
