(* ===== verification/Process.thy ===== *)
theory Process
  imports Files Sys
begin

unbundle bit_operations_syntax

text \<open>
  Processes: kernel/exit.c, kernel/signal.c and kernel/fork.c, with the segment macros of
  include/linux/sched.h.  The descriptors that \<open>copy_process\<close> sets are in Traps; the coprocessor
  state (\<open>fnsave\<close>) is hardware and has no counterpart.
\<close>

subsection \<open>Segment descriptors\<close>

definition set_base :: "desc_struct \<Rightarrow> u32 \<Rightarrow> desc_struct" where
  "set_base d base = \<lparr>desc_a = (desc_a d AND 0xffff) OR push_bit 16 base,
     desc_b = (desc_b d AND 0x00ffff00) OR (drop_bit 16 base AND 0xff) OR (base AND 0xff000000)\<rparr>"

text \<open>\<open>set_limit\<close> stores \<open>(limit - 1) >> 12\<close>; the granularity bit is left as it is.\<close>

definition set_limit :: "desc_struct \<Rightarrow> u32 \<Rightarrow> desc_struct" where
  "set_limit d limit = (let l = drop_bit 12 (limit - 1) in
     \<lparr>desc_a = (desc_a d AND 0xffff0000) OR (l AND 0xffff), desc_b = (desc_b d AND 0xfff0ffff) OR (l AND 0x00ff0000)\<rparr>)"

text \<open>
  \<open>get_limit\<close>: the instruction \<open>lsl\<close> on an entry of the local table, plus one; a limit with the
  granularity bit is in pages.
\<close>

definition get_limit :: "desc_struct \<Rightarrow> u32" where
  "get_limit d = (let l = (desc_a d AND 0xffff) OR (desc_b d AND 0xf0000) in
     (if bit (desc_b d) 23 then push_bit 12 l OR 0xfff else l) + 1)"

subsection \<open>kernel/exit.c\<close>

text \<open>
  The last \<open>schedule\<close> of a task that is a zombie or has left the task table: no one can choose
  it again, so it stops there, with another task running.
\<close>

definition schedule_dead :: "'a K" where
  "schedule_dead = seq (modify (\<lambda>s. each_task (check_signals (jiffies s)) s))
     (bnd (choose_task 100) (\<lambda>n. bnd (gets (\<lambda>s. task s n)) (\<lambda>q. case q of
       None \<Rightarrow> stop Wild
     | Some p \<Rightarrow> seq (modify (\<lambda>s. s\<lparr>current := p\<rparr>)) (stop Dead))))"

definition release :: "tptr option \<Rightarrow> unit K" where
  "release r = (case r of
     None \<Rightarrow> skip
   | Some p \<Rightarrow> bnd (gets (\<lambda>s. first_from (\<lambda>i. task s i = Some p) 1 (NR_TASKS - 1))) (\<lambda>i. case i of
       None \<Rightarrow> kpanic ''trying to release non-existent task''
     | Some i \<Rightarrow> block
         [modify (\<lambda>s. s\<lparr>task := (task s)(i := None)\<rparr>),
          free_page p,
          bnd (gets current) (\<lambda>me. if me = p then schedule_dead else schedule)]))"

definition send_sig :: "int \<Rightarrow> tptr option \<Rightarrow> bool \<Rightarrow> int K" where
  "send_sig sig r priv = (case r of
     None \<Rightarrow> ret (- EINVAL)
   | Some p \<Rightarrow>
       if sig < 1 \<or> sig > 32 then ret (- EINVAL)
       else bnd (gets (\<lambda>s. priv \<or> euid (cur s) = euid (tsk s p) \<or> suser s)) (\<lambda>ok.
         if ok then seq (modify (upd_task p (\<lambda>t. t\<lparr>signal := signal t OR sigbit (nat sig)\<rparr>))) (ret 0)
         else ret (- EPERM)))"

definition kill_session :: "kernel \<Rightarrow> kernel" where
  "kill_session s = (let ses = session (cur s) in
     each_task (\<lambda>t. if session t = ses then t\<lparr>signal := signal t OR sigbit SIGHUP\<rparr> else t) s)"

text \<open>
  \<open>sys_kill\<close>: the four loops differ in whom they choose; with \<open>pid == -1\<close> the empty slots
  are not left out, and \<open>send_sig\<close> answers EINVAL for each of them.
\<close>

definition kill_target :: "int \<Rightarrow> kernel \<Rightarrow> tptr option \<Rightarrow> bool" where
  "kill_target p s r = (if p = - 1 then True
     else case r of None \<Rightarrow> False
       | Some q \<Rightarrow> if p = 0 then pgrp (tsk s q) = pid (cur s)
                   else if p > 0 then pid (tsk s q) = p else pgrp (tsk s q) = - p)"

fun kill_loop :: "nat list \<Rightarrow> int \<Rightarrow> int \<Rightarrow> int \<Rightarrow> int K" where
  "kill_loop [] p sig retval = ret retval"
| "kill_loop (i # ixs) p sig retval = bnd (gets (\<lambda>s. (task s i, kill_target p s (task s i)))) (\<lambda>(r, hit).
     if \<not> hit then kill_loop ixs p sig retval
     else bnd (send_sig sig r (p = 0)) (\<lambda>err. kill_loop ixs p sig (if err \<noteq> 0 then err else retval)))"

definition sys_kill :: "int \<Rightarrow> int \<Rightarrow> int K" where
  "sys_kill p sig = kill_loop (rev [1..<NR_TASKS]) p sig 0"

definition tell_father :: "int \<Rightarrow> unit K" where
  "tell_father p = bnd (gets (\<lambda>s. if p = 0 then None else find_pid s p)) (\<lambda>r. case r of
     Some q \<Rightarrow> modify (upd_task q (\<lambda>t. t\<lparr>signal := signal t OR sigbit SIGCHLD\<rparr>))
   | None \<Rightarrow> bnd (gets current) (\<lambda>me. release (Some me)))"

text \<open>The children of a dying task go to task 1, which hears of the zombies among them.\<close>

definition adopt :: "nat \<Rightarrow> unit K" where
  "adopt i = bnd (gets (\<lambda>s. (task s i, pid (cur s), task s 1))) (\<lambda>(r, me, one). case r of
     None \<Rightarrow> skip
   | Some q \<Rightarrow> bnd (gets (\<lambda>s. tsk s q)) (\<lambda>t. guardK (father t = me) (block
       [modify (upd_task q (\<lambda>t. t\<lparr>father := 1\<rparr>)),
        guardK (state t = TASK_ZOMBIE) (bnd (send_sig (int SIGCHLD) one True) (\<lambda>_. skip))])))"

definition put_dirs :: "unit K" where
  "put_dirs = block
     [bnd (gets (\<lambda>s. pwd (cur s))) iput, modify (\<lambda>s. upd_cur (\<lambda>t. t\<lparr>pwd := None\<rparr>) s),
      bnd (gets (\<lambda>s. root (cur s))) iput, modify (\<lambda>s. upd_cur (\<lambda>t. t\<lparr>root := None\<rparr>) s),
      bnd (gets (\<lambda>s. executable (cur s))) iput, modify (\<lambda>s. upd_cur (\<lambda>t. t\<lparr>executable := None\<rparr>) s)]"

definition leave_tty :: "unit K" where
  "leave_tty = bnd (gets cur) (\<lambda>t. guardK (leader t \<noteq> 0 \<and> tty t \<ge> 0)
     (if tty t > 2 then stop Wild else modify (upd_tty (nat (tty t)) (\<lambda>y. y\<lparr>tty_pgrp := 0\<rparr>))))"

definition do_exit :: "int \<Rightarrow> 'a K" where
  "do_exit code = seq (block
     [bnd (gets (\<lambda>s. ldt (cur s) 1)) (\<lambda>d. bnd (free_page_tables (get_base d) (get_limit d)) (\<lambda>_. skip)),
      bnd (gets (\<lambda>s. ldt (cur s) 2)) (\<lambda>d. bnd (free_page_tables (get_base d) (get_limit d)) (\<lambda>_. skip)),
      for_each [0..<NR_TASKS] adopt,
      for_each [0..<NR_OPEN] (\<lambda>i. bnd (gets (\<lambda>s. filp (cur s) i \<noteq> None)) (\<lambda>op.
        guardK op (bnd (sys_close (of_nat i)) (\<lambda>_. skip)))),
      put_dirs,
      leave_tty,
      modify (\<lambda>s. if last_task_used_math s = Some (current s) then s\<lparr>last_task_used_math := None\<rparr> else s),
      modify (\<lambda>s. if leader (cur s) \<noteq> 0 then kill_session s else s),
      modify (\<lambda>s. upd_cur (\<lambda>t. t\<lparr>state := TASK_ZOMBIE, exit_code := code\<rparr>) s),
      bnd (gets (\<lambda>s. father (cur s))) tell_father])
     schedule_dead"

definition sys_exit :: "u32 \<Rightarrow> int K" where
  "sys_exit error_code = do_exit (uint (push_bit 8 (error_code AND 0xff)))"

definition WNOHANG :: u32 where [kconst]: "WNOHANG = 1"
definition WUNTRACED :: u32 where [kconst]: "WUNTRACED = 2"

definition wait_match :: "int \<Rightarrow> kernel \<Rightarrow> tptr \<Rightarrow> bool" where
  "wait_match p s q \<longleftrightarrow> q \<noteq> current s \<and> father (tsk s q) = pid (cur s) \<and>
     (if p > 0 then pid (tsk s q) = p
      else if p = 0 then pgrp (tsk s q) = pgrp (cur s)
      else p = - 1 \<or> pgrp (tsk s q) = - p)"

definition reap :: "tptr \<Rightarrow> u32 \<Rightarrow> int K" where
  "reap q stat_addr = bnd (gets (\<lambda>s. tsk s q)) (\<lambda>t. seq (block
     [modify (\<lambda>s. upd_cur (\<lambda>c. c\<lparr>cutime := wrap32 (cutime c + utime t), cstime := wrap32 (cstime c + stime t)\<rparr>) s),
      release (Some q),
      modify (put_fs_long (word_of_int (exit_code t)) stat_addr)])
     (ret (pid t)))"

text \<open>The loop over the task table: \<open>Inl\<close> when it ends, with the flag, \<open>Inr\<close> for a \<open>return\<close> in it.\<close>

fun wait_scan :: "nat list \<Rightarrow> int \<Rightarrow> u32 \<Rightarrow> u32 \<Rightarrow> bool \<Rightarrow> (bool + int) K" where
  "wait_scan [] p stat_addr options flg = ret (Inl flg)"
| "wait_scan (i # ixs) p stat_addr options flg = bnd (gets (\<lambda>s. (task s i, s))) (\<lambda>(r, s). case r of
     None \<Rightarrow> wait_scan ixs p stat_addr options flg
   | Some q \<Rightarrow>
       if \<not> wait_match p s q then wait_scan ixs p stat_addr options flg
       else if state (tsk s q) = TASK_STOPPED
       then if options AND WUNTRACED = 0 then wait_scan ixs p stat_addr options flg
            else seq (modify (put_fs_long 0x7f stat_addr)) (ret (Inr (pid (tsk s q))))
       else if state (tsk s q) = TASK_ZOMBIE then bnd (reap q stat_addr) (\<lambda>v. ret (Inr v))
       else wait_scan ixs p stat_addr options True)"

definition wait_round :: "int \<Rightarrow> u32 \<Rightarrow> u32 \<Rightarrow> int option K" where
  "wait_round p stat_addr options =
     bnd (wait_scan (rev [1..<NR_TASKS]) p stat_addr options False) (\<lambda>r. case r of
       Inr v \<Rightarrow> ret (Some v)
     | Inl False \<Rightarrow> ret (Some (- ECHILD))
     | Inl True \<Rightarrow>
         if options AND WNOHANG \<noteq> 0 then ret (Some 0)
         else seq (block
           [modify (\<lambda>s. set_state TASK_INTERRUPTIBLE (current s) s), schedule,
            modify (\<lambda>s. upd_cur (\<lambda>t. t\<lparr>signal := signal t AND NOT (sigbit SIGCHLD)\<rparr>) s)])
           (gets (\<lambda>s. if signal (cur s) = 0 then None else Some (- EINTR))))"

text \<open>A round that goes again has slept, or has used up a SIGCHLD that was pending.\<close>

definition sys_waitpid :: "int \<Rightarrow> u32 \<Rightarrow> u32 \<Rightarrow> int K" where
  "sys_waitpid p stat_addr options = seq (verify_area stat_addr 4) (retry_twice (wait_round p stat_addr options))"

subsection \<open>kernel/signal.c\<close>

definition SA_NOMASK :: u32 where [kconst]: "SA_NOMASK = 0x40000000"
definition SA_ONESHOT :: u32 where [kconst]: "SA_ONESHOT = 0x80000000"

definition sys_sgetmask :: "u32 K" where
  "sys_sgetmask = gets (\<lambda>s. blocked (cur s))"

definition sys_ssetmask :: "u32 \<Rightarrow> u32 K" where
  "sys_ssetmask newmask = bnd (gets (\<lambda>s. blocked (cur s))) (\<lambda>old. seq
     (modify (\<lambda>s. upd_cur (\<lambda>t. t\<lparr>blocked := newmask AND NOT (sigbit SIGKILL)\<rparr>) s)) (ret old))"

text \<open>The sixteen bytes of a \<open>struct sigaction\<close> to and from the user space, as four words.\<close>

definition save_old :: "sigaction \<Rightarrow> u32 \<Rightarrow> unit K" where
  "save_old sa dst = block
     [verify_area dst 16,
      modify (put_fs_long (sa_handler sa) dst), modify (put_fs_long (sa_mask sa) (dst + 4)),
      modify (put_fs_long (sa_flags sa) (dst + 8)), modify (put_fs_long (sa_restorer sa) (dst + 12))]"

definition get_new :: "kernel \<Rightarrow> u32 \<Rightarrow> sigaction" where
  "get_new s a = \<lparr>sa_handler = get_fs_long s a, sa_mask = get_fs_long s (a + 4),
     sa_flags = get_fs_long s (a + 8), sa_restorer = get_fs_long s (a + 12)\<rparr>"

definition set_sigaction :: "int \<Rightarrow> sigaction \<Rightarrow> kernel \<Rightarrow> kernel" where
  "set_sigaction signum sa s = upd_cur (\<lambda>t. t\<lparr>sigaction := (sigaction t)(nat signum - 1 := sa)\<rparr>) s"

definition bad_signum :: "int \<Rightarrow> bool" where
  "bad_signum signum \<longleftrightarrow> signum < 1 \<or> signum > 32 \<or> signum = int SIGKILL"

definition sys_signal :: "int \<Rightarrow> u32 \<Rightarrow> u32 \<Rightarrow> int K" where
  "sys_signal signum handler restorer =
     (if bad_signum signum then ret (- 1)
      else bnd (gets (\<lambda>s. sa_handler (sigaction (cur s) (nat signum - 1)))) (\<lambda>old. seq
        (modify (set_sigaction signum \<lparr>sa_handler = handler, sa_mask = 0, sa_flags = SA_ONESHOT OR SA_NOMASK,
           sa_restorer = restorer\<rparr>))
        (ret (sint old))))"

definition sys_sigaction :: "int \<Rightarrow> u32 \<Rightarrow> u32 \<Rightarrow> int K" where
  "sys_sigaction signum action oldaction =
     (if bad_signum signum then ret (- 1)
      else bnd (gets (\<lambda>s. (sigaction (cur s) (nat signum - 1), get_new s action))) (\<lambda>(tmp, new). seq (block
        [modify (set_sigaction signum new),
         guardK (oldaction \<noteq> 0) (save_old tmp oldaction),
         modify (set_sigaction signum (new\<lparr>sa_mask := if sa_flags new AND SA_NOMASK \<noteq> 0 then 0
           else sa_mask new OR sigbit (nat signum)\<rparr>))])
        (ret 0)))"

text \<open>The registers that a system call or interrupt leaves on the kernel stack.\<close>

record intr_frame =
  fr_eax :: u32
  fr_ebx :: u32
  fr_ecx :: u32
  fr_edx :: u32
  fr_fs :: u32
  fr_es :: u32
  fr_ds :: u32
  fr_eip :: u32
  fr_cs :: u32
  fr_eflags :: u32
  fr_esp :: u32
  fr_ss :: u32

text \<open>\<open>do_signal\<close>: the intr_frame to return with, its \<open>eip\<close> and \<open>esp\<close> changed to call the handler.\<close>

definition do_signal :: "nat \<Rightarrow> intr_frame \<Rightarrow> intr_frame K" where
  "do_signal signr fr = bnd (gets (\<lambda>s. sigaction (cur s) (signr - 1))) (\<lambda>sa.
     if sa_handler sa = 1 then ret fr
     else if sa_handler sa = 0
     then if signr = SIGCHLD then ret fr else do_exit (sint (push_bit (signr - 1) 1 :: u32))
     else
       let nomask = (sa_flags sa AND SA_NOMASK \<noteq> 0);
           esp = fr_esp fr - 4 * (if nomask then 7 else 8)
       in seq (block
         [guardK (sa_flags sa AND SA_ONESHOT \<noteq> 0) (modify (set_sigaction (int signr) (sa\<lparr>sa_handler := 0\<rparr>))),
          verify_area esp (4 * (if nomask then 7 else 8)),
          bnd (gets (\<lambda>s. blocked (cur s))) (\<lambda>bl.
            let ws = [sa_restorer sa, of_nat signr] @ (if nomask then [] else [bl]) @
                     [fr_eax fr, fr_ecx fr, fr_edx fr, fr_eflags fr, fr_eip fr]
            in for_each [0..<length ws] (\<lambda>k. modify (put_fs_long (ws ! k) (esp + of_nat (4 * k))))),
          modify (\<lambda>s. upd_cur (\<lambda>t. t\<lparr>blocked := blocked t OR sa_mask sa\<rparr>) s)])
         (ret (fr\<lparr>fr_eip := sa_handler sa, fr_esp := esp\<rparr>)))"

subsection \<open>kernel/fork.c\<close>

definition copy_mem :: "nat \<Rightarrow> tptr \<Rightarrow> int K" where
  "copy_mem nr p = bnd (gets (\<lambda>s. (ldt (cur s) 1, ldt (cur s) 2))) (\<lambda>(d1, d2).
     if get_base d2 \<noteq> get_base d1 then kpanic ''We don't support separate I&D''
     else if get_limit d2 < get_limit d1 then kpanic ''Bad data_limit''
     else let base = of_nat nr * 0x4000000 in seq
       (modify (upd_task p (\<lambda>t. t\<lparr>start_code := base,
          ldt := (ldt t)(1 := set_base (ldt t 1) base, 2 := set_base (ldt t 2) base)\<rparr>)))
       (bnd (copy_page_tables (get_base d2) base (get_limit d2)) (\<lambda>r.
         if r \<noteq> 0 then bnd (free_page_tables base (get_limit d2)) (\<lambda>_. ret (- ENOMEM)) else ret 0)))"

definition LDT_SEL :: "nat \<Rightarrow> u32" where "LDT_SEL n = push_bit 4 (of_nat n) + 40"

text \<open>The task structure of the child, before \<open>copy_mem\<close>.\<close>

definition child_tss :: "nat \<Rightarrow> tptr \<Rightarrow> u32 \<times> u32 \<times> u32 \<times> u32 \<Rightarrow> intr_frame \<Rightarrow> tss_struct \<Rightarrow> tss_struct" where
  "child_tss nr p rs fr t = (case rs of (ebp, edi, esi, gs) \<Rightarrow>
     t\<lparr>back_link := 0, esp0 := 4096 + p, ss0 := 0x10, tss_eip := fr_eip fr, tss_eflags := fr_eflags fr,
       tss_eax := 0, tss_ecx := fr_ecx fr, tss_edx := fr_edx fr, tss_ebx := fr_ebx fr, tss_esp := fr_esp fr,
       tss_ebp := ebp, tss_esi := esi, tss_edi := edi, tss_es := fr_es fr AND 0xffff,
       tss_cs := fr_cs fr AND 0xffff, tss_ss := fr_ss fr AND 0xffff, tss_ds := fr_ds fr AND 0xffff,
       tss_fs := fr_fs fr AND 0xffff, tss_gs := gs AND 0xffff, tss_ldt := LDT_SEL nr,
       trace_bitmap := 0x80000000\<rparr>)"

definition child_task :: "nat \<Rightarrow> tptr \<Rightarrow> u32 \<times> u32 \<times> u32 \<times> u32 \<Rightarrow> intr_frame \<Rightarrow> kernel \<Rightarrow> task_struct" where
  "child_task nr p rs fr s = (let t = cur s in
     t\<lparr>state := TASK_UNINTERRUPTIBLE, pid := last_pid s, father := pid t, counter := priority t, signal := 0,
       alarm := 0, leader := 0, utime := 0, stime := 0, cutime := 0, cstime := 0, start_time := jiffies s,
       tss := child_tss nr p rs fr (tss t)\<rparr>)"

definition count_inode :: "iptr option \<Rightarrow> kernel \<Rightarrow> kernel" where
  "count_inode r s = (case r of None \<Rightarrow> s | Some i \<Rightarrow> upd_inode i (\<lambda>x. x\<lparr>i_count := i_count x + 1\<rparr>) s)"

definition count_files :: "tptr \<Rightarrow> kernel \<Rightarrow> kernel" where
  "count_files p s = fold (\<lambda>i s. case filp (tsk s p) i of
     None \<Rightarrow> s | Some f \<Rightarrow> upd_file f (\<lambda>x. x\<lparr>f_count := f_count x + 1\<rparr>) s) [0..<NR_OPEN] s"

definition copy_process :: "nat \<Rightarrow> u32 \<times> u32 \<times> u32 \<times> u32 \<Rightarrow> intr_frame \<Rightarrow> int K" where
  "copy_process nr rs fr = bnd get_free_page (\<lambda>p.
     if p = 0 then ret (- EAGAIN)
     else seq (block
       [modify (\<lambda>s. s\<lparr>task := (task s)(nr := Some p)\<rparr>),
        modify (\<lambda>s. upd_task p (\<lambda>_. child_task nr p rs fr s) s)])
       (bnd (copy_mem nr p) (\<lambda>r.
         if r \<noteq> 0
         then seq (block [modify (\<lambda>s. s\<lparr>task := (task s)(nr := None)\<rparr>), free_page p]) (ret (- EAGAIN))
         else seq (block
           [modify (count_files p),
            modify (\<lambda>s. count_inode (pwd (cur s)) s),
            modify (\<lambda>s. count_inode (root (cur s)) s),
            modify (\<lambda>s. count_inode (executable (cur s)) s),
            modify (set_state TASK_RUNNING p)])
           (gets last_pid))))"

text \<open>
  \<open>find_empty_process\<close>: the numbers tried are different, and at most 64 are taken, so 65 tries are
  enough.
\<close>

definition bump_pid :: "int \<Rightarrow> int" where
  "bump_pid p = (let q = wrap32 (p + 1) in if q < 0 then 1 else q)"

definition pid_used :: "kernel \<Rightarrow> int \<Rightarrow> bool" where
  "pid_used s p \<longleftrightarrow> find_pid s p \<noteq> None"

fun fresh_pid :: "nat \<Rightarrow> int \<Rightarrow> kernel \<Rightarrow> int option" where
  "fresh_pid 0 p s = None"
| "fresh_pid (Suc n) p s = (let q = bump_pid p in if pid_used s q then fresh_pid n q s else Some q)"

definition find_empty_process :: "int K" where
  "find_empty_process = bnd (gets (\<lambda>s. fresh_pid (Suc NR_TASKS) (last_pid s) s)) (\<lambda>r. case r of
     None \<Rightarrow> stop Hung
   | Some p \<Rightarrow> seq (modify (\<lambda>s. s\<lparr>last_pid := p\<rparr>))
       (gets (\<lambda>s. case first_from (\<lambda>i. task s i = None) 1 (NR_TASKS - 1) of
          None \<Rightarrow> - EAGAIN | Some i \<Rightarrow> int i)))"

text \<open>\<open>sys_fork\<close> of kernel/system_call.s.\<close>

definition sys_fork :: "u32 \<times> u32 \<times> u32 \<times> u32 \<Rightarrow> intr_frame \<Rightarrow> int K" where
  "sys_fork rs fr = bnd find_empty_process (\<lambda>nr. if nr < 0 then ret nr else copy_process (nat nr) rs fr)"

subsection \<open>Numbers of new processes\<close>

lemma bump_pid_mod:
  assumes "0 \<le> p" "p < 2147483648"
  shows "bump_pid p = p mod 2147483647 + 1"
proof (cases "p = 2147483647")
  case True
  then show ?thesis by (simp add: bump_pid_def wrap32_def)
next
  case False
  then show ?thesis using assms by (simp add: bump_pid_def)
qed

lemma bump_pid_iter:
  assumes "0 \<le> p" "p < 2147483648"
  shows "(bump_pid ^^ Suc k) p = (p + int k) mod 2147483647 + 1"
proof (induction k)
  case 0
  then show ?case using bump_pid_mod [OF assms] by simp
next
  case (Suc k)
  have "0 \<le> (p + int k) mod 2147483647" "(p + int k) mod 2147483647 < 2147483647" by simp_all
  then have "bump_pid ((p + int k) mod 2147483647 + 1) = ((p + int k) mod 2147483647 + 1) mod 2147483647 + 1"
    by (intro bump_pid_mod) linarith+
  then show ?case using Suc by (simp add: mod_simps ac_simps)
qed

lemma bump_pid_range: "0 \<le> p \<Longrightarrow> p < 2147483648 \<Longrightarrow> 0 < bump_pid p \<and> bump_pid p < 2147483648"
  using bump_pid_mod [of p] pos_mod_sign [of 2147483647 p] pos_mod_bound [of 2147483647 p] by simp

lemma bump_pid_inj:
  assumes p: "0 \<le> p" "p < 2147483648" and "i < 100" "j < 100" "(bump_pid ^^ Suc i) p = (bump_pid ^^ Suc j) p"
  shows "i = j"
proof -
  have "(p + int i) mod 2147483647 = (p + int j) mod 2147483647"
    using assms by (simp only: bump_pid_iter [OF p])
  then have "2147483647 dvd (p + int i) - (p + int j)" by (simp add: mod_eq_dvd_iff)
  then have "2147483647 dvd \<bar>int i - int j\<bar>" by simp
  then show ?thesis using assms(3,4) zdvd_imp_le [of 2147483647 "\<bar>int i - int j\<bar>"] by linarith
qed

lemma fresh_pid_Some:
  "fresh_pid n p s = Some q \<Longrightarrow> 0 \<le> p \<Longrightarrow> p < 2147483648 \<Longrightarrow> \<not> pid_used s q \<and> 0 < q \<and> q < 2147483648"
  by (induction n arbitrary: p) (auto simp: Let_def bump_pid_range less_imp_le split: if_splits)

lemma fresh_pid_None:
  "fresh_pid n p s = None \<Longrightarrow> k < n \<Longrightarrow> pid_used s ((bump_pid ^^ Suc k) p)"
proof (induction n arbitrary: p k)
  case (Suc n)
  then show ?case by (cases k) (auto simp: Let_def funpow_swap1 split: if_splits)
qed simp

lemma pid_used_iff: "pid_used s p \<longleftrightarrow> (\<exists>i q. i < NR_TASKS \<and> task s i = Some q \<and> pid (tsk s q) = p)"
proof
  assume "pid_used s p"
  then obtain i where "first_upto (\<lambda>i. case task s i of None \<Rightarrow> False | Some q \<Rightarrow> pid (tsk s q) = p) NR_TASKS = Some i"
    by (auto simp: pid_used_def find_pid_def split: option.splits)
  from first_upto_Some [OF this] have "i < NR_TASKS"
    "case task s i of None \<Rightarrow> False | Some q \<Rightarrow> pid (tsk s q) = p" by auto
  then show "\<exists>i q. i < NR_TASKS \<and> task s i = Some q \<and> pid (tsk s q) = p"
    by (cases "task s i") auto
next
  assume ex: "\<exists>i q. i < NR_TASKS \<and> task s i = Some q \<and> pid (tsk s q) = p"
  let ?P = "\<lambda>i. case task s i of None \<Rightarrow> False | Some q \<Rightarrow> pid (tsk s q) = p"
  from ex obtain i where "i < NR_TASKS" "?P i" by force
  then have "first_upto ?P NR_TASKS \<noteq> None" unfolding first_upto_None by blast
  then obtain k where k: "first_upto ?P NR_TASKS = Some k" by auto
  then have "?P k" using first_upto_Some [of ?P NR_TASKS k] by simp
  then show "pid_used s p" using k by (cases "task s k") (simp_all add: pid_used_def find_pid_def)
qed

lemma fresh_pid_found:
  assumes "0 \<le> p" "p < 2147483648"
  shows "fresh_pid (Suc NR_TASKS) p s \<noteq> None"
proof
  assume none: "fresh_pid (Suc NR_TASKS) p s = None"
  let ?f = "\<lambda>k. (bump_pid ^^ Suc k) p" and ?pid = "\<lambda>i. pid (tsk s (the (task s i)))"
  have "?f ` {..<Suc NR_TASKS} \<subseteq> ?pid ` {..<NR_TASKS}"
  proof clarify
    fix k assume "k < Suc NR_TASKS"
    then show "?f k \<in> ?pid ` {..<NR_TASKS}"
      using fresh_pid_None [OF none, of k] unfolding pid_used_iff by (auto intro!: image_eqI simp del: funpow.simps)
  qed
  then have "card (?f ` {..<Suc NR_TASKS}) \<le> card (?pid ` {..<NR_TASKS})" by (rule card_mono [rotated]) simp
  also have "\<dots> \<le> NR_TASKS" using card_image_le [of "{..<NR_TASKS}" ?pid] by simp
  finally have "card (?f ` {..<Suc NR_TASKS}) \<le> NR_TASKS" .
  moreover have "inj_on ?f {..<Suc NR_TASKS}"
    by (rule inj_onI) (rule bump_pid_inj [OF assms], simp_all add: kconst)
  ultimately show False by (simp add: card_image)
qed

lemma find_empty_process_run:
  assumes "0 \<le> last_pid s" "last_pid s < 2147483648"
  shows "\<exists>p r. find_empty_process s es = Ret r (s\<lparr>last_pid := p\<rparr>) es \<and> 0 < p \<and> p < 2147483648 \<and>
    (\<forall>i q. i < NR_TASKS \<longrightarrow> task s i = Some q \<longrightarrow> pid (tsk s q) \<noteq> p) \<and>
    (if \<exists>i. 1 \<le> i \<and> i < NR_TASKS \<and> task s i = None
     then 1 \<le> r \<and> r < int NR_TASKS \<and> task s (nat r) = None \<and> (\<forall>i. 1 \<le> i \<and> int i < r \<longrightarrow> task s i \<noteq> None)
     else r = - EAGAIN)"
proof -
  obtain p where p: "fresh_pid (Suc NR_TASKS) (last_pid s) s = Some p"
    using fresh_pid_found [OF assms] by blast
  have fr: "\<not> pid_used s p" "0 < p" "p < 2147483648" using fresh_pid_Some [OF p assms] by auto
  let ?slot = "first_from (\<lambda>i. task s i = None) 1 (NR_TASKS - 1)"
  have run: "find_empty_process s es =
      Ret (case ?slot of None \<Rightarrow> - EAGAIN | Some i \<Rightarrow> int i) (s\<lparr>last_pid := p\<rparr>) es"
    by (simp only: find_empty_process_def bnd_run gets_run res.case p option.case seq_run modify_run) simp
  show ?thesis
  proof (cases ?slot)
    case None
    then have no: "(\<exists>i. 1 \<le> i \<and> i < NR_TASKS \<and> task s i = None) = False"
      by (auto simp: first_from_None kconst)
    have free: "\<forall>i q. i < NR_TASKS \<longrightarrow> task s i = Some q \<longrightarrow> pid (tsk s q) \<noteq> p"
      using fr(1) unfolding pid_used_iff by blast
    show ?thesis
      unfolding run None no if_False option.case
      by (rule exI [of _ p], rule exI [of _ "- EAGAIN"]) (intro conjI refl fr(2,3) free)
  next
    case (Some k)
    from first_from_Some [OF this] have k: "1 \<le> k" "k < NR_TASKS" "task s k = None"
      "\<forall>j. 1 \<le> j \<and> j < k \<longrightarrow> task s j \<noteq> None" by (auto simp: kconst)
    then have yes: "(\<exists>i. 1 \<le> i \<and> i < NR_TASKS \<and> task s i = None) = True" by blast
    have free: "\<forall>i q. i < NR_TASKS \<longrightarrow> task s i = Some q \<longrightarrow> pid (tsk s q) \<noteq> p"
      using fr(1) unfolding pid_used_iff by blast
    have slot: "1 \<le> int k" "int k < int NR_TASKS" "task s (nat (int k)) = None"
      "\<forall>i. 1 \<le> i \<and> int i < int k \<longrightarrow> task s i \<noteq> None" using k by simp_all
    show ?thesis
      unfolding run Some yes if_True option.case
      by (rule exI [of _ p], rule exI [of _ "int k"]) (intro conjI refl fr(2,3) free slot)
  qed
qed

text \<open>
  C31. \<open>find_empty_process\<close> always comes to an end, within 65 tries: \<open>last_pid\<close> becomes a positive
  number that no task has, whether it wraps around or not, and the result is the lowest free slot of
  the task table above 0, or EAGAIN when there is none; nothing else changes.
\<close>

lemma find_empty_process_fresh:
  assumes "0 \<le> last_pid s" "last_pid s < 2147483648"
  shows "\<exists>p r. find_empty_process s es = Ret r (s\<lparr>last_pid := p\<rparr>) es \<and> 0 < p \<and> p < 2147483648 \<and>
    (\<forall>i q. i < NR_TASKS \<longrightarrow> task s i = Some q \<longrightarrow> pid (tsk s q) \<noteq> p) \<and>
    (if \<exists>i. 1 \<le> i \<and> i < NR_TASKS \<and> task s i = None
     then 1 \<le> r \<and> r < int NR_TASKS \<and> task s (nat r) = None \<and> (\<forall>i. 1 \<le> i \<and> int i < r \<longrightarrow> task s i \<noteq> None)
     else r = - EAGAIN)"
  by (rule find_empty_process_run [OF assms])

definition proc0 :: kernel where
  "proc0 = blank_kernel\<lparr>task := [0 \<mapsto> 0x1000, 1 \<mapsto> 0x2000], last_pid := 2147483647,
     tsk := (\<lambda>p. blank_task_struct\<lparr>pid := (if p = 0x1000 then 0 else 1)\<rparr>)\<rparr>"

lemma find_empty_process_fresh_witness: "\<exists>p r. find_empty_process proc0 [] = Ret r (proc0\<lparr>last_pid := p\<rparr>) [] \<and> 1 < p \<and> r = 2"
proof -
  have t: "task proc0 0 = Some 0x1000" "task proc0 1 = Some 0x2000" "\<And>i. 2 \<le> i \<Longrightarrow> task proc0 i = None"
    "pid (tsk proc0 0x2000) = 1" by (simp_all add: proc0_def)
  have ex: "\<exists>i. 1 \<le> i \<and> i < NR_TASKS \<and> task proc0 i = None"
    by (rule exI [of _ 2]) (simp add: t kconst)
  have lp: "0 \<le> last_pid proc0" "last_pid proc0 < 2147483648" by (simp_all add: proc0_def)
  obtain p r where *: "find_empty_process proc0 [] = Ret r (proc0\<lparr>last_pid := p\<rparr>) []" "0 < p"
    "\<forall>i q. i < NR_TASKS \<longrightarrow> task proc0 i = Some q \<longrightarrow> pid (tsk proc0 q) \<noteq> p"
    "1 \<le> r" "task proc0 (nat r) = None" "\<forall>i. 1 \<le> i \<and> int i < r \<longrightarrow> task proc0 i \<noteq> None"
    using find_empty_process_fresh [OF lp, of "[]"] ex by auto
  have "p \<noteq> 1" using *(3) [rule_format, of 1 "0x2000"] t by (simp add: kconst)
  moreover have "\<not> 2 < r"
  proof
    assume "2 < r"
    then have "task proc0 2 \<noteq> None" using *(6) by simp
    then show False using t by simp
  qed
  moreover have "r \<noteq> 1" using *(5) t by auto
  ultimately show ?thesis using * by (intro exI [of _ p] exI [of _ r]) auto
qed

subsection \<open>Sending signals\<close>

text \<open>
  Which tasks a call \<open>kill(pid, sig)\<close> may reach: the slots above 0 that \<open>kill_target\<close> chooses, when
  the caller may send the signal.
\<close>

definition kill_allowed :: "int \<Rightarrow> kernel \<Rightarrow> tptr \<Rightarrow> bool" where
  "kill_allowed p s q \<longleftrightarrow> p = 0 \<or> euid (cur s) = euid (tsk s q) \<or> suser s"

definition hit :: "int \<Rightarrow> int \<Rightarrow> kernel \<Rightarrow> nat set \<Rightarrow> tptr set" where
  "hit p sig s I = {q. 1 \<le> sig \<and> sig \<le> 32 \<and> kill_allowed p s q \<and>
     (\<exists>i\<in>I. task s i = Some q \<and> kill_target p s (Some q))}"

definition signalled :: "nat \<Rightarrow> tptr set \<Rightarrow> kernel \<Rightarrow> kernel" where
  "signalled n Q s = s\<lparr>tsk := (\<lambda>q. if q \<in> Q then (tsk s q)\<lparr>signal := signal (tsk s q) OR sigbit n\<rparr> else tsk s q)\<rparr>"

lemma signalled_simps [simp]:
  "current (signalled n Q s) = current s" "task (signalled n Q s) = task s"
  "euid (tsk (signalled n Q s) q) = euid (tsk s q)" "pid (tsk (signalled n Q s) q) = pid (tsk s q)"
  "pgrp (tsk (signalled n Q s) q) = pgrp (tsk s q)"
  by (simp_all add: signalled_def)

lemma signalled_empty [simp]: "signalled n {} s = s"
  by (simp add: signalled_def)

lemma signalled_step:
  "upd_task q (\<lambda>t. t\<lparr>signal := signal t OR sigbit n\<rparr>) (signalled n Q s) = signalled n (insert q Q) s"
  by (simp add: signalled_def upd_task_def fun_eq_iff or.assoc)

lemma kill_target_signalled [simp]: "kill_target p (signalled n Q s) r = kill_target p s r"
  by (simp add: kill_target_def split: option.split)

lemma suser_signalled [simp]: "suser (signalled n Q s) = suser s"
  by (simp add: suser_def)

lemma send_sig_run:
  "send_sig sig (Some q) priv (signalled (nat sig) Q s) es =
     (if sig < 1 \<or> sig > 32 then Ret (- EINVAL) (signalled (nat sig) Q s) es
      else if priv \<or> euid (cur s) = euid (tsk s q) \<or> suser s then Ret 0 (signalled (nat sig) (insert q Q) s) es
      else Ret (- EPERM) (signalled (nat sig) Q s) es)"
  by (simp add: send_sig_def krun signalled_step)

lemma kill_loop_run:
  "\<exists>r. kill_loop ixs p sig rv (signalled (nat sig) Q s) es = Ret r (signalled (nat sig) (Q \<union> hit p sig s (set ixs)) s) es \<and>
    (r = 0 \<longrightarrow> rv = 0 \<and> (\<forall>i\<in>set ixs. kill_target p s (task s i) \<longrightarrow> (\<exists>q\<in>hit p sig s (set ixs). task s i = Some q)))"
proof (induction ixs arbitrary: rv Q)
  case Nil
  then show ?case by (simp add: krun hit_def)
next
  case (Cons i ixs)
  let ?h = "hit p sig s {i}"
  have split: "hit p sig s (set (i # ixs)) = ?h \<union> hit p sig s (set ixs)" by (auto simp: hit_def)
  have "\<exists>rv'. kill_loop (i # ixs) p sig rv (signalled (nat sig) Q s) es =
      kill_loop ixs p sig rv' (signalled (nat sig) (Q \<union> ?h) s) es \<and>
      (rv' = 0 \<longrightarrow> rv = 0 \<and> (kill_target p s (task s i) \<longrightarrow> (\<exists>q\<in>?h. task s i = Some q)))"
  proof (cases "task s i")
    case None
    then have "?h = {}" by (simp add: hit_def)
    then show ?thesis using None by (auto simp: krun send_sig_def kconst)
  next
    case (Some q)
    then have "?h = (if 1 \<le> sig \<and> sig \<le> 32 \<and> kill_allowed p s q \<and> kill_target p s (Some q) then {q} else {})"
      by (auto simp: hit_def)
    then show ?thesis using Some by (auto simp: krun send_sig_run kill_allowed_def kconst)
  qed
  then obtain rv' where rv': "kill_loop (i # ixs) p sig rv (signalled (nat sig) Q s) es =
      kill_loop ixs p sig rv' (signalled (nat sig) (Q \<union> ?h) s) es"
    "rv' = 0 \<longrightarrow> rv = 0 \<and> (kill_target p s (task s i) \<longrightarrow> (\<exists>q\<in>?h. task s i = Some q))" by blast
  obtain r where "kill_loop ixs p sig rv' (signalled (nat sig) (Q \<union> ?h) s) es =
      Ret r (signalled (nat sig) (Q \<union> ?h \<union> hit p sig s (set ixs)) s) es"
    "r = 0 \<longrightarrow> rv' = 0 \<and> (\<forall>i\<in>set ixs. kill_target p s (task s i) \<longrightarrow> (\<exists>q\<in>hit p sig s (set ixs). task s i = Some q))"
    using Cons.IH [of rv' "Q \<union> ?h"] by blast
  then show ?case unfolding split using rv' by (intro exI [of _ r]) (auto simp: Un_assoc)
qed

text \<open>
  C32. \<open>sys_kill\<close> always returns; it sets the signal in exactly the tasks above slot 0 that the
  process number names and that the caller may signal (its own effective user, or it is the
  superuser, or the call is for its own group), and changes nothing else: without privilege no call
  with a non-zero number reaches a task of another user.  When it gives 0 every task named got the signal.
\<close>

lemma sys_kill_reach:
  "\<exists>r. sys_kill p sig s es = Ret r (signalled (nat sig) (hit p sig s {1..<NR_TASKS}) s) es \<and>
    (r = 0 \<longrightarrow> (\<forall>i\<in>{1..<NR_TASKS}. kill_target p s (task s i) \<longrightarrow>
      (\<exists>q\<in>hit p sig s {1..<NR_TASKS}. task s i = Some q)))"
  using kill_loop_run [of "rev [1..<NR_TASKS]" p sig 0 "{}" s es] by (simp add: sys_kill_def)

lemma sys_kill_reach_witness:
  "\<exists>r. sys_kill 1 15 proc0 [] = Ret r (signalled 15 {0x2000} proc0) []"
proof -
  have t: "task proc0 i = (if i = 0 then Some 0x1000 else if i = 1 then Some 0x2000 else None)" for i
    by (simp add: proc0_def)
  have "hit 1 15 proc0 {1..<NR_TASKS} = {0x2000}"
    by (auto simp: hit_def t kill_allowed_def kill_target_def suser_def proc0_def kconst split: if_splits)
  then show ?thesis using sys_kill_reach [of 1 15 proc0 "[]"] by auto
qed

end
