(* ===== verification/Forking.thy ===== *)
theory Forking
  imports Process Paging
begin

text \<open>
  What \<open>copy_process\<close> of kernel/fork.c makes, put together from the task structure, the file
  table and the page tables.  The memory calls change only \<open>phys\<close> and \<open>mem_map\<close> and never sleep.
\<close>

subsection \<open>Calls that only change the memory\<close>

named_theorems quietr "rules that show that a computation only changes the memory"

definition mem_only :: "kernel \<Rightarrow> kernel \<Rightarrow> bool" where
  "mem_only s s' \<longleftrightarrow> (\<exists>m p. s' = s\<lparr>mem_map := m, phys := p\<rparr>)"

lemma mem_onlyI: "s' = s\<lparr>mem_map := m, phys := p\<rparr> \<Longrightarrow> mem_only s s'"
  by (auto simp: mem_only_def)

lemma mem_only_refl [simp]: "mem_only s s"
  by (rule mem_onlyI [where m = "mem_map s" and p = "phys s"]) simp

lemma mem_only_set [simp]: "mem_only s (s\<lparr>phys := p\<rparr>)" "mem_only s (s\<lparr>mem_map := m\<rparr>)"
  by (rule mem_onlyI [where m = "mem_map s" and p = p], simp)
    (rule mem_onlyI [where m = m and p = "phys s"], simp)

lemma mem_only_trans: "mem_only s s' \<Longrightarrow> mem_only s' s'' \<Longrightarrow> mem_only s s''"
  unfolding mem_only_def by (elim exE, hypsubst) (simp, blast)

definition quiet :: "'a K \<Rightarrow> bool" where
  "quiet m \<longleftrightarrow> (\<forall>s es. case m s es of Ret a s' es' \<Rightarrow> es' = es \<and> mem_only s s' | Stop r s' \<Rightarrow> True)"

lemma quietD: "quiet m \<Longrightarrow> m s es = Ret a s' es' \<Longrightarrow> es' = es \<and> mem_only s s'"
  unfolding quiet_def by (drule spec [of _ s], drule spec [of _ es]) simp

lemma quiet_basic [quietr]: "quiet (ret x)" "quiet (gets f)" "quiet (stop r)"
  by (simp_all add: quiet_def krun)

lemma quiet_bnd [quietr]:
  assumes m: "quiet m" and f: "\<And>a. quiet (f a)"
  shows "quiet (bnd m f)"
  unfolding quiet_def
proof (intro allI)
  fix s es
  show "case bnd m f s es of Ret a s' es' \<Rightarrow> es' = es \<and> mem_only s s' | Stop r s' \<Rightarrow> True"
  proof (cases "m s es")
    case (Ret a s1 es1)
    then show ?thesis
      using quietD [OF m Ret] quietD [OF f, of a s1 es1] mem_only_trans
      by (auto simp: bnd_run split: res.split)
  qed (simp add: bnd_run)
qed

lemma quiet_seq [quietr]: "quiet m \<Longrightarrow> quiet n \<Longrightarrow> quiet (seq m n)"
  unfolding seq_def by (rule quiet_bnd)

lemma quiet_block [quietr]: "quiet (block [])" "quiet m \<Longrightarrow> quiet (block ms) \<Longrightarrow> quiet (block (m # ms))"
  by (simp_all add: quiet_basic quiet_seq)

lemma quiet_if [quietr]: "(c \<Longrightarrow> quiet m) \<Longrightarrow> (\<not> c \<Longrightarrow> quiet n) \<Longrightarrow> quiet (if c then m else n)"
  by simp

lemma quiet_guardK [quietr]: "quiet m \<Longrightarrow> quiet (guardK c m)"
  by (simp add: guardK_def quiet_basic)

lemma quiet_option [quietr]: "quiet m \<Longrightarrow> (\<And>y. quiet (n y)) \<Longrightarrow> quiet (case x of None \<Rightarrow> m | Some y \<Rightarrow> n y)"
  by (cases x) simp_all

lemma quiet_let [quietr]: "(\<And>y. quiet (f y)) \<Longrightarrow> quiet (Let x f)"
  by simp

lemma quiet_for_each [quietr]: "(\<And>i. quiet (f i)) \<Longrightarrow> quiet (for_each ixs f)"
  by (induction ixs) (simp_all add: quiet_basic quiet_seq)

lemma quiet_set [quietr]: "quiet (modify (set_word a v))" "quiet (modify (set_map i w))"
  "quiet (modify (\<lambda>s. set_word (f s) (g s) s))" "quiet (modify (\<lambda>s. set_map (h s) (k s) s))"
  by (simp_all add: quiet_def krun set_word_def set_map_def)

lemma quiet_mem_map_add [quietr]: "quiet (mem_map_add i d)"
  unfolding mem_map_add_def by (intro quietr)

lemma quiet_get_free_page [quietr]: "quiet get_free_page"
  unfolding get_free_page_def by (intro quietr)

lemma quiet_free_page [quietr]: "quiet (free_page a)"
  unfolding free_page_def by (intro quietr)

lemma quiet_free_page_tables [quietr]: "quiet (free_page_tables a sz)"
  unfolding free_page_tables_def free_dir_entry_def free_table_entry_def by (intro quietr)

lemma quiet_copy_table_entry [quietr]: "quiet (copy_table_entry a b)"
  unfolding copy_table_entry_def by (intro quietr)

lemma quiet_copy_dir_entries [quietr]: "quiet (copy_dir_entries n nr a b)"
  by (induction n arbitrary: a b) (simp_all, (intro quietr | simp)+)

lemma quiet_copy_page_tables [quietr]: "quiet (copy_page_tables a b sz)"
  unfolding copy_page_tables_def by (intro quietr)

subsection \<open>The child\<close>

definition give_base :: "nat \<Rightarrow> task_struct \<Rightarrow> task_struct" where
  "give_base nr t = t\<lparr>start_code := task_base nr,
     ldt := (ldt t)(1 := set_base (ldt t 1) (task_base nr), 2 := set_base (ldt t 2) (task_base nr))\<rparr>"

lemma of_nat_task_base: "of_nat nr * 0x4000000 = task_base nr"
  by (simp add: task_base_def)

lemma copy_mem_run:
  assumes "get_base (ldt (cur s) 2) = get_base (ldt (cur s) 1)"
    and "\<not> get_limit (ldt (cur s) 2) < get_limit (ldt (cur s) 1)"
  shows "copy_mem nr p s es = bnd (copy_page_tables (get_base (ldt (cur s) 2)) (task_base nr) (get_limit (ldt (cur s) 2)))
      (\<lambda>r. if r \<noteq> 0 then bnd (free_page_tables (task_base nr) (get_limit (ldt (cur s) 2))) (\<lambda>_. ret (- ENOMEM)) else ret 0)
      (upd_task p (give_base nr) s) es"
proof -
  have g: "(\<lambda>t. t\<lparr>start_code := task_base nr,
     ldt := (ldt t)(1 := set_base (ldt t 1) (task_base nr), 2 := set_base (ldt t 2) (task_base nr))\<rparr>) = give_base nr"
    by (simp add: give_base_def fun_eq_iff)
  show ?thesis
    using assms by (simp add: copy_mem_def bnd_run gets_run seq_run modify_run Let_def of_nat_task_base g [unfolded One_nat_def])
qed

lemma copy_mem_Ret:
  assumes "copy_mem nr p s es = Ret r s' es'"
  shows "es' = es \<and> (\<exists>r1 s2. copy_page_tables (get_base (ldt (cur s) 2)) (task_base nr) (get_limit (ldt (cur s) 2))
      (upd_task p (give_base nr) s) es = Ret r1 s2 es \<and> mem_only (upd_task p (give_base nr) s) s2 \<and>
    (if r1 = 0 then r = 0 \<and> s' = s2 else r \<noteq> 0 \<and> mem_only (upd_task p (give_base nr) s) s'))"
proof -
  let ?b = "get_base (ldt (cur s) 2)" and ?l = "get_limit (ldt (cur s) 2)" and ?s1 = "upd_task p (give_base nr) s"
  have ok: "get_base (ldt (cur s) 2) = get_base (ldt (cur s) 1)" "\<not> ?l < get_limit (ldt (cur s) 1)"
    using assms by (simp_all add: copy_mem_def krun split: if_splits)
  note run = copy_mem_run [OF ok, of nr p es]
  obtain r1 s2 es2 where c: "copy_page_tables ?b (task_base nr) ?l ?s1 es = Ret r1 s2 es2"
    using assms run by (cases "copy_page_tables ?b (task_base nr) ?l ?s1 es") (simp_all add: bnd_run)
  note q = quietD [OF quiet_copy_page_tables c]
  show ?thesis
  proof (cases "r1 = 0")
    case True
    then show ?thesis using assms c q unfolding run by (simp add: bnd_run krun)
  next
    case False
    obtain v s3 es3 where f: "free_page_tables (task_base nr) ?l s2 es2 = Ret v s3 es3"
      using assms c False unfolding run by (cases "free_page_tables (task_base nr) ?l s2 es2") (simp_all add: bnd_run krun)
    note q2 = quietD [OF quiet_free_page_tables f]
    show ?thesis using assms c f q q2 False mem_only_trans unfolding run by (auto simp: bnd_run krun kconst)
  qed
qed

text \<open>The reference counts.\<close>

definition refs_in :: "'b \<Rightarrow> 'b option list \<Rightarrow> nat" where
  "refs_in f rs = length (filter (\<lambda>r. r = Some f) rs)"

definition count_more :: "fptr option list \<Rightarrow> kernel \<Rightarrow> kernel" where
  "count_more rs s = s\<lparr>file_table := (\<lambda>f. (file_table s f)\<lparr>f_count := f_count (file_table s f) + of_nat (refs_in f rs)\<rparr>)\<rparr>"

lemma count_files_fold:
  "fold (\<lambda>i s. case filp (tsk s p) i of None \<Rightarrow> s | Some f \<Rightarrow> upd_file f (\<lambda>x. x\<lparr>f_count := f_count x + 1\<rparr>) s) ixs
    (count_more rs s) = count_more (rs @ map (filp (tsk s p)) ixs) s"
proof (induction ixs arbitrary: rs)
  case (Cons i ixs)
  have "(case filp (tsk (count_more rs s) p) i of None \<Rightarrow> count_more rs s
      | Some f \<Rightarrow> upd_file f (\<lambda>x. x\<lparr>f_count := f_count x + 1\<rparr>) (count_more rs s)) = count_more (rs @ [filp (tsk s p) i]) s"
    by (auto simp: count_more_def upd_file_def refs_in_def fun_eq_iff split: option.split)
  then show ?case using Cons [of "rs @ [filp (tsk s p) i]"] by simp
qed simp

lemma count_files_eq: "count_files p s = count_more (map (filp (tsk s p)) [0..<NR_OPEN]) s"
proof -
  have "count_more [] s = s" by (simp add: count_more_def refs_in_def)
  then show ?thesis using count_files_fold [of p "[0..<NR_OPEN]" "[]" s] by (simp add: count_files_def)
qed

lemma count_inode_at:
  "i_count (inode_table (count_inode r s) i) = i_count (inode_table s i) + of_nat (refs_in i [r])"
  by (simp add: count_inode_def upd_inode_def refs_in_def split: option.split)

lemma count_inode_other [simp]:
  "tsk (count_inode r s) = tsk s" "current (count_inode r s) = current s" "task (count_inode r s) = task s"
  "file_table (count_inode r s) = file_table s" "last_pid (count_inode r s) = last_pid s"
  "phys (count_inode r s) = phys s" "mem_map (count_inode r s) = mem_map s"
  by (simp_all add: count_inode_def upd_inode_def split: option.split)

text \<open>Memory maps that agree.\<close>

lemma mem_cong:
  assumes "phys s = phys t" "mem_map s = mem_map t"
  shows "entry s = entry t" "refs s = refs t" "vm_ok s = vm_ok t"
proof -
  have l: "loc_addr s l = loc_addr t l" for l by (cases l) (simp_all add: loc_addr.simps assms)
  show e: "entry s = entry t" by (simp add: fun_eq_iff entry_def l assms)
  have "locs s = locs t" by (simp add: locs_def e)
  then show r: "refs s = refs t" by (simp add: fun_eq_iff refs_def e)
  show "vm_ok s = vm_ok t"
    by (simp add: vm_ok_def tables_ok_def counts_ok_def cow_ok_def slots_ok_def low_ok_def e r page_count_def assms)
qed

lemma MAP_NR_page_addr: "i < PAGING_PAGES \<Longrightarrow> MAP_NR (page_addr i) = i \<and> \<not> page_addr i < LOW_MEM \<and> page_addr i \<noteq> 0"
proof (intro conjI)
  assume i: "i < PAGING_PAGES"
  note u = unat_page_addr [OF i]
  show "\<not> page_addr i < LOW_MEM" using u by (simp add: word_less_nat_alt kconst)
  show "page_addr i \<noteq> 0" by (rule page_addr_props(4) [OF i])
  show "MAP_NR (page_addr i) = i"
    unfolding MAP_NR_def page_addr_def using i
    by (simp add: kconst drop_bit_eq_div push_bit_eq_mult unat_div unat_word_ariths unat_of_nat)
qed

text \<open>The state of a new process when \<open>copy_mem\<close> has set up its memory.\<close>

definition forked :: "nat \<Rightarrow> tptr \<Rightarrow> u32 \<times> u32 \<times> u32 \<times> u32 \<Rightarrow> intr_frame \<Rightarrow> kernel \<Rightarrow> task_struct" where
  "forked nr p rs fr s = (give_base nr (child_task nr p rs fr s))\<lparr>state := TASK_RUNNING\<rparr>"

definition with_child :: "nat \<Rightarrow> tptr \<Rightarrow> u32 \<times> u32 \<times> u32 \<times> u32 \<Rightarrow> intr_frame \<Rightarrow> kernel \<Rightarrow> kernel" where
  "with_child nr p rs fr s = s\<lparr>task := (task s)(nr := Some p), tsk := (tsk s)(p := child_task nr p rs fr s)\<rparr>"

lemma copy_process_mem:
  assumes i: "last_below (\<lambda>i. mem_map s i = 0) PAGING_PAGES = Some i" and p: "p = page_addr i" "current s \<noteq> p"
  shows "copy_process nr rs fr s es = (case copy_mem nr p (with_child nr p rs fr (taken i s)) es of
      Stop r s' \<Rightarrow> Stop r s'
    | Ret r s' es' \<Rightarrow> if r \<noteq> 0
         then seq (block [modify (\<lambda>s. s\<lparr>task := (task s)(nr := None)\<rparr>), free_page p]) (ret (- EAGAIN)) s' es'
         else Ret (last_pid s') (set_state TASK_RUNNING p (count_inode (executable (cur s')) (count_inode (root (cur s'))
           (count_inode (pwd (cur s')) (count_files p s'))))) es')"
proof -
  have same: "tsk (taken i s) = tsk s" "current (taken i s) = current s" "task (taken i s) = task s"
    by (simp_all add: taken_def zero_page_def set_map_def)
  have "upd_task p (\<lambda>_. child_task nr p rs fr (taken i s\<lparr>task := (task s)(nr := Some p)\<rparr>)) (taken i s\<lparr>task := (task s)(nr := Some p)\<rparr>) =
     with_child nr p rs fr (taken i s)"
    by (simp add: with_child_def upd_task_def same child_task_def Let_def)
  then have "copy_process nr rs fr s es = bnd (copy_mem nr p) (\<lambda>r.
         if r \<noteq> 0
         then seq (block [modify (\<lambda>s. s\<lparr>task := (task s)(nr := None)\<rparr>), free_page p]) (ret (- EAGAIN))
         else seq (block
           [modify (count_files p),
            modify (\<lambda>s. count_inode (pwd (cur s)) s),
            modify (\<lambda>s. count_inode (root (cur s)) s),
            modify (\<lambda>s. count_inode (executable (cur s)) s),
            modify (set_state TASK_RUNNING p)])
           (gets last_pid)) (with_child nr p rs fr (taken i s)) es"
    using MAP_NR_page_addr [of i] last_below_Some [OF i] unfolding p(1)
    by (simp add: copy_process_def bnd_run [of get_free_page] get_free_page_run i seq_run modify_run ret_run same)
  then show ?thesis
    by (cases "copy_mem nr p (with_child nr p rs fr (taken i s)) es")
      (simp_all add: bnd_run seq_run modify_run gets_run ret_run count_files_eq count_more_def set_state_def upd_task_def)
qed

text \<open>The parent and the state do not change when there is no memory for the child.\<close>

definition fork_failed :: "nat \<Rightarrow> kernel \<Rightarrow> kernel \<Rightarrow> bool" where
  "fork_failed nr s s' \<longleftrightarrow> (task s' = task s \<or> task s' = (task s)(nr := None)) \<and> cur s' = cur s \<and>
     file_table s' = file_table s \<and> inode_table s' = inode_table s"

definition fork_done :: "nat \<Rightarrow> u32 \<times> u32 \<times> u32 \<times> u32 \<Rightarrow> intr_frame \<Rightarrow> kernel \<Rightarrow> kernel \<Rightarrow> bool" where
  "fork_done nr rs fr s s' \<longleftrightarrow> (\<exists>p. mem_map s (MAP_NR p) = 0 \<and> task s' = (task s)(nr := Some p) \<and>
     current s' = current s \<and> tsk s' = (tsk s)(p := forked nr p rs fr s) \<and>
     (\<forall>f. f_count (file_table s' f) = f_count (file_table s f) + of_nat (refs_in f (map (filp (cur s)) [0..<NR_OPEN]))) \<and>
     (\<forall>i. i_count (inode_table s' i) = i_count (inode_table s i) +
        of_nat (refs_in i [pwd (cur s), root (cur s), executable (cur s)])))"

definition pages_shared :: "nat \<Rightarrow> nat \<Rightarrow> u32 \<Rightarrow> kernel \<Rightarrow> kernel \<Rightarrow> bool" where
  "pages_shared n c sz s s' \<longleftrightarrow> (\<forall>d k f. d < unat (drop_bit 22 (sz + 0x3fffff)) \<longrightarrow> managed f \<longrightarrow>
     Ent (16 * n + d) k \<in> refs s f \<longrightarrow> {Ent (16 * n + d) k, Ent (16 * c + d) k} \<subseteq> refs s' f \<and>
     \<not> writable (entry s' (Ent (16 * n + d) k)) \<and> \<not> writable (entry s' (Ent (16 * c + d) k)))"

lemma mem_only_fields:
  "mem_only s s' \<Longrightarrow> task s' = task s \<and> tsk s' = tsk s \<and> current s' = current s \<and> file_table s' = file_table s \<and>
     inode_table s' = inode_table s \<and> last_pid s' = last_pid s \<and> jiffies s' = jiffies s"
  by (auto simp: mem_only_def)

lemma mem_only_taken: "mem_only s (taken i s)"
  by (rule mem_onlyI [where m = "(mem_map s)(i := 1)" and p = "phys (taken i s)"])
    (simp add: taken_def zero_page_def set_map_def)

lemma fork_tables:
  assumes s: "vm_ok s" and n: "0 < n" "n < 64" "0 < nr" "nr < 64" "n \<noteq> nr" "unat sz \<le> 0x4000000"
    and i: "i < PAGING_PAGES" "mem_map s i = 0"
    and run: "copy_page_tables (task_base n) (task_base nr) sz (upd_task p f (with_child nr p rs fr (taken i s))) es = Ret 0 s2 es"
    and s': "phys s' = phys s2" "mem_map s' = mem_map s2"
  shows "pages_shared n nr sz s s'"
proof -
  let ?s1 = "upd_task p f (with_child nr p rs fr (taken i s))"
  have m: "phys ?s1 = phys (taken i s)" "mem_map ?s1 = mem_map (taken i s)"
    by (simp_all add: upd_task_def with_child_def)
  note t = taken_props [OF s i]
  have ok: "vm_ok ?s1" using t(1) mem_cong(3) [OF m] by simp
  have r: "refs ?s1 = refs s" using t(3) mem_cong(2) [OF m] by simp
  note c = mem_cong [OF s']
  show ?thesis
    unfolding pages_shared_def c
    using shares_pages [OF ok n(1,2,3,4,5,6) run] unfolding r by auto
qed

lemma copy_process_cases:
  assumes run: "copy_process nr rs fr s es = Ret r s' es'"
    and page: "current s < LOW_MEM \<or> mem_map s (MAP_NR (current s)) \<noteq> 0"
    and s: "vm_ok s" and n: "0 < n" "n < 64" "0 < nr" "nr < 64" "n \<noteq> nr" "unat (get_limit (ldt (cur s) 2)) \<le> 0x4000000"
    and base: "get_base (ldt (cur s) 2) = task_base n"
  shows "es' = es \<and> (r = - EAGAIN \<and> fork_failed nr s s' \<or>
    r = last_pid s \<and> fork_done nr rs fr s s' \<and> pages_shared n nr (get_limit (ldt (cur s) 2)) s s')"
proof (cases "last_below (\<lambda>i. mem_map s i = 0) PAGING_PAGES")
  case None
  then show ?thesis using run by (simp add: copy_process_def krun get_free_page_run fork_failed_def)
next
  case (Some i)
  let ?p = "page_addr i" and ?w = "with_child nr (page_addr i) rs fr (taken i s)"
  have i: "i < PAGING_PAGES" "mem_map s i = 0" using last_below_Some [OF Some] by auto
  have p: "current s \<noteq> ?p" using page MAP_NR_page_addr [OF i(1)] i(2) by auto
  note t = mem_only_fields [OF mem_only_taken, of i s]
  have w: "current ?w = current s" "cur ?w = cur s" "task ?w = (task s)(nr := Some ?p)" "file_table ?w = file_table s"
    "inode_table ?w = inode_table s" "tsk ?w = (tsk s)(?p := child_task nr ?p rs fr s)" "last_pid ?w = last_pid s"
    using p by (simp_all add: with_child_def t child_task_def)
  note cp = copy_process_mem [OF Some refl p, of nr rs fr es]
  obtain r1 s1 es1 where c: "copy_mem nr ?p ?w es = Ret r1 s1 es1"
    using run cp by (cases "copy_mem nr ?p ?w es") simp_all
  obtain r2 s2 where cpt: "copy_page_tables (task_base n) (task_base nr) (get_limit (ldt (cur s) 2))
      (upd_task ?p (give_base nr) ?w) es = Ret r2 s2 es"
    and m2: "mem_only (upd_task ?p (give_base nr) ?w) s2" and es1: "es1 = es"
    and r2: "if r2 = 0 then r1 = 0 \<and> s1 = s2 else r1 \<noteq> 0 \<and> mem_only (upd_task ?p (give_base nr) ?w) s1"
    using copy_mem_Ret [OF c] unfolding w(2) base by blast
  have u: "current (upd_task ?p (give_base nr) ?w) = current s" "task (upd_task ?p (give_base nr) ?w) = (task s)(nr := Some ?p)"
    "file_table (upd_task ?p (give_base nr) ?w) = file_table s" "inode_table (upd_task ?p (give_base nr) ?w) = inode_table s"
    "tsk (upd_task ?p (give_base nr) ?w) = (tsk s)(?p := give_base nr (child_task nr ?p rs fr s))"
    "last_pid (upd_task ?p (give_base nr) ?w) = last_pid s"
    using w by (simp_all add: upd_task_def)
  show ?thesis
  proof (cases "r2 = 0")
    case True
    note f = mem_only_fields [OF m2, unfolded u]
    have s1: "s1 = s2" "r1 = 0" using r2 True by simp_all
    have s': "s' = set_state TASK_RUNNING ?p (count_inode (executable (cur s)) (count_inode (root (cur s))
        (count_inode (pwd (cur s)) (count_files ?p s2))))" "r = last_pid s" "es' = es"
      using run cp c s1 f es1 p by simp_all
    have "filp (give_base nr (child_task nr ?p rs fr s)) = filp (cur s)"
      by (simp add: give_base_def child_task_def Let_def)
    then have "fork_done nr rs fr s s'"
      unfolding fork_done_def s'(1) using f MAP_NR_page_addr [OF i(1)] i(2)
      by (intro exI [of _ ?p]) (auto simp: set_state_def upd_task_def count_files_eq count_more_def forked_def
        count_inode_at refs_in_def)
    moreover have "pages_shared n nr (get_limit (ldt (cur s) 2)) s s'"
      by (rule fork_tables [OF s n i cpt [unfolded True]])
        (simp_all add: s'(1) set_state_def upd_task_def count_files_eq count_more_def)
    ultimately show ?thesis using s' by simp
  next
    case False
    then have m1: "mem_only (upd_task ?p (give_base nr) ?w) s1" "r1 \<noteq> 0" using r2 by simp_all
    note f = mem_only_fields [OF m1(1), unfolded u]
    obtain v s3 es3 where fp: "free_page ?p (s1\<lparr>task := (task s1)(nr := None)\<rparr>) es1 = Ret v s3 es3"
      using run cp c m1(2) by (cases "free_page ?p (s1\<lparr>task := (task s1)(nr := None)\<rparr>) es1") (simp_all add: krun)
    note q = quietD [OF quiet_free_page fp]
    note g = mem_only_fields [OF conjunct2 [OF q]]
    have "s' = s3" "r = - EAGAIN" "es' = es" using run cp c m1(2) fp es1 q by (simp_all add: krun)
    then show ?thesis using f g p by (simp add: fork_failed_def)
  qed
qed

text \<open>
  C6. A successful \<open>sys_fork\<close> of a process with its own page tables: it never sleeps, takes a free
  slot and a number no task has, and gives that number to the parent; the child is a copy of the
  parent in a page that was free, runnable, with its own segment base, no pending signal or alarm, times of 0 and 0 in its
  \<open>eax\<close>; every open file and every directory the child shares is counted once more for each use,
  every page of the parent is mapped at the same offset of the child and neither can write it, and
  no other task changes.  Without a free slot or memory it gives EAGAIN and the parent, the
  files and the inodes are as before.
\<close>

lemma fork_makes_child:
  assumes run: "sys_fork rs fr s es = Ret r s' es'"
    and "0 \<le> last_pid s" "last_pid s < 2147483648"
    and "current s < LOW_MEM \<or> mem_map s (MAP_NR (current s)) \<noteq> 0"
    and "vm_reachable s" "task s n = Some (current s)" "0 < n" "n < 64"
    and "get_base (ldt (cur s) 2) = task_base n" "unat (get_limit (ldt (cur s) 2)) \<le> 0x4000000"
  shows "es' = es \<and> (r = - EAGAIN \<and> (\<exists>nr. fork_failed nr s s') \<or>
    0 < r \<and> (\<forall>i q. i < NR_TASKS \<longrightarrow> task s i = Some q \<longrightarrow> pid (tsk s q) \<noteq> r) \<and>
    (\<exists>nr. 0 < nr \<and> nr < NR_TASKS \<and> task s nr = None \<and> fork_done nr rs fr (s\<lparr>last_pid := r\<rparr>) s' \<and>
      pages_shared n nr (get_limit (ldt (cur s) 2)) s s'))"
proof -
  obtain q p where fe: "find_empty_process s es = Ret q (s\<lparr>last_pid := p\<rparr>) es"
    and p: "0 < p" "\<forall>i q. i < NR_TASKS \<longrightarrow> task s i = Some q \<longrightarrow> pid (tsk s q) \<noteq> p"
    and q: "if \<exists>i. 1 \<le> i \<and> i < NR_TASKS \<and> task s i = None
     then 1 \<le> q \<and> q < int NR_TASKS \<and> task s (nat q) = None \<and> (\<forall>i. 1 \<le> i \<and> int i < q \<longrightarrow> task s i \<noteq> None)
     else q = - EAGAIN"
    using find_empty_process_run [OF assms(2,3), of es] by blast
  let ?s = "s\<lparr>last_pid := p\<rparr>"
  show ?thesis
  proof (cases "\<exists>i. 1 \<le> i \<and> i < NR_TASKS \<and> task s i = None")
    case False
    then have "q = - EAGAIN" using q by simp
    then have "s' = ?s" "r = - EAGAIN" "es' = es" using run fe by (simp_all add: sys_fork_def krun kconst)
    then show ?thesis by (simp add: fork_failed_def)
  next
    case True
    then have q: "1 \<le> q" "q < int NR_TASKS" "task s (nat q) = None" using q by simp_all
    have cpr: "copy_process (nat q) rs fr ?s es = Ret r s' es'"
      using run fe q by (simp add: sys_fork_def krun)
    have m: "vm_ok ?s = vm_ok s" "refs ?s = refs s" by (rule mem_cong; simp)+
    have ne: "n \<noteq> nat q" using q assms(6) by auto
    have nq: "0 < nat q" "nat q < 64" using q by (simp_all add: kconst)
    have "es' = es \<and> (r = - EAGAIN \<and> fork_failed (nat q) ?s s' \<or>
      r = last_pid ?s \<and> fork_done (nat q) rs fr ?s s' \<and> pages_shared n (nat q) (get_limit (ldt (cur ?s) 2)) ?s s')"
      by (rule copy_process_cases [OF cpr _ _ assms(7,8) nq ne])
        (use assms vm_reachable_ok m in simp_all)
    moreover have "fork_failed (nat q) ?s s' \<Longrightarrow> fork_failed (nat q) s s'" by (simp add: fork_failed_def)
    moreover have "pages_shared n (nat q) l ?s s' = pages_shared n (nat q) l s s'" for l
      by (simp add: pages_shared_def m)
    ultimately consider "es' = es" "r = - EAGAIN" "fork_failed (nat q) s s'"
      | "es' = es" "r = p" "fork_done (nat q) rs fr ?s s'" "pages_shared n (nat q) (get_limit (ldt (cur s) 2)) s s'"
      by auto
    then show ?thesis
    proof cases
      case 1
      then show ?thesis by blast
    next
      case 2
      then show ?thesis using p q(3) nq by (simp only: kconst) blast
    qed
  qed
qed

definition fork0 :: kernel where
  "fork0 = vm0\<lparr>task := [0 \<mapsto> 0x1000, 1 \<mapsto> 0x2000], current := 0x2000, last_pid := 1,
     tsk := (\<lambda>p. blank_task_struct\<lparr>pid := (if p = 0x1000 then 0 else 1),
       ldt := (\<lambda>_. \<lparr>desc_a = 0, desc_b = 0x4000000\<rparr>)\<rparr>)\<rparr>"

definition frame0 :: intr_frame where
  "frame0 = \<lparr>fr_eax = 2, fr_ebx = 0, fr_ecx = 0, fr_edx = 0, fr_fs = 0x17, fr_es = 0x17, fr_ds = 0x17, fr_eip = 100,
     fr_cs = 0xf, fr_eflags = 0x202, fr_esp = 200, fr_ss = 0x17\<rparr>"

lemma fork0_simps [simp]: "phys fork0 = phys vm0" "mem_map fork0 = mem_map vm0" "current fork0 = 0x2000"
  "task fork0 = [0 \<mapsto> 0x1000, 1 \<mapsto> 0x2000]" "last_pid fork0 = 1" "ldt (tsk fork0 q) i = \<lparr>desc_a = 0, desc_b = 0x4000000\<rparr>"
  "pid (tsk fork0 q) = (if q = 0x1000 then 0 else 1)"
  by (simp_all add: fork0_def)

lemma fork0_reachable: "vm_reachable fork0"
proof (rule vm_reachable.boot)
  have e: "entry fork0 = entry vm0" by (rule mem_cong) simp_all
  have "low_ok fork0 = low_ok vm0" by (simp add: low_ok_def)
  then show "vm_boot fork0" using vm0_boot by (simp add: vm_boot_def e)
qed

lemma first_from_pos: "0 < n \<Longrightarrow> first_from P i n = (if P i then Some i else first_from P (Suc i) (n - 1))"
  by (cases n) auto

lemma desc0: "get_base \<lparr>desc_a = 0, desc_b = 0x4000000\<rparr> = task_base 1" "get_limit \<lparr>desc_a = 0, desc_b = 0x4000000\<rparr> = 1"
  by (simp_all add: get_base_def get_limit_def task_base_def)

lemma fork0_find: "find_empty_process fork0 [] = Ret 2 (fork0\<lparr>last_pid := 2\<rparr>) []"
proof -
  have "\<not> pid_used fork0 2" unfolding pid_used_iff by (auto split: if_splits)
  then have "fresh_pid (Suc NR_TASKS) 1 fork0 = Some 2" by (simp add: bump_pid_def)
  moreover have "first_from (\<lambda>i. task fork0 i = None) 1 (NR_TASKS - 1) = Some 2"
    by (simp add: first_from_pos kconst)
  ultimately show ?thesis
    by (simp only: find_empty_process_def bnd_run gets_run res.case option.case seq_run modify_run fork0_simps) simp
qed

lemma copy_nothing:
  assumes "phys s 64 = 0" "phys s 128 = 0"
  shows "copy_page_tables (task_base 1) (task_base 2) 1 s es = Ret 0 s es"
proof -
  have b: "dirix (task_base 1) = 16" "dirix (task_base 2) = 32" "task_base 1 \<noteq> 0"
    "task_base 1 AND 0x3fffff = 0" "task_base 2 AND 0x3fffff = 0"
    using unat_task_base [of 1] by (auto simp: dirix_task_base task_base_aligned)
  have n: "unat (drop_bit 22 (1 + 0x3fffff :: u32)) = 1" by (simp add: drop_bit_eq_div unat_div)
  show ?thesis
    unfolding copy_page_tables_def dir_addr_of b n One_nat_def copy_dir_entries.simps
    using assms by (simp add: b [unfolded One_nat_def] krun)
qed

lemma fork0_copy: "\<exists>s'. copy_process 2 (0, 0, 0, 0) frame0 (fork0\<lparr>last_pid := 2\<rparr>) [] = Ret 2 s' []"
proof -
  let ?s = "fork0\<lparr>last_pid := 2\<rparr>" and ?p = "page_addr 3839"
  have i: "last_below (\<lambda>i. mem_map ?s i = 0) PAGING_PAGES = Some 3839"
    by (simp add: last_below_pred [of 3840] PAGING_PAGES_def vm0_def)
  have up: "unat ?p = 4096 * 4095" by (simp add: unat_page_addr kconst)
  then have p: "current ?s \<noteq> ?p" by auto
  let ?w = "with_child 2 ?p (0, 0, 0, 0) frame0 (taken 3839 ?s)"
  have w: "current ?w = 0x2000" "ldt (tsk ?w 0x2000) k = \<lparr>desc_a = 0, desc_b = 0x4000000\<rparr>" "last_pid ?w = 2" for k
    using p by (simp_all add: with_child_def taken_def zero_page_def set_map_def fork0_def)
  have a: "64 \<notin> page_words ?p" "128 \<notin> page_words ?p"
    by (rule page_frame_ne; simp add: frame_def up)+
  have "phys (taken 3839 ?s) a = phys vm0 a" if "a \<notin> page_words ?p" for a
    using that by (simp add: taken_def zero_page_def set_map_def)
  then have "phys (upd_task ?p f ?w) 64 = 0" "phys (upd_task ?p f ?w) 128 = 0" for f
    using a by (simp_all add: upd_task_def with_child_def) (simp_all add: vm0_def)
  then have "copy_mem 2 ?p ?w [] = Ret 0 (upd_task ?p (give_base 2) ?w) []"
    using copy_nothing by (subst copy_mem_run) (simp_all only: w desc0 bnd_run, simp_all add: krun)
  then show ?thesis
    unfolding copy_process_mem [OF i refl p] using w by (simp add: upd_task_def)
qed

lemma fork0_run: "\<exists>s'. sys_fork (0, 0, 0, 0) frame0 fork0 [] = Ret 2 s' []"
  using fork0_copy by (simp add: sys_fork_def bnd_run fork0_find)

lemma fork_makes_child_witness:
  "\<exists>s' nr. sys_fork (0, 0, 0, 0) frame0 fork0 [] = Ret 2 s' [] \<and>
     fork_done nr (0, 0, 0, 0) frame0 (fork0\<lparr>last_pid := 2\<rparr>) s' \<and> pages_shared 1 nr 1 fork0 s'"
proof -
  obtain s' where run: "sys_fork (0, 0, 0, 0) frame0 fork0 [] = Ret 2 s' []" using fork0_run by blast
  show ?thesis
    using run fork_makes_child [OF run _ _ _ fork0_reachable, of 1] by (auto simp: desc0 kconst)
qed

end
