(* ===== verification/Vsprintf.thy ===== *)
theory Vsprintf
  imports Prelude
begin

unbundle bit_operations_syntax

text \<open>
  kernel/vsprintf.c: formatted output.  The output is the list of the characters stored; an
  argument is a machine word or, for \<open>%s\<close>, the characters of a string up to its zero byte.
  \<open>%n\<close> stores the number of characters so far through a pointer, which is listed in the result.
  \<open>None\<close> is an argument that is missing or of the wrong kind.
\<close>

datatype varg = Word u32 | Str string

abbreviation ord :: "char \<Rightarrow> nat" where "ord c \<equiv> of_char c"

definition is_digit :: "char \<Rightarrow> bool" where
  "is_digit c \<longleftrightarrow> 48 \<le> ord c \<and> ord c \<le> 57"

fun skip_atoi :: "int \<Rightarrow> string \<Rightarrow> int \<times> string" where
  "skip_atoi i [] = (i, [])"
| "skip_atoi i (c # s) = (if is_digit c then skip_atoi (wrap32 (i * 10 + int (ord c) - 48)) s else (i, c # s))"

definition ZEROPAD :: u32 where [kconst]: "ZEROPAD = 1"
definition SIGN :: u32 where [kconst]: "SIGN = 2"
definition PLUS :: u32 where [kconst]: "PLUS = 4"
definition SPACE :: u32 where [kconst]: "SPACE = 8"
definition LEFTJ :: u32 where [kconst]: "LEFTJ = 16"
definition SPECIAL :: u32 where [kconst]: "SPECIAL = 32"
definition SMALL :: u32 where [kconst]: "SMALL = 64"

abbreviation has :: "u32 \<Rightarrow> u32 \<Rightarrow> bool" where "has ty f \<equiv> ty AND f \<noteq> 0"

text \<open>The loop with \<open>do_div\<close>: the digits of an unsigned number, the last one first.\<close>

fun div_digits :: "nat \<Rightarrow> nat \<Rightarrow> nat list" where
  "div_digits base n = (if n = 0 \<or> base < 2 then [] else n mod base # div_digits base (n div base))"

declare div_digits.simps [simp del]

definition digit_chars :: "u32 \<Rightarrow> string" where
  "digit_chars ty = (if has ty SMALL then ''0123456789abcdefghijklmnopqrstuvwxyz''
     else ''0123456789ABCDEFGHIJKLMNOPQRSTUVWXYZ'')"

definition sign_of :: "u32 \<Rightarrow> u32 \<Rightarrow> string" where
  "sign_of num ty = (if has ty SIGN \<and> sint num < 0 then ''-'' else if has ty PLUS then ''+''
     else if has ty SPACE then '' '' else [])"

definition prefix_of :: "u32 \<Rightarrow> nat \<Rightarrow> string" where
  "prefix_of ty base = (if \<not> has ty SPECIAL then [] else if base = 8 then ''0''
     else if base = 16 then CHR ''0'' # [digit_chars ty ! 33] else [])"

text \<open>
  \<open>number\<close>: of the three loops that use up \<open>size\<close> only the first one that is reached pads,
  because it leaves \<open>size\<close> negative.
\<close>

definition number :: "u32 \<Rightarrow> nat \<Rightarrow> int \<Rightarrow> int \<Rightarrow> u32 \<Rightarrow> string option" where
  "number num base size0 precision ty =
     (if base < 2 \<or> base > 36 then None
      else let
        left = has ty LEFTJ; zero = (has ty ZEROPAD \<and> \<not> left);
        sign = sign_of num ty; pre = prefix_of ty base;
        n = unat (if has ty SIGN \<and> sint num < 0 then - num else num);
        tmp = (if n = 0 then ''0'' else map ((!) (digit_chars ty)) (div_digits base n));
        prec = max precision (int (length tmp));
        pad = nat (size0 - int (length sign) - int (length pre) - prec)
      in Some ((if \<not> zero \<and> \<not> left then replicate pad (CHR '' '') else []) @ sign @ pre @
        (if zero then replicate pad (CHR ''0'') else []) @
        replicate (nat prec - length tmp) (CHR ''0'') @ rev tmp @
        (if left then replicate pad (CHR '' '') else [])))"

subsection \<open>The format\<close>

fun get_flags :: "u32 \<Rightarrow> string \<Rightarrow> u32 \<times> string" where
  "get_flags f [] = (f, [])"
| "get_flags f (c # s) =
     (if c = CHR ''-'' then get_flags (f OR LEFTJ) s
      else if c = CHR ''+'' then get_flags (f OR PLUS) s
      else if c = CHR '' '' then get_flags (f OR SPACE) s
      else if c = CHR ''#'' then get_flags (f OR SPECIAL) s
      else if c = CHR ''0'' then get_flags (f OR ZEROPAD) s
      else (f, c # s))"

fun next_word :: "varg list \<Rightarrow> (u32 \<times> varg list) option" where
  "next_word (Word w # as) = Some (w, as)"
| "next_word _ = None"

fun next_str :: "varg list \<Rightarrow> (string \<times> varg list) option" where
  "next_str (Str s # as) = Some (s, as)"
| "next_str _ = None"

text \<open>A width or precision: digits, or \<open>*\<close> for an argument; the \<open>*\<close> itself is not skipped.\<close>

definition get_number :: "int \<Rightarrow> string \<Rightarrow> varg list \<Rightarrow> (int \<times> string \<times> varg list) option" where
  "get_number dflt s as = (case s of
     [] \<Rightarrow> Some (dflt, s, as)
   | c # _ \<Rightarrow> if is_digit c then (case skip_atoi 0 s of (n, s') \<Rightarrow> Some (n, s', as))
       else if c = CHR ''*'' then (case next_word as of None \<Rightarrow> None | Some (w, as') \<Rightarrow> Some (sint w, s, as'))
       else Some (dflt, s, as))"

definition get_width :: "u32 \<Rightarrow> string \<Rightarrow> varg list \<Rightarrow> (u32 \<times> int \<times> string \<times> varg list) option" where
  "get_width f s as = (case get_number (- 1) s as of
     None \<Rightarrow> None
   | Some (w, s', as') \<Rightarrow>
       if s \<noteq> [] \<and> hd s = CHR ''*'' \<and> w < 0 then Some (f OR LEFTJ, wrap32 (- w), s', as')
       else Some (f, w, s', as'))"

definition get_precision :: "string \<Rightarrow> varg list \<Rightarrow> (int \<times> string \<times> varg list) option" where
  "get_precision s as = (case s of
     CHR ''.'' # s' \<Rightarrow> (case get_number (- 1) s' as of
       None \<Rightarrow> None | Some (p, s'', as') \<Rightarrow> Some (max p 0, s'', as'))
   | _ \<Rightarrow> Some (- 1, s, as))"

definition skip_qualifier :: "string \<Rightarrow> string" where
  "skip_qualifier s = (case s of c # s' \<Rightarrow> if c \<in> set ''hlL'' then s' else s | [] \<Rightarrow> [])"

text \<open>
  One conversion: the characters it stores, the arguments left, and the number stored by \<open>%n\<close>;
  \<open>len\<close> is the number of characters before it.
\<close>

definition number_arg :: "nat \<Rightarrow> int \<Rightarrow> int \<Rightarrow> u32 \<Rightarrow> varg list \<Rightarrow> (string \<times> varg list \<times> (u32 \<times> nat) list) option" where
  "number_arg base fw prec f as = (case next_word as of
     None \<Rightarrow> None
   | Some (w, as') \<Rightarrow> (case number w base fw prec f of None \<Rightarrow> None | Some out \<Rightarrow> Some (out, as', [])))"

definition char_arg :: "int \<Rightarrow> u32 \<Rightarrow> varg list \<Rightarrow> (string \<times> varg list \<times> (u32 \<times> nat) list) option" where
  "char_arg fw f as = (case next_word as of
     None \<Rightarrow> None
   | Some (w, as') \<Rightarrow>
       let pad = replicate (nat (wrap32 (fw - 1))) (CHR '' ''); c = char_of (unat w mod 256)
       in Some (if has f LEFTJ then c # pad else pad @ [c], as', []))"

definition str_arg :: "int \<Rightarrow> int \<Rightarrow> u32 \<Rightarrow> varg list \<Rightarrow> (string \<times> varg list \<times> (u32 \<times> nat) list) option" where
  "str_arg fw prec f as = (case next_str as of
     None \<Rightarrow> None
   | Some (s, as') \<Rightarrow>
       let t = (if prec < 0 then s else take (nat prec) s);
           pad = replicate (nat (fw - int (length t))) (CHR '' '')
       in Some (if has f LEFTJ then t @ pad else pad @ t, as', []))"

definition convert :: "char \<Rightarrow> u32 \<Rightarrow> int \<Rightarrow> int \<Rightarrow> varg list \<Rightarrow> nat \<Rightarrow>
    (string \<times> varg list \<times> (u32 \<times> nat) list) option" where
  "convert c f fw prec as len =
     (if c = CHR ''c'' then char_arg fw f as
      else if c = CHR ''s'' then str_arg fw prec f as
      else if c = CHR ''o'' then number_arg 8 fw prec f as
      else if c = CHR ''p'' then number_arg 16 (if fw = - 1 then 8 else fw) prec (if fw = - 1 then f OR ZEROPAD else f) as
      else if c = CHR ''x'' then number_arg 16 fw prec (f OR SMALL) as
      else if c = CHR ''X'' then number_arg 16 fw prec f as
      else if c = CHR ''d'' \<or> c = CHR ''i'' then number_arg 10 fw prec (f OR SIGN) as
      else if c = CHR ''u'' then number_arg 10 fw prec f as
      else if c = CHR ''n'' then (case next_word as of None \<Rightarrow> None | Some (w, as') \<Rightarrow> Some ([], as', [(w, len)]))
      else Some (if c = CHR ''%'' then [c] else [CHR ''%'', c], as, []))"

text \<open>What follows a \<open>%\<close>, up to the conversion character.\<close>

definition get_spec :: "string \<Rightarrow> varg list \<Rightarrow> (u32 \<times> int \<times> int \<times> string \<times> varg list) option" where
  "get_spec s as = (case get_flags 0 s of (f, s1) \<Rightarrow>
     (case get_width f s1 as of None \<Rightarrow> None | Some (f', fw, s2, as2) \<Rightarrow>
       (case get_precision s2 as2 of None \<Rightarrow> None | Some (prec, s3, as3) \<Rightarrow>
         Some (f', fw, prec, skip_qualifier s3, as3))))"

lemma skip_atoi_length: "skip_atoi i s = (n, s') \<Longrightarrow> length s' \<le> length s"
  by (induction i s rule: skip_atoi.induct) (auto split: if_splits simp: le_SucI)

lemma get_flags_length: "get_flags f s = (g, s') \<Longrightarrow> length s' \<le> length s"
  by (induction f s rule: get_flags.induct) (auto split: if_splits simp: le_SucI)

lemma get_number_length: "get_number d s as = Some (n, s', as') \<Longrightarrow> length s' \<le> length s"
  by (auto simp: get_number_def split: list.splits if_splits option.splits prod.splits dest: skip_atoi_length)

lemma get_width_length: "get_width f s as = Some (g, w, s', as') \<Longrightarrow> length s' \<le> length s"
  by (auto simp: get_width_def split: option.splits if_splits dest!: get_number_length)

lemma get_precision_length: "get_precision s as = Some (p, s', as') \<Longrightarrow> length s' \<le> length s"
proof (cases "s \<noteq> [] \<and> hd s = CHR ''.''")
  case True
  then obtain t where s: "s = CHR ''.'' # t" by (cases s) auto
  assume "get_precision s as = Some (p, s', as')"
  then show ?thesis by (auto simp: s get_precision_def split: option.splits dest!: get_number_length)
next
  case False
  then have "get_precision s as = Some (- 1, s, as)"
    by (cases s) (auto simp: get_precision_def split: char.splits bool.splits)
  moreover assume "get_precision s as = Some (p, s', as')"
  ultimately show ?thesis by simp
qed

lemma skip_qualifier_length: "length (skip_qualifier s) \<le> length s"
  by (auto simp: skip_qualifier_def split: list.split)

lemma get_spec_length: "get_spec s as = Some (f, fw, p, s', as') \<Longrightarrow> length s' \<le> length s"
  unfolding get_spec_def
  by (auto split: prod.splits option.splits
    dest!: get_flags_length get_width_length get_precision_length intro: order_trans [OF skip_qualifier_length] order_trans)

function vloop :: "string \<Rightarrow> varg list \<Rightarrow> nat \<Rightarrow> (string \<times> (u32 \<times> nat) list) option" where
  "vloop fmt as len = (case fmt of
     [] \<Rightarrow> Some ([], [])
   | c # s \<Rightarrow>
       if c \<noteq> CHR ''%''
       then (case vloop s as (Suc len) of None \<Rightarrow> None | Some (out, ws) \<Rightarrow> Some (c # out, ws))
       else (case get_spec s as of
         None \<Rightarrow> None
       | Some (f, fw, prec, s', as') \<Rightarrow> (case s' of
           [] \<Rightarrow> Some (''%'', [])
         | d # t \<Rightarrow> (case convert d f fw prec as' len of
             None \<Rightarrow> None
           | Some (out, as'', w) \<Rightarrow> (case vloop t as'' (len + length out) of
               None \<Rightarrow> None | Some (out', ws) \<Rightarrow> Some (out @ out', w @ ws))))))"
  by pat_completeness auto

termination vloop
  by (relation "measure (\<lambda>(fmt, _, _). length fmt)") (auto dest!: get_spec_length)

declare vloop.simps [simp del]

text \<open>The characters stored before the final zero byte (their number is the result), and the stores of \<open>%n\<close>.\<close>

definition vsprintf :: "string \<Rightarrow> varg list \<Rightarrow> (string \<times> (u32 \<times> nat) list) option" where
  "vsprintf fmt args = vloop fmt args 0"

subsection \<open>Reading numbers back\<close>

text \<open>The reference: the value of a string of digits, and of a number with blanks and a sign around it.\<close>

definition digit_value :: "char \<Rightarrow> nat" where
  "digit_value c = (if is_digit c then ord c - 48 else if ord c < 97 then ord c - 55 else ord c - 87)"

definition digits_value :: "nat \<Rightarrow> string \<Rightarrow> nat" where
  "digits_value b s = foldl (\<lambda>v c. v * b + digit_value c) 0 s"

definition read_number :: "nat \<Rightarrow> string \<Rightarrow> int" where
  "read_number b s = (let t = takeWhile (\<lambda>c. c \<noteq> CHR '' '') (dropWhile (\<lambda>c. c = CHR '' '') s) in
     case t of [] \<Rightarrow> 0
     | c # u \<Rightarrow> if c = CHR ''-'' then - int (digits_value b u)
                else if c = CHR ''+'' then int (digits_value b u) else int (digits_value b t))"

definition digit_char :: "char \<Rightarrow> bool" where
  "digit_char c \<longleftrightarrow> c \<noteq> CHR '' '' \<and> c \<noteq> CHR ''-'' \<and> c \<noteq> CHR ''+''"

lemma digit_chars_all: "list_all (\<lambda>d. list_all (\<lambda>cs. digit_value (cs ! d) = d \<and> digit_char (cs ! d))
    [''0123456789abcdefghijklmnopqrstuvwxyz'', ''0123456789ABCDEFGHIJKLMNOPQRSTUVWXYZ'']) [0..<36]"
  by code_simp

lemma digit_chars_nth: "d < 36 \<Longrightarrow> digit_value (digit_chars ty ! d) = d \<and> digit_char (digit_chars ty ! d)"
  using digit_chars_all by (simp add: list_all_iff digit_chars_def)

lemma digits_value_zeros: "digits_value b (replicate k (CHR ''0'') @ s) = digits_value b s"
  by (induction k) (simp_all add: digits_value_def digit_value_def is_digit_def)

lemma digits_value_rev:
  "\<forall>d\<in>set ds. d < 36 \<Longrightarrow> digits_value b (rev (map ((!) (digit_chars ty)) ds)) = foldr (\<lambda>d v. v * b + d) ds 0"
  by (induction ds) (simp_all add: digits_value_def digit_chars_nth)

lemma div_digits_value: "2 \<le> b \<Longrightarrow> foldr (\<lambda>d v. v * b + d) (div_digits b n) 0 = n"
proof (induction b n rule: div_digits.induct)
  case (1 b n)
  then show ?case by (subst div_digits.simps) (simp add: mult.commute)
qed

lemma div_digits_less: "2 \<le> b \<Longrightarrow> d \<in> set (div_digits b n) \<Longrightarrow> d < b"
proof (induction b n rule: div_digits.induct)
  case (1 b n)
  then show ?case using div_digits.simps [of b n] by (auto split: if_splits)
qed

lemma read_layout:
  assumes "sign \<in> {[], ''-'', ''+'', '' ''}" "body \<noteq> []" "\<forall>c\<in>set body. digit_char c"
  shows "read_number b (replicate i (CHR '' '') @ sign @ body @ replicate j (CHR '' '')) =
    (if sign = ''-'' then - int (digits_value b body) else int (digits_value b body))"
proof -
  obtain c u where body: "body = c # u" using assms(2) by (cases body) auto
  have c: "c \<noteq> CHR '' ''" "c \<noteq> CHR ''-''" "c \<noteq> CHR ''+''" using assms(3) body by (auto simp: digit_char_def)
  have d: "dropWhile (\<lambda>c. c = CHR '' '') (replicate i (CHR '' '') @ xs) = dropWhile (\<lambda>c. c = CHR '' '') xs" for i xs
    by (induction i) simp_all
  have t: "takeWhile (\<lambda>c. c \<noteq> CHR '' '') (body @ replicate j (CHR '' '')) = body"
    using assms(3) by (subst takeWhile_append2) (auto simp: digit_char_def takeWhile_replicate)
  have t': "takeWhile (\<lambda>c. c \<noteq> CHR '' '') (u @ replicate j (CHR '' '')) = u"
    using t c by (simp add: body)
  show ?thesis
    using assms(1) c t t' by (auto simp: read_number_def d Let_def body)
qed

definition shown :: "u32 \<Rightarrow> u32 \<Rightarrow> int" where
  "shown num ty = (if has ty SIGN then sint num else uint num)"

definition magnitude :: "u32 \<Rightarrow> u32 \<Rightarrow> nat" where
  "magnitude num ty = unat (if has ty SIGN \<and> sint num < 0 then - num else num)"

lemma sint_range32: "- 2147483648 \<le> sint (w :: u32) \<and> sint w < 2147483648"
  using sint_ge [of w] sint_lt [of w] by simp

lemma uint_neg32: "sint (w :: u32) < 0 \<Longrightarrow> uint (- w) = - sint w"
proof -
  assume neg: "sint w < 0"
  have "- w = word_of_int (- sint w)" by simp
  then have "uint (- w) = (- sint w) mod 4294967296"
    using uint_word_of_int [of "- sint w", where 'a = 32] by simp
  then show ?thesis using neg sint_range32 [of w] by simp
qed

lemma uint_pos32: "0 \<le> sint (w :: u32) \<Longrightarrow> uint w = sint w"
proof -
  assume pos: "0 \<le> sint w"
  have "uint w = sint w mod 4294967296"
    using uint_word_of_int [of "sint w", where 'a = 32] by simp
  then show ?thesis using pos sint_range32 [of w] by simp
qed

lemma magnitude_abs: "int (magnitude num ty) = \<bar>shown num ty\<bar>"
  using uint_neg32 [of num] uint_pos32 [of num] by (auto simp: magnitude_def shown_def)

definition digit_count :: "nat \<Rightarrow> nat \<Rightarrow> nat" where
  "digit_count base n = (if n = 0 then 1 else length (div_digits base n))"

lemma number_digits:
  assumes "2 \<le> base" "base \<le> 36"
  defines "tmp n ty \<equiv> (if n = 0 then ''0'' else map ((!) (digit_chars ty)) (div_digits base n))"
  shows "digits_value base (rev (tmp n ty)) = n" "tmp n ty \<noteq> []" "\<forall>c\<in>set (tmp n ty). digit_char c"
    "length (tmp n ty) = digit_count base n"
proof -
  have d: "\<forall>d\<in>set (div_digits base n). d < 36" using div_digits_less [OF assms(1)] assms(2) by fastforce
  have ne: "n \<noteq> 0 \<Longrightarrow> div_digits base n \<noteq> []" using assms(1) by (subst div_digits.simps) simp
  show "digits_value base (rev (tmp n ty)) = n"
    using digits_value_rev [OF d] div_digits_value [OF assms(1)]
    by (simp add: tmp_def digits_value_def digit_value_def is_digit_def)
  show "tmp n ty \<noteq> []" using ne by (simp add: tmp_def)
  show "\<forall>c\<in>set (tmp n ty). digit_char c"
    using d digit_chars_nth by (auto simp: tmp_def) (simp add: digit_char_def)
  show "length (tmp n ty) = digit_count base n" by (simp add: tmp_def digit_count_def)
qed

text \<open>
  C36. Printing a number and reading it back: for every base of 2 to 36, width, precision and flags
  without the prefix of \<open>#\<close>, \<open>number\<close> stores blanks, sign and digits that read as the argument (as a
  signed or unsigned number as the flags say, the smallest number included), and fills exactly the
  field width unless the sign and the digits need more.
\<close>

lemma number_roundtrip:
  assumes "2 \<le> base" "base \<le> 36" "\<not> has ty SPECIAL"
  shows "\<exists>out. number num base width precision ty = Some out \<and> read_number base out = shown num ty \<and>
    int (length out) = max width (int (length (sign_of num ty)) +
      max precision (int (digit_count base (magnitude num ty))))"
proof -
  define tmp where "tmp = (if magnitude num ty = 0 then ''0'' else map ((!) (digit_chars ty)) (div_digits base (magnitude num ty)))"
  let ?left = "has ty LEFTJ" and ?zero = "has ty ZEROPAD \<and> \<not> has ty LEFTJ"
  let ?prec = "max precision (int (length tmp))"
  let ?pad = "nat (width - int (length (sign_of num ty)) - ?prec)"
  let ?body = "replicate (if ?zero then ?pad else 0) (CHR ''0'') @ replicate (nat ?prec - length tmp) (CHR ''0'') @ rev tmp"
  note d = number_digits [OF assms(1,2), of "magnitude num ty" ty, folded tmp_def]
  have pre: "prefix_of ty base = []" using assms(3) by (simp add: prefix_of_def)
  have out: "number num base width precision ty = Some (replicate (if \<not> ?zero \<and> \<not> ?left then ?pad else 0) (CHR '' '') @
      sign_of num ty @ ?body @ replicate (if ?left then ?pad else 0) (CHR '' ''))" (is "_ = Some ?out")
    using assms(1,2) by (auto simp: number_def Let_def pre magnitude_def [symmetric] tmp_def [symmetric])
  have sign: "sign_of num ty \<in> {[], ''-'', ''+'', '' ''}" "sign_of num ty = ''-'' \<longleftrightarrow> shown num ty < 0"
    by (auto simp: sign_of_def shown_def not_less)
  have body: "digits_value base ?body = magnitude num ty" "?body \<noteq> []" "\<forall>c\<in>set ?body. digit_char c"
    using d(1-3) by (auto simp only: digits_value_zeros) (auto simp: digit_char_def)
  have "read_number base ?out = (if sign_of num ty = ''-'' then - int (digits_value base ?body) else int (digits_value base ?body))"
    by (rule read_layout [OF sign(1) body(2,3)])
  also have "\<dots> = shown num ty"
    unfolding body(1) sign(2) using magnitude_abs [of num ty] by auto
  finally have "read_number base ?out = shown num ty" .
  moreover have "int (length ?out) = max width (int (length (sign_of num ty)) + ?prec)" by auto
  ultimately show ?thesis using out d(4) by auto
qed

lemma number_roundtrip_witness:
  "\<exists>out. number 0x80000000 10 12 3 (SIGN OR ZEROPAD) = Some out \<and> read_number 10 out = - 2147483648 \<and> length out = 12"
proof -
  have *: "shown 0x80000000 (SIGN OR ZEROPAD) = - 2147483648" "sign_of 0x80000000 (SIGN OR ZEROPAD) = ''-''"
    "digit_count 10 (magnitude 0x80000000 (SIGN OR ZEROPAD)) = 10" "\<not> has (SIGN OR ZEROPAD) SPECIAL"
    by (simp_all add: shown_def sign_of_def digit_count_def magnitude_def div_digits.simps kconst)
  show ?thesis using number_roundtrip [of 10 "SIGN OR ZEROPAD" "0x80000000" 12 3] * by auto
qed

end
