(* ===== verification/Exec.thy ===== *)
theory Exec
  imports Process
begin

unbundle bit_operations_syntax

text \<open>
  Running programs: \<open>do_no_page\<close> of mm/memory.c, which loads a page of the executable on demand, and
  fs/exec.c.  The user space changes when a program is executed: below the argument pages it is
  what demand loading will show, which is the parameter \<open>img\<close>.
\<close>

subsection \<open>Demand loading (mm/memory.c)\<close>

text \<open>The rest of the last page of the file is cleared.\<close>

definition clear_tail :: "u32 \<Rightarrow> int \<Rightarrow> unit K" where
  "clear_tail page n = for_each [0..<nat n] (\<lambda>k. modify (put_byte (page + 4095 - of_nat k) 0))"

fun bmap_all :: "iptr \<Rightarrow> int list \<Rightarrow> nat list K" where
  "bmap_all i [] = ret []"
| "bmap_all i (n # ns) = bnd (bmap i n) (\<lambda>z. bnd (bmap_all i ns) (\<lambda>zs. ret (z # zs)))"

definition do_no_page :: "u32 \<Rightarrow> u32 \<Rightarrow> unit K" where
  "do_no_page error_code address0 = (let address = address0 AND 0xfffff000 in
     bnd (gets (\<lambda>s. (address - start_code (cur s), executable (cur s), end_data (cur s)))) (\<lambda>(tmp, ex, ed). case ex of
       None \<Rightarrow> get_empty_page address
     | Some i \<Rightarrow>
         if tmp \<ge> ed then get_empty_page address
         else bnd (share_page tmp) (\<lambda>r.
           if r \<noteq> 0 then skip
           else bnd get_free_page (\<lambda>page.
             if page = 0 then oom
             else bnd (bmap_all i (map (\<lambda>k. 1 + uint tmp div 1024 + int k) [0..<4])) (\<lambda>nr.
               seq (block
                 [bnd (gets (\<lambda>s. i_dev (inode_table s i))) (\<lambda>dev. bread_page page dev (\<lambda>k. of_nat (nr ! k))),
                  bnd (gets (\<lambda>s. end_data (cur s))) (\<lambda>ed. clear_tail page (sint (tmp + 4096 - ed)))])
               (bnd (put_page page address) (\<lambda>r.
                 if r \<noteq> 0 then skip else seq (free_page page) oom)))))))"

subsection \<open>The header of an executable (include/a.out.h)\<close>

record exec =
  a_magic :: u32
  a_text :: u32
  a_data :: u32
  a_bss :: u32
  a_syms :: u32
  a_entry :: u32
  a_trsize :: u32
  a_drsize :: u32

definition exec_header :: "(nat \<Rightarrow> u8) \<Rightarrow> exec" where
  "exec_header d = \<lparr>a_magic = get32 d 0, a_text = get32 d 4, a_data = get32 d 8, a_bss = get32 d 12,
     a_syms = get32 d 16, a_entry = get32 d 20, a_trsize = get32 d 24, a_drsize = get32 d 28\<rparr>"

definition ZMAGIC :: u32 where [kconst]: "ZMAGIC = 0x10B"

definition N_TXTOFF :: "exec \<Rightarrow> u32" where
  "N_TXTOFF ex = (if a_magic ex = ZMAGIC then 1024 - 32 + 32 else 32)"

subsection \<open>Arguments\<close>

definition MAX_ARG_PAGES :: nat where [kconst]: "MAX_ARG_PAGES = 32"

type_synonym pages = "nat \<Rightarrow> u32"

definition create_tables_ptrs :: "u32 \<Rightarrow> nat \<Rightarrow> nat \<Rightarrow> u32 \<times> u32" where
  "create_tables_ptrs p argc envc = (let sp = p AND 0xfffffffc; envp = sp - 4 * (of_nat envc + 1)
     in (envp - 4 * (of_nat argc + 1), envp))"

text \<open>The pointers to the strings that follow each other from \<open>p\<close> on; the address after the last.\<close>

fun put_ptrs :: "nat \<Rightarrow> u32 \<Rightarrow> u32 \<Rightarrow> u32 K" where
  "put_ptrs 0 tab p = seq (modify (put_fs_long 0 tab)) (ret p)"
| "put_ptrs (Suc n) tab p = seq (modify (put_fs_long p tab))
     (bnd (user_scan (\<lambda>c. c = 0) p) (\<lambda>len. put_ptrs n (tab + 4) (p + of_nat len + 1)))"

definition create_tables :: "u32 \<Rightarrow> nat \<Rightarrow> nat \<Rightarrow> u32 K" where
  "create_tables p argc envc = (case create_tables_ptrs p argc envc of (argv, envp) \<Rightarrow> seq (block
     [modify (put_fs_long envp (argv - 4)),
      modify (put_fs_long argv (argv - 8)),
      modify (put_fs_long (of_nat argc) (argv - 12))])
     (bnd (put_ptrs argc argv p) (\<lambda>p'. bnd (put_ptrs envc envp p') (\<lambda>_. ret (argv - 12)))))"

text \<open>\<open>count\<close>: the pointers up to the NULL; an array without one makes the loop go on for ever.\<close>

fun count_ptrs :: "nat \<Rightarrow> kernel \<Rightarrow> u32 \<Rightarrow> nat option" where
  "count_ptrs 0 s a = None"
| "count_ptrs (Suc n) s a = (if get_fs_long s a = 0 then Some 0 else map_option Suc (count_ptrs n s (a + 4)))"

definition count :: "u32 \<Rightarrow> nat K" where
  "count argv = (if argv = 0 then ret 0
     else bnd (gets (\<lambda>s. count_ptrs 4294967296 s argv)) (\<lambda>r. case r of None \<Rightarrow> stop Hung | Some n \<Rightarrow> ret n))"

text \<open>
  One byte of an argument, at offset \<open>p\<close> of the argument area; \<open>False\<close> when there is no page for it.
  An offset outside the area is outside the array \<open>page\<close>.
\<close>

definition put_arg_byte :: "u8 \<Rightarrow> u32 \<Rightarrow> pages \<Rightarrow> (pages \<times> bool) K" where
  "put_arg_byte v p page = (let k = unat p div 4096; off = of_nat (unat p mod 4096) in
     if k \<ge> MAX_ARG_PAGES then stop Wild
     else if page k \<noteq> 0 then seq (modify (put_byte (page k + off) v)) (ret (page, True))
     else bnd get_free_page (\<lambda>pg.
       if pg = 0 then ret (page, False)
       else seq (modify (put_byte (pg + off) v)) (ret (page(k := pg), True))))"

fun copy_bytes :: "u8 list \<Rightarrow> pages \<Rightarrow> u32 \<Rightarrow> (pages \<times> u32 option) K" where
  "copy_bytes [] page p = ret (page, Some p)"
| "copy_bytes (v # vs) page p = bnd (put_arg_byte v (p - 1) page) (\<lambda>(page', ok).
     if ok then copy_bytes vs page' (p - 1) else ret (page', None))"

text \<open>
  The strings from the last to the first, each from its zero byte down; \<open>fetch k\<close> gives the bytes
  of string \<open>k\<close>.  The test \<open>p - len < 0\<close> of the code is of an unsigned number and is never true.
\<close>

fun copy_args :: "nat \<Rightarrow> (nat \<Rightarrow> u8 list K) \<Rightarrow> pages \<Rightarrow> u32 \<Rightarrow> (pages \<times> u32) K" where
  "copy_args 0 fetch page p = ret (page, p)"
| "copy_args (Suc n) fetch page p = bnd (fetch n) (\<lambda>bs. bnd (copy_bytes (rev bs) page p) (\<lambda>(page', r). case r of
     None \<Rightarrow> ret (page', 0)
   | Some p' \<Rightarrow> copy_args n fetch page' p'))"

definition copy_strings :: "nat \<Rightarrow> (nat \<Rightarrow> u8 list K) \<Rightarrow> pages \<Rightarrow> u32 \<Rightarrow> (pages \<times> u32) K" where
  "copy_strings argc fetch page p = (if p = 0 then ret (page, 0) else copy_args argc fetch page p)"

text \<open>Where the strings are: \<open>from_kmem\<close> 0, 1 and 2.\<close>

definition user_string :: "u32 \<Rightarrow> u8 list K" where
  "user_string a = bnd (user_scan (\<lambda>c. c = 0) a) (\<lambda>n. gets (\<lambda>s. user_bytes s a (Suc n)))"

definition user_args :: "u32 \<Rightarrow> nat \<Rightarrow> u8 list K" where
  "user_args argv k = bnd (gets (\<lambda>s. get_fs_long s (argv + of_nat (4 * k)))) (\<lambda>a.
     if a = 0 then kpanic ''argc is wrong'' else user_string a)"

definition kernel_ptr :: "u32 \<Rightarrow> nat \<Rightarrow> u8 list K" where
  "kernel_ptr a k = (if a = 0 then kpanic ''argc is wrong'' else user_string a)"

definition kernel_string :: "u8 list \<Rightarrow> nat \<Rightarrow> u8 list K" where
  "kernel_string bs k = ret (bs @ [0])"

subsection \<open>The new address space\<close>

definition arg_space :: "(u32 \<Rightarrow> u8) \<Rightarrow> pages \<Rightarrow> kernel \<Rightarrow> u32 \<Rightarrow> u8" where
  "arg_space img page s a = (let q = unat a - (0x4000000 - 0x20000) in
     if 0x4000000 - 0x20000 \<le> unat a \<and> unat a < 0x4000000 \<and> page (q div 4096) \<noteq> 0
     then get_byte s (page (q div 4096) + of_nat (q mod 4096)) else img a)"

definition change_ldt :: "(u32 \<Rightarrow> u8) \<Rightarrow> u32 \<Rightarrow> pages \<Rightarrow> u32 K" where
  "change_ldt img text_size page = (let code_limit = (text_size + 4095) AND 0xFFFFF000; data_limit = 0x4000000 in
     bnd (gets (\<lambda>s. get_base (ldt (cur s) 1))) (\<lambda>base. seq (block
       [modify (\<lambda>s. upd_cur (\<lambda>t. t\<lparr>ldt := (ldt t)(1 := set_limit (set_base (ldt t 1) base) code_limit,
          2 := set_limit (set_base (ldt t 2) base) data_limit)\<rparr>) s),
        modify (\<lambda>s. s\<lparr>umem := arg_space img page s\<rparr>),
        for_each (rev [0..<MAX_ARG_PAGES]) (\<lambda>i. guardK (page i \<noteq> 0)
          (bnd (put_page (page i) (base + data_limit - 4096 * of_nat (MAX_ARG_PAGES - i))) (\<lambda>_. skip)))])
       (ret data_limit)))"

subsection \<open>The interpreter line of a script\<close>

definition is_blank :: "u8 \<Rightarrow> bool" where
  "is_blank c \<longleftrightarrow> c = 0x20 \<or> c = 0x09"

text \<open>The path of the interpreter, its last component, and its argument, if any.\<close>

definition bang_line :: "(nat \<Rightarrow> u8) \<Rightarrow> (u8 list \<times> u8 list \<times> u8 list option) option" where
  "bang_line d = (let buf = takeWhile (\<lambda>c. c \<noteq> 0) (bytes_of d 2 1022);
       line = dropWhile is_blank (takeWhile (\<lambda>c. c \<noteq> 10) buf)
     in if 10 \<notin> set buf \<or> line = [] then None
        else let interp = takeWhile (\<lambda>c. \<not> is_blank c) line; rest = dropWhile (\<lambda>c. \<not> is_blank c) line
          in Some (interp, rev (takeWhile (\<lambda>c. c \<noteq> 0x2F) (rev interp)), if rest = [] then None else Some (tl rest)))"

text \<open>\<open>namei\<close> of a name in the kernel's memory: the fs segment is the kernel's while it runs.\<close>

definition kernel_namei :: "u8 list \<Rightarrow> iptr option K" where
  "kernel_namei name = bnd (gets umem) (\<lambda>old. bnd (seq
     (modify (\<lambda>s. s\<lparr>umem := (\<lambda>a. if unat a < length name then name ! unat a else 0)\<rparr>)) (namei 0)) (\<lambda>r. seq
     (modify (\<lambda>s. s\<lparr>umem := old\<rparr>)) (ret r)))"

subsection \<open>do_execve\<close>

type_synonym exec_result = "int \<times> (u32 \<times> u32) option"

definition exec_error1 :: "pages \<Rightarrow> int \<Rightarrow> exec_result K" where
  "exec_error1 page e = seq (for_each [0..<MAX_ARG_PAGES] (\<lambda>i. free_page (page i))) (ret (e, None))"

definition exec_error2 :: "iptr \<Rightarrow> pages \<Rightarrow> int \<Rightarrow> exec_result K" where
  "exec_error2 i page e = seq (iput (Some i)) (exec_error1 page e)"

definition S_ISUID :: u16 where [kconst]: "S_ISUID = 0x800"
definition S_ISGID :: u16 where [kconst]: "S_ISGID = 0x400"

definition exec_ids :: "kernel \<Rightarrow> m_inode \<Rightarrow> u16 \<times> u16" where
  "exec_ids s x = (if i_mode x AND S_ISUID \<noteq> 0 then i_uid x else euid (cur s),
     if i_mode x AND S_ISGID \<noteq> 0 then ucast (i_gid x) else egid (cur s))"

definition may_exec :: "kernel \<Rightarrow> m_inode \<Rightarrow> bool" where
  "may_exec s x = (let i = (if euid (cur s) = i_uid x then drop_bit 6 (i_mode x)
       else if egid (cur s) = ucast (i_gid x) then drop_bit 3 (i_mode x) else i_mode x)
     in i AND 1 \<noteq> 0 \<or> i_mode x AND 0x49 \<noteq> 0 \<and> suser s)"

definition bad_exec :: "exec \<Rightarrow> u32 \<Rightarrow> bool" where
  "bad_exec ex isize \<longleftrightarrow> a_magic ex \<noteq> ZMAGIC \<or> a_trsize ex \<noteq> 0 \<or> a_drsize ex \<noteq> 0 \<or>
     a_text ex + a_data ex + a_bss ex > 0x3000000 \<or> isize < a_text ex + a_data ex + a_syms ex + N_TXTOFF ex \<or>
     N_TXTOFF ex \<noteq> 1024"

text \<open>The point of no return: the old program goes and the new one gets its memory and stack.\<close>

definition exec_run :: "(u32 \<Rightarrow> u8) \<Rightarrow> iptr \<Rightarrow> exec \<Rightarrow> u16 \<times> u16 \<Rightarrow> pages \<Rightarrow> u32 \<Rightarrow> nat \<Rightarrow> nat \<Rightarrow> exec_result K" where
  "exec_run img i ex ids page p argc envc = seq (block
     [bnd (gets (\<lambda>s. executable (cur s))) (\<lambda>old. guardK (old \<noteq> None) (iput old)),
      modify (\<lambda>s. upd_cur (\<lambda>t. t\<lparr>executable := Some i,
        sigaction := (\<lambda>k. if k < 32 then (sigaction t k)\<lparr>sa_handler := 0\<rparr> else sigaction t k)\<rparr>) s),
      for_each [0..<NR_OPEN] (\<lambda>k. bnd (gets (\<lambda>s. bit (close_on_exec (cur s)) k)) (\<lambda>c.
        guardK c (bnd (sys_close (of_nat k)) (\<lambda>_. skip)))),
      modify (\<lambda>s. upd_cur (\<lambda>t. t\<lparr>close_on_exec := 0\<rparr>) s),
      bnd (gets (\<lambda>s. ldt (cur s) 1)) (\<lambda>d. bnd (free_page_tables (get_base d) (get_limit d)) (\<lambda>_. skip)),
      bnd (gets (\<lambda>s. ldt (cur s) 2)) (\<lambda>d. bnd (free_page_tables (get_base d) (get_limit d)) (\<lambda>_. skip)),
      modify (\<lambda>s. if last_task_used_math s = Some (current s) then s\<lparr>last_task_used_math := None\<rparr> else s),
      modify (\<lambda>s. upd_cur (\<lambda>t. t\<lparr>used_math := 0\<rparr>) s)])
     (bnd (change_ldt img (a_text ex) page) (\<lambda>lim.
       bnd (create_tables (p + (lim - of_nat (MAX_ARG_PAGES * 4096))) argc envc) (\<lambda>sp. seq (block
         [modify (\<lambda>s. upd_cur (\<lambda>t. t\<lparr>end_code := a_text ex, end_data := a_data ex + a_text ex,
            brk := a_bss ex + (a_data ex + a_text ex), start_stack := sp AND 0xfffff000,
            euid := fst ids, egid := snd ids\<rparr>) s),
          let e = a_text ex + a_data ex in
          for_each [0..<(4096 - unat e mod 4096) mod 4096] (\<lambda>k. modify (put_fs_byte 0 (e + of_nat k)))])
         (ret (0, Some (a_entry ex, sp))))))"

text \<open>
  From \<open>restart_interp\<close> on: \<open>tries\<close> is 1 before an interpreter line has been taken and 0 after,
  when \<open>sh_bang\<close> is set.  A script copies the environment and all arguments but the first, then
  the name of the script, the argument of the interpreter and its name.
\<close>

definition script_args :: "u32 \<Rightarrow> u32 \<Rightarrow> u32 \<Rightarrow> u8 list \<Rightarrow> u8 list option \<Rightarrow> int \<Rightarrow> nat \<Rightarrow> pages \<Rightarrow> u32 \<Rightarrow>
    (pages \<times> u32 \<times> int) K" where
  "script_args filename argv envp iname iarg argc envc page p =
     bnd (copy_strings envc (user_args envp) page p) (\<lambda>(page, p).
     bnd (copy_strings (nat (argc - 1)) (user_args (argv + 4)) page p) (\<lambda>(page, p).
     bnd (copy_strings 1 (kernel_ptr filename) page p) (\<lambda>(page, p).
     bnd (case iarg of None \<Rightarrow> ret (page, p) | Some a \<Rightarrow> copy_strings 1 (kernel_string a) page p) (\<lambda>(page, p).
     bnd (copy_strings 1 (kernel_string iname) page p) (\<lambda>(page, p).
       ret (page, p, argc - 1 + 2 + (if iarg = None then 0 else 1)))))))"

fun exec_image :: "nat \<Rightarrow> (u32 \<Rightarrow> u8) \<Rightarrow> u32 \<Rightarrow> u32 \<Rightarrow> u32 \<Rightarrow> iptr \<Rightarrow> int \<Rightarrow> nat \<Rightarrow> pages \<Rightarrow> u32 \<Rightarrow> exec_result K" where
  "exec_image tries img filename argv envp i argc envc page p =
     bnd (gets (\<lambda>s. (inode_table s i, s))) (\<lambda>(x, s0).
       if \<not> S_ISREG (i_mode x) then exec_error2 i page (- EACCES)
       else if \<not> may_exec s0 x then exec_error2 i page (- ENOEXEC)
       else bnd (bread (i_dev x) (ucast (i_zone x 0))) (\<lambda>r. case r of
         None \<Rightarrow> exec_error2 i page (- EACCES)
       | Some b \<Rightarrow> bnd (gets (\<lambda>s. b_data (bufs s b))) (\<lambda>d.
           if d 0 = 0x23 \<and> d 1 = 0x21 \<and> tries \<noteq> 0
           then seq (block [brelse (Some b), iput (Some i)])
             (case bang_line d of
               None \<Rightarrow> exec_error1 page (- ENOEXEC)
             | Some (interp, iname, iarg) \<Rightarrow>
                 bnd (script_args filename argv envp iname iarg argc envc page p) (\<lambda>(page, p, argc).
                   if p = 0 then exec_error1 page (- ENOMEM)
                   else bnd (kernel_namei interp) (\<lambda>r. case r of
                     None \<Rightarrow> exec_error1 page (- ENOENT)
                   | Some i' \<Rightarrow> (case tries of
                       0 \<Rightarrow> stop Hung
                     | Suc n \<Rightarrow> exec_image n img filename argv envp i' argc envc page p))))
           else seq (brelse (Some b))
             (bnd (gets (\<lambda>s. i_size (inode_table s i))) (\<lambda>isize.
               let ex = exec_header d in
               if bad_exec ex isize then exec_error2 i page (- ENOEXEC)
               else bnd (if tries \<noteq> 0
                         then bnd (copy_strings envc (user_args envp) page p) (\<lambda>(page, p).
                                copy_strings (nat argc) (user_args argv) page p)
                         else ret (page, p)) (\<lambda>(page, p).
                 if p = 0 \<and> tries \<noteq> 0 then exec_error2 i page (- ENOMEM)
                 else exec_run img i ex (exec_ids s0 x) page p (nat argc) envc))))))"

definition do_execve :: "(u32 \<Rightarrow> u8) \<Rightarrow> u32 \<Rightarrow> u32 \<Rightarrow> u32 \<Rightarrow> u32 \<Rightarrow> exec_result K" where
  "do_execve img cs filename argv envp =
     (if 0xffff AND cs \<noteq> 0x000f then kpanic ''execve called from supervisor mode''
      else bnd (namei filename) (\<lambda>r. case r of
        None \<Rightarrow> ret (- ENOENT, None)
      | Some i \<Rightarrow> bnd (count argv) (\<lambda>argc. bnd (count envp) (\<lambda>envc.
          exec_image 1 img filename argv envp i (int argc) envc (\<lambda>_. 0) (of_nat (4096 * MAX_ARG_PAGES - 4))))))"

end
