(* ===== verification/Setup.thy ===== *)
theory Setup
  imports Mktime Files Cacheframe Paging
begin

unbundle bit_operations_syntax

text \<open>
  Starting the system: \<open>sys_setup\<close> of kernel/blk_drv/hd.c, \<open>rd_load\<close> of kernel/blk_drv/ramdisk.c,
  \<open>sched_init\<close> of kernel/sched.c and \<open>main\<close> of init/main.c up to the move to user mode.  Descriptor
  tables and interrupt gates are processor state; they are in Traps.  Messages are not modelled.
\<close>

subsection \<open>Loading the ram disk (kernel/blk_drv/ramdisk.c)\<close>

text \<open>
  The blocks of the image, one after the other: \<open>left\<close> are still to come, the next one is block
  \<open>blk\<close> of the root device and goes to the offset \<open>at\<close>; \<open>False\<close> when one cannot be read.  A store
  outside the memory of the disk leaves the model.
\<close>

fun rd_copy :: "nat \<Rightarrow> u32 \<Rightarrow> nat \<Rightarrow> bool K" where
  "rd_copy 0 blk at = ret True"
| "rd_copy (Suc left) blk at = bnd (gets ROOT_DEV) (\<lambda>dev.
     bnd (if left \<ge> 2 then breada dev blk [blk + 1, blk + 2] else bread dev blk) (\<lambda>r. case r of
       None \<Rightarrow> ret False
     | Some b \<Rightarrow> bnd (gets (\<lambda>s. unat (rd_length s))) (\<lambda>len.
         if at + 1024 > len then stop Wild
         else seq (block
           [modify (\<lambda>s. s\<lparr>rd_mem := store_bytes (rd_mem s) at (bytes_of (b_data (bufs s b)) 0 1024)\<rparr>),
            brelse (Some b)]) (rd_copy left (blk + 1) (at + 1024)))))"

text \<open>\<open>s_nzones << s_log_zone_size\<close>: the processor takes the shift count modulo 32.\<close>

definition rd_blocks :: "super_block \<Rightarrow> u32" where
  "rd_blocks x = push_bit (unat (s_log_zone_size x) mod 32) (ucast (s_nzones x))"

definition rd_load :: "unit K" where
  "rd_load = bnd (gets (\<lambda>s. (rd_length s, ROOT_DEV s))) (\<lambda>(len, root).
     if len = 0 \<or> MAJOR root \<noteq> 2 then skip
     else bnd (breada root 257 [256, 258]) (\<lambda>r. case r of
       None \<Rightarrow> skip
     | Some b \<Rightarrow> bnd (gets (\<lambda>s. load_d_super (b_data (bufs s b)) blank_super_block)) (\<lambda>x. seq (brelse (Some b))
         (if s_magic x \<noteq> SUPER_MAGIC \<or> sint (rd_blocks x) > sint len div 1024 then skip
          else bnd (rd_copy (unat (rd_blocks x)) 256 0) (\<lambda>ok.
            guardK ok (modify (\<lambda>s. s\<lparr>ROOT_DEV := 0x0101\<rparr>)))))))"

subsection \<open>Setting up the hard disks (kernel/blk_drv/hd.c)\<close>

definition bios_byte :: "kernel \<Rightarrow> u32 \<Rightarrow> u32" where
  "bios_byte s a = ucast (get_byte s a)"

definition bios_word :: "kernel \<Rightarrow> u32 \<Rightarrow> u32" where
  "bios_word s a = bios_byte s a OR push_bit 8 (bios_byte s (a + 1))"

definition bios_drive :: "kernel \<Rightarrow> u32 \<Rightarrow> hd_i_struct" where
  "bios_drive s a = \<lparr>hd_head = bios_byte s (a + 2), hd_sect = bios_byte s (a + 14), hd_cyl = bios_word s a,
     hd_wpcom = bios_word s (a + 5), hd_lzone = bios_word s (a + 12), hd_ctl = bios_byte s (a + 8)\<rparr>"

text \<open>Entry 0 of a drive is the whole disk.\<close>

definition whole_disk :: "nat \<Rightarrow> kernel \<Rightarrow> kernel" where
  "whole_disk i s = s\<lparr>hd := (hd s)(i * 5 := \<lparr>start_sect = 0,
     nr_sects = hd_head (hd_info s i) * hd_sect (hd_info s i) * hd_cyl (hd_info s i)\<rparr>)\<rparr>"

definition no_disk :: "nat \<Rightarrow> kernel \<Rightarrow> kernel" where
  "no_disk i s = s\<lparr>hd := (hd s)(i * 5 := \<lparr>start_sect = 0, nr_sects = 0\<rparr>)\<rparr>"

definition drive_count :: "int \<Rightarrow> nat" where
  "drive_count v = (if v AND 0xf0 \<noteq> 0 then if v AND 0x0f \<noteq> 0 then 2 else 1 else 0)"

text \<open>\<open>struct partition\<close> of include/linux/hdreg.h: the sectors are at 8 and 12 of its 16 bytes.\<close>

definition partition_entry :: "(nat \<Rightarrow> u8) \<Rightarrow> nat \<Rightarrow> hd_struct" where
  "partition_entry d i = \<lparr>start_sect = get32 d (0x1BE + 16 * (i - 1) + 8), nr_sects = get32 d (0x1BE + 16 * (i - 1) + 12)\<rparr>"

definition set_partitions :: "nat \<Rightarrow> (nat \<Rightarrow> u8) \<Rightarrow> kernel \<Rightarrow> kernel" where
  "set_partitions drive d s =
     s\<lparr>hd := (\<lambda>k. if 5 * drive < k \<and> k < 5 * drive + 5 then partition_entry d (k - 5 * drive) else hd s k)\<rparr>"

definition read_partitions :: "nat \<Rightarrow> unit K" where
  "read_partitions drive = bnd (bread (0x300 + of_nat (drive * 5)) 0) (\<lambda>r. case r of
     None \<Rightarrow> kpanic ''''
   | Some b \<Rightarrow> bnd (gets (\<lambda>s. b_data (bufs s b))) (\<lambda>d.
       if d 510 \<noteq> 0x55 \<or> d 511 \<noteq> 0xAA then kpanic ''''
       else block [modify (set_partitions drive d), brelse (Some b)]))"

definition find_drives :: "u32 \<Rightarrow> unit K" where
  "find_drives BIOS = block
     [modify (\<lambda>s. s\<lparr>hd_info := (hd_info s)(0 := bios_drive s BIOS, 1 := bios_drive s (BIOS + 16))\<rparr>),
      modify (\<lambda>s. s\<lparr>NR_HD := if hd_cyl (hd_info s 1) \<noteq> 0 then 2 else 1\<rparr>),
      bnd (gets NR_HD) (\<lambda>n. for_each [0..<n] (\<lambda>i. modify (whole_disk i))),
      bnd (CMOS_READ 0x12) (\<lambda>v. modify (\<lambda>s. s\<lparr>NR_HD := drive_count v\<rparr>)),
      bnd (gets NR_HD) (\<lambda>n. for_each [n..<2] (\<lambda>i. modify (no_disk i)))]"

definition sys_setup :: "u32 \<Rightarrow> int K" where
  "sys_setup BIOS = bnd (gets setup_callable) (\<lambda>c.
     if c = 0 then ret (- 1)
     else seq (block
       [modify (\<lambda>s. s\<lparr>setup_callable := 0\<rparr>),
        find_drives BIOS,
        bnd (gets NR_HD) (\<lambda>n. for_each [0..<n] read_partitions),
        rd_load,
        mount_root]) (ret 0))"

subsection \<open>The scheduler (kernel/sched.c)\<close>

definition LATCH :: u32 where [kconst]: "LATCH = 1193180 div 100"

definition sched_init :: "unit K" where
  "sched_init = block
     [for_each [1..<NR_TASKS] (\<lambda>i. modify (\<lambda>s. s\<lparr>task := (task s)(i := None)\<rparr>)),
      outb 0x36 0x43,
      outb (ucast (LATCH AND 0xff)) 0x40,
      outb (ucast (drop_bit 8 LATCH)) 0x40,
      bnd (inb 0x21) (\<lambda>v. outb (v AND NOT 0x01) 0x21)]"

subsection \<open>The start (init/main.c)\<close>

definition EXT_MEM_K :: "kernel \<Rightarrow> u32" where
  "EXT_MEM_K s = bios_word s 0x90002"

definition ORIG_ROOT_DEV :: "kernel \<Rightarrow> u16" where
  "ORIG_ROOT_DEV s = ucast (bios_word s 0x901FC)"

definition memory_end :: "u32 \<Rightarrow> u32" where
  "memory_end ext = (let e = (0x100000 + push_bit 10 ext) AND 0xfffff000 in if e > 0x1000000 then 0x1000000 else e)"

definition buffer_memory_end :: "u32 \<Rightarrow> u32" where
  "buffer_memory_end m = (if m > 0xC00000 then 0x400000 else if m > 0x600000 then 0x200000 else 0x100000)"

text \<open>
  \<open>main\<close> up to \<open>sti()\<close>: \<open>drive_info\<close> is where the linker puts that array, \<open>ramdisk\<close> the macro RAMDISK
  (in KB, if it is defined) and \<open>n\<close> bounds the rounds of reading the clock.  \<open>trap_init\<close> is in
  Traps and \<open>chr_dev_init\<close> is empty.
\<close>

definition main_init :: "u32 \<Rightarrow> u32 option \<Rightarrow> nat \<Rightarrow> unit K" where
  "main_init drive_info ramdisk n = seq (block
     [modify (\<lambda>s. s\<lparr>ROOT_DEV := ORIG_ROOT_DEV s\<rparr>),
      modify (\<lambda>s. fold (\<lambda>k. put_byte (drive_info + of_nat k) (get_byte s (0x90080 + of_nat k))) [0..<32] s)])
     (bnd (gets (\<lambda>s. memory_end (EXT_MEM_K s))) (\<lambda>mend. let bend = buffer_memory_end mend in
       bnd (case ramdisk of None \<Rightarrow> ret bend | Some k \<Rightarrow> bnd (rd_init bend (k * 1024)) (\<lambda>len. ret (bend + len)))
       (\<lambda>mstart. block
         [mem_init (sint mstart) (sint mend),
          blk_dev_init,
          tty_init,
          time_init n,
          sched_init,
          buffer_init bend,
          hd_init,
          floppy_init])))"


subsection \<open>The state at the start\<close>

text \<open>
  What boot/head.s and the boot loader leave: no user page tables, the table of the first
  megabyte in frame 1, no buffers yet, and the kernel's data between 0x5000 and 0x90000.
\<close>

definition loaded :: "u32 \<Rightarrow> kernel \<Rightarrow> bool" where
  "loaded drive_info s \<longleftrightarrow> (\<forall>i\<in>udirs. \<not> present (entry s (Dir i))) \<and> frame (phys s 0) = 1 \<and>
     (\<forall>k<160. frame (phys s (0x1000 + 4 * of_nat k)) < 256) \<and>
     0x5000 \<le> unat drive_info \<and> unat drive_info + 32 \<le> 0x90000 \<and> NR_BUFFERS s = 0 \<and> unat (start_buffer s) \<le> 0x90000"

lemma fold_put_byte_phys: "\<exists>p. fold (\<lambda>k. put_byte (a k) (v k)) ks s = s\<lparr>phys := p\<rparr>"
proof (induction ks rule: rev_induct)
  case Nil
  show ?case by (rule exI [of _ "phys s"]) simp
next
  case (snoc k ks)
  then show ?case by (auto simp: put_byte_def Let_def)
qed

lemma fold_put_byte_other:
  "b \<notin> a ` set ks \<Longrightarrow> get_byte (fold (\<lambda>k. put_byte (a k) (v k)) ks s) b = get_byte s b"
  by (induction ks rule: rev_induct) (auto simp: get_put_byte)

lemma fold_put_byte_word:
  "b \<notin> (\<lambda>k. a k AND NOT 3) ` set ks \<Longrightarrow> phys (fold (\<lambda>k. put_byte (a k) (v k)) ks s) b = phys s b"
  by (induction ks rule: rev_induct) (auto simp: put_byte_def Let_def)

lemma fold_set_map:
  "fold (\<lambda>i. set_map i v) ixs s = s\<lparr>mem_map := (\<lambda>i. if i \<in> set ixs then v else mem_map s i)\<rparr>"
  by (induction ixs arbitrary: s) (auto simp: set_map_def fun_eq_iff)

lemma for_each_checked:
  "\<forall>i\<in>set ixs. P i \<Longrightarrow> for_each ixs (\<lambda>i. if P i then modify (f i) else stop Wild) s es = Ret () (fold f ixs s) es"
  by (induction ixs arbitrary: s) (simp_all add: krun)

lemma mem_init_run:
  fixes b e :: u32
  assumes "0x100000 \<le> unat b" "unat b \<le> unat e" "unat e \<le> 0x1000000"
  shows "mem_init (sint b) (sint e) s es = Ret () (s\<lparr>HIGH_MEMORY := e, mem_map := (\<lambda>i.
    if MAP_NR b \<le> i \<and> i < MAP_NR b + (unat e - unat b) div 4096 then 0
    else if i < PAGING_PAGES then USED else mem_map s i)\<rparr>) es"
proof -
  have i: "sint x = int (unat x)" if "unat x \<le> 0x1000000" for x :: u32
  proof -
    have "int (unat x) \<le> 0x1000000" using that by linarith
    then have "0 \<le> uint x" "uint x < 2 ^ 31" by simp_all
    then have "signed_take_bit 31 (uint x) = uint x" by (intro signed_take_bit_int_eq_self) linarith+
    then show ?thesis by (simp add: sint_uint)
  qed
  have n: "nat ((sint e - sint b) div 4096) = (unat e - unat b) div 4096"
  proof -
    have *: "sint e - sint b = int (unat e - unat b)"
      using assms i [of b] i [of e] by (simp only: of_nat_diff)
    have "(sint e - sint b) div 4096 = int ((unat e - unat b) div 4096)" unfolding * zdiv_int by (simp only: of_nat_numeral)
    then show ?thesis by (simp only: nat_int)
  qed
  have m: "MAP_NR b = (unat b - 0x100000) div 4096"
    using assms(1) by (simp add: MAP_NR_def LOW_MEM_def drop_bit_eq_div unat_div unat_sub word_le_nat_alt)
  have le: "MAP_NR b + (unat e - unat b) div 4096 \<le> PAGING_PAGES"
  proof -
    have "MAP_NR b + (unat e - unat b) div 4096 \<le> ((unat b - 0x100000) + (unat e - unat b)) div 4096"
      unfolding m using div_add1_eq [of "unat b - 0x100000" "unat e - unat b" 4096] by linarith
    also have "\<dots> \<le> (0x1000000 - 0x100000) div 4096" by (rule div_le_mono) (use assms in linarith)
    finally show ?thesis by (simp add: PAGING_PAGES_def)
  qed
  show ?thesis
    using le unfolding mem_init_def Let_def n of_int_sint
    by (simp add: krun for_each_checked fold_set_map) (auto simp: fun_eq_iff)
qed

lemma bios_word_less: "unat (bios_word s a) < 65536"
proof -
  have "bios_word s a = take_bit 16 (bios_word s a)"
    by (rule bit_word_eqI) (auto simp: bios_word_def bios_byte_def bit_simps dest: bit_imp_le_length)
  then have "unat (bios_word s a) = take_bit 16 (unat (bios_word s a))" by (metis unsigned_take_bit_eq)
  also have "\<dots> < 2 ^ 16" by (rule take_bit_nat_less_exp)
  finally show ?thesis by simp
qed

lemma memory_layout:
  assumes "unat ext < 65536"
  defines "e \<equiv> unat (memory_end ext)" and "b \<equiv> unat (buffer_memory_end (memory_end ext))"
  shows "0x100000 \<le> b" "b \<le> e" "e \<le> 0x1000000" "b mod 4096 = 0" "e mod 4096 = 0"
proof -
  let ?w = "(0x100000 + push_bit 10 ext) AND 0xfffff000"
  have "unat (0x100000 + push_bit 10 ext) = 0x100000 + 1024 * unat ext"
    using assms(1) by (simp add: push_bit_eq_mult unat_word_ariths)
  then have w: "unat ?w = (0x100000 + 1024 * unat ext) div 4096 * 4096" by (simp add: unat_page frame_def)
  then have w': "0x100000 \<le> unat ?w" "unat ?w mod 4096 = 0"
    using div_le_mono [of "0x100000" "0x100000 + 1024 * unat ext" "4096"] by simp_all
  have e: "e = (if 0x1000000 < unat ?w then 0x1000000 else unat ?w)"
    by (simp add: e_def memory_end_def Let_def word_less_nat_alt)
  have b: "b = (if 0xC00000 < e then 0x400000 else if 0x600000 < e then 0x200000 else 0x100000)"
    by (simp add: b_def e_def buffer_memory_end_def word_less_nat_alt)
  show "0x100000 \<le> b" "b \<le> e" "e \<le> 0x1000000" "b mod 4096 = 0" "e mod 4096 = 0"
    using w' by (auto simp: b e)
qed

lemma tty_init_run: "\<exists>c l. tty_init s es = Ret () (s\<lparr>con := c, io_log := l, io_reads := io_reads s + 5\<rparr>) es"
  by (simp add: tty_init_def rs_init_def rs_init_port_def con_init_def krun inb_def outb_def upd_con_def)
    (intro exI, rule kernel.equality, simp_all)

lemma sched_init_run: "\<exists>l. sched_init s es = Ret () (s\<lparr>task := (\<lambda>i. if 1 \<le> i \<and> i < NR_TASKS then None else task s i),
    io_log := l, io_reads := io_reads s + 1\<rparr>) es"
proof -
  have f: "fold (\<lambda>i s. s\<lparr>task := (task s)(i := None)\<rparr>) ixs s = s\<lparr>task := (\<lambda>i. if i \<in> set ixs then None else task s i)\<rparr>" for ixs
    by (induction ixs arbitrary: s) (auto simp: fun_eq_iff)
  show ?thesis by (simp add: sched_init_def krun inb_def outb_def f)
    (intro exI, rule kernel.equality, simp_all)
qed

lemma clock_shows_cong:
  "hw_inb s' = hw_inb s \<Longrightarrow> io_reads s' = io_reads s + 5 \<Longrightarrow> clock_shows t s' = clock_shows t (s\<lparr>io_reads := io_reads s + 5\<rparr>)"
  by (simp add: clock_shows_def)

lemma unat_align: "unat ((a :: u32) AND NOT 3) = unat a div 4 * 4"
proof -
  have "a AND NOT 3 = push_bit 2 (drop_bit 2 a)"
  proof (rule bit_word_eqI)
    fix n assume "n < LENGTH(32)"
    moreover have "2 \<le> n \<Longrightarrow> Suc (Suc (n - 2)) = n" by simp
    ultimately show "bit (a AND NOT 3) n = bit (push_bit 2 (drop_bit 2 a)) n"
      using bit_mask_iff [of 2 n, where 'a = u32] by (auto simp: mask_eq_exp_minus_1 bit_simps)
  qed
  moreover have "unat (drop_bit 2 a) = unat a div 4" by (simp add: drop_bit_eq_div unat_div)
  moreover have "unat a div 4 * 4 < 4294967296" using unat_u32_less [of a] by linarith
  ultimately show ?thesis by (simp add: push_bit_eq_mult unat_word_ariths mult.commute)
qed

text \<open>The drive table is copied to where no page table and no boot parameter is.\<close>

lemma copied_drive_info:
  assumes "0x5000 \<le> unat a" "unat a + 32 \<le> 0x90000"
  defines "s' v s \<equiv> fold (\<lambda>k. put_byte (a + of_nat k) (v k)) [0..<32] s"
  shows "unat b < 0x5000 \<Longrightarrow> phys (s' v s) b = phys s b" "0x90000 \<le> unat b \<Longrightarrow> get_byte (s' v s) b = get_byte s b"
proof -
  have u: "unat (a + of_nat k) = unat a + k" if "k < 32" for k
    using that assms(2) by (simp add: unat_word_ariths unat_of_nat)
  have al: "0x5000 \<le> unat ((a + of_nat k) AND NOT 3)" if "k < 32" for k
    using div_le_mono [of "0x5000" "unat a + k" "4"] assms(1) unfolding unat_align u [OF that] by simp
  show "phys (s' v s) b = phys s b" if "unat b < 0x5000"
    unfolding s'_def by (rule fold_put_byte_word) (use al that in fastforce)
  show "get_byte (s' v s) b = get_byte s b" if "0x90000 \<le> unat b"
    unfolding s'_def by (rule fold_put_byte_other) (use u that assms(2) in fastforce)
qed

lemma blk_dev_init_run: "\<exists>r. blk_dev_init s es = Ret () (s\<lparr>requests := r\<rparr>) es \<and> (\<forall>i<NR_REQUEST. r_dev (r i) = - 1)"
proof -
  have "fold (\<lambda>i. upd_req i (\<lambda>q. q\<lparr>r_dev := - 1, r_next := None\<rparr>)) ixs s =
    s\<lparr>requests := (\<lambda>i. if i \<in> set ixs then (requests s i)\<lparr>r_dev := - 1, r_next := None\<rparr> else requests s i)\<rparr>" for ixs
    by (induction ixs arbitrary: s) (auto simp: upd_req_def fun_eq_iff)
  then show ?thesis by (auto simp: blk_dev_init_def krun)
qed

lemma drivers_run: "\<exists>l. block [hd_init, floppy_init] s es = Ret () (s\<lparr>blk_dev := (blk_dev s)(
    3 := (blk_dev s 3)\<lparr>request_fn := Some Do_hd_request\<rparr>, 2 := (blk_dev s 2)\<lparr>request_fn := Some Do_fd_request\<rparr>),
    io_log := l, io_reads := io_reads s + 3\<rparr>) es"
  by (simp add: hd_init_def floppy_init_def krun inb_def outb_def set_request_fn_def)
    (intro exI, rule kernel.equality, simp_all)

text \<open>Which pages \<open>mem_init\<close> frees: those between the buffer memory and the end of the memory.\<close>

lemma free_range:
  assumes "0x100000 \<le> unat (b :: u32)" "unat b \<le> e" "unat b mod 4096 = 0" "e mod 4096 = 0"
  shows "MAP_NR b \<le> i \<and> i < MAP_NR b + (e - unat b) div 4096 \<longleftrightarrow>
    unat b \<le> 0x100000 + 4096 * i \<and> 0x100000 + 4096 * i + 4096 \<le> e"
proof -
  have m: "MAP_NR b = (unat b - 0x100000) div 4096"
    using assms(1) by (simp add: MAP_NR_def LOW_MEM_def drop_bit_eq_div unat_div unat_sub word_le_nat_alt)
  obtain p q where pq: "unat b = 4096 * p" "e = 4096 * q" using assms(3,4) by (metis mod_0_imp_dvd dvdE)
  have p: "256 \<le> p" using assms(1) unfolding pq by simp
  have "unat b - 0x100000 = 4096 * (p - 256)" unfolding pq by simp
  moreover have "e - unat b = 4096 * (q - p)" unfolding pq by (simp only: diff_mult_distrib2)
  ultimately have "MAP_NR b = p - 256" "(e - unat b) div 4096 = q - p" unfolding m by simp_all
  then show ?thesis using assms(2) p unfolding pq by auto
qed

lemma vm_boot_cong:
  assumes "loaded d s" "\<And>a. unat a < 0x5000 \<Longrightarrow> phys s' a = phys s a" "\<forall>i<PAGING_PAGES. mem_map s' i = 0 \<or> mem_map s' i = USED"
  shows "vm_boot s'"
proof -
  have t: "table_of (phys s 0) = 0x1000"
    using assms(1) unat_page [of "phys s 0"] by (simp add: loaded_def word_unat_eq_iff)
  have "phys s' (4 * of_nat i) = phys s (4 * of_nat i)" if "i < 1024" for i
    using that by (intro assms(2)) (simp add: unat_word_ariths unat_of_nat)
  then have "entry s' (Dir i) = entry s (Dir i)" if "i \<in> udirs" for i
    using that by (simp add: entry_def loc_addr.simps udirs_def)
  moreover have "phys s' 0 = phys s 0" by (rule assms(2)) simp
  moreover have "phys s' (0x1000 + 4 * of_nat k) = phys s (0x1000 + 4 * of_nat k)" if "k < 160" for k
    using that by (intro assms(2)) (simp add: unat_word_ariths unat_of_nat)
  ultimately show ?thesis
    using assms(1,3) by (simp add: vm_boot_def low_ok_def loaded_def t)
qed

lemma buffer_init_shape:
  assumes "NR_BUFFERS s = 0" "unat (start_buffer s) \<le> 0x90000" "0x100000 \<le> e" "unat e mod 1024 = 0"
  shows "\<exists>b n h. buffer_init e s es = Ret () (s\<lparr>bufs := b, NR_BUFFERS := n, free_list := 0, hash_table := h\<rparr>) es \<and>
    cache_ok (s\<lparr>bufs := b, NR_BUFFERS := n, free_list := 0, hash_table := h\<rparr>) \<and> (\<forall>i<n. unat (b_addr (b i)) + 1024 \<le> unat e)"
proof -
  obtain s' where s': "buffer_init e s es = Ret () s' es" "cache_ok s'"
      "\<forall>i<NR_BUFFERS s'. unat (b_addr (bufs s' i)) + 1024 \<le> unat e"
    and "\<exists>b n h. s' = s\<lparr>bufs := b, NR_BUFFERS := n, free_list := 0, hash_table := h\<rparr>"
    using buffer_init_run [OF assms, of es] by blast
  then obtain b n h where "s' = s\<lparr>bufs := b, NR_BUFFERS := n, free_list := 0, hash_table := h\<rparr>" by blast
  then show ?thesis using s' by (intro exI [of _ b] exI [of _ n] exI [of _ h]) simp
qed

text \<open>
  C17. From the state that boot/head.s leaves, with a clock that shows a valid date, \<open>main\<close> (without a
  ram disk) reaches \<open>sti()\<close>.  The memory is laid out as kernel, buffers and pages: the buffer memory
  ends between 1 MB and the end of the memory, at most 16 MB; every buffer lies below that end, and
  the free pages are exactly the pages above it.  The invariants of the components hold: the state
  is a start state of the memory manager (so all the theorems on reachable memory states apply), the
  buffer cache is in order, no request is in use, no task but the first exists, the drivers are
  installed and \<open>startup_time\<close> is the date shown.
\<close>

lemma boot_establishes:
  assumes "loaded drive_info s" "clock_shows t (s\<lparr>io_reads := io_reads s + 5\<rparr>)" "valid_tm t"
    "70 \<le> tm_year t" "tm_year t \<le> 99" "0 < n"
  shows "\<exists>s'. main_init drive_info None n s es = Ret () s' es \<and>
    vm_reachable s' \<and> cache_ok s' \<and> startup_time s' = epoch_seconds t \<and> ROOT_DEV s' = ORIG_ROOT_DEV s \<and>
    (\<forall>i<NR_REQUEST. r_dev (requests s' i) = - 1) \<and> (\<forall>i. 0 < i \<and> i < NR_TASKS \<longrightarrow> task s' i = None) \<and>
    request_fn (blk_dev s' 2) = Some Do_fd_request \<and> request_fn (blk_dev s' 3) = Some Do_hd_request \<and>
    (let mend = unat (memory_end (EXT_MEM_K s)); bend = unat (buffer_memory_end (memory_end (EXT_MEM_K s))) in
      0x100000 \<le> bend \<and> bend \<le> mend \<and> mend \<le> 0x1000000 \<and>
      (\<forall>i<NR_BUFFERS s'. unat (b_addr (bufs s' i)) + 1024 \<le> bend) \<and>
      (\<forall>i<PAGING_PAGES. mem_map s' i = 0 \<longleftrightarrow> bend \<le> 0x100000 + 4096 * i \<and> 0x100000 + 4096 * i + 4096 \<le> mend))"
proof -
  let ?m = "memory_end (EXT_MEM_K s)"
  let ?b = "buffer_memory_end ?m"
  note lay = memory_layout [OF bios_word_less [of s "0x90002"], folded EXT_MEM_K_def]
  have d: "0x5000 \<le> unat drive_info" "unat drive_info + 32 \<le> 0x90000" using assms(1) by (simp_all add: loaded_def)
  let ?s0 = "s\<lparr>ROOT_DEV := ORIG_ROOT_DEV s\<rparr>"
  let ?s1 = "fold (\<lambda>k. put_byte (drive_info + of_nat k) (get_byte ?s0 (0x90080 + of_nat k))) [0..<32] ?s0"
  obtain p where s1: "?s1 = ?s0\<lparr>phys := p\<rparr>" 
    using fold_put_byte_phys [where a = "\<lambda>k. drive_info + of_nat k" and v = "\<lambda>k. get_byte ?s0 (0x90080 + of_nat k)"
      and ks = "[0..<32]" and s = ?s0] by blast
  have p: "p a = phys s a" if "unat a < 0x5000" for a
    using copied_drive_info(1) [OF d that, where v = "\<lambda>k. get_byte ?s0 (0x90080 + of_nat k)" and s = ?s0] by (simp add: s1)
  have "get_byte ?s1 a = get_byte s a" if "0x90000 \<le> unat a" for a
    using copied_drive_info(2) [OF d that, where v = "\<lambda>k. get_byte ?s0 (0x90080 + of_nat k)" and s = ?s0] by (simp add: get_byte_def)
  then have ext: "EXT_MEM_K ?s1 = EXT_MEM_K s" by (simp add: EXT_MEM_K_def bios_word_def bios_byte_def)
  define mm where "mm = (\<lambda>i. if MAP_NR ?b \<le> i \<and> i < MAP_NR ?b + (unat ?m - unat ?b) div 4096 then 0
    else if i < PAGING_PAGES then USED else mem_map s i)"
  define s1 where "s1 = s\<lparr>ROOT_DEV := ORIG_ROOT_DEV s, phys := p\<rparr>"
  define s2 where "s2 = s1\<lparr>HIGH_MEMORY := ?m, mem_map := mm\<rparr>"
  have mem: "mem_init (sint ?b) (sint ?m) s1 es = Ret () s2 es"
    unfolding mem_init_run [OF lay(1-3)] by (simp add: s1_def s2_def mm_def fun_eq_iff)
  obtain r where blk: "blk_dev_init s2 es = Ret () (s2\<lparr>requests := r\<rparr>) es" and r: "\<forall>i<NR_REQUEST. r_dev (r i) = - 1"
    using blk_dev_init_run by blast
  obtain c l where tty: "tty_init (s2\<lparr>requests := r\<rparr>) es =
      Ret () (s2\<lparr>requests := r, con := c, io_log := l, io_reads := io_reads (s2\<lparr>requests := r\<rparr>) + 5\<rparr>) es"
    using tty_init_run by blast
  define s3 where "s3 = s2\<lparr>requests := r, con := c, io_log := l, io_reads := io_reads (s2\<lparr>requests := r\<rparr>) + 5\<rparr>"
  have "clock_shows t s3" using assms(2) by (simp add: clock_shows_def s1_def s2_def s3_def)
  note time = time_init_run [OF this assms(3-6), of es]
  define s4 where "s4 = s3\<lparr>io_log := map (\<lambda>r. (0x70, 0x80 OR r)) [0, 9, 8, 7, 4, 2, 0] @ io_log s3,
    io_reads := io_reads s3 + 7, startup_time := epoch_seconds t\<rparr>"
  obtain l' where sched: "sched_init s4 es = Ret () (s4\<lparr>task := (\<lambda>i. if 1 \<le> i \<and> i < NR_TASKS then None else task s4 i),
      io_log := l', io_reads := io_reads s4 + 1\<rparr>) es"
    using sched_init_run by blast
  define s5 where "s5 = s4\<lparr>task := (\<lambda>i. if 1 \<le> i \<and> i < NR_TASKS then None else task s4 i), io_log := l', io_reads := io_reads s4 + 1\<rparr>"
  note defs = s1_def s2_def s3_def s4_def s5_def
  have nb: "NR_BUFFERS s5 = 0" "unat (start_buffer s5) \<le> 0x90000" using assms(1) by (simp_all add: loaded_def defs)
  have "unat ?b mod 1024 = unat ?b mod 4096 mod 1024" by (rule mod_mod_cancel [symmetric]) simp
  moreover have "0x100000 \<le> ?b" using lay(1) by (simp add: word_le_nat_alt)
  ultimately have "0x100000 \<le> ?b" "unat ?b mod 1024 = 0" using lay(4) by (simp_all only: mod_0)
  from buffer_init_shape [OF nb this, of es] obtain bf N h where buf: "buffer_init ?b s5 es = Ret () (s5\<lparr>bufs := bf, NR_BUFFERS := N, free_list := 0, hash_table := h\<rparr>) es"
    and ok: "cache_ok (s5\<lparr>bufs := bf, NR_BUFFERS := N, free_list := 0, hash_table := h\<rparr>)"
    and ad: "\<forall>i<N. unat (b_addr (bf i)) + 1024 \<le> unat ?b"
    by (elim exE conjE) (rule that; assumption)
  define s6 where "s6 = s5\<lparr>bufs := bf, NR_BUFFERS := N, free_list := 0, hash_table := h\<rparr>"
  obtain l'' where drv: "block [hd_init, floppy_init] s6 es = Ret () (s6\<lparr>blk_dev := (blk_dev s6)(
    3 := (blk_dev s6 3)\<lparr>request_fn := Some Do_hd_request\<rparr>, 2 := (blk_dev s6 2)\<lparr>request_fn := Some Do_fd_request\<rparr>),
    io_log := l'', io_reads := io_reads s6 + 3\<rparr>) es" (is "_ = Ret () ?s' es")
    using drivers_run by blast
  have run: "main_init drive_info None n s es = Ret () ?s' es"
    unfolding main_init_def Let_def
    using drv [unfolded block.simps]
    by (simp only: block.simps seq_run bnd_run modify_run gets_run ret_run res.case option.case s1 s1_def [symmetric] ext [unfolded s1, folded s1_def] mem blk tty [folded s3_def] time [folded s4_def]
      sched [folded s5_def] buf [folded s6_def])
  have f: "mem_map ?s' = mm" "phys ?s' = p" "requests ?s' = r" "startup_time ?s' = epoch_seconds t"
    "ROOT_DEV ?s' = ORIG_ROOT_DEV s" "bufs ?s' = bf" "NR_BUFFERS ?s' = N"
    by (simp_all add: s6_def defs)
  have tk: "task ?s' i = None" if "0 < i" "i < NR_TASKS" for i
    using that by (simp add: s6_def s5_def)
  have "cache_of N ?s'" by (rule cache_of_frame [of _ s6]) (use ok in \<open>simp_all add: cache_of_def s6_def\<close>)
  moreover have "vm_boot ?s'"
    by (rule vm_boot_cong [OF assms(1)]) (simp_all add: f p mm_def)
  ultimately have "vm_reachable ?s'" "cache_ok ?s'" by (simp_all add: vm_reachable.boot cache_of_def)
  moreover have "mm i = 0 \<longleftrightarrow> unat ?b \<le> 0x100000 + 4096 * i \<and> 0x100000 + 4096 * i + 4096 \<le> unat ?m" if "i < PAGING_PAGES" for i
    using free_range [OF lay(1,2,4,5), of i] that by (simp add: mm_def USED_def)
  ultimately show ?thesis
    using lay(1-3) ad r tk by (intro exI [of _ ?s'] conjI run) (simp_all add: f Let_def)
qed

definition boot0 :: kernel where
  "boot0 = blank_kernel\<lparr>phys := (\<lambda>a. if a = 0 then 0x1007 else 0),
     hw_inb := (\<lambda>_ k. [0, 0, 0, 0, 0, 0x05, 0x04, 0x03, 0x29, 0x02, 0x92, 0x05] ! k)\<rparr>"

lemma boot0_loaded: "loaded 0x10000 boot0"
proof -
  have "entry boot0 (Dir i) = 0" if "i \<in> udirs" for i
    using that dir_addr_inj [of i 0] by (simp add: entry_def loc_addr.simps boot0_def udirs_def)
  moreover have "frame 0x1007 = 1" "frame 0 = 0" by (simp_all add: frame_def)
  moreover have "phys boot0 a = 0 \<or> phys boot0 a = 0x1007" for a by (simp add: boot0_def)
  then have "frame (phys boot0 a) < 256" for a by (metis \<open>frame 0 = 0\<close> \<open>frame 0x1007 = 1\<close> numeral_less_iff one_less_numeral_iff semiring_norm(76) zero_less_numeral)
  ultimately show ?thesis by (simp add: loaded_def) (simp add: boot0_def blank_kernel_def frame_def)
qed

lemma boot_establishes_witness:
  "\<exists>s'. main_init 0x10000 None 1 boot0 [] = Ret () s' [] \<and> vm_reachable s' \<and> cache_ok s' \<and> startup_time s' = 699332645"
proof -
  have "clock_shows tm0 (boot0\<lparr>io_reads := io_reads boot0 + 5\<rparr>)" by code_simp
  moreover have "valid_tm tm0" by code_simp
  moreover have "epoch_seconds tm0 = 699332645" by code_simp
  ultimately show ?thesis
    using boot_establishes [OF boot0_loaded, of tm0 1 "[]"] by (auto simp: tm0_def)
qed

end
