(* ===== verification/Fileio.thy ===== *)
theory Fileio
  imports Cacheframe Files
begin

unbundle bit_operations_syntax

text \<open>
  Reading and writing regular files over the buffer cache.  The abstraction is a file as an array
  of bytes: when the blocks of a file and its index blocks are in the cache, \<open>file_byte s i p\<close> is
  the byte at position \<open>p\<close>.  \<open>zone_of\<close> is the specification of \<open>bmap\<close>: a walk through the zone
  numbers of the inode and the index blocks.
\<close>

subsection \<open>Blocks in the cache\<close>

definition cached :: "kernel \<Rightarrow> u16 \<Rightarrow> u32 \<Rightarrow> bptr option" where
  "cached s dev blk = first_upto (\<lambda>b. b_dev (bufs s b) = dev \<and> b_blocknr (bufs s b) = blk \<and>
     b_uptodate (bufs s b) \<noteq> 0 \<and> b_lock (bufs s b) = 0) (NR_BUFFERS s)"

text \<open>No task waits for a buffer and no buffer has all its 255 references used up.\<close>

definition cache_calm :: "kernel \<Rightarrow> bool" where
  "cache_calm s \<longleftrightarrow> cache_ok s \<and> buffer_wait s = None \<and> (\<forall>b<NR_BUFFERS s. b_count (bufs s b) \<noteq> 255)"

definition held :: "bptr \<Rightarrow> kernel \<Rightarrow> kernel" where
  "held b = upd_buf b (\<lambda>h. h\<lparr>b_count := b_count h + 1\<rparr>)"

lemma cached_Some:
  "cached s dev blk = Some b \<Longrightarrow> b < NR_BUFFERS s \<and> b_dev (bufs s b) = dev \<and> b_blocknr (bufs s b) = blk \<and>
     b_uptodate (bufs s b) \<noteq> 0 \<and> b_lock (bufs s b) = 0"
  unfolding cached_def by (drule first_upto_Some) blast

lemma bread_cached:
  assumes "cache_calm s" "cached s dev blk = Some b" "dev \<noteq> 0"
  shows "bread dev blk s es = Ret (Some b) (held b s) es"
proof -
  note c = cached_Some [OF assms(2)]
  then have "getblk dev blk s es = Ret b (held b s) es"
    using getblk_cached [of s b es] assms(1,3) by (auto simp: cache_calm_def held_def)
  then show ?thesis using c by (simp add: bread_def bread_with_def krun held_def bufs_upd_buf)
qed

text \<open>Releasing a buffer that was held while its data and flags changed.\<close>

lemma brelse_held:
  assumes "cache_calm s" "b < NR_BUFFERS s" "b_lock (bufs s b) = 0"
    "\<And>h. b_count (f h) = b_count h" "\<And>h. b_lock (f h) = b_lock h" "\<And>h. (f (h\<lparr>b_count := b_count h + 1\<rparr>))\<lparr>b_count := b_count h\<rparr> = f h"
  shows "brelse (Some b) (upd_buf b f (held b s)) es = Ret () (upd_buf b f s) es"
proof -
  have "b_count (bufs s b) + 1 \<noteq> 0"
  proof
    assume "b_count (bufs s b) + 1 = 0"
    then have "b_count (bufs s b) = 255" by (simp add: eq_neg_iff_add_eq_0 [symmetric])
    then show False using assms(1,2) by (simp add: cache_calm_def)
  qed
  then show ?thesis
    using assms by (simp add: brelse_def krun held_def bufs_upd_buf wait_on_buffer_def sleep_while_def wake_up_def wake_up_q_def
      cache_calm_def upd_buf_def fun_upd_def)
      (intro arg_cong [where f = "\<lambda>x. s\<lparr>bufs := x\<rparr>"] ext, simp)
qed

lemma brelse_only_held:
  assumes "cache_calm s" "b < NR_BUFFERS s" "b_lock (bufs s b) = 0"
  shows "brelse (Some b) (held b s) es = Ret () s es"
proof -
  have "upd_buf b (\<lambda>h. h) t = t" for t by (simp add: upd_buf_def)
  then show ?thesis using brelse_held [OF assms, of "\<lambda>h. h"] by simp
qed

lemmas release = brelse_held brelse_only_held

subsection \<open>The specification of bmap\<close>

text \<open>Where the number of a block is: a slot of the inode, then entries of index blocks.\<close>

definition zone_path :: "nat \<Rightarrow> nat \<times> nat list" where
  "zone_path q = (if q < 7 then (q, []) else if q < 519 then (7, [q - 7])
     else (8, [(q - 519) div 512, (q - 519) mod 512]))"

fun walk :: "kernel \<Rightarrow> u16 \<Rightarrow> nat \<Rightarrow> nat list \<Rightarrow> nat option" where
  "walk s dev z [] = Some z"
| "walk s dev z (k # ks) = (if z = 0 then Some 0 else case cached s dev (of_nat z) of
     None \<Rightarrow> None
   | Some b \<Rightarrow> walk s dev (unat (get16 (b_data (bufs s b)) (2 * k))) ks)"

definition zone_of :: "kernel \<Rightarrow> iptr \<Rightarrow> nat \<Rightarrow> nat option" where
  "zone_of s i q = (case zone_path q of (k, ks) \<Rightarrow>
     walk s (i_dev (inode_table s i)) (unat (i_zone (inode_table s i) k)) ks)"

lemma walk_nonzero: "walk s dev z (k # ks) = Some y \<Longrightarrow> y \<noteq> 0 \<Longrightarrow> z \<noteq> 0"
  by (cases "z = 0") simp_all

lemma walk_index:
  assumes "cache_calm s" "i_dev (inode_table s i) \<noteq> 0" "walk s (i_dev (inode_table s i)) z [k] = Some y"
    and "create \<longrightarrow> y \<noteq> 0"
  shows "index_zone create i z k s es = Ret y s es"
proof (cases "z = 0")
  case False
  then obtain b where b: "cached s (i_dev (inode_table s i)) (of_nat z) = Some b"
    "y = unat (get16 (b_data (bufs s b)) (2 * k))"
    using assms(3) by (auto split: option.splits)
  note c = cached_Some [OF b(1)]
  have "inode_table (held b s) = inode_table s" "b_data (bufs (held b s) c) = b_data (bufs s c)" for c
    by (simp_all add: held_def upd_buf_def)
  then show ?thesis
    using False c assms(4)
    by (cases create) (simp_all add: index_zone_def krun b(2) [symmetric] bread_cached [OF assms(1) b(1) assms(2)] release assms(1))
qed (use assms in \<open>auto simp: index_zone_def krun\<close>)

lemma inode_zone_run:
  "create \<longrightarrow> unat (i_zone (inode_table s i) k) \<noteq> 0 \<Longrightarrow> inode_zone create i k s es = Ret (unat (i_zone (inode_table s i) k)) s es"
  by (auto simp: inode_zone_def krun)

lemma bmap_gen_run:
  assumes "cache_calm s" "i_dev (inode_table s i) \<noteq> 0" "zone_of s i q = Some z" "q < 519 + 512 * 512"
    and "create \<longrightarrow> z \<noteq> 0"
  shows "bmap_gen i (int q) create s es = Ret z s es"
proof -
  let ?dev = "i_dev (inode_table s i)" and ?z = "\<lambda>k. unat (i_zone (inode_table s i) k)"
  consider "q < 7" | "7 \<le> q" "q < 519" | "519 \<le> q" by linarith
  then show ?thesis
  proof cases
    case 1
    then show ?thesis using assms(3,5) by (auto simp: bmap_gen_def zone_of_def zone_path_def inode_zone_run unsigned_eq_0_iff)
  next
    case 2
    then have w: "walk s ?dev (?z 7) [q - 7] = Some z" using assms(3) by (simp add: zone_of_def zone_path_def)
    then have "create \<longrightarrow> ?z 7 \<noteq> 0" using assms(5) walk_nonzero [OF w] by blast
    then show ?thesis
      using 2 walk_index [OF assms(1,2) w assms(5)]
      by (simp add: bmap_gen_def krun inode_zone_run nat_diff_distrib)
  next
    case 3
    then obtain y where y: "walk s ?dev (?z 8) [(q - 519) div 512] = Some y" "walk s ?dev y [(q - 519) mod 512] = Some z"
      using assms(3) by (auto simp: zone_of_def zone_path_def split: option.splits if_splits)
    then have "create \<longrightarrow> y \<noteq> 0 \<and> ?z 8 \<noteq> 0" using assms(5) walk_nonzero [OF y(1)] walk_nonzero [OF y(2)] by blast
    then show ?thesis
      using 3 assms(4) walk_index [OF assms(1,2) y(1)] walk_index [OF assms(1,2) y(2) assms(5)]
      by (simp add: bmap_gen_def krun inode_zone_run nat_diff_distrib nat_div_distrib nat_mod_distrib)
  qed
qed

subsection \<open>A file as an array of bytes\<close>

definition data_buf :: "kernel \<Rightarrow> iptr \<Rightarrow> nat \<Rightarrow> bptr option" where
  "data_buf s i q = (case zone_of s i q of None \<Rightarrow> None
   | Some z \<Rightarrow> if z = 0 then None else cached s (i_dev (inode_table s i)) (of_nat z))"

text \<open>The index blocks that lead to a block.\<close>

fun walk_bufs :: "kernel \<Rightarrow> u16 \<Rightarrow> nat \<Rightarrow> nat list \<Rightarrow> bptr set" where
  "walk_bufs s dev z [] = {}"
| "walk_bufs s dev z (k # ks) = (case cached s dev (of_nat z) of
     None \<Rightarrow> {}
   | Some b \<Rightarrow> insert b (walk_bufs s dev (unat (get16 (b_data (bufs s b)) (2 * k))) ks))"

definition index_bufs :: "kernel \<Rightarrow> iptr \<Rightarrow> nat \<Rightarrow> bptr set" where
  "index_bufs s i q = (case zone_path q of (k, ks) \<Rightarrow>
     walk_bufs s (i_dev (inode_table s i)) (unat (i_zone (inode_table s i) k)) ks)"

text \<open>The first \<open>m\<close> blocks of a file are in the cache, each in a buffer of its own that is no index block.\<close>

definition file_here :: "kernel \<Rightarrow> iptr \<Rightarrow> nat \<Rightarrow> bool" where
  "file_here s i m \<longleftrightarrow> cache_calm s \<and> i_dev (inode_table s i) \<noteq> 0 \<and> m \<le> 519 + 512 * 512 \<and>
     (\<forall>q<m. data_buf s i q \<noteq> None) \<and> (\<forall>q<m. \<forall>r<m. data_buf s i q = data_buf s i r \<longrightarrow> q = r) \<and>
     (\<forall>q<m. \<forall>r<m. the (data_buf s i q) \<notin> index_bufs s i r)"

definition file_byte :: "kernel \<Rightarrow> iptr \<Rightarrow> nat \<Rightarrow> u8" where
  "file_byte s i p = b_data (bufs s (the (data_buf s i (p div 1024)))) (p mod 1024)"

text \<open>Two states with the same blocks in the cache, and the same zones in the inode.\<close>

definition same_blocks :: "kernel \<Rightarrow> kernel \<Rightarrow> iptr \<Rightarrow> bool" where
  "same_blocks s' s i \<longleftrightarrow> NR_BUFFERS s' = NR_BUFFERS s \<and> i_dev (inode_table s' i) = i_dev (inode_table s i) \<and>
     i_zone (inode_table s' i) = i_zone (inode_table s i) \<and>
     (\<forall>b. b_dev (bufs s' b) = b_dev (bufs s b) \<and> b_blocknr (bufs s' b) = b_blocknr (bufs s b) \<and>
        b_uptodate (bufs s' b) = b_uptodate (bufs s b) \<and> b_lock (bufs s' b) = b_lock (bufs s b))"

lemma cached_same: "same_blocks s' s i \<Longrightarrow> cached s' = cached s"
  by (simp add: same_blocks_def cached_def fun_eq_iff)

lemma walk_same:
  assumes "same_blocks s' s i" "\<forall>b\<in>walk_bufs s dev z ks. b_data (bufs s' b) = b_data (bufs s b)"
  shows "walk s' dev z ks = walk s dev z ks \<and> walk_bufs s' dev z ks = walk_bufs s dev z ks"
  using assms(2)
proof (induction ks arbitrary: z)
  case (Cons k ks)
  then show ?case by (auto simp: cached_same [OF assms(1)] split: option.split)
qed simp

lemma data_buf_same:
  assumes "same_blocks s' s i" "\<forall>b\<in>index_bufs s i q. b_data (bufs s' b) = b_data (bufs s b)"
  shows "data_buf s' i q = data_buf s i q" "index_bufs s' i q = index_bufs s i q"
proof -
  obtain k ks where p: "zone_path q = (k, ks)" by fastforce
  have z: "i_dev (inode_table s' i) = i_dev (inode_table s i)" "i_zone (inode_table s' i) = i_zone (inode_table s i)"
    using assms(1) by (simp_all add: same_blocks_def)
  note w = walk_same [OF assms(1), of "i_dev (inode_table s i)" "unat (i_zone (inode_table s i) k)" ks]
  show "data_buf s' i q = data_buf s i q" "index_bufs s' i q = index_bufs s i q"
    using w assms(2) by (simp_all add: data_buf_def zone_of_def index_bufs_def p z cached_same [OF assms(1)] split: option.split)
qed

lemma cache_calm_same:
  assumes "cache_skeleton s' = cache_skeleton s" "buffer_wait s' = buffer_wait s" "\<forall>b. b_count (bufs s' b) = b_count (bufs s b)"
    and "cache_calm s"
  shows "cache_calm s'"
proof -
  have n: "NR_BUFFERS s' = NR_BUFFERS s" using assms(1) by (simp add: cache_skeleton_def)
  have "cache_of (NR_BUFFERS s) s'" by (rule cache_of_frame [OF assms(1)]) (use assms(4) in \<open>simp add: cache_of_def cache_calm_def\<close>)
  then show ?thesis using assms n by (simp add: cache_calm_def cache_of_def)
qed

lemma file_here_same:
  assumes "file_here s i m" "same_blocks s' s i" "cache_calm s'"
    and "\<forall>q<m. \<forall>b\<in>index_bufs s i q. b_data (bufs s' b) = b_data (bufs s b)"
  shows "file_here s' i m" "\<forall>q<m. data_buf s' i q = data_buf s i q"
proof -
  have d: "data_buf s' i q = data_buf s i q" "index_bufs s' i q = index_bufs s i q" if "q < m" for q
    using data_buf_same [OF assms(2)] assms(4) that by auto
  show "\<forall>q<m. data_buf s' i q = data_buf s i q" using d by blast
  have "i_dev (inode_table s' i) = i_dev (inode_table s i)" using assms(2) by (simp add: same_blocks_def)
  then show "file_here s' i m" using assms(1,3) d by (simp add: file_here_def)
qed

subsection \<open>Writing\<close>

text \<open>What a round of \<open>file_write\<close> does: the bytes go to the block, and the size may grow.\<close>

definition grow :: "iptr \<Rightarrow> u32 \<Rightarrow> kernel \<Rightarrow> kernel" where
  "grow i p s = (if p > i_size (inode_table s i) then upd_inode i (\<lambda>x. x\<lparr>i_size := p, i_dirt := 1\<rparr>) s else s)"

definition put_data :: "bptr \<Rightarrow> nat \<Rightarrow> u8 list \<Rightarrow> kernel \<Rightarrow> kernel" where
  "put_data b off bs = upd_buf b (\<lambda>h. h\<lparr>b_data := store_bytes (b_data h) off bs, b_dirt := 1\<rparr>)"

lemma grow_fields [simp]:
  "bufs (grow i p s) = bufs s" "NR_BUFFERS (grow i p s) = NR_BUFFERS s" "buffer_wait (grow i p s) = buffer_wait s"
  "i_dev (inode_table (grow i p s) j) = i_dev (inode_table s j)" "i_zone (inode_table (grow i p s) j) = i_zone (inode_table s j)"
  "umem (grow i p s) = umem s" "file_table (grow i p s) = file_table s" "cache_skeleton (grow i p s) = cache_skeleton s"
  "i_size (inode_table (grow i p s) i) = max (i_size (inode_table s i)) p"
  by (auto simp: grow_def upd_inode_def max_def)

lemma put_data_fields [simp]:
  "NR_BUFFERS (put_data b off bs s) = NR_BUFFERS s" "buffer_wait (put_data b off bs s) = buffer_wait s"
  "inode_table (put_data b off bs s) = inode_table s" "umem (put_data b off bs s) = umem s"
  "file_table (put_data b off bs s) = file_table s" "cache_skeleton (put_data b off bs s) = cache_skeleton s"
  "b_dev (bufs (put_data b off bs s) c) = b_dev (bufs s c)" "b_blocknr (bufs (put_data b off bs s) c) = b_blocknr (bufs s c)"
  "b_uptodate (bufs (put_data b off bs s) c) = b_uptodate (bufs s c)" "b_lock (bufs (put_data b off bs s) c) = b_lock (bufs s c)"
  "b_count (bufs (put_data b off bs s) c) = b_count (bufs s c)"
  "b_data (bufs (put_data b off bs s) c) = (if c = b then store_bytes (b_data (bufs s b)) off bs else b_data (bufs s c))"
  by (auto simp: put_data_def upd_buf_def cache_skeleton_def skeleton_def)

text \<open>The file after a store of bytes in one block.\<close>

lemma block_range:
  fixes pos q off n :: nat
  assumes "off + n \<le> 1024"
  shows "1024 * q + off \<le> pos \<and> pos < 1024 * q + off + n \<longleftrightarrow> pos div 1024 = q \<and> off \<le> pos mod 1024 \<and> pos mod 1024 < off + n"
proof -
  define r t where "r = pos div 1024" and "t = pos mod 1024"
  have pos: "pos = 1024 * r + t" "t < 1024" by (simp_all add: r_def t_def)
  consider "r = q" | "Suc r \<le> q" | "Suc q \<le> r" by linarith
  then show ?thesis
    unfolding r_def [symmetric] t_def [symmetric] using pos assms by cases auto
qed

lemma file_put_data:
  fixes p :: u32
  assumes "file_here s i m" "q < m" "data_buf s i q = Some b" "off + length bs \<le> 1024"
  defines "s' \<equiv> put_data b off bs (grow i p s)"
  shows "file_here s' i m"
    "pos < 1024 * m \<Longrightarrow> file_byte s' i pos = (if 1024 * q + off \<le> pos \<and> pos < 1024 * q + off + length bs
      then bs ! (pos - (1024 * q + off)) else file_byte s i pos)"
proof -
  have same: "same_blocks s' s i" by (simp add: same_blocks_def s'_def)
  have calm: "cache_calm s'"
    by (rule cache_calm_same [where s = s]) (use assms(1) in \<open>simp_all add: s'_def file_here_def\<close>)
  have "b \<notin> index_bufs s i r" if "r < m" for r
    using assms(1-3) that unfolding file_here_def by (metis option.sel)
  then have idx: "\<forall>r<m. \<forall>c\<in>index_bufs s i r. b_data (bufs s' c) = b_data (bufs s c)"
    by (auto simp: s'_def)
  note h = file_here_same [OF assms(1) same calm idx]
  show "file_here s' i m" by (rule h(1))
  show "file_byte s' i pos = (if 1024 * q + off \<le> pos \<and> pos < 1024 * q + off + length bs
      then bs ! (pos - (1024 * q + off)) else file_byte s i pos)" if "pos < 1024 * m"
  proof -
    let ?r = "pos div 1024"
    have r: "?r < m" using that by (simp add: less_mult_imp_div_less mult.commute)
    then obtain c where c: "data_buf s i ?r = Some c" using assms(1) by (auto simp: file_here_def)
    have cb: "c = b \<longleftrightarrow> ?r = q" using assms(1-3) r c unfolding file_here_def by (metis option.inject)
    have pos: "pos - (1024 * ?r + off) = pos mod 1024 - off"
      by (simp add: diff_diff_left [symmetric] minus_mult_div_eq_mod)
    have "file_byte s' i pos = b_data (bufs s' c) (pos mod 1024)" using h(2) r c by (simp add: file_byte_def)
    moreover have "file_byte s i pos = b_data (bufs s c) (pos mod 1024)" using c by (simp add: file_byte_def)
    moreover have "1024 * q + off \<le> pos \<and> pos < 1024 * q + off + length bs \<longleftrightarrow>
        ?r = q \<and> off \<le> pos mod 1024 \<and> pos mod 1024 < off + length bs"
      by (rule block_range [OF assms(4)])
    ultimately show ?thesis using cb pos by (auto simp: s'_def store_bytes_at)
  qed
qed

lemma upd_buf_twice: "upd_buf b g (upd_buf b f s) = upd_buf b (\<lambda>h. g (f h)) s"
  by (simp add: upd_buf_def)

lemma grow_upd_buf: "grow i p (upd_buf b f s) = upd_buf b f (grow i p s)"
  by (simp add: grow_def upd_buf_def upd_inode_def)

lemma round_pos:
  assumes "0 \<le> p" "p < 2147483648"
  shows "p sdiv 1024 = int (nat p div 1024)" "p smod 1024 = int (nat p mod 1024)"
  using assms by (cases "p = 0"; simp add: signed_divide_int_def signed_modulo_int_def zdiv_int zmod_int)+

lemma zone_of_data: "data_buf s i q = Some b \<Longrightarrow>
    \<exists>z. zone_of s i q = Some z \<and> z \<noteq> 0 \<and> cached s (i_dev (inode_table s i)) (of_nat z) = Some b"
  by (auto simp: data_buf_def split: option.splits if_splits)

lemma file_write_round_run:
  assumes here: "file_here s i m" and k: "k < count" "0 \<le> k" and p: "0 \<le> p" "p + (count - k) \<le> 1024 * int m" "1024 * m < 2147483648"
  defines "q \<equiv> nat p div 1024" and "off \<equiv> nat p mod 1024"
  defines "c \<equiv> min (1024 - off) (nat (count - k))"
  shows "\<exists>b. data_buf s i q = Some b \<and> q < m \<and> file_write_round i count buf (k, p) s es =
    Ret (Inl (k + int c, p + int c)) (put_data b off (user_bytes s (buf + word_of_int k) c) (grow i (word_of_int (p + int c)) s)) es"
proof -
  have q: "q < m" using p k unfolding q_def by (simp add: less_mult_imp_div_less nat_less_iff mult.commute)
  then obtain b where b: "data_buf s i q = Some b" using here by (auto simp: file_here_def)
  obtain z where z: "zone_of s i q = Some z" "z \<noteq> 0" "cached s (i_dev (inode_table s i)) (of_nat z) = Some b"
    using zone_of_data [OF b] by blast
  have calm: "cache_calm s" and dev: "i_dev (inode_table s i) \<noteq> 0" and m: "m \<le> 519 + 512 * 512"
    using here by (simp_all add: file_here_def)
  have p': "p < 2147483648" using p k by linarith
  note pos = round_pos [OF p(1) p', folded q_def off_def]
  have c: "min (1024 - int off) (count - k) = int c"
  proof -
    have "off < 1024" by (simp add: off_def)
    then show ?thesis using k(1) by (simp add: c_def of_nat_diff min_def) arith
  qed
  have "int c \<le> count - k" using c by linarith
  then have w: "wrap32 (p + int c) = p + int c" by (intro wrap32_id) (use p in linarith)+
  let ?g = "grow i (word_of_int (p + int c))" and ?bs = "user_bytes s (buf + word_of_int k) c"
  have calm': "cache_calm (?g s)" by (rule cache_calm_same [OF _ _ _ calm]) simp_all
  note cb = cached_Some [OF z(3)]
  have rel: "brelse (Some b) (upd_buf b (\<lambda>h. h\<lparr>b_data := store_bytes (b_data h) off ?bs, b_dirt := 1\<rparr>) (held b (?g s))) es =
      Ret () (put_data b off ?bs (?g s)) es"
    unfolding put_data_def by (rule brelse_held [OF calm']) (use cb in simp_all)
  have eq: "upd_buf b (\<lambda>h. h\<lparr>b_data := store_bytes (b_data h) off ?bs\<rparr>) (?g (upd_buf b (\<lambda>h. h\<lparr>b_dirt := 1\<rparr>) (held b s))) =
      upd_buf b (\<lambda>h. h\<lparr>b_data := store_bytes (b_data h) off ?bs, b_dirt := 1\<rparr>) (held b (?g s))"
    unfolding held_def grow_upd_buf upd_buf_twice
    by (rule arg_cong [where f = "\<lambda>f. upd_buf b f (?g s)"], rule ext) simp
  have um: "umem (upd_buf b f t) = umem t" "umem (held b t) = umem t" for f t by (simp_all add: held_def upd_buf_def)
  have "file_write_round i count buf (k, p) s es =
      Ret (Inl (k + int c, p + int c)) (put_data b off ?bs (?g s)) es"
    using k(1) bmap_gen_run [OF calm dev z(1), of True] q m z(2) bread_cached [OF calm z(3) dev]
    unfolding file_write_round_def create_block_def prod.case pos(1)
    by (simp add: krun pos(2) c w Let_def grow_def [symmetric] user_bytes_def um eq [unfolded user_bytes_def]
      rel [unfolded user_bytes_def] del: of_int_add)
  then show ?thesis using b q by blast
qed

definition written :: "kernel \<Rightarrow> kernel \<Rightarrow> iptr \<Rightarrow> nat \<Rightarrow> nat \<Rightarrow> nat \<Rightarrow> (nat \<Rightarrow> u8) \<Rightarrow> bool" where
  "written s' s i m a n g \<longleftrightarrow> (\<forall>pos<1024 * m. file_byte s' i pos = (if a \<le> pos \<and> pos < a + n then g (pos - a) else file_byte s i pos))"

lemma written_trans:
  assumes "written s1 s i m a c g" "written s' s1 i m (a + c) n g'" "\<And>j. g' j = g (c + j)"
  shows "written s' s i m a (c + n) g"
  using assms unfolding written_def by (auto simp: not_less not_le)

lemma max_grow:
  assumes "0 \<le> a" "a \<le> b" "b < 2147483648"
  shows "max (max (z :: u32) (word_of_int a)) (word_of_int b) = max z (word_of_int b)"
proof -
  have "(word_of_int a :: u32) \<le> word_of_int b"
    using assms by (simp add: word_le_def uint_word_of_int)
  then show ?thesis by (auto simp: max_def)
qed

lemma write_loop:
  assumes "file_here s i m" "0 \<le> k" "k \<le> count" "0 \<le> p" "p + (count - k) \<le> 1024 * int m" "1024 * m < 2147483648"
    and "nat (count - k) < n"
  shows "\<exists>s'. iter_fuel n (file_write_round i count buf) (k, p) s es = Ret (count, p + (count - k)) s' es \<and>
    file_here s' i m \<and> umem s' = umem s \<and> file_table s' = file_table s \<and>
    written s' s i m (nat p) (nat (count - k)) (\<lambda>j. umem s (buf + word_of_int k + of_nat j)) \<and>
    i_size (inode_table s' i) = (if k < count then max (i_size (inode_table s i)) (word_of_int (p + (count - k))) else i_size (inode_table s i))"
  using assms
proof (induction n arbitrary: s k p)
  case (Suc n)
  show ?case
  proof (cases "k < count")
    case False
    then have "k = count" using Suc.prems by simp
    then show ?thesis using Suc.prems by (auto simp: file_write_round_def krun written_def)
  next
    case True
    define q off where "q = nat p div 1024" and "off = nat p mod 1024"
    define c where "c = min (1024 - off) (nat (count - k))"
    obtain b where b: "data_buf s i q = Some b" "q < m" and run: "file_write_round i count buf (k, p) s es =
        Ret (Inl (k + int c, p + int c)) (put_data b off (user_bytes s (buf + word_of_int k) c) (grow i (word_of_int (p + int c)) s)) es"
      using file_write_round_run [OF Suc.prems(1) True Suc.prems(2,4,5,6), folded q_def off_def, folded c_def] by blast
    define s1 where "s1 = put_data b off (user_bytes s (buf + word_of_int k) c) (grow i (word_of_int (p + int c)) s)"
    have off: "off < 1024" by (simp add: off_def)
    have c: "0 < c" "int c \<le> count - k" "off + c \<le> 1024" using True off by (simp_all add: c_def)
    have np: "nat p = 1024 * q + off" by (simp add: q_def off_def)
    have len: "length (user_bytes s a c) = c" for a by (simp add: user_bytes_def)
    note f = file_put_data [OF Suc.prems(1) b(2,1), of off "user_bytes s (buf + word_of_int k) c", unfolded len, OF c(3)]
    have here: "file_here s1 i m" unfolding s1_def by (rule f(1))
    have w1: "written s1 s i m (nat p) c (\<lambda>j. umem s (buf + word_of_int k + of_nat j))"
      unfolding written_def s1_def using f(2) by (auto simp: np user_bytes_def)
    have um: "umem s1 = umem s" "file_table s1 = file_table s" by (simp_all add: s1_def)
    obtain s' where s': "iter_fuel n (file_write_round i count buf) (k + int c, p + int c) s1 es = Ret (count, p + int c + (count - (k + int c))) s' es"
      "file_here s' i m" "umem s' = umem s1" "file_table s' = file_table s1"
      "written s' s1 i m (nat (p + int c)) (nat (count - (k + int c))) (\<lambda>j. umem s1 (buf + word_of_int (k + int c) + of_nat j))"
      "i_size (inode_table s' i) = (if k + int c < count then max (i_size (inode_table s1 i)) (word_of_int (p + int c + (count - (k + int c)))) else i_size (inode_table s1 i))"
      using Suc.IH [OF here, of "k + int c" "p + int c"] Suc.prems c by fastforce
    have n: "nat (p + int c) = nat p + c" "nat (count - k) = c + nat (count - (k + int c))"
      using Suc.prems(4) c by (simp_all add: nat_add_distrib nat_eq_iff)
    have "written s' s i m (nat p) (nat (count - k)) (\<lambda>j. umem s (buf + word_of_int k + of_nat j))"
      unfolding n(2) by (rule written_trans [OF w1 s'(5) [unfolded n(1)]]) (simp add: um add_ac)
    moreover have sz: "p + int c + (count - (k + int c)) = p + (count - k)" by simp
    moreover have g: "i_size (inode_table s1 i) = max (i_size (inode_table s i)) (word_of_int (p + int c))"
      unfolding s1_def put_data_fields grow_fields ..
    have "i_size (inode_table s' i) = max (i_size (inode_table s i)) (word_of_int (p + (count - k)))"
    proof (cases "k + int c < count")
      case True
      have "max (max (i_size (inode_table s i)) (word_of_int (p + int c))) (word_of_int (p + (count - k))) =
          max (i_size (inode_table s i)) (word_of_int (p + (count - k)))"
        by (rule max_grow) (use Suc.prems c in linarith)+
      then show ?thesis using s'(6) True unfolding g sz by simp
    next
      case False
      then have "int c = count - k" using c(2) by linarith
      then show ?thesis using s'(6) False unfolding g by simp
    qed
    ultimately show ?thesis
      using s'(1-4) run [folded s1_def] um True by (intro exI [of _ s']) (simp add: krun)
  qed
qed simp

lemma file_here_upd:
  assumes "file_here s i m" "cache_skeleton s' = cache_skeleton s" "bufs s' = bufs s" "buffer_wait s' = buffer_wait s"
    "i_dev (inode_table s' i) = i_dev (inode_table s i)" "i_zone (inode_table s' i) = i_zone (inode_table s i)"
  shows "file_here s' i m" "q < m \<Longrightarrow> data_buf s' i q = data_buf s i q"
    "pos < 1024 * m \<Longrightarrow> file_byte s' i pos = file_byte s i pos"
proof -
  have "cache_calm s'" by (rule cache_calm_same [where s = s]) (use assms in \<open>simp_all add: file_here_def\<close>)
  moreover have "same_blocks s' s i" using assms by (simp add: same_blocks_def cache_skeleton_def)
  ultimately have h: "file_here s' i m" "\<forall>q<m. data_buf s' i q = data_buf s i q"
    using file_here_same [OF assms(1)] assms(3) by simp_all
  show "file_here s' i m" "q < m \<Longrightarrow> data_buf s' i q = data_buf s i q" using h by simp_all
  show "file_byte s' i pos = file_byte s i pos" if "pos < 1024 * m"
    using h(2) that assms(3) by (simp add: file_byte_def less_mult_imp_div_less mult.commute)
qed

lemma file_write_run:
  assumes "file_here s i m" "f_flags (file_table s f) AND O_APPEND = 0" "f_pos (file_table s f) = int a"
    and "0 < n" "a + n \<le> 1024 * m" "1024 * m < 2147483648"
  shows "\<exists>s'. file_write i f buf (int n) s es = Ret (int n) s' es \<and> file_here s' i m \<and> umem s' = umem s \<and>
    file_table s' = (file_table s)(f := (file_table s f)\<lparr>f_pos := int (a + n)\<rparr>) \<and>
    written s' s i m a n (\<lambda>j. umem s (buf + of_nat j)) \<and>
    i_size (inode_table s' i) = max (i_size (inode_table s i)) (of_nat (a + n))"
proof -
  obtain s1 where s1: "iter_fuel (Suc n) (file_write_round i (int n) buf) (0, int a) s es = Ret (int n, int (a + n)) s1 es"
    "file_here s1 i m" "umem s1 = umem s" "file_table s1 = file_table s"
    "written s1 s i m a n (\<lambda>j. umem s (buf + of_nat j))"
    "i_size (inode_table s1 i) = max (i_size (inode_table s i)) (of_nat (a + n))"
    using write_loop [OF assms(1), of 0 "int n" "int a" "Suc n" buf es] assms by fastforce
  define s' where "s' = upd_inode i (\<lambda>x. x\<lparr>i_ctime := now32 s1\<rparr>) (upd_file f (\<lambda>x. x\<lparr>f_pos := int (a + n)\<rparr>)
    (upd_inode i (\<lambda>x. x\<lparr>i_mtime := now32 s1\<rparr>) s1))"
  have now: "now32 (upd_file f g (upd_inode i h s1)) = now32 s1" for g h
    by (simp add: now32_def CURRENT_TIME_def upd_file_def upd_inode_def)
  have ft: "file_table (upd_inode i g t) = file_table t" for g t by (simp add: upd_inode_def)
  have run: "file_write i f buf (int n) s es = Ret (int n) s' es"
    using s1(1,4) assms(2-4) by (simp add: file_write_def krun s'_def now ft del: iter_fuel.simps)
  have fr: "cache_skeleton s' = cache_skeleton s1" "bufs s' = bufs s1" "buffer_wait s' = buffer_wait s1" "umem s' = umem s1"
    "i_dev (inode_table s' i) = i_dev (inode_table s1 i)" "i_zone (inode_table s' i) = i_zone (inode_table s1 i)"
    "i_size (inode_table s' i) = i_size (inode_table s1 i)"
    "file_table s' = (file_table s1)(f := (file_table s1 f)\<lparr>f_pos := int (a + n)\<rparr>)"
    by (simp_all add: s'_def) (simp_all add: upd_inode_def upd_file_def)
  note u = file_here_upd [OF s1(2) fr(1-3,5,6)]
  have "written s' s i m a n (\<lambda>j. umem s (buf + of_nat j))" using s1(5) u(3) by (simp add: written_def)
  then show ?thesis using run u(1) s1 fr by (intro exI [of _ s']) simp
qed

subsection \<open>Reading\<close>

lemma user_store_eq:
  "user_store a xs s = s\<lparr>umem := fold (\<lambda>k u. u(a + of_nat k := xs ! k)) [0..<length xs] (umem s)\<rparr>"
proof -
  have "fold (\<lambda>k. put_fs_byte (xs ! k) (a + of_nat k)) ks s = s\<lparr>umem := fold (\<lambda>k u. u(a + of_nat k := xs ! k)) ks (umem s)\<rparr>" for ks
    by (induction ks arbitrary: s) (simp_all add: put_fs_byte_def)
  then show ?thesis by (simp add: user_store_def)
qed

definition set_pos :: "fptr \<Rightarrow> nat \<Rightarrow> kernel \<Rightarrow> kernel" where
  "set_pos f p = upd_file f (\<lambda>x. x\<lparr>f_pos := int p\<rparr>)"

lemma move_fields [simp]:
  "bufs (user_store a xs s) = bufs s" "buffer_wait (user_store a xs s) = buffer_wait s"
  "cache_skeleton (user_store a xs s) = cache_skeleton s" "file_table (user_store a xs s) = file_table s"
  "inode_table (user_store a xs s) = inode_table s"
  "bufs (set_pos f p s) = bufs s" "buffer_wait (set_pos f p s) = buffer_wait s" "cache_skeleton (set_pos f p s) = cache_skeleton s"
  "inode_table (set_pos f p s) = inode_table s" "umem (set_pos f p s) = umem s"
  "f_pos (file_table (set_pos f p s) f) = int p"
  by (simp_all add: user_store_eq set_pos_def upd_file_def)

lemma moves_commute:
  "set_pos f p (user_store a xs s) = user_store a xs (set_pos f p s)" "set_pos f p (set_pos f p' s) = set_pos f p s"
  "user_store a xs (set_pos f p (held b s)) = held b (user_store a xs (set_pos f p s))"
  by (simp_all add: user_store_eq set_pos_def upd_file_def held_def upd_buf_def)

lemma file_read_round_run:
  assumes here: "file_here s i m" and pos: "f_pos (file_table s f) = int a"
    and a: "0 < left" "a + left \<le> 1024 * m" "1024 * m < 2147483648"
  defines "c \<equiv> min (1024 - a mod 1024) left"
  shows "file_read_round i f (left, buf) s es = Ret (Inl (left - c, buf + of_nat c))
    (user_store buf (map (file_byte s i) [a..<a + c]) (set_pos f (a + c) s)) es"
proof -
  let ?q = "a div 1024" and ?off = "a mod 1024"
  have q: "?q < m" using a by (simp add: less_mult_imp_div_less mult.commute)
  then obtain b where b: "data_buf s i ?q = Some b" using here by (auto simp: file_here_def)
  obtain z where z: "zone_of s i ?q = Some z" "z \<noteq> 0" "cached s (i_dev (inode_table s i)) (of_nat z) = Some b"
    using zone_of_data [OF b] by blast
  have calm: "cache_calm s" and dev: "i_dev (inode_table s i) \<noteq> 0" and m: "m \<le> 519 + 512 * 512"
    using here by (simp_all add: file_here_def)
  have "int a < 2147483648" using a by linarith
  note rp = round_pos [of "int a", OF _ this, simplified]
  have off: "?off < 1024" by simp
  have c: "min (1024 - int ?off) (int left) = int c" using off by (simp add: c_def of_nat_diff min_def) arith
  have w: "wrap32 (int a + int c) = int (a + c)"
    using a by (subst wrap32_id) (simp_all add: c_def)
  have bytes: "bytes_of (b_data (bufs s b)) ?off c = map (file_byte s i) [a..<a + c]"
  proof (rule nth_equalityI)
    fix j assume "j < length (bytes_of (b_data (bufs s b)) ?off c)"
    then have j: "j < c" by simp
    then have "j < 1024 - a mod 1024" by (simp add: c_def)
    then have lt: "?off + j < 1024" by linarith
    have g: "t < 1024 \<Longrightarrow> (1024 * r + t) div 1024 = r \<and> (1024 * r + t) mod 1024 = t" for r t :: nat by simp
    have "a + j = 1024 * ?q + (?off + j)" by simp
    then have "(a + j) div 1024 = ?q" "(a + j) mod 1024 = ?off + j" using g [OF lt, of ?q] by metis+
    then show "bytes_of (b_data (bufs s b)) ?off c ! j = map (file_byte s i) [a..<a + c] ! j"
      using j b by (simp add: bytes_of_def file_byte_def)
  qed simp
  let ?t = "user_store buf (map (file_byte s i) [a..<a + c]) (set_pos f (a + c) s)"
  have calm': "cache_calm ?t" by (rule cache_calm_same [OF _ _ _ calm]) simp_all
  have NR: "NR_BUFFERS ?t = NR_BUFFERS s" by (simp add: user_store_eq set_pos_def upd_file_def)
  note cb = cached_Some [OF z(3)]
  have rel: "brelse (Some b) (held b ?t) es = Ret () ?t es"
    by (rule brelse_only_held [OF calm']) (use cb NR in simp_all)
  have fp: "f_pos (file_table (held b s) f) = int a" "file_table (held b s) = file_table s" using pos by (simp_all add: held_def upd_buf_def)
  have mv: "upd_file f (\<lambda>x. x\<lparr>f_pos := wrap32 (f_pos x + int c)\<rparr>) (held b s) = set_pos f (a + c) (held b s)"
    using fp pos w by (simp add: set_pos_def upd_file_def)
  have bd: "b_data (bufs (held b s) b) = b_data (bufs s b)" by (simp add: held_def bufs_upd_buf)
  show ?thesis
    using a(1) bmap_gen_run [OF calm dev z(1), of False] q m z(2) bread_cached [OF calm z(3) dev] rel
    unfolding file_read_round_def bmap_def prod.case
    by (simp add: krun pos rp fp c Let_def move_pos_def mv bytes bd moves_commute)
qed

lemma read_loop:
  assumes "file_here s i m" "f_pos (file_table s f) = int a" "a + left \<le> 1024 * m" "1024 * m < 2147483648" "left < n"
  shows "iter_fuel n (file_read_round i f) (left, buf) s es =
    Ret 0 (user_store buf (map (file_byte s i) [a..<a + left]) (if left = 0 then s else set_pos f (a + left) s)) es"
  using assms
proof (induction n arbitrary: s a left buf)
  case (Suc n)
  show ?case
  proof (cases "left = 0")
    case True
    then show ?thesis by (simp add: file_read_round_def krun user_store_def)
  next
    case False
    define c where "c = min (1024 - a mod 1024) left"
    have "a mod 1024 < 1024" by simp
    then have c: "0 < c" "c \<le> left" using False by (simp_all add: c_def)
    define s1 where "s1 = user_store buf (map (file_byte s i) [a..<a + c]) (set_pos f (a + c) s)"
    have run: "file_read_round i f (left, buf) s es = Ret (Inl (left - c, buf + of_nat c)) s1 es"
      unfolding s1_def c_def by (rule file_read_round_run [OF Suc.prems(1,2) _ Suc.prems(3,4)]) (use False in simp)
    note u = file_here_upd [OF Suc.prems(1), of s1]
    have fr: "cache_skeleton s1 = cache_skeleton s" "bufs s1 = bufs s" "buffer_wait s1 = buffer_wait s" "inode_table s1 = inode_table s"
      "f_pos (file_table s1 f) = int (a + c)" by (simp_all add: s1_def)
    have here: "file_here s1 i m" by (rule u(1)) (simp_all add: fr)
    have bytes: "map (file_byte s1 i) [a + c..<a + c + (left - c)] = map (file_byte s i) [a + c..<a + left]"
      using c(2) Suc.prems(3) u(3) by (intro map_cong) (simp_all add: fr)
    have app: "map (file_byte s i) [a..<a + left] = map (file_byte s i) [a..<a + c] @ map (file_byte s i) [a + c..<a + left]"
      using c(2) upt_add_eq_append [of a "a + c" "left - c"] by simp
    have "iter_fuel n (file_read_round i f) (left - c, buf + of_nat c) s1 es =
        Ret 0 (user_store (buf + of_nat c) (map (file_byte s1 i) [a + c..<a + c + (left - c)])
          (if left - c = 0 then s1 else set_pos f (a + c + (left - c)) s1)) es"
      using Suc.IH [OF here fr(5), of "left - c"] Suc.prems c by simp
    also have "\<dots> = Ret 0 (user_store buf (map (file_byte s i) [a..<a + left]) (set_pos f (a + left) s)) es"
      using c unfolding bytes app user_store_append by (auto simp: s1_def moves_commute user_store_def [of _ "[]"])
    finally show ?thesis using run False by (simp add: krun)
  qed
qed simp

lemma file_read_run:
  assumes "file_here s i m" "f_pos (file_table s f) = int a" "0 < n" "a + n \<le> 1024 * m" "1024 * m < 2147483648"
  shows "\<exists>s'. file_read i f buf (int n) s es = Ret (int n) s' es \<and> file_here s' i m \<and>
    user_bytes s' buf n = map (file_byte s i) [a..<a + n] \<and> f_pos (file_table s' f) = int (a + n) \<and>
    (\<forall>pos<1024 * m. file_byte s' i pos = file_byte s i pos)"
proof -
  let ?bs = "map (file_byte s i) [a..<a + n]"
  define s1 where "s1 = user_store buf ?bs (set_pos f (a + n) s)"
  define s' where "s' = upd_inode i (\<lambda>x. x\<lparr>i_atime := now32 s1\<rparr>) s1"
  have run: "file_read i f buf (int n) s es = Ret (int n) s' es"
    using read_loop [OF assms(1,2,4,5), of "Suc n" buf es] assms(3)
    by (simp add: file_read_def krun s1_def s'_def del: iter_fuel.simps)
  have fr: "cache_skeleton s' = cache_skeleton s" "bufs s' = bufs s" "buffer_wait s' = buffer_wait s"
    "i_dev (inode_table s' i) = i_dev (inode_table s i)" "i_zone (inode_table s' i) = i_zone (inode_table s i)"
    "f_pos (file_table s' f) = int (a + n)"
    by (simp_all add: s'_def) (simp_all add: upd_inode_def s1_def)
  have "user_bytes s' buf n = user_bytes s1 buf n" by (simp add: user_bytes_def s'_def upd_inode_def)
  also have "\<dots> = ?bs" using user_bytes_store_all [of ?bs buf "set_pos f (a + n) s"] assms(4,5) by (simp add: s1_def)
  finally show ?thesis
    using run file_here_upd [OF assms(1) fr(1-5)] fr(6) by blast
qed

subsection \<open>Files as byte arrays\<close>

text \<open>
  C1. Reading and writing refine an array of bytes: with the blocks of the range mapped and in the
  cache (through index blocks too), \<open>file_write\<close> of \<open>n\<close> bytes at position \<open>a\<close> returns \<open>n\<close>,
  replaces exactly the bytes from \<open>a\<close> on by those of the user buffer, moves the position and lets
  the size grow to the end of the range; \<open>file_read\<close> at the same position then returns \<open>n\<close> and
  stores exactly the bytes written in the other buffer, and changes no byte of the file.
\<close>

lemma file_write_read:
  assumes "file_here s i m" "f_flags (file_table s f) AND O_APPEND = 0" "f_pos (file_table s f) = int a"
    and "0 < n" "a + n \<le> 1024 * m" "1024 * m < 2147483648"
  shows "\<exists>s1 s2. file_write i f buf (int n) s es = Ret (int n) s1 es \<and>
    (\<forall>pos<1024 * m. file_byte s1 i pos =
      (if a \<le> pos \<and> pos < a + n then umem s (buf + of_nat (pos - a)) else file_byte s i pos)) \<and>
    f_pos (file_table s1 f) = int (a + n) \<and> i_size (inode_table s1 i) = max (i_size (inode_table s i)) (of_nat (a + n)) \<and>
    file_read i f to (int n) (set_pos f a s1) es = Ret (int n) s2 es \<and> user_bytes s2 to n = user_bytes s buf n \<and>
    f_pos (file_table s2 f) = int (a + n) \<and> (\<forall>pos<1024 * m. file_byte s2 i pos = file_byte s1 i pos)"
proof -
  obtain s1 where s1: "file_write i f buf (int n) s es = Ret (int n) s1 es" "file_here s1 i m"
    "file_table s1 = (file_table s)(f := (file_table s f)\<lparr>f_pos := int (a + n)\<rparr>)"
    "written s1 s i m a n (\<lambda>j. umem s (buf + of_nat j))"
    "i_size (inode_table s1 i) = max (i_size (inode_table s i)) (of_nat (a + n))"
    using file_write_run [OF assms] by blast
  note u = file_here_upd [OF s1(2), of "set_pos f a s1"]
  have here: "file_here (set_pos f a s1) i m" by (rule u(1)) simp_all
  have same: "file_byte (set_pos f a s1) i pos = file_byte s1 i pos" if "pos < 1024 * m" for pos
    by (rule u(3) [OF _ _ _ _ _ that]) simp_all
  obtain s2 where s2: "file_read i f to (int n) (set_pos f a s1) es = Ret (int n) s2 es"
    "user_bytes s2 to n = map (file_byte (set_pos f a s1) i) [a..<a + n]" "f_pos (file_table s2 f) = int (a + n)"
    "\<forall>pos<1024 * m. file_byte s2 i pos = file_byte (set_pos f a s1) i pos"
    using file_read_run [OF here, of f a n to es] assms(4-6) by auto
  have "map (file_byte (set_pos f a s1) i) [a..<a + n] = user_bytes s buf n"
    using s1(4) same assms(5) by (intro nth_equalityI) (simp_all add: user_bytes_def written_def)
  then show ?thesis using s1 s2 same by (intro exI [of _ s1] exI [of _ s2]) (simp add: written_def)
qed

text \<open>A file of one block, in a cache of two buffers.\<close>

lemma small_file:
  "\<exists>s. file_here s 0 1 \<and> f_flags (file_table s 0) AND O_APPEND = 0 \<and> f_pos (file_table s 0) = int 3 \<and>
    umem s = (\<lambda>a. ucast a)"
proof -
  obtain b s where *: "cache_of 2 s" "b < 2" "b_dev (bufs s b) = 0x301" "b_blocknr (bufs s b) = 7" "b_lock (bufs s b) = 0"
    "buffer_wait s = None" "\<forall>c. b_count (bufs s c) \<noteq> 255"
    using cache0_getblk by (elim exE conjE) (rule that; assumption)
  define s1 where "s1 = upd_buf b (\<lambda>h. h\<lparr>b_uptodate := 1\<rparr>) s"
  define s' where "s' = set_pos 0 3 (upd_file 0 (\<lambda>x. x\<lparr>f_flags := 0\<rparr>) (upd_inode 0 (\<lambda>x. x\<lparr>i_dev := 0x301, i_zone := (\<lambda>_. 7)\<rparr>) (s1\<lparr>umem := (\<lambda>a. ucast a)\<rparr>)))"
  have bufs: "bufs s' = bufs s1" "NR_BUFFERS s' = 2" "buffer_wait s' = None"
    "i_dev (inode_table s' 0) = 0x301" "i_zone (inode_table s' 0) = (\<lambda>_. 7)"
    using * by (simp_all add: s'_def s1_def upd_inode_def upd_file_def upd_buf_def set_pos_def cache_of_def)
  have "cache_of 2 s1" using *(1) by (rule cache_of_frame [rotated]) (simp add: s1_def)
  then have "cache_of 2 s'" by (rule cache_of_frame [rotated]) (simp add: s'_def)
  then have calm: "cache_calm s'" using *(7) bufs by (simp add: cache_calm_def cache_of_def s1_def bufs_upd_buf)
  have "cached s' 0x301 7 = Some b"
  proof -
    have "cached s' 0x301 7 \<noteq> None"
      unfolding cached_def first_upto_None
      by (rule notI, drule spec [of _ b]) (use *(2-5) in \<open>simp add: bufs s1_def bufs_upd_buf\<close>)
    then obtain c where c: "cached s' 0x301 7 = Some c" by blast
    have "unique_ok s' {0..<2}" using calm bufs by (simp add: cache_calm_def cache_ok_def cache_at_def)
    moreover have "b_dev (bufs s' b) = 0x301" "b_blocknr (bufs s' b) = 7" using *(3,4) by (simp_all add: bufs s1_def bufs_upd_buf)
    then have "bkey s' c = bkey s' b" "b_dev (bufs s' b) \<noteq> 0" using cached_Some [OF c] by (simp_all add: bkey_def)
    moreover have "c \<in> {0..<2}" "b \<in> {0..<2}" using cached_Some [OF c] *(2) bufs(2) by simp_all
    ultimately have "c = b" using cached_Some [OF c] unfolding unique_ok_def by metis
    then show ?thesis using c by simp
  qed
  then have "data_buf s' 0 0 = Some b" by (simp add: data_buf_def zone_of_def zone_path_def bufs)
  then have "file_here s' 0 1" using calm by (simp add: file_here_def bufs index_bufs_def zone_path_def)
  moreover have "f_flags (file_table s' 0) = 0" "f_pos (file_table s' 0) = int 3" "umem s' = (\<lambda>a. ucast a)"
    by (simp_all add: s'_def) (simp_all add: set_pos_def upd_file_def upd_inode_def)
  ultimately show ?thesis by (intro exI [of _ s']) simp
qed

lemma file_write_read_witness:
  "\<exists>s s1 s2. umem s = (\<lambda>a. ucast a) \<and> file_write 0 0 100 5 s [] = Ret 5 s1 [] \<and> file_byte s1 0 4 = 101 \<and>
    file_read 0 0 500 5 (set_pos 0 3 s1) [] = Ret 5 s2 [] \<and> user_bytes s2 500 5 = [100, 101, 102, 103, 104]"
proof -
  obtain s where *: "file_here s 0 1" "f_flags (file_table s 0) AND O_APPEND = 0" "f_pos (file_table s 0) = int 3" "umem s = (\<lambda>a. ucast a)"
    using small_file by blast
  have "user_bytes s 100 5 = [100, 101, 102, 103, 104]" by (simp add: user_bytes_def *(4) upt_rec)
  moreover from file_write_read [OF *(1-3), of 5 100 "[]" 500] obtain s1 s2 where
    "file_write 0 0 100 5 s [] = Ret 5 s1 []" "file_byte s1 0 4 = 101"
    "file_read 0 0 500 5 (set_pos 0 3 s1) [] = Ret 5 s2 []" "user_bytes s2 500 5 = user_bytes s 100 5"
    by (auto simp: *(4))
  ultimately show ?thesis using *(4) by (intro exI [of _ s] exI [of _ s1] exI [of _ s2]) simp
qed

end
