(* ===== verification/Zones.thy ===== *)
theory Zones
  imports Fileio
begin

unbundle bit_operations_syntax

text \<open>
  Allocation of zones (\<open>new_block\<close> and \<open>free_block\<close> of fs/bitmap.c) against the set of the clear
  bits of a zone map.
\<close>

subsection \<open>The search for a clear bit\<close>

lemma bit_get16: "k < 16 \<Longrightarrow> bit (get16 d a) k \<longleftrightarrow> bit (d (a + k div 8)) (k mod 8)"
proof -
  assume k: "k < 16"
  show ?thesis
  proof (cases "k < 8")
    case True
    then show ?thesis by (simp add: get16_def bit_simps)
  next
    case False
    then obtain j where j: "k = 8 + j" "j < 8" using k le_Suc_ex [of 8 k] by auto
    then have "(8 + j) div 8 = 1" "(8 + j) mod 8 = j" by simp_all
    then show ?thesis using j by (auto simp: get16_def bit_simps dest: bit_imp_le_length)
  qed
qed

lemma bit_get32: "k < 32 \<Longrightarrow> bit (get32 d a) k \<longleftrightarrow> bit (d (a + k div 8)) (k mod 8)"
proof -
  assume k: "k < 32"
  show ?thesis
  proof (cases "k < 16")
    case True
    then show ?thesis by (simp add: get32_def bit_simps bit_get16)
  next
    case False
    then obtain j where j: "k = 16 + j" "j < 16" using k le_Suc_ex [of 16 k] by auto
    have "(16 + j) div 8 = 2 + j div 8" "(16 + j) mod 8 = j mod 8" by presburger+
    then show ?thesis using bit_get16 [of j d "a + 2"] j by (auto simp: get32_def bit_simps dest: bit_imp_le_length)
  qed
qed

lemma zero_loop_first:
  "8 dvd c \<Longrightarrow> c \<le> zero_loop n c d \<and> zero_loop n c d \<le> c + 32 * n \<and>
     (\<forall>k. c \<le> k \<and> k < zero_loop n c d \<longrightarrow> bit_at d k) \<and> (zero_loop n c d < c + 32 * n \<longrightarrow> \<not> bit_at d (zero_loop n c d))"
proof (induction n arbitrary: c)
  case (Suc n)
  then obtain q where q: "c = 8 * q" by blast
  have w: "bit (NOT (get32 d (c div 8))) k \<longleftrightarrow> \<not> bit_at d (c + k)" if "k < 32" for k
    using that by (simp add: bit_simps bit_get32 bit_at_def q)
  show ?case
  proof (cases "first_upto (bit (NOT (get32 d (c div 8)))) 32")
    case None
    then have full: "bit_at d (c + k)" if "k < 32" for k using w [OF that] that by (simp add: first_upto_None)
    have "8 dvd c + 32" using Suc.prems by simp
    note ih = Suc.IH [OF this]
    have "bit_at d k" if "c \<le> k" "k < zero_loop n (c + 32) d" for k
    proof (cases "k < c + 32")
      case True
      then show ?thesis using full [of "k - c"] that by simp
    qed (use ih that in auto)
    then show ?thesis using ih None by auto
  next
    case (Some k)
    note f = first_upto_Some [OF Some]
    then have "\<not> bit_at d (c + k)" using w [of k] by simp
    moreover have "bit_at d j" if "c \<le> j" "j < c + k" for j
      using w [of "j - c"] f that by auto
    ultimately show ?thesis using Some f by auto
  qed
qed auto

text \<open>\<open>find_first_zero\<close> finds the lowest clear bit of the 8192, or returns 8192.\<close>

lemma find_first_zero_first:
  "find_first_zero d \<le> 8192" "k < find_first_zero d \<Longrightarrow> bit_at d k"
  "find_first_zero d < 8192 \<Longrightarrow> \<not> bit_at d (find_first_zero d)"
  using zero_loop_first [of 0 256 d] by (auto simp: find_first_zero_def)

subsection \<open>The free zones of a device\<close>

text \<open>The clear bits of the zone map of the super block \<open>sp\<close>: bit \<open>k\<close> stands for zone \<open>k + s_firstdatazone - 1\<close>.\<close>

definition free_bits :: "kernel \<Rightarrow> sptr \<Rightarrow> nat set" where
  "free_bits s sp = {k. k < 8 * 8192 \<and> (case s_zmap (super_blocks s sp) (k div 8192) of
     None \<Rightarrow> False | Some b \<Rightarrow> \<not> bit_at (b_data (bufs s b)) (k mod 8192))}"

text \<open>The super block of the device is found and unlocked, and holds a buffer of its own for every slot.\<close>

definition mounted :: "kernel \<Rightarrow> u16 \<Rightarrow> sptr \<Rightarrow> bool" where
  "mounted s dev sp \<longleftrightarrow> dev \<noteq> 0 \<and> first_upto (\<lambda>i. s_dev (super_blocks s i) = dev) NR_SUPER = Some sp \<and>
     s_lock (super_blocks s sp) = 0 \<and>
     (\<forall>i<8. \<forall>b. s_zmap (super_blocks s sp) i = Some b \<longrightarrow> b < NR_BUFFERS s \<and> b_count (bufs s b) \<noteq> 0 \<and>
        (\<forall>j<8. s_zmap (super_blocks s sp) j = Some b \<longrightarrow> j = i))"

lemma get_super_run: "mounted s dev sp \<Longrightarrow> get_super dev s es = Ret (Some sp) s es"
  using first_upto_Some [of "\<lambda>i. s_dev (super_blocks s i) = dev" NR_SUPER sp]
  by (simp add: mounted_def get_super_def retry_def krun wait_on_super_def sleep_while_def)

lemma find_map_None:
  "find_map s m i n = None \<Longrightarrow> i \<le> j \<Longrightarrow> j < i + n \<Longrightarrow> m j = Some b \<Longrightarrow> k < 8192 \<Longrightarrow> bit_at (b_data (bufs s b)) k"
proof (induction n arbitrary: i)
  case (Suc n)
  then show ?case
    by (cases "i = j") (auto simp: Let_def split: option.splits if_splits intro: find_first_zero_first(2))
qed simp

lemma find_map_Some:
  "find_map s m i n = Some (j, b, k) \<Longrightarrow> i \<le> j \<and> j < i + n \<and> m j = Some b \<and> k < 8192 \<and> \<not> bit_at (b_data (bufs s b)) k \<and>
     (\<forall>l<k. bit_at (b_data (bufs s b)) l) \<and>
     (\<forall>j' b' l. i \<le> j' \<and> j' < j \<and> m j' = Some b' \<and> l < 8192 \<longrightarrow> bit_at (b_data (bufs s b')) l)"
proof (induction n arbitrary: i)
  case (Suc n)
  show ?case
  proof (cases "\<exists>c. m i = Some c \<and> find_first_zero (b_data (bufs s c)) < 8192")
    case True
    then obtain c where c: "m i = Some c" "find_first_zero (b_data (bufs s c)) < 8192" by blast
    then have "j = i" "b = c" "k = find_first_zero (b_data (bufs s c))" using Suc.prems by (auto simp: Let_def)
    then show ?thesis using c find_first_zero_first [where d = "b_data (bufs s c)"] by auto
  next
    case False
    have full: "bit_at (b_data (bufs s c)) l" if "m i = Some c" "l < 8192" for c l
      using False that find_first_zero_first(2) [of l "b_data (bufs s c)"] by (meson less_le_trans not_less)
    have "find_map s m (Suc i) n = Some (j, b, k)" using Suc.prems False by (auto simp: Let_def split: option.splits if_splits)
    note ih = Suc.IH [OF this]
    have "bit_at (b_data (bufs s b')) l" if "i \<le> j'" "j' < j" "m j' = Some b'" "l < 8192" for j' b' l
    proof (cases "j' = i")
      case False
      then have "Suc i \<le> j'" using that(1) by simp
      then show ?thesis using ih that by blast
    qed (use full that in blast)
    then show ?thesis using ih by auto
  qed
qed simp

text \<open>The block that \<open>new_block\<close> looks for is the first free bit.\<close>

lemma find_map_bits:
  assumes "find_map s (s_zmap (super_blocks s sp)) 0 8 = Some (j, b, k)"
  shows "j * 8192 + k \<in> free_bits s sp" "\<forall>l\<in>free_bits s sp. j * 8192 + k \<le> l"
proof -
  note f = find_map_Some [OF assms]
  have d: "(j * 8192 + k) div 8192 = j" "(j * 8192 + k) mod 8192 = k" using f by simp_all
  show "j * 8192 + k \<in> free_bits s sp" using f d by (simp add: free_bits_def)
  show "\<forall>l\<in>free_bits s sp. j * 8192 + k \<le> l"
  proof
    fix l assume l: "l \<in> free_bits s sp"
    then obtain c where c: "s_zmap (super_blocks s sp) (l div 8192) = Some c" "\<not> bit_at (b_data (bufs s c)) (l mod 8192)"
      by (auto simp: free_bits_def split: option.splits)
    have lt: "l mod 8192 < 8192" by simp
    have "\<not> l div 8192 < j" using f c lt by (metis le0)
    moreover have "k \<le> l mod 8192" if "l div 8192 = j" using f c that by (metis not_less option.inject)
    moreover have "l = l div 8192 * 8192 + l mod 8192" by simp
    ultimately show "j * 8192 + k \<le> l"
      using f mult_le_mono1 [of "Suc j" "l div 8192" 8192] by (cases "l div 8192 = j") linarith+
  qed
qed

lemma find_map_free: "free_bits s sp \<noteq> {} \<Longrightarrow> find_map s (s_zmap (super_blocks s sp)) 0 8 \<noteq> None"
proof
  assume "find_map s (s_zmap (super_blocks s sp)) 0 8 = None"
  moreover assume "free_bits s sp \<noteq> {}"
  then obtain l c where "l < 8 * 8192" "s_zmap (super_blocks s sp) (l div 8192) = Some c" "\<not> bit_at (b_data (bufs s c)) (l mod 8192)"
    by (auto simp: free_bits_def split: option.splits)
  ultimately show False using find_map_None [of s "s_zmap (super_blocks s sp)" 0 8 "l div 8192" c "l mod 8192"] by simp
qed

text \<open>Changing a bit of a zone map.\<close>

lemma bit_at_put_bit: "bit_at (put_bit v n d) k \<longleftrightarrow> (if k = n then v else bit_at d k)"
proof -
  have "n mod 8 < 8" by simp
  moreover have "k = n \<longleftrightarrow> k div 8 = n div 8 \<and> k mod 8 = n mod 8" by (metis div_mult_mod_eq)
  ultimately show ?thesis by (auto simp: bit_at_def put_bit_def bit_simps)
qed

definition put_zone :: "bool \<Rightarrow> bptr \<Rightarrow> nat \<Rightarrow> kernel \<Rightarrow> kernel" where
  "put_zone v b n = upd_buf b (\<lambda>h. h\<lparr>b_data := put_bit v n (b_data h), b_dirt := 1\<rparr>)"

lemma put_zone_fields [simp]:
  "NR_BUFFERS (put_zone v b n s) = NR_BUFFERS s" "buffer_wait (put_zone v b n s) = buffer_wait s"
  "super_blocks (put_zone v b n s) = super_blocks s" "cache_skeleton (put_zone v b n s) = cache_skeleton s"
  "b_dev (bufs (put_zone v b n s) c) = b_dev (bufs s c)" "b_blocknr (bufs (put_zone v b n s) c) = b_blocknr (bufs s c)"
  "b_lock (bufs (put_zone v b n s) c) = b_lock (bufs s c)" "b_count (bufs (put_zone v b n s) c) = b_count (bufs s c)"
  by (auto simp: put_zone_def upd_buf_def cache_skeleton_def skeleton_def)

lemma free_bits_put_zone:
  assumes "mounted s dev sp" "s_zmap (super_blocks s sp) j = Some b" "j < 8" "n < 8192"
  shows "free_bits (put_zone v b n s) sp = (if v then free_bits s sp - {j * 8192 + n} else insert (j * 8192 + n) (free_bits s sp))"
proof -
  have "l \<in> free_bits (put_zone v b n s) sp \<longleftrightarrow> (if l = j * 8192 + n then \<not> v else l \<in> free_bits s sp)" for l
  proof (cases "l < 8 * 8192 \<and> s_zmap (super_blocks s sp) (l div 8192) = Some b")
    case True
    then have "l div 8192 < 8" by (simp add: less_mult_imp_div_less)
    then have j: "l div 8192 = j" using assms(1-3) True unfolding mounted_def by blast
    then have "l = j * 8192 + n \<longleftrightarrow> l mod 8192 = n" using assms(4) by (metis add_left_cancel div_mult_mod_eq)
    then show ?thesis using True by (simp add: free_bits_def put_zone_def upd_buf_def bit_at_put_bit)
  next
    case False
    then have "l \<noteq> j * 8192 + n" using assms(2-4) by auto
    then show ?thesis using False by (auto simp: free_bits_def put_zone_def upd_buf_def split: option.splits)
  qed
  then show ?thesis by (auto split: if_splits)
qed

subsection \<open>Allocating and freeing\<close>

text \<open>The state in which the new block is cleared: its buffer is \<open>b\<close>.\<close>

definition fresh_block :: "bptr \<Rightarrow> kernel \<Rightarrow> kernel" where
  "fresh_block b = upd_buf b (\<lambda>h. (clear_block h)\<lparr>b_uptodate := 1, b_dirt := 1, b_count := 0\<rparr>)"

lemma skeleton_fresh_block [simp]: "cache_skeleton (fresh_block b s) = cache_skeleton s"
  unfolding fresh_block_def by (rule skeleton_upd_buf) (simp add: skeleton_def clear_block_def)

lemma new_block_run:
  assumes calm: "cache_calm s" and mnt: "mounted s dev sp"
    and n: "n \<in> free_bits s sp" "\<forall>l\<in>free_bits s sp. n \<le> l" "n \<noteq> 0"
    and z: "z + 1 = n + unat (s_firstdatazone (super_blocks s sp))" "z < unat (s_nzones (super_blocks s sp))"
    and new: "\<forall>c<NR_BUFFERS s. \<not> (b_dev (bufs s c) = dev \<and> b_blocknr (bufs s c) = of_nat z)"
    and f: "f < NR_BUFFERS s" "b_count (bufs s f) = 0" "b_dirt (bufs s f) = 0" "b_lock (bufs s f) = 0"
  shows "\<exists>zb b t. s_zmap (super_blocks s sp) (n div 8192) = Some zb \<and> b_count (bufs s b) = 0 \<and>
    getblk dev (of_nat z) (put_zone True zb (n mod 8192) s) es = Ret b t es \<and>
    new_block dev s es = Ret z (fresh_block b t) es \<and> cache_ok t \<and> b < NR_BUFFERS s \<and>
    b_dev (bufs t b) = dev \<and> b_blocknr (bufs t b) = of_nat z \<and> b_count (bufs t b) = 1 \<and> b_lock (bufs t b) = 0 \<and>
    elsewhere t (put_zone True zb (n mod 8192) s) \<and>
    (\<forall>c. c \<noteq> b \<longrightarrow> payload (bufs t c) = payload (bufs (put_zone True zb (n mod 8192) s) c))"
proof -
  obtain j zb k where m: "find_map s (s_zmap (super_blocks s sp)) 0 8 = Some (j, zb, k)"
    using find_map_free [of s sp] n(1) by (metis empty_iff prod_cases3 option.exhaust)
  note fm = find_map_Some [OF m] and fb = find_map_bits [OF m]
  have jk: "n = j * 8192 + k" using fb n(1,2) by (meson le_antisym)
  have d: "n div 8192 = j" "n mod 8192 = k" using fm jk by simp_all
  have zi: "int k + int j * 8192 + uint (s_firstdatazone (super_blocks s sp)) = int z + 1"
    using arg_cong [OF z(1), of int] jk by simp
  have "int z < int (unat (s_nzones (super_blocks s sp)))" using z(2) by (simp only: of_nat_less_iff)
  then have nz: "\<not> uint (s_nzones (super_blocks s sp)) \<le> int z" by simp
  let ?s1 = "put_zone True zb k s"
  have ok1: "cache_ok ?s1" using cache_of_frame [of ?s1 s "NR_BUFFERS s"] calm by (simp add: cache_of_def cache_calm_def)
  have zb: "zb < NR_BUFFERS s" "b_count (bufs s zb) \<noteq> 0" using mnt fm unfolding mounted_def by auto
  have fz: "f \<noteq> zb" using f(2) zb(2) by auto
  have f1: "b_dirt (bufs ?s1 f) = 0" using f(3) fz by (simp add: put_zone_def bufs_upd_buf)
  have pr: "\<forall>c<NR_BUFFERS ?s1. \<not> (b_dev (bufs ?s1 c) = dev \<and> b_blocknr (bufs ?s1 c) = of_nat z)"
    "f < NR_BUFFERS ?s1" "b_count (bufs ?s1 f) = 0" "b_lock (bufs ?s1 f) = 0" using new f by simp_all
  from getblk_free [OF ok1 pr(1,2,3) f1 pr(4), of es]
  obtain b t where g: "getblk dev (of_nat z) ?s1 es = Ret b t es" "cache_ok t" "b < NR_BUFFERS ?s1" "b_count (bufs ?s1 b) = 0"
    "b_dev (bufs t b) = dev" "b_blocknr (bufs t b) = of_nat z" "b_count (bufs t b) = 1" "b_lock (bufs t b) = 0"
    "elsewhere t ?s1" "\<forall>c. c \<noteq> b \<longrightarrow> payload (bufs t c) = payload (bufs ?s1 c) \<and> bkey t c = bkey ?s1 c"
    by (elim exE conjE) (rule that; assumption)
  have wait: "buffer_wait t = None" using elsewhere_wait [OF g(9)] calm by (simp add: cache_calm_def)
  have rel: "brelse (Some b) (upd_buf b (\<lambda>h. h\<lparr>b_uptodate := 1, b_dirt := 1\<rparr>) (upd_buf b clear_block t)) es =
      Ret () (fresh_block b t) es"
    using g(7,8) wait
    by (simp add: brelse_def krun bufs_upd_buf wait_on_buffer_def sleep_while_def wake_up_def wake_up_q_def clear_block_def
      fresh_block_def upd_buf_def fun_upd_def)
      (intro arg_cong [where f = "\<lambda>x. t\<lparr>bufs := x\<rparr>"] ext, simp)
  have put: "upd_buf zb (\<lambda>h. h\<lparr>b_dirt := 1\<rparr>) (upd_buf zb (\<lambda>h. h\<lparr>b_data := put_bit True k (b_data h)\<rparr>) s) = ?s1"
    by (simp add: put_zone_def upd_buf_def)
  have "new_block dev s es = Ret z (fresh_block b t) es"
    using get_super_run [OF mnt] m nz g(1,7) rel
    by (simp add: new_block_def krun put zi Let_def bufs_upd_buf clear_block_def)
  moreover have "b_count (bufs s b) = 0" "b < NR_BUFFERS s" using g(3,4) by simp_all
  ultimately show ?thesis
    unfolding d using fm g(1,2,5-9) conjunct1 [OF spec [OF g(10), THEN mp]]
    by (intro exI [of _ zb] exI [of _ b] exI [of _ t] conjI) simp_all
qed

lemma free_bits_cong:
  assumes "super_blocks s' sp = super_blocks s sp"
    "\<forall>i<8. \<forall>b. s_zmap (super_blocks s sp) i = Some b \<longrightarrow> b_data (bufs s' b) = b_data (bufs s b)"
  shows "free_bits s' sp = free_bits s sp"
proof -
  have "l \<in> free_bits s' sp \<longleftrightarrow> l \<in> free_bits s sp" for l
  proof (cases "l < 8 * 8192")
    case True
    then have "l div 8192 < 8" by (simp add: less_mult_imp_div_less)
    then show ?thesis using assms by (cases "s_zmap (super_blocks s sp) (l div 8192)") (simp_all add: free_bits_def)
  qed (simp add: free_bits_def)
  then show ?thesis by blast
qed

lemma mounted_cong:
  assumes "super_blocks s' = super_blocks s" "NR_BUFFERS s' = NR_BUFFERS s" "\<And>c. b_count (bufs s' c) = b_count (bufs s c)"
  shows "mounted s' dev sp = mounted s dev sp"
  unfolding mounted_def assms ..

lemma elsewhere_super: "elsewhere s' s \<Longrightarrow> super_blocks s' = super_blocks s \<and> NR_BUFFERS s' = NR_BUFFERS s"
  unfolding elsewhere_def
  by (frule arg_cong [where f = super_blocks], drule arg_cong [where f = NR_BUFFERS]) simp

lemma free_block_run:
  assumes calm: "cache_ok s" "buffer_wait s = None" and mnt: "mounted s dev sp"
    and z: "z + 1 = n + unat (s_firstdatazone (super_blocks s sp))" "z < unat (s_nzones (super_blocks s sp))" "n \<noteq> 0" "n < 8 * 8192"
    and b: "b < NR_BUFFERS s" "b_dev (bufs s b) = dev" "b_blocknr (bufs s b) = of_nat z" "b_count (bufs s b) = 0" "b_lock (bufs s b) = 0"
    and zb: "s_zmap (super_blocks s sp) (n div 8192) = Some zb" "bit_at (b_data (bufs s zb)) (n mod 8192)"
  shows "free_block dev z s es =
    Ret () (put_zone False zb (n mod 8192) (upd_buf b (\<lambda>h. h\<lparr>b_dirt := 0, b_uptodate := 0\<rparr>) s)) es"
proof -
  have dev: "dev \<noteq> 0" using mnt by (simp add: mounted_def)
  have zi: "z + 1 - unat (s_firstdatazone (super_blocks s sp)) = n" "\<not> z < unat (s_firstdatazone (super_blocks s sp))"
    using z(1,3) by simp_all
  have "n div 8192 < 8" using z(4) by (simp add: less_mult_imp_div_less)
  then have "b_count (bufs s zb) \<noteq> 0" using mnt zb(1) unfolding mounted_def by blast
  then have ne: "zb \<noteq> b" using b(4) by auto
  let ?s1 = "upd_buf b (\<lambda>h. h\<lparr>b_dirt := 0, b_uptodate := 0\<rparr>) s"
  have gh: "get_hash_table dev (of_nat z) s es = Ret (Some b) (upd_buf b (\<lambda>h. h\<lparr>b_count := b_count h + 1\<rparr>) s) es"
    using get_hash_cached [OF calm(1) b(1) _ b(5), of es] dev b(2,3) by simp
  have rel: "brelse (Some b) (upd_buf b (\<lambda>h. h\<lparr>b_dirt := 0, b_uptodate := 0\<rparr>) (upd_buf b (\<lambda>h. h\<lparr>b_count := b_count h + 1\<rparr>) s)) es =
      Ret () ?s1 es"
    using b(4,5) calm(2)
    by (simp add: brelse_def krun bufs_upd_buf wait_on_buffer_def sleep_while_def wake_up_def wake_up_q_def upd_buf_def fun_upd_def)
      (intro arg_cong [where f = "\<lambda>x. s\<lparr>bufs := x\<rparr>"] ext, simp)
  have put: "upd_buf zb (\<lambda>h. h\<lparr>b_dirt := 1\<rparr>) (upd_buf zb (\<lambda>h. h\<lparr>b_data := put_bit False k (b_data h)\<rparr>) t) = put_zone False zb k t" for k t
    by (simp add: put_zone_def upd_buf_def)
  have sb: "super_blocks (upd_buf b g t) = super_blocks t" for g t by (simp add: upd_buf_def)
  have bit: "bit_at (b_data (bufs ?s1 zb)) (n mod 8192)" using zb(2) ne by (simp add: bufs_upd_buf)
  show ?thesis
    unfolding free_block_def bnd_run get_super_run [OF mnt] res.case option.case gets_run
    using zi(2) z(2) gh rel zb(1) bit b(4)
    by (simp add: krun zi(1) [simplified] Let_def sb bufs_upd_buf put)
qed

text \<open>
  C10. On a mounted device whose lowest clear bit in the zone map is \<open>n\<close>, with a clean free buffer at
  hand, \<open>new_block\<close> returns zone \<open>n + s_firstdatazone - 1\<close>, takes exactly bit \<open>n\<close> out of the free
  ones, and leaves the block in the cache, in one buffer that is valid, to be written, not referenced
  and all zero; the cache stays in order.  \<open>free_block\<close> of this zone then gives exactly this bit
  back, and the block in the cache is neither valid nor written any more.
\<close>

lemma zone_alloc_free:
  assumes "cache_calm s" "mounted s dev sp"
    and "n \<in> free_bits s sp" "\<forall>l\<in>free_bits s sp. n \<le> l" "n \<noteq> 0"
    and "z + 1 = n + unat (s_firstdatazone (super_blocks s sp))" "z < unat (s_nzones (super_blocks s sp))"
    and "\<forall>c<NR_BUFFERS s. \<not> (b_dev (bufs s c) = dev \<and> b_blocknr (bufs s c) = of_nat z)"
    and "f < NR_BUFFERS s" "b_count (bufs s f) = 0" "b_dirt (bufs s f) = 0" "b_lock (bufs s f) = 0"
  shows "\<exists>s1 s2 b. new_block dev s es = Ret z s1 es \<and> free_bits s1 sp = free_bits s sp - {n} \<and> cache_ok s1 \<and>
    b < NR_BUFFERS s1 \<and> b_dev (bufs s1 b) = dev \<and> b_blocknr (bufs s1 b) = of_nat z \<and> b_uptodate (bufs s1 b) = 1 \<and>
    b_dirt (bufs s1 b) = 1 \<and> b_count (bufs s1 b) = 0 \<and> (\<forall>k<1024. b_data (bufs s1 b) k = 0) \<and>
    free_block dev z s1 es = Ret () s2 es \<and> free_bits s2 sp = free_bits s sp \<and>
    b_uptodate (bufs s2 b) = 0 \<and> b_dirt (bufs s2 b) = 0"
proof -
  obtain zb b t where zb: "s_zmap (super_blocks s sp) (n div 8192) = Some zb" "b_count (bufs s b) = 0"
    and new: "new_block dev s es = Ret z (fresh_block b t) es"
    and t: "cache_ok t" "b < NR_BUFFERS s" "b_dev (bufs t b) = dev" "b_blocknr (bufs t b) = of_nat z" "b_lock (bufs t b) = 0"
      "elsewhere t (put_zone True zb (n mod 8192) s)"
    and pay: "\<forall>c. c \<noteq> b \<longrightarrow> payload (bufs t c) = payload (bufs (put_zone True zb (n mod 8192) s) c)"
    using new_block_run [OF assms, of es] by (elim exE conjE) (rule that; assumption)
  define s0 where "s0 = put_zone True zb (n mod 8192) s"
  define s1 where "s1 = fresh_block b t"
  have n8: "n < 8 * 8192" using assms(3) by (simp add: free_bits_def)
  then have n': "n div 8192 < 8" "n div 8192 * 8192 + n mod 8192 = n" by (simp_all add: less_mult_imp_div_less)
  have el: "super_blocks t = super_blocks s" "NR_BUFFERS t = NR_BUFFERS s" "buffer_wait t = None"
    using elsewhere_super [OF t(6)] elsewhere_wait [OF t(6)] assms(1) by (simp_all add: cache_calm_def)
  have s1: "super_blocks s1 = super_blocks s" "NR_BUFFERS s1 = NR_BUFFERS s" "buffer_wait s1 = None"
    using el by (simp_all add: s1_def fresh_block_def upd_buf_def)
  have map_other: "c \<noteq> b" if "i < 8" "s_zmap (super_blocks s sp) i = Some c" for i c
    using assms(2) that zb(2) unfolding mounted_def by auto
  have other: "b_data (bufs s1 c) = b_data (bufs s0 c) \<and> b_count (bufs s1 c) = b_count (bufs s c)" if "c \<noteq> b" for c
    using pay that by (simp add: s0_def s1_def fresh_block_def bufs_upd_buf payload_def)
  have sb0: "super_blocks s0 = super_blocks s" by (simp add: s0_def)
  have fb0: "free_bits s0 sp = free_bits s sp - {n}"
    using free_bits_put_zone [OF assms(2) zb(1) n'(1), of "n mod 8192" True] n'(2) by (simp add: s0_def)
  have "free_bits s1 sp = free_bits s0 sp"
    by (rule free_bits_cong) (use s1 other map_other sb0 in auto)
  then have fb1: "free_bits s1 sp = free_bits s sp - {n}" using fb0 by simp
  have m1: "mounted s1 dev sp"
  proof -
    have "b_count (bufs s1 c) = b_count (bufs s c)" if "i < 8" "s_zmap (super_blocks s sp) i = Some c" for i c
      using other [OF map_other [OF that]] by blast
    then have "s_zmap (super_blocks s sp) i = Some c \<Longrightarrow> i < 8 \<Longrightarrow> b_count (bufs s1 c) \<noteq> 0" for i c
      using assms(2) unfolding mounted_def by metis
    then show ?thesis using assms(2) unfolding mounted_def s1(1,2) by blast
  qed
  have ok1: "cache_ok s1" using cache_of_frame [of s1 t "NR_BUFFERS t"] t(1) by (simp add: cache_of_def s1_def)
  have bz: "zb \<noteq> b" using map_other [OF n'(1) zb(1)] .
  have bit: "bit_at (b_data (bufs s1 zb)) (n mod 8192)"
    using other [OF bz] by (simp add: s0_def put_zone_def bufs_upd_buf bit_at_put_bit)
  have fields: "b_dev (bufs s1 b) = dev" "b_blocknr (bufs s1 b) = of_nat z" "b_count (bufs s1 b) = 0" "b_lock (bufs s1 b) = 0"
    "b_uptodate (bufs s1 b) = 1" "b_dirt (bufs s1 b) = 1" "\<forall>k<1024. b_data (bufs s1 b) k = 0"
    using t(3-5) by (simp_all add: s1_def fresh_block_def bufs_upd_buf clear_block_def)
  define s2 where "s2 = upd_buf b (\<lambda>h. h\<lparr>b_dirt := 0, b_uptodate := 0\<rparr>) s1"
  let ?k = "n mod 8192"
  have s2: "super_blocks s2 = super_blocks s1" "\<And>c. b_data (bufs s2 c) = b_data (bufs s1 c)" by (simp_all add: s2_def upd_buf_def)
  have free: "free_block dev z s1 es = Ret () (put_zone False zb ?k s2) es"
    unfolding s2_def
    by (rule free_block_run [OF ok1 s1(3) m1 _ _ assms(5) n8]) (use assms(6,7) s1 t(2) fields zb(1) bit in simp_all)
  have "mounted s2 dev sp = mounted s1 dev sp" by (rule mounted_cong) (simp_all add: s2_def upd_buf_def)
  then have m2: "mounted s2 dev sp" using m1 by simp
  have zm: "s_zmap (super_blocks s2 sp) (n div 8192) = Some zb" using zb(1) s1(1) s2(1) by simp
  have "free_bits s2 sp = free_bits s1 sp"
    by (rule free_bits_cong) (simp_all add: s2)
  then have fb2: "free_bits (put_zone False zb ?k s2) sp = free_bits s sp"
    using free_bits_put_zone [OF m2 zm n'(1), of ?k False] unfolding n'(2) \<open>free_bits s2 sp = free_bits s1 sp\<close> fb1
    using insert_absorb [OF assms(3)] by simp
  have "b_uptodate (bufs (put_zone False zb ?k s2) b) = 0" "b_dirt (bufs (put_zone False zb ?k s2) b) = 0"
    using bz by (simp_all add: put_zone_def s2_def bufs_upd_buf)
  then show ?thesis
    using new [folded s1_def] fb1 ok1 s1(2) t(2) fields free fb2
    by (intro exI [of _ s1] exI [of _ "put_zone False zb ?k s2"] exI [of _ b] conjI) simp_all
qed

text \<open>A device with one block of zone map, whose bits 0, 8, 16 and so on are set.\<close>

lemma small_map:
  "\<exists>s f. cache_calm s \<and> mounted s 0x301 0 \<and> 1 \<in> free_bits s 0 \<and> (\<forall>l\<in>free_bits s 0. 1 \<le> l) \<and>
    s_firstdatazone (super_blocks s 0) = 10 \<and> s_nzones (super_blocks s 0) = 100 \<and>
    (\<forall>c<NR_BUFFERS s. \<not> (b_dev (bufs s c) = 0x301 \<and> b_blocknr (bufs s c) = 10)) \<and>
    f < NR_BUFFERS s \<and> b_count (bufs s f) = 0 \<and> b_dirt (bufs s f) = 0 \<and> b_lock (bufs s f) = 0"
proof -
  obtain b s where *: "cache_of 2 s" "b < 2" "b_dev (bufs s b) = 0x301" "b_blocknr (bufs s b) = 7" "b_lock (bufs s b) = 0"
    "buffer_wait s = None" "\<forall>c. b_count (bufs s c) \<noteq> 255" "b_count (bufs s b) = 1"
    "\<forall>c. c \<noteq> b \<longrightarrow> b_count (bufs s c) = 0 \<and> b_dirt (bufs s c) = 0 \<and> b_lock (bufs s c) = 0 \<and> b_dev (bufs s c) = 0"
    using cache0_getblk by (elim exE conjE) (rule that; assumption)
  define s1 where "s1 = upd_buf b (\<lambda>h. h\<lparr>b_data := (\<lambda>_. 1)\<rparr>) s"
  define s' where "s' = upd_super 0 (\<lambda>_. blank_super_block\<lparr>s_dev := 0x301, s_firstdatazone := 10, s_nzones := 100,
    s_zmap := (\<lambda>i. if i = 0 then Some b else None)\<rparr>) s1"
  have sb: "super_blocks s' 0 = blank_super_block\<lparr>s_dev := 0x301, s_firstdatazone := 10, s_nzones := 100,
    s_zmap := (\<lambda>i. if i = 0 then Some b else None)\<rparr>" by (simp add: s'_def upd_super_def)
  have "cache_of 2 s1" using *(1) by (rule cache_of_frame [rotated]) (simp add: s1_def)
  then have c': "cache_of 2 s'" by (rule cache_of_frame [rotated]) (simp add: s'_def)
  have bf: "bufs s' c = (if c = b then (bufs s b)\<lparr>b_data := (\<lambda>_. 1)\<rparr> else bufs s c)" "buffer_wait s' = None" "NR_BUFFERS s' = 2" for c
    using * by (simp_all add: s'_def s1_def upd_super_def upd_buf_def cache_of_def)
  have calm: "cache_calm s'" using c' *(7) bf by (simp add: cache_calm_def cache_of_def)
  have "first_upto (\<lambda>i. s_dev (super_blocks s' i) = 0x301) NR_SUPER = Some 0"
    by (simp add: first_upto_def NR_SUPER_def sb numeral_nat)
  then have m: "mounted s' 0x301 0" using *(2,8) by (auto simp: mounted_def sb bf blank_super_block_def split: if_splits)
  have fr: "l \<in> free_bits s' 0 \<longleftrightarrow> l < 8192 \<and> l mod 8 \<noteq> 0" for l
    by (auto simp: free_bits_def sb bf bit_at_def bit_1_iff split: if_splits)
  obtain f where f: "f < 2" "f \<noteq> b" by (rule that [of "if b = 0 then 1 else 0"]) auto
  have "1 \<in> free_bits s' 0" "\<forall>l\<in>free_bits s' 0. 1 \<le> l" by (auto simp: fr Suc_le_eq intro: gr0I)
  then show ?thesis using calm m f *(2-9) by (intro exI [of _ s'] exI [of _ f]) (auto simp: bf sb)
qed

lemma zone_alloc_free_witness:
  "\<exists>s s1 s2. new_block 0x301 s [] = Ret 10 s1 [] \<and> 1 \<in> free_bits s 0 \<and> 1 \<notin> free_bits s1 0 \<and>
    free_block 0x301 10 s1 [] = Ret () s2 [] \<and> 1 \<in> free_bits s2 0"
proof -
  obtain s f where *: "cache_calm s" "mounted s 0x301 0" "1 \<in> free_bits s 0" "\<forall>l\<in>free_bits s 0. 1 \<le> l"
    "s_firstdatazone (super_blocks s 0) = 10" "s_nzones (super_blocks s 0) = 100"
    "\<forall>c<NR_BUFFERS s. \<not> (b_dev (bufs s c) = 0x301 \<and> b_blocknr (bufs s c) = 10)"
    "f < NR_BUFFERS s" "b_count (bufs s f) = 0" "b_dirt (bufs s f) = 0" "b_lock (bufs s f) = 0"
    using small_map by (elim exE conjE) (rule that; assumption)
  obtain s1 s2 where "new_block 0x301 s [] = Ret 10 s1 []" "free_bits s1 0 = free_bits s 0 - {1}"
    "free_block 0x301 10 s1 [] = Ret () s2 []" "free_bits s2 0 = free_bits s 0"
    using zone_alloc_free [OF *(1-4), of 10 f "[]"] *(5-11) by auto
  then show ?thesis using *(3) by (intro exI [of _ s] exI [of _ s1] exI [of _ s2]) simp
qed

end
