(* ===== verification/Argstack.thy ===== *)
theory Argstack
  imports Exec
begin

unbundle bit_operations_syntax

text \<open>
  The stack of a new program: what \<open>create_tables\<close> of fs/exec.c builds from the strings that
  \<open>copy_strings\<close> left at the end of the user space.  Addresses are numbers below 2 to the 32.
\<close>

subsection \<open>Words in the user space\<close>

definition word_at :: "(u32 \<Rightarrow> u8) \<Rightarrow> u32 \<Rightarrow> u32" where
  "word_at m a = ucast (m a) OR push_bit 8 (ucast (m (a + 1))) OR push_bit 16 (ucast (m (a + 2))) OR
     push_bit 24 (ucast (m (a + 3)))"

definition put_word :: "u32 \<Rightarrow> u32 \<Rightarrow> (u32 \<Rightarrow> u8) \<Rightarrow> (u32 \<Rightarrow> u8)" where
  "put_word v a m = m(a := ucast v, a + 1 := ucast (drop_bit 8 v), a + 2 := ucast (drop_bit 16 v), a + 3 := ucast (drop_bit 24 v))"

lemma fs_long: "put_fs_long v a s = s\<lparr>umem := put_word v a (umem s)\<rparr>" "get_fs_long s a = word_at (umem s) a"
  by (simp_all add: put_fs_long_def put_word_def get_fs_long_def word_at_def)

lemma word_bytes:
  "(ucast (ucast (v :: u32) :: u8) :: u32) OR push_bit 8 (ucast (ucast (drop_bit 8 v) :: u8)) OR
     push_bit 16 (ucast (ucast (drop_bit 16 v) :: u8)) OR push_bit 24 (ucast (ucast (drop_bit 24 v) :: u8)) = v"
proof (rule bit_word_eqI)
  fix n assume n: "n < LENGTH(32)"
  consider "n < 8" | "8 \<le> n" "n < 16" | "16 \<le> n" "n < 24" | "24 \<le> n" by linarith
  then show "bit ((ucast (ucast (v :: u32) :: u8) :: u32) OR push_bit 8 (ucast (ucast (drop_bit 8 v) :: u8)) OR
     push_bit 16 (ucast (ucast (drop_bit 16 v) :: u8)) OR push_bit 24 (ucast (ucast (drop_bit 24 v) :: u8))) n = bit v n"
    using n by cases (simp_all add: bit_simps, auto)
qed

lemma of_nat_neq: "x < 4294967296 \<Longrightarrow> y < 4294967296 \<Longrightarrow> (of_nat x :: u32) = of_nat y \<longleftrightarrow> x = y"
  by (auto simp: word_unat_eq_iff unat_of_nat)

lemma put_word_other:
  assumes "a + 4 \<le> 4294967296" "x < 4294967296" "x < a \<or> a + 4 \<le> x"
  shows "put_word v (of_nat a) m (of_nat x) = m (of_nat x)"
proof -
  have "(of_nat x :: u32) \<noteq> of_nat (a + k)" if "k < 4" for k
    using of_nat_neq [of x "a + k"] assms that by auto
  from this [of 0] this [of 1] this [of 2] this [of 3] show ?thesis by (simp add: put_word_def add.commute)
qed

lemma word_at_put: "word_at (put_word v a m) a = v"
proof -
  have "a + 1 \<noteq> a" "a + 2 \<noteq> a" "a + 3 \<noteq> a" "a + 1 \<noteq> a + 2" "a + 1 \<noteq> a + 3" "a + 2 \<noteq> a + 3" by simp_all
  then show ?thesis using word_bytes [of v] by (simp add: word_at_def put_word_def)
qed

lemma word_at_same:
  assumes "\<And>k. k < 4 \<Longrightarrow> m' (of_nat (a + k)) = m (of_nat (a + k))"
  shows "word_at m' (of_nat a) = word_at m (of_nat a)"
  using assms [of 0] assms [of 1] assms [of 2] assms [of 3] by (simp add: word_at_def add.commute)

subsection \<open>Strings\<close>

fun strs_at :: "(u32 \<Rightarrow> u8) \<Rightarrow> nat \<Rightarrow> u8 list list \<Rightarrow> bool" where
  "strs_at m a [] \<longleftrightarrow> True"
| "strs_at m a (w # ws) \<longleftrightarrow> 0 \<notin> set w \<and> (\<forall>j<length w. m (of_nat (a + j)) = w ! j) \<and> m (of_nat (a + length w)) = 0 \<and>
     strs_at m (a + length w + 1) ws"

text \<open>The distance of string \<open>k\<close> from the first, and the size of all.\<close>

definition str_off :: "u8 list list \<Rightarrow> nat \<Rightarrow> nat" where
  "str_off ws k = sum_list (map (\<lambda>w. length w + 1) (take k ws))"

lemma scan_string:
  assumes "0 \<notin> set w" "\<forall>j<length w. m (of_nat (a + j)) = w ! j" "m (of_nat (a + length w)) = 0" "length w < n"
  shows "scan_until n m (\<lambda>c. c = 0) (of_nat a) = Some (length w)"
  using assms
proof (induction w arbitrary: a n)
  case Nil
  then show ?case by (cases n) simp_all
next
  case (Cons c w)
  obtain n' where n: "n = Suc n'" using Cons.prems(4) by (cases n) auto
  have "m (of_nat a) = c" using Cons.prems(2) by (metis add_0_right length_greater_0_conv list.discI nth_Cons_0)
  moreover have "scan_until n' m (\<lambda>c. c = 0) (of_nat (Suc a)) = Some (length w)"
  proof (rule Cons.IH)
    show "\<forall>j<length w. m (of_nat (Suc a + j)) = w ! j"
    proof (intro allI impI)
      fix j assume "j < length w"
      then show "m (of_nat (Suc a + j)) = w ! j" using Cons.prems(2) [rule_format, of "Suc j"] by simp
    qed
  qed (use Cons.prems n in simp_all)
  moreover have "m (of_nat a) \<noteq> 0" using Cons.prems(1) calculation(1) by auto
  ultimately show ?case by (simp add: n add.commute)
qed

lemma strs_at_same:
  "strs_at m a ws \<Longrightarrow> (\<And>x. a \<le> x \<Longrightarrow> x < a + str_off ws (length ws) \<Longrightarrow> m' (of_nat x) = m (of_nat x)) \<Longrightarrow> strs_at m' a ws"
proof (induction ws arbitrary: a)
  case (Cons w ws)
  have "str_off (w # ws) (length (w # ws)) = length w + 1 + str_off ws (length ws)" by (simp add: str_off_def)
  note eq = Cons.prems(2) [unfolded this]
  have "strs_at m' (a + length w + 1) ws"
    by (rule Cons.IH) (use Cons.prems(1) eq in auto)
  moreover have "m' (of_nat (a + j)) = m (of_nat (a + j))" if "j \<le> length w" for j
    using eq [of "a + j"] that by simp
  ultimately show ?case using Cons.prems(1) by simp
qed simp

text \<open>
  The pointers to the strings from \<open>a\<close> on are stored from \<open>t\<close> on, with a zero at the end; nothing
  else changes.
\<close>

lemma put_ptrs_run:
  assumes "strs_at (umem s) a ws" "t + 4 * (length ws + 1) \<le> a" "a + str_off ws (length ws) \<le> 4294967296"
  shows "\<exists>m'. put_ptrs (length ws) (of_nat t) (of_nat a) s es = Ret (of_nat (a + str_off ws (length ws))) (s\<lparr>umem := m'\<rparr>) es \<and>
    (\<forall>k<length ws. word_at m' (of_nat (t + 4 * k)) = of_nat (a + str_off ws k)) \<and>
    word_at m' (of_nat (t + 4 * length ws)) = 0 \<and>
    (\<forall>x<4294967296. x < t \<or> t + 4 * (length ws + 1) \<le> x \<longrightarrow> m' (of_nat x) = umem s (of_nat x))"
  using assms
proof (induction ws arbitrary: s a t)
  case Nil
  then show ?case
    using put_word_other [of t _ 0 "umem s"] word_at_put [of 0 "of_nat t" "umem s"]
    by (intro exI [of _ "put_word 0 (of_nat t) (umem s)"]) (auto simp: krun fs_long str_off_def)
next
  case (Cons w ws)
  let ?n = "length ws" and ?m1 = "put_word (of_nat a) (of_nat t) (umem s)"
  let ?a = "a + length w + 1"
  have off: "str_off (w # ws) (Suc k) = length w + 1 + str_off ws k" for k by (simp add: str_off_def)
  have lim: "?a + str_off ws ?n \<le> 4294967296" using Cons.prems(3) off [of ?n] by simp
  have st: "strs_at ?m1 a (w # ws)"
    by (rule strs_at_same [OF Cons.prems(1)], rule put_word_other) (use Cons.prems(2,3) in auto)
  have len: "length w < 4294967296" using lim by simp
  have scan: "scan_until 4294967296 ?m1 (\<lambda>c. c = 0) (of_nat a) = Some (length w)"
    by (rule scan_string) (use st len in simp_all)
  obtain m' where m': "put_ptrs ?n (of_nat (t + 4)) (of_nat ?a) (s\<lparr>umem := ?m1\<rparr>) es =
      Ret (of_nat (?a + str_off ws ?n)) (s\<lparr>umem := ?m1, umem := m'\<rparr>) es"
    "\<forall>k<?n. word_at m' (of_nat (t + 4 + 4 * k)) = of_nat (?a + str_off ws k)" "word_at m' (of_nat (t + 4 + 4 * ?n)) = 0"
    "\<forall>x<4294967296. x < t + 4 \<or> t + 4 + 4 * (?n + 1) \<le> x \<longrightarrow> m' (of_nat x) = ?m1 (of_nat x)"
    using Cons.IH [of "s\<lparr>umem := ?m1\<rparr>" ?a "t + 4"] st Cons.prems(2) lim by auto
  have run: "put_ptrs (length (w # ws)) (of_nat t) (of_nat a) s es =
      Ret (of_nat (a + str_off (w # ws) (length (w # ws)))) (s\<lparr>umem := m'\<rparr>) es"
    using m'(1) scan off [of ?n] by (simp add: krun fs_long user_scan_def add_ac)
  have first: "word_at m' (of_nat t) = of_nat a"
  proof -
    have "word_at m' (of_nat t) = word_at ?m1 (of_nat t)"
      by (rule word_at_same, rule m'(4) [rule_format]) (use Cons.prems(2,3) in auto)
    then show ?thesis by (simp add: word_at_put)
  qed
  have "word_at m' (of_nat (t + 4 * k)) = of_nat (a + str_off (w # ws) k)" if "k < length (w # ws)" for k
  proof (cases k)
    case 0
    then show ?thesis using first by (simp add: str_off_def)
  next
    case (Suc j)
    then show ?thesis using m'(2) [rule_format, of j] that by (simp add: off add_ac)
  qed
  moreover have "m' (of_nat x) = umem s (of_nat x)" if "x < 4294967296" "x < t \<or> t + 4 * (length (w # ws) + 1) \<le> x" for x
    using m'(4) [rule_format, of x] put_word_other [of t x "of_nat a" "umem s"] that Cons.prems(2,3) by auto
  ultimately show ?case using run m'(3) by (intro exI [of _ m']) (simp add: add_ac)
qed

lemma strs_at_append:
  "strs_at m a (us @ ws) \<longleftrightarrow> strs_at m a us \<and> strs_at m (a + str_off us (length us)) ws"
  by (induction us arbitrary: a) (auto simp: str_off_def add_ac)

lemma str_off_append:
  "str_off (us @ ws) (length us + k) = str_off us (length us) + str_off ws k"
  "k \<le> length us \<Longrightarrow> str_off (us @ ws) k = str_off us k"
  by (simp_all add: str_off_def)

lemma align_word: "(a :: u32) AND 0xfffffffc = push_bit 2 (drop_bit 2 a)"
proof -
  have eq: "(0xfffffffc :: u32) = push_bit 2 (mask 30)" by (simp add: mask_eq_exp_minus_1 push_bit_eq_mult)
  show ?thesis unfolding eq
  proof (rule bit_word_eqI)
    fix n assume "n < LENGTH(32)"
    show "bit (a AND push_bit 2 (mask 30)) n = bit (push_bit 2 (drop_bit 2 a)) n"
      using \<open>n < LENGTH(32)\<close> le_Suc_ex [of 2 n] by (cases "2 \<le> n") (auto simp: bit_simps)
  qed
qed

lemma align_of_nat:
  assumes "P < 4294967296"
  shows "(of_nat P :: u32) AND 0xfffffffc = of_nat (P div 4 * 4)"
proof -
  have P: "unat (of_nat P :: u32) = P" using assms by (simp add: unat_of_nat)
  have "P div 4 * 4 < 4294967296" using assms div_times_less_eq_dividend [of P 4] by linarith
  then have "unat (push_bit 2 (drop_bit 2 (of_nat P :: u32))) = P div 4 * 4"
    by (simp add: push_bit_eq_mult drop_bit_eq_div unat_word_ariths unat_div P)
  then show ?thesis unfolding align_word using word_unat_eq_iff [of "push_bit 2 (drop_bit 2 (of_nat P :: u32))" "of_nat (P div 4 * 4)"]
    by (simp add: unat_of_nat \<open>P div 4 * 4 < 4294967296\<close> del: of_nat_mult)
qed

subsection \<open>The stack of a new program\<close>

text \<open>The pointers that \<open>create_tables\<close> computes, as numbers: no subtraction wraps when there is room.\<close>

definition stack_top :: "nat \<Rightarrow> nat \<Rightarrow> nat" where
  "stack_top P n = P div 4 * 4 - (4 * (n + 2) + 12)"

lemma create_tables_ptrs_nat:
  assumes "P < 4294967296" "4 * (argc + envc + 2) + 12 \<le> P div 4 * 4"
  shows "create_tables_ptrs (of_nat P) argc envc =
    (of_nat (stack_top P (argc + envc) + 12), of_nat (stack_top P (argc + envc) + 12 + 4 * (argc + 1)))"
proof -
  define sp where "sp = stack_top P (argc + envc)"
  have eq: "P div 4 * 4 = sp + 12 + 4 * (argc + 1) + 4 * (envc + 1)"
    using assms(2) by (simp add: sp_def stack_top_def)
  show ?thesis
    unfolding create_tables_ptrs_def align_of_nat [OF assms(1)] Let_def eq sp_def [symmetric]
    by (simp add: algebra_simps)
qed

text \<open>The three words below the tables.\<close>

definition put_header :: "nat \<Rightarrow> nat \<Rightarrow> nat \<Rightarrow> nat \<Rightarrow> (u32 \<Rightarrow> u8) \<Rightarrow> (u32 \<Rightarrow> u8)" where
  "put_header argc argv envp sp m = put_word (of_nat argc) (of_nat sp) (put_word (of_nat argv) (of_nat (sp + 4))
     (put_word (of_nat envp) (of_nat (sp + 8)) m))"

lemma put_header_other:
  assumes "sp + 12 \<le> 4294967296" "x < 4294967296" "x < sp \<or> sp + 12 \<le> x"
  shows "put_header argc argv envp sp m (of_nat x) = m (of_nat x)"
proof -
  have "put_word v (of_nat (sp + d)) m (of_nat x) = m (of_nat x)" if "d \<le> 8" for v d m
    using that assms by (intro put_word_other) auto
  from this [of 0] this [of 4] this [of 8] show ?thesis by (simp add: put_header_def)
qed

lemma put_header_words:
  assumes "sp + 12 \<le> 4294967296"
  shows "word_at (put_header argc argv envp sp m) (of_nat sp) = of_nat argc"
    and "word_at (put_header argc argv envp sp m) (of_nat (sp + 4)) = of_nat argv"
    and "word_at (put_header argc argv envp sp m) (of_nat (sp + 8)) = of_nat envp"
proof -
  have skip: "word_at (put_word v (of_nat b) m') (of_nat a) = word_at m' (of_nat a)"
    if "b + 4 \<le> a" "a + 4 \<le> 4294967296" for v a b m'
    by (rule word_at_same, rule put_word_other) (use that in auto)
  have far: "sp + 4 \<le> sp + 8" "sp + 4 + 4 \<le> sp + 8" "sp + 8 + 4 \<le> 4294967296" "sp + 4 + 4 \<le> 4294967296" using assms by simp_all
  show "word_at (put_header argc argv envp sp m) (of_nat sp) = of_nat argc"
    by (simp add: put_header_def word_at_put)
  show "word_at (put_header argc argv envp sp m) (of_nat (sp + 4)) = of_nat argv"
    unfolding put_header_def skip [OF order_refl far(4)] by (rule word_at_put)
  show "word_at (put_header argc argv envp sp m) (of_nat (sp + 8)) = of_nat envp"
    unfolding put_header_def skip [OF far(1,3)] skip [OF far(2,3)] by (rule word_at_put)
qed

text \<open>
  C37. When the argument and environment strings lie one after the other from \<open>P\<close> to the end of
  the user space and there is room below them, \<open>create_tables\<close> lays out the stack that a new
  program finds: \<open>argc\<close>, \<open>argv\<close> and \<open>envp\<close> at the stack pointer that it returns, then the two
  tables, where entry \<open>k\<close> is the address of string \<open>k\<close> and a NULL ends each table.  Nothing below
  the stack pointer and no byte of the strings changes.
\<close>

lemma create_tables_layout:
  assumes "strs_at (umem s) P ws" "length ws = argc + envc" "P < 4294967296"
    and "4 * (argc + envc + 2) + 12 \<le> P div 4 * 4" "P + str_off ws (argc + envc) \<le> 4294967296"
  defines "sp \<equiv> stack_top P (argc + envc)"
  shows "\<exists>m'. create_tables (of_nat P) argc envc s es = Ret (of_nat sp) (s\<lparr>umem := m'\<rparr>) es \<and>
    word_at m' (of_nat sp) = of_nat argc \<and>
    word_at m' (of_nat (sp + 4)) = of_nat (sp + 12) \<and>
    word_at m' (of_nat (sp + 8)) = of_nat (sp + 12 + 4 * (argc + 1)) \<and>
    (\<forall>k<argc. word_at m' (of_nat (sp + 12 + 4 * k)) = of_nat (P + str_off ws k)) \<and>
    word_at m' (of_nat (sp + 12 + 4 * argc)) = 0 \<and>
    (\<forall>k<envc. word_at m' (of_nat (sp + 12 + 4 * (argc + 1) + 4 * k)) = of_nat (P + str_off ws (argc + k))) \<and>
    word_at m' (of_nat (sp + 12 + 4 * (argc + 1) + 4 * envc)) = 0 \<and>
    (\<forall>x<4294967296. x < sp \<or> P div 4 * 4 \<le> x \<longrightarrow> m' (of_nat x) = umem s (of_nat x))"
proof -
  define us vs where "us = take argc ws" and "vs = drop argc ws"
  have ws: "ws = us @ vs" "length us = argc" "length vs = envc"
    using assms(2) by (simp_all add: us_def vs_def)
  have lim: "sp + 12 + 4 * (argc + 1) + 4 * (envc + 1) = P div 4 * 4" "P div 4 * 4 \<le> P"
    using assms(4) by (simp_all add: sp_def stack_top_def)
  have room: "sp + 12 + 4 * (argc + 1) + 4 * (envc + 1) \<le> P" using lim by (metis)
  let ?argv = "sp + 12" and ?envp = "sp + 12 + 4 * (argc + 1)"
  have off: "str_off us argc + str_off vs envc = str_off ws (argc + envc)" "\<And>k. str_off ws (argc + k) = str_off us argc + str_off vs k"
    using str_off_append(1) [of us vs] ws by auto
  have offu: "str_off us k = str_off ws k" if "k \<le> argc" for k
    using str_off_append(2) [of k us vs] ws that by simp
  let ?m1 = "put_header argc ?argv ?envp sp (umem s)"
  have top: "sp + 12 \<le> 4294967296" using room assms(3) by simp
  note m1 = put_header_other [OF top] and words = put_header_words [OF top]
  have "strs_at ?m1 P ws"
    by (rule strs_at_same [OF assms(1)], rule m1) (use assms(2,5) lim in auto)
  then have st1: "strs_at ?m1 P us" "strs_at ?m1 (P + str_off us argc) vs"
    using strs_at_append [of ?m1 P us vs] ws by simp_all
  obtain m2 where m2: "put_ptrs argc (of_nat ?argv) (of_nat P) (s\<lparr>umem := ?m1\<rparr>) es =
      Ret (of_nat (P + str_off us argc)) (s\<lparr>umem := m2\<rparr>) es"
    "\<forall>k<argc. word_at m2 (of_nat (?argv + 4 * k)) = of_nat (P + str_off us k)" "word_at m2 (of_nat (?argv + 4 * argc)) = 0"
    "\<forall>x<4294967296. x < ?argv \<or> ?argv + 4 * (argc + 1) \<le> x \<longrightarrow> m2 (of_nat x) = ?m1 (of_nat x)"
    using put_ptrs_run [of "s\<lparr>umem := ?m1\<rparr>" P us ?argv es] st1(1) room assms(5) ws(2) off(1) by auto
  have "strs_at m2 (P + str_off us argc) vs"
    by (rule strs_at_same [OF st1(2)], rule m2(4) [rule_format]) (use assms(5) lim off(1) ws(3) in auto)
  then obtain m3 where m3: "put_ptrs envc (of_nat ?envp) (of_nat (P + str_off us argc)) (s\<lparr>umem := m2\<rparr>) es =
      Ret (of_nat (P + str_off us argc + str_off vs envc)) (s\<lparr>umem := m3\<rparr>) es"
    "\<forall>k<envc. word_at m3 (of_nat (?envp + 4 * k)) = of_nat (P + str_off us argc + str_off vs k)"
    "word_at m3 (of_nat (?envp + 4 * envc)) = 0"
    "\<forall>x<4294967296. x < ?envp \<or> ?envp + 4 * (envc + 1) \<le> x \<longrightarrow> m3 (of_nat x) = m2 (of_nat x)"
    using put_ptrs_run [of "s\<lparr>umem := m2\<rparr>" "P + str_off us argc" vs ?envp es] room assms(5) ws(3) off(1) by auto
  have run: "create_tables (of_nat P) argc envc s es = Ret (of_nat sp) (s\<lparr>umem := m3\<rparr>) es"
  proof -
    have sub: "(of_nat ?argv :: u32) - 4 = of_nat (sp + 8)" "(of_nat ?argv :: u32) - 8 = of_nat (sp + 4)"
      "(of_nat ?argv :: u32) - 12 = of_nat sp" by simp_all
    show ?thesis
      unfolding create_tables_def create_tables_ptrs_nat [OF assms(3,4), folded sp_def] prod.case sub
      using m2(1) m3(1) by (simp del: of_nat_add of_nat_mult of_nat_Suc add: krun fs_long put_header_def)
  qed
  have keep3: "word_at m3 (of_nat a) = word_at m2 (of_nat a)" if "a + 4 \<le> ?envp" for a
    by (rule word_at_same, rule m3(4) [rule_format]) (use that lim assms(3) in auto)
  have keep2: "word_at m2 (of_nat a) = word_at ?m1 (of_nat a)" if "a + 4 \<le> ?argv" for a
    by (rule word_at_same, rule m2(4) [rule_format]) (use that lim assms(3) in auto)
  have "m3 (of_nat x) = umem s (of_nat x)" if "x < 4294967296" "x < sp \<or> P div 4 * 4 \<le> x" for x
    using that m3(4) [rule_format, of x] m2(4) [rule_format, of x] m1 [of x argc ?argv ?envp "umem s"] lim by auto
  moreover have "word_at m3 (of_nat (?argv + 4 * k)) = of_nat (P + str_off ws k)" if "k < argc" for k
    using keep3 [of "?argv + 4 * k"] m2(2) offu [of k] that by simp
  moreover have "word_at m3 (of_nat (?argv + 4 * argc)) = 0" using keep3 [of "?argv + 4 * argc"] m2(3) by simp
  moreover have "word_at m3 (of_nat (?envp + 4 * k)) = of_nat (P + str_off ws (argc + k))" if "k < envc" for k
    using m3(2) that off(2) [of k] by (simp add: add.assoc)
  ultimately show ?thesis
    using run words keep2 [of sp] keep2 [of "sp + 4"] keep2 [of "sp + 8"] keep3 [of sp] keep3 [of "sp + 4"] keep3 [of "sp + 8"] m3(3)
    by (intro exI [of _ m3] conjI) (simp_all del: of_nat_add of_nat_mult of_nat_Suc)
qed

definition args0 :: kernel where
  "args0 = blank_kernel\<lparr>umem := (\<lambda>_. 0)(4002 := 97, 4004 := 66)\<rparr>"

lemma create_tables_layout_witness:
  "\<exists>m'. create_tables 4002 1 1 args0 [] = Ret 3972 (args0\<lparr>umem := m'\<rparr>) [] \<and>
    word_at m' 3972 = 1 \<and> word_at m' 3984 = 4002 \<and> word_at m' 3992 = 4004"
  using create_tables_layout [of args0 4002 "[[97], [66]]" 1 1 "[]"]
  by (auto simp: args0_def stack_top_def str_off_def)

end
