(* ===== verification/Malloc.thy ===== *)
theory Malloc
  imports Pagetab
begin

unbundle bit_operations_syntax

text \<open>
  lib/malloc.c: the kernel's allocator of small blocks.  A page is cut into objects of one size;
  the free objects of a page are linked through their first words, and a descriptor of 16 bytes
  says which page it is, where its free objects start and how many objects are in use.  Descriptors
  lie in pages of their own and are linked into one chain per size or into the list of spare ones.
  Everything is in the words of physical memory, as the C code has it.  A chain that never ends
  makes the search for a descriptor run for ever (\<open>Hung\<close>).
\<close>

subsection \<open>Descriptors\<close>

definition bd_page :: "kernel \<Rightarrow> u32 \<Rightarrow> u32" where "bd_page s b = phys s b"
definition bd_next :: "kernel \<Rightarrow> u32 \<Rightarrow> u32" where "bd_next s b = phys s (b + 4)"
definition bd_freeptr :: "kernel \<Rightarrow> u32 \<Rightarrow> u32" where "bd_freeptr s b = phys s (b + 8)"
definition bd_refcnt :: "kernel \<Rightarrow> u32 \<Rightarrow> u16" where "bd_refcnt s b = ucast (phys s (b + 12))"
definition bd_size :: "kernel \<Rightarrow> u32 \<Rightarrow> u16" where "bd_size s b = ucast (drop_bit 16 (phys s (b + 12)))"

definition set_page :: "u32 \<Rightarrow> u32 \<Rightarrow> kernel \<Rightarrow> kernel" where "set_page b v = set_word b v"
definition set_next :: "u32 \<Rightarrow> u32 \<Rightarrow> kernel \<Rightarrow> kernel" where "set_next b v = set_word (b + 4) v"
definition set_freeptr :: "u32 \<Rightarrow> u32 \<Rightarrow> kernel \<Rightarrow> kernel" where "set_freeptr b v = set_word (b + 8) v"

text \<open>The last word of a descriptor: the size in its upper half, the count in its lower.\<close>

definition desc_word :: "u16 \<Rightarrow> u16 \<Rightarrow> u32" where "desc_word z n = push_bit 16 (ucast z) OR ucast n"

definition set_refcnt :: "u32 \<Rightarrow> u16 \<Rightarrow> kernel \<Rightarrow> kernel" where
  "set_refcnt b v s = set_word (b + 12) (desc_word (bd_size s b) v) s"

definition set_size :: "u32 \<Rightarrow> u16 \<Rightarrow> kernel \<Rightarrow> kernel" where
  "set_size b v s = set_word (b + 12) (desc_word v (bd_refcnt s b)) s"

text \<open>The sizes of \<open>bucket_dir\<close>, without the end marker.\<close>

definition bucket_sizes :: "nat list" where
  "bucket_sizes = [16, 32, 64, 128, 256, 512, 1024, 2048, 4096]"

abbreviation bsize :: "nat \<Rightarrow> nat" where "bsize d \<equiv> bucket_sizes ! d"
abbreviation nbuckets :: nat where "nbuckets \<equiv> length bucket_sizes"

definition set_chain :: "nat \<Rightarrow> u32 \<Rightarrow> kernel \<Rightarrow> kernel" where
  "set_chain d b s = s\<lparr>bucket_chain := (bucket_chain s)(d := b)\<rparr>"

subsection \<open>Allocation\<close>

definition init_bucket_desc :: "unit K" where
  "init_bucket_desc = bnd get_free_page (\<lambda>first.
     if first = 0 then kpanic ''Out of memory in init_bucket_desc()''
     else block [for_each [0..<255] (\<lambda>i. modify (set_next (first + of_nat (16 * i)) (first + of_nat (16 * (i + 1))))),
       modify (\<lambda>s. set_next (first + of_nat (16 * 255)) (free_bucket_desc s) s),
       modify (\<lambda>s. s\<lparr>free_bucket_desc := first\<rparr>)])"

text \<open>The first descriptor of a chain with a free object, 0 when there is none.\<close>

fun find_free :: "nat \<Rightarrow> kernel \<Rightarrow> u32 \<Rightarrow> u32 option" where
  "find_free 0 s b = None"
| "find_free (Suc n) s b = (if b = 0 \<or> bd_freeptr s b \<noteq> 0 then Some b else find_free n s (bd_next s b))"

text \<open>
  A new page cut into objects of size number \<open>d\<close>, with the first spare descriptor: the part of
  \<open>malloc\<close> after there is one.
\<close>

definition cut_page :: "nat \<Rightarrow> u32 K" where
  "cut_page d = bnd (gets free_bucket_desc) (\<lambda>b. seq (block
       [modify (\<lambda>s. s\<lparr>free_bucket_desc := bd_next s b\<rparr>),
        modify (set_refcnt b 0),
        modify (set_size b (of_nat (bsize d)))])
       (bnd get_free_page (\<lambda>cp. seq (block
         [modify (set_freeptr b cp),
          modify (set_page b cp),
          if cp = 0 then kpanic ''Out of memory in kernel malloc()'' else skip,
          for_each [0..<4096 div bsize d - 1]
            (\<lambda>i. modify (set_word (cp + of_nat (i * bsize d)) (cp + of_nat ((i + 1) * bsize d)))),
          modify (set_word (cp + of_nat ((4096 div bsize d - 1) * bsize d)) 0),
          modify (\<lambda>s. set_next b (bucket_chain s d) s),
          modify (set_chain d b)])
         (ret b))))"

definition new_bucket :: "nat \<Rightarrow> u32 K" where
  "new_bucket d = seq (bnd (gets free_bucket_desc) (\<lambda>f. guardK (f = 0) init_bucket_desc)) (cut_page d)"

definition malloc :: "u32 \<Rightarrow> u32 K" where
  "malloc len = (case first_upto (\<lambda>d. unat len \<le> bsize d) nbuckets of
     None \<Rightarrow> kpanic ''malloc: bad arg''
   | Some d \<Rightarrow>
     bnd (gets (\<lambda>s. find_free 4294967296 s (bucket_chain s d))) (\<lambda>r. case r of
       None \<Rightarrow> stop Hung
     | Some b0 \<Rightarrow>
       bnd (if b0 = 0 then new_bucket d else ret b0) (\<lambda>b.
       bnd (gets (\<lambda>s. bd_freeptr s b)) (\<lambda>retval. seq (block
         [modify (\<lambda>s. set_freeptr b (phys s retval) s),
          modify (\<lambda>s. set_refcnt b (bd_refcnt s b + 1) s)])
         (ret retval)))))"

subsection \<open>Release\<close>

text \<open>The descriptor of a page in a chain with the one before it; 0 when there is none.\<close>

fun chain_find :: "nat \<Rightarrow> kernel \<Rightarrow> u32 \<Rightarrow> u32 \<Rightarrow> u32 \<Rightarrow> (u32 \<times> u32) option" where
  "chain_find 0 s pg prev b = None"
| "chain_find (Suc n) s pg prev b =
     (if b = 0 \<or> bd_page s b = pg then Some (prev, b) else chain_find n s pg b (bd_next s b))"

fun find_bucket :: "u32 \<Rightarrow> int \<Rightarrow> nat list \<Rightarrow> (nat \<times> u32 \<times> u32) K" where
  "find_bucket pg sz [] = kpanic ''Bad address passed to kernel free_s()''"
| "find_bucket pg sz (d # ds) =
     (if int (bsize d) < sz then find_bucket pg sz ds
      else bnd (gets (\<lambda>s. chain_find 4294967296 s pg 0 (bucket_chain s d))) (\<lambda>r. case r of
        None \<Rightarrow> stop Hung
      | Some (prev, b) \<Rightarrow> if b = 0 then find_bucket pg sz ds else ret (d, prev, b)))"

text \<open>The descriptor of a chain whose successor is \<open>b\<close>.\<close>

fun find_prev :: "nat \<Rightarrow> kernel \<Rightarrow> u32 \<Rightarrow> u32 \<Rightarrow> u32 option" where
  "find_prev 0 s b prev = None"
| "find_prev (Suc n) s b prev = (if prev = 0 \<or> bd_next s prev = b then Some prev else find_prev n s b (bd_next s prev))"

definition release_bucket :: "nat \<Rightarrow> u32 \<Rightarrow> u32 \<Rightarrow> unit K" where
  "release_bucket d prev0 b =
     bnd (gets (\<lambda>s. if prev0 \<noteq> 0 \<and> bd_next s prev0 \<noteq> b \<or> prev0 = 0 \<and> bucket_chain s d \<noteq> b
         then find_prev 4294967296 s b (bucket_chain s d) else Some prev0)) (\<lambda>r. case r of
       None \<Rightarrow> stop Hung
     | Some prev \<Rightarrow> seq
        (if prev \<noteq> 0 then modify (\<lambda>s. set_next prev (bd_next s b) s)
         else bnd (gets (\<lambda>s. bucket_chain s d)) (\<lambda>c.
           if c \<noteq> b then kpanic ''malloc bucket chains corrupted''
           else modify (\<lambda>s. set_chain d (bd_next s b) s)))
        (bnd (gets (\<lambda>s. bd_page s b)) (\<lambda>pg. block
          [free_page pg,
           modify (\<lambda>s. set_next b (free_bucket_desc s) s),
           modify (\<lambda>s. s\<lparr>free_bucket_desc := b\<rparr>)])))"

definition free_s :: "u32 \<Rightarrow> int \<Rightarrow> unit K" where
  "free_s obj sz = (let pg = obj AND 0xfffff000 in
     bnd (find_bucket pg sz [0..<nbuckets]) (\<lambda>(d, prev, b). block
       [modify (\<lambda>s. set_word obj (bd_freeptr s b) s),
        modify (set_freeptr b obj),
        modify (\<lambda>s. set_refcnt b (bd_refcnt s b - 1) s),
        bnd (gets (\<lambda>s. bd_refcnt s b)) (\<lambda>n. guardK (n = 0) (release_bucket d prev b))]))"

subsection \<open>Lists linked through memory\<close>

primrec lst :: "(u32 \<Rightarrow> u32) \<Rightarrow> u32 \<Rightarrow> u32 list \<Rightarrow> bool" where
  "lst nx x [] \<longleftrightarrow> x = 0"
| "lst nx x (a # as) \<longleftrightarrow> x = a \<and> a \<noteq> 0 \<and> lst nx (nx a) as"

lemma lst_cong: "(\<And>a. a \<in> set xs \<Longrightarrow> nx' a = nx a) \<Longrightarrow> lst nx' x xs = lst nx x xs"
  by (induction xs arbitrary: x) auto

lemma lst_nonzero: "lst nx x xs \<Longrightarrow> a \<in> set xs \<Longrightarrow> a \<noteq> 0"
  by (induction xs arbitrary: x) auto

lemma lst_zero: "lst nx x xs \<Longrightarrow> x = 0 \<longleftrightarrow> xs = []"
  by (cases xs) auto

lemma lst_split:
  assumes "lst nx x (as @ b # bs)"
  shows "(if as = [] then x else nx (last as)) = b" "b \<noteq> 0" "lst nx (nx b) bs"
proof -
  have "(if as = [] then x else nx (last as)) = b \<and> b \<noteq> 0 \<and> lst nx (nx b) bs" using assms
  proof (induction as arbitrary: x)
    case (Cons a as)
    have "(if as = [] then nx a else nx (last as)) = b \<and> b \<noteq> 0 \<and> lst nx (nx b) bs"
      using Cons.prems by (intro Cons.IH) simp
    moreover have "(if a # as = [] then x else nx (last (a # as))) = (if as = [] then nx a else nx (last as))" by simp
    ultimately show ?case by metis
  qed simp
  then show "(if as = [] then x else nx (last as)) = b" "b \<noteq> 0" "lst nx (nx b) bs" by blast+
qed

lemma lst_remove:
  assumes "lst nx x (as @ b # bs)" "distinct (as @ b # bs)" "as \<noteq> []"
  shows "lst (nx(last as := nx b)) x (as @ bs)"
  using assms
proof (induction as arbitrary: x)
  case (Cons a as)
  show ?case
  proof (cases "as = []")
    case True
    have "lst (nx(a := nx b)) (nx b) bs = lst nx (nx b) bs"
      using Cons.prems(2) by (intro lst_cong) auto
    then show ?thesis using Cons.prems True by (simp del: fun_upd_apply) (simp add: fun_upd_same)
  next
    case False
    then have "a \<noteq> last as" using Cons.prems(2) by auto
    then show ?thesis using Cons False by simp
  qed
qed simp

text \<open>A list in words of memory is shorter than memory.\<close>

lemma distinct_words_length: "distinct (xs :: u32 list) \<Longrightarrow> length xs \<le> 4294967296"
proof -
  assume "distinct xs"
  then have "length xs = card (set xs)" by (simp add: distinct_card)
  also have "\<dots> \<le> card (UNIV :: u32 set)" by (rule card_mono) simp_all
  finally show ?thesis by (simp add: card_word)
qed

lemma nonzero_words_length:
  assumes "distinct (xs :: u32 list)" "0 \<notin> set xs"
  shows "length xs < 4294967296"
  using distinct_words_length [of "0 # xs"] assms by simp

lemma find_free_lst:
  assumes "lst (bd_next s) b bs" "length bs < n"
  shows "find_free n s b = Some (case find (\<lambda>b. bd_freeptr s b \<noteq> 0) bs of None \<Rightarrow> 0 | Some b \<Rightarrow> b)"
  using assms
proof (induction bs arbitrary: b n)
  case Nil
  then show ?case by (cases n) simp_all
next
  case (Cons a as)
  then show ?case by (cases n) simp_all
qed

lemma chain_find_lst:
  assumes "lst (bd_next s) b bs" "length bs < n"
  shows "chain_find n s pg prev b = (case find (\<lambda>b. bd_page s b = pg) bs of
     None \<Rightarrow> Some (if bs = [] then prev else last bs, 0)
   | Some c \<Rightarrow> Some (let as = takeWhile (\<lambda>b. bd_page s b \<noteq> pg) bs in if as = [] then prev else last as, c))"
  using assms
proof (induction bs arbitrary: b n prev)
  case Nil
  then show ?case by (cases n) simp_all
next
  case (Cons a as)
  then obtain m where n: "n = Suc m" by (cases n) auto
  show ?case using Cons.prems Cons.IH [of "bd_next s b" m b]
    by (auto simp: n Let_def split: option.splits)
qed

subsection \<open>Fields\<close>

definition desc_addr :: "u32 \<Rightarrow> bool" where
  "desc_addr b \<longleftrightarrow> unat b mod 16 = 0"

lemma desc_field:
  assumes "desc_addr b" "k < 16"
  shows "unat (b + of_nat k) = unat b + k" "frame (b + of_nat k) = frame b"
proof -
  obtain q where q: "unat b = 16 * q" using assms(1) by (auto simp: desc_addr_def mod_0_imp_dvd dvdE elim!: dvdE)
  have "unat b < 4294967296" by simp
  then have "unat b + k < 4294967296" using q assms(2) by simp
  then show eq: "unat (b + of_nat k) = unat b + k"
    using assms(2) by (simp add: unat_word_ariths unat_of_nat)
  show "frame (b + of_nat k) = frame b"
    unfolding frame_def eq q using assms(2) by simp
qed

lemma desc_field_inj:
  assumes "desc_addr b" "desc_addr c" "i < 16" "j < 16"
  shows "b + of_nat i = c + of_nat j \<longleftrightarrow> b = c \<and> i = j"
proof
  assume "b + of_nat i = c + of_nat j"
  then have "unat b + i = unat c + j" using desc_field(1) [of b i] desc_field(1) [of c j] assms by metis
  moreover have "unat b mod 16 = 0" "unat c mod 16 = 0" using assms by (simp_all add: desc_addr_def)
  ultimately have "i = j" using assms(3,4) by presburger
  then show "b = c \<and> i = j" using \<open>unat b + i = unat c + j\<close> by (simp add: word_unat_eq_iff)
qed auto

lemma desc_words:
  assumes "desc_addr b" "desc_addr c"
  shows "b \<noteq> c + 4" "b \<noteq> c + 8" "b \<noteq> c + 12" "b + 4 \<noteq> c" "b + 8 \<noteq> c" "b + 12 \<noteq> c"
    "b + 4 \<noteq> c + 8" "b + 4 \<noteq> c + 12" "b + 8 \<noteq> c + 4" "b + 8 \<noteq> c + 12" "b + 12 \<noteq> c + 4" "b + 12 \<noteq> c + 8"
  using desc_field_inj [OF assms, of 0 4] desc_field_inj [OF assms, of 0 8] desc_field_inj [OF assms, of 0 12]
    desc_field_inj [OF assms, of 4 0] desc_field_inj [OF assms, of 8 0] desc_field_inj [OF assms, of 12 0]
    desc_field_inj [OF assms, of 4 8] desc_field_inj [OF assms, of 4 12] desc_field_inj [OF assms, of 8 4]
    desc_field_inj [OF assms, of 8 12] desc_field_inj [OF assms, of 12 4] desc_field_inj [OF assms, of 12 8]
  by auto

lemma half_words: "ucast (drop_bit 16 (desc_word h l)) = h" "ucast (desc_word h l) = l"
proof -
  show "ucast (drop_bit 16 (desc_word h l)) = h"
    by (rule bit_word_eqI) (auto simp: desc_word_def bit_simps dest: bit_imp_le_length)
  show "ucast (desc_word h l) = l"
    by (rule bit_word_eqI) (auto simp: desc_word_def bit_simps)
qed

lemmas set_field_defs = set_page_def set_next_def set_freeptr_def set_refcnt_def set_size_def set_word_def
lemmas field_defs = bd_page_def bd_next_def bd_freeptr_def bd_refcnt_def bd_size_def

lemma fields_set:
  assumes "desc_addr b" "desc_addr c"
  shows "bd_page (set_page b v s) c = (if c = b then v else bd_page s c)"
    "bd_page (set_next b v s) c = bd_page s c" "bd_page (set_freeptr b v s) c = bd_page s c"
    "bd_page (set_refcnt b r s) c = bd_page s c" "bd_page (set_size b r s) c = bd_page s c"
    "bd_next (set_next b v s) c = (if c = b then v else bd_next s c)"
    "bd_next (set_page b v s) c = bd_next s c" "bd_next (set_freeptr b v s) c = bd_next s c"
    "bd_next (set_refcnt b r s) c = bd_next s c" "bd_next (set_size b r s) c = bd_next s c"
    "bd_freeptr (set_freeptr b v s) c = (if c = b then v else bd_freeptr s c)"
    "bd_freeptr (set_page b v s) c = bd_freeptr s c" "bd_freeptr (set_next b v s) c = bd_freeptr s c"
    "bd_freeptr (set_refcnt b r s) c = bd_freeptr s c" "bd_freeptr (set_size b r s) c = bd_freeptr s c"
    "bd_refcnt (set_refcnt b r s) c = (if c = b then r else bd_refcnt s c)"
    "bd_refcnt (set_page b v s) c = bd_refcnt s c" "bd_refcnt (set_next b v s) c = bd_refcnt s c"
    "bd_refcnt (set_freeptr b v s) c = bd_refcnt s c" "bd_refcnt (set_size b r s) c = bd_refcnt s c"
    "bd_size (set_size b r s) c = (if c = b then r else bd_size s c)"
    "bd_size (set_page b v s) c = bd_size s c" "bd_size (set_next b v s) c = bd_size s c"
    "bd_size (set_freeptr b v s) c = bd_size s c" "bd_size (set_refcnt b r s) c = bd_size s c"
  using assms desc_words [OF assms] desc_words [OF assms(2,1)]
  by (simp_all add: set_field_defs field_defs half_words)

subsection \<open>Pages cut into objects\<close>

lemma bsize_cases: "d < nbuckets \<Longrightarrow> bsize d \<in> set bucket_sizes"
  by (rule nth_mem)

lemma bsize_props:
  assumes "d < nbuckets"
  shows "bsize d dvd 4096" "16 dvd bsize d" "0 < bsize d" "4096 div bsize d * bsize d = 4096" "bsize d \<le> 4096"
    "4096 div bsize d < 65536" "0 < 4096 div bsize d"
  using bsize_cases [OF assms] by (auto simp: bucket_sizes_def)

definition objects :: "u32 \<Rightarrow> nat \<Rightarrow> u32 set" where
  "objects pg z = (\<lambda>k. pg + of_nat (k * z)) ` {..<4096 div z}"

text \<open>The addresses of a block.\<close>

definition span :: "u32 \<Rightarrow> nat \<Rightarrow> u32 set" where
  "span a z = (\<lambda>i. a + of_nat i) ` {..<z}"

lemma in_page:
  assumes "unat (pg :: u32) mod 4096 = 0" "k < 4096"
  shows "unat (pg + of_nat k) = unat pg + k" "frame (pg + of_nat k) = frame pg"
proof -
  obtain q where q: "unat pg = 4096 * q" using assms(1) by (auto simp: mod_0_imp_dvd elim!: dvdE)
  have "unat pg < 4294967296" by simp
  then have "unat pg + k < 4294967296" using q assms(2) by simp
  then show eq: "unat (pg + of_nat k) = unat pg + k"
    using assms(2) by (simp add: unat_word_ariths unat_of_nat)
  show "frame (pg + of_nat k) = frame pg"
    unfolding frame_def eq q using assms(2) by simp
qed

lemma object_offset:
  assumes "d < nbuckets" "k < 4096 div bsize d" "i < bsize d"
  shows "k * bsize d + i < 4096"
proof -
  have "k * bsize d + i < (k + 1) * bsize d" using assms(3) by simp
  also have "\<dots> \<le> 4096 div bsize d * bsize d" using assms(2) by (intro mult_le_mono1) simp
  finally show ?thesis using bsize_props(4) [OF assms(1)] by simp
qed

lemma span_addr:
  assumes "unat (pg :: u32) mod 4096 = 0" "d < nbuckets" "k < 4096 div bsize d" "i < bsize d"
  shows "unat (pg + of_nat (k * bsize d) + of_nat i) = unat pg + (k * bsize d + i)"
    "frame (pg + of_nat (k * bsize d) + of_nat i) = frame pg"
  using in_page [OF assms(1) object_offset [OF assms(2-4)]] by (simp_all add: add.assoc)

lemma span_frame:
  "unat pg mod 4096 = 0 \<Longrightarrow> d < nbuckets \<Longrightarrow> a \<in> objects pg (bsize d) \<Longrightarrow> x \<in> span a (bsize d) \<Longrightarrow> frame x = frame pg"
  unfolding objects_def span_def using span_addr(2) by (auto simp del: of_nat_mult)

lemma object_span: "d < nbuckets \<Longrightarrow> a \<in> span a (bsize d)"
  using bsize_props(3) [of d] by (force simp: span_def)

lemma object_frame:
  "unat pg mod 4096 = 0 \<Longrightarrow> d < nbuckets \<Longrightarrow> a \<in> objects pg (bsize d) \<Longrightarrow> frame a = frame pg"
  using span_frame [OF _ _ _ object_span] .

lemma page_less_mod: "(m :: nat) * z + i = n * z + j \<Longrightarrow> i < z \<Longrightarrow> j < z \<Longrightarrow> m = n"
  by (metis add.commute div_mult_self1 div_less add_0 mult.commute less_nat_zero_code mod_less_eq_dividend)

lemma objects_disjoint:
  assumes "unat pg mod 4096 = 0" "d < nbuckets" "a \<in> objects pg (bsize d)" "b \<in> objects pg (bsize d)" "a \<noteq> b"
  shows "span a (bsize d) \<inter> span b (bsize d) = {}"
proof -
  obtain m n where m: "a = pg + of_nat (m * bsize d)" "m < 4096 div bsize d"
    and n: "b = pg + of_nat (n * bsize d)" "n < 4096 div bsize d" using assms(3,4) by (auto simp: objects_def)
  have "a + of_nat i \<noteq> b + of_nat j" if ij: "i < bsize d" "j < bsize d" for i j
  proof
    assume "a + of_nat i = b + of_nat j"
    then have "unat pg + (m * bsize d + i) = unat pg + (n * bsize d + j)"
      unfolding m(1) n(1) using span_addr(1) [OF assms(1,2) m(2) ij(1)] span_addr(1) [OF assms(1,2) n(2) ij(2)] by metis
    then have "m = n" using page_less_mod [OF _ ij] by simp
    then show False using assms(5) m n by simp
  qed
  then show ?thesis by (auto simp: span_def)
qed

lemma card_objects:
  assumes "unat pg mod 4096 = 0" "d < nbuckets"
  shows "card (objects pg (bsize d)) = 4096 div bsize d"
proof -
  have "inj_on (\<lambda>k. pg + of_nat (k * bsize d)) {..<4096 div bsize d}"
  proof (rule inj_onI)
    fix m n assume mn: "m \<in> {..<4096 div bsize d}" "n \<in> {..<4096 div bsize d}" "pg + of_nat (m * bsize d) = pg + of_nat (n * bsize d)"
    have "unat (pg + of_nat (k * bsize d)) = unat pg + k * bsize d" if "k < 4096 div bsize d" for k
      using span_addr(1) [OF assms that bsize_props(3) [OF assms(2)]] by simp
    then have "m * bsize d = n * bsize d" using mn by (metis add_left_cancel lessThan_iff)
    then show "m = n" using bsize_props(3) [OF assms(2)] by simp
  qed
  then show ?thesis by (simp add: objects_def card_image)
qed

subsection \<open>What the allocator keeps\<close>

text \<open>
  A bucket: the number of its size, its descriptor, its page and its free objects in the order of
  their list.  A pool is the list of the buckets and the list of the spare descriptors.
\<close>

record bucket =
  bk_dir :: nat
  bk_desc :: u32
  bk_page :: u32
  bk_holes :: "u32 list"

abbreviation bk_size :: "bucket \<Rightarrow> nat" where "bk_size k \<equiv> bsize (bk_dir k)"

definition bucket_at :: "kernel \<Rightarrow> bucket \<Rightarrow> bool" where
  "bucket_at s k \<longleftrightarrow> bk_dir k < nbuckets \<and> unat (bk_page k) mod 4096 = 0 \<and> managed (frame (bk_page k)) \<and>
     page_count s (frame (bk_page k)) = 1 \<and> bk_page k < HIGH_MEMORY s \<and> bd_page s (bk_desc k) = bk_page k \<and>
     lst (phys s) (bd_freeptr s (bk_desc k)) (bk_holes k) \<and> distinct (bk_holes k) \<and>
     set (bk_holes k) \<subseteq> objects (bk_page k) (bk_size k) \<and>
     bd_refcnt s (bk_desc k) = of_nat (4096 div bk_size k - length (bk_holes k))"

definition desc_ok :: "kernel \<Rightarrow> u32 \<Rightarrow> bool" where
  "desc_ok s b \<longleftrightarrow> desc_addr b \<and> managed (frame b) \<and> page_count s (frame b) \<noteq> 0"

abbreviation descs :: "bucket list \<Rightarrow> u32 list \<Rightarrow> u32 list" where
  "descs ks sp \<equiv> map bk_desc ks @ sp"

definition pool_at :: "kernel \<Rightarrow> bucket list \<Rightarrow> u32 list \<Rightarrow> bool" where
  "pool_at s ks sp \<longleftrightarrow>
     (\<forall>d<nbuckets. lst (bd_next s) (bucket_chain s d) (map bk_desc (filter (\<lambda>k. bk_dir k = d) ks))) \<and>
     (\<forall>k\<in>set ks. bucket_at s k) \<and> lst (bd_next s) (free_bucket_desc s) sp \<and>
     (\<forall>b\<in>set (descs ks sp). desc_ok s b) \<and> distinct (descs ks sp) \<and> distinct (map bk_page ks) \<and>
     (\<forall>k\<in>set ks. \<forall>b\<in>set (descs ks sp). frame b \<noteq> frame (bk_page k)) \<and>
     (\<forall>f. managed f \<longrightarrow> page_count s f = 0 \<longrightarrow> 4096 * f < unat (HIGH_MEMORY s))"

text \<open>The blocks in use, with their sizes.\<close>

definition bucket_blocks :: "bucket \<Rightarrow> (u32 \<times> nat) set" where
  "bucket_blocks k = (objects (bk_page k) (bk_size k) - set (bk_holes k)) \<times> {bk_size k}"

definition blocks :: "bucket list \<Rightarrow> (u32 \<times> nat) set" where
  "blocks ks = (\<Union>k\<in>set ks. bucket_blocks k)"

lemma pool_bucket: "pool_at s ks sp \<Longrightarrow> k \<in> set ks \<Longrightarrow> bucket_at s k"
  by (simp add: pool_at_def)

lemma pool_desc: "pool_at s ks sp \<Longrightarrow> b \<in> set (descs ks sp) \<Longrightarrow> desc_ok s b"
  unfolding pool_at_def by blast

lemma pool_frame: "pool_at s ks sp \<Longrightarrow> k \<in> set ks \<Longrightarrow> b \<in> set (descs ks sp) \<Longrightarrow> frame b \<noteq> frame (bk_page k)"
  unfolding pool_at_def by blast

lemma bucket_page: "bucket_at s k \<Longrightarrow> unat (bk_page k) mod 4096 = 0" "bucket_at s k \<Longrightarrow> bk_dir k < nbuckets"
  by (simp_all add: bucket_at_def)

lemma pool_pages:
  assumes "pool_at s ks sp" "k \<in> set ks" "l \<in> set ks" "frame (bk_page k) = frame (bk_page l)"
  shows "k = l"
proof -
  have "bk_page k = bk_page l"
    using assms bucket_page(1) [OF pool_bucket [OF assms(1)]] by (intro aligned_frame_eq) auto
  moreover have "distinct (map bk_page ks)" using assms(1) by (simp add: pool_at_def)
  ultimately show ?thesis using assms(2,3) by (auto simp: distinct_map inj_on_def)
qed

text \<open>Two blocks in use never share an address.\<close>

lemma blocks_disjoint:
  assumes s: "pool_at s ks sp" and a: "(a, y) \<in> blocks ks" and b: "(b, z) \<in> blocks ks" and ne: "(a, y) \<noteq> (b, z)"
  shows "span a y \<inter> span b z = {}"
proof -
  obtain k where k: "k \<in> set ks" "a \<in> objects (bk_page k) (bk_size k)" "y = bk_size k"
    using a by (auto simp: blocks_def bucket_blocks_def)
  obtain l where l: "l \<in> set ks" "b \<in> objects (bk_page l) (bk_size l)" "z = bk_size l"
    using b by (auto simp: blocks_def bucket_blocks_def)
  note kp = bucket_page [OF pool_bucket [OF s k(1)]] and lp = bucket_page [OF pool_bucket [OF s l(1)]]
  show ?thesis
  proof (cases "frame (bk_page k) = frame (bk_page l)")
    case True
    then have "k = l" by (rule pool_pages [OF s k(1) l(1)])
    then show ?thesis using objects_disjoint [OF kp(1,2)] k l ne by auto
  next
    case False
    then show ?thesis
      using span_frame [OF kp(1,2) k(2)] span_frame [OF lp(1,2) l(2)] k(3) l(3) by fastforce
  qed
qed

lemma block_frame:
  assumes "pool_at s ks sp" "(a, z) \<in> blocks ks" "x \<in> span a z"
  obtains k where "k \<in> set ks" "a \<in> objects (bk_page k) (bk_size k)" "z = bk_size k" "frame x = frame (bk_page k)"
proof -
  obtain k where k: "k \<in> set ks" "a \<in> objects (bk_page k) (bk_size k)" "z = bk_size k"
    using assms(2) by (auto simp: blocks_def bucket_blocks_def)
  then show thesis
    using that span_frame [OF bucket_page [OF pool_bucket [OF assms(1) k(1)]] k(2), of x] assms(3) by simp
qed

lemma desc_not_in_block:
  assumes "pool_at s ks sp" "(a, z) \<in> blocks ks" "x \<in> span a z" "b \<in> set (descs ks sp)" "i < 16"
  shows "x \<noteq> b + of_nat i"
proof
  assume x: "x = b + of_nat i"
  obtain k where k: "k \<in> set ks" "frame x = frame (bk_page k)" by (rule block_frame [OF assms(1-3)])
  then show False
    using pool_frame [OF assms(1) k(1) assms(4)] desc_field(2) [of b i] pool_desc [OF assms(1,4)] assms(5) x
    by (simp add: desc_ok_def)
qed

text \<open>A bucket depends on three words of its descriptor and on the words of its free objects.\<close>

lemma bucket_at_cong:
  assumes "bucket_at s k" "page_count s' (frame (bk_page k)) = page_count s (frame (bk_page k))" "HIGH_MEMORY s' = HIGH_MEMORY s"
    and "bd_page s' (bk_desc k) = bd_page s (bk_desc k)" "bd_freeptr s' (bk_desc k) = bd_freeptr s (bk_desc k)"
    and "bd_refcnt s' (bk_desc k) = bd_refcnt s (bk_desc k)" "\<And>a. a \<in> set (bk_holes k) \<Longrightarrow> phys s' a = phys s a"
  shows "bucket_at s' k"
  using assms lst_cong [of "bk_holes k" "phys s'" "phys s"] by (simp add: bucket_at_def)

lemma bucket_frame_holes: "bucket_at s k \<Longrightarrow> a \<in> set (bk_holes k) \<Longrightarrow> frame a = frame (bk_page k)"
  using object_frame [of "bk_page k" "bk_dir k" a] by (auto simp: bucket_at_def)

lemma pool_update:
  assumes s: "pool_at s (xs @ k # ys) sp" and k': "bucket_at s' k'"
    and same: "bk_dir k' = bk_dir k" "bk_desc k' = bk_desc k" "bk_page k' = bk_page k"
    and loc: "\<And>a. frame a \<noteq> frame (bk_page k) \<Longrightarrow> a \<noteq> bk_desc k + 8 \<Longrightarrow> a \<noteq> bk_desc k + 12 \<Longrightarrow> phys s' a = phys s a"
    and keep: "mem_map s' = mem_map s" "HIGH_MEMORY s' = HIGH_MEMORY s" "bucket_chain s' = bucket_chain s"
      "free_bucket_desc s' = free_bucket_desc s"
  shows "pool_at s' (xs @ k' # ys) sp"
proof -
  let ?ks = "xs @ k # ys"
  have descs: "descs (xs @ k' # ys) sp = descs ?ks sp" by (simp add: same)
  have pc: "page_count s' f = page_count s f" for f by (rule page_count_cong [OF keep(1)])
  have dk: "desc_addr (bk_desc k)" using pool_desc [OF s, of "bk_desc k"] by (simp add: desc_ok_def)
  have word: "phys s' (c + of_nat i) = phys s (c + of_nat i)"
    if "c \<in> set (descs ?ks sp)" "i < 16" "c + of_nat i \<noteq> bk_desc k + 8" "c + of_nat i \<noteq> bk_desc k + 12" for c i
    using that pool_desc [OF s that(1)] pool_frame [OF s _ that(1), of k] by (intro loc) (simp_all add: desc_ok_def desc_field)
  have nx: "bd_next s' c = bd_next s c" if "c \<in> set (descs ?ks sp)" for c
    using word [OF that, of 4] desc_words(7,8) [of c "bk_desc k"] pool_desc [OF s that] dk by (simp add: bd_next_def desc_ok_def)
  have lists: "lst (bd_next s') x zs = lst (bd_next s) x zs" if "set zs \<subseteq> set (descs ?ks sp)" for x zs
    using nx that by (intro lst_cong) blast
  have other: "bucket_at s' l" if l: "l \<in> set xs \<or> l \<in> set ys" for l
  proof (rule bucket_at_cong)
    have lk: "l \<in> set ?ks" "bk_desc l \<in> set (descs ?ks sp)" using l by auto
    have "distinct (descs ?ks sp)" using s unfolding pool_at_def by blast
    then have ne: "bk_desc l \<noteq> bk_desc k" "l \<noteq> k" using l by (auto simp: image_iff)
    have dl: "desc_addr (bk_desc l)" using pool_desc [OF s lk(2)] by (simp add: desc_ok_def)
    show "bucket_at s l" by (rule pool_bucket [OF s lk(1)])
    show "bd_page s' (bk_desc l) = bd_page s (bk_desc l)"
      using word [OF lk(2), of 0] desc_words(2,3) [OF dl dk] by (simp add: bd_page_def)
    show "bd_freeptr s' (bk_desc l) = bd_freeptr s (bk_desc l)"
      using word [OF lk(2), of 8] desc_words(10) [OF dl dk] ne(1) by (simp add: bd_freeptr_def)
    show "bd_refcnt s' (bk_desc l) = bd_refcnt s (bk_desc l)"
      using word [OF lk(2), of 12] desc_words(12) [OF dl dk] ne(1) by (simp add: bd_refcnt_def)
    fix a assume a: "a \<in> set (bk_holes l)"
    have fa: "frame a = frame (bk_page l)" by (rule bucket_frame_holes [OF pool_bucket [OF s lk(1)] a])
    have "frame (bk_desc k + of_nat i) \<noteq> frame a" if "i < 16" for i
      using pool_frame [OF s lk(1), of "bk_desc k"] desc_field(2) [OF dk that] fa by simp
    from this [of 8] this [of 12] show "phys s' a = phys s a"
      using pool_pages [OF s lk(1), of k] ne fa by (intro loc) auto
  qed (simp_all add: pc keep)
  have "lst (bd_next s') (bucket_chain s' d) (map bk_desc (filter (\<lambda>k. bk_dir k = d) (xs @ k' # ys)))" if "d < nbuckets" for d
  proof -
    have eq: "map bk_desc (filter (\<lambda>k. bk_dir k = d) (xs @ k' # ys)) = map bk_desc (filter (\<lambda>k. bk_dir k = d) ?ks)"
      by (simp add: same)
    have "set (map bk_desc (filter (\<lambda>k. bk_dir k = d) ?ks)) \<subseteq> set (descs ?ks sp)" by auto
    from lists [OF this] show ?thesis using s that unfolding eq keep(3) by (simp add: pool_at_def)
  qed
  moreover have "lst (bd_next s') (free_bucket_desc s') sp"
    using s lists [of sp] by (simp add: pool_at_def keep(4) subset_iff)
  moreover have "\<forall>l\<in>set (xs @ k' # ys). bucket_at s' l" using other k' by auto
  moreover have "\<forall>b\<in>set (descs ?ks sp). desc_ok s' b"
    using pool_desc [OF s] by (simp add: desc_ok_def pc)
  moreover have "\<forall>l\<in>set (xs @ k' # ys). \<forall>b\<in>set (descs ?ks sp). frame b \<noteq> frame (bk_page l)"
    using pool_frame [OF s] same(3) by auto
  moreover have "distinct (descs ?ks sp)" "distinct (map bk_page (xs @ k' # ys))"
    "\<forall>f. managed f \<longrightarrow> page_count s f = 0 \<longrightarrow> 4096 * f < unat (HIGH_MEMORY s)"
    using s unfolding pool_at_def by (simp_all add: same)
  ultimately show ?thesis unfolding pool_at_def descs pc keep(2) by blast
qed

lemma set_keeps:
  "mem_map (set_refcnt b r s) = mem_map s" "mem_map (set_freeptr b v s) = mem_map s" "mem_map (set_next b v s) = mem_map s"
  "mem_map (set_page b v s) = mem_map s" "mem_map (set_size b r s) = mem_map s" "mem_map (set_word a v s) = mem_map s"
  "HIGH_MEMORY (set_refcnt b r s) = HIGH_MEMORY s" "HIGH_MEMORY (set_freeptr b v s) = HIGH_MEMORY s"
  "HIGH_MEMORY (set_next b v s) = HIGH_MEMORY s" "HIGH_MEMORY (set_page b v s) = HIGH_MEMORY s"
  "HIGH_MEMORY (set_size b r s) = HIGH_MEMORY s" "HIGH_MEMORY (set_word a v s) = HIGH_MEMORY s"
  "bucket_chain (set_refcnt b r s) = bucket_chain s" "bucket_chain (set_freeptr b v s) = bucket_chain s"
  "bucket_chain (set_next b v s) = bucket_chain s" "bucket_chain (set_page b v s) = bucket_chain s"
  "bucket_chain (set_size b r s) = bucket_chain s" "bucket_chain (set_word a v s) = bucket_chain s"
  "free_bucket_desc (set_refcnt b r s) = free_bucket_desc s" "free_bucket_desc (set_freeptr b v s) = free_bucket_desc s"
  "free_bucket_desc (set_next b v s) = free_bucket_desc s" "free_bucket_desc (set_page b v s) = free_bucket_desc s"
  "free_bucket_desc (set_size b r s) = free_bucket_desc s" "free_bucket_desc (set_word a v s) = free_bucket_desc s"
  by (simp_all add: set_field_defs)

lemma phys_set:
  "a \<noteq> b \<Longrightarrow> phys (set_page b v s) a = phys s a" "a \<noteq> b + 4 \<Longrightarrow> phys (set_next b v s) a = phys s a"
  "a \<noteq> b + 8 \<Longrightarrow> phys (set_freeptr b v s) a = phys s a" "a \<noteq> b + 12 \<Longrightarrow> phys (set_refcnt b r s) a = phys s a"
  "a \<noteq> b + 12 \<Longrightarrow> phys (set_size b r s) a = phys s a"
  by (simp_all add: set_field_defs)

lemma bucket_holes_less:
  assumes "bucket_at s k"
  shows "length (bk_holes k) \<le> 4096 div bk_size k"
    "a \<in> objects (bk_page k) (bk_size k) \<Longrightarrow> a \<notin> set (bk_holes k) \<Longrightarrow> length (bk_holes k) < 4096 div bk_size k"
proof -
  note k = assms [unfolded bucket_at_def]
  have fin: "finite (objects (bk_page k) (bk_size k))" by (simp add: objects_def)
  have eq: "length (bk_holes k) = card (set (bk_holes k))" using k by (simp add: distinct_card)
  note card = card_objects [OF bucket_page [OF assms]]
  show "length (bk_holes k) \<le> 4096 div bk_size k" unfolding eq card [symmetric] using k by (intro card_mono fin) simp
  assume "a \<in> objects (bk_page k) (bk_size k)" "a \<notin> set (bk_holes k)"
  then show "length (bk_holes k) < 4096 div bk_size k"
    unfolding eq card [symmetric] using k by (intro psubset_card_mono fin) auto
qed

text \<open>A free object is taken off the list of its page.\<close>

definition popped :: "u32 \<Rightarrow> kernel \<Rightarrow> kernel" where
  "popped b s = (let s1 = set_freeptr b (phys s (bd_freeptr s b)) s in set_refcnt b (bd_refcnt s1 b + 1) s1)"

lemma blocks_append: "blocks (xs @ ys) = blocks xs \<union> blocks ys" "blocks (k # ys) = bucket_blocks k \<union> blocks ys"
  by (auto simp: blocks_def)

lemma pop_pool:
  assumes s: "pool_at s (xs @ k # ys) sp" and h: "bk_holes k = a # hs"
  defines "b \<equiv> bk_desc k" and "z \<equiv> bk_size k"
  shows "bd_freeptr s b = a" "pool_at (popped b s) (xs @ k\<lparr>bk_holes := hs\<rparr> # ys) sp"
    "(a, z) \<notin> blocks (xs @ k # ys)" "blocks (xs @ k\<lparr>bk_holes := hs\<rparr> # ys) = insert (a, z) (blocks (xs @ k # ys))"
    "\<And>c y x. (c, y) \<in> blocks (xs @ k # ys) \<Longrightarrow> x \<in> span c y \<Longrightarrow> phys (popped b s) x = phys s x"
proof -
  have kb: "bucket_at s k" by (rule pool_bucket [OF s]) simp
  note k = kb [unfolded bucket_at_def h]
  have bd: "b \<in> set (descs (xs @ k # ys) sp)" by (simp add: b_def)
  have db: "desc_addr b" using pool_desc [OF s bd] by (simp add: desc_ok_def)
  show fp: "bd_freeptr s b = a" using k by (simp add: b_def)
  have loc: "phys (popped b s) x = phys s x" if "x \<noteq> b + 8" "x \<noteq> b + 12" for x
    using that by (simp add: popped_def Let_def phys_set)
  note keep = set_keeps [of b]
  have pc: "page_count (popped b s) f = page_count s f" for f
    by (rule page_count_cong) (simp add: popped_def Let_def keep)
  have off: "x \<noteq> b + 8" "x \<noteq> b + 12" if "frame x = frame (bk_page k)" for x
    using that pool_frame [OF s _ bd, of k] desc_field(2) [OF db, of 8] desc_field(2) [OF db, of 12] by auto
  have "lst (phys s) (phys s a) hs" "a \<notin> set hs" "distinct hs" "set hs \<subseteq> objects (bk_page k) (bk_size k)"
    using k by (simp_all add: fp)
  moreover have "lst (phys (popped b s)) (phys s a) hs = lst (phys s) (phys s a) hs"
    using bucket_frame_holes [OF kb] h by (intro lst_cong loc off) simp_all
  moreover have "bd_refcnt s b + 1 = of_nat (4096 div bk_size k - length hs)"
  proof -
    have "length hs < 4096 div bk_size k" using bucket_holes_less(1) [OF kb] h by simp
    then have "of_nat (4096 div bk_size k - length hs) = (of_nat (4096 div bk_size k - length (a # hs)) + 1 :: u16)"
      by (simp add: of_nat_diff algebra_simps)
    then show ?thesis using k by (simp add: b_def)
  qed
  ultimately have "bucket_at (popped b s) (k\<lparr>bk_holes := hs\<rparr>)"
    using k fp
    by (simp add: bucket_at_def pc) (simp add: popped_def Let_def fields_set [OF db db] keep b_def [symmetric])
  then show "pool_at (popped b s) (xs @ k\<lparr>bk_holes := hs\<rparr> # ys) sp"
    by (rule pool_update [OF s]) (auto simp: popped_def Let_def set_keeps phys_set b_def)
  have ao: "a \<in> objects (bk_page k) (bk_size k)" using k by simp
  show new: "(a, z) \<notin> blocks (xs @ k # ys)"
  proof
    assume in_blocks: "(a, z) \<in> blocks (xs @ k # ys)"
    obtain l where l: "l \<in> set (xs @ k # ys)" "a \<in> objects (bk_page l) (bk_size l) - set (bk_holes l)"
      using in_blocks by (auto simp: blocks_def bucket_blocks_def)
    have "frame (bk_page k) = frame (bk_page l)"
      using object_frame [OF bucket_page [OF kb] ao] object_frame [OF bucket_page [OF pool_bucket [OF s l(1)]], of a] l(2) by simp
    then have "k = l" using pool_pages [OF s _ l(1), of k] by simp
    then show False using l(2) h by simp
  qed
  have "bucket_blocks (k\<lparr>bk_holes := hs\<rparr>) = insert (a, z) (bucket_blocks k)"
    using ao k h by (auto simp: bucket_blocks_def z_def)
  then show "blocks (xs @ k\<lparr>bk_holes := hs\<rparr> # ys) = insert (a, z) (blocks (xs @ k # ys))"
    by (simp add: blocks_append)
  fix c y x assume c: "(c, y) \<in> blocks (xs @ k # ys)" "x \<in> span c y"
  show "phys (popped b s) x = phys s x"
    using desc_not_in_block [OF s c bd, of 8] desc_not_in_block [OF s c bd, of 12] by (intro loc) simp_all
qed

text \<open>An object is put back in front of the list of its page.\<close>

definition pushed :: "u32 \<Rightarrow> u32 \<Rightarrow> kernel \<Rightarrow> kernel" where
  "pushed a b s = (let s1 = set_freeptr b a (set_word a (bd_freeptr s b) s) in set_refcnt b (bd_refcnt s1 b - 1) s1)"

lemma push_pool:
  assumes s: "pool_at s (xs @ k # ys) sp" and a: "a \<in> objects (bk_page k) (bk_size k)" "a \<notin> set (bk_holes k)"
  defines "b \<equiv> bk_desc k" and "z \<equiv> bk_size k"
  shows "pool_at (pushed a b s) (xs @ k\<lparr>bk_holes := a # bk_holes k\<rparr> # ys) sp"
    "blocks (xs @ k\<lparr>bk_holes := a # bk_holes k\<rparr> # ys) = blocks (xs @ k # ys) - {(a, z)}"
    "bd_refcnt (pushed a b s) b = 0 \<longleftrightarrow> Suc (length (bk_holes k)) = 4096 div z"
    "\<And>c y x. (c, y) \<in> blocks (xs @ k # ys) \<Longrightarrow> x \<in> span c y \<Longrightarrow> (c, y) \<noteq> (a, z) \<Longrightarrow> phys (pushed a b s) x = phys s x"
proof -
  have kb: "bucket_at s k" by (rule pool_bucket [OF s]) simp
  note k = kb [unfolded bucket_at_def] and kp = bucket_page [OF kb]
  have bd: "b \<in> set (descs (xs @ k # ys) sp)" by (simp add: b_def)
  have db: "desc_addr b" using pool_desc [OF s bd] by (simp add: desc_ok_def)
  have fa: "frame a = frame (bk_page k)" by (rule object_frame [OF kp a(1)])
  have off: "x \<noteq> b + of_nat i" if "frame x = frame (bk_page k)" "i < 16" for x i
    using that pool_frame [OF s _ bd, of k] desc_field(2) [OF db, of i] by auto
  have offs: "a \<noteq> b" "a \<noteq> b + 4" "a \<noteq> b + 8" "a \<noteq> b + 12"
    using off [OF fa, of 0] off [OF fa, of 4] off [OF fa, of 8] off [OF fa, of 12] by simp_all
  have loc: "phys (pushed a b s) x = phys s x" if "x \<noteq> b + 8" "x \<noteq> b + 12" "x \<noteq> a" for x
    using that by (simp add: pushed_def Let_def phys_set) (simp add: set_word_def)
  note keep = set_keeps [of b] set_keeps [of a]
  have pc: "page_count (pushed a b s) f = page_count s f" for f
    by (rule page_count_cong) (simp add: pushed_def Let_def keep)
  have fields: "bd_page (set_word a v s) b = bd_page s b" "bd_refcnt (set_word a v s) b = bd_refcnt s b" for v
    using offs by (auto simp: bd_page_def bd_refcnt_def set_word_def)
  have less: "length (bk_holes k) < 4096 div bk_size k" by (rule bucket_holes_less(2) [OF kb a])
  have count: "bd_refcnt s b - 1 = of_nat (4096 div bk_size k - length (a # bk_holes k))"
    using less k by (simp add: b_def of_nat_diff algebra_simps Suc_leI)
  have head: "phys (pushed a b s) a = bd_freeptr s b"
    using offs by (simp add: pushed_def Let_def phys_set) (simp add: set_word_def)
  have "lst (phys (pushed a b s)) (bd_freeptr s b) (bk_holes k) = lst (phys s) (bd_freeptr s b) (bk_holes k)"
    using bucket_frame_holes [OF kb] a(2) off [of _ 8] off [of _ 12] by (intro lst_cong loc) auto
  moreover have "a \<noteq> 0"
    using fa k by (auto simp: frame_def managed_def)
  ultimately have "bucket_at (pushed a b s) (k\<lparr>bk_holes := a # bk_holes k\<rparr>)"
    using k a count head
    by (simp add: bucket_at_def pc) (simp add: pushed_def Let_def fields_set [OF db db] fields keep b_def [symmetric])
  then show "pool_at (pushed a b s) (xs @ k\<lparr>bk_holes := a # bk_holes k\<rparr> # ys) sp"
  proof (rule pool_update [OF s])
    fix x assume "frame x \<noteq> frame (bk_page k)" "x \<noteq> bk_desc k + 8" "x \<noteq> bk_desc k + 12"
    then show "phys (pushed a b s) x = phys s x" using fa by (intro loc) (auto simp: b_def)
  qed (simp_all add: pushed_def Let_def set_keeps)
  have size: "4096 div bk_size k < 65536" using bsize_props(6) [OF kp(2)] .
  have zero: "(of_nat n :: u16) = 0 \<longleftrightarrow> n = 0" if "n < 65536" for n
    using that by (simp add: word_unat_eq_iff unat_of_nat)
  have "bd_refcnt (pushed a b s) b = of_nat (4096 div bk_size k - length (a # bk_holes k))"
    using count by (simp add: pushed_def Let_def fields_set [OF db db] fields)
  then show "bd_refcnt (pushed a b s) b = 0 \<longleftrightarrow> Suc (length (bk_holes k)) = 4096 div z"
    using less size zero [of "4096 div bk_size k - length (a # bk_holes k)"] by (simp add: z_def del: of_nat_diff) linarith
  have "a \<in> objects (bk_page l) (bk_size l) \<longleftrightarrow> l = k" if "l \<in> set (xs @ k # ys)" for l
    using object_frame [OF bucket_page [OF pool_bucket [OF s that]], of a] fa pool_pages [OF s that, of k] a(1) by auto
  then have "(a, z) \<notin> bucket_blocks l" if "l \<in> set xs \<or> l \<in> set ys" for l
    using that s by (fastforce simp: bucket_blocks_def pool_at_def)
  moreover have "bucket_blocks (k\<lparr>bk_holes := a # bk_holes k\<rparr>) = bucket_blocks k - {(a, z)}"
    by (auto simp: bucket_blocks_def z_def)
  ultimately show "blocks (xs @ k\<lparr>bk_holes := a # bk_holes k\<rparr> # ys) = blocks (xs @ k # ys) - {(a, z)}"
    by (auto simp: blocks_def)
  fix c y x assume c: "(c, y) \<in> blocks (xs @ k # ys)" "x \<in> span c y" "(c, y) \<noteq> (a, z)"
  have az: "(a, z) \<in> blocks (xs @ k # ys)" using a by (auto simp: blocks_def bucket_blocks_def z_def)
  have "x \<noteq> a" using blocks_disjoint [OF s c(1) az c(3)] c(2) object_span [OF kp(2), of a] by (auto simp: z_def)
  then show "phys (pushed a b s) x = phys s x"
    using desc_not_in_block [OF s c(1,2) bd, of 8] desc_not_in_block [OF s c(1,2) bd, of 12] by (intro loc) simp_all
qed

subsection \<open>New pages and descriptors\<close>

text \<open>A pool depends only on the words of its descriptors and of its pages.\<close>

lemma pool_cong:
  assumes s: "pool_at s ks sp"
    and descs: "\<And>c i. c \<in> set (descs ks sp) \<Longrightarrow> i < 16 \<Longrightarrow> phys s' (c + of_nat i) = phys s (c + of_nat i)"
      "\<And>c. c \<in> set (descs ks sp) \<Longrightarrow> page_count s' (frame c) \<noteq> 0"
    and pages: "\<And>k a. k \<in> set ks \<Longrightarrow> frame a = frame (bk_page k) \<Longrightarrow> phys s' a = phys s a"
      "\<And>k. k \<in> set ks \<Longrightarrow> page_count s' (frame (bk_page k)) = 1"
    and high: "HIGH_MEMORY s' = HIGH_MEMORY s"
      "\<And>f. managed f \<Longrightarrow> page_count s' f = 0 \<Longrightarrow> 4096 * f < unat (HIGH_MEMORY s)"
    and keep: "bucket_chain s' = bucket_chain s" "free_bucket_desc s' = free_bucket_desc s"
  shows "pool_at s' ks sp"
proof -
  have field: "bd_page s' c = bd_page s c" "bd_next s' c = bd_next s c" "bd_freeptr s' c = bd_freeptr s c"
    "bd_refcnt s' c = bd_refcnt s c" if "c \<in> set (descs ks sp)" for c
    using descs(1) [OF that, of 0] descs(1) [OF that, of 4] descs(1) [OF that, of 8] descs(1) [OF that, of 12]
    by (simp_all add: field_defs)
  have lists: "lst (bd_next s') x zs = lst (bd_next s) x zs" if "set zs \<subseteq> set (descs ks sp)" for x zs
    using field(2) that by (intro lst_cong) blast
  have "bucket_at s' k" if k: "k \<in> set ks" for k
  proof (rule bucket_at_cong)
    show sk: "bucket_at s k" by (rule pool_bucket [OF s k])
    have "bk_desc k \<in> set (descs ks sp)" using k by simp
    note field [OF this]
    then show "bd_page s' (bk_desc k) = bd_page s (bk_desc k)" "bd_freeptr s' (bk_desc k) = bd_freeptr s (bk_desc k)"
      "bd_refcnt s' (bk_desc k) = bd_refcnt s (bk_desc k)" by simp_all
    show "page_count s' (frame (bk_page k)) = page_count s (frame (bk_page k))"
      using pages(2) [OF k] sk by (simp add: bucket_at_def)
    fix a assume "a \<in> set (bk_holes k)"
    then show "phys s' a = phys s a" by (intro pages(1) [OF k] bucket_frame_holes [OF sk])
  qed (rule high(1))
  moreover have "lst (bd_next s') (bucket_chain s' d) (map bk_desc (filter (\<lambda>k. bk_dir k = d) ks))" if "d < nbuckets" for d
  proof -
    have "set (map bk_desc (filter (\<lambda>k. bk_dir k = d) ks)) \<subseteq> set (descs ks sp)" by auto
    from lists [OF this] show ?thesis using s that by (simp add: pool_at_def keep)
  qed
  moreover have "lst (bd_next s') (free_bucket_desc s') sp"
    using s lists [of sp] by (simp add: pool_at_def keep subset_iff)
  moreover have "\<forall>b\<in>set (descs ks sp). desc_ok s' b" using pool_desc [OF s] descs(2) by (simp add: desc_ok_def)
  moreover have "distinct (descs ks sp)" "distinct (map bk_page ks)"
    "\<forall>k\<in>set ks. \<forall>b\<in>set (descs ks sp). frame b \<noteq> frame (bk_page k)" using s unfolding pool_at_def by blast+
  ultimately show ?thesis unfolding pool_at_def high(1) using high(2) by blast
qed

text \<open>A page frame that no part of the pool lies in.\<close>

definition outside :: "bucket list \<Rightarrow> u32 list \<Rightarrow> nat \<Rightarrow> bool" where
  "outside ks sp f \<longleftrightarrow> (\<forall>k\<in>set ks. frame (bk_page k) \<noteq> f) \<and> (\<forall>b\<in>set (descs ks sp). frame b \<noteq> f)"

lemma pool_outside:
  assumes s: "pool_at s ks sp" and f: "outside ks sp f"
    and phys: "\<And>a. frame a \<noteq> f \<Longrightarrow> phys s' a = phys s a"
    and counts: "\<And>g. managed g \<Longrightarrow> g \<noteq> f \<Longrightarrow> page_count s' g = page_count s g"
      "managed f \<Longrightarrow> page_count s' f = 0 \<Longrightarrow> 4096 * f < unat (HIGH_MEMORY s)"
    and keep: "HIGH_MEMORY s' = HIGH_MEMORY s" "bucket_chain s' = bucket_chain s" "free_bucket_desc s' = free_bucket_desc s"
  shows "pool_at s' ks sp"
proof (rule pool_cong [OF s])
  fix c i assume c: "c \<in> set (descs ks sp)"
  then have fc: "frame c \<noteq> f" using f by (auto simp: outside_def)
  show "page_count s' (frame c) \<noteq> 0" using pool_desc [OF s c] counts(1) [OF _ fc] by (simp add: desc_ok_def)
  assume "i < (16 :: nat)"
  then show "phys s' (c + of_nat i) = phys s (c + of_nat i)"
    using pool_desc [OF s c] fc by (intro phys) (simp add: desc_ok_def desc_field)
next
  fix k a assume k: "k \<in> set ks"
  then have fk: "frame (bk_page k) \<noteq> f" using f by (simp add: outside_def)
  show "page_count s' (frame (bk_page k)) = 1"
    using pool_bucket [OF s k] counts(1) [OF _ fk] by (simp add: bucket_at_def)
  assume "frame a = frame (bk_page k)"
  then show "phys s' a = phys s a" using fk by (intro phys) simp
next
  fix g assume "managed g" "page_count s' g = 0"
  then show "4096 * g < unat (HIGH_MEMORY s)"
    using counts s by (cases "g = f") (auto simp: pool_at_def)
qed (rule keep)+

lemma free_page_outside:
  assumes "pool_at s ks sp" "i < PAGING_PAGES" "mem_map s i = 0"
  shows "outside ks sp (i + 256)"
proof -
  have c: "page_count s (i + 256) = 0" using assms(3) by (simp add: page_count_def)
  have "page_count s (frame (bk_page k)) = 1" if "k \<in> set ks" for k
    using pool_bucket [OF assms(1) that] by (simp add: bucket_at_def)
  moreover have "page_count s (frame b) \<noteq> 0" if "b \<in> set (descs ks sp)" for b
    using pool_desc [OF assms(1) that] by (simp add: desc_ok_def)
  ultimately show ?thesis using c unfolding outside_def by (metis zero_neq_one)
qed

lemma taken_simps:
  "mem_map (taken i s) = (mem_map s)(i := 1)" "HIGH_MEMORY (taken i s) = HIGH_MEMORY s"
  "bucket_chain (taken i s) = bucket_chain s" "free_bucket_desc (taken i s) = free_bucket_desc s"
  by (simp_all add: taken_def zero_page_def set_map_def)

lemma taken_phys:
  assumes "i < PAGING_PAGES" "frame a \<noteq> i + 256"
  shows "phys (taken i s) a = phys s a"
proof -
  have "a \<notin> page_words (page_addr i)"
    using page_words_frame [OF page_addr_props(1) [OF assms(1)]] page_addr_props(2) [OF assms(1)] assms(2) by metis
  then show ?thesis by (simp add: taken_def zero_page_def set_map_def)
qed

lemma taken_count:
  assumes "i < PAGING_PAGES"
  shows "managed f \<Longrightarrow> f \<noteq> i + 256 \<Longrightarrow> page_count (taken i s) f = page_count s f" "page_count (taken i s) (i + 256) = 1"
  by (auto simp: page_count_def taken_simps managed_def)

definition untouched :: "bucket list \<Rightarrow> kernel \<Rightarrow> kernel \<Rightarrow> bool" where
  "untouched ks s s' \<longleftrightarrow> (\<forall>(a, z)\<in>blocks ks. \<forall>x\<in>span a z. phys s' x = phys s x)"

lemma untouched_trans: "untouched ks s s1 \<Longrightarrow> untouched ks s1 s2 \<Longrightarrow> untouched ks s s2"
  by (force simp: untouched_def)

lemma outside_untouched:
  assumes s: "pool_at s ks sp" and f: "outside ks sp f" and phys: "\<And>a. frame a \<noteq> f \<Longrightarrow> phys s' a = phys s a"
  shows "untouched ks s s'"
  unfolding untouched_def
proof clarify
  fix a z x assume a: "(a, z) \<in> blocks ks" "x \<in> span a z"
  obtain k where "k \<in> set ks" "frame x = frame (bk_page k)" by (rule block_frame [OF s a])
  then show "phys s' x = phys s x" using f by (intro phys) (auto simp: outside_def)
qed

lemma free_pages_taken: "i \<in> free_pages s \<Longrightarrow> free_pages (taken i s) = free_pages s - {i}"
  by (auto simp: free_pages_def taken_simps)

lemma finite_free_pages: "finite (free_pages s)"
  by (simp add: free_pages_def)

lemma get_free_page_some:
  assumes "free_pages s \<noteq> {}"
  obtains i where "i < PAGING_PAGES" "mem_map s i = 0" "get_free_page s es = Ret (page_addr i) (taken i s) es"
    "card (free_pages s) = Suc (card (free_pages (taken i s)))"
proof -
  define i where "i = Max (free_pages s)"
  have i: "i \<in> free_pages s" unfolding i_def by (rule Max_in [OF finite_free_pages assms])
  have "card (free_pages s) = Suc (card (free_pages (taken i s)))"
    unfolding free_pages_taken [OF i] by (rule card.remove [OF finite_free_pages i])
  moreover have "get_free_page s es = Ret (page_addr i) (taken i s) es"
    unfolding get_free_page_max i_def using assms by simp
  moreover have "i < PAGING_PAGES" "mem_map s i = 0" using i by (simp_all add: free_pages_def)
  ultimately show thesis by (intro that)
qed

text \<open>Storing a table of words at different addresses.\<close>

lemma fold_set_word:
  assumes "inj_on f (set is)"
  shows "\<exists>m. fold (\<lambda>i. set_word (f i) (g i)) is s = s\<lparr>phys := m\<rparr> \<and> (\<forall>i\<in>set is. m (f i) = g i) \<and>
    (\<forall>a. a \<notin> f ` set is \<longrightarrow> m a = phys s a)"
  using assms
proof (induction "is" arbitrary: s)
  case Nil
  then show ?case by (intro exI [of _ "phys s"]) simp
next
  case (Cons i ns)
  obtain m where m: "fold (\<lambda>i. set_word (f i) (g i)) ns (set_word (f i) (g i) s) = (set_word (f i) (g i) s)\<lparr>phys := m\<rparr>"
    "\<forall>j\<in>set ns. m (f j) = g j" "\<forall>a. a \<notin> f ` set ns \<longrightarrow> m a = phys (set_word (f i) (g i) s) a"
    using Cons.IH [of "set_word (f i) (g i) s"] Cons.prems by auto
  have "m (f i) = g i"
  proof (cases "i \<in> set ns")
    case False
    then have "f i \<notin> f ` set ns" using Cons.prems by (auto simp: inj_on_def)
    then show ?thesis using m(3) by (simp add: set_word_def)
  qed (use m(2) in blast)
  moreover have "set_word (f i) (g i) s\<lparr>phys := m\<rparr> = s\<lparr>phys := m\<rparr>" by (simp add: set_word_def)
  ultimately show ?case
    using m by (intro exI [of _ m] conjI ballI allI impI) (auto simp: set_word_def [of _ _ s])
qed

lemma fold_set_keeps:
  "mem_map (fold (\<lambda>i. set_word (f i) (g i)) ns s) = mem_map s"
  "HIGH_MEMORY (fold (\<lambda>i. set_word (f i) (g i)) ns s) = HIGH_MEMORY s"
  "bucket_chain (fold (\<lambda>i. set_word (f i) (g i)) ns s) = bucket_chain s"
  "free_bucket_desc (fold (\<lambda>i. set_word (f i) (g i)) ns s) = free_bucket_desc s"
  by (induction ns arbitrary: s) (simp_all add: set_keeps)

lemma lst_upt:
  assumes "\<And>i. i < n \<Longrightarrow> f i \<noteq> 0" "\<And>i. Suc i < n \<Longrightarrow> nx (f i) = f (Suc i)" "nx (f (n - 1)) = 0" "0 < n"
  shows "lst nx (f 0) (map f [0..<n])"
proof -
  have "lst nx (f j) (map f [j..<n])" if "j < n" for j
    using that
  proof (induction "n - j" arbitrary: j)
    case (Suc m)
    show ?case
    proof (cases "Suc j < n")
      case True
      then have "lst nx (f (Suc j)) (map f [Suc j..<n])" using Suc by simp
      then show ?thesis using assms(1,2) True Suc.prems by (simp add: upt_rec [of j])
    next
      case False
      then have "j = n - 1" using Suc.prems by simp
      then show ?thesis using assms(1) [of j] assms(3) Suc.prems upt_rec [of j n] by simp
    qed
  qed simp
  from this [OF assms(4)] show ?thesis .
qed

text \<open>A table of words that link the addresses \<open>f 0\<close>, \<open>f 1\<close>, ... with a zero at the end.\<close>

lemma linked_table:
  assumes inj: "inj_on f {..<n}" and n: "0 < n" and nz: "\<And>i. i < n \<Longrightarrow> v i \<noteq> 0"
  obtains m where "set_word (f (n - 1)) 0 (fold (\<lambda>i. set_word (f i) (v (Suc i))) [0..<n - 1] s) = s\<lparr>phys := m\<rparr>"
    "\<And>a. a \<notin> f ` {..<n} \<Longrightarrow> m a = phys s a" "\<And>i. Suc i < n \<Longrightarrow> m (f i) = v (Suc i)" "m (f (n - 1)) = 0"
proof -
  have sub: "set [0..<n - 1] \<subseteq> {..<n}" by auto
  obtain m where m: "fold (\<lambda>i. set_word (f i) (v (Suc i))) [0..<n - 1] s = s\<lparr>phys := m\<rparr>"
    "\<forall>i\<in>set [0..<n - 1]. m (f i) = v (Suc i)" "\<forall>a. a \<notin> f ` set [0..<n - 1] \<longrightarrow> m a = phys s a"
    using fold_set_word [OF inj_on_subset [OF inj sub], of "\<lambda>i. v (Suc i)" s] by blast
  show thesis
  proof (rule that [of "m(f (n - 1) := 0)"])
    show "set_word (f (n - 1)) 0 (fold (\<lambda>i. set_word (f i) (v (Suc i))) [0..<n - 1] s) = s\<lparr>phys := m(f (n - 1) := 0)\<rparr>"
      unfolding m(1) by (simp add: set_word_def)
    show "(m(f (n - 1) := 0)) a = phys s a" if "a \<notin> f ` {..<n}" for a
      using that m(3) sub n by auto
    show "(m(f (n - 1) := 0)) (f i) = v (Suc i)" if "Suc i < n" for i
      using that m(2) inj_onD [OF inj, of i "n - 1"] by auto
  qed simp
qed

lemma page_slot:
  assumes "i < PAGING_PAGES" "k < 4096"
  shows "unat (page_addr i + of_nat k) = unat (page_addr i) + k" "frame (page_addr i + of_nat k) = i + 256"
    "page_addr i + of_nat k \<noteq> 0"
proof -
  show eq: "unat (page_addr i + of_nat k) = unat (page_addr i) + k" "frame (page_addr i + of_nat k) = i + 256"
    using in_page [OF page_addr_props(1) [OF assms(1)] assms(2)] page_addr_props(2) [OF assms(1)] by simp_all
  show "page_addr i + of_nat k \<noteq> 0" using eq(2) by (auto simp: frame_def)
qed

lemma add_spare:
  assumes s: "pool_at s ks []" and ds: "lst (bd_next s) first ds" "distinct ds" "\<And>b. b \<in> set ds \<Longrightarrow> desc_ok s b"
    and f: "outside ks [] f" "\<And>b. b \<in> set ds \<Longrightarrow> frame b = f"
  shows "pool_at (s\<lparr>free_bucket_desc := first\<rparr>) ks ds"
proof -
  let ?s = "s\<lparr>free_bucket_desc := first\<rparr>"
  have fields: "bd_next ?s = bd_next s" "page_count ?s = page_count s" "bucket_at ?s = bucket_at s" "desc_ok ?s = desc_ok s"
    by (auto simp: fun_eq_iff field_defs page_count_def bucket_at_def desc_ok_def)
  have "bk_desc k \<notin> set ds" if "k \<in> set ks" for k
    using f(1) f(2) [of "bk_desc k"] that by (auto simp: outside_def)
  then have "distinct (descs ks ds)" using s ds(2) by (auto simp: pool_at_def)
  then show ?thesis
    using s ds f unfolding pool_at_def outside_def fields by auto
qed

lemma init_bucket_desc_run:
  assumes s: "pool_at s ks []" and free: "free_pages s \<noteq> {}"
  shows "\<exists>s' ds. init_bucket_desc s es = Ret () s' es \<and> pool_at s' ks ds \<and> ds \<noteq> [] \<and>
    card (free_pages s) = Suc (card (free_pages s')) \<and> untouched ks s s'"
proof -
  obtain i where i: "i < PAGING_PAGES" "mem_map s i = 0" "get_free_page s es = Ret (page_addr i) (taken i s) es"
    "card (free_pages s) = Suc (card (free_pages (taken i s)))"
    by (rule get_free_page_some [OF free])
  let ?p = "page_addr i"
  define v where "v = (\<lambda>j. ?p + of_nat (16 * j))"
  define f where "f = (\<lambda>j. v j + 4)"
  note out = free_page_outside [OF s i(1,2)]
  have slot: "16 * j + 4 < 4096" if "j < 256" for j :: nat using that by simp
  have f_eq: "f j = ?p + of_nat (16 * j + 4)" for j by (simp add: f_def v_def)
  have v: "unat (v j) = unat ?p + 16 * j" "frame (v j) = i + 256" "v j \<noteq> 0" "frame (f j) = i + 256"
    "unat (f j) = unat ?p + (16 * j + 4)" if "j < 256" for j
    using page_slot [OF i(1), of "16 * j"] page_slot [OF i(1) slot [OF that]] that unfolding v_def f_eq
    by (simp_all del: of_nat_add of_nat_mult)
  have inj: "inj_on f {..<256}" "inj_on v {..<256}"
    by (rule inj_onI; metis v(1,5) add_left_cancel add_right_cancel mult_left_cancel zero_neq_numeral lessThan_iff)+
  obtain m where m: "set_word (f (256 - 1)) 0 (fold (\<lambda>j. set_word (f j) (v (Suc j))) [0..<256 - 1] (taken i s)) = (taken i s)\<lparr>phys := m\<rparr>"
    "\<And>a. a \<notin> f ` {..<256} \<Longrightarrow> m a = phys (taken i s) a" "\<And>j. Suc j < 256 \<Longrightarrow> m (f j) = v (Suc j)" "m (f (256 - 1)) = 0"
    by (rule linked_table [OF inj(1), of v "taken i s"]) (use v in auto)
  let ?s2 = "(taken i s)\<lparr>phys := m\<rparr>"
  let ?s1 = "fold (\<lambda>j. set_word (f j) (v (Suc j))) [0..<256 - 1] (taken i s)"
  have "free_bucket_desc ?s1 = 0" using s by (simp add: pool_at_def fold_set_keeps taken_simps del: upt_Suc)
  moreover have "init_bucket_desc s es = Ret () ((set_word (f (256 - 1)) (free_bucket_desc ?s1) ?s1)\<lparr>free_bucket_desc := ?p\<rparr>) es"
    using page_addr_props(4) [OF i(1)]
    by (simp add: init_bucket_desc_def krun i(3) set_next_def f_def v_def add_ac del: upt_Suc)
  ultimately have run: "init_bucket_desc s es = Ret () (?s2\<lparr>free_bucket_desc := ?p\<rparr>) es"
    using m(1) by (simp only:)
  have phys: "m a = phys s a" if "frame a \<noteq> i + 256" for a
    using m(2) [of a] v(4) that taken_phys [OF i(1) that] by fastforce
  have s2: "pool_at ?s2 ks []"
  proof (rule pool_outside [OF s out])
    fix g assume "managed g" "g \<noteq> i + 256"
    then show "page_count ?s2 g = page_count s g" using taken_count(1) [OF i(1)] by (simp add: page_count_def)
  next
    assume "page_count ?s2 (i + 256) = 0"
    then show "4096 * (i + 256) < unat (HIGH_MEMORY s)" using taken_count(2) [OF i(1), of s] by (simp add: page_count_def)
  qed (simp_all add: phys taken_simps)
  have "desc_ok ?s2 b" if b: "b \<in> v ` {..<256}" for b
  proof -
    obtain j where j: "b = v j" "j < 256" using b by auto
    have "unat b mod 16 = 0" using v(1) [OF j(2)] j(1) unat_page_addr [OF i(1)] by simp
    moreover have "page_count ?s2 (i + 256) = 1" using taken_count(2) [OF i(1), of s] by (simp add: page_count_def)
    ultimately show ?thesis
      using v(2) [OF j(2)] j(1) page_addr_props(3) [OF i(1)] by (simp add: desc_ok_def desc_addr_def)
  qed
  moreover have "lst (bd_next ?s2) ?p (map v [0..<256])"
    using lst_upt [of 256 v "bd_next ?s2"] v(3) m(3,4) by (simp add: bd_next_def f_def v_def del: upt_Suc)
  moreover have "distinct (map v [0..<256])" using inj(2) by (simp add: distinct_map atLeast0LessThan del: upt_Suc)
  ultimately have "pool_at (?s2\<lparr>free_bucket_desc := ?p\<rparr>) ks (map v [0..<256])"
    using v(2) by (intro add_spare [OF s2 _ _ _ out]) (auto simp del: upt_Suc)
  moreover have "free_pages (?s2\<lparr>free_bucket_desc := ?p\<rparr>) = free_pages (taken i s)" by (simp add: free_pages_def)
  moreover have "untouched ks s (?s2\<lparr>free_bucket_desc := ?p\<rparr>)"
    by (rule outside_untouched [OF s out]) (simp add: phys)
  moreover have "map v [0..<256] \<noteq> []" by (simp del: upt_Suc)
  ultimately show ?thesis using run i(4)
    by (intro exI [of _ "?s2\<lparr>free_bucket_desc := ?p\<rparr>"] exI [of _ "map v [0..<256]"] conjI) simp_all
qed

lemma drop_spare:
  assumes s: "pool_at s ks (b # sp)"
  shows "pool_at (s\<lparr>free_bucket_desc := bd_next s b\<rparr>) ks sp" "free_bucket_desc s = b"
proof -
  let ?s = "s\<lparr>free_bucket_desc := bd_next s b\<rparr>"
  have fields: "bd_next ?s = bd_next s" "page_count ?s = page_count s" "bucket_at ?s = bucket_at s" "desc_ok ?s = desc_ok s"
    by (auto simp: fun_eq_iff field_defs page_count_def bucket_at_def desc_ok_def)
  show "pool_at ?s ks sp" "free_bucket_desc s = b" using s unfolding pool_at_def fields by auto
qed

lemma add_bucket:
  assumes s: "pool_at s ks sp" and k: "bucket_at s k" "desc_ok s (bk_desc k)" "bk_desc k \<notin> set (descs ks sp)"
    and f: "outside ks sp (frame (bk_page k))" "frame (bk_desc k) \<noteq> frame (bk_page k)"
      "\<And>l. l \<in> set ks \<Longrightarrow> frame (bk_desc k) \<noteq> frame (bk_page l)"
    and nx: "bd_next s (bk_desc k) = bucket_chain s (bk_dir k)"
  shows "pool_at (set_chain (bk_dir k) (bk_desc k) s) (k # ks) sp"
proof -
  let ?s = "set_chain (bk_dir k) (bk_desc k) s"
  have fields: "bd_next ?s = bd_next s" "page_count ?s = page_count s" "bucket_at ?s = bucket_at s" "desc_ok ?s = desc_ok s"
    "HIGH_MEMORY ?s = HIGH_MEMORY s" "free_bucket_desc ?s = free_bucket_desc s"
    "bucket_chain ?s = (bucket_chain s)(bk_dir k := bk_desc k)"
    by (auto simp: fun_eq_iff field_defs page_count_def bucket_at_def desc_ok_def set_chain_def)
  have nz: "bk_desc k \<noteq> 0" using k(2) by (auto simp: desc_ok_def frame_def managed_def)
  have "bk_page k \<noteq> bk_page l" if "l \<in> set ks" for l using f(1) that by (auto simp: outside_def)
  then have "distinct (map bk_page (k # ks))" using s by (auto simp: pool_at_def)
  moreover have "distinct (descs (k # ks) sp)" using s k(3) by (auto simp: pool_at_def)
  moreover have "\<forall>l\<in>set (k # ks). \<forall>b\<in>set (descs (k # ks) sp). frame b \<noteq> frame (bk_page l)"
    using pool_frame [OF s] f by (auto simp: outside_def)
  moreover have "\<forall>l\<in>set (k # ks). bucket_at s l" "\<forall>b\<in>set (descs (k # ks) sp). desc_ok s b"
    using pool_bucket [OF s] pool_desc [OF s] k by auto
  moreover have "lst (bd_next s) (((bucket_chain s)(bk_dir k := bk_desc k)) d) (map bk_desc (filter (\<lambda>k. bk_dir k = d) (k # ks)))"
    if "d < nbuckets" for d
    using s that nz nx by (auto simp: pool_at_def)
  ultimately show ?thesis using s unfolding pool_at_def fields by blast
qed

text \<open>The objects of a page in the order in which \<open>malloc\<close> links them.\<close>

definition page_objects :: "u32 \<Rightarrow> nat \<Rightarrow> u32 list" where
  "page_objects pg z = map (\<lambda>j. pg + of_nat (j * z)) [0..<4096 div z]"

lemma page_objects_set: "set (page_objects pg z) = objects pg z"
  by (simp add: page_objects_def objects_def atLeast0LessThan)

lemma page_objects_inj:
  assumes "i < PAGING_PAGES" "d < nbuckets"
  shows "inj_on (\<lambda>j. page_addr i + of_nat (j * bsize d)) {..<4096 div bsize d}"
proof (rule inj_onI)
  fix m n assume mn: "m \<in> {..<4096 div bsize d}" "n \<in> {..<4096 div bsize d}"
    "page_addr i + of_nat (m * bsize d) = page_addr i + of_nat (n * bsize d)"
  have "unat (page_addr i + of_nat (k * bsize d)) = unat (page_addr i) + k * bsize d" if "k < 4096 div bsize d" for k
    using span_addr(1) [OF page_addr_props(1) [OF assms(1)] assms(2) that bsize_props(3) [OF assms(2)]] by simp
  then have "m * bsize d = n * bsize d" using mn by (metis add_left_cancel lessThan_iff)
  then show "m = n" using bsize_props(3) [OF assms(2)] by simp
qed

lemma object_slot:
  assumes "i < PAGING_PAGES" "d < nbuckets" "j < 4096 div bsize d"
  shows "frame (page_addr i + of_nat (j * bsize d)) = i + 256" "page_addr i + of_nat (j * bsize d) \<noteq> 0"
  using page_slot [OF assms(1), of "j * bsize d"] object_offset [OF assms(2,3) bsize_props(3) [OF assms(2)]] by simp_all

lemma table_objects:
  assumes "i < PAGING_PAGES" "d < nbuckets"
  defines "n \<equiv> 4096 div bsize d" and "v \<equiv> (\<lambda>j. page_addr i + of_nat (j * bsize d))"
  obtains m where "set_word (v (n - 1)) 0 (fold (\<lambda>j. set_word (v j) (v (Suc j))) [0..<n - 1] s) = s\<lparr>phys := m\<rparr>"
    "\<And>a. frame a \<noteq> i + 256 \<Longrightarrow> m a = phys s a" "lst m (page_addr i) (page_objects (page_addr i) (bsize d))"
proof -
  have n: "0 < n" using bsize_props(7) [OF assms(2)] by (simp add: n_def)
  note inj = page_objects_inj [OF assms(1,2), folded n_def v_def]
  have slot: "frame (v j) = i + 256" "v j \<noteq> 0" if "j < n" for j
    using object_slot [OF assms(1,2)] that by (simp_all add: v_def n_def)
  obtain m where m: "set_word (v (n - 1)) 0 (fold (\<lambda>j. set_word (v j) (v (Suc j))) [0..<n - 1] s) = s\<lparr>phys := m\<rparr>"
    "\<And>a. a \<notin> v ` {..<n} \<Longrightarrow> m a = phys s a" "\<And>j. Suc j < n \<Longrightarrow> m (v j) = v (Suc j)" "m (v (n - 1)) = 0"
    by (rule linked_table [OF inj n, of v s]) (use slot in auto)
  have "lst m (v 0) (map v [0..<n])" by (rule lst_upt) (use slot m(3,4) n in auto)
  moreover have "v 0 = page_addr i" by (simp add: v_def)
  moreover have "m a = phys s a" if "frame a \<noteq> i + 256" for a
    using m(2) [of a] slot(1) that by auto
  ultimately show thesis using that [of m] m(1) by (simp add: page_objects_def n_def v_def)
qed

lemma free_pages_cong: "mem_map s' = mem_map s \<Longrightarrow> free_pages s' = free_pages s"
  by (simp add: free_pages_def)

lemma cut_page_run:
  assumes s: "pool_at s ks (b # sp)" and free: "free_pages s \<noteq> {}" and d: "d < nbuckets"
  obtains i s' where "cut_page d s es = Ret b s' es" "untouched ks s s'"
    "pool_at s' (\<lparr>bk_dir = d, bk_desc = b, bk_page = page_addr i, bk_holes = page_objects (page_addr i) (bsize d)\<rparr> # ks) sp"
proof -
  define z where "z = bsize d"
  have b: "desc_ok s b" and db: "desc_addr b" using pool_desc [OF s, of b] by (simp_all add: desc_ok_def)
  define s1 where "s1 = s\<lparr>free_bucket_desc := bd_next s b\<rparr>"
  define s3 where "s3 = set_size b (of_nat z) (set_refcnt b 0 s1)"
  have fb: "free_bucket_desc s = b" by (rule drop_spare(2) [OF s])
  have p1: "pool_at s1 ks sp" unfolding s1_def by (rule drop_spare(1) [OF s])
  have maps: "mem_map s3 = mem_map s" by (simp add: s3_def s1_def set_keeps)
  obtain i where i: "i < PAGING_PAGES" "mem_map s3 i = 0" "get_free_page s3 es = Ret (page_addr i) (taken i s3) es"
    by (rule get_free_page_some [of s3 es]) (use free free_pages_cong [OF maps] in auto)
  let ?p = "page_addr i"
  note p = page_addr_props [OF i(1)]
  have out: "outside ks (b # sp) (i + 256)" using free_page_outside [OF s i(1)] i(2) maps by simp
  define s6 where "s6 = set_page b ?p (set_freeptr b ?p (taken i s3))"
  obtain m where m: "set_word (?p + of_nat ((4096 div z - 1) * z)) 0
      (fold (\<lambda>j. set_word (?p + of_nat (j * z)) (?p + of_nat (Suc j * z))) [0..<4096 div z - 1] s6) = s6\<lparr>phys := m\<rparr>"
    "\<And>a. frame a \<noteq> i + 256 \<Longrightarrow> m a = phys s6 a" "lst m ?p (page_objects ?p z)"
    unfolding z_def by (rule table_objects [OF i(1) d, of s6]) blast
  define s8 where "s8 = set_next b (bucket_chain s d) (s6\<lparr>phys := m\<rparr>)"
  have spare: "free_bucket_desc s6 = bd_next s b" and high: "HIGH_MEMORY s6 = HIGH_MEMORY s" by (simp_all add: s6_def s3_def s1_def set_keeps taken_simps)
  have chain: "bucket_chain s6 = bucket_chain s" by (simp add: s6_def s3_def s1_def set_keeps taken_simps)
  have run: "cut_page d s es = Ret b (set_chain d b s8) es"
    using m(1) p(4)
    by (simp add: cut_page_def krun fb i(3) s1_def [symmetric] s3_def [symmetric] s6_def [symmetric] z_def [symmetric] s8_def chain
        del: of_nat_mult upt_Suc)
  have fbi: "frame (b + of_nat j) \<noteq> i + 256" if "j < 16" for j
    using out desc_field(2) [OF db that] by (simp add: outside_def)
  have bi: "frame b \<noteq> i + 256" "frame (b + 4) \<noteq> i + 256" "frame (b + 8) \<noteq> i + 256" "frame (b + 12) \<noteq> i + 256"
    using fbi [of 0] fbi [of 4] fbi [of 8] fbi [of 12] by simp_all
  have phys: "phys s8 a = phys s a" if "\<And>j. j < 16 \<Longrightarrow> a \<noteq> b + of_nat j" "frame a \<noteq> i + 256" for a
    using that(1) [of 0] that(1) [of 4] that(1) [of 8] that(1) [of 12] that(2)
    by (simp add: s8_def phys_set m(2) s6_def taken_phys [OF i(1)] s3_def s1_def)
  have m8: "mem_map s8 = (mem_map s)(i := 1)" "HIGH_MEMORY s8 = HIGH_MEMORY s"
    by (simp_all add: s8_def s6_def set_keeps taken_simps maps) (simp add: s3_def s1_def set_keeps)
  have count: "page_count s8 f = (if f = i + 256 then 1 else page_count s f)" if "managed f" for f
    using that by (auto simp: page_count_def m8 managed_def)
  have p8: "pool_at s8 ks sp"
  proof (rule pool_cong [OF p1])
    fix c assume c: "c \<in> set (descs ks sp)"
    then have dc: "desc_ok s c" and ci: "frame c \<noteq> i + 256" using pool_desc [OF s, of c] out by (auto simp: outside_def)
    have cb: "c \<noteq> b" using c s by (auto simp: pool_at_def)
    show "page_count s8 (frame c) \<noteq> 0" using dc ci count by (simp add: desc_ok_def)
    fix j assume "j < (16 :: nat)"
    then have "phys s8 (c + of_nat j) = phys s (c + of_nat j)"
      using desc_field_inj [OF _ db] dc cb ci desc_field(2) by (intro phys) (auto simp: desc_ok_def)
    then show "phys s8 (c + of_nat j) = phys s1 (c + of_nat j)" by (simp add: s1_def)
  next
    fix k assume k: "k \<in> set ks"
    then have ki: "frame (bk_page k) \<noteq> i + 256" using out by (simp add: outside_def)
    have sk: "bucket_at s k" by (rule pool_bucket [OF s k])
    show "page_count s8 (frame (bk_page k)) = 1" using sk ki count by (simp add: bucket_at_def)
    fix a assume a: "frame a = frame (bk_page k)"
    have "phys s8 a = phys s a"
      using a ki pool_frame [OF s k, of b] desc_field(2) [OF db] by (intro phys) auto
    then show "phys s8 a = phys s1 a" by (simp add: s1_def)
  next
    fix f assume "managed f" "page_count s8 f = 0"
    then show "4096 * f < unat (HIGH_MEMORY s1)"
      using s count [of f] by (auto simp: pool_at_def s1_def split: if_splits)
  qed (simp_all add: s1_def m8 s8_def set_keeps chain spare high)
  let ?k = "\<lparr>bk_dir = d, bk_desc = b, bk_page = ?p, bk_holes = page_objects ?p z\<rparr>"
  have b8: "desc_ok s8 b" using b count bi(1) by (simp add: desc_ok_def)
  have fields: "bd_page s8 b = ?p" "bd_freeptr s8 b = ?p" "bd_refcnt s8 b = 0" "bd_next s8 b = bucket_chain s d"
    using bi m(2) desc_words [OF db db]
    by (simp_all add: s8_def fields_set [OF db db]) (simp_all add: field_defs s6_def set_field_defs taken_phys [OF i(1)] s3_def half_words)
  have "bucket_at s8 ?k"
  proof -
    have "4096 * (i + 256) < unat (HIGH_MEMORY s)"
    proof -
      have "page_count s (i + 256) = 0" using i(2) maps by (simp add: page_count_def)
      then show ?thesis using s p(3) unfolding pool_at_def by blast
    qed
    then have "?p < HIGH_MEMORY s8" by (simp add: m8 word_less_nat_alt unat_page_addr [OF i(1)])
    moreover have "lst (phys s8) ?p (page_objects ?p z) = lst m ?p (page_objects ?p z)"
    proof (rule lst_cong)
      fix a assume "a \<in> set (page_objects ?p z)"
      then have "frame a = i + 256" using object_slot(1) [OF i(1) d] by (auto simp: page_objects_def z_def simp del: of_nat_mult)
      then have "a \<noteq> b + 4" using bi(2) by auto
      then show "phys s8 a = m a" by (simp add: s8_def phys_set)
    qed
    moreover have "distinct (page_objects ?p z)"
      using page_objects_inj [OF i(1) d] by (simp add: page_objects_def z_def distinct_map atLeast0LessThan del: of_nat_mult)
    moreover have "length (page_objects ?p z) = 4096 div z" by (simp add: page_objects_def)
    ultimately show ?thesis
      using d p count m(3) fields by (simp add: bucket_at_def page_objects_set z_def)
  qed
  moreover have "b \<notin> set (descs ks sp)" using s by (auto simp: pool_at_def)
  moreover have "bucket_chain s8 = bucket_chain s" by (simp add: s8_def set_keeps chain)
  ultimately have "pool_at (set_chain d b s8) (?k # ks) sp"
    using add_bucket [OF p8, of ?k] b8 out p(2) bi(1) pool_frame [OF s, of _ b] fields(4) by (simp add: outside_def)
  moreover have "untouched ks s (set_chain d b s8)"
    unfolding untouched_def
  proof clarify
    fix a y x assume a: "(a, y) \<in> blocks ks" "x \<in> span a y"
    obtain k where k: "k \<in> set ks" "frame x = frame (bk_page k)" by (rule block_frame [OF s a])
    have "phys s8 x = phys s x"
      using desc_not_in_block [OF s a, of b] k out by (intro phys) (auto simp: outside_def)
    then show "phys (set_chain d b s8) x = phys s x" by (simp add: set_chain_def)
  qed
  ultimately show thesis using that run by (simp add: z_def)
qed

subsection \<open>Allocation\<close>

lemma pool_chain:
  assumes s: "pool_at s ks sp" and d: "d < nbuckets"
  defines "bs \<equiv> map bk_desc (filter (\<lambda>k. bk_dir k = d) ks)"
  shows "lst (bd_next s) (bucket_chain s d) bs" "distinct bs" "length bs < 4294967296"
proof -
  show l: "lst (bd_next s) (bucket_chain s d) bs" using s d unfolding bs_def by (simp add: pool_at_def)
  have "distinct (descs ks sp)" using s unfolding pool_at_def by blast
  then have "distinct (map bk_desc ks)" unfolding distinct_append by blast
  then show dist: "distinct bs" unfolding bs_def by (rule distinct_map_filter)
  show "length bs < 4294967296" using lst_nonzero [OF l] by (intro nonzero_words_length [OF dist]) blast
qed

lemma find_SomeD: "find P xs = Some b \<Longrightarrow> b \<in> set xs" "find P xs = Some b \<Longrightarrow> P b"
  by (induction xs) (auto split: if_splits)

lemma bucket_freeptr: "bucket_at s k \<Longrightarrow> bd_freeptr s (bk_desc k) = 0 \<longleftrightarrow> bk_holes k = []"
  using lst_zero by (auto simp: bucket_at_def)

lemma malloc_size:
  assumes "first_upto (\<lambda>d. n \<le> bsize d) nbuckets = Some d"
  shows "d < nbuckets" "n \<le> bsize d" "\<And>y. y \<in> set bucket_sizes \<Longrightarrow> n \<le> y \<Longrightarrow> bsize d \<le> y"
proof -
  note d = first_upto_Some [OF assms]
  then show "d < nbuckets" "n \<le> bsize d" by simp_all
  fix y assume y: "y \<in> set bucket_sizes" "n \<le> y"
  then obtain j where j: "y = bsize j" "j < nbuckets" by (metis in_set_conv_nth)
  then have "d \<le> j" using d y(2) by (metis linorder_not_le)
  moreover have "sorted bucket_sizes" by (simp add: bucket_sizes_def)
  ultimately show "bsize d \<le> y" using j by (simp add: sorted_nth_mono)
qed

lemma untouched_blocks: "blocks ks' = blocks ks \<Longrightarrow> untouched ks' s s' = untouched ks s s'"
  by (simp add: untouched_def)

text \<open>A bucket with a free object is found or made.\<close>

lemma get_free_page_none: "free_pages s = {} \<Longrightarrow> get_free_page s es = Ret 0 s es"
  by (simp add: get_free_page_max)

lemma cut_page_none:
  assumes "pool_at s ks (b # sp)" "free_pages s = {}"
  shows "\<exists>m s'. cut_page d s es = Stop (Panicked m) s'"
proof -
  have fb: "free_bucket_desc s = b" by (rule drop_spare(2) [OF assms(1)])
  define s3 where "s3 = set_size b (of_nat (bsize d)) (set_refcnt b 0 (s\<lparr>free_bucket_desc := bd_next s b\<rparr>))"
  have "free_pages s3 = {}" using free_pages_cong [of s3 s] assms(2) by (simp add: s3_def set_keeps)
  then have "get_free_page s3 es = Ret 0 s3 es" by (rule get_free_page_none)
  then show ?thesis by (simp add: cut_page_def krun fb s3_def)
qed

lemma new_bucket_none:
  assumes s: "pool_at s ks sp" and free: "card (free_pages s) < 2"
  shows "(\<exists>m s'. new_bucket d s es = Stop (Panicked m) s') \<or> (sp \<noteq> [] \<and> free_pages s \<noteq> {})"
proof (cases sp)
  case Nil
  then have fb: "free_bucket_desc s = 0" using s by (simp add: pool_at_def)
  show ?thesis
  proof (cases "free_pages s = {}")
    case True
    then show ?thesis by (simp add: new_bucket_def krun fb init_bucket_desc_def get_free_page_none)
  next
    case False
    obtain s1 ds where s1: "init_bucket_desc s es = Ret () s1 es" "pool_at s1 ks ds" "ds \<noteq> []"
      "card (free_pages s) = Suc (card (free_pages s1))"
      using init_bucket_desc_run [of s ks es] s False Nil by auto
    then have "free_pages s1 = {}" using free finite_free_pages [of s1] by simp
    then obtain m s2 where "cut_page d s1 es = Stop (Panicked m) s2"
      using cut_page_none [of s1 ks _ _ d es] s1(2,3) by (cases ds) blast+
    then show ?thesis by (simp add: new_bucket_def krun fb s1(1))
  qed
next
  case (Cons b1 sp1)
  then have "free_bucket_desc s \<noteq> 0" using s by (auto simp: pool_at_def)
  then show ?thesis
    using cut_page_none [of s ks b1 sp1 d es] s Cons by (cases "free_pages s = {}") (auto simp: new_bucket_def krun)
qed

lemma malloc_bucket:
  assumes s: "pool_at s ks sp" and d: "d < nbuckets" 
    and free: "find (\<lambda>b. bd_freeptr s b \<noteq> 0) (map bk_desc (filter (\<lambda>k. bk_dir k = d) ks)) \<noteq> None \<or>
      2 \<le> card (free_pages s) \<or> sp \<noteq> [] \<and> free_pages s \<noteq> {}"
  shows "\<exists>b0 b s' xs k ys sp'. find_free 4294967296 s (bucket_chain s d) = Some b0 \<and>
    (if b0 = 0 then new_bucket d else ret b0) s es = Ret b s' es \<and> pool_at s' (xs @ k # ys) sp' \<and> bk_desc k = b \<and>
    bk_dir k = d \<and> bk_holes k \<noteq> [] \<and> blocks (xs @ k # ys) = blocks ks \<and> untouched ks s s'"
proof -
  let ?bs = "map bk_desc (filter (\<lambda>k. bk_dir k = d) ks)"
  note ch = pool_chain [OF s d]
  note found = find_free_lst [OF ch(1,3)]
  show ?thesis
  proof (cases "find (\<lambda>b. bd_freeptr s b \<noteq> 0) ?bs")
    case (Some b)
    note b = find_SomeD [OF Some]
    then obtain k where k: "k \<in> set ks" "bk_dir k = d" "bk_desc k = b" by auto
    then have "bk_holes k \<noteq> []" using b(2) bucket_freeptr [OF pool_bucket [OF s k(1)]] by auto
    moreover obtain xs ys where "ks = xs @ k # ys" using k(1) by (meson split_list)
    moreover have "b \<noteq> 0" by (rule lst_nonzero [OF ch(1) b(1)])
    ultimately show ?thesis using found Some s k by (force simp: ret_run untouched_def)
  next
    case None
    have ne: "free_pages s \<noteq> {}" using free None by auto
    obtain s1 b1 sp1 where s1: "bnd (gets free_bucket_desc) (\<lambda>f. guardK (f = 0) init_bucket_desc) s es = Ret () s1 es"
      "pool_at s1 ks (b1 # sp1)" "free_pages s1 \<noteq> {}" "untouched ks s s1"
    proof (cases sp)
      case Nil
      then obtain s1 ds where "init_bucket_desc s es = Ret () s1 es" "pool_at s1 ks ds" "ds \<noteq> []"
        "card (free_pages s) = Suc (card (free_pages s1))" "untouched ks s s1"
        using init_bucket_desc_run [of s ks es] s ne by auto
      moreover have "free_bucket_desc s = 0" using s Nil by (simp add: pool_at_def)
      moreover have "free_pages s1 \<noteq> {}" using calculation(4) free None Nil by auto
      ultimately show thesis using that by (cases ds) (auto simp: krun)
    next
      case (Cons b1 sp1)
      then have "free_bucket_desc s = b1" "b1 \<noteq> 0" using s by (auto simp: pool_at_def)
      then show thesis using that [of s b1 sp1] s ne Cons by (simp add: krun untouched_def)
    qed
    obtain i s2 where s2: "cut_page d s1 es = Ret b1 s2 es" "untouched ks s1 s2"
      "pool_at s2 (\<lparr>bk_dir = d, bk_desc = b1, bk_page = page_addr i, bk_holes = page_objects (page_addr i) (bsize d)\<rparr> # ks) sp1"
      by (rule cut_page_run [OF s1(2,3) d])
    let ?k = "\<lparr>bk_dir = d, bk_desc = b1, bk_page = page_addr i, bk_holes = page_objects (page_addr i) (bsize d)\<rparr>"
    have "new_bucket d s es = Ret b1 s2 es" by (simp add: new_bucket_def seq_run [of _ "cut_page d"] s1(1) s2(1))
    moreover have "blocks (?k # ks) = blocks ks" by (simp add: blocks_append bucket_blocks_def page_objects_set)
    moreover have "page_objects (page_addr i) (bsize d) \<noteq> []" using bsize_props(7) [OF d] by (simp add: page_objects_def)
    ultimately show ?thesis
      using found None s2(3) untouched_trans [OF s1(4) s2(2)]
      by (intro exI [of _ 0] exI [of _ b1] exI [of _ s2] exI [of _ "[]"] exI [of _ ?k] exI [of _ ks] exI [of _ sp1]) simp
  qed
qed

lemma malloc_run:
  assumes s: "pool_at s ks sp" and len: "unat len \<le> 4096"
  shows "(\<exists>a z s' ks' sp'. malloc len s es = Ret a s' es \<and> pool_at s' ks' sp' \<and>
      z \<in> set bucket_sizes \<and> unat len \<le> z \<and> (\<forall>y\<in>set bucket_sizes. unat len \<le> y \<longrightarrow> z \<le> y) \<and>
      (a, z) \<notin> blocks ks \<and> blocks ks' = insert (a, z) (blocks ks) \<and> untouched ks s s') \<or>
    (card (free_pages s) < 2 \<and> (\<exists>m s'. malloc len s es = Stop (Panicked m) s'))"
proof -
  have "\<exists>j<nbuckets. unat len \<le> bsize j" using len by (intro exI [of _ 8]) (simp add: bucket_sizes_def)
  then obtain d where d: "first_upto (\<lambda>d. unat len \<le> bsize d) nbuckets = Some d"
    by (metis first_upto_None not_None_eq)
  note size = malloc_size [OF d]
  let ?found = "find (\<lambda>b. bd_freeptr s b \<noteq> 0) (map bk_desc (filter (\<lambda>k. bk_dir k = d) ks))"
  show ?thesis
  proof (cases "?found \<noteq> None \<or> 2 \<le> card (free_pages s) \<or> sp \<noteq> [] \<and> free_pages s \<noteq> {}")
    case True
    obtain b0 b s1 xs k ys sp' where s1: "find_free 4294967296 s (bucket_chain s d) = Some b0"
      "(if b0 = 0 then new_bucket d else ret b0) s es = Ret b s1 es" "pool_at s1 (xs @ k # ys) sp'" "bk_desc k = b"
      "bk_dir k = d" "bk_holes k \<noteq> []" "blocks (xs @ k # ys) = blocks ks" "untouched ks s s1"
      using malloc_bucket [OF s size(1) True] by metis
    obtain a hs where h: "bk_holes k = a # hs" using s1(6) by (cases "bk_holes k") auto
    note pop = pop_pool [OF s1(3) h, unfolded s1(4,5,7)]
    have "malloc len s es = Ret a (popped b s1) es"
      using s1(1,2) pop(1) by (simp add: malloc_def d bnd_run seq_run gets_run modify_run ret_run popped_def Let_def del: if_split)
    moreover have "untouched ks s1 (popped b s1)" using pop(5) by (auto simp: untouched_def)
    moreover have "bsize d \<in> set bucket_sizes" using bsize_cases [OF size(1)] .
    ultimately show ?thesis
      using pop(2-4) size untouched_trans [OF s1(8)]
      by (intro disjI1 exI [of _ a] exI [of _ "bsize d"] exI [of _ "popped b s1"] exI [of _ "xs @ k\<lparr>bk_holes := hs\<rparr> # ys"] exI [of _ sp']) auto
  next
    case False
    then have few: "card (free_pages s) < 2" by simp
    obtain m s' where "new_bucket d s es = Stop (Panicked m) s'" using new_bucket_none [OF s few, of d es] False by auto
    moreover have "find_free 4294967296 s (bucket_chain s d) = Some 0"
      using find_free_lst [OF pool_chain(1,3) [OF s size(1)]] False by simp
    ultimately show ?thesis using few by (simp add: malloc_def d bnd_run gets_run)
  qed
qed

subsection \<open>Release\<close>

text \<open>The descriptor before that of \<open>k\<close> in its chain, 0 when it is the first.\<close>

definition desc_before :: "bucket list \<Rightarrow> nat \<Rightarrow> u32" where
  "desc_before xs d = (let as = map bk_desc (filter (\<lambda>l. bk_dir l = d) xs) in if as = [] then 0 else last as)"

lemma page_of_object:
  assumes "bucket_at s k" "a \<in> objects (bk_page k) (bk_size k)"
  shows "a AND 0xfffff000 = bk_page k"
proof -
  have "frame a = frame (bk_page k)" by (rule object_frame [OF bucket_page [OF assms(1)] assms(2)])
  moreover have "unat (bk_page k) = frame (bk_page k) * 4096"
    using bucket_page(1) [OF assms(1)] unfolding frame_def by (metis add.right_neutral div_mult_mod_eq)
  ultimately show ?thesis using unat_page [of a] by (simp add: word_unat_eq_iff)
qed

lemma find_bucket_run:
  assumes s: "pool_at s (xs @ k # ys) sp" and sz: "sz \<le> int (bk_size k)"
    and ds: "set ds \<subseteq> {..<nbuckets}" "bk_dir k \<in> set ds"
  shows "find_bucket (bk_page k) sz ds s es = Ret (bk_dir k, desc_before xs (bk_dir k), bk_desc k) s es"
  using ds
proof (induction ds)
  case (Cons d ds)
  let ?bs = "\<lambda>zs. map bk_desc (filter (\<lambda>l. bk_dir l = d) zs)"
  have d: "d < nbuckets" using Cons.prems(1) by simp
  note ch = pool_chain [OF s d] and find = chain_find_lst [OF pool_chain(1) [OF s d] pool_chain(3) [OF s d]]
  have page: "bd_page s (bk_desc l) = bk_page l" if "l \<in> set (xs @ k # ys)" for l
    using pool_bucket [OF s that] by (simp add: bucket_at_def)
  have "distinct (map bk_page (xs @ k # ys))" using s by (simp add: pool_at_def)
  then have "bk_page k \<notin> bk_page ` set xs" "bk_page k \<notin> bk_page ` set ys" by simp_all
  then have other: "bk_page l \<noteq> bk_page k" if "l \<in> set xs \<or> l \<in> set ys" for l
    using that by (metis image_eqI)
  show ?case
  proof (cases "bk_dir k = d")
    case True
    have skip: "\<forall>b\<in>set (?bs xs). bd_page s b \<noteq> bk_page k" using page other by auto
    then have tw: "takeWhile (\<lambda>b. bd_page s b \<noteq> bk_page k) (?bs (xs @ k # ys)) = ?bs xs"
      using page [of k] True by (simp add: takeWhile_append takeWhile_eq_all_conv)
    have "find (\<lambda>b. bd_page s b = bk_page k) (?bs xs @ bk_desc k # ?bs ys) = Some (bk_desc k)"
      using skip page [of k] by (induction xs) (auto split: if_splits)
    then have "find (\<lambda>b. bd_page s b = bk_page k) (?bs (xs @ k # ys)) = Some (bk_desc k)" using True by simp
    moreover have "bk_desc k \<noteq> 0" using lst_nonzero [OF ch(1), of "bk_desc k"] True by auto
    ultimately show ?thesis
      using find [of "bk_page k" 0] sz True tw by (simp add: bnd_run gets_run ret_run Let_def desc_before_def)
  next
    case False
    have "find (\<lambda>b. bd_page s b = bk_page k) (?bs (xs @ k # ys)) = None"
      using page other False by (auto simp: find_None_iff)
    then have "find_bucket (bk_page k) sz (d # ds) s es = find_bucket (bk_page k) sz ds s es"
      using find [of "bk_page k" 0] by (simp add: bnd_run gets_run)
    then show ?thesis using Cons False by simp
  qed
qed simp

lemma free_page_run:
  assumes "managed (frame p)" "page_count s (frame p) = 1" "p < HIGH_MEMORY s"
  shows "free_page p s es = Ret () (set_map (frame p - 256) 0 s) es"
proof -
  have f: "256 \<le> frame p" "frame p < 4096" using assms(1) by (simp_all add: managed_def)
  have "mem_map s (frame p - 256) = 1" using assms(2) by (simp add: page_count_def word_unat_eq_iff)
  moreover have "\<not> p < LOW_MEM" using f(1) by (simp add: low_mem_frame)
  ultimately show ?thesis
    using f assms(3) less_diff_iff [of 256 "frame p" 4096]
    by (simp add: free_page_def MAP_NR_frame krun PAGING_PAGES_def leD not_le)
qed

text \<open>Unlinking a descriptor whose page is free, and handing the page back.\<close>

lemma release_run:
  assumes s: "pool_at s (xs @ k # ys) sp"
  defines "d \<equiv> bk_dir k" and "b \<equiv> bk_desc k"
  obtains s' where "release_bucket d (desc_before xs d) b s es = Ret () s' es"
    "\<And>c. c \<in> set (descs (xs @ k # ys) sp) \<Longrightarrow> bd_next s' c = (if c = b then free_bucket_desc s
       else if c = desc_before xs d then bd_next s b else bd_next s c)"
    "\<And>a. \<forall>c\<in>set (descs (xs @ k # ys) sp). a \<noteq> c + 4 \<Longrightarrow> phys s' a = phys s a"
    "mem_map s' = (mem_map s)(frame (bk_page k) - 256 := 0)" "HIGH_MEMORY s' = HIGH_MEMORY s"
    "bucket_chain s' = (if desc_before xs d = 0 then (bucket_chain s)(d := bd_next s b) else bucket_chain s)"
    "free_bucket_desc s' = b"
proof -
  let ?prev = "desc_before xs d" and ?all = "set (descs (xs @ k # ys) sp)"
  let ?bs = "\<lambda>zs. map bk_desc (filter (\<lambda>l. bk_dir l = d) zs)"
  have sk: "bucket_at s k" by (rule pool_bucket [OF s]) simp
  have d: "d < nbuckets" using bucket_page(2) [OF sk] by (simp add: d_def)
  have b: "b \<in> ?all" by (simp add: b_def)
  have addr: "desc_addr c" if "c \<in> ?all" for c using pool_desc [OF s that] by (simp add: desc_ok_def)
  have chain: "lst (bd_next s) (bucket_chain s d) (?bs xs @ b # ?bs ys)" "distinct (?bs xs @ b # ?bs ys)"
    using pool_chain(1,2) [OF s d] by (simp_all add: d_def b_def)
  have before: "?prev \<in> set (?bs xs)" if "?bs xs \<noteq> []"
    unfolding desc_before_def Let_def if_not_P [OF that] by (rule last_in_set [OF that])
  have zero: "?prev = 0 \<longleftrightarrow> ?bs xs = []"
  proof
    assume "?prev = 0"
    then show "?bs xs = []" using before lst_nonzero [OF chain(1), of 0] by auto
  qed (simp add: desc_before_def)
  have prev: "?prev \<in> ?all" "?prev \<noteq> b" if "?prev \<noteq> 0"
    using before that zero chain(2) by auto
  have consistent: "\<not> (?prev \<noteq> 0 \<and> bd_next s ?prev \<noteq> b \<or> ?prev = 0 \<and> bucket_chain s d \<noteq> b)"
    using lst_split(1) [OF chain(1)] zero by (auto simp: desc_before_def Let_def split: if_splits)
  define s1 where "s1 = (if ?prev \<noteq> 0 then set_next ?prev (bd_next s b) s else set_chain d (bd_next s b) s)"
  have page: "bd_page s1 b = bk_page k"
    using sk prev(1,2) fields_set(2) [OF addr addr] b by (auto simp: s1_def bucket_at_def b_def set_chain_def bd_page_def)
  have keep1: "mem_map s1 = mem_map s" "HIGH_MEMORY s1 = HIGH_MEMORY s" "free_bucket_desc s1 = free_bucket_desc s"
    "bucket_chain s1 = (if ?prev = 0 then (bucket_chain s)(d := bd_next s b) else bucket_chain s)"
    by (simp_all add: s1_def set_keeps) (simp_all add: set_chain_def)
  have count1: "page_count s1 f = page_count s f" for f by (simp add: page_count_def keep1)
  have fp: "free_page (bk_page k) s1 es = Ret () (set_map (frame (bk_page k) - 256) 0 s1) es"
    using sk by (intro free_page_run) (simp_all add: bucket_at_def count1 keep1)
  let ?s' = "set_next b (free_bucket_desc s) (set_map (frame (bk_page k) - 256) 0 s1)\<lparr>free_bucket_desc := b\<rparr>"
  have run: "release_bucket d ?prev b s es = Ret () ?s' es"
  proof -
    have "bucket_chain s d = b" if "?prev = 0" using consistent that by simp
    then show ?thesis
      using consistent fp page unfolding release_bucket_def
      by (simp add: krun s1_def keep1(3) split: if_splits) (simp_all add: s1_def set_map_def set_keeps set_chain_def)
  qed
  have phys: "phys ?s' a = phys s a" if "a \<noteq> b + 4" "?prev \<noteq> 0 \<Longrightarrow> a \<noteq> ?prev + 4" for a
    using that by (auto simp: phys_set set_map_def s1_def set_chain_def)
  show thesis
  proof (rule that [OF run])
    fix a assume "\<forall>c\<in>?all. a \<noteq> c + 4"
    then show "phys ?s' a = phys s a" using b prev(1) by (intro phys) auto
  next
    fix c assume c: "c \<in> ?all"
    have "c \<noteq> 0" using pool_desc [OF s c] by (auto simp: desc_ok_def frame_def managed_def)
    then show "bd_next ?s' c = (if c = b then free_bucket_desc s else if c = ?prev then bd_next s b else bd_next s c)"
      by (auto simp: bd_next_def set_next_def set_word_def set_map_def s1_def set_chain_def)
  qed (simp_all add: keep1 set_keeps set_map_def)
qed

lemma pool_distinct:
  assumes "pool_at s ks sp"
  shows "distinct (descs ks sp)" "distinct (map bk_desc ks)"
proof -
  show d: "distinct (descs ks sp)" using assms unfolding pool_at_def by blast
  show "distinct (map bk_desc ks)" using d unfolding distinct_append by blast
qed

text \<open>Chains after the descriptor of \<open>k\<close> has been taken out.\<close>

lemma chain_without:
  assumes s: "pool_at s (xs @ k # ys) sp" and e: "e < nbuckets"
  defines "d \<equiv> bk_dir k" and "b \<equiv> bk_desc k"
  assumes nx: "\<And>c. c \<in> set (descs (xs @ k # ys) sp) \<Longrightarrow> nx c = (if c = b then f else if c = desc_before xs d then bd_next s b else bd_next s c)"
    and chain: "chain = (if desc_before xs d = 0 then (bucket_chain s)(d := bd_next s b) else bucket_chain s)"
  shows "lst nx (chain e) (map bk_desc (filter (\<lambda>k. bk_dir k = e) (xs @ ys)))"
proof -
  let ?bs = "\<lambda>zs. map bk_desc (filter (\<lambda>l. bk_dir l = e) zs)" and ?prev = "desc_before xs d"
  note ch = pool_chain(1,2) [OF s e]
  note dist = pool_distinct(2) [OF s]
  have before: "?prev \<in> bk_desc ` {l \<in> set xs. bk_dir l = d}" if "map bk_desc (filter (\<lambda>l. bk_dir l = d) xs) \<noteq> []"
    using last_in_set [OF that] unfolding desc_before_def Let_def if_not_P [OF that] by auto
  show ?thesis
  proof (cases "e = d")
    case True
    have l: "lst (bd_next s) (bucket_chain s d) (?bs xs @ b # ?bs ys)" "distinct (?bs xs @ b # ?bs ys)"
      using ch True by (simp_all add: d_def b_def)
    show ?thesis
    proof (cases "?bs xs = []")
      case empty: True
      then have prev: "?prev = 0" using True by (simp add: desc_before_def)
      have "lst nx (bd_next s b) (?bs ys) = lst (bd_next s) (bd_next s b) (?bs ys)"
      proof (rule lst_cong)
        fix c assume c: "c \<in> set (?bs ys)"
        have "c \<noteq> 0" using lst_nonzero [OF l(1), of c] c by simp
        then show "nx c = bd_next s c" using nx [of c] c l(2) prev by auto
      qed
      then show ?thesis using lst_split(3) [OF l(1)] empty True prev by (simp add: chain)
    next
      case False
      then have last: "?prev = last (?bs xs)" using True by (simp add: desc_before_def)
      have prev: "?prev \<noteq> 0" using lst_nonzero [OF l(1), of ?prev] last False by (metis Un_iff last_in_set set_append)
      have "lst ((bd_next s)(?prev := bd_next s b)) (bucket_chain s d) (?bs xs @ ?bs ys)"
        unfolding last by (rule lst_remove [OF l False])
      moreover have "lst nx (bucket_chain s d) (?bs xs @ ?bs ys) =
          lst ((bd_next s)(?prev := bd_next s b)) (bucket_chain s d) (?bs xs @ ?bs ys)"
      proof (rule lst_cong)
        fix c assume c: "c \<in> set (?bs xs @ ?bs ys)"
        have "b \<notin> set (?bs xs @ ?bs ys)" using l(2) by simp
        then have "c \<noteq> b" using c by blast
        moreover have "c \<in> set (descs (xs @ k # ys) sp)" using c by auto
        ultimately show "nx c = ((bd_next s)(?prev := bd_next s b)) c" using nx [of c] by simp
      qed
      ultimately show ?thesis using True prev by (simp add: chain)
    qed
  next
    case False
    have "lst nx (bucket_chain s e) (?bs (xs @ ys)) = lst (bd_next s) (bucket_chain s e) (?bs (xs @ ys))"
    proof (rule lst_cong)
      fix c assume c: "c \<in> set (?bs (xs @ ys))"
      have c0: "c \<noteq> 0" using lst_nonzero [OF ch(1), of c] c by auto
      have cb: "c \<noteq> b" using c dist by (auto simp: b_def)
      have "inj_on bk_desc (set (xs @ k # ys))" using dist by (simp only: distinct_map)
      moreover obtain l where l: "l \<in> set (xs @ k # ys)" "bk_dir l = e" "c = bk_desc l" using c by auto
      ultimately have "c \<noteq> bk_desc m" if "m \<in> set xs" "bk_dir m = d" for m
        using that False by (auto simp: inj_on_def)
      then have "c \<noteq> ?prev" using before c0
        by (cases "map bk_desc (filter (\<lambda>l. bk_dir l = d) xs) = []") (auto simp: desc_before_def)
      then show "nx c = bd_next s c" using nx [of c] c cb by auto
    qed
    moreover have "?bs (xs @ k # ys) = ?bs (xs @ ys)" using False by (simp add: d_def)
    ultimately show ?thesis using ch(1) False by (simp add: chain)
  qed
qed

lemma release_pool:
  assumes s: "pool_at s (xs @ k # ys) sp"
  obtains s' where "release_bucket (bk_dir k) (desc_before xs (bk_dir k)) (bk_desc k) s es = Ret () s' es"
    "pool_at s' (xs @ ys) (bk_desc k # sp)" "untouched (xs @ k # ys) s s'"
proof -
  let ?b = "bk_desc k" and ?ks = "xs @ k # ys" and ?f = "frame (bk_page k)"
  obtain s' where r: "release_bucket (bk_dir k) (desc_before xs (bk_dir k)) ?b s es = Ret () s' es"
    and nx: "\<And>c. c \<in> set (descs ?ks sp) \<Longrightarrow> bd_next s' c = (if c = ?b then free_bucket_desc s
       else if c = desc_before xs (bk_dir k) then bd_next s ?b else bd_next s c)"
    and phys: "\<And>a. \<forall>c\<in>set (descs ?ks sp). a \<noteq> c + 4 \<Longrightarrow> phys s' a = phys s a"
    and keep: "mem_map s' = (mem_map s)(?f - 256 := 0)" "HIGH_MEMORY s' = HIGH_MEMORY s"
      "bucket_chain s' = (if desc_before xs (bk_dir k) = 0 then (bucket_chain s)(bk_dir k := bd_next s ?b) else bucket_chain s)"
      "free_bucket_desc s' = ?b"
    by (rule release_run [OF s, of es]; rule that; assumption)
  have sk: "bucket_at s k" by (rule pool_bucket [OF s]) simp
  have mf: "managed ?f" using sk by (simp add: bucket_at_def)
  have count: "page_count s' g = (if g = ?f then 0 else page_count s g)" if "managed g" for g
    using that mf by (auto simp: page_count_def keep(1) managed_def)
  have addr: "desc_addr c" if "c \<in> set (descs ?ks sp)" for c using pool_desc [OF s that] by (simp add: desc_ok_def)
  note dist = pool_distinct(1) [OF s]
  have fields: "bd_page s' c = bd_page s c" "bd_freeptr s' c = bd_freeptr s c" "bd_refcnt s' c = bd_refcnt s c"
    if c: "c \<in> set (descs ?ks sp)" for c
    using phys [of c] phys [of "c + 8"] phys [of "c + 12"] desc_words(1,9,11) [OF addr [OF c] addr]
    by (auto simp: bd_page_def bd_freeptr_def bd_refcnt_def)
  have in_page: "phys s' a = phys s a" if l: "l \<in> set ?ks" and a: "frame a = frame (bk_page l)" for a l
  proof (rule phys, intro ballI)
    fix c assume c: "c \<in> set (descs ?ks sp)"
    show "a \<noteq> c + 4" using pool_frame [OF s l c] desc_field(2) [OF addr [OF c], of 4] a by auto
  qed
  have buckets: "bucket_at s' l" if l: "l \<in> set (xs @ ys)" for l
  proof (rule bucket_at_cong)
    have lk: "l \<in> set ?ks" and ld: "bk_desc l \<in> set (descs ?ks sp)" using l by auto
    show sl: "bucket_at s l" by (rule pool_bucket [OF s lk])
    show "bd_page s' (bk_desc l) = bd_page s (bk_desc l)" "bd_freeptr s' (bk_desc l) = bd_freeptr s (bk_desc l)"
      "bd_refcnt s' (bk_desc l) = bd_refcnt s (bk_desc l)" using fields [OF ld] by simp_all
    have "l \<noteq> k" using l dist by auto
    then have "frame (bk_page l) \<noteq> ?f" using pool_pages [OF s lk, of k] by auto
    then show "page_count s' (frame (bk_page l)) = page_count s (frame (bk_page l))"
      using sl count by (simp add: bucket_at_def)
    fix a assume "a \<in> set (bk_holes l)"
    then show "phys s' a = phys s a" by (intro in_page [OF lk] bucket_frame_holes [OF sl])
  qed (rule keep(2))
  have spare: "lst (bd_next s') (free_bucket_desc s) sp"
  proof -
    have l: "lst (bd_next s) (free_bucket_desc s) sp" using s by (simp add: pool_at_def)
    have "lst (bd_next s') (free_bucket_desc s) sp = lst (bd_next s) (free_bucket_desc s) sp"
    proof (rule lst_cong)
      fix c assume c: "c \<in> set sp"
      have "desc_before xs (bk_dir k) \<in> insert 0 (bk_desc ` set xs)"
        using last_in_set [of "map bk_desc (filter (\<lambda>l. bk_dir l = bk_dir k) xs)"] by (auto simp: desc_before_def Let_def)
      then have "c \<noteq> desc_before xs (bk_dir k)" using lst_nonzero [OF l c] c dist by auto
      then show "bd_next s' c = bd_next s c" using nx [of c] c dist by auto
    qed
    then show ?thesis using l by simp
  qed
  have "bd_next s' ?b = free_bucket_desc s" using nx [of ?b] by simp
  moreover have "?b \<noteq> 0" using pool_desc [OF s, of ?b] by (auto simp: desc_ok_def frame_def managed_def)
  ultimately have "lst (bd_next s') (free_bucket_desc s') (?b # sp)" using spare keep(4) by simp
  moreover have "desc_ok s' c" if "c \<in> set (descs ?ks sp)" for c
    using pool_desc [OF s that] pool_frame [OF s _ that, of k] count [of "frame c"] by (simp add: desc_ok_def)
  then have "\<forall>c\<in>set (descs (xs @ ys) (?b # sp)). desc_ok s' c" by auto
  moreover have "distinct (descs (xs @ ys) (?b # sp))" using dist by auto
  moreover have "distinct (map bk_page (xs @ ys))" using s by (simp add: pool_at_def)
  moreover have "\<forall>l\<in>set (xs @ ys). \<forall>c\<in>set (descs (xs @ ys) (?b # sp)). frame c \<noteq> frame (bk_page l)"
    using pool_frame [OF s] by auto
  moreover have "4096 * g < unat (HIGH_MEMORY s')" if g: "managed g" "page_count s' g = 0" for g
  proof (cases "g = ?f")
    case True
    have "bk_page k < HIGH_MEMORY s" "unat (bk_page k) = 4096 * ?f"
      using sk unfolding bucket_at_def frame_def by (auto simp: div_mult_mod_eq)
    then show ?thesis using True keep(2) by (simp add: word_less_nat_alt)
  next
    case False
    then show ?thesis using s g count keep(2) by (simp add: pool_at_def)
  qed
  moreover have "\<forall>e<nbuckets. lst (bd_next s') (bucket_chain s' e) (map bk_desc (filter (\<lambda>k. bk_dir k = e) (xs @ ys)))"
    using chain_without [OF s _ nx keep(3)] by blast
  ultimately have "pool_at s' (xs @ ys) (?b # sp)" using buckets unfolding pool_at_def by blast
  moreover have "untouched ?ks s s'"
    unfolding untouched_def
  proof clarify
    fix a z x assume a: "(a, z) \<in> blocks ?ks" "x \<in> span a z"
    obtain l where "l \<in> set ?ks" "frame x = frame (bk_page l)" by (rule block_frame [OF s a])
    then show "phys s' x = phys s x" by (rule in_page)
  qed
  ultimately show thesis using that r by simp
qed

lemma free_run:
  assumes s: "pool_at s ks sp" and a: "(a, z) \<in> blocks ks" and sz: "sz \<le> int z"
  shows "\<exists>s' ks' sp'. free_s a sz s es = Ret () s' es \<and> pool_at s' ks' sp' \<and> blocks ks' = blocks ks - {(a, z)} \<and> untouched ks' s s'"
proof -
  obtain k where k: "k \<in> set ks" "a \<in> objects (bk_page k) (bk_size k)" "a \<notin> set (bk_holes k)" "z = bk_size k"
    using a by (auto simp: blocks_def bucket_blocks_def)
  obtain xs ys where ks: "ks = xs @ k # ys" using k(1) by (meson split_list)
  note s' = s [unfolded ks]
  have sk: "bucket_at s k" by (rule pool_bucket [OF s k(1)])
  let ?b = "bk_desc k" and ?k = "k\<lparr>bk_holes := a # bk_holes k\<rparr>"
  note push = push_pool [OF s' k(2,3), folded ks k(4)]
  let ?s1 = "pushed a ?b s"
  have find: "find_bucket (a AND 0xfffff000) sz [0..<nbuckets] s es = Ret (bk_dir k, desc_before xs (bk_dir k), ?b) s es"
    unfolding page_of_object [OF sk k(2)] using s' sz k(4) bucket_page(2) [OF sk]
    by (intro find_bucket_run) (auto simp del: upt_Suc)
  have run: "free_s a sz s es = guardK (bd_refcnt ?s1 ?b = 0) (release_bucket (bk_dir k) (desc_before xs (bk_dir k)) ?b) ?s1 es"
    by (simp only: free_s_def Let_def bnd_run find res.case prod.case block.simps seq_run modify_run gets_run ret_run pushed_def)
      (simp add: guardK_run krun split: res.splits)
  have same: "untouched ks' s ?s1" if "blocks ks' = blocks ks - {(a, z)}" for ks'
    using push(4) unfolding untouched_def that by blast
  show ?thesis
  proof (cases "bd_refcnt ?s1 ?b = 0")
    case False
    then show ?thesis using run push(1,2) same [OF push(2)] by (auto simp: guardK_run)
  next
    case True
    have s1: "pool_at ?s1 (xs @ ?k # ys) sp" by (rule push(1))
    obtain s2 where s2: "release_bucket (bk_dir k) (desc_before xs (bk_dir k)) ?b ?s1 es = Ret () s2 es"
      "pool_at s2 (xs @ ys) (?b # sp)" "untouched (xs @ ?k # ys) ?s1 s2"
      using release_pool [OF s1, of es] by auto
    have "bucket_at ?s1 ?k" by (rule pool_bucket [OF s1]) simp
    then have full: "set (bk_holes ?k) \<subseteq> objects (bk_page k) z" "distinct (bk_holes ?k)"
      "unat (bk_page k) mod 4096 = 0" "bk_dir k < nbuckets" by (auto simp: bucket_at_def k(4))
    have "card (set (bk_holes ?k)) = card (objects (bk_page k) z)"
      using distinct_card [OF full(2)] True push(3) card_objects [OF full(3,4)] k(4) by simp
    then have "set (bk_holes ?k) = objects (bk_page k) z"
      by (intro card_subset_eq full(1)) (simp_all add: objects_def)
    then have "bucket_blocks ?k = {}" by (auto simp: bucket_blocks_def k(4))
    then have bl: "blocks (xs @ ys) = blocks ks - {(a, z)}" using push(2) by (simp add: blocks_append)
    have "untouched (xs @ ys) ?s1 s2" using s2(3) by (auto simp: untouched_def blocks_append)
    then show ?thesis
      using run True s2(1,2) bl untouched_trans [OF same [OF bl]] by (auto simp: guardK_run)
  qed
qed

subsection \<open>The heap as a set of blocks\<close>

definition heap_at :: "kernel \<Rightarrow> (u32 \<times> nat) set \<Rightarrow> bool" where
  "heap_at s L \<longleftrightarrow> (\<exists>ks sp. pool_at s ks sp \<and> blocks ks = L)"

text \<open>Before the first call: no chain, and no free page above the end of memory.\<close>

definition heap_fresh :: "kernel \<Rightarrow> bool" where
  "heap_fresh s \<longleftrightarrow> (\<forall>d<nbuckets. bucket_chain s d = 0) \<and> free_bucket_desc s = 0 \<and>
     (\<forall>f. managed f \<longrightarrow> page_count s f = 0 \<longrightarrow> 4096 * f < unat (HIGH_MEMORY s))"

lemma heap_at_fresh: "heap_fresh s \<Longrightarrow> heap_at s {}"
  unfolding heap_at_def
  by (intro exI [of _ "[]"]) (simp add: heap_fresh_def pool_at_def blocks_def)

text \<open>
  The runs of a kernel that uses the allocator: calls, stores into blocks in use, and pages taken
  by others.
\<close>

inductive heap_reach :: "kernel \<Rightarrow> (u32 \<times> nat) set \<Rightarrow> bool" where
  fresh: "heap_fresh s \<Longrightarrow> heap_reach s {}"
| alloc: "heap_reach s L \<Longrightarrow> malloc len s [] = Ret a s' [] \<Longrightarrow>
    first_upto (\<lambda>d. unat len \<le> bsize d) nbuckets = Some d \<Longrightarrow> heap_reach s' (insert (a, bsize d) L)"
| release: "heap_reach s L \<Longrightarrow> (a, z) \<in> L \<Longrightarrow> sz \<le> int z \<Longrightarrow> free_s a sz s [] = Ret () s' [] \<Longrightarrow>
    heap_reach s' (L - {(a, z)})"
| store: "heap_reach s L \<Longrightarrow> (a, z) \<in> L \<Longrightarrow> x \<in> span a z \<Longrightarrow> heap_reach (set_word x v s) L"
| page: "heap_reach s L \<Longrightarrow> get_free_page s [] = Ret p s' [] \<Longrightarrow> heap_reach s' L"

lemma heap_store:
  assumes "heap_at s L" "(a, z) \<in> L" "x \<in> span a z"
  shows "heap_at (set_word x v s) L"
proof -
  obtain ks sp where s: "pool_at s ks sp" "blocks ks = L" using assms(1) by (auto simp: heap_at_def)
  have az: "(a, z) \<in> blocks ks" using assms(2) s(2) by simp
  obtain k where k: "k \<in> set ks" "a \<in> objects (bk_page k) (bk_size k)" "a \<notin> set (bk_holes k)" "z = bk_size k"
    using az by (auto simp: blocks_def bucket_blocks_def)
  obtain xs ys where ks: "ks = xs @ k # ys" using k(1) by (meson split_list)
  let ?s = "set_word x v s"
  have sk: "bucket_at s k" by (rule pool_bucket [OF s(1) k(1)])
  note kp = bucket_page [OF sk]
  have b: "bk_desc k \<in> set (descs ks sp)" using k(1) by simp
  have off: "x \<noteq> bk_desc k + of_nat i" if "i < 16" for i
    by (rule desc_not_in_block [OF s(1) az assms(3) b that])
  have fx: "frame x = frame (bk_page k)" using span_frame [OF kp k(2)] assms(3) k(4) by simp
  have "bucket_at ?s k"
  proof (rule bucket_at_cong [OF sk])
    show "bd_page ?s (bk_desc k) = bd_page s (bk_desc k)" "bd_freeptr ?s (bk_desc k) = bd_freeptr s (bk_desc k)"
      "bd_refcnt ?s (bk_desc k) = bd_refcnt s (bk_desc k)"
      using off [of 0] off [of 8] off [of 12] by (auto simp: bd_page_def bd_freeptr_def bd_refcnt_def set_word_def)
    fix h assume h: "h \<in> set (bk_holes k)"
    then have "h \<in> objects (bk_page k) (bk_size k)" "h \<noteq> a" using sk k(3) by (auto simp: bucket_at_def)
    then have "x \<noteq> h" using objects_disjoint [OF kp k(2)] object_span [OF kp(2), of h] assms(3) k(4) by fastforce
    then show "phys ?s h = phys s h" by (simp add: set_word_def)
  qed (simp_all add: page_count_def set_word_def)
  then have "pool_at ?s (xs @ k # ys) sp"
    by (rule pool_update [OF s(1) [unfolded ks]]) (use fx in \<open>auto simp: set_word_def\<close>)
  then show ?thesis using s(2) ks by (auto simp: heap_at_def)
qed

lemma heap_page:
  assumes "heap_at s L" "get_free_page s es = Ret p s' es'"
  shows "heap_at s' L"
proof (cases "free_pages s = {}")
  case True
  then show ?thesis using assms by (simp add: get_free_page_none)
next
  case False
  obtain ks sp where s: "pool_at s ks sp" "blocks ks = L" using assms(1) by (auto simp: heap_at_def)
  obtain i where i: "i < PAGING_PAGES" "mem_map s i = 0" "get_free_page s es = Ret (page_addr i) (taken i s) es"
    by (rule get_free_page_some [OF False])
  have "pool_at (taken i s) ks sp"
    by (rule pool_outside [OF s(1) free_page_outside [OF s(1) i(1,2)]])
      (simp_all add: taken_phys [OF i(1)] taken_count [OF i(1)] taken_simps)
  then show ?thesis using s(2) i(3) assms(2) by (auto simp: heap_at_def)
qed

lemma least_size:
  assumes "first_upto (\<lambda>d. n \<le> bsize d) nbuckets = Some d" "z \<in> set bucket_sizes" "n \<le> z" "\<forall>y\<in>set bucket_sizes. n \<le> y \<longrightarrow> z \<le> y"
  shows "z = bsize d"
  using malloc_size [OF assms(1)] bsize_cases assms(2-4) by (metis order_antisym)

lemma heap_malloc:
  assumes "heap_at s L" "unat len \<le> 4096"
  shows "(\<exists>a z s'. malloc len s es = Ret a s' es \<and> heap_at s' (insert (a, z) L) \<and> (a, z) \<notin> L \<and>
      z \<in> set bucket_sizes \<and> unat len \<le> z \<and> (\<forall>y\<in>set bucket_sizes. unat len \<le> y \<longrightarrow> z \<le> y) \<and>
      (\<forall>(c, y)\<in>L. \<forall>x\<in>span c y. phys s' x = phys s x)) \<or>
    (card (free_pages s) < 2 \<and> (\<exists>m s'. malloc len s es = Stop (Panicked m) s'))"
proof -
  obtain ks sp where s: "pool_at s ks sp" "blocks ks = L" using assms(1) by (auto simp: heap_at_def)
  show ?thesis using malloc_run [OF s(1) assms(2), of es] unfolding s(2) heap_at_def untouched_def by blast
qed

lemma heap_free:
  assumes "heap_at s L" "(a, z) \<in> L" "sz \<le> int z"
  shows "\<exists>s'. free_s a sz s es = Ret () s' es \<and> heap_at s' (L - {(a, z)}) \<and>
    (\<forall>(c, y)\<in>L - {(a, z)}. \<forall>x\<in>span c y. phys s' x = phys s x)"
proof -
  obtain ks sp where s: "pool_at s ks sp" "blocks ks = L" using assms(1) by (auto simp: heap_at_def)
  obtain s' ks' sp' where "free_s a sz s es = Ret () s' es" "pool_at s' ks' sp'" "blocks ks' = L - {(a, z)}" "untouched ks' s s'"
    using free_run [OF s(1) _ assms(3), of a es] s(2) assms(2) by auto
  then show ?thesis by (auto simp: heap_at_def untouched_def)
qed

lemma heap_reach_at: "heap_reach s L \<Longrightarrow> heap_at s L"
proof (induction rule: heap_reach.induct)
  case (alloc s L len a s' d)
  have "unat len \<le> 4096" using malloc_size(1,2) [OF alloc(3)] bsize_props(5) by (meson order_trans)
  then obtain z where z: "heap_at s' (insert (a, z) L)" "z \<in> set bucket_sizes" "unat len \<le> z"
    "\<forall>y\<in>set bucket_sizes. unat len \<le> y \<longrightarrow> z \<le> y"
    using heap_malloc [OF alloc.IH, of len "[]"] alloc(2) by auto
  then show ?case using least_size [OF alloc(3) z(2-4)] by simp
next
  case (release s L a z sz s')
  then show ?case using heap_free [of s L a z sz "[]"] by auto
qed (auto intro: heap_at_fresh heap_store heap_page)

text \<open>
  C12. \<open>malloc\<close> of at most 4096 bytes returns a block that was not in use, of the least size of
  \<open>bucket_dir\<close> that is large enough, and changes no word of a block in use; it can only fail, with
  a panic, when fewer than two pages are free.  A larger request panics.
\<close>

lemma malloc_takes_block:
  assumes "heap_at s L"
  shows "if unat len \<le> 4096
    then (\<exists>a z s'. malloc len s es = Ret a s' es \<and> heap_at s' (insert (a, z) L) \<and> (a, z) \<notin> L \<and>
        z \<in> set bucket_sizes \<and> unat len \<le> z \<and> (\<forall>y\<in>set bucket_sizes. unat len \<le> y \<longrightarrow> z \<le> y) \<and>
        (\<forall>(c, y)\<in>L. \<forall>x\<in>span c y. phys s' x = phys s x)) \<or>
      (card (free_pages s) < 2 \<and> (\<exists>m s'. malloc len s es = Stop (Panicked m) s'))
    else malloc len s es = Stop (Panicked ''malloc: bad arg'') s"
proof (cases "unat len \<le> 4096")
  case True
  then show ?thesis using heap_malloc [OF assms True, of es] by simp
next
  case False
  have "\<not> unat len \<le> bsize d" if "d < nbuckets" for d
    using bsize_props(5) [OF that] False by simp
  then have "first_upto (\<lambda>d. unat len \<le> bsize d) nbuckets = None" by (simp only: first_upto_None) simp
  then show ?thesis using False by (simp add: malloc_def stop_run)
qed

text \<open>16 megabytes of free memory and no bucket.\<close>

definition heap0 :: kernel where
  "heap0 = blank_kernel\<lparr>HIGH_MEMORY := 0x1000000\<rparr>"

lemma heap0_fresh: "heap_fresh heap0" "card (free_pages heap0) = 3840"
proof -
  show "heap_fresh heap0" by (auto simp: heap_fresh_def heap0_def blank_kernel_def managed_def)
  have "free_pages heap0 = {..<3840}" by (auto simp: free_pages_def heap0_def blank_kernel_def kconst)
  then show "card (free_pages heap0) = 3840" by simp
qed

lemma size_128: "z \<in> set bucket_sizes \<Longrightarrow> 100 \<le> z \<Longrightarrow> \<forall>y\<in>set bucket_sizes. 100 \<le> y \<longrightarrow> z \<le> y \<Longrightarrow> z = 128"
  by (auto simp: bucket_sizes_def)

lemma heap1: "\<exists>a s. malloc 100 heap0 [] = Ret a s [] \<and> heap_at s {(a, 128)} \<and> heap_reach s {(a, 128)}"
proof -
  obtain a z s where m: "malloc 100 heap0 [] = Ret a s []" "heap_at s {(a, z)}" "z = 128"
    using heap_malloc [OF heap_at_fresh [OF heap0_fresh(1)], of 100 "[]"] heap0_fresh(2) size_128 by auto
  obtain d where d: "first_upto (\<lambda>d. unat (100 :: u32) \<le> bsize d) nbuckets = Some d"
    using first_upto_None [of "\<lambda>d. unat (100 :: u32) \<le> bsize d" nbuckets] by (auto simp: bucket_sizes_def)
  have "bsize d = 128" by (rule size_128) (use malloc_size [OF d] bsize_cases in auto)
  moreover have "heap_reach s (insert (a, bsize d) {})"
    by (rule heap_reach.alloc [OF heap_reach.fresh [OF heap0_fresh(1)] m(1) d])
  ultimately show ?thesis using m by simp
qed

lemma malloc_takes_block_witness:
  "\<exists>a s. malloc 100 heap0 [] = Ret a s [] \<and> heap_at s {(a, 128)} \<and> malloc 5000 heap0 [] = Stop (Panicked ''malloc: bad arg'') heap0"
  using malloc_takes_block [OF heap_at_fresh [OF heap0_fresh(1)], of 100 "[]"]
    malloc_takes_block [OF heap_at_fresh [OF heap0_fresh(1)], of 5000 "[]"] heap0_fresh(2) size_128 by auto

text \<open>
  C11. \<open>free_s\<close> of a block in use, with size 0 or any size up to the block's, always returns; it
  makes exactly this block free, changes no word of another block, and keeps the heap well formed,
  also when the last block of a page goes and the page is handed back.
\<close>

lemma free_gives_back:
  assumes "heap_at s L" "(a, z) \<in> L" "sz \<le> int z"
  shows "\<exists>s'. free_s a sz s es = Ret () s' es \<and> heap_at s' (L - {(a, z)}) \<and>
    (\<forall>(c, y)\<in>L - {(a, z)}. \<forall>x\<in>span c y. phys s' x = phys s x)"
  by (rule heap_free [OF assms])

lemma free_gives_back_witness:
  "\<exists>a s s'. malloc 100 heap0 [] = Ret a s [] \<and> free_s a 0 s [] = Ret () s' [] \<and> heap_at s' {}"
proof -
  obtain a s where s: "malloc 100 heap0 [] = Ret a s []" "heap_at s {(a, 128)}" using heap1 by auto
  then show ?thesis using free_gives_back [OF s(2), of a 128 0 "[]"] by auto
qed

text \<open>
  C4. In every run of \<open>malloc\<close>, \<open>free_s\<close>, stores into blocks in use and allocations of pages by
  others, two blocks in use never share an address, and a block lies in pages that are counted in
  \<open>mem_map\<close>, so that \<open>get_free_page\<close> never hands its memory out again.
\<close>

lemma heap_blocks_apart:
  assumes "heap_reach s L" "(a, z) \<in> L"
  shows "(\<forall>(b, y)\<in>L. (b, y) \<noteq> (a, z) \<longrightarrow> span a z \<inter> span b y = {}) \<and>
    (\<forall>x\<in>span a z. managed (frame x) \<and> page_count s (frame x) = 1)"
proof -
  obtain ks sp where s: "pool_at s ks sp" "blocks ks = L" using heap_reach_at [OF assms(1)] by (auto simp: heap_at_def)
  have az: "(a, z) \<in> blocks ks" using assms(2) s(2) by simp
  have "span a z \<inter> span b y = {}" if "(b, y) \<in> L" "(b, y) \<noteq> (a, z)" for b y
    using blocks_disjoint [OF s(1) az, of b y] that s(2) by metis
  moreover have "managed (frame x) \<and> page_count s (frame x) = 1" if x: "x \<in> span a z" for x
  proof -
    obtain k where "k \<in> set ks" "frame x = frame (bk_page k)" by (rule block_frame [OF s(1) az x])
    then show ?thesis using pool_bucket [OF s(1)] by (auto simp: bucket_at_def)
  qed
  ultimately show ?thesis by blast
qed

lemma heap_blocks_apart_witness:
  "\<exists>a s. heap_reach s {(a, 128)} \<and> page_count s (frame a) = 1"
proof -
  obtain a s where s: "heap_reach s {(a, 128)}" using heap1 by auto
  have "a \<in> span a 128" unfolding span_def by (rule image_eqI [of _ _ 0]) simp_all
  then show ?thesis using heap_blocks_apart [OF s, of a 128] s by auto
qed

end
