(* ===== verification/Cstring.thy ===== *)
theory Cstring
  imports Prelude
begin

unbundle bit_operations_syntax

text \<open>
  include/string.h: the string functions are inline assembler over the string instructions of the
  processor.  A function here runs the same instructions on the registers and on memory, a map
  from addresses to bytes.  A repeated instruction counts \<open>ecx\<close> down and so ends; a loop of
  \<open>lodsb\<close> ends at a zero byte and is a partial function, \<open>None\<close> when there is no such byte.
  Characters are signed, as the compiler takes them.  Read back in the second part, these programs
  are the functions on lists that C's documentation describes.
\<close>

type_synonym memory = "u32 \<Rightarrow> u8"

subsection \<open>Repeated string instructions\<close>

text \<open>\<open>repne scasb\<close>: the count, the address and the zero flag after it.\<close>

function repne_scasb :: "memory \<Rightarrow> u8 \<Rightarrow> u32 \<Rightarrow> u32 \<Rightarrow> bool \<Rightarrow> u32 \<times> u32 \<times> bool" where
  "repne_scasb m al ecx edi zf = (if ecx = 0 then (ecx, edi, zf)
     else if m edi = al then (ecx - 1, edi + 1, True) else repne_scasb m al (ecx - 1) (edi + 1) False)"
  by pat_completeness auto

lemma count_down: "ecx \<noteq> 0 \<Longrightarrow> unat (ecx - 1 :: u32) < unat ecx"
  by (simp add: measure_unat)

termination repne_scasb
  by (relation "measure (\<lambda>(m, al, ecx, edi, zf). unat ecx)") (auto intro: count_down)

text \<open>\<open>repe cmpsb\<close>: the addresses, the zero flag and whether the last comparison was \<open>less\<close>.\<close>

function repe_cmpsb :: "memory \<Rightarrow> u32 \<Rightarrow> u32 \<Rightarrow> u32 \<Rightarrow> bool \<times> bool \<Rightarrow> u32 \<times> u32 \<times> bool \<times> bool" where
  "repe_cmpsb m esi edi ecx fl = (if ecx = 0 then (esi, edi, fl)
     else if m esi = m edi then repe_cmpsb m (esi + 1) (edi + 1) (ecx - 1) (True, False)
     else (esi + 1, edi + 1, False, sint (m esi) < sint (m edi)))"
  by pat_completeness auto

termination repe_cmpsb
  by (relation "measure (\<lambda>(m, esi, edi, ecx, fl). unat ecx)") (auto intro: count_down)

text \<open>\<open>rep stosb\<close> upwards, and \<open>rep movsb\<close> in the direction \<open>d\<close>.\<close>

function rep_stosb :: "memory \<Rightarrow> u8 \<Rightarrow> u32 \<Rightarrow> u32 \<Rightarrow> memory" where
  "rep_stosb m al edi ecx = (if ecx = 0 then m else rep_stosb (m(edi := al)) al (edi + 1) (ecx - 1))"
  by pat_completeness auto

termination rep_stosb
  by (relation "measure (\<lambda>(m, al, edi, ecx). unat ecx)") (auto intro: count_down)

function rep_movsb :: "memory \<Rightarrow> u32 \<Rightarrow> u32 \<Rightarrow> u32 \<Rightarrow> u32 \<Rightarrow> memory" where
  "rep_movsb m esi edi ecx d =
     (if ecx = 0 then m else rep_movsb (m(edi := m esi)) (esi + d) (edi + d) (ecx - 1) d)"
  by pat_completeness auto

termination rep_movsb
  by (relation "measure (\<lambda>(m, esi, edi, ecx, d). unat ecx)") (auto intro: count_down)

declare repne_scasb.simps [simp del] repe_cmpsb.simps [simp del] rep_stosb.simps [simp del] rep_movsb.simps [simp del]

subsection \<open>Copying\<close>

text \<open>The loop of \<open>lodsb\<close> and \<open>stosb\<close> up to the zero byte.\<close>

partial_function (option) strcpy_loop :: "memory \<Rightarrow> u32 \<Rightarrow> u32 \<Rightarrow> memory option" where
  "strcpy_loop m edi esi = (let al = m esi; m' = m(edi := al)
     in if al \<noteq> 0 then strcpy_loop m' (edi + 1) (esi + 1) else Some m')"

definition strcpy :: "memory \<Rightarrow> u32 \<Rightarrow> u32 \<Rightarrow> (memory \<times> u32) option" where
  "strcpy m dest src = map_option (\<lambda>m'. (m', dest)) (strcpy_loop m dest src)"

text \<open>The loops that also count: \<open>decl\<close> and \<open>js\<close> leave when the count goes below zero.\<close>

function strncpy_loop :: "memory \<Rightarrow> u32 \<Rightarrow> u32 \<Rightarrow> u32 \<Rightarrow> memory" where
  "strncpy_loop m edi esi ecx = (if sint (ecx - 1) < 0 then m
     else if m esi \<noteq> 0 then strncpy_loop (m(edi := m esi)) (edi + 1) (esi + 1) (ecx - 1)
     else rep_stosb (m(edi := 0)) 0 (edi + 1) (ecx - 1))"
  by pat_completeness auto

lemma count_left: "\<not> sint (ecx - 1 :: u32) < 0 \<Longrightarrow> unat (ecx - 1) < unat ecx"
  by (cases "ecx = 0") (auto intro: count_down)

termination strncpy_loop
  by (relation "measure (\<lambda>(m, edi, esi, ecx). unat ecx)") (auto intro: count_left)

definition strncpy :: "memory \<Rightarrow> u32 \<Rightarrow> u32 \<Rightarrow> u32 \<Rightarrow> memory \<times> u32" where
  "strncpy m dest src n = (strncpy_loop m dest src n, dest)"

text \<open>The address of the zero byte at the end of a string, by \<open>repne scasb\<close> and \<open>decl\<close>.\<close>

definition str_end :: "memory \<Rightarrow> u32 \<Rightarrow> u32" where
  "str_end m dest = (case repne_scasb m 0 0xffffffff dest False of (_, edi, _) \<Rightarrow> edi - 1)"

definition strcat :: "memory \<Rightarrow> u32 \<Rightarrow> u32 \<Rightarrow> (memory \<times> u32) option" where
  "strcat m dest src = map_option (\<lambda>m'. (m', dest)) (strcpy_loop m (str_end m dest) src)"

text \<open>\<open>strncat\<close> stores one more zero after the loop, also behind the one it copied.\<close>

function strncat_loop :: "memory \<Rightarrow> u32 \<Rightarrow> u32 \<Rightarrow> u32 \<Rightarrow> memory" where
  "strncat_loop m edi esi ecx = (if sint (ecx - 1) < 0 then m(edi := 0)
     else if m esi \<noteq> 0 then strncat_loop (m(edi := m esi)) (edi + 1) (esi + 1) (ecx - 1)
     else m(edi := 0, edi + 1 := 0))"
  by pat_completeness auto

termination strncat_loop
  by (relation "measure (\<lambda>(m, edi, esi, ecx). unat ecx)") (auto intro: count_left)

definition strncat :: "memory \<Rightarrow> u32 \<Rightarrow> u32 \<Rightarrow> u32 \<Rightarrow> memory \<times> u32" where
  "strncat m dest src n = (strncat_loop m (str_end m dest) src n, dest)"

definition memcpy :: "memory \<Rightarrow> u32 \<Rightarrow> u32 \<Rightarrow> u32 \<Rightarrow> memory \<times> u32" where
  "memcpy m dest src n = (rep_movsb m src dest n 1, dest)"

definition memmove :: "memory \<Rightarrow> u32 \<Rightarrow> u32 \<Rightarrow> u32 \<Rightarrow> memory \<times> u32" where
  "memmove m dest src n = (if dest < src then rep_movsb m src dest n 1
     else rep_movsb m (src + n - 1) (dest + n - 1) n (- 1), dest)"

definition memset :: "memory \<Rightarrow> u32 \<Rightarrow> u8 \<Rightarrow> u32 \<Rightarrow> memory \<times> u32" where
  "memset m s c n = (rep_stosb m c s n, s)"

declare strncpy_loop.simps [simp del] strncat_loop.simps [simp del]

subsection \<open>Comparing\<close>

text \<open>The result after a comparison that was not equal: 1, or -1 unless \<open>less\<close>.\<close>

definition cmp_result :: "bool \<Rightarrow> int" where
  "cmp_result lt = (if lt then 1 else - 1)"

partial_function (option) strcmp :: "memory \<Rightarrow> u32 \<Rightarrow> u32 \<Rightarrow> int option" where
  "strcmp m cs ct = (if m ct \<noteq> m cs then Some (cmp_result (sint (m ct) < sint (m cs)))
     else if m ct \<noteq> 0 then strcmp m (cs + 1) (ct + 1) else Some 0)"

function strncmp :: "memory \<Rightarrow> u32 \<Rightarrow> u32 \<Rightarrow> u32 \<Rightarrow> int" where
  "strncmp m cs ct n = (if sint (n - 1) < 0 then 0
     else if m ct \<noteq> m cs then cmp_result (sint (m ct) < sint (m cs))
     else if m ct \<noteq> 0 then strncmp m (cs + 1) (ct + 1) (n - 1) else 0)"
  by pat_completeness auto

termination strncmp
  by (relation "measure (\<lambda>(m, cs, ct, n). unat n)") (auto intro: count_left)

text \<open>With a count of 0 the flags \<open>fl\<close> are those that were there before.\<close>

definition memcmp :: "bool \<times> bool \<Rightarrow> memory \<Rightarrow> u32 \<Rightarrow> u32 \<Rightarrow> u32 \<Rightarrow> int" where
  "memcmp fl m cs ct n = (case repe_cmpsb m ct cs n fl of (_, _, zf, lt) \<Rightarrow> if zf then 0 else cmp_result lt)"

declare strncmp.simps [simp del]

subsection \<open>Searching\<close>

definition strlen :: "memory \<Rightarrow> u32 \<Rightarrow> u32" where
  "strlen m s = (case repne_scasb m 0 0xffffffff s False of (ecx, _) \<Rightarrow> NOT ecx - 1)"

partial_function (option) strchr :: "memory \<Rightarrow> u32 \<Rightarrow> u8 \<Rightarrow> u32 option" where
  "strchr m esi c = (if m esi = c then Some (esi + 1 - 1)
     else if m esi \<noteq> 0 then strchr m (esi + 1) c else Some (1 - 1))"

partial_function (option) strrchr_loop :: "memory \<Rightarrow> u32 \<Rightarrow> u8 \<Rightarrow> u32 \<Rightarrow> u32 option" where
  "strrchr_loop m esi c edx = (let edx' = if m esi = c then esi + 1 - 1 else edx
     in if m esi \<noteq> 0 then strrchr_loop m (esi + 1) c edx' else Some edx')"

definition strrchr :: "memory \<Rightarrow> u32 \<Rightarrow> u8 \<Rightarrow> u32 option" where
  "strrchr m s c = strrchr_loop m s c 0"

text \<open>
  The loop of \<open>strspn\<close>, \<open>strcspn\<close>, \<open>strpbrk\<close> and \<open>strtok\<close>: it goes on while the character is (or is
  not) one of the \<open>len\<close> characters at \<open>ct\<close>, and gives the address behind the last character read
  and that character.
\<close>

definition in_chars :: "memory \<Rightarrow> u32 \<Rightarrow> u32 \<Rightarrow> u8 \<Rightarrow> bool" where
  "in_chars m ct len al = (case repne_scasb m al len ct False of (_, _, zf) \<Rightarrow> zf)"

partial_function (option) span_loop :: "bool \<Rightarrow> memory \<Rightarrow> u32 \<Rightarrow> u32 \<Rightarrow> u32 \<Rightarrow> (u32 \<times> u8) option" where
  "span_loop go m ct len esi = (let al = m esi in
     if al = 0 then Some (esi + 1, al)
     else if in_chars m ct len al = go then span_loop go m ct len (esi + 1) else Some (esi + 1, al))"

definition strspn :: "memory \<Rightarrow> u32 \<Rightarrow> u32 \<Rightarrow> u32 option" where
  "strspn m cs ct = map_option (\<lambda>(esi, al). esi - 1 - cs) (span_loop True m ct (strlen m ct) cs)"

definition strcspn :: "memory \<Rightarrow> u32 \<Rightarrow> u32 \<Rightarrow> u32 option" where
  "strcspn m cs ct = map_option (\<lambda>(esi, al). esi - 1 - cs) (span_loop False m ct (strlen m ct) cs)"

definition strpbrk :: "memory \<Rightarrow> u32 \<Rightarrow> u32 \<Rightarrow> u32 option" where
  "strpbrk m cs ct = map_option (\<lambda>(esi, al). if al = 0 then 0 else esi - 1) (span_loop False m ct (strlen m ct) cs)"

text \<open>With an empty \<open>ct\<close> the zero flag is the one that the last \<open>decl\<close> left.\<close>

partial_function (option) strstr_loop :: "memory \<Rightarrow> u32 \<Rightarrow> u32 \<Rightarrow> u32 \<Rightarrow> u32 option" where
  "strstr_loop m ct len esi = (case repe_cmpsb m esi ct len (len = 0, False) of (eax, _, zf, _) \<Rightarrow>
     if zf then Some esi
     else if m (eax - 1) \<noteq> 0 then strstr_loop m ct len (esi + 1) else Some 0)"

definition strstr :: "memory \<Rightarrow> u32 \<Rightarrow> u32 \<Rightarrow> u32 option" where
  "strstr m cs ct = strstr_loop m ct (strlen m ct) cs"

definition memchr :: "memory \<Rightarrow> u32 \<Rightarrow> u8 \<Rightarrow> u32 \<Rightarrow> u32" where
  "memchr m cs c n = (if n = 0 then 0
     else case repne_scasb m c n cs False of (_, edi, zf) \<Rightarrow> (if zf then edi else 1) - 1)"

text \<open>
  \<open>strtok\<close>: \<open>old\<close> is \<open>___strtok\<close>; the results are the token, the new \<open>___strtok\<close> and memory.
\<close>

definition strtok :: "memory \<Rightarrow> u32 \<Rightarrow> u32 \<Rightarrow> u32 \<Rightarrow> (u32 \<times> u32 \<times> memory) option" where
  "strtok m old s ct =
     (if s = 0 \<and> old = 0 then Some (old, s, m)
      else let esi0 = (if s = 0 then old else s); len = strlen m ct in
      if len = 0 then Some (0, 0, m)
      else case span_loop True m ct len esi0 of None \<Rightarrow> None
      | Some (esi1, al) \<Rightarrow>
        if al = 0 \<or> m (esi1 - 1) = 0 then Some (0, 0, m)
        else let token = esi1 - 1 in
          (case span_loop False m ct len token of None \<Rightarrow> None
           | Some (esi2, al2) \<Rightarrow>
             let stop = (al2 = 0 \<or> m (esi2 - 1) = 0);
                 m' = (if stop then m else m(esi2 - 1 := 0));
                 next = (if stop then 0 else esi2);
                 res = (if m' token = 0 then 0 else token)
             in Some (res, if res = 0 then 0 else next, m')))"

subsection \<open>Strings in memory\<close>

primrec str_at :: "memory \<Rightarrow> u32 \<Rightarrow> u8 list \<Rightarrow> bool" where
  "str_at m a [] \<longleftrightarrow> m a = 0"
| "str_at m a (c # w) \<longleftrightarrow> m a = c \<and> c \<noteq> 0 \<and> str_at m (a + 1) w"

lemma str_at_nth: "str_at m a w \<Longrightarrow> k \<le> length w \<Longrightarrow> m (a + of_nat k) = (w @ [0]) ! k"
proof (induction w arbitrary: a k)
  case (Cons c w)
  show ?case
  proof (cases k)
    case (Suc j)
    then show ?thesis using Cons.IH [of "a + 1" j] Cons.prems by (simp add: add.assoc)
  qed (use Cons.prems in simp)
qed simp

lemma str_at_nonzero: "str_at m a w \<Longrightarrow> 0 \<notin> set w"
  by (induction w arbitrary: a) auto

lemma str_at_drop: "str_at m a w \<Longrightarrow> k \<le> length w \<Longrightarrow> str_at m (a + of_nat k) (drop k w)"
proof (induction w arbitrary: a k)
  case (Cons c w)
  show ?case
  proof (cases k)
    case (Suc j)
    then show ?thesis using Cons.IH [of "a + 1" j] Cons.prems by (simp add: add.assoc)
  qed (use Cons.prems in simp)
qed simp

text \<open>The repeated scan finds the first occurrence.\<close>

lemma of_nat_nonzero: "n < 4294967296 \<Longrightarrow> 0 < n \<Longrightarrow> (of_nat n :: u32) \<noteq> 0"
  by (simp add: word_unat_eq_iff unat_of_nat)

lemma first_from_Suc: "first_from P (Suc i) j = map_option Suc (first_from (\<lambda>k. P (Suc k)) i j)"
  by (induction j arbitrary: i) simp_all

lemma scan_first:
  assumes "n < 4294967296"
  shows "repne_scasb m al (of_nat n) edi zf = (case first_upto (\<lambda>k. m (edi + of_nat k) = al) n of
     Some k \<Rightarrow> (of_nat (n - k - 1), edi + of_nat k + 1, True)
   | None \<Rightarrow> (0, edi + of_nat n, if n = 0 then zf else False))"
  using assms
proof (induction n arbitrary: edi zf)
  case 0
  show ?case by (subst repne_scasb.simps) (simp add: first_upto_def)
next
  case (Suc n)
  have nz: "(of_nat (Suc n) :: u32) \<noteq> 0" by (rule of_nat_nonzero) (use Suc.prems in simp_all)
  have IH: "repne_scasb m al (of_nat n) (edi + 1) False = (case first_upto (\<lambda>k. m (edi + 1 + of_nat k) = al) n of
     Some k \<Rightarrow> (of_nat (n - k - 1), edi + 1 + of_nat k + 1, True) | None \<Rightarrow> (0, edi + 1 + of_nat n, False))"
    using Suc.IH [of "edi + 1" False] Suc.prems by simp
  have shift: "first_upto (\<lambda>k. m (edi + of_nat k) = al) (Suc n) =
      (if m edi = al then Some 0 else map_option Suc (first_upto (\<lambda>k. m (edi + 1 + of_nat k) = al) n))"
    by (simp add: first_upto_def first_from_Suc add.assoc)
  show ?case
  proof (cases "m edi = al")
    case True
    then show ?thesis using nz by (subst repne_scasb.simps) (simp add: shift)
  next
    case False
    have step: "repne_scasb m al (of_nat (Suc n)) edi zf = repne_scasb m al (of_nat n) (edi + 1) False"
      using nz False by (subst repne_scasb.simps) simp
    show ?thesis unfolding step IH shift using False by (simp add: algebra_simps split: option.split)
  qed
qed

lemma scan_str_end:
  assumes "str_at m a w" "length w < 4294967295"
  shows "repne_scasb m 0 0xffffffff a False = (of_nat (4294967295 - length w - 1), a + of_nat (length w) + 1, True)"
proof -
  have "first_upto (\<lambda>k. m (a + of_nat k) = 0) 4294967295 = Some (length w)"
  proof (cases "first_upto (\<lambda>k. m (a + of_nat k) = 0) 4294967295")
    case None
    then show ?thesis using str_at_nth [OF assms(1), of "length w"] assms(2) by (auto simp: first_upto_None)
  next
    case (Some k)
    note k = first_upto_Some [OF Some]
    have "k \<le> length w" using k str_at_nth [OF assms(1), of "length w"] by (metis nth_append_length order_refl linorder_not_less)
    moreover have "w ! k \<noteq> 0" if "k < length w" using str_at_nonzero [OF assms(1)] nth_mem [OF that] by metis
    then have "\<not> k < length w" using k str_at_nth [OF assms(1), of k] by (auto simp: nth_append)
    ultimately show ?thesis using Some by simp
  qed
  then show ?thesis using scan_first [of 4294967295 m 0 a False] by simp
qed

lemma strlen_run:
  assumes "str_at m a w" "length w < 4294967295"
  shows "strlen m a = of_nat (length w)"
proof -
  have "(of_nat (4294967295 - length w - 1) :: u32) = 4294967295 - of_nat (length w) - 1"
    using assms(2) by (simp add: of_nat_diff)
  then show ?thesis using scan_str_end [OF assms] by (simp add: strlen_def not_eq_complement)
qed

lemma str_end_run: "str_at m a w \<Longrightarrow> length w < 4294967295 \<Longrightarrow> str_end m a = a + of_nat (length w)"
  by (simp add: str_end_def scan_str_end)

lemma in_chars_run:
  assumes "str_at m ct v" "length v < 4294967296"
  shows "in_chars m ct (of_nat (length v)) al \<longleftrightarrow> al \<in> set v"
proof -
  have "(\<exists>k<length v. m (ct + of_nat k) = al) \<longleftrightarrow> al \<in> set v"
    using str_at_nth [OF assms(1)] by (auto simp: in_set_conv_nth nth_append)
  moreover have "in_chars m ct (of_nat (length v)) al \<longleftrightarrow> (\<exists>k<length v. m (ct + of_nat k) = al)"
  proof (cases "first_upto (\<lambda>k. m (ct + of_nat k) = al) (length v)")
    case None
    then show ?thesis using first_upto_None [of "\<lambda>k. m (ct + of_nat k) = al" "length v"]
      by (simp add: in_chars_def scan_first [OF assms(2)])
  next
    case (Some k)
    then show ?thesis using first_upto_Some [OF Some] by (auto simp: in_chars_def scan_first [OF assms(2)])
  qed
  ultimately show ?thesis by simp
qed

text \<open>What the span loop reads: the longest prefix of such characters and the character behind.\<close>

lemma span_loop_run:
  assumes "str_at m ct v" "length v < 4294967296" "str_at m a w"
  shows "span_loop go m ct (of_nat (length v)) a =
    (let n = length (takeWhile (\<lambda>c. c \<in> set v \<longleftrightarrow> go) w) in Some (a + of_nat n + 1, (w @ [0]) ! n))"
  using assms(3)
proof (induction w arbitrary: a)
  case Nil
  then show ?case by (subst span_loop.simps) simp
next
  case (Cons c w)
  note IH = Cons.IH [of "a + 1"]
  show ?case
    using Cons.prems IH by (subst span_loop.simps) (simp add: in_chars_run [OF assms(1,2)] Let_def add_ac)
qed

subsection \<open>What the searches compute\<close>

text \<open>The order of strings: lexicographic on signed characters with the zero at the end.\<close>

definition str_less :: "u8 list \<Rightarrow> u8 list \<Rightarrow> bool" where
  "str_less v w \<longleftrightarrow> (map sint (v @ [0]), map sint (w @ [0])) \<in> lexord {(x, y :: int). x < y}"

lemma sint_eq: "sint (b :: u8) = sint c \<longleftrightarrow> b = c"
  by (rule inj_eq [OF injI]) (rule signed_word_eqI)

lemma str_less_simps:
  "\<not> str_less [] []" "b \<noteq> 0 \<Longrightarrow> str_less (b # w) [] \<longleftrightarrow> sint b < 0" "b \<noteq> 0 \<Longrightarrow> str_less [] (b # w) \<longleftrightarrow> 0 < sint b"
  "str_less (b # v) (c # w) \<longleftrightarrow> sint b < sint c \<or> b = c \<and> str_less v w"
  using sint_eq [of b 0] sint_eq [of b c] by (auto simp: str_less_def)

lemma strcmp_run:
  assumes "str_at m cs v" "str_at m ct w"
  shows "strcmp m cs ct = Some (if v = w then 0 else if str_less w v then 1 else - 1)"
  using assms
proof (induction v arbitrary: cs ct w)
  case Nil
  then show ?case by (cases w; subst strcmp.simps) (auto simp: cmp_result_def str_less_simps)
next
  case (Cons c v)
  show ?case
  proof (cases w)
    case Nil
    then show ?thesis using Cons.prems by (subst strcmp.simps) (auto simp: cmp_result_def str_less_simps)
  next
    case (Cons b u)
    have "strcmp m (cs + 1) (ct + 1) = Some (if v = u then 0 else if str_less u v then 1 else - 1)"
      by (rule Cons.IH) (use Cons.prems Cons in simp_all)
    then show ?thesis
      using Cons.prems Cons by (subst strcmp.simps) (auto simp: cmp_result_def str_less_simps)
  qed
qed

lemma first_upto_Suc: "first_upto P (Suc n) = (if P 0 then Some 0 else map_option Suc (first_upto (\<lambda>k. P (Suc k)) n))"
  by (simp add: first_upto_def first_from_Suc)

lemma first_upto_eq:
  assumes "k < n" "P k" "\<And>j. j < k \<Longrightarrow> \<not> P j"
  shows "first_upto P n = Some k"
proof (cases "first_upto P n")
  case None
  then show ?thesis using assms(1,2) by (simp add: first_upto_None)
next
  case (Some i)
  then show ?thesis using first_upto_Some [OF Some] assms by (metis linorder_neqE_nat)
qed

lemma last_below_Suc:
  "last_below P (Suc n) = (case last_below (\<lambda>k. P (Suc k)) n of Some k \<Rightarrow> Some (Suc k) | None \<Rightarrow> if P 0 then Some 0 else None)"
  by (induction n) (auto split: option.splits)

text \<open>The address of a position, 0 for none.\<close>

definition place :: "u32 \<Rightarrow> nat option \<Rightarrow> u32" where
  "place a r = (case r of None \<Rightarrow> 0 | Some k \<Rightarrow> a + of_nat k)"

lemma place_Suc: "place (a + 1) r = place a (map_option Suc r)"
  by (cases r) (simp_all add: place_def add_ac)

lemma strchr_run:
  "str_at m a w \<Longrightarrow> strchr m a c = Some (place a (first_upto (\<lambda>k. (w @ [0]) ! k = c) (Suc (length w))))"
proof (induction w arbitrary: a)
  case Nil
  then show ?case by (subst strchr.simps) (simp add: place_def first_upto_def)
next
  case (Cons b w)
  have "strchr m (a + 1) c = Some (place a (map_option Suc (first_upto (\<lambda>k. (w @ [0]) ! k = c) (Suc (length w)))))"
    using Cons.IH [of "a + 1"] Cons.prems by (simp add: place_Suc)
  then show ?case
    using Cons.prems by (subst strchr.simps) (simp add: first_upto_Suc [of _ "Suc (length w)"], simp add: place_def)
qed

lemma strrchr_loop_run:
  "str_at m a w \<Longrightarrow> strrchr_loop m a c edx =
     Some (case last_below (\<lambda>k. (w @ [0]) ! k = c) (Suc (length w)) of None \<Rightarrow> edx | Some k \<Rightarrow> a + of_nat k)"
proof (induction w arbitrary: a edx)
  case Nil
  then show ?case by (subst strrchr_loop.simps) simp
next
  case (Cons b w)
  let ?edx = "if m a = c then a else edx"
  have IH: "strrchr_loop m (a + 1) c ?edx =
      Some (case last_below (\<lambda>k. (w @ [0]) ! k = c) (Suc (length w)) of None \<Rightarrow> ?edx | Some k \<Rightarrow> a + 1 + of_nat k)"
    using Cons.prems by (intro Cons.IH) simp
  have step: "strrchr_loop m a c edx = strrchr_loop m (a + 1) c ?edx"
    using Cons.prems by (subst strrchr_loop.simps) (auto simp: Let_def)
  show ?case
    unfolding step IH last_below_Suc [of _ "length (b # w)"] using Cons.prems
    by (simp add: add_ac del: last_below.simps split: option.split)
qed

lemma strspn_run:
  assumes "str_at m cs w" "str_at m ct v" "length v < 4294967295"
  shows "strspn m cs ct = Some (of_nat (length (takeWhile (\<lambda>c. c \<in> set v) w)))"
    "strcspn m cs ct = Some (of_nat (length (takeWhile (\<lambda>c. c \<notin> set v) w)))"
    "strpbrk m cs ct = Some (place cs (first_upto (\<lambda>k. w ! k \<in> set v) (length w)))"
proof -
  have v: "length v < 4294967296" using assms(3) by simp
  note span = span_loop_run [OF assms(2) v assms(1)] and len = strlen_run [OF assms(2,3)]
  show "strspn m cs ct = Some (of_nat (length (takeWhile (\<lambda>c. c \<in> set v) w)))"
    "strcspn m cs ct = Some (of_nat (length (takeWhile (\<lambda>c. c \<notin> set v) w)))"
    using span [of True] span [of False] by (simp_all add: strspn_def strcspn_def len Let_def)
  let ?n = "length (takeWhile (\<lambda>c. c \<notin> set v) w)"
  show "strpbrk m cs ct = Some (place cs (first_upto (\<lambda>k. w ! k \<in> set v) (length w)))"
  proof (cases "?n < length w")
    case True
    have in_v: "w ! ?n \<in> set v" using nth_length_takeWhile [OF True] by simp
    have "\<not> w ! j \<in> set v" if "j < ?n" for j using that set_takeWhileD [of "w ! j" _ w] takeWhile_nth [OF that] nth_mem [OF that] by metis
    then have "first_upto (\<lambda>k. w ! k \<in> set v) (length w) = Some ?n"
      using True in_v by (intro first_upto_eq) auto
    moreover have "w ! ?n \<noteq> 0" using str_at_nonzero [OF assms(1)] True by (metis nth_mem)
    ultimately show ?thesis using span [of False] True by (simp add: strpbrk_def len Let_def nth_append place_def)
  next
    case False
    then have n: "?n = length w" using length_takeWhile_le [of "\<lambda>c. c \<notin> set v" w] by simp
    then have "takeWhile (\<lambda>c. c \<notin> set v) w = w" by (metis takeWhile_eq_take take_all order_refl)
    then have "\<forall>c\<in>set w. c \<notin> set v" by (metis takeWhile_eq_all_conv)
    then have "first_upto (\<lambda>k. w ! k \<in> set v) (length w) = None" by (simp add: first_upto_None)
    then show ?thesis using span [of False] n by (simp add: strpbrk_def len Let_def place_def)
  qed
qed

text \<open>The repeated comparison stops behind the first difference.\<close>

lemma compare_first:
  assumes "n < 4294967296"
  shows "repe_cmpsb m esi edi (of_nat n) fl = (case first_upto (\<lambda>k. m (esi + of_nat k) \<noteq> m (edi + of_nat k)) n of
     Some k \<Rightarrow> (esi + of_nat k + 1, edi + of_nat k + 1, False, sint (m (esi + of_nat k)) < sint (m (edi + of_nat k)))
   | None \<Rightarrow> (esi + of_nat n, edi + of_nat n, if n = 0 then fl else (True, False)))"
  using assms
proof (induction n arbitrary: esi edi fl)
  case 0
  show ?case by (subst repe_cmpsb.simps) (simp add: first_upto_def)
next
  case (Suc n)
  have nz: "(of_nat (Suc n) :: u32) \<noteq> 0" by (rule of_nat_nonzero) (use Suc.prems in simp_all)
  have IH: "repe_cmpsb m (esi + 1) (edi + 1) (of_nat n) (True, False) =
    (case first_upto (\<lambda>k. m (esi + 1 + of_nat k) \<noteq> m (edi + 1 + of_nat k)) n of
       Some k \<Rightarrow> (esi + 1 + of_nat k + 1, edi + 1 + of_nat k + 1, False,
         sint (m (esi + 1 + of_nat k)) < sint (m (edi + 1 + of_nat k)))
     | None \<Rightarrow> (esi + 1 + of_nat n, edi + 1 + of_nat n, True, False))"
    using Suc.IH [of "esi + 1" "edi + 1" "(True, False)"] Suc.prems by simp
  have shift: "first_upto (\<lambda>k. m (esi + of_nat k) \<noteq> m (edi + of_nat k)) (Suc n) = (if m esi \<noteq> m edi then Some 0
      else map_option Suc (first_upto (\<lambda>k. m (esi + 1 + of_nat k) \<noteq> m (edi + 1 + of_nat k)) n))"
    by (simp add: first_upto_Suc add.assoc)
  show ?case
  proof (cases "m esi = m edi")
    case True
    have step: "repe_cmpsb m esi edi (of_nat (Suc n)) fl = repe_cmpsb m (esi + 1) (edi + 1) (of_nat n) (True, False)"
      using nz True by (subst repe_cmpsb.simps) simp
    show ?thesis unfolding step IH shift using True by (simp add: algebra_simps split: option.split)
  next
    case False
    then show ?thesis using nz by (subst repe_cmpsb.simps) (simp add: shift)
  qed
qed

text \<open>The pattern \<open>v\<close> occurs in \<open>w\<close> at position \<open>k\<close>.\<close>

definition occurs :: "u8 list \<Rightarrow> u8 list \<Rightarrow> nat \<Rightarrow> bool" where
  "occurs v w k \<longleftrightarrow> take (length v) (drop k w) = v"

lemma mismatch:
  assumes w: "str_at m a w" and v: "str_at m ct v"
  shows "first_upto (\<lambda>k. m (a + of_nat k) \<noteq> m (ct + of_nat k)) (length v) = None \<longleftrightarrow> occurs v w 0"
    "first_upto (\<lambda>k. m (a + of_nat k) \<noteq> m (ct + of_nat k)) (length v) = Some j \<Longrightarrow> j \<le> length w"
proof -
  have diff: "m (a + of_nat k) \<noteq> m (ct + of_nat k) \<longleftrightarrow> (w @ [0]) ! k \<noteq> v ! k" if "k < length v" "k \<le> length w" for k
    using str_at_nth [OF w, of k] str_at_nth [OF v, of k] that by (simp add: nth_append)
  have nz: "v ! k \<noteq> 0" if "k < length v" for k using str_at_nonzero [OF v] nth_mem [OF that] by metis
  show "first_upto (\<lambda>k. m (a + of_nat k) \<noteq> m (ct + of_nat k)) (length v) = None \<longleftrightarrow> occurs v w 0"
  proof
    assume none: "first_upto (\<lambda>k. m (a + of_nat k) \<noteq> m (ct + of_nat k)) (length v) = None"
    have le: "length v \<le> length w"
    proof (rule ccontr)
      assume "\<not> length v \<le> length w"
      then show False using none diff [of "length w"] nz [of "length w"] by (auto simp: first_upto_None)
    qed
    then show "occurs v w 0" using none diff by (auto simp: occurs_def first_upto_None list_eq_iff_nth_eq nth_append)
  next
    assume o: "occurs v w 0"
    have len: "length v \<le> length w" using arg_cong [OF o [unfolded occurs_def], of length] by simp
    have "v ! k = w ! k" if "k < length v" for k using o that by (metis occurs_def drop_0 nth_take)
    then show "first_upto (\<lambda>k. m (a + of_nat k) \<noteq> m (ct + of_nat k)) (length v) = None"
      using diff len by (auto simp: first_upto_None nth_append)
  qed
  assume j: "first_upto (\<lambda>k. m (a + of_nat k) \<noteq> m (ct + of_nat k)) (length v) = Some j"
  show "j \<le> length w"
  proof (rule ccontr)
    assume "\<not> j \<le> length w"
    then have "length w < length v" "m (a + of_nat (length w)) = m (ct + of_nat (length w))"
      using first_upto_Some [OF j] by auto
    then show False using diff [of "length w"] nz [of "length w"] by simp
  qed
qed

lemma strstr_run:
  assumes v: "str_at m ct v" "length v < 4294967295" and w: "str_at m cs w"
  shows "strstr m cs ct = Some (place cs (first_upto (occurs v w) (Suc (length w))))"
  unfolding strstr_def strlen_run [OF v]
  using w
proof (induction w arbitrary: cs)
  case (Cons c w)
  let ?f = "first_upto (\<lambda>k. m (cs + of_nat k) \<noteq> m (ct + of_nat k)) (length v)"
  have n: "length v < 4294967296" using v(2) by simp
  note cmp = compare_first [OF n, of m cs ct] and mis = mismatch [OF Cons.prems v(1)]
  have shift: "first_upto (occurs v (c # w)) (Suc (Suc (length w))) =
      (if occurs v (c # w) 0 then Some 0 else map_option Suc (first_upto (occurs v w) (Suc (length w))))"
  proof -
    have "(\<lambda>k. occurs v (c # w) (Suc k)) = occurs v w" by (simp add: fun_eq_iff occurs_def)
    then show ?thesis by (subst first_upto_Suc) simp
  qed
  show ?case
  proof (cases ?f)
    case None
    then show ?thesis using mis(1) by (subst strstr_loop.simps) (auto simp: cmp shift place_def)
  next
    case (Some j)
    have no: "\<not> occurs v (c # w) 0" using mis(1) Some by simp
    have j: "j \<le> length (c # w)" "j < length v" using mis(2) [OF Some] first_upto_Some [OF Some] by simp_all
    have zero: "m (cs + of_nat j) = 0 \<longleftrightarrow> j = length (c # w)"
    proof (cases "j < length (c # w)")
      case True
      have "m (cs + of_nat j) = (c # w) ! j"
        unfolding str_at_nth [OF Cons.prems j(1)] using True by (simp only: nth_append if_True)
      moreover have "(c # w) ! j \<noteq> 0" using str_at_nonzero [OF Cons.prems] nth_mem [OF True] by metis
      ultimately show ?thesis using True by simp
    next
      case False
      then have "j = length (c # w)" using j(1) by simp
      then show ?thesis using str_at_nth [OF Cons.prems j(1)] by simp
    qed
    show ?thesis
    proof (cases "j = length (c # w)")
      case True
      have "\<not> occurs v w k" for k
        using True j(2) by (auto simp: occurs_def dest!: arg_cong [where f = length])
      then have "first_upto (occurs v w) (Suc (length w)) = None" by (simp add: first_upto_None)
      moreover have "m (cs + of_nat j) = 0" using zero True by blast
      ultimately show ?thesis using Some no by (subst strstr_loop.simps) (simp add: cmp shift place_def)
    next
      case False
      have "strstr_loop m ct (of_nat (length v)) cs = strstr_loop m ct (of_nat (length v)) (cs + 1)"
        using False zero Some by (subst strstr_loop.simps) (simp add: cmp)
      then show ?thesis using Cons.IH [of "cs + 1"] Cons.prems no by (simp add: shift place_Suc)
    qed
  qed
next
  case Nil
  have n: "length v < 4294967296" using v(2) by simp
  note cmp = compare_first [OF n, of m cs ct] and mis = mismatch [OF Nil v(1)]
  show ?case
  proof (cases "v = []")
    case True
    then show ?thesis by (subst strstr_loop.simps) (simp add: repe_cmpsb.simps [of m cs ct 0] first_upto_def occurs_def place_def)
  next
    case False
    then have no: "\<not> occurs v [] 0" by (simp add: occurs_def)
    then obtain j where j: "first_upto (\<lambda>k. m (cs + of_nat k) \<noteq> m (ct + of_nat k)) (length v) = Some j"
      using mis(1) by auto
    then have "j = 0" using mis(2) by simp
    then show ?thesis using j no Nil by (subst strstr_loop.simps) (simp add: cmp first_upto_def place_def)
  qed
qed

text \<open>
  C38. On strings in memory the searches are the functions on lists that their documentation
  describes: the length, the comparison (lexicographic, on signed characters), the first and the
  last place of a character, the length of the longest prefix of characters from (or not from) a
  set, the first character from a set, and the first place where a string occurs.  All of them
  return, whatever else is in memory.
\<close>

lemma string_searches:
  assumes "str_at m s w" "str_at m t v" "length w < 4294967295" "length v < 4294967295"
  shows "strlen m s = of_nat (length w) \<and>
    strcmp m s t = Some (if w = v then 0 else if str_less v w then 1 else - 1) \<and>
    strchr m s c = Some (place s (first_upto (\<lambda>k. (w @ [0]) ! k = c) (Suc (length w)))) \<and>
    strrchr m s c = Some (place s (last_below (\<lambda>k. (w @ [0]) ! k = c) (Suc (length w)))) \<and>
    strspn m s t = Some (of_nat (length (takeWhile (\<lambda>c. c \<in> set v) w))) \<and>
    strcspn m s t = Some (of_nat (length (takeWhile (\<lambda>c. c \<notin> set v) w))) \<and>
    strpbrk m s t = Some (place s (first_upto (\<lambda>k. w ! k \<in> set v) (length w))) \<and>
    strstr m s t = Some (place s (first_upto (occurs v w) (Suc (length w))))"
  using strlen_run [OF assms(1,3)] strcmp_run [OF assms(1,2)] strchr_run [OF assms(1)] strspn_run [OF assms(1,2,4)]
    strstr_run [OF assms(2,4,1)] strrchr_loop_run [OF assms(1), of c 0]
  by (simp add: strrchr_def place_def del: last_below.simps)

definition hello :: memory where
  "hello = (\<lambda>_. 0)(100 := 97, 101 := 98, 102 := 97, 103 := 98, 104 := 99, 200 := 97, 201 := 98, 202 := 99)"

lemma string_searches_witness:
  "strlen hello 100 = 5 \<and> strcmp hello 100 200 = Some (- 1) \<and> strstr hello 100 200 = Some 102 \<and>
   strrchr hello 100 97 = Some 102 \<and> strspn hello 100 200 = Some 5"
  using string_searches [of hello 100 "[97, 98, 97, 98, 99]" 200 "[97, 98, 99]" 97]
  by (simp add: hello_def str_less_simps place_def first_upto_Suc occurs_def)

subsection \<open>What the copies do\<close>

text \<open>Bytes read from memory one after the other, and bytes written.\<close>

definition get_bytes :: "memory \<Rightarrow> u32 \<Rightarrow> nat \<Rightarrow> u8 list" where
  "get_bytes m a n = map (\<lambda>k. m (a + of_nat k)) [0..<n]"

primrec put_bytes :: "memory \<Rightarrow> u32 \<Rightarrow> u8 list \<Rightarrow> memory" where
  "put_bytes m a [] = m"
| "put_bytes m a (c # w) = put_bytes (m(a := c)) (a + 1) w"

lemma get_bytes_Suc: "get_bytes m a (Suc n) = m a # get_bytes m (a + 1) n"
  by (simp add: get_bytes_def upt_conv_Cons map_Suc_upt [symmetric] comp_def add_ac del: upt_Suc)

lemma get_bytes_snoc: "get_bytes m a (Suc n) = get_bytes m a n @ [m (a + of_nat n)]"
  by (simp add: get_bytes_def)

lemma get_bytes_cong: "(\<And>k. k < n \<Longrightarrow> m' (a + of_nat k) = m (a + of_nat k)) \<Longrightarrow> get_bytes m' a n = get_bytes m a n"
  by (simp add: get_bytes_def)

lemma put_bytes_upd:
  "(\<And>k. k < length w \<Longrightarrow> b \<noteq> a + of_nat k) \<Longrightarrow> put_bytes (m(b := y)) a w = (put_bytes m a w)(b := y)"
proof (induction w arbitrary: m a)
  case (Cons c w)
  have "b \<noteq> a" using Cons.prems [of 0] by simp
  then have "m(b := y, a := c) = m(a := c, b := y)" by (rule fun_upd_twist)
  moreover have "put_bytes (m(a := c, b := y)) (a + 1) w = (put_bytes (m(a := c)) (a + 1) w)(b := y)"
  proof (rule Cons.IH)
    fix k assume "k < length w"
    then show "b \<noteq> a + 1 + of_nat k" using Cons.prems [of "Suc k"] by (simp add: add.assoc)
  qed
  ultimately show ?case by (simp only: put_bytes.simps)
qed simp

lemma put_bytes_append: "put_bytes m a (v @ w) = put_bytes (put_bytes m a v) (a + of_nat (length v)) w"
  by (induction v arbitrary: m a) (simp_all add: add_ac)

lemma put_bytes_other: "(\<And>k. k < length w \<Longrightarrow> x \<noteq> a + of_nat k) \<Longrightarrow> put_bytes m a w x = m x"
  using put_bytes_upd [of w x a m "m x"] by (metis fun_upd_same fun_upd_triv)

lemma fill_run: "n < 4294967296 \<Longrightarrow> rep_stosb m c a (of_nat n) = put_bytes m a (replicate n c)"
proof (induction n arbitrary: m a)
  case 0
  show ?case by (subst rep_stosb.simps) simp
next
  case (Suc n)
  have "(of_nat (Suc n) :: u32) \<noteq> 0" by (rule of_nat_nonzero) (use Suc.prems in simp_all)
  then show ?case using Suc by (subst rep_stosb.simps) simp
qed

lemma off_inj:
  assumes "unat (a :: u32) + n \<le> 4294967296" "k < n"
  shows "unat (a + of_nat k) = unat a + k"
  using assms by (simp add: unat_word_ariths unat_of_nat)

lemma move_up:
  assumes "unat edi < unat esi" "unat esi + n \<le> 4294967296"
  shows "rep_movsb m esi edi (of_nat n) 1 = put_bytes m edi (get_bytes m esi n)"
  using assms
proof (induction n arbitrary: m esi edi)
  case 0
  show ?case by (subst rep_movsb.simps) (simp add: get_bytes_def)
next
  case (Suc n)
  have n: "Suc n < 4294967296" using Suc.prems by simp
  let ?m = "m(edi := m esi)"
  have "(of_nat (Suc n) :: u32) \<noteq> 0" by (rule of_nat_nonzero [OF n]) simp
  then have step: "rep_movsb m esi edi (of_nat (Suc n)) 1 = rep_movsb ?m (esi + 1) (edi + 1) (of_nat n) 1"
    by (subst rep_movsb.simps) simp
  show ?case
  proof (cases n)
    case 0
    then show ?thesis unfolding step by (subst rep_movsb.simps) (simp add: get_bytes_Suc get_bytes_def)
  next
    case (Suc j)
    have esi: "unat (esi + 1) = unat esi + 1" using off_inj [OF Suc.prems(2), of 1] Suc by simp
    have edi: "unat (edi + 1) = unat edi + 1" using off_inj [of edi 2 1] Suc.prems Suc by simp
    have "rep_movsb ?m (esi + 1) (edi + 1) (of_nat n) 1 = put_bytes ?m (edi + 1) (get_bytes ?m (esi + 1) n)"
      by (rule Suc.IH) (use Suc.prems esi edi in simp_all)
    moreover have "get_bytes ?m (esi + 1) n = get_bytes m (esi + 1) n"
    proof (rule get_bytes_cong)
      fix k assume "k < n"
      then have "unat (esi + 1 + of_nat k) = unat esi + Suc k" using off_inj [OF Suc.prems(2), of "Suc k"] by (simp add: add.assoc)
      then have "esi + 1 + of_nat k \<noteq> edi" using Suc.prems(1) by auto
      then show "?m (esi + 1 + of_nat k) = m (esi + 1 + of_nat k)" by simp
    qed
    ultimately show ?thesis unfolding step by (simp add: get_bytes_Suc)
  qed
qed

lemma move_down:
  assumes "unat src \<le> unat dest" "unat dest + n \<le> 4294967296" "n < 4294967296"
  shows "rep_movsb m (src + of_nat n - 1) (dest + of_nat n - 1) (of_nat n) (- 1) = put_bytes m dest (get_bytes m src n)"
  using assms
proof (induction n arbitrary: m)
  case 0
  show ?case by (subst rep_movsb.simps) (simp add: get_bytes_def)
next
  case (Suc n)
  let ?m = "m(dest + of_nat n := m (src + of_nat n))"
  have "(of_nat (Suc n) :: u32) \<noteq> 0" by (rule of_nat_nonzero [OF Suc.prems(3)]) simp
  then have "rep_movsb m (src + of_nat (Suc n) - 1) (dest + of_nat (Suc n) - 1) (of_nat (Suc n)) (- 1) =
      rep_movsb ?m (src + of_nat n - 1) (dest + of_nat n - 1) (of_nat n) (- 1)"
    by (subst rep_movsb.simps) simp
  also have "\<dots> = put_bytes ?m dest (get_bytes ?m src n)" by (rule Suc.IH) (use Suc.prems in simp_all)
  also have "get_bytes ?m src n = get_bytes m src n"
  proof (rule get_bytes_cong)
    fix k assume k: "k < n"
    have "unat (src + of_nat k) = unat src + k" "unat (dest + of_nat n) = unat dest + n"
      using off_inj [of src "Suc n" k] off_inj [OF Suc.prems(2), of n] Suc.prems k by simp_all
    then have "src + of_nat k \<noteq> dest + of_nat n" using Suc.prems(1) k by auto
    then show "?m (src + of_nat k) = m (src + of_nat k)" by simp
  qed
  also have "put_bytes ?m dest (get_bytes m src n) = (put_bytes m dest (get_bytes m src n))(dest + of_nat n := m (src + of_nat n))"
  proof (rule put_bytes_upd)
    fix k assume "k < length (get_bytes m src n)"
    then have "unat (dest + of_nat k) < unat (dest + of_nat n)"
      using off_inj [OF Suc.prems(2), of k] off_inj [OF Suc.prems(2), of n] by (simp add: get_bytes_def)
    then show "dest + of_nat n \<noteq> dest + of_nat k" by auto
  qed
  also have "\<dots> = put_bytes m dest (get_bytes m src (Suc n))"
    unfolding get_bytes_snoc put_bytes_append by (simp add: get_bytes_def)
  finally show ?case .
qed

text \<open>
  C39. \<open>memmove\<close> moves bytes as if it read all of them before it wrote the first, however the two
  areas overlap, and \<open>memset\<close> fills; nothing else changes.
\<close>

lemma memmove_overlap:
  assumes "unat dest + n \<le> 4294967296" "unat src + n \<le> 4294967296" "n < 4294967296"
  shows "memmove m dest src (of_nat n) = (put_bytes m dest (get_bytes m src n), dest) \<and>
    memset m dest c (of_nat n) = (put_bytes m dest (replicate n c), dest) \<and>
    (\<forall>w x. length w = n \<and> (unat x < unat dest \<or> unat dest + n \<le> unat x) \<longrightarrow> put_bytes m dest w x = m x)"
proof -
  have "memmove m dest src (of_nat n) = (put_bytes m dest (get_bytes m src n), dest)"
    using move_up [of dest src n m] move_down [of src dest n m] assms
    by (simp add: memmove_def word_less_nat_alt not_less)
  moreover have "put_bytes m dest w x = m x" if w: "length w = n" "unat x < unat dest \<or> unat dest + n \<le> unat x" for w x
  proof (rule put_bytes_other)
    fix k assume "k < length w"
    then show "x \<noteq> dest + of_nat k" using off_inj [OF assms(1), of k] w by auto
  qed
  ultimately show ?thesis using fill_run [OF assms(3)] by (simp add: memset_def)
qed

lemma memmove_overlap_witness:
  "fst (memmove hello 101 100 4) 104 = 98 \<and> fst (memmove hello 100 101 4) 100 = 98"
proof -
  have "memmove hello 101 100 4 = (put_bytes hello 101 (get_bytes hello 100 4), 101)"
    "memmove hello 100 101 4 = (put_bytes hello 100 (get_bytes hello 101 4), 100)"
    using memmove_overlap [of 101 4 100 hello 0] memmove_overlap [of 100 4 101 hello 0] by simp_all
  then show ?thesis by (simp add: get_bytes_def hello_def upt_rec)
qed

text \<open>The \<open>n\<close> bytes at \<open>d\<close> are none of the \<open>l\<close> bytes at \<open>a\<close>.\<close>

definition apart :: "u32 \<Rightarrow> nat \<Rightarrow> u32 \<Rightarrow> nat \<Rightarrow> bool" where
  "apart d n a l \<longleftrightarrow> (\<forall>j<n. \<forall>k<l. d + of_nat j \<noteq> a + of_nat k)"

lemma apart_Suc:
  assumes "apart d (Suc n) a (Suc l)"
  shows "apart (d + 1) n (a + 1) l" "\<And>k. k \<le> l \<Longrightarrow> a + of_nat k \<noteq> d"
proof -
  have ne: "d + of_nat j \<noteq> a + of_nat k" if "j < Suc n" "k < Suc l" for j k
    using assms that by (simp add: apart_def del: of_nat_Suc)
  show "apart (d + 1) n (a + 1) l"
    unfolding apart_def
  proof (intro allI impI)
    fix j k assume "j < n" "k < l"
    then show "d + 1 + of_nat j \<noteq> a + 1 + of_nat k" using ne [of "Suc j" "Suc k"] by (simp add: add.assoc)
  qed
  show "a + of_nat k \<noteq> d" if "k \<le> l" for k using ne [of 0 k] that by auto
qed

lemma str_at_upd: "(\<And>k. k \<le> length w \<Longrightarrow> a + of_nat k \<noteq> d) \<Longrightarrow> str_at (m(d := y)) a w = str_at m a w"
proof (induction w arbitrary: a)
  case Nil
  then show ?case using Nil [of 0] by simp
next
  case (Cons c w)
  have "str_at (m(d := y)) (a + 1) w = str_at m (a + 1) w"
  proof (rule Cons.IH)
    fix k assume "k \<le> length w"
    then show "a + 1 + of_nat k \<noteq> d" using Cons.prems [of "Suc k"] by (simp add: add.assoc)
  qed
  moreover have "(m(d := y)) a = m a" using Cons.prems [of 0] by simp
  ultimately show ?case by (simp only: str_at.simps)
qed

lemma str_at_rest:
  assumes "str_at m a (c # w)" "apart d (Suc n) a (Suc (Suc (length w)))"
  shows "str_at (m(d := y)) (a + 1) w" "apart (d + 1) n (a + 1) (Suc (length w))"
proof -
  note ap = apart_Suc [OF assms(2)]
  show "apart (d + 1) n (a + 1) (Suc (length w))" by (rule ap(1))
  have "str_at (m(d := y)) (a + 1) w = str_at m (a + 1) w"
  proof (rule str_at_upd)
    fix k assume "k \<le> length w"
    then show "a + 1 + of_nat k \<noteq> d" using ap(2) [of "Suc k"] by (simp add: add.assoc)
  qed
  then show "str_at (m(d := y)) (a + 1) w" using assms(1) by simp
qed

lemma strcpy_loop_run:
  "str_at m a w \<Longrightarrow> apart d (Suc (length w)) a (Suc (length w)) \<Longrightarrow> strcpy_loop m d a = Some (put_bytes m d (w @ [0]))"
proof (induction w arbitrary: m a d)
  case Nil
  then show ?case by (subst strcpy_loop.simps) (simp add: Let_def)
next
  case (Cons c w)
  have "strcpy_loop (m(d := c)) (d + 1) (a + 1) = Some (put_bytes (m(d := c)) (d + 1) (w @ [0]))"
    by (rule Cons.IH [OF str_at_rest [OF Cons.prems(1)]]) (use Cons.prems(2) in simp_all)
  then show ?case using Cons.prems(1) by (subst strcpy_loop.simps) (simp add: Let_def)
qed

lemma sint_small: "n < 2147483648 \<Longrightarrow> sint (of_nat n :: u32) = int n"
  using sint_sbintrunc' [of "int n", where 'a = 32] signed_take_bit_int_eq_self [of 31 "int n"] by simp

lemma count_sign: "Suc n < 2147483648 \<Longrightarrow> \<not> sint ((of_nat (Suc n) :: u32) - 1) < 0"
  using sint_small [of n] by simp

lemma strncpy_loop_run:
  "str_at m a w \<Longrightarrow> n < 2147483648 \<Longrightarrow> apart d n a (Suc (length w)) \<Longrightarrow>
     strncpy_loop m d a (of_nat n) = put_bytes m d (take n (w @ replicate n 0))"
proof (induction n arbitrary: m a d w)
  case 0
  show ?case by (subst strncpy_loop.simps) simp
next
  case (Suc n)
  note sgn = count_sign [OF Suc.prems(2)]
  show ?case
  proof (cases w)
    case Nil
    have "strncpy_loop m d a (of_nat (Suc n)) = rep_stosb (m(d := 0)) 0 (d + 1) (of_nat n)"
      using sgn Suc.prems(1) Nil by (subst strncpy_loop.simps) simp
    then show ?thesis using fill_run [of n "m(d := 0)" 0 "d + 1"] Suc.prems(2) Nil by simp
  next
    case (Cons c u)
    have rest: "str_at (m(d := c)) (a + 1) u" "apart (d + 1) n (a + 1) (Suc (length u))"
      using str_at_rest [of m a c u d n] Suc.prems(1,3) Cons by simp_all
    have step: "strncpy_loop m d a (of_nat (Suc n)) = strncpy_loop (m(d := c)) (d + 1) (a + 1) (of_nat n)"
      using sgn Suc.prems(1) Cons by (subst strncpy_loop.simps) simp
    show ?thesis
      unfolding step Suc.IH [OF rest(1) Suc_lessD [OF Suc.prems(2)] rest(2)] using Cons
      by (simp add: replicate_append_same [symmetric])
  qed
qed

lemma strncat_loop_run:
  "str_at m a w \<Longrightarrow> n < 2147483648 \<Longrightarrow> apart d n a (Suc (length w)) \<Longrightarrow>
     strncat_loop m d a (of_nat n) = put_bytes m d (if n \<le> length w then take n w @ [0] else w @ [0, 0])"
proof (induction n arbitrary: m a d w)
  case 0
  show ?case by (subst strncat_loop.simps) simp
next
  case (Suc n)
  note sgn = count_sign [OF Suc.prems(2)]
  show ?case
  proof (cases w)
    case Nil
    then show ?thesis using sgn Suc.prems(1) by (subst strncat_loop.simps) simp
  next
    case (Cons c u)
    have rest: "str_at (m(d := c)) (a + 1) u" "apart (d + 1) n (a + 1) (Suc (length u))"
      using str_at_rest [of m a c u d n] Suc.prems(1,3) Cons by simp_all
    have step: "strncat_loop m d a (of_nat (Suc n)) = strncat_loop (m(d := c)) (d + 1) (a + 1) (of_nat n)"
      using sgn Suc.prems(1) Cons by (subst strncat_loop.simps) simp
    show ?thesis
      unfolding step Suc.IH [OF rest(1) Suc_lessD [OF Suc.prems(2)] rest(2)] using Cons by simp
  qed
qed

text \<open>
  C40. Copying a string: \<open>strcpy\<close> writes the string and its zero, \<open>strncpy\<close> exactly \<open>n\<close> bytes, the
  string cut off or filled up with zeros, \<open>strcat\<close> and \<open>strncat\<close> the same behind the string that is
  at the destination.  \<open>strncat\<close> of a string shorter than \<open>n\<close> writes a second zero behind the first.
  All of them return the destination.
\<close>

lemma string_copies:
  assumes "str_at m src w" "str_at m dest u" "length u < 4294967295" "n < 2147483648"
    and "apart dest (max n (Suc (length w))) src (Suc (length w))"
    and "apart (dest + of_nat (length u)) (max n (Suc (length w))) src (Suc (length w))"
  shows "strcpy m dest src = Some (put_bytes m dest (w @ [0]), dest) \<and>
    strncpy m dest src (of_nat n) = (put_bytes m dest (take n (w @ replicate n 0)), dest) \<and>
    strcat m dest src = Some (put_bytes m (dest + of_nat (length u)) (w @ [0]), dest) \<and>
    strncat m dest src (of_nat n) =
      (put_bytes m (dest + of_nat (length u)) (if n \<le> length w then take n w @ [0] else w @ [0, 0]), dest)"
proof -
  have weaken: "apart d i a l" if "apart d j a l" "i \<le> j" for d i j a l
    using that by (simp add: apart_def)
  note ap = weaken [OF assms(5)] weaken [OF assms(6)]
  have "strcpy m dest src = Some (put_bytes m dest (w @ [0]), dest)"
    using strcpy_loop_run [OF assms(1) ap(1)] by (simp add: strcpy_def)
  moreover have "strncpy m dest src (of_nat n) = (put_bytes m dest (take n (w @ replicate n 0)), dest)"
    using strncpy_loop_run [OF assms(1,4) ap(1)] by (simp add: strncpy_def)
  moreover have "strcat m dest src = Some (put_bytes m (dest + of_nat (length u)) (w @ [0]), dest)"
    using strcpy_loop_run [OF assms(1) ap(2)] str_end_run [OF assms(2,3)] by (simp add: strcat_def)
  moreover have "strncat m dest src (of_nat n) =
      (put_bytes m (dest + of_nat (length u)) (if n \<le> length w then take n w @ [0] else w @ [0, 0]), dest)"
    using strncat_loop_run [OF assms(1,4) ap(2)] str_end_run [OF assms(2,3)] by (simp add: strncat_def)
  ultimately show ?thesis by blast
qed

lemma string_copies_witness:
  "strcpy hello 100 200 = Some (put_bytes hello 100 [97, 98, 99, 0], 100) \<and>
   strcat hello 100 200 = Some (put_bytes hello 105 [97, 98, 99, 0], 100) \<and>
   strncat hello 100 200 4 = (put_bytes hello 105 [97, 98, 99, 0, 0], 100)"
proof -
  have str: "str_at hello 200 [97, 98, 99]" "str_at hello 100 [97, 98, 97, 98, 99]" by (simp_all add: hello_def)
  have "j = 0 \<or> j = 1 \<or> j = 2 \<or> j = 3" if "j < 4" for j :: nat using that by linarith
  then have "apart 100 4 200 4" "apart 105 4 200 4"
    unfolding apart_def by (auto dest!: \<open>\<And>j :: nat. j < 4 \<Longrightarrow> j = 0 \<or> j = 1 \<or> j = 2 \<or> j = 3\<close>)
  moreover have "max 4 (Suc (length [97, 98, 99 :: u8])) = 4" "Suc (length [97, 98, 99 :: u8]) = 4" by simp_all
  ultimately show ?thesis
    using string_copies [OF str, of 4] by (simp only: list.size) simp
qed

end
