(* ===== verification/Syscall.thy ===== *)
theory Syscall
  imports Setup Sys Pipe Forking Argstack
begin

unbundle bit_operations_syntax

text \<open>
  The way into the kernel: the table of system calls of include/linux/sys.h, \<open>system_call\<close> and
  \<open>ret_from_sys_call\<close> of kernel/system_call.s, the numbers and stubs of include/unistd.h and the
  library calls of lib/.  The registers of the caller are an \<open>intr_frame\<close>.
\<close>

subsection \<open>The numbers of the system calls (include/unistd.h)\<close>

definition NR_setup :: u32 where [kconst]: "NR_setup = 0"
definition NR_exit :: u32 where [kconst]: "NR_exit = 1"
definition NR_fork :: u32 where [kconst]: "NR_fork = 2"
definition NR_read :: u32 where [kconst]: "NR_read = 3"
definition NR_write :: u32 where [kconst]: "NR_write = 4"
definition NR_open :: u32 where [kconst]: "NR_open = 5"
definition NR_close :: u32 where [kconst]: "NR_close = 6"
definition NR_waitpid :: u32 where [kconst]: "NR_waitpid = 7"
definition NR_creat :: u32 where [kconst]: "NR_creat = 8"
definition NR_link :: u32 where [kconst]: "NR_link = 9"
definition NR_unlink :: u32 where [kconst]: "NR_unlink = 10"
definition NR_execve :: u32 where [kconst]: "NR_execve = 11"
definition NR_chdir :: u32 where [kconst]: "NR_chdir = 12"
definition NR_time :: u32 where [kconst]: "NR_time = 13"
definition NR_mknod :: u32 where [kconst]: "NR_mknod = 14"
definition NR_chmod :: u32 where [kconst]: "NR_chmod = 15"
definition NR_chown :: u32 where [kconst]: "NR_chown = 16"
definition NR_break :: u32 where [kconst]: "NR_break = 17"
definition NR_stat :: u32 where [kconst]: "NR_stat = 18"
definition NR_lseek :: u32 where [kconst]: "NR_lseek = 19"
definition NR_getpid :: u32 where [kconst]: "NR_getpid = 20"
definition NR_mount :: u32 where [kconst]: "NR_mount = 21"
definition NR_umount :: u32 where [kconst]: "NR_umount = 22"
definition NR_setuid :: u32 where [kconst]: "NR_setuid = 23"
definition NR_getuid :: u32 where [kconst]: "NR_getuid = 24"
definition NR_stime :: u32 where [kconst]: "NR_stime = 25"
definition NR_ptrace :: u32 where [kconst]: "NR_ptrace = 26"
definition NR_alarm :: u32 where [kconst]: "NR_alarm = 27"
definition NR_fstat :: u32 where [kconst]: "NR_fstat = 28"
definition NR_pause :: u32 where [kconst]: "NR_pause = 29"
definition NR_utime :: u32 where [kconst]: "NR_utime = 30"
definition NR_stty :: u32 where [kconst]: "NR_stty = 31"
definition NR_gtty :: u32 where [kconst]: "NR_gtty = 32"
definition NR_access :: u32 where [kconst]: "NR_access = 33"
definition NR_nice :: u32 where [kconst]: "NR_nice = 34"
definition NR_ftime :: u32 where [kconst]: "NR_ftime = 35"
definition NR_sync :: u32 where [kconst]: "NR_sync = 36"
definition NR_kill :: u32 where [kconst]: "NR_kill = 37"
definition NR_rename :: u32 where [kconst]: "NR_rename = 38"
definition NR_mkdir :: u32 where [kconst]: "NR_mkdir = 39"
definition NR_rmdir :: u32 where [kconst]: "NR_rmdir = 40"
definition NR_dup :: u32 where [kconst]: "NR_dup = 41"
definition NR_pipe :: u32 where [kconst]: "NR_pipe = 42"
definition NR_times :: u32 where [kconst]: "NR_times = 43"
definition NR_prof :: u32 where [kconst]: "NR_prof = 44"
definition NR_brk :: u32 where [kconst]: "NR_brk = 45"
definition NR_setgid :: u32 where [kconst]: "NR_setgid = 46"
definition NR_getgid :: u32 where [kconst]: "NR_getgid = 47"
definition NR_signal :: u32 where [kconst]: "NR_signal = 48"
definition NR_geteuid :: u32 where [kconst]: "NR_geteuid = 49"
definition NR_getegid :: u32 where [kconst]: "NR_getegid = 50"
definition NR_acct :: u32 where [kconst]: "NR_acct = 51"
definition NR_phys :: u32 where [kconst]: "NR_phys = 52"
definition NR_lock :: u32 where [kconst]: "NR_lock = 53"
definition NR_ioctl :: u32 where [kconst]: "NR_ioctl = 54"
definition NR_fcntl :: u32 where [kconst]: "NR_fcntl = 55"
definition NR_mpx :: u32 where [kconst]: "NR_mpx = 56"
definition NR_setpgid :: u32 where [kconst]: "NR_setpgid = 57"
definition NR_ulimit :: u32 where [kconst]: "NR_ulimit = 58"
definition NR_uname :: u32 where [kconst]: "NR_uname = 59"
definition NR_umask :: u32 where [kconst]: "NR_umask = 60"
definition NR_chroot :: u32 where [kconst]: "NR_chroot = 61"
definition NR_ustat :: u32 where [kconst]: "NR_ustat = 62"
definition NR_dup2 :: u32 where [kconst]: "NR_dup2 = 63"
definition NR_getppid :: u32 where [kconst]: "NR_getppid = 64"
definition NR_getpgrp :: u32 where [kconst]: "NR_getpgrp = 65"
definition NR_setsid :: u32 where [kconst]: "NR_setsid = 66"
definition NR_sigaction :: u32 where [kconst]: "NR_sigaction = 67"
definition NR_sgetmask :: u32 where [kconst]: "NR_sgetmask = 68"
definition NR_ssetmask :: u32 where [kconst]: "NR_ssetmask = 69"
definition NR_setreuid :: u32 where [kconst]: "NR_setreuid = 70"
definition NR_setregid :: u32 where [kconst]: "NR_setregid = 71"

subsection \<open>Calling a function of the table\<close>

text \<open>
  What a call finds besides the frame: the registers that \<open>system_call\<close> does not save, the contents of
  the file a call of \<open>execve\<close> maps, and the old bytes of the kernel stack under a local structure.
\<close>

record caller =
  u_regs :: "u32 \<times> u32 \<times> u32 \<times> u32"
  u_img :: "u32 \<Rightarrow> u8"
  u_junk :: "nat \<Rightarrow> u8"

text \<open>
  A function finds ebx, ecx and edx as its first three arguments on the stack and leaves its
  result for eax.  Only \<open>sys_execve\<close> gets the address of the saved eip and changes the frame.
\<close>

type_synonym fn_ptr = "caller \<Rightarrow> intr_frame \<Rightarrow> (int \<times> intr_frame) K"

definition call0 :: "int K \<Rightarrow> fn_ptr" where
  "call0 m c fr = bnd m (\<lambda>v. ret (v, fr))"

definition call1 :: "(u32 \<Rightarrow> int K) \<Rightarrow> fn_ptr" where
  "call1 f c fr = call0 (f (fr_ebx fr)) c fr"

definition call2 :: "(u32 \<Rightarrow> u32 \<Rightarrow> int K) \<Rightarrow> fn_ptr" where
  "call2 f c fr = call0 (f (fr_ebx fr) (fr_ecx fr)) c fr"

definition call3 :: "(u32 \<Rightarrow> u32 \<Rightarrow> u32 \<Rightarrow> int K) \<Rightarrow> fn_ptr" where
  "call3 f c fr = call0 (f (fr_ebx fr) (fr_ecx fr) (fr_edx fr)) c fr"

definition sys_execve :: fn_ptr where
  "sys_execve c fr = bnd (do_execve (u_img c) (fr_cs fr) (fr_ebx fr) (fr_ecx fr) (fr_edx fr)) (\<lambda>(v, r). ret (v, case r of
     None \<Rightarrow> fr | Some (eip, esp) \<Rightarrow> fr\<lparr>fr_eip := eip, fr_esp := esp\<rparr>))"

definition sys_call_table :: "fn_ptr list" where
  "sys_call_table =
    [call1 sys_setup, call1 sys_exit, \<lambda>c fr. call0 (sys_fork (u_regs c) fr) c fr,
     call3 (\<lambda>a b c. sys_read a b (sint c)), call3 (\<lambda>a b c. sys_write a b (sint c)),
     call3 sys_open, call1 sys_close, call3 (\<lambda>a b c. sys_waitpid (sint a) b c), call2 sys_creat,
     call2 sys_link, call1 sys_unlink, sys_execve, call1 sys_chdir, call1 sys_time,
     call3 (\<lambda>a b c. sys_mknod a (ucast b) (ucast c)), call2 (\<lambda>a b. sys_chmod a (ucast b)),
     call3 sys_chown, call0 sys_break, \<lambda>c. call2 (sys_stat (u_junk c)) c,
     call3 (\<lambda>a b c. sys_lseek a (sint b) (sint c)), call0 sys_getpid,
     call3 (\<lambda>a b c. sys_mount a b (sint c)), call1 sys_umount, call1 (\<lambda>a. sys_setuid (sint a)),
     call0 sys_getuid, call1 sys_stime, call0 sys_ptrace, call1 (\<lambda>a. sys_alarm (sint a)),
     \<lambda>c. call2 (sys_fstat (u_junk c)) c, call0 sys_pause, call2 sys_utime, call0 sys_stty,
     call0 sys_gtty, call2 (\<lambda>a b. sys_access a (ucast b)), call1 (\<lambda>a. sys_nice (sint a)),
     call0 sys_ftime, call0 sys_sync, call2 (\<lambda>a b. sys_kill (sint a) (sint b)), call0 sys_rename,
     call2 sys_mkdir, call1 sys_rmdir, call1 sys_dup, call1 sys_pipe, call1 sys_times, call0 sys_prof,
     call1 (\<lambda>a. bnd (sys_brk a) (\<lambda>v. ret (sint v))), call1 (\<lambda>a. sys_setgid (sint a)),
     call0 sys_getgid, call3 (\<lambda>a b c. sys_signal (sint a) b c), call0 sys_geteuid, call0 sys_getegid,
     call0 sys_acct, call0 sys_phys, call0 sys_lock, \<lambda>c. call3 (sys_ioctl (u_junk c 0)) c,
     call3 sys_fcntl, call0 sys_mpx, call2 (\<lambda>a b. sys_setpgid (sint a) (sint b)), call0 sys_ulimit,
     call1 sys_uname, call1 (\<lambda>a. sys_umask (ucast a)), call1 sys_chroot,
     call2 (\<lambda>a b. sys_ustat (sint a) b), call2 sys_dup2, call0 sys_getppid, call0 sys_getpgrp,
     call0 sys_setsid, call3 (\<lambda>a b c. sys_sigaction (sint a) b c),
     call0 (bnd sys_sgetmask (\<lambda>v. ret (sint v))),
     call1 (\<lambda>a. bnd (sys_ssetmask a) (\<lambda>v. ret (sint v))),
     call2 (\<lambda>a b. sys_setreuid (sint a) (sint b)),
     call2 (\<lambda>a b. sys_setregid (sint a) (sint b))]"

definition nr_system_calls :: u32 where [kconst]: "nr_system_calls = 72"

subsection \<open>kernel/system_call.s\<close>

text \<open>The lowest set bit, as \<open>bsfl\<close> finds it.\<close>

definition bsf :: "u32 \<Rightarrow> nat option" where
  "bsf w = first_upto (bit w) 32"

definition user_return :: "kernel \<Rightarrow> intr_frame \<Rightarrow> bool" where
  "user_return s fr \<longleftrightarrow> task s 0 \<noteq> Some (current s) \<and> fr_cs fr AND 0xffff = 0x0f \<and> fr_ss fr AND 0xffff = 0x17"

definition ret_from_sys_call :: "intr_frame \<Rightarrow> intr_frame K" where
  "ret_from_sys_call fr = bnd (gets (\<lambda>s. user_return s fr)) (\<lambda>user.
     if \<not> user then ret fr
     else bnd (gets (\<lambda>s. bsf (NOT (blocked (cur s)) AND signal (cur s)))) (\<lambda>n. case n of
       None \<Rightarrow> ret fr
     | Some n \<Rightarrow> seq (modify (\<lambda>s. upd_cur (\<lambda>t. t\<lparr>signal := unset_bit n (signal t)\<rparr>) s)) (do_signal (n + 1) fr)))"

definition reschedule :: "unit K" where
  "reschedule = bnd (gets (\<lambda>s. state (cur s) \<noteq> 0 \<or> counter (cur s) = 0)) (\<lambda>c. guardK c schedule)"

definition system_call :: "caller \<Rightarrow> intr_frame \<Rightarrow> intr_frame K" where
  "system_call c fr =
     (if fr_eax fr > nr_system_calls - 1 then ret (fr\<lparr>fr_eax := - 1\<rparr>)
      else bnd ((sys_call_table ! unat (fr_eax fr)) c fr) (\<lambda>(v, fr').
        seq reschedule (ret_from_sys_call (fr'\<lparr>fr_eax := word_of_int v\<rparr>))))"

definition timer_interrupt :: "(timer_fn \<Rightarrow> unit K) \<Rightarrow> intr_frame \<Rightarrow> intr_frame K" where
  "timer_interrupt run fr = seq (block
     [modify (\<lambda>s. s\<lparr>jiffies := wrap32 (jiffies s + 1)\<rparr>),
      outb 0x20 0x20,
      do_timer run (uint (fr_cs fr AND 3))]) (ret_from_sys_call fr)"

text \<open>\<open>page_fault\<close> of mm/page.s: bit 0 of the error code tells a protection fault from a missing page.\<close>

definition page_fault :: "u32 \<Rightarrow> u32 \<Rightarrow> unit K" where
  "page_fault error_code cr2 = (if error_code AND 1 \<noteq> 0 then do_wp_page error_code cr2 else do_no_page error_code cr2)"

subsection \<open>The stubs (include/unistd.h) and library calls (lib/)\<close>

text \<open>
  A stub runs \<open>int $0x80\<close> and looks at the eax that comes back: the value it returns and the new
  \<open>errno\<close>.  The frame has the registers of the program at the \<open>int\<close>; a frame with another eip
  starts a new program or a signal handler first.  The arguments of type \<open>int\<close> and \<open>long\<close> are the
  32 bits of the register.
\<close>

definition stub_result :: "u32 \<Rightarrow> int \<Rightarrow> int \<times> int" where
  "stub_result res errno = (if sint res \<ge> 0 then (sint res, errno) else (- 1, sint (- res)))"

type_synonym stub = "caller \<Rightarrow> intr_frame \<Rightarrow> int \<Rightarrow> (int \<times> int) K"

definition int80 :: "intr_frame \<Rightarrow> caller \<Rightarrow> int \<Rightarrow> (int \<times> int) K" where
  "int80 fr c errno = bnd (system_call c fr) (\<lambda>fr'. ret (stub_result (fr_eax fr') errno))"

definition syscall0 :: "u32 \<Rightarrow> stub" where
  "syscall0 nr c fr = int80 (fr\<lparr>fr_eax := nr\<rparr>) c"

definition syscall1 :: "u32 \<Rightarrow> u32 \<Rightarrow> stub" where
  "syscall1 nr a c fr = int80 (fr\<lparr>fr_eax := nr, fr_ebx := a\<rparr>) c"

definition syscall2 :: "u32 \<Rightarrow> u32 \<Rightarrow> u32 \<Rightarrow> stub" where
  "syscall2 nr a b c fr = int80 (fr\<lparr>fr_eax := nr, fr_ebx := a, fr_ecx := b\<rparr>) c"

definition syscall3 :: "u32 \<Rightarrow> u32 \<Rightarrow> u32 \<Rightarrow> u32 \<Rightarrow> stub" where
  "syscall3 nr a b d c fr = int80 (fr\<lparr>fr_eax := nr, fr_ebx := a, fr_ecx := b, fr_edx := d\<rparr>) c"

definition lib_open :: "u32 \<Rightarrow> u32 \<Rightarrow> u32 \<Rightarrow> stub" where
  "lib_open filename flag mode c fr =
     int80 (fr\<lparr>fr_eax := NR_open, fr_ebx := filename, fr_ecx := flag, fr_edx := mode\<rparr>) c"

definition lib_write :: "u32 \<Rightarrow> u32 \<Rightarrow> u32 \<Rightarrow> stub" where
  "lib_write fd buf cnt = syscall3 NR_write fd buf cnt"

definition lib_close :: "u32 \<Rightarrow> stub" where
  "lib_close fd = syscall1 NR_close fd"

definition lib_dup :: "u32 \<Rightarrow> stub" where
  "lib_dup fd = syscall1 NR_dup fd"

definition lib_waitpid :: "u32 \<Rightarrow> u32 \<Rightarrow> u32 \<Rightarrow> stub" where
  "lib_waitpid p wait_stat options = syscall3 NR_waitpid p wait_stat options"

definition lib_wait :: "u32 \<Rightarrow> stub" where
  "lib_wait wait_stat = lib_waitpid (- 1) wait_stat 0"

definition lib_execve :: "u32 \<Rightarrow> u32 \<Rightarrow> u32 \<Rightarrow> stub" where
  "lib_execve file argv envp = syscall3 NR_execve file argv envp"

definition lib_setsid :: stub where
  "lib_setsid = syscall0 NR_setsid"

definition lib_exit :: "u32 \<Rightarrow> caller \<Rightarrow> intr_frame \<Rightarrow> unit K" where
  "lib_exit code c fr =
     bnd (system_call c (fr\<lparr>fr_eax := NR_exit, fr_ebx := code\<rparr>)) (\<lambda>_. skip)"

text \<open>The inline stubs of init/main.c.\<close>

definition lib_fork :: stub where "lib_fork = syscall0 NR_fork"
definition lib_pause :: stub where "lib_pause = syscall0 NR_pause"
definition lib_setup :: "u32 \<Rightarrow> stub" where "lib_setup BIOS = syscall1 NR_setup BIOS"
definition lib_sync :: stub where "lib_sync = syscall0 NR_sync"

subsection \<open>What a call does to the registers\<close>

lemma schedule_dead_stops: "schedule_dead s es \<noteq> Ret v s' es'"
  by (auto simp: schedule_dead_def krun split: res.splits option.splits)

lemma do_exit_stops: "do_exit code s es \<noteq> Ret v s' es'"
  unfolding do_exit_def by (simp add: seq_run schedule_dead_stops split: res.splits)

lemma first_upto_bit: "bsf w = None \<longleftrightarrow> w = 0"
  unfolding bsf_def first_upto_def first_from_None
  by (auto intro!: bit_word_eqI)

lemma bsf_SomeD: "bsf w = Some n \<Longrightarrow> n < 32 \<and> bit w n \<and> (\<forall>j<n. \<not> bit w j)"
  unfolding bsf_def first_upto_def by (drule first_from_Some) auto

text \<open>Everything but eax, eip and esp is the caller's.\<close>

definition same_context :: "intr_frame \<Rightarrow> intr_frame \<Rightarrow> bool" where
  "same_context fr fr' \<longleftrightarrow> fr' = fr\<lparr>fr_eax := fr_eax fr', fr_eip := fr_eip fr', fr_esp := fr_esp fr'\<rparr>"

lemma same_context_refl [simp]: "same_context fr fr"
  "same_context fr (fr\<lparr>fr_eip := a, fr_esp := b\<rparr>)" "same_context fr (fr\<lparr>fr_eax := v\<rparr>)"
  by (simp_all add: same_context_def)

lemma same_context_eax: "same_context fr fr' \<Longrightarrow> same_context fr (fr'\<lparr>fr_eax := v\<rparr>)"
  unfolding same_context_def by (cases fr; cases fr') simp

lemma same_context_trans: "same_context fr fr' \<Longrightarrow> same_context fr' fr'' \<Longrightarrow> same_context fr fr''"
  unfolding same_context_def by (cases fr; cases fr'; cases fr'') simp

lemma same_context_cs: "same_context fr fr' \<Longrightarrow> fr_cs fr' = fr_cs fr \<and> fr_ss fr' = fr_ss fr"
  unfolding same_context_def by (cases fr; cases fr') simp

text \<open>What an entry of the table may do to the frame: only from user code it may change eip and esp.\<close>

definition keeps_frame :: "fn_ptr \<Rightarrow> bool" where
  "keeps_frame f \<longleftrightarrow> (\<forall>c fr s es v fr' s' es'. f c fr s es = Ret (v, fr') s' es' \<longrightarrow>
     same_context fr fr' \<and> (fr_cs fr AND 0xffff \<noteq> 0x0f \<longrightarrow> fr' = fr))"

lemma call0_frame: "call0 m c fr s es = Ret (v, fr') s' es' \<longleftrightarrow> fr' = fr \<and> m s es = Ret v s' es'"
  by (auto simp: call0_def krun split: res.splits)

lemma keeps_frame_calls [simp]:
  "keeps_frame (call0 m)" "keeps_frame (call1 f1)" "keeps_frame (call2 f2)" "keeps_frame (call3 f3)"
  "keeps_frame (\<lambda>c fr. call0 (g c fr) c fr)" "keeps_frame (\<lambda>c. call2 (g2 c) c)" "keeps_frame (\<lambda>c. call3 (g3 c) c)"
  by (simp_all add: keeps_frame_def call1_def call2_def call3_def call0_frame)

lemma do_execve_kernel: "cs AND 0xffff \<noteq> 0x0f \<Longrightarrow> do_execve img cs f a e s es = Stop (Panicked ''execve called from supervisor mode'') s"
  by (simp add: do_execve_def krun word_bw_comms)

lemma keeps_frame_execve [simp]: "keeps_frame sys_execve"
  unfolding keeps_frame_def sys_execve_def
  by (auto simp: krun do_execve_kernel split: res.splits option.splits prod.splits)

lemma table_keeps_frame: "f \<in> set sys_call_table \<Longrightarrow> keeps_frame f"
proof -
  have "list_all keeps_frame sys_call_table" by (simp add: sys_call_table_def)
  then show "f \<in> set sys_call_table \<Longrightarrow> keeps_frame f" by (simp add: list_all_iff)
qed

lemma table_length: "length sys_call_table = unat nr_system_calls"
  by (simp add: sys_call_table_def nr_system_calls_def)

lemma ret_from_sys_call_frame:
  assumes "ret_from_sys_call fr s es = Ret fr' s' es'"
  shows "same_context fr fr' \<and> (fr_cs fr AND 0xffff \<noteq> 0x0f \<longrightarrow> fr' = fr) \<and> fr_eax fr' = fr_eax fr"
  using assms
  by (auto simp: ret_from_sys_call_def user_return_def do_signal_def krun do_exit_stops Let_def
      split: option.splits if_splits res.splits)

lemma system_call_run:
  "system_call c fr s es = Ret fr' s' es' \<longleftrightarrow>
    (if unat (fr_eax fr) < 72
     then \<exists>v fr1 s1 es1 s2 es2. (sys_call_table ! unat (fr_eax fr)) c fr s es = Ret (v, fr1) s1 es1 \<and>
       reschedule s1 es1 = Ret () s2 es2 \<and> ret_from_sys_call (fr1\<lparr>fr_eax := word_of_int v\<rparr>) s2 es2 = Ret fr' s' es'
     else fr' = fr\<lparr>fr_eax := - 1\<rparr> \<and> s' = s \<and> es' = es)"
  by (auto simp: system_call_def krun nr_system_calls_def word_less_nat_alt split: res.splits)

text \<open>
  C9. Whatever system call is made, in whatever state and with whatever happens while it sleeps, the
  frame it returns with has the segment registers, flags, ebx, ecx and edx of the caller, so user code
  stays user code; eip and esp change only for a caller in user code; a number outside the table gives
  -1 and changes nothing else.
\<close>

lemma system_call_frame:
  assumes "system_call c fr s es = Ret fr' s' es'"
  shows "fr' = fr\<lparr>fr_eax := fr_eax fr', fr_eip := fr_eip fr', fr_esp := fr_esp fr'\<rparr> \<and>
    (fr_cs fr AND 0xffff \<noteq> 0x0f \<longrightarrow> fr' = fr\<lparr>fr_eax := fr_eax fr'\<rparr>) \<and>
    (fr_eax fr \<ge> nr_system_calls \<longrightarrow> fr' = fr\<lparr>fr_eax := - 1\<rparr> \<and> s' = s \<and> es' = es)"
proof (cases "unat (fr_eax fr) < 72")
  case True
  with assms obtain v fr1 s1 es1 s2 es2
    where call: "(sys_call_table ! unat (fr_eax fr)) c fr s es = Ret (v, fr1) s1 es1"
      and leave: "ret_from_sys_call (fr1\<lparr>fr_eax := word_of_int v\<rparr>) s2 es2 = Ret fr' s' es'"
    by (auto simp: system_call_run)
  have "keeps_frame (sys_call_table ! unat (fr_eax fr))"
    using True by (intro table_keeps_frame nth_mem) (simp add: table_length nr_system_calls_def)
  with call have 1: "same_context fr fr1" "fr_cs fr AND 0xffff \<noteq> 0x0f \<longrightarrow> fr1 = fr"
    unfolding keeps_frame_def by blast+
  moreover note ret_from_sys_call_frame [OF leave]
  moreover have "same_context fr fr'"
    using 1 ret_from_sys_call_frame [OF leave] by (blast intro: same_context_eax same_context_trans)
  ultimately show ?thesis
    using True by (auto simp: same_context_def nr_system_calls_def word_le_nat_alt)
next
  case False
  with assms show ?thesis by (simp add: system_call_run)
qed

text \<open>A state in which the caller is run on: it has not slept, has time left and no signal to take.\<close>

definition settled :: "kernel \<Rightarrow> bool" where
  "settled s \<longleftrightarrow> state (cur s) = TASK_RUNNING \<and> counter (cur s) \<noteq> 0 \<and> NOT (blocked (cur s)) AND signal (cur s) = 0"

definition call0_kernel :: kernel where
  "call0_kernel = blank_kernel\<lparr>tsk := (\<lambda>_. blank_task_struct\<lparr>counter := 15, pid := 7\<rparr>)\<rparr>"

definition caller0 :: caller where
  "caller0 = \<lparr>u_regs = (0, 0, 0, 0), u_img = (\<lambda>_. 0), u_junk = (\<lambda>_. 0)\<rparr>"

definition frame0 :: intr_frame where
  "frame0 = \<lparr>fr_eax = 0, fr_ebx = 0, fr_ecx = 0, fr_edx = 0, fr_fs = 0x17, fr_es = 0x17, fr_ds = 0x17,
     fr_eip = 0x100, fr_cs = 0x0f, fr_eflags = 0x202, fr_esp = 0x8000, fr_ss = 0x17\<rparr>"

lemma settled_return:
  assumes "settled s"
  shows "reschedule s es = Ret () s es" "ret_from_sys_call fr s es = Ret fr s es"
  using assms first_upto_bit [of 0]
  by (simp_all add: settled_def reschedule_def ret_from_sys_call_def krun kconst)

lemma settled_call0 [simp]: "settled call0_kernel"
  by (simp add: settled_def call0_kernel_def blank_task_struct_def kconst)

lemma system_call_settled:
  assumes "(sys_call_table ! unat (fr_eax fr)) c fr s es = Ret (v, fra) s' es'" "unat (fr_eax fr) < 72" "settled s'"
  shows "system_call c fr s es = Ret (fra\<lparr>fr_eax := word_of_int v\<rparr>) s' es'"
  using assms settled_return [OF assms(3)] by (simp add: system_call_run)

lemma system_call_frame_witness:
  "\<exists>fr'. system_call caller0 (frame0\<lparr>fr_eax := NR_getpid\<rparr>) call0_kernel [] = Ret fr' call0_kernel [] \<and>
     fr' = frame0\<lparr>fr_eax := 7\<rparr>"
proof -
  let ?fr = "frame0\<lparr>fr_eax := NR_getpid\<rparr>"
  have r: "system_call caller0 ?fr call0_kernel [] = Ret (?fr\<lparr>fr_eax := word_of_int 7\<rparr>) call0_kernel []"
  proof (rule system_call_settled [where v = 7 and fra = ?fr])
    have "pid (cur call0_kernel) = 7" by (simp add: call0_kernel_def)
    then show "(sys_call_table ! unat (fr_eax ?fr)) caller0 ?fr call0_kernel [] = Ret (7, ?fr) call0_kernel []"
      by (simp add: sys_call_table_def call0_frame sys_getpid_def krun NR_getpid_def)
  qed (simp_all add: NR_getpid_def)
  with system_call_frame [OF r] show ?thesis by simp
qed

text \<open>What a program sees of a result \<open>v\<close>: the value and the new \<open>errno\<close>.\<close>

definition report :: "int \<Rightarrow> int \<Rightarrow> int \<times> int" where
  "report v errno = (if v \<ge> 0 then (v, errno) else (- 1, - v))"

lemma stub_result_int:
  assumes "- (2 ^ 31) < v" "v < 2 ^ 31"
  shows "stub_result (word_of_int v) e = report v e"
proof -
  have s: "sint (word_of_int x :: u32) = x" if "- (2 ^ 31) < x" "x < 2 ^ 31" for x
  proof -
    have "signed_take_bit 31 x = x" using that by (intro signed_take_bit_int_eq_self) linarith+
    then show ?thesis by (simp add: signed_of_int)
  qed
  have 1: "sint (word_of_int v :: u32) = v" using assms by (rule s)
  have 2: "sint (- (word_of_int v :: u32)) = - v" unfolding wi_hom_neg by (rule s) (use assms in linarith)+
  show ?thesis unfolding stub_result_def report_def 1 2 by (rule refl)
qed

lemma int80_run:
  assumes "(sys_call_table ! unat (fr_eax fr)) c fr s es = Ret (v, fra) s' es'" "unat (fr_eax fr) < 72" "settled s'"
    and "- (2 ^ 31) < v" "v < 2 ^ 31"
  shows "int80 fr c e s es = Ret (report v e) s' es'"
  using system_call_settled [OF assms(1-3)] stub_result_int [OF assms(4,5), of e]
  by (simp add: int80_def krun)

lemmas stub_defs = lib_open_def lib_write_def lib_close_def lib_dup_def lib_waitpid_def lib_wait_def lib_setsid_def
  lib_execve_def lib_fork_def lib_pause_def lib_setup_def lib_sync_def syscall0_def syscall1_def syscall2_def syscall3_def

lemmas nr_defs = NR_open_def NR_write_def NR_close_def NR_dup_def NR_waitpid_def NR_setsid_def NR_execve_def NR_fork_def
  NR_pause_def NR_setup_def NR_sync_def NR_exit_def

lemma sys_execve_run:
  "do_execve (u_img c) (fr_cs fr) (fr_ebx fr) (fr_ecx fr) (fr_edx fr) s es = Ret (v, x) s' es' \<Longrightarrow>
    sys_execve c fr s es = Ret (v, case x of None \<Rightarrow> fr | Some (eip, esp) \<Rightarrow> fr\<lparr>fr_eip := eip, fr_esp := esp\<rparr>) s' es'"
  by (simp add: sys_execve_def krun)

lemma lib_exit_stops: "lib_exit code c fr s es \<noteq> Ret () s' es'"
  by (auto simp: lib_exit_def krun system_call_run sys_call_table_def NR_exit_def call1_def call0_frame
      sys_exit_def do_exit_stops split: res.splits)

text \<open>
  C7. A library call runs the kernel function of its name on its arguments, in order: if that
  function returns \<open>v\<close> and the task may go on, the call returns \<open>v\<close> and leaves \<open>errno\<close> alone when \<open>v\<close>
  is not negative, and returns -1 with \<open>-v\<close> in \<open>errno\<close> when it is; the state is what the function
  left.  A failed \<open>execve\<close> reports in the same way, and \<open>_exit\<close> never returns.
\<close>

lemma library_calls:
  assumes "settled s'" "- (2 ^ 31) < v" "v < 2 ^ 31"
  shows "(sys_open f flag mode s es = Ret v s' es' \<longrightarrow> lib_open f flag mode c fr e s es = Ret (report v e) s' es') \<and>
    (sys_write fd buf (sint n) s es = Ret v s' es' \<longrightarrow> lib_write fd buf n c fr e s es = Ret (report v e) s' es') \<and>
    (sys_close fd s es = Ret v s' es' \<longrightarrow> lib_close fd c fr e s es = Ret (report v e) s' es') \<and>
    (sys_dup fd s es = Ret v s' es' \<longrightarrow> lib_dup fd c fr e s es = Ret (report v e) s' es') \<and>
    (sys_waitpid (sint p) st opt s es = Ret v s' es' \<longrightarrow> lib_waitpid p st opt c fr e s es = Ret (report v e) s' es') \<and>
    (sys_waitpid (- 1) st 0 s es = Ret v s' es' \<longrightarrow> lib_wait st c fr e s es = Ret (report v e) s' es') \<and>
    (sys_setsid s es = Ret v s' es' \<longrightarrow> lib_setsid c fr e s es = Ret (report v e) s' es') \<and>
    (sys_pause s es = Ret v s' es' \<longrightarrow> lib_pause c fr e s es = Ret (report v e) s' es') \<and>
    (sys_sync s es = Ret v s' es' \<longrightarrow> lib_sync c fr e s es = Ret (report v e) s' es') \<and>
    (sys_setup a s es = Ret v s' es' \<longrightarrow> lib_setup a c fr e s es = Ret (report v e) s' es') \<and>
    (sys_fork (u_regs c) (fr\<lparr>fr_eax := NR_fork\<rparr>) s es = Ret v s' es' \<longrightarrow> lib_fork c fr e s es = Ret (report v e) s' es') \<and>
    (do_execve (u_img c) (fr_cs fr) f a en s es = Ret (v, None) s' es' \<longrightarrow>
      lib_execve f a en c fr e s es = Ret (report v e) s' es') \<and>
    lib_exit code c fr s es \<noteq> Ret () s'' es''"
proof -
  note run = int80_run [OF _ _ assms]
  show ?thesis
    unfolding stub_defs
    by (intro conjI impI lib_exit_stops; (rule run)?)
      (simp_all add: sys_call_table_def nr_defs call0_frame call1_def call2_def call3_def sys_execve_run)
qed

lemma library_calls_witness:
  "lib_write 25 0 1 caller0 frame0 0 call0_kernel [] = Ret (- 1, 22) call0_kernel []"
proof -
  have "sys_write 25 0 (sint (1 :: u32)) call0_kernel [] = Ret (- 22) call0_kernel []"
    by (simp add: sys_write_def krun fd_file_def kconst)
  with library_calls [of call0_kernel "- 22"] show ?thesis by (simp add: report_def)
qed

subsection \<open>Signals on the way out\<close>

lemma quiet_set_word [quietr]: "quiet (modify (\<lambda>s. set_word a (f s) s))"
  by (simp add: quiet_def krun set_word_def)

lemma quiet_verify_area [quietr]: "quiet (verify_area a n)"
  unfolding verify_area_def write_verify_def un_wp_page_def oom_def copy_page_def
  by (intro quietr allI impI)

text \<open>Words at steps of four bytes, also around the end of the address space.\<close>

lemma word_at_put_step:
  assumes "i \<noteq> j" "i < 16" "j < 16"
  shows "word_at (put_word v (a + of_nat (4 * i)) m) (a + of_nat (4 * j)) = word_at m (a + of_nat (4 * j))"
proof -
  have "a + of_nat (4 * j) + of_nat l \<noteq> a + of_nat (4 * i) + of_nat k" if "k < 4" "l < 4" for k l
  proof -
    have "(of_nat (4 * j + l) :: u32) \<noteq> of_nat (4 * i + k)"
      using assms that by (subst of_nat_neq) auto
    then show ?thesis by (simp add: add.assoc)
  qed
  note ne = this
  show ?thesis
    unfolding word_at_def put_word_def
    using ne [of 0 0] ne [of 0 1] ne [of 0 2] ne [of 0 3] ne [of 1 0] ne [of 1 1] ne [of 1 2] ne [of 1 3] 
      ne [of 2 0] ne [of 2 1] ne [of 2 2] ne [of 2 3] ne [of 3 0] ne [of 3 1] ne [of 3 2] ne [of 3 3]
    by simp
qed

lemma fold_put_fs_long:
  "fold (\<lambda>k. put_fs_long (f k) (g k)) ks s = s\<lparr>umem := fold (\<lambda>k. put_word (f k) (g k)) ks (umem s)\<rparr>"
  by (induction ks arbitrary: s) (simp_all add: fs_long)

lemma words_stored:
  assumes "j < n" "n \<le> 16"
  shows "word_at (fold (\<lambda>k. put_word (f k) (a + of_nat (4 * k))) [0..<n] m) (a + of_nat (4 * j)) = f j"
  using assms
proof (induction n)
  case (Suc n)
  then show ?case
    by (cases "j = n") (simp_all add: word_at_put word_at_put_step del: of_nat_mult)
qed simp

text \<open>The words that a handler finds on its stack, from the top.\<close>

definition handler_stack :: "nat \<Rightarrow> sigaction \<Rightarrow> u32 \<Rightarrow> intr_frame \<Rightarrow> u32 list" where
  "handler_stack signr sa old fr = [sa_restorer sa, of_nat signr] @
     (if sa_flags sa AND SA_NOMASK \<noteq> 0 then [] else [old]) @
     [fr_eax fr, fr_ecx fr, fr_edx fr, fr_eflags fr, fr_eip fr]"

definition handler_task :: "nat \<Rightarrow> sigaction \<Rightarrow> task_struct \<Rightarrow> task_struct" where
  "handler_task n sa t = t\<lparr>blocked := blocked t OR sa_mask sa, sigaction := (sigaction t)(n :=
     if sa_flags sa AND SA_ONESHOT \<noteq> 0 then sa\<lparr>sa_handler := 0\<rparr> else sa)\<rparr>"

lemma handler_stack_length:
  "length (handler_stack signr sa old fr) = (if sa_flags sa AND SA_NOMASK \<noteq> 0 then 7 else 8)"
  by (simp add: handler_stack_def)

lemma guardK_modify_run: "guardK c (modify f) s es = Ret () (if c then f s else s) es"
  by (simp add: krun)

lemma do_signal_eq:
  fixes fr :: intr_frame
  assumes "sa_handler sa \<noteq> 0" "sa_handler sa \<noteq> 1" and sa: "sigaction (cur s) n = sa"
  defines "sz \<equiv> if sa_flags sa AND SA_NOMASK \<noteq> 0 then 7 else 8"
  defines "esp \<equiv> fr_esp fr - 4 * (if sa_flags sa AND SA_NOMASK \<noteq> 0 then 7 else 8)"
  shows "do_signal (Suc n) fr s es = seq (block
     [guardK (sa_flags sa AND SA_ONESHOT \<noteq> 0) (modify (set_sigaction (int (Suc n)) (sa\<lparr>sa_handler := 0\<rparr>))),
      verify_area esp (4 * sz),
      bnd (gets (\<lambda>s. blocked (cur s))) (\<lambda>bl. for_each [0..<length (handler_stack (Suc n) sa bl fr)]
        (\<lambda>k. modify (put_fs_long (handler_stack (Suc n) sa bl fr ! k) (esp + of_nat (4 * k))))),
      modify (\<lambda>s. upd_cur (\<lambda>t. t\<lparr>blocked := blocked t OR sa_mask sa\<rparr>) s)])
     (ret (fr\<lparr>fr_eip := sa_handler sa, fr_esp := esp\<rparr>)) s es"
  unfolding do_signal_def handler_stack_def sz_def esp_def
  by (simp only: bnd_run gets_run res.case diff_Suc_1 Let_def sa assms(1,2) if_False)

lemma do_signal_handler:
  assumes run: "do_signal (Suc n) fr s es = Ret fr' s' es'" and h: "sa_handler sa \<noteq> 0" "sa_handler sa \<noteq> 1"
    and sa: "sa = sigaction (cur s) n"
  defines "ws \<equiv> handler_stack (Suc n) sa (blocked (cur s)) fr"
  defines "esp \<equiv> fr_esp fr - of_nat (4 * length ws)"
  shows "fr' = fr\<lparr>fr_eip := sa_handler sa, fr_esp := esp\<rparr> \<and> es' = es \<and> current s' = current s \<and>
    tsk s' = (tsk s)(current s := handler_task n sa (cur s)) \<and>
    (\<forall>k<length ws. get_fs_long s' (esp + of_nat (4 * k)) = ws ! k)"
proof -
  let ?one = "sa_flags sa AND SA_ONESHOT \<noteq> 0"
  let ?s2 = "if ?one then set_sigaction (int (Suc n)) (sa\<lparr>sa_handler := 0\<rparr>) s else s"
  have esp: "fr_esp fr - 4 * (if sa_flags sa AND SA_NOMASK \<noteq> 0 then 7 else 8) = esp"
    "4 * (if sa_flags sa AND SA_NOMASK \<noteq> 0 then 7 else 8) = int (4 * length ws)"
    by (simp_all add: esp_def ws_def handler_stack_length)
  obtain s3 es3 where v: "verify_area esp (int (4 * length ws)) ?s2 es = Ret () s3 es3"
    and s': "fr' = fr\<lparr>fr_eip := sa_handler sa, fr_esp := esp\<rparr>" "es' = es3"
      "s' = upd_cur (\<lambda>t. t\<lparr>blocked := blocked t OR sa_mask sa\<rparr>)
         (fold (\<lambda>k. put_fs_long (handler_stack (Suc n) sa (blocked (cur s3)) fr ! k) (esp + of_nat (4 * k))) [0..<length ws] s3)"
    using run h by (subst (asm) do_signal_eq [OF h sa [symmetric]])
      (auto simp: esp ret_run seq_run bnd_run gets_run modify_run for_each_modify guardK_modify_run
        handler_stack_length ws_def simp del: of_nat_mult of_nat_add of_nat_Suc split: res.splits)
  from quietD [OF quiet_verify_area v] obtain m p where s3: "es3 = es" "s3 = ?s2\<lparr>mem_map := m, phys := p\<rparr>"
    by (auto simp: mem_only_def)
  have bl: "blocked (cur s3) = blocked (cur s)" "current s3 = current s"
    by (simp_all add: s3 set_sigaction_def upd_task_def)
  have n: "length ws \<le> 16" by (simp add: ws_def handler_stack_length)
  have "tsk s' = (tsk s)(current s := handler_task n sa (cur s))"
    using sa by (auto simp: s' s3 fold_put_fs_long upd_task_def set_sigaction_def handler_task_def fun_eq_iff)
  moreover have um: "umem s' = fold (\<lambda>k. put_word (ws ! k) (esp + of_nat (4 * k))) [0..<length ws] (umem s3)"
    unfolding s' bl(1) fold_put_fs_long upd_task_def ws_def by simp
  moreover have "get_fs_long s' (esp + of_nat (4 * k)) = ws ! k" if "k < length ws" for k
    unfolding fs_long um by (rule words_stored [OF that n])
  moreover have "current s' = current s" by (simp add: s' fold_put_fs_long upd_task_def bl)
  ultimately show ?thesis using s'(1,2) s3(1) by simp
qed

lemma do_signal_ignored:
  "sa_handler (sigaction (cur s) n) = 1 \<or> sa_handler (sigaction (cur s) n) = 0 \<and> Suc n = SIGCHLD \<Longrightarrow>
    do_signal (Suc n) fr s es = Ret fr s es"
  by (auto simp: do_signal_def krun)

lemma do_signal_kills:
  "sa_handler (sigaction (cur s) n) = 0 \<Longrightarrow> Suc n \<noteq> SIGCHLD \<Longrightarrow> do_signal (Suc n) fr s es \<noteq> Ret fr' s' es'"
  by (simp add: do_signal_def krun do_exit_stops)

text \<open>
  C8. On the way back to user code a task takes exactly one signal, the lowest that is pending and not
  blocked, and its bit is cleared.  Ignored (or SIGCHLD by default) it changes nothing else; by
  default any other ends the task; with a handler the task goes on in the handler, on a stack that
  holds the restorer, the number, the old mask unless SA_NOMASK is set, and the eax, ecx, edx, flags
  and eip to return to, with the mask of the action blocked and, for SA_ONESHOT, the action reset.
\<close>

lemma signal_taken:
  fixes fr :: intr_frame
  assumes "user_return s fr" and "NOT (blocked (cur s)) AND signal (cur s) \<noteq> 0"
  shows "\<exists>n<32. bit (NOT (blocked (cur s)) AND signal (cur s)) n \<and>
    (\<forall>j<n. \<not> bit (NOT (blocked (cur s)) AND signal (cur s)) j) \<and>
    (let sa = sigaction (cur s) n; t = (cur s)\<lparr>signal := unset_bit n (signal (cur s))\<rparr>;
         ws = handler_stack (Suc n) sa (blocked (cur s)) fr; esp = fr_esp fr - of_nat (4 * length ws) in
      if sa_handler sa = 1 \<or> sa_handler sa = 0 \<and> Suc n = SIGCHLD
      then ret_from_sys_call fr s es = Ret fr (upd_cur (\<lambda>_. t) s) es
      else if sa_handler sa = 0 then \<forall>fr' s' es'. ret_from_sys_call fr s es \<noteq> Ret fr' s' es'
      else \<forall>fr' s' es'. ret_from_sys_call fr s es = Ret fr' s' es' \<longrightarrow>
        fr' = fr\<lparr>fr_eip := sa_handler sa, fr_esp := esp\<rparr> \<and> es' = es \<and> current s' = current s \<and>
        tsk s' = (tsk s)(current s := handler_task n sa t) \<and>
        (\<forall>k<length ws. get_fs_long s' (esp + of_nat (4 * k)) = ws ! k))"
proof -
  obtain n where n: "bsf (NOT (blocked (cur s)) AND signal (cur s)) = Some n"
    using assms(2) first_upto_bit by (cases "bsf (NOT (blocked (cur s)) AND signal (cur s))") auto
  let ?t = "(cur s)\<lparr>signal := unset_bit n (signal (cur s))\<rparr>" let ?s = "upd_cur (\<lambda>_. ?t) s"
  have run: "ret_from_sys_call fr s es = do_signal (Suc n) fr ?s es"
    using assms(1) n by (simp add: ret_from_sys_call_def krun upd_task_def)
  have cur: "cur ?s = ?t" "current ?s = current s" "tsk ?s = (tsk s)(current s := ?t)" "sigaction (cur ?s) n = sigaction (cur s) n"
    "blocked (tsk ?s (current s)) = blocked (cur s)" "tsk ?s (current s) = ?t" by (simp_all add: upd_task_def)
  have upd: "(tsk ?s)(current s := x) = (tsk s)(current s := x)" for x by (simp add: upd_task_def)
  let ?sa = "sigaction (cur s) n"
  consider "sa_handler ?sa = 1 \<or> sa_handler ?sa = 0 \<and> Suc n = SIGCHLD" | "sa_handler ?sa = 0" "Suc n \<noteq> SIGCHLD"
    | "sa_handler ?sa \<noteq> 0" "sa_handler ?sa \<noteq> 1" by blast
  then show ?thesis
  proof cases
    case 1
    with bsf_SomeD [OF n] do_signal_ignored [of ?s n fr es, unfolded cur(4)] show ?thesis
      unfolding run by (intro exI [of _ n]) (simp add: Let_def del: One_nat_def)
  next
    case 2
    with bsf_SomeD [OF n] do_signal_kills [of ?s n fr es, unfolded cur(4)] show ?thesis
      unfolding run by (intro exI [of _ n]) (simp add: Let_def)
  next
    case 3
    note h = do_signal_handler [OF _ 3 cur(4) [symmetric], of fr es, unfolded cur(2) upd, unfolded cur(5), unfolded cur(6)]
    have no: "(sa_handler ?sa = 1) = False" "(sa_handler ?sa = 0) = False"
      using 3 by blast+
    show ?thesis
      unfolding run Let_def using bsf_SomeD [OF n]
      by (intro exI [of _ n] conjI, unfold no simp_thms if_False) ((elim conjE, assumption)+, intro allI impI, erule h)
  qed
qed

definition alarm0 :: kernel where
  "alarm0 = blank_kernel\<lparr>tsk := (\<lambda>_. blank_task_struct\<lparr>signal := 0x2000, counter := 15,
     sigaction := (\<lambda>_. blank_sigaction\<lparr>sa_handler := 1\<rparr>)\<rparr>)\<rparr>"

lemma signal_taken_witness:
  "ret_from_sys_call frame0 alarm0 [] = Ret frame0 (upd_cur (\<lambda>t. t\<lparr>signal := 0\<rparr>) alarm0) []"
proof -
  have a: "signal (cur alarm0) = 2 ^ 13" "blocked (cur alarm0) = 0" "sa_handler (sigaction (cur alarm0) n) = 1" for n
    by (simp_all add: alarm0_def blank_task_struct_def)
  have u: "user_return alarm0 frame0" by (simp add: user_return_def alarm0_def blank_kernel_def frame0_def)
  have b: "bit (NOT (blocked (cur alarm0)) AND signal (cur alarm0)) n \<longleftrightarrow> n = 13" for n
    unfolding a bit.compl_zero bit_and_iff bit_minus_1_iff bit_exp_iff by auto
  then have "NOT (blocked (cur alarm0)) AND signal (cur alarm0) \<noteq> 0" by (metis bit_0_eq bot_apply bot_bool_def)
  from signal_taken [OF u this, of "[]"] obtain n where "n = 13"
    "ret_from_sys_call frame0 alarm0 [] = Ret frame0 (upd_cur (\<lambda>_. (cur alarm0)\<lparr>signal := unset_bit n (signal (cur alarm0))\<rparr>) alarm0) []"
    unfolding b Let_def a(3) by auto
  moreover have "unset_bit 13 (2 ^ 13 :: u32) = 0" by (simp add: unset_bit_eq_and_not)
  ultimately show ?thesis by (simp add: a(1) upd_task_def)
qed

end
