(* ===== verification/Traps.thy ===== *)
theory Traps
  imports Syscall
begin

unbundle bit_operations_syntax

text \<open>
  Exceptions and the tables of the processor: the handlers of kernel/traps.c and
  kernel/math/math_emulate.c, the macros of include/asm/system.h that build gates and descriptors,
  and every gate that the kernel sets on its start.  The messages of the handlers are left out.
\<close>

subsection \<open>Exceptions (kernel/traps.c)\<close>

text \<open>\<open>die\<close> prints the registers and the code at the fault and ends the task.\<close>

definition die :: "string \<Rightarrow> u32 \<Rightarrow> u32 \<Rightarrow> unit K" where
  "die str esp_ptr nr = do_exit 11"

definition do_double_fault :: "u32 \<Rightarrow> u32 \<Rightarrow> unit K" where
  "do_double_fault esp error_code = die ''double fault'' esp error_code"

definition do_general_protection :: "u32 \<Rightarrow> u32 \<Rightarrow> unit K" where
  "do_general_protection esp error_code = die ''general protection'' esp error_code"

definition do_divide_error :: "u32 \<Rightarrow> u32 \<Rightarrow> unit K" where
  "do_divide_error esp error_code = die ''divide error'' esp error_code"

text \<open>A breakpoint is only reported.\<close>

definition do_int3 :: "u32 \<Rightarrow> u32 \<Rightarrow> unit K" where
  "do_int3 esp error_code = skip"

definition do_nmi :: "u32 \<Rightarrow> u32 \<Rightarrow> unit K" where
  "do_nmi esp error_code = die ''nmi'' esp error_code"

definition do_debug :: "u32 \<Rightarrow> u32 \<Rightarrow> unit K" where
  "do_debug esp error_code = die ''debug'' esp error_code"

definition do_overflow :: "u32 \<Rightarrow> u32 \<Rightarrow> unit K" where
  "do_overflow esp error_code = die ''overflow'' esp error_code"

definition do_bounds :: "u32 \<Rightarrow> u32 \<Rightarrow> unit K" where
  "do_bounds esp error_code = die ''bounds'' esp error_code"

definition do_invalid_op :: "u32 \<Rightarrow> u32 \<Rightarrow> unit K" where
  "do_invalid_op esp error_code = die ''invalid operand'' esp error_code"

definition do_device_not_available :: "u32 \<Rightarrow> u32 \<Rightarrow> unit K" where
  "do_device_not_available esp error_code = die ''device not available'' esp error_code"

definition do_coprocessor_segment_overrun :: "u32 \<Rightarrow> u32 \<Rightarrow> unit K" where
  "do_coprocessor_segment_overrun esp error_code = die ''coprocessor segment overrun'' esp error_code"

definition do_invalid_TSS :: "u32 \<Rightarrow> u32 \<Rightarrow> unit K" where
  "do_invalid_TSS esp error_code = die ''invalid TSS'' esp error_code"

definition do_segment_not_present :: "u32 \<Rightarrow> u32 \<Rightarrow> unit K" where
  "do_segment_not_present esp error_code = die ''segment not present'' esp error_code"

definition do_stack_segment :: "u32 \<Rightarrow> u32 \<Rightarrow> unit K" where
  "do_stack_segment esp error_code = die ''stack segment'' esp error_code"

definition do_coprocessor_error :: "u32 \<Rightarrow> u32 \<Rightarrow> unit K" where
  "do_coprocessor_error esp error_code = bnd (gets (\<lambda>s. last_task_used_math s \<noteq> Some (current s))) (\<lambda>other.
     if other then skip else die ''coprocessor error'' esp error_code)"

definition do_reserved :: "u32 \<Rightarrow> u32 \<Rightarrow> unit K" where
  "do_reserved esp error_code = die ''reserved (15,17-47) error'' esp error_code"

subsection \<open>The coprocessor (kernel/math/math_emulate.c, kernel/system_call.s)\<close>

definition SIGFPE :: nat where [kconst]: "SIGFPE = 8"

text \<open>The two bytes of the instruction are skipped, so the frame goes on behind it.\<close>

definition math_emulate :: "intr_frame \<Rightarrow> intr_frame K" where
  "math_emulate fr = (if fr_cs fr AND 0xffff \<noteq> 0x000F then kpanic ''Math emulation needed in kernel''
     else seq (modify (\<lambda>s. upd_cur (\<lambda>t. t\<lparr>signal := signal t OR sigbit SIGFPE\<rparr>) s)) (ret (fr\<lparr>fr_eip := fr_eip fr + 2\<rparr>)))"

definition math_error :: "unit K" where
  "math_error = modify (\<lambda>s. case last_task_used_math s of
     None \<Rightarrow> s | Some p \<Rightarrow> upd_task p (\<lambda>t. t\<lparr>signal := signal t OR sigbit SIGFPE\<rparr>) s)"

text \<open>\<open>em\<close> is the emulation bit of cr0.\<close>

definition device_not_available :: "bool \<Rightarrow> intr_frame \<Rightarrow> intr_frame K" where
  "device_not_available em fr =
     bnd (if em then math_emulate fr else seq math_state_restore (ret fr)) ret_from_sys_call"

definition coprocessor_error :: "intr_frame \<Rightarrow> intr_frame K" where
  "coprocessor_error fr = seq math_error (ret_from_sys_call fr)"

subsection \<open>Gates and descriptors (include/asm/system.h)\<close>

definition set_gate :: "u32 \<Rightarrow> u32 \<Rightarrow> u32 \<Rightarrow> desc_struct" where
  "set_gate ty dpl addr = \<lparr>desc_a = 0x00080000 OR (addr AND 0xffff),
     desc_b = (addr AND 0xffff0000) OR ((0x8000 + push_bit 13 dpl + push_bit 8 ty) AND 0xffff)\<rparr>"

type_synonym desc_table = "nat \<Rightarrow> desc_struct"

definition set_intr_gate :: "nat \<Rightarrow> u32 \<Rightarrow> desc_table \<Rightarrow> desc_table" where
  "set_intr_gate n addr idt = idt(n := set_gate 14 0 addr)"

definition set_trap_gate :: "nat \<Rightarrow> u32 \<Rightarrow> desc_table \<Rightarrow> desc_table" where
  "set_trap_gate n addr idt = idt(n := set_gate 15 0 addr)"

definition set_system_gate :: "nat \<Rightarrow> u32 \<Rightarrow> desc_table \<Rightarrow> desc_table" where
  "set_system_gate n addr idt = idt(n := set_gate 15 3 addr)"

definition set_tssldt_desc :: "u32 \<Rightarrow> u32 \<Rightarrow> desc_struct" where
  "set_tssldt_desc addr ty = \<lparr>desc_a = push_bit 16 addr OR 104,
     desc_b = (drop_bit 16 addr AND 0xff) OR push_bit 8 ty OR (addr AND 0xff000000)\<rparr>"

definition set_tss_desc :: "nat \<Rightarrow> u32 \<Rightarrow> desc_table \<Rightarrow> desc_table" where
  "set_tss_desc n addr gdt = gdt(n := set_tssldt_desc addr 0x89)"

definition set_ldt_desc :: "nat \<Rightarrow> u32 \<Rightarrow> desc_table \<Rightarrow> desc_table" where
  "set_ldt_desc n addr gdt = gdt(n := set_tssldt_desc addr 0x82)"

subsection \<open>The interrupt table at the start\<close>

text \<open>The entry points of boot/head.s, kernel/asm.s, kernel/system_call.s, mm/page.s and the drivers.\<close>

datatype entry_point = Ignore_int | Divide_error | Debug | Nmi | Int3 | Overflow | Bounds | Invalid_op |
  Device_not_available | Double_fault | Coprocessor_segment_overrun | Invalid_TSS | Segment_not_present |
  Stack_segment | General_protection | Page_fault | Reserved | Coprocessor_error | Irq13 | Parallel_interrupt |
  Timer_interrupt | System_call | Keyboard_interrupt | Rs1_interrupt | Rs2_interrupt | Hd_interrupt | Floppy_interrupt

definition setup_idt :: "(entry_point \<Rightarrow> u32) \<Rightarrow> desc_table" where
  "setup_idt addr = (\<lambda>n. set_gate 14 0 (addr Ignore_int))"

definition trap_gates :: "(entry_point \<Rightarrow> u32) \<Rightarrow> desc_table \<Rightarrow> desc_table" where
  "trap_gates addr = fold (\<lambda>set. set)
     ([set_trap_gate 0 (addr Divide_error),
       set_trap_gate 1 (addr Debug),
       set_trap_gate 2 (addr Nmi),
       set_system_gate 3 (addr Int3),
       set_system_gate 4 (addr Overflow),
       set_system_gate 5 (addr Bounds),
       set_trap_gate 6 (addr Invalid_op),
       set_trap_gate 7 (addr Device_not_available),
       set_trap_gate 8 (addr Double_fault),
       set_trap_gate 9 (addr Coprocessor_segment_overrun),
       set_trap_gate 10 (addr Invalid_TSS),
       set_trap_gate 11 (addr Segment_not_present),
       set_trap_gate 12 (addr Stack_segment),
       set_trap_gate 13 (addr General_protection),
       set_trap_gate 14 (addr Page_fault),
       set_trap_gate 15 (addr Reserved),
       set_trap_gate 16 (addr Coprocessor_error)] @
      map (\<lambda>i. set_trap_gate i (addr Reserved)) [17..<48] @
      [set_trap_gate 45 (addr Irq13),
       set_trap_gate 39 (addr Parallel_interrupt)])"

definition trap_init :: "(entry_point \<Rightarrow> u32) \<Rightarrow> desc_table \<Rightarrow> desc_table K" where
  "trap_init addr idt = seq (block
     [bnd (inb 0x21) (\<lambda>v. outb (v AND 0xfb) 0x21),
      bnd (inb 0xA1) (\<lambda>v. outb (v AND 0xdf) 0xA1)]) (ret (trap_gates addr idt))"

text \<open>The gates that the other start functions set, in the order \<open>main\<close> calls them.\<close>

definition rs_gates :: "(entry_point \<Rightarrow> u32) \<Rightarrow> desc_table \<Rightarrow> desc_table" where
  "rs_gates addr = set_intr_gate 0x23 (addr Rs2_interrupt) \<circ> set_intr_gate 0x24 (addr Rs1_interrupt)"

definition con_gates :: "(entry_point \<Rightarrow> u32) \<Rightarrow> desc_table \<Rightarrow> desc_table" where
  "con_gates addr = set_trap_gate 0x21 (addr Keyboard_interrupt)"

definition sched_gates :: "(entry_point \<Rightarrow> u32) \<Rightarrow> desc_table \<Rightarrow> desc_table" where
  "sched_gates addr = set_system_gate 0x80 (addr System_call) \<circ> set_intr_gate 0x20 (addr Timer_interrupt)"

definition hd_gates :: "(entry_point \<Rightarrow> u32) \<Rightarrow> desc_table \<Rightarrow> desc_table" where
  "hd_gates addr = set_intr_gate 0x2E (addr Hd_interrupt)"

definition floppy_gates :: "(entry_point \<Rightarrow> u32) \<Rightarrow> desc_table \<Rightarrow> desc_table" where
  "floppy_gates addr = set_trap_gate 0x26 (addr Floppy_interrupt)"

definition main_gates :: "(entry_point \<Rightarrow> u32) \<Rightarrow> desc_table" where
  "main_gates addr = (floppy_gates addr \<circ> hd_gates addr \<circ> sched_gates addr \<circ> con_gates addr \<circ> rs_gates addr \<circ> trap_gates addr)
     (setup_idt addr)"

subsection \<open>The descriptors of the tasks (kernel/sched.c, kernel/fork.c)\<close>

definition FIRST_TSS_ENTRY :: nat where [kconst]: "FIRST_TSS_ENTRY = 4"
definition FIRST_LDT_ENTRY :: nat where [kconst]: "FIRST_LDT_ENTRY = FIRST_TSS_ENTRY + 1"
definition TSS_SEL :: "nat \<Rightarrow> u32" where "TSS_SEL n = push_bit 4 (of_nat n) + of_nat (8 * FIRST_TSS_ENTRY)"

definition set_task_descs :: "nat \<Rightarrow> u32 \<Rightarrow> u32 \<Rightarrow> desc_table \<Rightarrow> desc_table" where
  "set_task_descs nr tss_at ldt_at = set_ldt_desc (2 * nr + FIRST_LDT_ENTRY) ldt_at \<circ> set_tss_desc (2 * nr + FIRST_TSS_ENTRY) tss_at"

definition sched_descs :: "u32 \<Rightarrow> u32 \<Rightarrow> desc_table \<Rightarrow> desc_table" where
  "sched_descs tss_at ldt_at gdt = fold (\<lambda>i gdt. gdt(2 + FIRST_TSS_ENTRY + 2 * (i - 1) := \<lparr>desc_a = 0, desc_b = 0\<rparr>,
       2 + FIRST_TSS_ENTRY + 2 * (i - 1) + 1 := \<lparr>desc_a = 0, desc_b = 0\<rparr>)) [1..<NR_TASKS]
     (set_task_descs 0 tss_at ldt_at gdt)"

lemma small_bits: "take_bit k (w :: 'a :: semiring_bit_operations) = w \<Longrightarrow> bit w n \<Longrightarrow> n < k"
  by (metis bit_take_bit_iff)

lemma mask_numerals:
  "(0xff :: u32) = mask 8" "(0xffff :: u32) = mask 16" "(0xffff0000 :: u32) = NOT (mask 16)" "(0xff000000 :: u32) = NOT (mask 24)"
  by (simp_all add: mask_eq_exp_minus_1)

lemma tssldt_base:
  assumes "take_bit 8 ty = ty"
  shows "get_base (set_tssldt_desc addr ty) = addr"
proof -
  have 1: "bit (104 :: int) n \<Longrightarrow> n < 16" for n by (rule small_bits [of 16 104]) simp_all
  have 2: "bit ty n \<Longrightarrow> n < 8" for n using assms by (rule small_bits)
  show ?thesis
    unfolding get_base_def set_tssldt_desc_def mask_numerals
    by (rule bit_word_eqI) (auto simp: bit_simps dest: 1 2)
qed

subsection \<open>What a gate says to the processor\<close>

definition gate_addr :: "desc_struct \<Rightarrow> u32" where
  "gate_addr d = (desc_a d AND 0xffff) OR (desc_b d AND 0xffff0000)"

definition gate_selector :: "desc_struct \<Rightarrow> u32" where
  "gate_selector d = drop_bit 16 (desc_a d)"

definition gate_present :: "desc_struct \<Rightarrow> bool" where
  "gate_present d = bit (desc_b d) 15"

definition gate_dpl :: "desc_struct \<Rightarrow> u32" where
  "gate_dpl d = drop_bit 13 (desc_b d) AND 3"

definition gate_type :: "desc_struct \<Rightarrow> u32" where
  "gate_type d = drop_bit 8 (desc_b d) AND 0x1f"

lemma gate_fields:
  assumes "ty \<in> {14, 15}" "dpl \<in> {0, 3}"
  shows "gate_addr (set_gate ty dpl addr) = addr" "gate_selector (set_gate ty dpl addr) = 8"
    "gate_present (set_gate ty dpl addr)" "gate_dpl (set_gate ty dpl addr) = dpl" "gate_type (set_gate ty dpl addr) = ty"
proof -
  let ?c = "(0x8000 + push_bit 13 dpl + push_bit 8 ty) AND 0xffff"
  have c: "?c \<in> {0x8e00, 0x8f00, 0xee00, 0xef00}" using assms by auto
  have h: "drop_bit k ((addr AND 0xffff0000) OR w) AND m = drop_bit k w AND m" if "k + j \<le> 16" "m = mask j" for k j m and w :: u32
    using that by (intro bit_word_eqI) (auto simp: bit_simps mask_numerals)
  have h13: "drop_bit 13 ((addr AND 0xffff0000) OR w) AND 3 = drop_bit 13 w AND 3" for w
    by (rule h [where j = 2]) (simp_all add: mask_eq_exp_minus_1)
  have h8: "drop_bit 8 ((addr AND 0xffff0000) OR w) AND 0x1f = drop_bit 8 w AND 0x1f" for w
    by (rule h [where j = 5]) (simp_all add: mask_eq_exp_minus_1)
  have d: "gate_dpl (set_gate ty dpl addr) = drop_bit 13 ?c AND 3" "gate_type (set_gate ty dpl addr) = drop_bit 8 ?c AND 0x1f"
    unfolding gate_dpl_def gate_type_def set_gate_def desc_struct.simps h13 h8 by (rule refl)+
  show "gate_addr (set_gate ty dpl addr) = addr"
  proof -
    have 1: "bit (0x80000 :: int) n \<Longrightarrow> \<not> n < 16" for n
      using bit_exp_iff [of 19 n, where 'a = int] by simp
    show ?thesis
      unfolding gate_addr_def set_gate_def desc_struct.simps mask_numerals
      by (rule bit_word_eqI) (auto simp: bit_simps dest: 1)
  qed
  show "gate_selector (set_gate ty dpl addr) = 8"
  proof -
    have "drop_bit 16 (addr AND 0xffff) = 0" by (rule bit_word_eqI) (auto simp: bit_simps mask_numerals)
    then show ?thesis by (simp add: gate_selector_def set_gate_def)
  qed
  show "gate_present (set_gate ty dpl addr)"
    using c by (auto simp: gate_present_def set_gate_def bit_or_iff)
  show "gate_dpl (set_gate ty dpl addr) = dpl" "gate_type (set_gate ty dpl addr) = ty"
    unfolding d using assms by auto
qed

text \<open>The vectors and their handlers, as the processor and the interrupt controllers number them.\<close>

definition vector :: "nat \<Rightarrow> entry_point" where
  "vector n = (if n < 17 then [Divide_error, Debug, Nmi, Int3, Overflow, Bounds, Invalid_op, Device_not_available,
       Double_fault, Coprocessor_segment_overrun, Invalid_TSS, Segment_not_present, Stack_segment,
       General_protection, Page_fault, Reserved, Coprocessor_error] ! n
     else if n = 32 then Timer_interrupt else if n = 33 then Keyboard_interrupt else if n = 35 then Rs2_interrupt
     else if n = 36 then Rs1_interrupt else if n = 38 then Floppy_interrupt else if n = 39 then Parallel_interrupt
     else if n = 45 then Irq13 else if n = 46 then Hd_interrupt else if n < 48 then Reserved
     else if n = 128 then System_call else Ignore_int)"

definition user_vectors :: "nat set" where
  "user_vectors = {3, 4, 5, 128}"

definition interrupt_gates :: "nat \<Rightarrow> bool" where
  "interrupt_gates n \<longleftrightarrow> n \<in> {32, 35, 36, 46} \<or> 48 \<le> n \<and> n \<noteq> 128"

lemma reserved_gates:
  "fold (\<lambda>set. set) (map (\<lambda>i. set_trap_gate i a) [m..<n]) idt = (\<lambda>i. if m \<le> i \<and> i < n then set_gate 15 0 a else idt i)"
  by (induction n) (auto simp: set_trap_gate_def fun_eq_iff)

lemmas gate_setters = set_intr_gate_def set_trap_gate_def set_system_gate_def

lemmas trap_table = main_gates_def floppy_gates_def hd_gates_def sched_gates_def con_gates_def rs_gates_def trap_gates_def
  setup_idt_def comp_def fold_append reserved_gates

lemma main_gate:
  "main_gates addr n = set_gate (if interrupt_gates n then 14 else 15) (if n \<in> user_vectors then 3 else 0) (addr (vector n))"
proof -
  have low: "n < 17 \<Longrightarrow> n = 0 \<or> n = 1 \<or> n = 2 \<or> n = 3 \<or> n = 4 \<or> n = 5 \<or> n = 6 \<or> n = 7 \<or> n = 8 \<or> n = 9 \<or> n = 10 \<or>
      n = 11 \<or> n = 12 \<or> n = 13 \<or> n = 14 \<or> n = 15 \<or> n = 16" by presburger
  have g: "main_gates addr n = (if n = 38 then set_gate 15 0 (addr Floppy_interrupt) else if n = 46 then set_gate 14 0 (addr Hd_interrupt)
    else if n = 128 then set_gate 15 3 (addr System_call) else if n = 32 then set_gate 14 0 (addr Timer_interrupt)
    else if n = 33 then set_gate 15 0 (addr Keyboard_interrupt) else if n = 35 then set_gate 14 0 (addr Rs2_interrupt)
    else if n = 36 then set_gate 14 0 (addr Rs1_interrupt) else if n = 39 then set_gate 15 0 (addr Parallel_interrupt)
    else if n = 45 then set_gate 15 0 (addr Irq13) else if 17 \<le> n \<and> n < 48 then set_gate 15 0 (addr Reserved)
    else if n < 17 then set_gate 15 (if n \<in> {3, 4, 5} then 3 else 0) (addr (vector n)) else set_gate 14 0 (addr Ignore_int))"
  proof (cases "n < 17")
    case True
    from low [OF this] show ?thesis
      unfolding trap_table by (elim disjE) (simp_all add: gate_setters vector_def)
  next
    case False
    then have "n \<noteq> 0" "n \<noteq> 1" "n \<noteq> 2" "n \<noteq> 3" "n \<noteq> 4" "n \<noteq> 5" "n \<noteq> 6" "n \<noteq> 7" "n \<noteq> 8" "n \<noteq> 9" "n \<noteq> 10" "n \<noteq> 11"
      "n \<noteq> 12" "n \<noteq> 13" "n \<noteq> 14" "n \<noteq> 15" "n \<noteq> 16" by auto
    with False show ?thesis unfolding trap_table by (simp add: gate_setters)
  qed
  show ?thesis
    unfolding g by (auto simp: vector_def user_vectors_def interrupt_gates_def)
qed

text \<open>
  C21. When the start functions have run, every one of the 256 vectors has a present gate into the
  kernel's code segment that leads to the handler of that exception or interrupt (or to the one that
  ignores it), and a program can only raise the breakpoint, overflow, bounds and system call vectors
  by an \<open>int\<close> instruction.
\<close>

lemma interrupt_table:
  fixes addr :: "entry_point \<Rightarrow> u32"
  defines "idt \<equiv> main_gates addr"
  shows "\<forall>n<256. gate_present (idt n) \<and> gate_selector (idt n) = 8 \<and> gate_addr (idt n) = addr (vector n) \<and>
    (gate_dpl (idt n) = 3 \<longleftrightarrow> n \<in> {3, 4, 5, 0x80}) \<and> (gate_dpl (idt n) = 0 \<longleftrightarrow> n \<notin> {3, 4, 5, 0x80}) \<and>
    gate_type (idt n) = (if interrupt_gates n then 14 else 15)"
proof (intro allI impI)
  fix n
  let ?ty = "if interrupt_gates n then 14 else 15" and ?dpl = "if n \<in> user_vectors then 3 else 0"
  have "?ty \<in> {14, 15}" "?dpl \<in> {0, 3}" by simp_all
  note f = gate_fields [OF this, of "addr (vector n)", folded main_gate]
  show "gate_present (idt n) \<and> gate_selector (idt n) = 8 \<and> gate_addr (idt n) = addr (vector n) \<and>
    (gate_dpl (idt n) = 3 \<longleftrightarrow> n \<in> {3, 4, 5, 0x80}) \<and> (gate_dpl (idt n) = 0 \<longleftrightarrow> n \<notin> {3, 4, 5, 0x80}) \<and>
    gate_type (idt n) = ?ty"
    unfolding idt_def using f by (simp add: user_vectors_def)
qed

lemma interrupt_table_witness:
  "gate_addr (main_gates (\<lambda>h. if h = System_call then 0x6900 else 0x5400) 0x80) = 0x6900 \<and>
   gate_dpl (main_gates (\<lambda>h. if h = System_call then 0x6900 else 0x5400) 14) = 0"
  using interrupt_table [of "\<lambda>h. if h = System_call then 0x6900 else 0x5400", rule_format, of 128]
    interrupt_table [of "\<lambda>h. if h = System_call then 0x6900 else 0x5400", rule_format, of 14]
  by (simp add: vector_def)

subsection \<open>Tasks and faults\<close>

text \<open>The descriptors of two tasks never meet, hold their addresses, and the selectors name them.\<close>

lemma task_descriptors:
  assumes "nr < 64" "k < 64"
  shows "get_base (set_task_descs nr tss_at ldt_at gdt (unat (TSS_SEL nr) div 8)) = tss_at"
    "get_base (set_task_descs nr tss_at ldt_at gdt (unat (LDT_SEL nr) div 8)) = ldt_at"
    "k \<noteq> nr \<Longrightarrow> set_task_descs nr tss_at ldt_at gdt (unat (TSS_SEL k) div 8) = gdt (unat (TSS_SEL k) div 8)"
    "k \<noteq> nr \<Longrightarrow> set_task_descs nr tss_at ldt_at gdt (unat (LDT_SEL k) div 8) = gdt (unat (LDT_SEL k) div 8)"
proof -
  have s: "unat (TSS_SEL i) div 8 = 2 * i + 4" "unat (LDT_SEL i) div 8 = 2 * i + 5" if "i < 64" for i
    using that by (simp_all add: TSS_SEL_def LDT_SEL_def kconst push_bit_eq_mult unat_word_ariths unat_of_nat)
  have t: "take_bit 8 (0x89 :: u32) = 0x89" "take_bit 8 (0x82 :: u32) = 0x82" by simp_all
  show "get_base (set_task_descs nr tss_at ldt_at gdt (unat (TSS_SEL nr) div 8)) = tss_at"
    "get_base (set_task_descs nr tss_at ldt_at gdt (unat (LDT_SEL nr) div 8)) = ldt_at"
    using assms by (simp_all add: s set_task_descs_def set_tss_desc_def set_ldt_desc_def kconst tssldt_base t)
  show "k \<noteq> nr \<Longrightarrow> set_task_descs nr tss_at ldt_at gdt (unat (TSS_SEL k) div 8) = gdt (unat (TSS_SEL k) div 8)"
    "k \<noteq> nr \<Longrightarrow> set_task_descs nr tss_at ldt_at gdt (unat (LDT_SEL k) div 8) = gdt (unat (LDT_SEL k) div 8)"
    using assms by (auto simp: s set_task_descs_def set_tss_desc_def set_ldt_desc_def kconst; presburger)+
qed

text \<open>A fault ends the task that makes it: only a breakpoint and a late coprocessor error return.\<close>

lemma faults_end_the_task:
  assumes "f \<in> {do_double_fault, do_general_protection, do_divide_error, do_nmi, do_debug, do_overflow, do_bounds,
    do_invalid_op, do_device_not_available, do_coprocessor_segment_overrun, do_invalid_TSS, do_segment_not_present,
    do_stack_segment, do_reserved}"
  shows "f esp code s es \<noteq> Ret () s' es'"
  using assms
  by (auto simp: do_double_fault_def do_general_protection_def do_divide_error_def do_nmi_def do_debug_def do_overflow_def
      do_bounds_def do_invalid_op_def do_device_not_available_def do_coprocessor_segment_overrun_def do_invalid_TSS_def
      do_segment_not_present_def do_stack_segment_def do_reserved_def die_def do_exit_stops)

lemma coprocessor_error_owner:
  "last_task_used_math s \<noteq> Some (current s) \<Longrightarrow> do_coprocessor_error esp code s es = Ret () s es"
  by (simp add: do_coprocessor_error_def krun)

end
