(* ===== verification/Spec2Isabelle.thy ===== *)
theory Spec2Isabelle
  imports Paging Sched Elevator Rdisk Chs Cacheframe Namei Files Mktime Sys Forking Vsprintf Exec Setup Zones Argstack Malloc Cstring Traps
begin

text \<open>
  A model of the Linux 0.11 kernel: the C code under mm/, kernel/, fs/, lib/, init/ and include/, with
  the assembly of kernel/system_call.s and mm/page.s that joins it to the processor.

  \<^bold>\<open>The program.\<close>  A program enters the kernel through \<open>int $0x80\<close> (kernel/system_call.s), which calls
  a function of \<open>sys_call_table\<close>.  The calls work on open files (fs/read_write.c, open.c, fcntl.c), which
  name inodes (fs/inode.c, namei.c, bitmap.c, super.c) whose blocks are in the buffer cache
  (fs/buffer.c).  The cache puts requests into the queues of the drivers (kernel/blk_drv/), whose
  interrupts end them and wake the tasks that wait (kernel/sched.c).  Terminals (kernel/chr_drv/) and
  pipes (fs/pipe.c) are rings of characters.  Tasks are made by kernel/fork.c, end in kernel/exit.c,
  run new programs by fs/exec.c and share pages through mm/memory.c.

  \<^bold>\<open>State and computations.\<close>  The record \<open>kernel\<close> of Kstate has one field per global variable, with
  the structures of include/linux/ as records with the fields of the source.  A pointer is an index
  into the array it points into (buffers, inodes, files, requests, super blocks) or the address of a
  task; \<open>None\<close> is NULL.  \<open>phys\<close> is the physical memory in words, \<open>umem\<close> the user space of the running
  task in bytes.  An \<open>int\<close> or \<open>long\<close> on which the code computes is an \<open>int\<close> in the signed range, cut
  by \<open>wrap32\<close> where it can overflow; unsigned and bit-wise values are words of their width.

  A call of a kernel function is a computation of Kmonad: it maps a state and a script to a value, a
  new state and the rest of the script (\<open>Ret\<close>), or stops (\<open>Stop\<close>) with the reason: a panic, the end
  of the task, a sleep from which the script does not wake it, an endless loop (\<open>Hung\<close>) or a
  pointer outside its object (\<open>Wild\<close>).  The kernel is not preemptive, so other tasks and interrupts
  act only when a task sleeps: the script lists what they do to the state, one entry per sleep, and a
  theorem for all scripts holds for every interleaving.  Errors are the negative numbers of the code.

  \<^bold>\<open>Theories and source files.\<close>
    \<^item> Prelude, Kmonad, Keep, Links, Ringbuf: words, searches, computations with their run and
      weakest-precondition rules, invariants of computations (\<open>keeps\<close>), doubly linked lists, rings.
      The interface \<open>byte_queue\<close> of Ringbuf is what a pipe promises to its readers and writers.
    \<^item> Kstate: the data; include/linux/*.h, signal.h, errno.h, termios.h, asm/io.h.  Usermem:
      include/asm/segment.h and \<open>verify_area\<close> of kernel/fork.c.
    \<^item> Memory: mm/memory.c.  Pagetab, Cow, Paging: the page tables as a set of locations, the
      invariant of copy-on-write and what fork, faults and exit do to the pages of a task.
    \<^item> Sched: kernel/sched.c, queues, timers, the choice of the next task.
    \<^item> Blkdev, Ramdisk, Hd, Floppy, Ll_rw: kernel/blk_drv/.  Elevator, Rdisk, Chs: the order of the
      request queue, a round trip through the ram disk, the command that reaches the hard disk.
    \<^item> Cache: fs/buffer.c.  Bufcache, Cacheframe: the cache as a data structure, and the interface
      \<open>cache_frame\<close> that says what the code below the cache may change.
    \<^item> Bitmap, Inode, Super, Namei: fs/bitmap.c, truncate.c, inode.c, super.c, namei.c.  Zones: the zone
      map as a set.
    \<^item> Files, Pipe, Fileio: fs/read_write.c, open.c, fcntl.c, stat.c, ioctl.c, char_dev.c, block_dev.c,
      file_dev.c and pipe.c; a file as an array of bytes, a pipe as a queue.
    \<^item> Tty, Console, Ttyio, Ctype: kernel/chr_drv/tty_io.c, tty_ioctl.c, serial.c, console.c, lib/ctype.c.
    \<^item> Sys, Process, Forking: kernel/sys.c, exit.c, signal.c, fork.c.  Mktime: kernel/mktime.c and
      \<open>time_init\<close>.  Vsprintf: kernel/vsprintf.c.
    \<^item> Exec, Argstack: fs/exec.c, include/a.out.h, demand loading; the stack of a new program.
    \<^item> Malloc: lib/malloc.c.  Cstring: include/string.h, one processor instruction after the other.
    \<^item> Setup: \<open>main\<close> of init/main.c up to \<open>sti()\<close>, \<open>sys_setup\<close>, \<open>rd_load\<close>, \<open>sched_init\<close>.
    \<^item> Syscall: kernel/system_call.s, include/linux/sys.h, mm/page.s, include/unistd.h and the calls of
      lib/.  Traps: kernel/traps.c, kernel/math/math_emulate.c, include/asm/system.h, interrupt table.

  \<^bold>\<open>What is shown.\<close>
    \<^item> Memory: in every reachable state a writable page has one owner, so no store of a task is seen
      by another; fork shares every page read-only, a write fault gives a private copy, exit unmaps
      exactly its own pages.  The blocks of \<open>malloc\<close> in use never overlap, and \<open>free_s\<close> returns exactly one.
    \<^item> Scheduling: \<open>schedule\<close> ends and picks a runnable task of the largest counter; a queue loses no
      sleeper; signals wake exactly the tasks they should; what \<open>add_timer\<close> does to the delta list.
    \<^item> Files: a file is an array of bytes for \<open>file_write\<close> and \<open>file_read\<close>; zones are allocated and freed
      one at a time; the cache never holds a block twice, whatever happens while \<open>getblk\<close> sleeps; the
      request queue is made of two ascending runs; the ram disk gives back what was written; the hard
      disk is told the right sector; a pipe is a first-in first-out queue.
    \<^item> Processes: the child of a fork is a copy with its own number and counted files; process
      numbers are fresh; signals and ids obey the permission rules; \<open>create_tables\<close> lays out the
      stack that programs expect.
    \<^item> Entry: a library call runs the kernel function of its name and translates its errors; no call
      changes the mode of its caller; signals are taken one by one, lowest first, on a stack with the
      registers to return to; after the start a program can raise four vectors only.
    \<^item> Library and start: \<open>kernel_mktime\<close> agrees with the calendar, \<open>number\<close> of \<open>vsprintf\<close> can be read
      back, the string functions agree with functions on lists, and \<open>main\<close> establishes the
      invariants of the components.

  \<^bold>\<open>Bounds and fuel.\<close>  A loop that goes round only by sleeping has one round more than the script is
  long (\<open>with_fuel\<close>), twice as many where it may go round once without a sleep (\<open>retry_twice\<close>).  Walks along
  buffers, requests and timers are bounded by the sizes of their tables, loops over user strings by
  \<open>2 ^ 32\<close>, after which the addresses come round again.  \<open>schedule\<close> tries 100 rounds, and Sched shows that
  two are enough when priorities are positive.  \<open>find_empty_process\<close> tries 65 numbers, one of which is
  free; \<open>do_fd_request\<close> is nested twice, and Floppy shows that this is the recursion of the code;
  \<open>getblk\<close> is nested as deep as there are inodes to lock, \<open>tty_write\<close> as deep as the write queue is
  long.  Running out of fuel is the stop \<open>Hung\<close>, never a result.

  \<^bold>\<open>Not modelled.\<close>  The messages of \<open>printk\<close> and the \<open>sync\<close> that \<open>panic\<close> tries (a panic ends the
  computation); keyboard.S and rs_io.s, whose effect on the queues is a step of the script; boot/,
  whose result is a hypothesis of the theorem about \<open>main\<close>; \<open>init\<close> of init/main.c and tools/build.c,
  which are user programs; the transfer of the DMA controller; the registers, segment loads and
  translation caches of the processor beyond the saved frame.  Ports are read from an arbitrary
  function of port and time and written to a log.  What demand loading shows below the argument pages
  of a new program, and the old contents of the kernel stack that \<open>stat\<close> and \<open>ioctl\<close> copy out, are
  parameters.
\<close>

end
